(* ===== verification/Prelude.thy ===== *)
theory Prelude
  imports Main "HOL-Library.Word" "HOL-Library.Multiset"
begin

unbundle bit_operations_syntax

text \<open>
  Shared vocabulary of the development: the C integer types the firmware uses, the signed
  32-bit type of the playback metrics with its order, little-endian byte access, the list view
  of a ring buffer, and pointer guards. The lemmas here are about these notions only.
\<close>

section \<open>Integer types\<close>

type_synonym u8 = "8 word"
type_synonym u16 = "16 word"
type_synonym u32 = "32 word"
type_synonym u64 = "64 word"

text \<open>
  \<open>size_t\<close> and array indices are \<^typ>\<open>nat\<close>: no index of the firmware leaves the bounds of its
  array, which the invariants of the components state. Counters that the code lets wrap
  (\<open>uint16_t\<close> ring positions, \<open>uint8_t\<close> command positions, \<open>uint32_t\<close> statistics) keep their width.
\<close>

named_theorems pico_constants \<open>values of the protocol's message types, modes and reasons\<close>

section \<open>The ring view\<close>

text \<open>
  The \<open>n\<close> elements of a circular buffer from position \<open>start\<close> on.
\<close>

definition ring_view :: "'a list \<Rightarrow> nat \<Rightarrow> nat \<Rightarrow> 'a list" where
  "ring_view buf start n = map (\<lambda>i. buf ! ((start + i) mod length buf)) [0..<n]"

lemma length_ring_view [simp]: "length (ring_view buf start n) = n"
  by (simp add: ring_view_def)

lemma ring_view_0 [simp]: "ring_view buf start 0 = []"
  by (simp add: ring_view_def)

lemma ring_view_eq_Nil [simp]: "ring_view buf start n = [] \<longleftrightarrow> n = 0"
  by (simp add: ring_view_def)

lemma ring_view_nth: "i < n \<Longrightarrow> ring_view buf start n ! i = buf ! ((start + i) mod length buf)"
  by (simp add: ring_view_def)

lemma ring_view_mod [simp]:
  "ring_view buf (start mod length buf) n = ring_view buf start n"
  by (simp add: ring_view_def mod_simps)

lemma ring_view_Suc:
  "ring_view buf start (Suc n) = buf ! (start mod length buf) # ring_view buf (Suc start) n"
  by (rule nth_equalityI) (auto simp: ring_view_nth nth_Cons split: nat.split)

lemma ring_slots_distinct:
  assumes "i < n" "n < N"
  shows "(start + i) mod N \<noteq> (start + n) mod (N::nat)"
proof
  assume "(start + i) mod N = (start + n) mod N"
  then have "N dvd (start + n) - (start + i)"
    using assms by (metis add_left_mono less_imp_le mod_eq_dvd_iff_nat)
  with assms show False by (simp add: nat_dvd_not_less)
qed

lemma ring_view_append:
  assumes "n < length buf"
  shows "ring_view (buf[(start + n) mod length buf := x]) start (Suc n) = ring_view buf start n @ [x]"
proof (rule nth_equalityI)
  fix i assume "i < length (ring_view (buf[(start + n) mod length buf := x]) start (Suc n))"
  then have i: "i < Suc n" by simp
  have pos: "(start + n) mod length buf < length buf"
    using assms by (intro mod_less_divisor) linarith
  show "ring_view (buf[(start + n) mod length buf := x]) start (Suc n) ! i
      = (ring_view buf start n @ [x]) ! i"
  proof (cases "i = n")
    case True
    with pos show ?thesis by (simp add: ring_view_nth nth_append)
  next
    case False
    with i have "i < n" by simp
    with assms i show ?thesis
      using ring_slots_distinct [of i n "length buf" start]
      by (simp add: ring_view_nth nth_append)
  qed
qed simp

lemma ring_view_full_update:
  assumes "n \<le> k" "k < length buf"
  shows "ring_view (buf[(start + k) mod length buf := x]) start n = ring_view buf start n"
proof (rule nth_equalityI)
  fix i assume "i < length (ring_view (buf[(start + k) mod length buf := x]) start n)"
  then have "i < n" by simp
  with assms have "(start + i) mod length buf \<noteq> (start + k) mod length buf"
    by (intro ring_slots_distinct) auto
  with \<open>i < n\<close> show "ring_view (buf[(start + k) mod length buf := x]) start n ! i = ring_view buf start n ! i"
    by (simp add: ring_view_nth)
qed simp

lemma ring_index_advance:
  assumes "0 < c"
  shows "((r + 1) mod N + (c - 1)) mod N = (r + c) mod (N::nat)"
  using assms by (cases c) (simp_all add: mod_simps)

section \<open>Free-running ring positions\<close>

text \<open>
  The UART rings keep \<open>head\<close> and \<open>tail\<close> as counters of a fixed width that are never reset: the
  fill level is the wrapped difference and the slot is the counter modulo the capacity. This is
  right because each capacity divides \<open>2 ^ w\<close>.
\<close>

definition ring_used :: "'w::len word \<Rightarrow> 'w word \<Rightarrow> nat" where
  "ring_used head tail = unat (head - tail)"

lemma ring_used_same [simp]: "ring_used h h = 0"
  by (simp add: ring_used_def)

lemma ring_used_eq_0 [simp]: "ring_used h t = 0 \<longleftrightarrow> h = t"
  by (simp add: ring_used_def unat_eq_zero)

lemma ring_used_pos: "h \<noteq> t \<Longrightarrow> 0 < ring_used h t"
  using ring_used_eq_0 [of h t] by (auto simp del: ring_used_eq_0)

lemma ring_used_push:
  fixes h t :: "'w::len word"
  assumes "ring_used h t < 2 ^ LENGTH('w) - 1"
  shows "ring_used (h + 1) t = Suc (ring_used h t)"
proof -
  have "h + 1 - t = (h - t) + 1" by simp
  moreover have "unat ((h - t) + 1) = Suc (unat (h - t))"
    using assms by (simp add: ring_used_def unat_word_ariths)
  ultimately show ?thesis by (simp only: ring_used_def)
qed

lemma ring_used_pop:
  fixes h t :: "'w::len word"
  assumes "h \<noteq> t"
  shows "ring_used h (t + 1) = ring_used h t - 1"
proof -
  have "h - (t + 1) = (h - t) - 1" by simp
  moreover have "unat ((h - t) - 1) = unat (h - t) - 1" using assms by (intro unat_minus_one) simp
  ultimately show ?thesis by (simp only: ring_used_def)
qed

lemma ring_head_slot:
  fixes h t :: "'w::len word"
  assumes "N dvd 2 ^ LENGTH('w)"
  shows "unat h mod N = (unat t + ring_used h t) mod N"
proof -
  have "h = t + (h - t)" by simp
  then have "unat h = (unat t + unat (h - t)) mod 2 ^ LENGTH('w)"
    by (metis unat_word_ariths(1))
  then have "unat h mod N = (unat t + unat (h - t)) mod 2 ^ LENGTH('w) mod N" by simp
  with assms show ?thesis by (simp add: mod_mod_cancel ring_used_def)
qed

lemma ring_tail_next:
  fixes t :: "'w::len word"
  assumes "N dvd 2 ^ LENGTH('w)"
  shows "unat (t + 1) mod N = Suc (unat t) mod N"
proof -
  have "unat (t + 1) mod N = (unat t + 1) mod 2 ^ LENGTH('w) mod N"
    by (simp add: unat_word_ariths)
  with assms show ?thesis by (simp add: mod_mod_cancel)
qed

lemma ring_view_word_push:
  fixes h t :: "'w::len word"
  assumes "length buf dvd 2 ^ LENGTH('w)" "ring_used h t < length buf"
  shows "ring_view (buf[unat h mod length buf := x]) (unat t) (Suc (ring_used h t))
       = ring_view buf (unat t) (ring_used h t) @ [x]"
  using ring_view_append [OF assms(2), of "unat t" x] ring_head_slot [OF assms(1), of h t]
  by simp

lemma ring_view_word_pop:
  fixes t :: "'w::len word"
  assumes "length buf dvd 2 ^ LENGTH('w)"
  shows "ring_view buf (unat t) (Suc n) = buf ! (unat t mod length buf) # ring_view buf (unat (t + 1)) n"
proof -
  have "ring_view buf (unat (t + 1)) n = ring_view buf (unat (t + 1) mod length buf) n" by simp
  also have "\<dots> = ring_view buf (Suc (unat t)) n" by (simp only: ring_tail_next [OF assms] ring_view_mod)
  finally show ?thesis by (simp add: ring_view_Suc)
qed

section \<open>Signed 32-bit values\<close>

text \<open>
  \<open>int32_t\<close>: 32 bits read as two's complement. Comparisons in the code (\<open><\<close>, \<open>>\<close>) are the signed
  ones, so the type carries the signed order.
\<close>

datatype i32 = I32 (i32_bits: u32)

definition i32_int :: "i32 \<Rightarrow> int" where
  "i32_int x = sint (i32_bits x)"

definition i32_of_int :: "int \<Rightarrow> i32" where
  "i32_of_int k = I32 (word_of_int k)"

lemma i32_int_inject [simp]: "i32_int x = i32_int y \<longleftrightarrow> x = y"
  by (cases x; cases y) (auto simp: i32_int_def intro: signed_word_eqI)

lemma i32_int_bounds: "-2147483648 \<le> i32_int x" "i32_int x \<le> 2147483647"
  using sint_greater_eq [of "i32_bits x"] sint_less [of "i32_bits x"]
  by (simp_all add: i32_int_def)

lemma i32_int_of_int:
  assumes "-2147483648 \<le> k" "k \<le> 2147483647"
  shows "i32_int (i32_of_int k) = k"
proof -
  have "sint (word_of_int k :: u32) = signed_take_bit 31 k"
    by (simp add: sint_sbintrunc')
  also have "\<dots> = k" using assms by (intro signed_take_bit_int_eq_self) simp_all
  finally show ?thesis by (simp add: i32_int_def i32_of_int_def)
qed

instantiation i32 :: linorder
begin

definition less_eq_i32 :: "i32 \<Rightarrow> i32 \<Rightarrow> bool" where
  "less_eq_i32 x y \<longleftrightarrow> i32_int x \<le> i32_int y"

definition less_i32 :: "i32 \<Rightarrow> i32 \<Rightarrow> bool" where
  "less_i32 x y \<longleftrightarrow> i32_int x < i32_int y"

instance
  by standard (auto simp: less_eq_i32_def less_i32_def)

end

instantiation i32 :: zero
begin

definition zero_i32 :: i32 where
  "zero_i32 = I32 0"

instance by standard

end

lemma i32_int_0 [simp]: "i32_int 0 = 0"
  by (simp add: i32_int_def zero_i32_def)

section \<open>Little-endian bytes\<close>

text \<open>
  \<open>write_u64_le\<close> and \<open>write_u32_le\<close> of main.c store the low byte and shift right, eight and four
  times; \<open>read_u64_le\<close> ors the bytes back at their places. The loops are the same up to the
  count.
\<close>

primrec write_le :: "nat \<Rightarrow> 'w::len word \<Rightarrow> u8 list" where
  "write_le 0 value = []"
| "write_le (Suc n) value = ucast (value AND 0xFF) # write_le n (drop_bit 8 value)"

definition read_le :: "nat \<Rightarrow> u8 list \<Rightarrow> 'w::len word" where
  "read_le n bytes = fold (\<lambda>i value. value OR push_bit (8 * i) (ucast (bytes ! i))) [0..<n] 0"

lemma length_write_le [simp]: "length (write_le n v) = n"
  by (induction n arbitrary: v) simp_all

lemma write_le_nth: "i < n \<Longrightarrow> write_le n v ! i = ucast (drop_bit (8 * i) v AND 0xFF)"
proof (induction n arbitrary: i v)
  case (Suc n)
  then show ?case by (cases i) (simp_all add: algebra_simps)
qed simp

lemma read_le_Suc:
  "read_le (Suc n) bytes = read_le n bytes OR push_bit (8 * n) (ucast (bytes ! n))"
  by (simp add: read_le_def)

lemma and_0xFF: "(v :: 'w::len word) AND 0xFF = take_bit 8 v"
  by (simp add: take_bit_eq_mask mask_eq_exp_minus_1)

lemma bit_byte_of_word:
  fixes v :: "'w::len word"
  shows "bit (ucast (drop_bit k v AND 0xFF) :: u8) j \<longleftrightarrow> j < 8 \<and> bit v (k + j)"
  by (auto simp: and_0xFF bit_simps dest: bit_imp_le_length)

lemma read_write_le_bits:
  fixes v :: "'w::len word"
  assumes "n \<le> m"
  shows "bit (read_le n (write_le m v) :: 'w word) j \<longleftrightarrow> j < 8 * n \<and> bit v j"
  using assms
proof (induction n)
  case 0
  then show ?case by (simp add: read_le_def)
next
  case (Suc n)
  then have m: "n < m" and IH: "bit (read_le n (write_le m v) :: 'w word) j \<longleftrightarrow> j < 8 * n \<and> bit v j"
    by simp_all
  have "bit (push_bit (8 * n) (ucast (write_le m v ! n)) :: 'w word) j
      \<longleftrightarrow> 8 * n \<le> j \<and> j < 8 * Suc n \<and> bit v j"
    using m by (auto simp: bit_push_bit_iff bit_ucast_iff write_le_nth and_0xFF bit_take_bit_iff
        bit_drop_bit_eq dest: bit_imp_le_length)
  with IH show ?case by (auto simp: read_le_Suc bit_or_iff)
qed

lemma read_write_le:
  fixes v :: "'w::len word"
  assumes "LENGTH('w) \<le> 8 * n" "n \<le> m"
  shows "read_le n (write_le m v) = v"
  using assms by (intro bit_word_eqI) (simp add: read_write_le_bits)

lemma read_le_append:
  assumes "n \<le> length xs"
  shows "read_le n (xs @ ys) = (read_le n xs :: 'w::len word)"
  using assms by (induction n) (simp_all add: read_le_Suc read_le_def [of 0] nth_append)

definition read_u64_le :: "u8 list \<Rightarrow> u64" where
  "read_u64_le bytes = read_le 8 bytes"

definition write_u64_le :: "u64 \<Rightarrow> u8 list" where
  "write_u64_le value = write_le 8 value"

definition write_u32_le :: "u32 \<Rightarrow> u8 list" where
  "write_u32_le value = write_le 4 value"

lemma length_write_u64_le [simp]: "length (write_u64_le v) = 8"
  by (simp add: write_u64_le_def)

lemma length_write_u32_le [simp]: "length (write_u32_le v) = 4"
  by (simp add: write_u32_le_def)

lemma read_write_u64_le [simp]: "read_u64_le (write_u64_le v @ rest) = v"
  by (simp add: read_u64_le_def write_u64_le_def read_le_append read_write_le)

text \<open>A \<open>uint16_t\<close> from two bytes, and its low and high byte.\<close>

definition u16_le :: "u8 \<Rightarrow> u8 \<Rightarrow> u16" where
  "u16_le lo hi = ucast lo OR push_bit 8 (ucast hi)"

definition lo8 :: "u16 \<Rightarrow> u8" where
  "lo8 v = ucast (v AND 0xFF)"

definition hi8 :: "u16 \<Rightarrow> u8" where
  "hi8 v = ucast (drop_bit 8 v)"

lemma u16_le_split [simp]: "u16_le (lo8 v) (hi8 v) = v"
  by (rule bit_word_eqI) (auto simp: and_0xFF u16_le_def lo8_def hi8_def bit_simps dest: bit_imp_le_length)

lemma lo8_u16_le [simp]: "lo8 (u16_le lo hi) = lo"
  by (rule bit_word_eqI) (auto simp: and_0xFF u16_le_def lo8_def bit_simps dest: bit_imp_le_length)

lemma hi8_u16_le [simp]: "hi8 (u16_le lo hi) = hi"
  by (rule bit_word_eqI) (auto simp: u16_le_def hi8_def bit_simps dest: bit_imp_le_length)

lemma word_xor_cancel_right: "(a XOR c = b XOR c) \<longleftrightarrow> a = (b :: 'w::len word)"
  by (metis xor.assoc xor.right_neutral xor_self_eq)

lemma word_xor_cancel_left: "(c XOR a = c XOR b) \<longleftrightarrow> a = (b :: 'w::len word)"
  by (simp add: word_xor_cancel_right xor.commute [of c])

lemma take_plus4 [simp]: "take (4 + n) (a # b # c # d # xs) = a # b # c # d # take n xs"
  by (simp add: numeral_eq_Suc)

lemma length_2E: "length xs = 2 \<Longrightarrow> (\<And>a b. xs = [a, b] \<Longrightarrow> P) \<Longrightarrow> P"
  by (auto simp: numeral_eq_Suc length_Suc_conv)

section \<open>Pointer guards\<close>

text \<open>
  Most functions of the firmware begin with \<open>if (object == NULL) return ...\<close>. The model of such
  a function works on the object itself; \<open>on_ptr\<close> is the guard in front of it, for a pointer that
  may be \<open>NULL\<close> (\<^const>\<open>None\<close>).
\<close>

definition on_ptr :: "'r \<Rightarrow> ('o \<Rightarrow> 'r \<times> 'o) \<Rightarrow> 'o option \<Rightarrow> 'r \<times> 'o option" where
  "on_ptr dflt f p = (case p of None \<Rightarrow> (dflt, None) | Some obj \<Rightarrow> map_prod id Some (f obj))"

lemma on_ptr_None [simp]: "on_ptr d f None = (d, None)"
  by (simp add: on_ptr_def)

lemma on_ptr_Some [simp]: "on_ptr d f (Some obj) = map_prod id Some (f obj)"
  by (simp add: on_ptr_def)

end
