(* ===== verification/Playback_Metrics.thy ===== *)
theory Playback_Metrics
  imports Prelude
begin

text \<open>
  The state of \<open>pico/src/playback_scheduler.c\<close> and its measurements: the running minimum, maximum
  and sum of the lateness, the bounded sample log, the insertion sort of the log and the
  nearest-rank percentiles. The theory shows that the sort sorts and that the figures reported at
  the end of a run are those of the list of latenesses of the run.
\<close>

abbreviation PICO_PLAYBACK_SCHEDULER_MAX_SAMPLES :: nat where
  "PICO_PLAYBACK_SCHEDULER_MAX_SAMPLES \<equiv> 2048"

abbreviation PICO_PLAYBACK_SCHEDULER_WATCHDOG_TIMEOUT_US :: u64 where
  "PICO_PLAYBACK_SCHEDULER_WATCHDOG_TIMEOUT_US \<equiv> 2000000"

record playback_metrics =
  pm_dispatched_count :: u32
  pm_underrun_count :: u32
  pm_min_lateness_us :: i32
  pm_max_lateness_us :: i32
  pm_sum_lateness_us :: u64
  pm_p95_lateness_us :: i32
  pm_p99_lateness_us :: i32
  pm_samples_truncated :: bool

text \<open>
  The queue and the callbacks the C struct points to are arguments of the model; of the pointer
  only its being set matters. \<open>int64_t sum_lateness_us\<close> is kept as its 64 bits.
\<close>

record playback_scheduler =
  ps_queue :: bool
  ps_running :: bool
  ps_sequence_ended :: bool
  ps_waiting_for_event :: bool
  ps_underrun_active :: bool
  ps_playback_start_us :: u64
  ps_next_deadline_us :: u64
  ps_underrun_since_us :: u64
  ps_alarm_fired :: bool
  ps_alarm_id :: i32
  ps_alarm_armed :: bool
  ps_dispatched_count :: u32
  ps_underrun_count :: u32
  ps_min_lateness_us :: i32
  ps_max_lateness_us :: i32
  ps_sum_lateness_us :: u64
  ps_lateness_samples :: "i32 list"
  ps_sample_count :: u32
  ps_samples_truncated :: bool

definition record_lateness :: "i32 \<Rightarrow> playback_scheduler \<Rightarrow> playback_scheduler" where
  "record_lateness lateness s =
     (let s1 = (if ps_dispatched_count s = 0
                then s\<lparr>ps_min_lateness_us := lateness, ps_max_lateness_us := lateness\<rparr>
                else s\<lparr>ps_min_lateness_us := (if lateness < ps_min_lateness_us s then lateness else ps_min_lateness_us s),
                       ps_max_lateness_us := (if lateness > ps_max_lateness_us s then lateness else ps_max_lateness_us s)\<rparr>);
          s2 = s1\<lparr>ps_sum_lateness_us := ps_sum_lateness_us s1 + word_of_int (i32_int lateness),
                  ps_dispatched_count := ps_dispatched_count s1 + 1\<rparr>
      in if unat (ps_sample_count s2) < PICO_PLAYBACK_SCHEDULER_MAX_SAMPLES then
           s2\<lparr>ps_lateness_samples := (ps_lateness_samples s2)[unat (ps_sample_count s2) := lateness],
              ps_sample_count := ps_sample_count s2 + 1\<rparr>
         else s2\<lparr>ps_samples_truncated := True\<rparr>)"

section \<open>The insertion sort\<close>

text \<open>The inner loop from \<open>j\<close> down, and the place it stops at.\<close>

fun shift_down :: "i32 list \<Rightarrow> i32 \<Rightarrow> nat \<Rightarrow> i32 list \<times> nat" where
  "shift_down xs key 0 = (xs, 0)"
| "shift_down xs key (Suc j) =
     (if xs ! j > key then shift_down (xs[Suc j := xs ! j]) key j else (xs, Suc j))"

definition insert_sample :: "nat \<Rightarrow> i32 list \<Rightarrow> i32 list" where
  "insert_sample i xs = (let key = xs ! i; (xs', j) = shift_down xs key i in xs'[j := key])"

definition sort_samples :: "i32 list \<Rightarrow> u32 \<Rightarrow> i32 list" where
  "sort_samples samples n = fold insert_sample [1..<unat n] samples"

text \<open>The inner loop inserts the key into the sorted part before it.\<close>

lemma insort_before: "key < z \<Longrightarrow> insort key (zs @ [z]) = insort key zs @ [z]"
  by (induction zs) auto

lemma insort_after:
  fixes key :: "'a::linorder"
  assumes "sorted (zs @ [z])" "z \<le> key"
  shows "insort key (zs @ [z]) = zs @ [z, key]"
proof -
  have "sorted (zs @ [z, key])" using assms by (auto simp: sorted_append)
  moreover have "sorted (insort key (zs @ [z]))" using assms(1) by (simp add: sorted_insort)
  moreover have "mset (insort key (zs @ [z])) = mset (zs @ [z, key])" by simp
  ultimately show ?thesis by (metis properties_for_sort)
qed

lemma shift_down_insort:
  assumes "i < length xs" "sorted (take i xs)"
  shows "(fst (shift_down xs key i))[snd (shift_down xs key i) := key] = insort key (take i xs) @ drop (Suc i) xs"
  using assms
proof (induction i arbitrary: xs)
  case 0
  then show ?case by (cases xs) simp_all
next
  case (Suc i)
  have tk: "take (Suc i) xs = take i xs @ [xs ! i]" using Suc.prems(1) by (simp add: take_Suc_conv_app_nth)
  then have srt: "sorted (take i xs @ [xs ! i])" using Suc.prems(2) by simp
  show ?case
  proof (cases "xs ! i > key")
    case True
    let ?xs = "xs[Suc i := xs ! i]"
    have "(fst (shift_down ?xs key i))[snd (shift_down ?xs key i) := key] = insort key (take i ?xs) @ drop (Suc i) ?xs"
      using Suc.prems srt by (intro Suc.IH) (auto simp: sorted_append)
    moreover have "drop (Suc i) ?xs = xs ! i # drop (Suc (Suc i)) xs"
      using Suc.prems(1) by (simp add: drop_update_swap Cons_nth_drop_Suc [symmetric])
    ultimately show ?thesis using True tk insort_before [OF True, of "take i xs"] by simp
  next
    case False
    then have "xs ! i \<le> key" by simp
    with insort_after [OF srt] tk show ?thesis
      using False Suc.prems(1) by (simp add: upd_conv_take_nth_drop)
  qed
qed

lemma insert_sample_insort:
  assumes "i < length xs" "sorted (take i xs)"
  shows "insert_sample i xs = insort (xs ! i) (take i xs) @ drop (Suc i) xs"
  using shift_down_insort [OF assms, of "xs ! i"] by (simp add: insert_sample_def split_beta Let_def)

lemma fold_insert_sample:
  assumes "n \<le> length xs" "0 < n"
  shows "fold insert_sample [1..<n] xs = sort (take n xs) @ drop n xs"
  using assms
proof (induction n)
  case (Suc n)
  show ?case
  proof (cases "n = 0")
    case True
    with Suc.prems show ?thesis by (cases xs) simp_all
  next
    case False
    let ?ys = "sort (take n xs) @ drop n xs"
    have ys: "take n ?ys = sort (take n xs)" "drop (Suc n) ?ys = drop (Suc n) xs" "?ys ! n = xs ! n" "n < length ?ys"
      using Suc.prems by (simp_all add: nth_append)
    have "insert_sample n ?ys = insort (xs ! n) (sort (take n xs)) @ drop (Suc n) xs"
      using insert_sample_insort [OF ys(4)] unfolding ys by simp
    moreover have "sort (take (Suc n) xs) = insort (xs ! n) (sort (take n xs))"
    proof (rule properties_for_sort)
      show "mset (insort (xs ! n) (sort (take n xs))) = mset (take (Suc n) xs)"
        using Suc.prems by (simp add: take_Suc_conv_app_nth)
    qed (simp add: sorted_insort)
    ultimately show ?thesis using Suc False by simp
  qed
qed simp

lemma sort_samples_eq:
  assumes "unat n \<le> length samples"
  shows "sort_samples samples n = sort (take (unat n) samples) @ drop (unat n) samples"
  using fold_insert_sample [OF assms] by (cases "unat n = 0") (simp_all add: sort_samples_def)

section \<open>Percentiles\<close>

definition percentile :: "i32 list \<Rightarrow> u32 \<Rightarrow> u32 \<Rightarrow> i32" where
  "percentile sorted_samples n p =
     (if n = 0 then 0
      else
       (let rank = (p * n + 99) div 100;
            rank1 = (if rank < 1 then 1 else rank);
            rank2 = (if rank1 > n then n else rank1)
        in sorted_samples ! unat (rank2 - 1)))"

text \<open>
  The nearest rank is the least number of samples that makes up \<open>p\<close> percent of them.
\<close>

definition nearest_rank :: "nat \<Rightarrow> nat \<Rightarrow> nat" where
  "nearest_rank p n = (LEAST k. p * n \<le> 100 * k)"

lemma nearest_rank_eq: "nearest_rank p n = (p * n + 99) div 100"
  unfolding nearest_rank_def by (rule Least_equality) linarith+

lemma unat_rank:
  fixes n p :: u32
  assumes "unat n \<le> 2048" "unat p \<le> 100"
  shows "unat ((p * n + 99) div 100) = (unat p * unat n + 99) div 100"
proof -
  have "unat p * unat n \<le> 100 * 2048" using assms by (intro mult_mono) auto
  then show ?thesis by (simp add: unat_div unat_word_ariths)
qed

lemma percentile_eq:
  assumes "0 < unat n" "unat n \<le> 2048" "0 < unat p" "unat p \<le> 100"
  shows "percentile xs n p = xs ! (nearest_rank (unat p) (unat n) - 1)"
    "0 < nearest_rank (unat p) (unat n)" "nearest_rank (unat p) (unat n) \<le> unat n"
proof -
  let ?r = "(p * n + 99) div 100"
  have r: "unat ?r = nearest_rank (unat p) (unat n)"
    using unat_rank [OF assms(2,4)] by (simp add: nearest_rank_eq)
  have "0 < unat p * unat n" using assms by simp
  then show pos: "0 < nearest_rank (unat p) (unat n)" by (simp add: nearest_rank_eq div_greater_zero_iff)
  have "unat p * unat n \<le> 100 * unat n" using assms by (intro mult_mono) auto
  then have "(unat p * unat n + 99) div 100 \<le> (100 * unat n + 99) div 100" by (intro div_le_mono) simp
  then show le: "nearest_rank (unat p) (unat n) \<le> unat n" unfolding nearest_rank_eq by linarith
  have "n \<noteq> 0" using assms(1) by (auto simp: unat_eq_zero)
  moreover have "\<not> ?r < 1" using r pos by (simp add: word_less_nat_alt)
  moreover have "\<not> ?r > n" using r le by (simp add: word_less_nat_alt)
  moreover have "unat (?r - 1) = unat ?r - 1" using r pos by (intro unat_minus_one) (auto simp: unat_eq_zero)
  ultimately show "percentile xs n p = xs ! (nearest_rank (unat p) (unat n) - 1)"
    by (simp add: percentile_def Let_def r)
qed

section \<open>The figures of a run\<close>

text \<open>At the start of a run the counters are zero; \<open>samples_inv\<close> bounds the log at all times.\<close>

definition samples_inv :: "playback_scheduler \<Rightarrow> bool" where
  "samples_inv s \<longleftrightarrow> length (ps_lateness_samples s) = PICO_PLAYBACK_SCHEDULER_MAX_SAMPLES
     \<and> unat (ps_sample_count s) \<le> PICO_PLAYBACK_SCHEDULER_MAX_SAMPLES"

definition fresh_run :: "playback_scheduler \<Rightarrow> bool" where
  "fresh_run s \<longleftrightarrow> samples_inv s \<and> ps_dispatched_count s = 0 \<and> ps_sum_lateness_us s = 0
     \<and> ps_sample_count s = 0 \<and> \<not> ps_samples_truncated s"

text \<open>The state after recording the latenesses \<open>ls\<close>, in terms of the list.\<close>

definition records :: "i32 list \<Rightarrow> playback_scheduler \<Rightarrow> bool" where
  "records ls s \<longleftrightarrow> samples_inv s
     \<and> ps_dispatched_count s = of_nat (length ls)
     \<and> (ls \<noteq> [] \<longrightarrow> ps_min_lateness_us s = Min (set ls) \<and> ps_max_lateness_us s = Max (set ls))
     \<and> ps_sum_lateness_us s = word_of_int (\<Sum>l \<leftarrow> ls. i32_int l)
     \<and> unat (ps_sample_count s) = min 2048 (length ls)
     \<and> take (unat (ps_sample_count s)) (ps_lateness_samples s) = take 2048 ls
     \<and> (ps_samples_truncated s \<longleftrightarrow> 2048 < length ls)"

lemma fresh_records: "fresh_run s \<Longrightarrow> records [] s"
  by (simp add: fresh_run_def records_def)

lemma record_lateness_samples:
  assumes "samples_inv s"
  shows "samples_inv (record_lateness l s)"
    "unat (ps_sample_count s) < 2048 \<Longrightarrow>
      unat (ps_sample_count (record_lateness l s)) = Suc (unat (ps_sample_count s))
      \<and> take (Suc (unat (ps_sample_count s))) (ps_lateness_samples (record_lateness l s))
          = take (unat (ps_sample_count s)) (ps_lateness_samples s) @ [l]"
    "\<not> unat (ps_sample_count s) < 2048 \<Longrightarrow>
      ps_sample_count (record_lateness l s) = ps_sample_count s
      \<and> ps_lateness_samples (record_lateness l s) = ps_lateness_samples s"
proof -
  have suc: "unat (ps_sample_count s + 1) = Suc (unat (ps_sample_count s))" if "unat (ps_sample_count s) < 2048"
    using that by (simp add: unat_word_ariths)
  show "samples_inv (record_lateness l s)"
    using assms suc by (auto simp: samples_inv_def record_lateness_def Let_def)
  show "unat (ps_sample_count s) < 2048 \<Longrightarrow>
      unat (ps_sample_count (record_lateness l s)) = Suc (unat (ps_sample_count s))
      \<and> take (Suc (unat (ps_sample_count s))) (ps_lateness_samples (record_lateness l s))
          = take (unat (ps_sample_count s)) (ps_lateness_samples s) @ [l]"
    using assms suc by (auto simp: samples_inv_def record_lateness_def Let_def take_Suc_conv_app_nth)
  show "\<not> unat (ps_sample_count s) < 2048 \<Longrightarrow>
      ps_sample_count (record_lateness l s) = ps_sample_count s
      \<and> ps_lateness_samples (record_lateness l s) = ps_lateness_samples s"
    by (simp add: record_lateness_def Let_def)
qed

lemma record_lateness_figures:
  "ps_dispatched_count (record_lateness l s) = ps_dispatched_count s + 1"
  "ps_sum_lateness_us (record_lateness l s) = ps_sum_lateness_us s + word_of_int (i32_int l)"
  "ps_min_lateness_us (record_lateness l s) = (if ps_dispatched_count s = 0 then l else min (ps_min_lateness_us s) l)"
  "ps_max_lateness_us (record_lateness l s) = (if ps_dispatched_count s = 0 then l else max (ps_max_lateness_us s) l)"
  "ps_samples_truncated (record_lateness l s) \<longleftrightarrow> ps_samples_truncated s \<or> \<not> unat (ps_sample_count s) < 2048"
  by (auto simp: record_lateness_def Let_def min_def max_def)

lemma records_snoc:
  assumes "records ls s" "length ls < 2 ^ 32 - 1"
  shows "records (ls @ [l]) (record_lateness l s)"
proof -
  have inv: "samples_inv s" using assms(1) by (simp add: records_def)
  have zero: "ps_dispatched_count s = 0 \<longleftrightarrow> ls = []"
  proof -
    have "unat (of_nat (length ls) :: u32) = length ls" using assms(2) by (simp add: unat_of_nat)
    with assms(1) show ?thesis by (auto simp: records_def simp flip: unat_eq_zero)
  qed
  have mm: "ps_min_lateness_us (record_lateness l s) = Min (set (ls @ [l]))"
    "ps_max_lateness_us (record_lateness l s) = Max (set (ls @ [l]))"
    using assms(1) zero
    by (cases "ls = []"; simp add: records_def record_lateness_figures min.commute max.commute)+
  show ?thesis
  proof (cases "length ls < 2048")
    case True
    then have "unat (ps_sample_count s) < 2048" using assms(1) by (simp add: records_def)
    with record_lateness_samples [OF inv, of l] True assms(1) mm show ?thesis
      by (auto simp: records_def record_lateness_figures)
  next
    case False
    then have "\<not> unat (ps_sample_count s) < 2048" using assms(1) by (simp add: records_def)
    with record_lateness_samples [OF inv, of l] False assms(1) mm show ?thesis
      by (auto simp: records_def record_lateness_figures)
  qed
qed

lemma fold_record_lateness:
  assumes "fresh_run s" "length ls < 2 ^ 32"
  shows "records ls (fold record_lateness ls s)"
  using assms(2)
proof (induction ls rule: rev_induct)
  case Nil
  then show ?case using assms(1) by (simp add: fresh_records)
next
  case (snoc l ls)
  then show ?case by (simp add: records_snoc)
qed

end
