(* ===== verification/Hid_Boot_Keyboard.thy ===== *)
theory Hid_Boot_Keyboard
  imports Prelude
begin

text \<open>
  \<open>pico/src/hid_boot_keyboard.c\<close>: the 8-byte Boot Keyboard report, the all-keys-release report and
  the single-key report. The array \<open>keycode[6]\<close> of the struct is six fields; \<open>report_bytes\<close> and
  \<open>report_of_bytes\<close> are the two directions of the casts between the struct and its bytes
  (\<open>memcpy\<close> of \<open>sizeof(report)\<close> bytes, \<open>(const uint8_t *)report\<close>).
\<close>

abbreviation PICO_HID_BOOT_KEYBOARD_REPORT_LEN :: nat where
  "PICO_HID_BOOT_KEYBOARD_REPORT_LEN \<equiv> 8"

definition PICO_HID_USAGE_KEY_A :: u8 where
  "PICO_HID_USAGE_KEY_A = 0x04"

record hid_report =
  modifier :: u8
  reserved :: u8
  keycode0 :: u8
  keycode1 :: u8
  keycode2 :: u8
  keycode3 :: u8
  keycode4 :: u8
  keycode5 :: u8

definition report_bytes :: "hid_report \<Rightarrow> u8 list" where
  "report_bytes r = [modifier r, reserved r, keycode0 r, keycode1 r, keycode2 r, keycode3 r,
     keycode4 r, keycode5 r]"

definition report_of_bytes :: "u8 list \<Rightarrow> hid_report" where
  "report_of_bytes b = \<lparr>modifier = b ! 0, reserved = b ! 1, keycode0 = b ! 2, keycode1 = b ! 3,
     keycode2 = b ! 4, keycode3 = b ! 5, keycode4 = b ! 6, keycode5 = b ! 7\<rparr>"

lemma length_report_bytes [simp]: "length (report_bytes r) = 8"
  by (simp add: report_bytes_def)

lemma report_of_bytes_inverse [simp]: "report_of_bytes (report_bytes r) = r"
  by (simp add: report_bytes_def report_of_bytes_def)

lemma report_of_bytes_append [simp]: "report_of_bytes (report_bytes r @ rest) = r"
  by (simp add: report_bytes_def report_of_bytes_def)

lemma report_bytes_inverse:
  assumes "length b = 8"
  shows "report_bytes (report_of_bytes b) = b"
  using assms by (auto simp: report_bytes_def report_of_bytes_def numeral_eq_Suc length_Suc_conv)

lemma report_bytes_inject [simp]: "report_bytes r = report_bytes s \<longleftrightarrow> r = s"
  by (metis report_of_bytes_inverse)

definition pico_hid_boot_keyboard_release_all :: hid_report where
  "pico_hid_boot_keyboard_release_all = report_of_bytes (replicate 8 0)"

definition pico_hid_boot_keyboard_make_key_press :: "u8 \<Rightarrow> u8 \<Rightarrow> hid_report" where
  "pico_hid_boot_keyboard_make_key_press md key_usage =
     pico_hid_boot_keyboard_release_all\<lparr>modifier := md, keycode0 := key_usage\<rparr>"

text \<open>The loop over the bytes stops at the first one that is not zero.\<close>

fun all_bytes_zero :: "u8 list \<Rightarrow> bool" where
  "all_bytes_zero [] = True"
| "all_bytes_zero (b # bs) = (if b \<noteq> 0 then False else all_bytes_zero bs)"

definition pico_hid_boot_keyboard_is_release :: "hid_report option \<Rightarrow> bool" where
  "pico_hid_boot_keyboard_is_release report =
     (case report of None \<Rightarrow> False | Some r \<Rightarrow> all_bytes_zero (report_bytes r))"

text \<open>The two constructors write through a pointer, which may be \<open>NULL\<close>.\<close>

definition pico_hid_boot_keyboard_release_all_ptr :: "hid_report option \<Rightarrow> hid_report option" where
  "pico_hid_boot_keyboard_release_all_ptr p = snd (on_ptr () (\<lambda>_. ((), pico_hid_boot_keyboard_release_all)) p)"

definition pico_hid_boot_keyboard_make_key_press_ptr ::
    "u8 \<Rightarrow> u8 \<Rightarrow> hid_report option \<Rightarrow> hid_report option" where
  "pico_hid_boot_keyboard_make_key_press_ptr md key_usage p =
     snd (on_ptr () (\<lambda>_. ((), pico_hid_boot_keyboard_make_key_press md key_usage)) p)"

lemma all_bytes_zero_iff: "all_bytes_zero bs \<longleftrightarrow> set bs \<subseteq> {0}"
  by (induction bs) auto

lemma release_bytes: "report_bytes pico_hid_boot_keyboard_release_all = replicate 8 0"
  by (simp add: pico_hid_boot_keyboard_release_all_def report_bytes_inverse)

text \<open>
  A report is a release exactly when it is the one \<open>release_all\<close> builds: the test reads every
  byte, and the constructor zeroes every byte.
\<close>

lemma is_release_iff:
  "pico_hid_boot_keyboard_is_release (Some r) \<longleftrightarrow> r = pico_hid_boot_keyboard_release_all"
proof -
  have "set (report_bytes r) \<subseteq> {0} \<longleftrightarrow> report_bytes r = replicate 8 0"
    by (simp add: report_bytes_def numeral_eq_Suc)
  also have "\<dots> \<longleftrightarrow> r = pico_hid_boot_keyboard_release_all"
    by (simp flip: release_bytes)
  finally show ?thesis by (simp add: pico_hid_boot_keyboard_is_release_def all_bytes_zero_iff)
qed

lemma key_press_not_release:
  assumes "key_usage \<noteq> 0"
  shows "\<not> pico_hid_boot_keyboard_is_release (Some (pico_hid_boot_keyboard_make_key_press md key_usage))"
proof -
  have "keycode0 pico_hid_boot_keyboard_release_all = 0"
    by (simp add: pico_hid_boot_keyboard_release_all_def report_of_bytes_def)
  moreover have "keycode0 (pico_hid_boot_keyboard_make_key_press md key_usage) = key_usage"
    by (simp add: pico_hid_boot_keyboard_make_key_press_def)
  ultimately show ?thesis using assms by (metis is_release_iff)
qed

end
