(* ===== verification/Bounded_Fifo.thy ===== *)
theory Bounded_Fifo
  imports Prelude
begin

text \<open>
  The contract of a bounded first-in first-out buffer, which the playback queue, the capture
  FIFO, the command ring and the receive ring of the firmware all keep: an accepted element is
  appended, a full buffer refuses without changing, and elements leave in the order they were
  accepted. The predicate \<open>ok\<close> says which elements a buffer is given (all of them, but for the
  command ring, which only takes validated frames). The contract is the locale \<open>bounded_fifo\<close>; its consequences for arbitrary
  interleavings of pushes and pops are proved once here and used through the interpretations in
  the theories of the four components.
\<close>

datatype 'a fifo_op = Push 'a | Pop

datatype 'a fifo_out = Pushed bool | Popped "'a option"

text \<open>One operation and a sequence of operations on a buffer given by its push and pop.\<close>

fun fifo_step :: "('a \<Rightarrow> 'q \<Rightarrow> bool \<times> 'q) \<Rightarrow> ('q \<Rightarrow> 'a option \<times> 'q)
    \<Rightarrow> 'a fifo_op \<Rightarrow> 'q \<Rightarrow> 'a fifo_out \<times> 'q" where
  "fifo_step push pop (Push x) q = map_prod Pushed id (push x q)"
| "fifo_step push pop Pop q = map_prod Popped id (pop q)"

fun fifo_run :: "('a \<Rightarrow> 'q \<Rightarrow> bool \<times> 'q) \<Rightarrow> ('q \<Rightarrow> 'a option \<times> 'q)
    \<Rightarrow> 'a fifo_op list \<Rightarrow> 'q \<Rightarrow> 'a fifo_out list \<times> 'q" where
  "fifo_run push pop [] q = ([], q)"
| "fifo_run push pop (op # ops) q =
     (let (out, q1) = fifo_step push pop op q; (outs, q2) = fifo_run push pop ops q1
      in (out # outs, q2))"

text \<open>The abstract buffer: a list of at most \<open>cap\<close> elements.\<close>

definition list_push :: "nat \<Rightarrow> 'a \<Rightarrow> 'a list \<Rightarrow> bool \<times> 'a list" where
  "list_push cap x xs = (if length xs < cap then (True, xs @ [x]) else (False, xs))"

fun list_pop :: "'a list \<Rightarrow> 'a option \<times> 'a list" where
  "list_pop [] = (None, [])"
| "list_pop (x # xs) = (Some x, xs)"

fun accepted :: "'a fifo_op list \<Rightarrow> 'a fifo_out list \<Rightarrow> 'a list" where
  "accepted (Push x # ops) (Pushed True # outs) = x # accepted ops outs"
| "accepted (_ # ops) (_ # outs) = accepted ops outs"
| "accepted _ _ = []"

fun popped :: "'a fifo_out list \<Rightarrow> 'a list" where
  "popped (Popped (Some x) # outs) = x # popped outs"
| "popped (_ # outs) = popped outs"
| "popped [] = []"

lemma fst_fifo_run_Cons:
  "fifo_run push pop (op # ops) q =
     (fst (fifo_step push pop op q) # fst (fifo_run push pop ops (snd (fifo_step push pop op q))),
      snd (fifo_run push pop ops (snd (fifo_step push pop op q))))"
  by (simp add: Let_def case_prod_beta)

lemma list_fifo_order:
  "popped (fst (fifo_run (list_push cap) list_pop ops xs)) @ snd (fifo_run (list_push cap) list_pop ops xs)
   = xs @ accepted ops (fst (fifo_run (list_push cap) list_pop ops xs))"
proof (induction ops arbitrary: xs)
  case (Cons op ops)
  show ?case
  proof (cases op)
    case (Push x)
    with Cons [of "xs @ [x]"] Cons [of xs] show ?thesis
      by (simp add: list_push_def case_prod_beta)
  next
    case Pop
    with Cons [of "tl xs"] Cons [of xs] show ?thesis
      by (cases xs) (simp_all add: case_prod_beta)
  qed
qed simp

lemma list_fifo_bound:
  "length xs \<le> cap \<Longrightarrow> length (snd (fifo_run (list_push cap) list_pop ops xs)) \<le> cap"
proof (induction ops arbitrary: xs)
  case (Cons op ops)
  then have "length (snd (fifo_step (list_push cap) list_pop op xs)) \<le> cap"
    by (cases op; cases xs) (auto simp: list_push_def)
  with Cons.IH show ?case by (simp only: fst_fifo_run_Cons snd_conv)
qed simp

section \<open>The contract\<close>

locale bounded_fifo =
  fixes inv :: "'q \<Rightarrow> bool"
    and ok :: "'a \<Rightarrow> bool"
    and contents :: "'q \<Rightarrow> 'a list"
    and cap :: nat
    and push :: "'a \<Rightarrow> 'q \<Rightarrow> bool \<times> 'q"
    and pop :: "'q \<Rightarrow> 'a option \<times> 'q"
  assumes contents_bound: "inv q \<Longrightarrow> length (contents q) \<le> cap"
    and push_inv: "inv q \<Longrightarrow> ok x \<Longrightarrow> inv (snd (push x q))"
    and pop_inv: "inv q \<Longrightarrow> inv (snd (pop q))"
    and push_contents: "inv q \<Longrightarrow> ok x \<Longrightarrow> map_prod id contents (push x q) = list_push cap x (contents q)"
    and pop_contents: "inv q \<Longrightarrow> map_prod id contents (pop q) = list_pop (contents q)"
begin

lemma step_refines:
  assumes "inv q" "\<And>x. op = Push x \<Longrightarrow> ok x"
  shows "map_prod id contents (fifo_step push pop op q) = fifo_step (list_push cap) list_pop op (contents q)"
    and "inv (snd (fifo_step push pop op q))"
proof -
  show "map_prod id contents (fifo_step push pop op q) = fifo_step (list_push cap) list_pop op (contents q)"
  proof (cases op)
    case (Push x)
    with assms(2) show ?thesis
      by (simp flip: push_contents [OF assms(1)] add: prod.map_comp)
  next
    case Pop
    then show ?thesis
      by (simp flip: pop_contents [OF assms(1)] add: prod.map_comp)
  qed
  show "inv (snd (fifo_step push pop op q))"
    using assms push_inv pop_inv by (cases op) simp_all
qed

lemma run_refines:
  assumes "inv q" "\<And>x. Push x \<in> set ops \<Longrightarrow> ok x"
  shows "map_prod id contents (fifo_run push pop ops q) = fifo_run (list_push cap) list_pop ops (contents q)
    \<and> inv (snd (fifo_run push pop ops q))"
  using assms
proof (induction ops arbitrary: q)
  case (Cons op ops)
  have oks: "\<And>x. op = Push x \<Longrightarrow> ok x" "\<And>x. Push x \<in> set ops \<Longrightarrow> ok x"
    using Cons.prems(2) by simp_all
  note step = step_refines [OF Cons.prems(1) oks(1)]
  have out: "fst (fifo_step push pop op q) = fst (fifo_step (list_push cap) list_pop op (contents q))"
    and nxt: "contents (snd (fifo_step push pop op q)) = snd (fifo_step (list_push cap) list_pop op (contents q))"
    using step(1) by (simp_all flip: step(1))
  from Cons.IH [OF step(2) oks(2)] out nxt show ?case
    by (simp only: fst_fifo_run_Cons map_prod_simp fst_conv snd_conv id_apply)
      (metis fst_map_prod id_apply snd_map_prod)
qed simp

text \<open>Elements leave in the order of acceptance, and nothing is lost or duplicated.\<close>

lemma fifo_order:
  assumes "inv q" "\<And>x. Push x \<in> set ops \<Longrightarrow> ok x"
  shows "popped (fst (fifo_run push pop ops q)) @ contents (snd (fifo_run push pop ops q))
       = contents q @ accepted ops (fst (fifo_run push pop ops q))"
  using list_fifo_order [of cap ops "contents q"] run_refines [OF assms]
  by (metis fst_map_prod id_apply snd_map_prod)

lemma fifo_bound:
  assumes "inv q" "\<And>x. Push x \<in> set ops \<Longrightarrow> ok x"
  shows "length (contents (snd (fifo_run push pop ops q))) \<le> cap"
  using run_refines [OF assms] contents_bound by blast

lemma push_full: "inv q \<Longrightarrow> ok x \<Longrightarrow> length (contents q) = cap \<Longrightarrow> \<not> fst (push x q)"
  using push_contents [of q x] by (auto simp: list_push_def dest: arg_cong [of _ _ fst])

lemma push_room: "inv q \<Longrightarrow> ok x \<Longrightarrow> length (contents q) < cap \<Longrightarrow>
    fst (push x q) \<and> contents (snd (push x q)) = contents q @ [x]"
  using push_contents [of q x] by (cases "push x q") (auto simp: list_push_def)

lemma pop_Nil: "inv q \<Longrightarrow> contents q = [] \<Longrightarrow> fst (pop q) = None"
  using pop_contents [of q] by (cases "pop q") auto

lemma pop_Cons: "inv q \<Longrightarrow> contents q = x # xs \<Longrightarrow> fst (pop q) = Some x \<and> contents (snd (pop q)) = xs"
  using pop_contents [of q] by (cases "pop q") auto

end

section \<open>Buffers that can be read without consuming\<close>

locale peekable_fifo = bounded_fifo +
  fixes peek :: "'q \<Rightarrow> 'a option"
  assumes peek_contents: "inv q \<Longrightarrow> peek q = (case contents q of [] \<Rightarrow> None | x # _ \<Rightarrow> Some x)"
begin

lemma peek_is_pop: "inv q \<Longrightarrow> peek q = fst (pop q)"
  using pop_contents [of q] peek_contents [of q]
  by (cases "contents q"; cases "pop q") auto

lemma peek_stable_under_push:
  "inv q \<Longrightarrow> ok y \<Longrightarrow> peek q = Some x \<Longrightarrow> peek (snd (push y q)) = Some x"
  using push_contents [of q y] push_inv [of q y] peek_contents [of q] peek_contents [of "snd (push y q)"]
  by (cases "push y q") (auto simp: list_push_def split: list.splits if_splits)

end

end
