(* ===== verification/Playback_Queue.thy ===== *)
theory Playback_Queue
  imports Hid_Boot_Keyboard Bounded_Fifo
begin

text \<open>
  \<open>pico/src/playback_queue.c\<close>: the bounded ring of future playback events. The state is the struct
  \<open>pico_playback_queue_t\<close>; each operation is the body behind the \<open>NULL\<close> guard of the C function,
  and the \<open>_ptr\<close> versions put the guard back. The theory shows that the ring keeps its index
  invariant and refines a bounded list, for which it interprets the contract \<open>peekable_fifo\<close>.
\<close>

abbreviation PICO_PLAYBACK_QUEUE_CAPACITY :: nat where
  "PICO_PLAYBACK_QUEUE_CAPACITY \<equiv> 512"

record playback_event =
  qe_offset_us :: u64
  qe_report_len :: u8
  qe_report :: hid_report

record playback_queue =
  pq_events :: "playback_event list"
  pq_read_index :: nat
  pq_write_index :: nat
  pq_count :: nat

text \<open>\<open>memset(queue, 0, sizeof *queue)\<close>: every slot is the all-zero event.\<close>

definition zero_event :: playback_event where
  "zero_event = \<lparr>qe_offset_us = 0, qe_report_len = 0, qe_report = report_of_bytes (replicate 8 0)\<rparr>"

definition pico_playback_queue_init :: playback_queue where
  "pico_playback_queue_init = \<lparr>pq_events = replicate PICO_PLAYBACK_QUEUE_CAPACITY zero_event,
     pq_read_index = 0, pq_write_index = 0, pq_count = 0\<rparr>"

definition pico_playback_queue_clear :: "playback_queue \<Rightarrow> playback_queue" where
  "pico_playback_queue_clear queue =
     queue\<lparr>pq_read_index := 0, pq_write_index := 0, pq_count := 0\<rparr>"

definition pico_playback_queue_push ::
    "u64 \<Rightarrow> u8 list option \<Rightarrow> nat \<Rightarrow> playback_queue \<Rightarrow> bool \<times> playback_queue" where
  "pico_playback_queue_push offset_us report report_len queue =
     (case report of
        None \<Rightarrow> (False, queue)
      | Some bytes \<Rightarrow>
          if report_len \<noteq> PICO_HID_BOOT_KEYBOARD_REPORT_LEN then (False, queue)
          else if pq_count queue = PICO_PLAYBACK_QUEUE_CAPACITY then (False, queue)
          else
            (let event = \<lparr>qe_offset_us = offset_us, qe_report_len = of_nat report_len,
                 qe_report = report_of_bytes bytes\<rparr>
             in (True, queue\<lparr>
                  pq_events := (pq_events queue)[pq_write_index queue := event],
                  pq_write_index := (pq_write_index queue + 1) mod PICO_PLAYBACK_QUEUE_CAPACITY,
                  pq_count := pq_count queue + 1\<rparr>)))"

definition pico_playback_queue_pop :: "playback_queue \<Rightarrow> playback_event option \<times> playback_queue" where
  "pico_playback_queue_pop queue =
     (if pq_count queue = 0 then (None, queue)
      else (Some (pq_events queue ! pq_read_index queue),
            queue\<lparr>pq_read_index := (pq_read_index queue + 1) mod PICO_PLAYBACK_QUEUE_CAPACITY,
                  pq_count := pq_count queue - 1\<rparr>))"

definition pico_playback_queue_peek :: "playback_queue \<Rightarrow> playback_event option" where
  "pico_playback_queue_peek queue =
     (if pq_count queue = 0 then None else Some (pq_events queue ! pq_read_index queue))"

definition pico_playback_queue_count :: "playback_queue option \<Rightarrow> nat" where
  "pico_playback_queue_count queue = (case queue of None \<Rightarrow> 0 | Some q \<Rightarrow> pq_count q)"

definition pico_playback_queue_free_capacity :: "playback_queue option \<Rightarrow> nat" where
  "pico_playback_queue_free_capacity queue =
     (case queue of None \<Rightarrow> 0 | Some q \<Rightarrow> PICO_PLAYBACK_QUEUE_CAPACITY - pq_count q)"

subsection \<open>The functions with their pointer guards\<close>

text \<open>For the output pointer \<open>event\<close> of pop and peek, \<open>has_out\<close> says that it is not \<open>NULL\<close>.\<close>

definition pico_playback_queue_init_ptr :: "playback_queue option \<Rightarrow> playback_queue option" where
  "pico_playback_queue_init_ptr p = snd (on_ptr () (\<lambda>_. ((), pico_playback_queue_init)) p)"

definition pico_playback_queue_clear_ptr :: "playback_queue option \<Rightarrow> playback_queue option" where
  "pico_playback_queue_clear_ptr p = snd (on_ptr () (\<lambda>q. ((), pico_playback_queue_clear q)) p)"

definition pico_playback_queue_push_ptr ::
    "u64 \<Rightarrow> u8 list option \<Rightarrow> nat \<Rightarrow> playback_queue option \<Rightarrow> bool \<times> playback_queue option" where
  "pico_playback_queue_push_ptr offset_us report report_len =
     on_ptr False (pico_playback_queue_push offset_us report report_len)"

definition pico_playback_queue_pop_ptr ::
    "bool \<Rightarrow> playback_queue option \<Rightarrow> playback_event option \<times> playback_queue option" where
  "pico_playback_queue_pop_ptr has_out p =
     (if \<not> has_out then (None, p) else on_ptr None pico_playback_queue_pop p)"

definition pico_playback_queue_peek_ptr :: "bool \<Rightarrow> playback_queue option \<Rightarrow> playback_event option" where
  "pico_playback_queue_peek_ptr has_out p =
     (if \<not> has_out then None else fst (on_ptr None (\<lambda>q. (pico_playback_queue_peek q, q)) p))"

lemmas playback_queue_defs = pico_playback_queue_init_def pico_playback_queue_clear_def
  pico_playback_queue_push_def pico_playback_queue_pop_def pico_playback_queue_peek_def

section \<open>Invariant and list view\<close>

definition pq_view :: "playback_queue \<Rightarrow> playback_event list" where
  "pq_view q = ring_view (pq_events q) (pq_read_index q) (pq_count q)"

definition pq_inv :: "playback_queue \<Rightarrow> bool" where
  "pq_inv q \<longleftrightarrow> length (pq_events q) = PICO_PLAYBACK_QUEUE_CAPACITY
     \<and> pq_read_index q < PICO_PLAYBACK_QUEUE_CAPACITY
     \<and> pq_count q \<le> PICO_PLAYBACK_QUEUE_CAPACITY
     \<and> pq_write_index q = (pq_read_index q + pq_count q) mod PICO_PLAYBACK_QUEUE_CAPACITY
     \<and> (\<forall>e \<in> set (pq_view q). qe_report_len e = 8)"

text \<open>What a queued event says: the offset and the report; its length field is always 8.\<close>

definition pq_pair :: "playback_event \<Rightarrow> u64 \<times> hid_report" where
  "pq_pair e = (qe_offset_us e, qe_report e)"

definition pq_contents :: "playback_queue \<Rightarrow> (u64 \<times> hid_report) list" where
  "pq_contents q = map pq_pair (pq_view q)"

definition pq_enqueue :: "u64 \<times> hid_report \<Rightarrow> playback_queue \<Rightarrow> bool \<times> playback_queue" where
  "pq_enqueue x q = pico_playback_queue_push (fst x) (Some (report_bytes (snd x))) 8 q"

definition pq_dequeue :: "playback_queue \<Rightarrow> (u64 \<times> hid_report) option \<times> playback_queue" where
  "pq_dequeue q = map_prod (map_option pq_pair) id (pico_playback_queue_pop q)"

definition pq_head :: "playback_queue \<Rightarrow> (u64 \<times> hid_report) option" where
  "pq_head q = map_option pq_pair (pico_playback_queue_peek q)"

lemma pq_init_inv [simp]: "pq_inv pico_playback_queue_init"
  by (simp add: pq_inv_def pq_view_def pico_playback_queue_init_def)

lemma pq_clear_inv [simp]: "pq_inv q \<Longrightarrow> pq_inv (pico_playback_queue_clear q)"
  by (simp add: pq_inv_def pq_view_def pico_playback_queue_clear_def)

lemma pq_init_contents [simp]: "pq_contents pico_playback_queue_init = []"
  by (simp add: pq_contents_def pq_view_def pico_playback_queue_init_def)

lemma pq_clear_contents [simp]: "pq_contents (pico_playback_queue_clear q) = []"
  by (simp add: pq_contents_def pq_view_def pico_playback_queue_clear_def)

lemma length_pq_contents [simp]: "length (pq_contents q) = pq_count q"
  by (simp add: pq_contents_def pq_view_def)

lemma pq_contents_eq_Nil [simp]: "pq_contents q = [] \<longleftrightarrow> pq_count q = 0"
  by (metis length_0_conv length_pq_contents)

lemma pq_push_view:
  assumes "pq_inv q" "pq_count q < PICO_PLAYBACK_QUEUE_CAPACITY"
  shows "pq_view (q\<lparr>pq_events := (pq_events q)[pq_write_index q := e],
        pq_write_index := w, pq_count := pq_count q + 1\<rparr>) = pq_view q @ [e]"
  using assms ring_view_append [of "pq_count q" "pq_events q" "pq_read_index q" e]
  by (simp add: pq_inv_def pq_view_def)

lemma pq_push_inv:
  assumes "pq_inv q"
  shows "pq_inv (snd (pico_playback_queue_push off rep len q))"
proof (cases "rep = None \<or> len \<noteq> 8 \<or> pq_count q = 512")
  case True
  with assms show ?thesis by (auto simp: pico_playback_queue_push_def split: option.split)
next
  case False
  then obtain bytes where rep: "rep = Some bytes" by auto
  let ?e = "\<lparr>qe_offset_us = off, qe_report_len = 8, qe_report = report_of_bytes bytes\<rparr>"
  let ?q' = "q\<lparr>pq_events := (pq_events q)[pq_write_index q := ?e],
      pq_write_index := (pq_write_index q + 1) mod 512, pq_count := pq_count q + 1\<rparr>"
  have lt: "pq_count q < 512" using assms False by (simp add: pq_inv_def)
  have "pq_view ?q' = pq_view q @ [?e]" by (rule pq_push_view [OF assms lt])
  moreover have "(pq_write_index q + 1) mod 512 = (pq_read_index q + (pq_count q + 1)) mod 512"
    using assms by (simp add: pq_inv_def mod_simps)
  ultimately have "pq_inv ?q'" using assms lt unfolding pq_inv_def by simp
  with False rep show ?thesis by (simp add: pico_playback_queue_push_def)
qed

lemma pq_view_Suc:
  assumes "pq_inv q" "pq_count q \<noteq> 0"
  shows "pq_view q = pq_events q ! pq_read_index q # pq_view (snd (pico_playback_queue_pop q))"
proof -
  obtain n where n: "pq_count q = Suc n" using assms(2) by (cases "pq_count q") auto
  have "ring_view (pq_events q) (Suc (pq_read_index q) mod 512) n
      = ring_view (pq_events q) (Suc (pq_read_index q)) n"
    using assms(1) ring_view_mod [of "pq_events q" "Suc (pq_read_index q)" n] by (simp add: pq_inv_def)
  with assms n show ?thesis
    by (simp add: pq_view_def pico_playback_queue_pop_def ring_view_Suc pq_inv_def)
qed

lemma pq_pop_inv:
  assumes "pq_inv q"
  shows "pq_inv (snd (pico_playback_queue_pop q))"
proof (cases "pq_count q = 0")
  case True
  with assms show ?thesis by (simp add: pico_playback_queue_pop_def)
next
  case False
  let ?q' = "snd (pico_playback_queue_pop q)"
  have "set (pq_view ?q') \<subseteq> set (pq_view q)" using pq_view_Suc [OF assms False] by auto
  moreover have "((pq_read_index q + 1) mod 512 + (pq_count q - 1)) mod 512
      = (pq_read_index q + pq_count q) mod 512"
    using False by (intro ring_index_advance) simp
  ultimately show ?thesis
    using assms False unfolding pq_inv_def by (auto simp: pico_playback_queue_pop_def)
qed

interpretation pqf: peekable_fifo pq_inv "\<lambda>_. True" pq_contents PICO_PLAYBACK_QUEUE_CAPACITY pq_enqueue pq_dequeue pq_head
proof
  fix q :: playback_queue and x
  assume inv: "pq_inv q"
  show "length (pq_contents q) \<le> PICO_PLAYBACK_QUEUE_CAPACITY" using inv by (simp add: pq_inv_def)
  show "pq_inv (snd (pq_enqueue x q))" using inv by (simp add: pq_enqueue_def pq_push_inv)
  show "pq_inv (snd (pq_dequeue q))" using inv by (simp add: pq_dequeue_def pq_pop_inv)
  show "map_prod id pq_contents (pq_enqueue x q) = list_push PICO_PLAYBACK_QUEUE_CAPACITY x (pq_contents q)"
    using inv pq_push_view [OF inv]
    by (auto simp: pq_enqueue_def pico_playback_queue_push_def list_push_def pq_contents_def
        pq_pair_def pq_inv_def pq_view_def)
  show "map_prod id pq_contents (pq_dequeue q) = list_pop (pq_contents q)"
    using pq_view_Suc [OF inv]
    by (cases "pq_count q = 0")
      (simp_all add: pq_dequeue_def pico_playback_queue_pop_def pq_contents_def pq_view_def)
  show "pq_head q = (case pq_contents q of [] \<Rightarrow> None | x # _ \<Rightarrow> Some x)"
    using pq_view_Suc [OF inv]
    by (cases "pq_count q = 0")
      (simp_all add: pq_head_def pico_playback_queue_peek_def pq_contents_def pq_view_def)
qed

text \<open>Within the invariant no access to the buffer is out of bounds.\<close>

lemma pq_inv_bounds:
  assumes "pq_inv q"
  shows "length (pq_events q) = 512" "pq_read_index q < 512" "pq_write_index q < 512" "pq_count q \<le> 512"
  using assms by (simp_all add: pq_inv_def)

end
