(* ===== verification/Uart_Protocol.thy ===== *)
theory Uart_Protocol
  imports Prelude
begin

text \<open>
  \<open>pico/src/uart_protocol.c\<close>: frame layout, CRC-16, encoder, decoder and the payload rules of the
  message types. A frame's \<open>payload\<close> array has 64 bytes of which the decoder writes the first
  \<open>payload_len\<close>; the model keeps the written bytes only, since the others are indeterminate and no
  code reads them. The theory shows that decoding inverts encoding in both directions and that a
  change of one byte of a valid frame never yields a valid frame.
\<close>

section \<open>Constants\<close>

abbreviation PICO_UART_PROTOCOL_MAGIC :: u8 where "PICO_UART_PROTOCOL_MAGIC \<equiv> 0xA5"
abbreviation PICO_UART_PROTOCOL_VERSION :: u8 where "PICO_UART_PROTOCOL_VERSION \<equiv> 2"
abbreviation PICO_UART_PROTOCOL_MAX_PAYLOAD :: nat where "PICO_UART_PROTOCOL_MAX_PAYLOAD \<equiv> 64"
abbreviation PICO_UART_PROTOCOL_HEADER_LEN :: nat where "PICO_UART_PROTOCOL_HEADER_LEN \<equiv> 5"
abbreviation PICO_UART_PROTOCOL_CRC_LEN :: nat where "PICO_UART_PROTOCOL_CRC_LEN \<equiv> 2"

definition PICO_UART_RECORD_EVENT :: u8 where "PICO_UART_RECORD_EVENT = 0x01"
definition PICO_UART_PICO_STATUS :: u8 where "PICO_UART_PICO_STATUS = 0x02"
definition PICO_UART_BUFFER_STATUS :: u8 where "PICO_UART_BUFFER_STATUS = 0x03"
definition PICO_UART_PLAY_READY :: u8 where "PICO_UART_PLAY_READY = 0x04"
definition PICO_UART_PLAY_STARTED :: u8 where "PICO_UART_PLAY_STARTED = 0x05"
definition PICO_UART_PLAY_FINISHED :: u8 where "PICO_UART_PLAY_FINISHED = 0x06"
definition PICO_UART_PLAY_ABORTED :: u8 where "PICO_UART_PLAY_ABORTED = 0x07"
definition PICO_UART_PLAY_UNDERRUN :: u8 where "PICO_UART_PLAY_UNDERRUN = 0x08"
definition PICO_UART_ERROR :: u8 where "PICO_UART_ERROR = 0x09"
definition PICO_UART_PONG :: u8 where "PICO_UART_PONG = 0x0A"
definition PICO_UART_MODE_CHANGED :: u8 where "PICO_UART_MODE_CHANGED = 0x0B"
definition PICO_UART_PLAY_METRICS :: u8 where "PICO_UART_PLAY_METRICS = 0x0C"

definition PICO_UART_QUEUE_CLEAR :: u8 where "PICO_UART_QUEUE_CLEAR = 0x80"
definition PICO_UART_QUEUE_EVENT :: u8 where "PICO_UART_QUEUE_EVENT = 0x81"
definition PICO_UART_QUEUE_END :: u8 where "PICO_UART_QUEUE_END = 0x82"
definition PICO_UART_PLAY_START :: u8 where "PICO_UART_PLAY_START = 0x83"
definition PICO_UART_PLAY_ABORT :: u8 where "PICO_UART_PLAY_ABORT = 0x84"
definition PICO_UART_STATUS_REQUEST :: u8 where "PICO_UART_STATUS_REQUEST = 0x85"
definition PICO_UART_PING :: u8 where "PICO_UART_PING = 0x86"
definition PICO_UART_MODE_SET :: u8 where "PICO_UART_MODE_SET = 0x87"

definition PICO_UART_MODE_PASS :: u8 where "PICO_UART_MODE_PASS = 0"
definition PICO_UART_MODE_RECORD :: u8 where "PICO_UART_MODE_RECORD = 1"
definition PICO_UART_MODE_ARMED :: u8 where "PICO_UART_MODE_ARMED = 2"
definition PICO_UART_MODE_PLAYING :: u8 where "PICO_UART_MODE_PLAYING = 3"
definition PICO_UART_MODE_ERROR :: u8 where "PICO_UART_MODE_ERROR = 4"

definition PICO_UART_REASON_OK :: u8 where "PICO_UART_REASON_OK = 0"
definition PICO_UART_REASON_INVALID_TRANSITION :: u8 where "PICO_UART_REASON_INVALID_TRANSITION = 1"
definition PICO_UART_REASON_INVALID_TARGET :: u8 where "PICO_UART_REASON_INVALID_TARGET = 2"
definition PICO_UART_REASON_PROTOCOL_ERROR :: u8 where "PICO_UART_REASON_PROTOCOL_ERROR = 3"
definition PICO_UART_REASON_UART_FAULT :: u8 where "PICO_UART_REASON_UART_FAULT = 4"
definition PICO_UART_REASON_ABORTED :: u8 where "PICO_UART_REASON_ABORTED = 5"
definition PICO_UART_REASON_UNDERRUN :: u8 where "PICO_UART_REASON_UNDERRUN = 6"
definition PICO_UART_REASON_FINISHED :: u8 where "PICO_UART_REASON_FINISHED = 7"

lemmas pico_type_defs [pico_constants] = PICO_UART_RECORD_EVENT_def PICO_UART_PICO_STATUS_def
  PICO_UART_BUFFER_STATUS_def PICO_UART_PLAY_READY_def PICO_UART_PLAY_STARTED_def
  PICO_UART_PLAY_FINISHED_def PICO_UART_PLAY_ABORTED_def PICO_UART_PLAY_UNDERRUN_def
  PICO_UART_ERROR_def PICO_UART_PONG_def PICO_UART_MODE_CHANGED_def PICO_UART_PLAY_METRICS_def

lemmas zero_type_defs [pico_constants] = PICO_UART_QUEUE_CLEAR_def PICO_UART_QUEUE_EVENT_def
  PICO_UART_QUEUE_END_def PICO_UART_PLAY_START_def PICO_UART_PLAY_ABORT_def
  PICO_UART_STATUS_REQUEST_def PICO_UART_PING_def PICO_UART_MODE_SET_def

lemmas mode_defs [pico_constants] = PICO_UART_MODE_PASS_def PICO_UART_MODE_RECORD_def PICO_UART_MODE_ARMED_def
  PICO_UART_MODE_PLAYING_def PICO_UART_MODE_ERROR_def

lemmas reason_defs [pico_constants] = PICO_UART_REASON_OK_def PICO_UART_REASON_INVALID_TRANSITION_def
  PICO_UART_REASON_INVALID_TARGET_def PICO_UART_REASON_PROTOCOL_ERROR_def
  PICO_UART_REASON_UART_FAULT_def PICO_UART_REASON_ABORTED_def PICO_UART_REASON_UNDERRUN_def
  PICO_UART_REASON_FINISHED_def

section \<open>Frames and their types\<close>

record uart_frame =
  fr_version :: u8
  fr_type :: u8
  fr_payload_len :: u16
  fr_payload :: "u8 list"

datatype pico_uart_decode_result =
    PICO_UART_DECODE_OK
  | PICO_UART_DECODE_TOO_SHORT
  | PICO_UART_DECODE_BAD_MAGIC
  | PICO_UART_DECODE_BAD_VERSION
  | PICO_UART_DECODE_BAD_LENGTH
  | PICO_UART_DECODE_BAD_CRC

definition pico_uart_type_known :: "u8 \<Rightarrow> bool" where
  "pico_uart_type_known ty \<longleftrightarrow> ty \<in> set
     [PICO_UART_RECORD_EVENT, PICO_UART_PICO_STATUS, PICO_UART_BUFFER_STATUS, PICO_UART_PLAY_READY,
      PICO_UART_PLAY_STARTED, PICO_UART_PLAY_FINISHED, PICO_UART_PLAY_ABORTED,
      PICO_UART_PLAY_UNDERRUN, PICO_UART_ERROR, PICO_UART_PONG, PICO_UART_MODE_CHANGED,
      PICO_UART_PLAY_METRICS, PICO_UART_QUEUE_CLEAR, PICO_UART_QUEUE_EVENT, PICO_UART_QUEUE_END,
      PICO_UART_PLAY_START, PICO_UART_PLAY_ABORT, PICO_UART_STATUS_REQUEST, PICO_UART_PING,
      PICO_UART_MODE_SET]"

definition pico_uart_type_is_command :: "u8 \<Rightarrow> bool" where
  "pico_uart_type_is_command ty \<longleftrightarrow> PICO_UART_QUEUE_CLEAR \<le> ty \<and> ty \<le> PICO_UART_MODE_SET"

definition pico_uart_queue_command_allowed :: "u8 \<Rightarrow> u8 \<Rightarrow> bool" where
  "pico_uart_queue_command_allowed ty state =
     (if ty = PICO_UART_QUEUE_CLEAR then state = PICO_UART_MODE_ARMED
      else if ty = PICO_UART_QUEUE_EVENT \<or> ty = PICO_UART_QUEUE_END
      then state = PICO_UART_MODE_ARMED \<or> state = PICO_UART_MODE_PLAYING
      else False)"

definition pico_uart_frame_payload_valid :: "uart_frame option \<Rightarrow> bool" where
  "pico_uart_frame_payload_valid frame =
     (case frame of
        None \<Rightarrow> False
      | Some f \<Rightarrow>
          let ty = fr_type f; len = fr_payload_len f in
          if \<not> pico_uart_type_known ty then False
          else if ty = PICO_UART_MODE_SET then len = 1
          else if ty = PICO_UART_QUEUE_EVENT then len = 17 \<and> fr_payload f ! 8 = 8
          else if ty = PICO_UART_PLAY_STARTED then len = 8
          else if ty = PICO_UART_RECORD_EVENT then len = 17 \<and> fr_payload f ! 8 = 8
          else if ty = PICO_UART_MODE_CHANGED then len = 2
          else if ty = PICO_UART_PICO_STATUS \<or> ty = PICO_UART_BUFFER_STATUS then len = 5
          else if ty = PICO_UART_PLAY_UNDERRUN then len = 10
          else if ty = PICO_UART_PLAY_METRICS then len = 33
          else len = 0)"

section \<open>CRC-16/CCITT-FALSE\<close>

definition crc_bit :: "u16 \<Rightarrow> u16" where
  "crc_bit crc = (if crc AND 0x8000 \<noteq> 0 then push_bit 1 crc XOR 0x1021 else push_bit 1 crc)"

definition crc_byte :: "u16 \<Rightarrow> u8 \<Rightarrow> u16" where
  "crc_byte crc b = (crc_bit ^^ 8) (crc XOR push_bit 8 (ucast b))"

definition pico_uart_crc16 :: "u8 list option \<Rightarrow> nat \<Rightarrow> u16" where
  "pico_uart_crc16 data len =
     (case data of None \<Rightarrow> 0xFFFF | Some bytes \<Rightarrow> foldl crc_byte 0xFFFF (take len bytes))"

section \<open>Encoder and decoder\<close>

text \<open>
  The encoder returns \<^const>\<open>None\<close> where the C function returns 0; \<^term>\<open>Some bytes\<close> are the bytes
  it stores from \<open>out[0]\<close> on, and their number is the C result. \<open>has_out\<close> and \<open>has_frame\<close> say that
  the output pointers are not \<open>NULL\<close>.
\<close>

definition pico_uart_encode_frame ::
    "u8 \<Rightarrow> u8 list option \<Rightarrow> u16 \<Rightarrow> bool \<Rightarrow> nat \<Rightarrow> u8 list option" where
  "pico_uart_encode_frame ty payload payload_len has_out out_size =
     (let n = unat payload_len;
          total = PICO_UART_PROTOCOL_HEADER_LEN + n + PICO_UART_PROTOCOL_CRC_LEN
      in if \<not> has_out \<or> n > PICO_UART_PROTOCOL_MAX_PAYLOAD \<or> (n \<noteq> 0 \<and> payload = None)
            \<or> out_size < total \<or> \<not> pico_uart_type_known ty
         then None
         else
           (let body = (if n \<noteq> 0 then take n (the payload) else []);
                covered = [PICO_UART_PROTOCOL_VERSION, ty, lo8 payload_len, hi8 payload_len] @ body;
                crc = pico_uart_crc16 (Some covered) (4 + n)
            in Some (PICO_UART_PROTOCOL_MAGIC # covered @ [lo8 crc, hi8 crc])))"

definition pico_uart_decode_frame ::
    "u8 list option \<Rightarrow> nat \<Rightarrow> bool \<Rightarrow> pico_uart_decode_result \<times> uart_frame option" where
  "pico_uart_decode_frame data data_len has_frame =
     (case data of
        None \<Rightarrow> (PICO_UART_DECODE_TOO_SHORT, None)
      | Some d \<Rightarrow>
          if \<not> has_frame \<or> data_len < 7 then (PICO_UART_DECODE_TOO_SHORT, None)
          else if d ! 0 \<noteq> PICO_UART_PROTOCOL_MAGIC then (PICO_UART_DECODE_BAD_MAGIC, None)
          else if d ! 1 \<noteq> PICO_UART_PROTOCOL_VERSION then (PICO_UART_DECODE_BAD_VERSION, None)
          else
            (let payload_len = u16_le (d ! 3) (d ! 4); n = unat payload_len in
             if n > PICO_UART_PROTOCOL_MAX_PAYLOAD \<or> data_len \<noteq> 7 + n
             then (PICO_UART_DECODE_BAD_LENGTH, None)
             else
               (let expected = pico_uart_crc16 (Some (drop 1 d)) (4 + n);
                    actual = u16_le (d ! (5 + n)) (d ! (6 + n))
                in if expected \<noteq> actual then (PICO_UART_DECODE_BAD_CRC, None)
                   else (PICO_UART_DECODE_OK,
                     Some \<lparr>fr_version = d ! 1, fr_type = d ! 2, fr_payload_len = payload_len,
                       fr_payload = (if n \<noteq> 0 then take n (drop 5 d) else [])\<rparr>))))"

section \<open>Type facts\<close>

lemma word_range_simps:
  fixes ty :: u8
  shows "1 \<le> ty \<and> ty \<le> 12 \<longleftrightarrow> ty \<in> {1, 2, 3, 4, 5, 6, 7, 8, 9, 10, 11, 12}"
    and "0x80 \<le> ty \<and> ty \<le> 0x87 \<longleftrightarrow> ty \<in> {0x80, 0x81, 0x82, 0x83, 0x84, 0x85, 0x86, 0x87}"
  by (simp_all add: word_le_nat_alt word_unat_eq_iff) presburger+

lemma type_known_iff: "pico_uart_type_known ty \<longleftrightarrow> 1 \<le> ty \<and> ty \<le> 12 \<or> 0x80 \<le> ty \<and> ty \<le> 0x87"
  unfolding word_range_simps
  by (auto simp: pico_uart_type_known_def pico_constants)

lemma command_known: "pico_uart_type_is_command ty \<Longrightarrow> pico_uart_type_known ty"
  by (simp add: pico_uart_type_is_command_def type_known_iff zero_type_defs)

lemma command_iff:
  "pico_uart_type_is_command ty \<longleftrightarrow> ty \<in> {PICO_UART_QUEUE_CLEAR, PICO_UART_QUEUE_EVENT, PICO_UART_QUEUE_END,
     PICO_UART_PLAY_START, PICO_UART_PLAY_ABORT, PICO_UART_STATUS_REQUEST, PICO_UART_PING,
     PICO_UART_MODE_SET}"
  unfolding pico_uart_type_is_command_def zero_type_defs word_range_simps by simp

section \<open>The CRC register is a bijection in every step\<close>

text \<open>
  One shift of the register loses no information: the bit shifted out comes back as the low bit,
  because the polynomial has a constant term. So two different registers stay different, and two
  different bytes lead the same register to different values.
\<close>

lemma crc_bit_alt: "crc_bit crc = push_bit 1 crc XOR (if bit crc 15 then 0x1021 else 0)"
proof -
  have "crc AND 0x8000 \<noteq> 0 \<longleftrightarrow> bit crc 15"
    using and_exp_eq_0_iff_not_bit [of crc 15] by simp
  then show ?thesis by (simp add: crc_bit_def)
qed

lemma crc_bit_low: "bit (crc_bit crc) 0 \<longleftrightarrow> bit crc 15"
  unfolding crc_bit_alt bit_xor_iff bit_push_bit_iff by simp

lemma crc_bit_inj: "crc_bit a = crc_bit b \<Longrightarrow> a = b"
proof -
  assume eq: "crc_bit a = crc_bit b"
  then have top: "bit a 15 \<longleftrightarrow> bit b 15" by (metis crc_bit_low)
  have "push_bit 1 a XOR (if bit a 15 then 0x1021 else 0)
      = push_bit 1 b XOR (if bit a 15 then 0x1021 else 0)"
    using eq top by (simp add: crc_bit_alt)
  then have shift: "push_bit 1 a = push_bit 1 b" by (simp only: word_xor_cancel_right)
  show "a = b"
  proof (rule bit_word_eqI)
    fix n assume "n < LENGTH(16)"
    then consider "n = 15" | "Suc n < 16" by fastforce
    then show "bit a n = bit b n"
    proof cases
      case 2
      have "bit (push_bit 1 w) (Suc n) \<longleftrightarrow> bit w n" for w :: u16
        using 2 unfolding bit_push_bit_iff by simp
      with shift show ?thesis by metis
    qed (use top in simp)
  qed
qed

lemma crc_bits_inj: "(crc_bit ^^ n) a = (crc_bit ^^ n) b \<Longrightarrow> a = b"
  by (induction n) (auto dest: crc_bit_inj)

lemma crc_byte_inj_state: "crc_byte s b = crc_byte t b \<longleftrightarrow> s = t"
  unfolding crc_byte_def by (metis crc_bits_inj word_xor_cancel_right)

lemma ucast_push_inj: "push_bit 8 (ucast a :: u16) = push_bit 8 (ucast b) \<Longrightarrow> a = (b :: u8)"
proof (rule bit_word_eqI)
  fix n assume "push_bit 8 (ucast a :: u16) = push_bit 8 (ucast b)" "n < LENGTH(8)"
  then have "bit (push_bit 8 (ucast a :: u16)) (n + 8) = bit (push_bit 8 (ucast b :: u16)) (n + 8)"
    by simp
  with \<open>n < LENGTH(8)\<close> show "bit a n = bit b n" by (simp add: bit_push_bit_iff bit_ucast_iff)
qed

lemma crc_byte_inj_byte: "crc_byte s a = crc_byte s b \<longleftrightarrow> a = b"
proof
  assume "crc_byte s a = crc_byte s b"
  then have "s XOR push_bit 8 (ucast a) = s XOR push_bit 8 (ucast b)"
    unfolding crc_byte_def by (rule crc_bits_inj)
  then have "push_bit 8 (ucast a :: u16) = push_bit 8 (ucast b)" by (simp only: word_xor_cancel_left)
  then show "a = b" by (rule ucast_push_inj)
qed simp

lemma foldl_crc_inj_state: "foldl crc_byte s bs = foldl crc_byte t bs \<longleftrightarrow> s = t"
  by (induction bs arbitrary: s t) (simp_all add: crc_byte_inj_state)

lemma foldl_crc_one_byte:
  assumes "i < length bs" "b \<noteq> bs ! i"
  shows "foldl crc_byte s (bs[i := b]) \<noteq> foldl crc_byte s bs"
proof -
  have upd: "bs[i := b] = take i bs @ b # drop (Suc i) bs"
    and id: "bs = take i bs @ bs ! i # drop (Suc i) bs"
    using assms(1) by (simp_all add: upd_conv_take_nth_drop id_take_nth_drop)
  show ?thesis
    unfolding upd using assms(2)
    by (subst (2) id) (simp add: foldl_crc_inj_state crc_byte_inj_byte del: append_take_drop_id)
qed

text \<open>
  The register is linear, and as long as its low bits stay zero nothing was shifted out. So two bytes in
  a row that differ, a burst of 16 bits, never cancel.
\<close>

lemma crc_bit_xor: "crc_bit (a XOR b) = crc_bit a XOR crc_bit b"
proof -
  have "push_bit 1 (a XOR b) = push_bit 1 a XOR push_bit 1 b" by (rule push_bit_xor)
  then show ?thesis by (cases "bit a 15"; cases "bit b 15") (simp_all add: crc_bit_alt bit_xor_iff ac_simps)
qed

lemma crc_bits_xor: "(crc_bit ^^ n) (a XOR b) = (crc_bit ^^ n) a XOR (crc_bit ^^ n) b"
  by (induction n) (simp_all add: crc_bit_xor)

lemma crc_bits_low_zero:
  assumes "n \<le> 16" "\<And>i. i < n \<Longrightarrow> \<not> bit ((crc_bit ^^ n) x) i"
  shows "(crc_bit ^^ n) x = push_bit n x \<and> (\<forall>i. 16 - n \<le> i \<and> i < 16 \<longrightarrow> \<not> bit x i)"
  using assms
proof (induction n)
  case (Suc n)
  let ?y = "(crc_bit ^^ n) x"
  have top: "\<not> bit ?y 15" using Suc.prems(2) [of 0] crc_bit_low [of ?y] by simp
  then have shift: "crc_bit ?y = push_bit 1 ?y" by (simp add: crc_bit_alt)
  have low: "bit (crc_bit ?y) (Suc i) \<longleftrightarrow> bit ?y i" if "Suc i < 16" for i
    using that unfolding shift bit_push_bit_iff by simp
  have "\<not> bit ?y i" if "i < n" for i
    using Suc.prems(1) Suc.prems(2) [of "Suc i"] low [of i] that by simp
  with Suc.IH Suc.prems(1) have ih: "?y = push_bit n x" "\<And>i. 16 - n \<le> i \<Longrightarrow> i < 16 \<Longrightarrow> \<not> bit x i" by simp_all
  have "\<not> bit x (15 - n)" using top Suc.prems(1) unfolding ih(1) by (simp add: bit_push_bit_iff)
  moreover have "i = 15 - n \<or> 16 - n \<le> i" if "16 - Suc n \<le> i" for i using that Suc.prems(1) by linarith
  ultimately have "\<forall>i. 16 - Suc n \<le> i \<and> i < 16 \<longrightarrow> \<not> bit x i" using ih(2) by blast
  moreover have "(crc_bit ^^ Suc n) x = push_bit (Suc n) x" using shift ih(1) by simp
  ultimately show ?case by blast
qed auto

lemma xor_exchange:
  fixes a b p q :: "'a::len word"
  assumes "a XOR p = b XOR q"
  shows "a XOR b = p XOR q"
proof (rule bit_word_eqI)
  fix n
  from assms have "bit (a XOR p) n = bit (b XOR q) n" by simp
  then show "bit (a XOR b) n = bit (p XOR q) n" by (auto simp: bit_xor_iff)
qed

lemma crc_two_bytes:
  assumes "crc_byte (crc_byte s a1) a2 = crc_byte (crc_byte s b1) b2"
  shows "a1 = b1 \<and> a2 = b2"
proof -
  let ?f = "crc_bit ^^ 8" and ?h = "\<lambda>b :: u8. push_bit 8 (ucast b) :: u16"
  let ?x = "?h a1 XOR ?h b1"
  have "crc_byte s a1 XOR ?h a2 = crc_byte s b1 XOR ?h b2"
    using assms crc_bits_inj [of 8] by (simp only: crc_byte_def [of _ a2] crc_byte_def [of _ b2])
  then have "crc_byte s a1 XOR crc_byte s b1 = ?h a2 XOR ?h b2" by (rule xor_exchange)
  moreover have "crc_byte s a1 XOR crc_byte s b1 = ?f ((s XOR ?h a1) XOR (s XOR ?h b1))"
    by (simp only: crc_byte_def crc_bits_xor)
  moreover have "(s XOR ?h a1) XOR (s XOR ?h b1) = ?x" by (simp add: ac_simps)
  ultimately have eq: "?f ?x = ?h a2 XOR ?h b2" by simp
  have "\<not> bit (?f ?x) i" if "i < 8" for i using that unfolding eq by (simp add: bit_xor_iff bit_push_bit_iff)
  from crc_bits_low_zero [of 8 ?x, OF _ this] have top: "\<And>i. 8 \<le> i \<Longrightarrow> i < 16 \<Longrightarrow> \<not> bit ?x i" by simp
  have "?x = 0"
  proof (rule bit_word_eqI)
    fix n assume "n < LENGTH(16)"
    with top [of n] show "bit ?x n = bit (0 :: u16) n"
      by (cases "n < 8") (simp_all add: bit_xor_iff bit_push_bit_iff)
  qed
  then have "a1 = b1" using ucast_push_inj by (metis word_xor_cancel_left xor_self_eq)
  with assms show ?thesis using crc_byte_inj_byte by simp
qed

lemma foldl_crc_two_bytes:
  assumes "Suc i < length bs" "b \<noteq> bs ! i \<or> c \<noteq> bs ! Suc i"
  shows "foldl crc_byte s (bs[i := b, Suc i := c]) \<noteq> foldl crc_byte s bs"
proof -
  have split2: "xs = take i xs @ xs ! i # xs ! Suc i # drop (Suc (Suc i)) xs" if "Suc i < length xs" for xs :: "u8 list"
    using that by (metis Cons_nth_drop_Suc Suc_lessD id_take_nth_drop)
  have upd: "bs[i := b, Suc i := c] = take i bs @ b # c # drop (Suc (Suc i)) bs"
    using assms(1) by (subst split2 [of "bs[i := b, Suc i := c]"]) (simp_all add: nth_list_update)
  show ?thesis
    unfolding upd using assms crc_two_bytes
    by (subst (3) split2) (auto simp: foldl_crc_inj_state simp del: append_take_drop_id)
qed

text \<open>The catalogue value of the algorithm: the CRC of the nine characters \<open>123456789\<close>.\<close>

lemma crc_byte_unfold: "crc_byte crc b = crc_bit (crc_bit (crc_bit (crc_bit (crc_bit (crc_bit (crc_bit (crc_bit
    (crc XOR push_bit 8 (ucast b)))))))))"
  by (simp add: crc_byte_def numeral_eq_Suc)

lemma crc16_check_value:
  "pico_uart_crc16 (Some [0x31, 0x32, 0x33, 0x34, 0x35, 0x36, 0x37, 0x38, 0x39]) 9 = 0x29B1"
  by (simp add: pico_uart_crc16_def crc_byte_unfold crc_bit_def)

section \<open>The wire format\<close>

text \<open>
  The layout of the protocol document as a function of type and payload: magic, version, type,
  little-endian length, payload, little-endian CRC over everything after the magic.
\<close>

definition wire_covered :: "u8 \<Rightarrow> u8 list \<Rightarrow> u8 list" where
  "wire_covered ty body = [2, ty, lo8 (of_nat (length body)), hi8 (of_nat (length body))] @ body"

definition wire_frame :: "u8 \<Rightarrow> u8 list \<Rightarrow> u8 list" where
  "wire_frame ty body =
     (let crc = foldl crc_byte 0xFFFF (wire_covered ty body)
      in 0xA5 # wire_covered ty body @ [lo8 crc, hi8 crc])"

definition mk_frame :: "u8 \<Rightarrow> u8 list \<Rightarrow> uart_frame" where
  "mk_frame ty body = \<lparr>fr_version = 2, fr_type = ty, fr_payload_len = of_nat (length body), fr_payload = body\<rparr>"

lemma length_wire_frame [simp]: "length (wire_frame ty body) = 7 + length body"
  by (simp add: wire_frame_def wire_covered_def Let_def)

lemma mk_frame_simps [simp]:
  "fr_type (mk_frame ty body) = ty" "fr_payload (mk_frame ty body) = body"
  "fr_payload_len (mk_frame ty body) = of_nat (length body)" "fr_version (mk_frame ty body) = 2"
  by (simp_all add: mk_frame_def)

lemma unat_of_nat_le_64: "n \<le> 64 \<Longrightarrow> unat (of_nat n :: u16) = n"
  by (simp add: unat_of_nat)

text \<open>
  The encoder accepts exactly the known types with a payload of at most 64 bytes and enough room,
  and what it stores is the wire format.
\<close>

lemma encode_frame_eq:
  assumes "n = unat plen" "n \<noteq> 0 \<Longrightarrow> n \<le> length (the payload)"
  shows "pico_uart_encode_frame ty payload plen has_out out_size =
    (if has_out \<and> n \<le> 64 \<and> (n = 0 \<or> payload \<noteq> None) \<and> 7 + n \<le> out_size \<and> pico_uart_type_known ty
     then Some (wire_frame ty (if n = 0 then [] else take n (the payload))) else None)"
proof -
  have "(of_nat (length (take n (the payload))) :: u16) = plen" if "n \<noteq> 0"
    using assms that by (simp add: min_def)
  moreover have "plen = 0" if "n = 0" using assms(1) that by (simp add: unat_eq_zero)
  ultimately show ?thesis
    using assms
    by (auto simp: pico_uart_encode_frame_def wire_frame_def wire_covered_def pico_uart_crc16_def Let_def
        min_def)
qed

lemma encode_frame_Some:
  assumes "length body \<le> 64" "pico_uart_type_known ty" "7 + length body \<le> out_size"
  shows "pico_uart_encode_frame ty (Some body) (of_nat (length body)) True out_size = Some (wire_frame ty body)"
proof -
  have u: "length body = unat (of_nat (length body) :: u16)" using assms(1) by (simp add: unat_of_nat_le_64)
  show ?thesis
    by (subst encode_frame_eq [where n = "length body", OF u]) (use assms in auto)
qed

lemma encode_frame_NULL:
  assumes "pico_uart_type_known ty" "7 \<le> out_size"
  shows "pico_uart_encode_frame ty None 0 True out_size = Some (wire_frame ty [])"
  by (subst encode_frame_eq [where n = 0]) (use assms in auto)

lemma decode_wire_frame:
  assumes "length body \<le> 64"
  shows "pico_uart_decode_frame (Some (wire_frame ty body @ rest)) (7 + length body) True
       = (PICO_UART_DECODE_OK, Some (mk_frame ty body))"
proof -
  let ?l = "of_nat (length body) :: u16"
  have n: "unat ?l = length body" using assms by (rule unat_of_nat_le_64)
  have "u16_le (lo8 ?l) (hi8 ?l) = ?l" by simp
  then show ?thesis
    using assms
    by (simp add: pico_uart_decode_frame_def wire_frame_def wire_covered_def Let_def n mk_frame_def
        pico_uart_crc16_def nth_append)
qed

text \<open>
  What acceptance by the decoder means. \<open>wire_ok d n\<close> lists its tests for \<open>n\<close> payload bytes.
\<close>

definition wire_ok :: "u8 list \<Rightarrow> nat \<Rightarrow> bool" where
  "wire_ok d n \<longleftrightarrow> d ! 0 = 0xA5 \<and> d ! 1 = 2 \<and> u16_le (d ! 3) (d ! 4) = of_nat n \<and> n \<le> 64
     \<and> foldl crc_byte 0xFFFF (take (4 + n) (drop 1 d)) = u16_le (d ! (5 + n)) (d ! (6 + n))"

lemma decode_OK_iff:
  "fst (pico_uart_decode_frame (Some d) len True) = PICO_UART_DECODE_OK \<longleftrightarrow>
     (\<exists>n. len = 7 + n \<and> wire_ok d n)"
proof -
  let ?l = "u16_le (d ! 3) (d ! 4)"
  have "n = unat ?l" if "?l = of_nat n" "n \<le> 64" for n using that by (simp add: unat_of_nat_le_64)
  then show ?thesis
    by (auto simp: pico_uart_decode_frame_def wire_ok_def pico_uart_crc16_def Let_def)
qed

lemma decode_OK_frame:
  assumes "pico_uart_decode_frame (Some d) len True = (PICO_UART_DECODE_OK, f)"
  shows "\<exists>n. len = 7 + n \<and> wire_ok d n \<and> f = Some \<lparr>fr_version = 2, fr_type = d ! 2,
    fr_payload_len = of_nat n, fr_payload = take n (drop 5 d)\<rparr>"
proof -
  from assms obtain n where n: "len = 7 + n" "wire_ok d n"
    using decode_OK_iff [of d len] by auto
  then have "unat (u16_le (d ! 3) (d ! 4)) = n" by (simp add: wire_ok_def unat_of_nat_le_64)
  with assms n show ?thesis
    by (auto simp: pico_uart_decode_frame_def Let_def wire_ok_def split: if_splits)
qed

text \<open>The decoder accepts nothing but the wire format: encoding its result gives the input back.\<close>

lemma decode_OK_wire:
  assumes "pico_uart_decode_frame (Some d) (length d) True = (PICO_UART_DECODE_OK, Some f)"
  shows "d = wire_frame (fr_type f) (fr_payload f)" "f = mk_frame (fr_type f) (fr_payload f)"
    "length (fr_payload f) \<le> 64"
proof -
  from decode_OK_frame [OF assms] obtain n where n: "length d = 7 + n" and ok: "wire_ok d n"
    and f: "f = \<lparr>fr_version = 2, fr_type = d ! 2, fr_payload_len = of_nat n, fr_payload = take n (drop 5 d)\<rparr>"
    by auto
  obtain a0 a1 a2 a3 a4 tl where d0: "d = a0 # a1 # a2 # a3 # a4 # tl"
    using n by (auto simp: numeral_eq_Suc length_Suc_conv add_Suc Suc_length_conv)
  obtain body c0 c1 where tl: "tl = body @ [c0, c1]" "length body = n"
  proof -
    have len: "length tl = n + 2" using n d0 by simp
    then have "length (drop n tl) = 2" by simp
    then obtain c0 c1 where "drop n tl = [c0, c1]" by (rule length_2E)
    then have "tl = take n tl @ [c0, c1]" by (metis append_take_drop_id)
    with len show ?thesis using that [of "take n tl" c0 c1] by simp
  qed
  have len: "lo8 (of_nat n) = a3" "hi8 (of_nat n) = a4"
  proof -
    have "of_nat n = u16_le a3 a4" using ok d0 by (simp add: wire_ok_def)
    then show "lo8 (of_nat n) = a3" "hi8 (of_nat n) = a4" by simp_all
  qed
  have crc: "lo8 (foldl crc_byte 0xFFFF (a1 # a2 # a3 # a4 # body)) = c0"
    "hi8 (foldl crc_byte 0xFFFF (a1 # a2 # a3 # a4 # body)) = c1"
  proof -
    have "foldl crc_byte 0xFFFF (a1 # a2 # a3 # a4 # body) = u16_le c0 c1"
      using ok d0 tl by (auto simp: wire_ok_def nth_append)
    then show "lo8 (foldl crc_byte 0xFFFF (a1 # a2 # a3 # a4 # body)) = c0"
      "hi8 (foldl crc_byte 0xFFFF (a1 # a2 # a3 # a4 # body)) = c1"
      by (simp_all only: lo8_u16_le hi8_u16_le)
  qed
  show "d = wire_frame (fr_type f) (fr_payload f)"
    using ok d0 tl f crc len by (simp add: wire_frame_def wire_covered_def Let_def wire_ok_def)
  show "f = mk_frame (fr_type f) (fr_payload f)" using f d0 tl by (simp add: mk_frame_def)
  show "length (fr_payload f) \<le> 64" using f ok by (auto simp: wire_ok_def)
qed

text \<open>A valid frame with any one byte changed is not a valid frame of the same length.\<close>

lemma wire_ok_one_byte:
  assumes "wire_ok d n" "length d = 7 + n" "i < length d" "b \<noteq> d ! i"
  shows "\<not> wire_ok (d[i := b]) n"
proof
  assume ok': "wire_ok (d[i := b]) n"
  consider "i < 2" | "i = 2 \<or> 5 \<le> i \<and> i < 5 + n" | "i = 3 \<or> i = 4" | "5 + n \<le> i"
    by linarith
  then show False
  proof cases
    case 1
    then have "i = 0 \<or> i = 1" by auto
    then show False using assms ok' by (auto simp: wire_ok_def)
  next
    case 2
    have "take (4 + n) (drop 1 (d[i := b])) = (take (4 + n) (drop 1 d))[i - 1 := b]"
      using 2 by (auto simp: drop_update_swap take_update_swap)
    moreover have "(take (4 + n) (drop 1 d)) ! (i - 1) = d ! i"
      using 2 assms(2) by (auto simp: numeral_2_eq_2)
    moreover have "i - 1 < length (take (4 + n) (drop 1 d))" using 2 assms(2) by auto
    ultimately have "foldl crc_byte 0xFFFF (take (4 + n) (drop 1 (d[i := b])))
        \<noteq> foldl crc_byte 0xFFFF (take (4 + n) (drop 1 d))"
      using foldl_crc_one_byte assms(4) by simp
    with 2 assms ok' show False by (auto simp: wire_ok_def)
  next
    case 3
    then have "u16_le (d[i := b] ! 3) (d[i := b] ! 4) = u16_le (d ! 3) (d ! 4)"
      using assms ok' by (simp add: wire_ok_def)
    then have "d[i := b] ! 3 = d ! 3" "d[i := b] ! 4 = d ! 4" by (metis lo8_u16_le, metis hi8_u16_le)
    with 3 assms show False by auto
  next
    case 4
    then have i: "i = 5 + n \<or> i = 6 + n" using assms by auto
    have "take (4 + n) (drop 1 (d[i := b])) = take (4 + n) (drop 1 d)"
      using 4 by (intro nth_equalityI) auto
    then have "u16_le (d[i := b] ! (5 + n)) (d[i := b] ! (6 + n)) = u16_le (d ! (5 + n)) (d ! (6 + n))"
      using assms(1) ok' by (simp add: wire_ok_def)
    then have "d[i := b] ! (5 + n) = d ! (5 + n)" "d[i := b] ! (6 + n) = d ! (6 + n)"
      by (metis lo8_u16_le, metis hi8_u16_le)
    with i assms show False by auto
  qed
qed

lemma wire_ok_two_bytes:
  assumes "wire_ok d n" "length d = 7 + n" "5 \<le> i" "Suc i < length d" "i \<noteq> 4 + n" "b \<noteq> d ! i \<or> c \<noteq> d ! Suc i"
  shows "\<not> wire_ok (d[i := b, Suc i := c]) n"
proof
  assume ok': "wire_ok (d[i := b, Suc i := c]) n"
  show False
  proof (cases "i < 4 + n")
    case True
    let ?cov = "take (4 + n) (drop 1 d)"
    have "take (4 + n) (drop 1 (d[i := b, Suc i := c])) = ?cov[i - 1 := b, Suc (i - 1) := c]"
      using assms(3) by (auto simp: drop_update_swap take_update_swap)
    moreover have "Suc (i - 1) < length ?cov" using True assms(2,3) by auto
    moreover have "?cov ! (i - 1) = d ! i" "?cov ! Suc (i - 1) = d ! Suc i" using True assms(2,3) by auto
    ultimately have "foldl crc_byte 0xFFFF (take (4 + n) (drop 1 (d[i := b, Suc i := c]))) \<noteq> foldl crc_byte 0xFFFF ?cov"
      using foldl_crc_two_bytes assms(6) by simp
    with True assms ok' show False by (auto simp: wire_ok_def)
  next
    case False
    with assms have i: "i = 5 + n" by linarith
    have "take (4 + n) (drop 1 (d[i := b, Suc i := c])) = take (4 + n) (drop 1 d)"
      using i by (intro nth_equalityI) auto
    then have "u16_le (d[i := b, Suc i := c] ! (5 + n)) (d[i := b, Suc i := c] ! (6 + n)) = u16_le (d ! (5 + n)) (d ! (6 + n))"
      using assms(1) ok' by (simp add: wire_ok_def)
    then have "d[i := b, Suc i := c] ! (5 + n) = d ! (5 + n)" "d[i := b, Suc i := c] ! (6 + n) = d ! (6 + n)"
      by (metis lo8_u16_le, metis hi8_u16_le)
    with i assms show False by auto
  qed
qed

text \<open>
  Damage that never passes: one byte, or two bytes in a row that are both of the payload or both of the
  checksum.
\<close>

definition damage :: "nat \<Rightarrow> u8 list \<Rightarrow> u8 list \<Rightarrow> bool" where
  "damage n d d' \<longleftrightarrow> d' \<noteq> d
     \<and> ((\<exists>i b. (i = 2 \<or> 5 \<le> i) \<and> i < 7 + n \<and> d' = d[i := b])
        \<or> (\<exists>i b c. 5 \<le> i \<and> Suc i < 7 + n \<and> i \<noteq> 4 + n \<and> d' = d[i := b, Suc i := c]))"

lemma damaged_rejected:
  assumes "length d = 7 + n" "fst (pico_uart_decode_frame (Some d) (length d) True) = PICO_UART_DECODE_OK" "damage n d d'"
  shows "fst (pico_uart_decode_frame (Some d') (length d') True) \<noteq> PICO_UART_DECODE_OK"
proof -
  have ok: "wire_ok d n" using assms(1,2) by (auto simp: decode_OK_iff)
  from assms(3) consider (one) i b where "i < 7 + n" "d' = d[i := b]" "b \<noteq> d ! i"
    | (two) i b c where "5 \<le> i" "Suc i < 7 + n" "i \<noteq> 4 + n" "d' = d[i := b, Suc i := c]" "b \<noteq> d ! i \<or> c \<noteq> d ! Suc i"
    unfolding damage_def by (metis list_update_id)
  then have "\<not> wire_ok d' n \<and> length d' = 7 + n"
    using wire_ok_one_byte [OF ok assms(1)] wire_ok_two_bytes [OF ok assms(1)] assms(1) by cases auto
  then show ?thesis by (auto simp: decode_OK_iff)
qed

end
