(* ===== verification/Mode_State.thy ===== *)
theory Mode_State
  imports Uart_Protocol
begin

text \<open>
  \<open>pico/src/mode_state.c\<close>: the mode machine PASS, RECORD, ARMED, PLAYING, ERROR. The machine calls
  back into the program to release all keys, to drop captured input and the playback queue, and to
  report the mode; the callbacks are functions on the whole program state, of which the machine
  itself only reads and writes the mode. The theory has the operations, a transition table they
  refine, and the contract of the callbacks under which every change of mode is safe.
\<close>

text \<open>The program state as far as the machine sees it: the field \<open>state\<close>. The rest is the extension.\<close>

record mode_world =
  mode_state :: u8

text \<open>\<open>NULL\<close> callbacks are \<^const>\<open>None\<close>.\<close>

record 'w mode_callbacks =
  cb_all_release :: "('w \<Rightarrow> 'w) option"
  cb_clear_physical :: "('w \<Rightarrow> 'w) option"
  cb_clear_queue :: "('w \<Rightarrow> 'w) option"
  cb_mode_changed :: "(u8 \<Rightarrow> u8 \<Rightarrow> 'w \<Rightarrow> 'w) option"

definition call_back :: "('w \<Rightarrow> 'w) option \<Rightarrow> 'w \<Rightarrow> 'w" where
  "call_back f w = (case f of None \<Rightarrow> w | Some g \<Rightarrow> g w)"

lemma call_back_simps [simp]: "call_back None w = w" "call_back (Some g) w = g w"
  by (simp_all add: call_back_def)

type_synonym 'z mode_cb = "'z mode_world_scheme mode_callbacks"

definition notify :: "'z mode_cb \<Rightarrow> u8 \<Rightarrow> 'z mode_world_scheme \<Rightarrow> 'z mode_world_scheme" where
  "notify cb reason w =
     (case cb_mode_changed cb of None \<Rightarrow> w | Some f \<Rightarrow> f (mode_state w) reason w)"

definition clear_and_release :: "'z mode_cb \<Rightarrow> 'z mode_world_scheme \<Rightarrow> 'z mode_world_scheme" where
  "clear_and_release cb w = call_back (cb_all_release cb) (call_back (cb_clear_physical cb) w)"

definition clear_release_and_queue :: "'z mode_cb \<Rightarrow> 'z mode_world_scheme \<Rightarrow> 'z mode_world_scheme" where
  "clear_release_and_queue cb w = clear_and_release cb (call_back (cb_clear_queue cb) w)"

definition pico_mode_state_init :: "'z mode_world_scheme \<Rightarrow> 'z mode_world_scheme" where
  "pico_mode_state_init w = w\<lparr>mode_state := PICO_UART_MODE_PASS\<rparr>"

text \<open>The queries take the pointer, as the host driver may hold none.\<close>

definition pico_mode_state_get :: "u8 option \<Rightarrow> u8" where
  "pico_mode_state_get mode = (case mode of None \<Rightarrow> PICO_UART_MODE_ERROR | Some state \<Rightarrow> state)"

definition pico_mode_state_accepts_physical :: "u8 option \<Rightarrow> bool" where
  "pico_mode_state_accepts_physical mode = (case mode of None \<Rightarrow> False
     | Some state \<Rightarrow> state = PICO_UART_MODE_PASS \<or> state = PICO_UART_MODE_RECORD)"

definition pico_mode_state_is_recording :: "u8 option \<Rightarrow> bool" where
  "pico_mode_state_is_recording mode = (case mode of None \<Rightarrow> False
     | Some state \<Rightarrow> state = PICO_UART_MODE_RECORD)"

definition pico_mode_state_handle_mode_set ::
    "'z mode_cb \<Rightarrow> u8 \<Rightarrow> 'z mode_world_scheme \<Rightarrow> bool \<times> 'z mode_world_scheme" where
  "pico_mode_state_handle_mode_set cb target w =
     (if target > PICO_UART_MODE_ARMED then (False, notify cb PICO_UART_REASON_INVALID_TARGET w)
      else if target = PICO_UART_MODE_PASS then
        (let w1 = (if mode_state w \<noteq> PICO_UART_MODE_PASS
                   then (clear_release_and_queue cb w)\<lparr>mode_state := PICO_UART_MODE_PASS\<rparr> else w)
         in (True, notify cb PICO_UART_REASON_OK w1))
      else if target = mode_state w then (True, notify cb PICO_UART_REASON_OK w)
      else if (target = PICO_UART_MODE_RECORD \<or> target = PICO_UART_MODE_ARMED)
           \<and> mode_state w = PICO_UART_MODE_PASS then
        (True, notify cb PICO_UART_REASON_OK ((clear_release_and_queue cb w)\<lparr>mode_state := target\<rparr>))
      else (False, notify cb PICO_UART_REASON_INVALID_TRANSITION w))"

definition pico_mode_state_play_start ::
    "'z mode_cb \<Rightarrow> 'z mode_world_scheme \<Rightarrow> bool \<times> 'z mode_world_scheme" where
  "pico_mode_state_play_start cb w =
     (if mode_state w \<noteq> PICO_UART_MODE_ARMED then (False, notify cb PICO_UART_REASON_INVALID_TRANSITION w)
      else (True, notify cb PICO_UART_REASON_OK
              ((clear_and_release cb w)\<lparr>mode_state := PICO_UART_MODE_PLAYING\<rparr>)))"

definition pico_mode_state_play_abort ::
    "'z mode_cb \<Rightarrow> 'z mode_world_scheme \<Rightarrow> bool \<times> 'z mode_world_scheme" where
  "pico_mode_state_play_abort cb w =
     (if mode_state w \<noteq> PICO_UART_MODE_ARMED \<and> mode_state w \<noteq> PICO_UART_MODE_PLAYING
      then (False, notify cb PICO_UART_REASON_INVALID_TRANSITION w)
      else (True, notify cb PICO_UART_REASON_ABORTED
              ((clear_release_and_queue cb w)\<lparr>mode_state := PICO_UART_MODE_ARMED\<rparr>)))"

definition pico_mode_state_play_finish ::
    "'z mode_cb \<Rightarrow> 'z mode_world_scheme \<Rightarrow> bool \<times> 'z mode_world_scheme" where
  "pico_mode_state_play_finish cb w =
     (if mode_state w \<noteq> PICO_UART_MODE_PLAYING then (False, notify cb PICO_UART_REASON_INVALID_TRANSITION w)
      else (True, notify cb PICO_UART_REASON_FINISHED
              ((clear_release_and_queue cb w)\<lparr>mode_state := PICO_UART_MODE_ARMED\<rparr>)))"

definition enter_error :: "'z mode_cb \<Rightarrow> u8 \<Rightarrow> 'z mode_world_scheme \<Rightarrow> 'z mode_world_scheme" where
  "enter_error cb reason w =
     notify cb reason
       (if mode_state w \<noteq> PICO_UART_MODE_PASS then
          (if mode_state w \<noteq> PICO_UART_MODE_ERROR
           then (clear_release_and_queue cb w)\<lparr>mode_state := PICO_UART_MODE_ERROR\<rparr> else w)
        else w)"

definition pico_mode_state_protocol_error :: "'z mode_cb \<Rightarrow> 'z mode_world_scheme \<Rightarrow> 'z mode_world_scheme" where
  "pico_mode_state_protocol_error cb = enter_error cb PICO_UART_REASON_PROTOCOL_ERROR"

definition pico_mode_state_uart_fault :: "'z mode_cb \<Rightarrow> 'z mode_world_scheme \<Rightarrow> 'z mode_world_scheme" where
  "pico_mode_state_uart_fault cb = enter_error cb PICO_UART_REASON_UART_FAULT"

definition pico_mode_state_underrun_fault :: "'z mode_cb \<Rightarrow> 'z mode_world_scheme \<Rightarrow> 'z mode_world_scheme" where
  "pico_mode_state_underrun_fault cb = enter_error cb PICO_UART_REASON_UNDERRUN"

text \<open>
  The \<open>NULL\<close> guards of the operations: \<open>has_mode\<close> says that the pointer to the machine is not \<open>NULL\<close>.
\<close>

definition mode_guard :: "bool \<Rightarrow> 'r \<Rightarrow> ('w \<Rightarrow> 'r \<times> 'w) \<Rightarrow> 'w \<Rightarrow> 'r \<times> 'w" where
  "mode_guard has_mode r f w = (if has_mode then f w else (r, w))"

definition pico_mode_state_handle_mode_set_ptr ::
    "'z mode_cb \<Rightarrow> bool \<Rightarrow> u8 \<Rightarrow> 'z mode_world_scheme \<Rightarrow> bool \<times> 'z mode_world_scheme" where
  "pico_mode_state_handle_mode_set_ptr cb has_mode target =
     mode_guard has_mode False (pico_mode_state_handle_mode_set cb target)"

definition pico_mode_state_play_start_ptr ::
    "'z mode_cb \<Rightarrow> bool \<Rightarrow> 'z mode_world_scheme \<Rightarrow> bool \<times> 'z mode_world_scheme" where
  "pico_mode_state_play_start_ptr cb has_mode = mode_guard has_mode False (pico_mode_state_play_start cb)"

definition pico_mode_state_play_abort_ptr ::
    "'z mode_cb \<Rightarrow> bool \<Rightarrow> 'z mode_world_scheme \<Rightarrow> bool \<times> 'z mode_world_scheme" where
  "pico_mode_state_play_abort_ptr cb has_mode = mode_guard has_mode False (pico_mode_state_play_abort cb)"

definition pico_mode_state_play_finish_ptr ::
    "'z mode_cb \<Rightarrow> bool \<Rightarrow> 'z mode_world_scheme \<Rightarrow> bool \<times> 'z mode_world_scheme" where
  "pico_mode_state_play_finish_ptr cb has_mode = mode_guard has_mode False (pico_mode_state_play_finish cb)"

definition enter_error_ptr ::
    "'z mode_cb \<Rightarrow> bool \<Rightarrow> u8 \<Rightarrow> 'z mode_world_scheme \<Rightarrow> 'z mode_world_scheme" where
  "enter_error_ptr cb has_mode reason w = snd (mode_guard has_mode () (\<lambda>w. ((), enter_error cb reason w)) w)"

section \<open>The operations as one step function\<close>

datatype mode_op = Mode_Set u8 | Play_Start | Play_Abort | Play_Finish
  | Protocol_Error | Uart_Fault | Underrun_Fault

fun mode_step :: "'z mode_cb \<Rightarrow> mode_op \<Rightarrow> 'z mode_world_scheme \<Rightarrow> bool \<times> 'z mode_world_scheme" where
  "mode_step cb (Mode_Set target) w = pico_mode_state_handle_mode_set cb target w"
| "mode_step cb Play_Start w = pico_mode_state_play_start cb w"
| "mode_step cb Play_Abort w = pico_mode_state_play_abort cb w"
| "mode_step cb Play_Finish w = pico_mode_state_play_finish cb w"
| "mode_step cb Protocol_Error w = (True, pico_mode_state_protocol_error cb w)"
| "mode_step cb Uart_Fault w = (True, pico_mode_state_uart_fault cb w)"
| "mode_step cb Underrun_Fault w = (True, pico_mode_state_underrun_fault cb w)"

lemmas mode_step_defs = pico_mode_state_handle_mode_set_def pico_mode_state_play_start_def
  pico_mode_state_play_abort_def pico_mode_state_play_finish_def enter_error_def
  pico_mode_state_protocol_error_def pico_mode_state_uart_fault_def pico_mode_state_underrun_fault_def

text \<open>
  The transition table: for an operation in a mode, what is discarded, the next mode, the reason
  reported, and whether the operation succeeds.
\<close>

datatype clearing = Keep | Clear_Input | Clear_All

fun mode_table :: "mode_op \<Rightarrow> u8 \<Rightarrow> clearing \<times> u8 \<times> u8 \<times> bool" where
  "mode_table (Mode_Set target) s =
     (if target > 2 then (Keep, s, PICO_UART_REASON_INVALID_TARGET, False)
      else if target = s then (Keep, s, PICO_UART_REASON_OK, True)
      else if target = 0 \<or> s = 0 then (Clear_All, target, PICO_UART_REASON_OK, True)
      else (Keep, s, PICO_UART_REASON_INVALID_TRANSITION, False))"
| "mode_table Play_Start s = (if s = 2 then (Clear_Input, 3, PICO_UART_REASON_OK, True)
      else (Keep, s, PICO_UART_REASON_INVALID_TRANSITION, False))"
| "mode_table Play_Abort s = (if s = 2 \<or> s = 3 then (Clear_All, 2, PICO_UART_REASON_ABORTED, True)
      else (Keep, s, PICO_UART_REASON_INVALID_TRANSITION, False))"
| "mode_table Play_Finish s = (if s = 3 then (Clear_All, 2, PICO_UART_REASON_FINISHED, True)
      else (Keep, s, PICO_UART_REASON_INVALID_TRANSITION, False))"
| "mode_table Protocol_Error s = (if s = 0 \<or> s = 4 then Keep else Clear_All, if s = 0 then 0 else 4,
      PICO_UART_REASON_PROTOCOL_ERROR, True)"
| "mode_table Uart_Fault s = (if s = 0 \<or> s = 4 then Keep else Clear_All, if s = 0 then 0 else 4,
      PICO_UART_REASON_UART_FAULT, True)"
| "mode_table Underrun_Fault s = (if s = 0 \<or> s = 4 then Keep else Clear_All, if s = 0 then 0 else 4,
      PICO_UART_REASON_UNDERRUN, True)"

fun apply_clearing :: "'z mode_cb \<Rightarrow> clearing \<Rightarrow> 'z mode_world_scheme \<Rightarrow> 'z mode_world_scheme" where
  "apply_clearing cb Keep w = w"
| "apply_clearing cb Clear_Input w = clear_and_release cb w"
| "apply_clearing cb Clear_All w = clear_release_and_queue cb w"

lemma u8_le_2: "(target :: u8) \<noteq> 0 \<Longrightarrow> \<not> 2 < target \<Longrightarrow> target = 1 \<or> target = 2"
proof -
  assume "target \<noteq> 0" "\<not> 2 < target"
  then have "unat target \<noteq> 0" "unat target \<le> 2" by (simp_all add: unat_eq_zero word_le_nat_alt not_less)
  then have "unat target = 1 \<or> unat target = 2" by linarith
  then show ?thesis using word_unat_eq_iff [of target 1] word_unat_eq_iff [of target 2] by auto
qed

text \<open>Every operation is the table: discard, set the mode, report.\<close>

lemma mode_step_table:
  assumes "mode_table op (mode_state w) = (clr, s', reason, ok)"
  shows "mode_step cb op w = (ok, notify cb reason
    (if clr = Keep then w else (apply_clearing cb clr w)\<lparr>mode_state := s'\<rparr>))"
proof (cases op)
  case (Mode_Set target)
  consider "2 < target" | "target = 0" | "target = 1 \<or> target = 2" using u8_le_2 by blast
  then show ?thesis
    by cases (use assms Mode_Set in \<open>auto simp: mode_step_defs mode_defs Let_def split: if_splits\<close>)
qed (use assms in \<open>auto simp: mode_step_defs mode_defs Let_def split: if_splits\<close>)

lemma mode_table_next: "mode_table op s = (clr, s', reason, ok) \<Longrightarrow> clr = Keep \<Longrightarrow> s' = s"
  by (cases op) (auto split: if_splits)

lemma mode_table_valid: "mode_table op s = (clr, s', reason, ok) \<Longrightarrow> s \<le> 4 \<Longrightarrow> s' \<le> 4"
  by (cases op) (auto split: if_splits intro: order_trans [of _ 2])

section \<open>The contract of the callbacks\<close>

text \<open>
  The machine is given all four callbacks. They leave the mode alone; the release callback makes a
  release pending, the clear callbacks empty the captured input and the queue, and none undoes what
  an earlier one achieved. Then every change of mode leaves a release pending and no input captured,
  and every change but the start of playback leaves the queue empty.
\<close>

definition all_callbacks ::
    "('w \<Rightarrow> 'w) \<Rightarrow> ('w \<Rightarrow> 'w) \<Rightarrow> ('w \<Rightarrow> 'w) \<Rightarrow> (u8 \<Rightarrow> u8 \<Rightarrow> 'w \<Rightarrow> 'w) \<Rightarrow> 'w mode_callbacks" where
  "all_callbacks rel clr clq chg =
     \<lparr>cb_all_release = Some rel, cb_clear_physical = Some clr, cb_clear_queue = Some clq, cb_mode_changed = Some chg\<rparr>"

locale mode_effects =
  fixes rel clr clq :: "'z mode_world_scheme \<Rightarrow> 'z mode_world_scheme"
    and chg :: "u8 \<Rightarrow> u8 \<Rightarrow> 'z mode_world_scheme \<Rightarrow> 'z mode_world_scheme"
    and pending no_input no_queue :: "'z mode_world_scheme \<Rightarrow> bool"
  assumes keep_mode [simp]: "mode_state (rel w) = mode_state w" "mode_state (clr w) = mode_state w"
      "mode_state (clq w) = mode_state w" "mode_state (chg s r w) = mode_state w"
    and rel_effect [simp]: "pending (rel w)" "no_input (rel w) = no_input w" "no_queue (rel w) = no_queue w"
    and clr_effect [simp]: "no_input (clr w)" "no_queue (clr w) = no_queue w"
    and clq_effect [simp]: "no_queue (clq w)"
    and chg_effect [simp]: "pending (chg s r w) = pending w" "no_input (chg s r w) = no_input w"
      "no_queue (chg s r w) = no_queue w"
    and set_mode_effect [simp]: "pending (w\<lparr>mode_state := s\<rparr>) = pending w"
      "no_input (w\<lparr>mode_state := s\<rparr>) = no_input w" "no_queue (w\<lparr>mode_state := s\<rparr>) = no_queue w"
begin

lemma notify_simps [simp]:
  "mode_state (notify (all_callbacks rel clr clq chg) r w) = mode_state w"
  "pending (notify (all_callbacks rel clr clq chg) r w) = pending w"
  "no_input (notify (all_callbacks rel clr clq chg) r w) = no_input w"
  "no_queue (notify (all_callbacks rel clr clq chg) r w) = no_queue w"
  by (simp_all add: notify_def all_callbacks_def)

lemma step_mode:
  assumes "mode_table op (mode_state w) = (k, s', reason, ok)"
  shows "fst (mode_step (all_callbacks rel clr clq chg) op w) = ok"
    "mode_state (snd (mode_step (all_callbacks rel clr clq chg) op w)) = s'"
  using mode_step_table [OF assms, of "all_callbacks rel clr clq chg"] mode_table_next [OF assms] by auto

lemma step_safe:
  assumes "mode_table op (mode_state w) = (k, s', reason, ok)" "k \<noteq> Keep"
  shows "pending (snd (mode_step (all_callbacks rel clr clq chg) op w))
    \<and> no_input (snd (mode_step (all_callbacks rel clr clq chg) op w))
    \<and> (k = Clear_All \<longrightarrow> no_queue (snd (mode_step (all_callbacks rel clr clq chg) op w)))"
  using assms mode_step_table [OF assms(1), of "all_callbacks rel clr clq chg"]
  by (cases k) (simp_all add: clear_and_release_def clear_release_and_queue_def all_callbacks_def notify_def)

lemma change_safe:
  assumes "mode_state (snd (mode_step (all_callbacks rel clr clq chg) op w)) \<noteq> mode_state w"
  shows "pending (snd (mode_step (all_callbacks rel clr clq chg) op w))"
    "no_input (snd (mode_step (all_callbacks rel clr clq chg) op w))"
    "op \<noteq> Play_Start \<Longrightarrow> no_queue (snd (mode_step (all_callbacks rel clr clq chg) op w))"
proof -
  obtain k s' reason ok where t: "mode_table op (mode_state w) = (k, s', reason, ok)"
    using prod_cases4 by blast
  with assms step_mode(2) [OF t] mode_table_next [OF t] have k: "k \<noteq> Keep" by auto
  from step_safe [OF t k] show "pending (snd (mode_step (all_callbacks rel clr clq chg) op w))"
    "no_input (snd (mode_step (all_callbacks rel clr clq chg) op w))" by simp_all
  have "k = Clear_All" if "op \<noteq> Play_Start" using t k that by (cases op) (auto split: if_splits)
  with step_safe [OF t k] show "op \<noteq> Play_Start \<Longrightarrow> no_queue (snd (mode_step (all_callbacks rel clr clq chg) op w))"
    by simp
qed

end

end
