(* ===== verification/Pico_Machine.thy ===== *)
theory Pico_Machine
  imports Mode_State Hid_Boot_Keyboard
begin

text \<open>
  What the firmware is linked with: the Pico SDK, TinyUSB and the UART registers, none of which is
  in the repository. They are a record \<open>sdk\<close> of functions on the state \<open>'e\<close> of the hardware, an
  argument of every definition that calls them. The program state carries the hardware state and
  two traces of what left the device: the reports the USB endpoint accepted and the bytes given to
  the UART.
\<close>

record 'e sdk =
  sdk_time_us_64 :: "'e \<Rightarrow> u64 \<times> 'e"
  sdk_add_alarm_at :: "u64 \<Rightarrow> 'e \<Rightarrow> i32 \<times> 'e"
  sdk_cancel_alarm :: "i32 \<Rightarrow> 'e \<Rightarrow> bool \<times> 'e"
  sdk_alarm_irq :: "'e \<Rightarrow> bool \<times> 'e"
  sdk_tud_hid_ready :: "'e \<Rightarrow> bool \<times> 'e"
  sdk_tud_hid_report :: "u8 \<Rightarrow> u8 list \<Rightarrow> 'e \<Rightarrow> bool \<times> 'e"
  sdk_tuh_hid_receive_report :: "u8 \<Rightarrow> u8 \<Rightarrow> 'e \<Rightarrow> bool \<times> 'e"
  sdk_tuh_hid_interface_protocol :: "u8 \<Rightarrow> u8 \<Rightarrow> 'e \<Rightarrow> u8 \<times> 'e"
  sdk_uart_is_writable :: "'e \<Rightarrow> bool \<times> 'e"
  sdk_uart_putc_raw :: "u8 \<Rightarrow> 'e \<Rightarrow> 'e"
  sdk_uart_rsr :: "'e \<Rightarrow> u32 \<times> 'e"
  sdk_uart_clear_rsr :: "'e \<Rightarrow> 'e"
  sdk_uart_is_readable :: "'e \<Rightarrow> bool \<times> 'e"
  sdk_uart_getc :: "'e \<Rightarrow> u8 \<times> 'e"

record 'e machine = mode_world +
  hw :: 'e
  hid_out :: "u8 list list"
  uart_out :: "u8 list"

definition call_hw :: "('e \<Rightarrow> 'r \<times> 'e) \<Rightarrow> ('e, 'z) machine_scheme \<Rightarrow> 'r \<times> ('e, 'z) machine_scheme" where
  "call_hw f w = (let (r, e) = f (hw w) in (r, w\<lparr>hw := e\<rparr>))"

lemma call_hw_result [simp]:
  "fst (call_hw f w) = fst (f (hw w))" "snd (call_hw f w) = w\<lparr>hw := snd (f (hw w))\<rparr>"
  by (simp_all add: call_hw_def split_beta)

definition time_us_64 :: "'e sdk \<Rightarrow> ('e, 'z) machine_scheme \<Rightarrow> u64 \<times> ('e, 'z) machine_scheme" where
  "time_us_64 sdk = call_hw (sdk_time_us_64 sdk)"

section \<open>The native HID device\<close>

text \<open>
  \<open>pico/src/hid_keyboard_device.c\<close>. A report is eight bytes with report ID 0, and it goes to
  TinyUSB only when the endpoint is ready. \<open>hid_out\<close> grows by what \<open>tud_hid_report\<close> accepts.
\<close>

definition tud_hid_report ::
    "'e sdk \<Rightarrow> u8 \<Rightarrow> u8 list \<Rightarrow> ('e, 'z) machine_scheme \<Rightarrow> bool \<times> ('e, 'z) machine_scheme" where
  "tud_hid_report sdk report_id report w =
     (let (ok, w') = call_hw (sdk_tud_hid_report sdk report_id report) w
      in (ok, if ok then w'\<lparr>hid_out := hid_out w' @ [report]\<rparr> else w'))"

definition pico_hid_keyboard_send_report ::
    "'e sdk \<Rightarrow> u8 list option \<Rightarrow> nat \<Rightarrow> ('e, 'z) machine_scheme \<Rightarrow> bool \<times> ('e, 'z) machine_scheme" where
  "pico_hid_keyboard_send_report sdk report report_len w =
     (if report = None \<or> report_len \<noteq> PICO_HID_BOOT_KEYBOARD_REPORT_LEN then (False, w)
      else
       (let (ready, w1) = call_hw (sdk_tud_hid_ready sdk) w in
        if \<not> ready then (False, w1)
        else tud_hid_report sdk 0 (take report_len (the report)) w1))"

definition pico_hid_keyboard_send_boot_report ::
    "'e sdk \<Rightarrow> hid_report option \<Rightarrow> ('e, 'z) machine_scheme \<Rightarrow> bool \<times> ('e, 'z) machine_scheme" where
  "pico_hid_keyboard_send_boot_report sdk report =
     pico_hid_keyboard_send_report sdk (map_option report_bytes report) 8"

definition pico_hid_keyboard_send_all_keys_release ::
    "'e sdk \<Rightarrow> ('e, 'z) machine_scheme \<Rightarrow> bool \<times> ('e, 'z) machine_scheme" where
  "pico_hid_keyboard_send_all_keys_release sdk =
     pico_hid_keyboard_send_boot_report sdk (Some pico_hid_boot_keyboard_release_all)"

text \<open>
  What a send does to the program state: the hardware moves on, and the trace grows by the report
  exactly when the result is true.
\<close>

definition hw_only :: "('e, 'z) machine_scheme \<Rightarrow> ('e, 'z) machine_scheme \<Rightarrow> bool" where
  "hw_only w w' \<longleftrightarrow> w' = w\<lparr>hw := hw w', hid_out := hid_out w', uart_out := uart_out w'\<rparr>"

lemma hw_only_refl [simp]: "hw_only w w"
  by (simp add: hw_only_def)

lemma hw_only_hw [simp]: "hw_only w (w\<lparr>hw := e\<rparr>)" "hw_only w (w\<lparr>hw := e, hid_out := h\<rparr>)"
  by (simp_all add: hw_only_def)

lemma send_boot_report:
  assumes "pico_hid_keyboard_send_boot_report sdk (Some r) w = (ok, w')"
  shows "hid_out w' = (if ok then hid_out w @ [report_bytes r] else hid_out w)"
    "\<exists>e. w' = w\<lparr>hw := e, hid_out := hid_out w'\<rparr>"
  using assms
  by (auto simp: pico_hid_keyboard_send_boot_report_def pico_hid_keyboard_send_report_def
      tud_hid_report_def call_hw_def Let_def split_beta split: if_splits)

lemma send_NULL [simp]: "pico_hid_keyboard_send_boot_report sdk None w = (False, w)"
  by (simp add: pico_hid_keyboard_send_boot_report_def pico_hid_keyboard_send_report_def)

end
