(* ===== verification/Playback_Scheduler.thy ===== *)
theory Playback_Scheduler
  imports Playback_Metrics Playback_Queue Pico_Machine
begin

text \<open>
  \<open>pico/src/playback_scheduler.c\<close>: playback of the queue against the microsecond clock. The
  scheduler sends the head of the queue when its deadline is due, waits when the queue runs dry
  before the end of the sequence, and completes or is stopped. Clock and alarm are parameters; the
  callbacks are functions on the whole program state. The alarm interrupt sets one flag that only
  the atomic exchange in \<open>task\<close> reads, so it is modelled there: whether it ran since the flag was
  last cleared is an answer of the hardware.
\<close>

record 'e sched_world = "'e machine" +
  w_queue :: playback_queue
  w_sched :: playback_scheduler

record 'w sched_callbacks =
  sc_send_report :: "(hid_report \<Rightarrow> 'w \<Rightarrow> bool \<times> 'w) option"
  sc_on_complete :: "(u8 \<Rightarrow> playback_metrics \<Rightarrow> 'w \<Rightarrow> 'w) option"
  sc_on_underrun :: "(u64 \<Rightarrow> u16 \<Rightarrow> 'w \<Rightarrow> 'w) option"
  sc_on_buffer_available :: "('w \<Rightarrow> 'w) option"

type_synonym ('e, 'z) sched_cb = "('e, 'z) sched_world_scheme sched_callbacks"

definition sched_update ::
    "(playback_scheduler \<Rightarrow> playback_scheduler) \<Rightarrow> ('e, 'z) sched_world_scheme \<Rightarrow> ('e, 'z) sched_world_scheme" where
  "sched_update f w = w\<lparr>w_sched := f (w_sched w)\<rparr>"

lemma sched_update_simps [simp]:
  "w_sched (sched_update f w) = f (w_sched w)" "w_queue (sched_update f w) = w_queue w"
  "hw (sched_update f w) = hw w" "hid_out (sched_update f w) = hid_out w"
  "uart_out (sched_update f w) = uart_out w" "mode_state (sched_update f w) = mode_state w"
  "sched_world.more (sched_update f w) = sched_world.more w"
  by (simp_all add: sched_update_def)

definition alarm_isr :: "playback_scheduler \<Rightarrow> playback_scheduler" where
  "alarm_isr s = s\<lparr>ps_alarm_fired := True\<rparr>"

definition metrics_of :: "playback_scheduler \<Rightarrow> playback_metrics" where
  "metrics_of s =
     \<lparr>pm_dispatched_count = ps_dispatched_count s, pm_underrun_count = ps_underrun_count s,
      pm_min_lateness_us = ps_min_lateness_us s, pm_max_lateness_us = ps_max_lateness_us s,
      pm_sum_lateness_us = ps_sum_lateness_us s,
      pm_p95_lateness_us = percentile (ps_lateness_samples s) (ps_sample_count s) 95,
      pm_p99_lateness_us = percentile (ps_lateness_samples s) (ps_sample_count s) 99,
      pm_samples_truncated = ps_samples_truncated s\<rparr>"

definition finish ::
    "('e, 'z) sched_cb \<Rightarrow> u8 \<Rightarrow> ('e, 'z) sched_world_scheme \<Rightarrow> ('e, 'z) sched_world_scheme" where
  "finish cb reason w =
     (let w1 = sched_update (\<lambda>s. s\<lparr>ps_running := False,
            ps_lateness_samples := sort_samples (ps_lateness_samples s) (ps_sample_count s)\<rparr>) w
      in case sc_on_complete cb of None \<Rightarrow> w1 | Some f \<Rightarrow> f reason (metrics_of (w_sched w1)) w1)"

definition begin_underrun ::
    "('e, 'z) sched_cb \<Rightarrow> 'e sdk \<Rightarrow> ('e, 'z) sched_world_scheme \<Rightarrow> ('e, 'z) sched_world_scheme" where
  "begin_underrun cb sdk w =
     (let w1 = sched_update (\<lambda>s. s\<lparr>ps_waiting_for_event := True\<rparr>) w in
      if ps_underrun_active (w_sched w1) then w1
      else
       (let (now_us, w2) = time_us_64 sdk w1;
            w3 = sched_update (\<lambda>s. s\<lparr>ps_underrun_active := True, ps_underrun_since_us := now_us,
                    ps_underrun_count := ps_underrun_count s + 1\<rparr>) w2;
            elapsed = (if now_us \<ge> ps_playback_start_us (w_sched w3)
                       then now_us - ps_playback_start_us (w_sched w3) else 0)
        in case sc_on_underrun cb of None \<Rightarrow> w3
           | Some f \<Rightarrow> f elapsed (of_nat (pico_playback_queue_free_capacity (Some (w_queue w3)))) w3))"

definition disarm :: "'e sdk \<Rightarrow> ('e, 'z) sched_world_scheme \<Rightarrow> ('e, 'z) sched_world_scheme" where
  "disarm sdk w =
     (let w1 = snd (call_hw (sdk_cancel_alarm sdk (ps_alarm_id (w_sched w))) w)
      in sched_update (\<lambda>s. s\<lparr>ps_alarm_armed := False\<rparr>) w1)"

definition clear_fired :: "('e, 'z) sched_world_scheme \<Rightarrow> ('e, 'z) sched_world_scheme" where
  "clear_fired = sched_update (\<lambda>s. s\<lparr>ps_alarm_fired := False\<rparr>)"

definition queue_empty_exit ::
    "('e, 'z) sched_cb \<Rightarrow> 'e sdk \<Rightarrow> ('e, 'z) sched_world_scheme \<Rightarrow> ('e, 'z) sched_world_scheme" where
  "queue_empty_exit cb sdk w =
     (if ps_sequence_ended (w_sched w) then finish cb PICO_UART_REASON_FINISHED w
      else begin_underrun cb sdk w)"

text \<open>The alarm is armed only for a deadline in the future; an id that is not positive is no alarm.\<close>

definition arm_alarm :: "'e sdk \<Rightarrow> ('e, 'z) sched_world_scheme \<Rightarrow> ('e, 'z) sched_world_scheme" where
  "arm_alarm sdk w =
     (let (now, w1) = time_us_64 sdk w in
      if now < ps_next_deadline_us (w_sched w1) then
       (let (ident, w2) = call_hw (sdk_add_alarm_at sdk (ps_next_deadline_us (w_sched w1))) w1
        in if ident > 0 then sched_update (\<lambda>s. s\<lparr>ps_alarm_id := ident, ps_alarm_armed := True\<rparr>) w2 else w2)
      else w1)"

definition arm_next ::
    "('e, 'z) sched_cb \<Rightarrow> 'e sdk \<Rightarrow> ('e, 'z) sched_world_scheme \<Rightarrow> bool \<times> ('e, 'z) sched_world_scheme" where
  "arm_next cb sdk w =
     (let w1 = (if ps_alarm_armed (w_sched w) then clear_fired (disarm sdk w) else w) in
      case pico_playback_queue_peek (w_queue w1) of
        None \<Rightarrow> (False, queue_empty_exit cb sdk w1)
      | Some event \<Rightarrow>
          (True, arm_alarm sdk (sched_update (\<lambda>s. s\<lparr>ps_waiting_for_event := False,
             ps_underrun_active := False,
             ps_next_deadline_us := ps_playback_start_us s + qe_offset_us event\<rparr>) w1)))"

definition pico_playback_scheduler_init :: "bool \<Rightarrow> playback_scheduler" where
  "pico_playback_scheduler_init has_queue =
     \<lparr>ps_queue = has_queue, ps_running = False, ps_sequence_ended = False, ps_waiting_for_event = False,
      ps_underrun_active = False, ps_playback_start_us = 0, ps_next_deadline_us = 0,
      ps_underrun_since_us = 0, ps_alarm_fired = False, ps_alarm_id = 0, ps_alarm_armed = False,
      ps_dispatched_count = 0, ps_underrun_count = 0, ps_min_lateness_us = 0, ps_max_lateness_us = 0,
      ps_sum_lateness_us = 0,
      ps_lateness_samples = replicate PICO_PLAYBACK_SCHEDULER_MAX_SAMPLES 0,
      ps_sample_count = 0, ps_samples_truncated = False\<rparr>"

definition start_run :: "u64 \<Rightarrow> playback_scheduler \<Rightarrow> playback_scheduler" where
  "start_run start_us s = s\<lparr>ps_running := True, ps_waiting_for_event := False, ps_underrun_active := False,
      ps_playback_start_us := start_us, ps_next_deadline_us := start_us, ps_alarm_armed := False,
      ps_alarm_fired := False, ps_dispatched_count := 0, ps_underrun_count := 0,
      ps_min_lateness_us := 0, ps_max_lateness_us := 0, ps_sum_lateness_us := 0,
      ps_sample_count := 0, ps_samples_truncated := False\<rparr>"

definition pico_playback_scheduler_start ::
    "('e, 'z) sched_cb \<Rightarrow> 'e sdk \<Rightarrow> u64 \<Rightarrow> ('e, 'z) sched_world_scheme \<Rightarrow> ('e, 'z) sched_world_scheme" where
  "pico_playback_scheduler_start cb sdk playback_start_us w =
     (if \<not> ps_queue (w_sched w) \<or> ps_running (w_sched w) then w
      else snd (arm_next cb sdk (sched_update (start_run playback_start_us) w)))"

definition pico_playback_scheduler_reset_sequence :: "playback_scheduler \<Rightarrow> playback_scheduler" where
  "pico_playback_scheduler_reset_sequence s =
     (if ps_running s then s
      else s\<lparr>ps_sequence_ended := False, ps_waiting_for_event := False, ps_underrun_active := False\<rparr>)"

definition pico_playback_scheduler_mark_sequence_ended :: "playback_scheduler \<Rightarrow> playback_scheduler" where
  "pico_playback_scheduler_mark_sequence_ended s = s\<lparr>ps_sequence_ended := True\<rparr>"

definition pico_playback_scheduler_stop ::
    "('e, 'z) sched_cb \<Rightarrow> 'e sdk \<Rightarrow> ('e, 'z) sched_world_scheme \<Rightarrow> ('e, 'z) sched_world_scheme" where
  "pico_playback_scheduler_stop cb sdk w =
     (if \<not> ps_running (w_sched w) then w
      else finish cb PICO_UART_REASON_ABORTED
             (clear_fired (if ps_alarm_armed (w_sched w) then disarm sdk w else w)))"

text \<open>The exchange of the flag, with the interrupt that may have run since it was cleared.\<close>

definition exchange_fired :: "'e sdk \<Rightarrow> ('e, 'z) sched_world_scheme \<Rightarrow> bool \<times> ('e, 'z) sched_world_scheme" where
  "exchange_fired sdk w =
     (let (irq, w1) = call_hw (sdk_alarm_irq sdk) w;
          w2 = (if irq then sched_update alarm_isr w1 else w1)
      in (ps_alarm_fired (w_sched w2), clear_fired w2))"

definition event_due :: "'e sdk \<Rightarrow> ('e, 'z) sched_world_scheme \<Rightarrow> bool \<times> ('e, 'z) sched_world_scheme" where
  "event_due sdk w =
     (let (fired, w1) = exchange_fired sdk w in
      if fired then (True, w1)
      else (let (now, w2) = time_us_64 sdk w1 in (\<not> now < ps_next_deadline_us (w_sched w2), w2)))"

text \<open>
  \<open>(int64_t)dispatch - (int64_t)deadline\<close> clamped to 32 bits. The subtraction is read in 64 bits;
  where it leaves them the C expression is undefined.
\<close>

definition lateness_us :: "u64 \<Rightarrow> u64 \<Rightarrow> i32" where
  "lateness_us dispatch_time deadline =
     (let l = sint (dispatch_time - deadline) in
      i32_of_int (if l > 2147483647 then 2147483647 else if l < -2147483648 then -2147483648 else l))"

text \<open>What follows an accepted report: pop, credit, measure, arm.\<close>

definition after_send ::
    "('e, 'z) sched_cb \<Rightarrow> 'e sdk \<Rightarrow> ('e, 'z) sched_world_scheme \<Rightarrow> bool \<times> ('e, 'z) sched_world_scheme" where
  "after_send cb sdk w =
     (let queue_was_full = (pico_playback_queue_free_capacity (Some (w_queue w)) = 0);
          w1 = w\<lparr>w_queue := snd (pico_playback_queue_pop (w_queue w))\<rparr>;
          w2 = (if queue_was_full \<and> \<not> ps_sequence_ended (w_sched w1)
                then call_back (sc_on_buffer_available cb) w1 else w1);
          (dispatch_time, w3) = time_us_64 sdk w2;
          w4 = sched_update (\<lambda>s. record_lateness (lateness_us dispatch_time (ps_next_deadline_us s)) s) w3
      in arm_next cb sdk w4)"

text \<open>One round of the loop of \<open>task\<close>; \<^const>\<open>False\<close> stands for a \<open>return\<close> from it.\<close>

definition task_round ::
    "('e, 'z) sched_cb \<Rightarrow> 'e sdk \<Rightarrow> ('e, 'z) sched_world_scheme \<Rightarrow> bool \<times> ('e, 'z) sched_world_scheme" where
  "task_round cb sdk w =
     (let (go, w1) = (if ps_waiting_for_event (w_sched w) then arm_next cb sdk w else (True, w)) in
      if \<not> go then (False, w1)
      else
       (let (due, w2) = event_due sdk w1 in
        if \<not> due then (False, w2)
        else
         (case pico_playback_queue_peek (w_queue w2) of
            None \<Rightarrow> (False, queue_empty_exit cb sdk w2)
          | Some event \<Rightarrow>
             (case sc_send_report cb of
                None \<Rightarrow> (False, w2)
              | Some send \<Rightarrow>
                 (let (ok, w3) = send (qe_report event) w2 in
                  if \<not> ok then (False, w3) else after_send cb sdk w3)))))"

partial_function (option) pico_playback_scheduler_task ::
    "('e, 'z) sched_cb \<Rightarrow> 'e sdk \<Rightarrow> ('e, 'z) sched_world_scheme \<Rightarrow> ('e, 'z) sched_world_scheme option" where
  "pico_playback_scheduler_task cb sdk w =
     (if \<not> ps_running (w_sched w) then Some w
      else (let (go, w1) = task_round cb sdk w in
            if go then pico_playback_scheduler_task cb sdk w1 else Some w1))"

definition pico_playback_scheduler_is_running :: "playback_scheduler option \<Rightarrow> bool" where
  "pico_playback_scheduler_is_running s = (case s of None \<Rightarrow> False | Some s \<Rightarrow> ps_running s)"

definition pico_playback_scheduler_watchdog_expired :: "playback_scheduler option \<Rightarrow> u64 \<Rightarrow> bool" where
  "pico_playback_scheduler_watchdog_expired s now_us = (case s of None \<Rightarrow> False | Some s \<Rightarrow>
     ps_underrun_active s \<and> now_us \<ge> ps_underrun_since_us s
     \<and> now_us - ps_underrun_since_us s \<ge> PICO_PLAYBACK_SCHEDULER_WATCHDOG_TIMEOUT_US)"

text \<open>The \<open>NULL\<close> guards; \<open>has_scheduler\<close> says that the pointer is not \<open>NULL\<close>.\<close>

definition pico_playback_scheduler_start_ptr ::
    "('e, 'z) sched_cb \<Rightarrow> 'e sdk \<Rightarrow> bool \<Rightarrow> u64 \<Rightarrow> ('e, 'z) sched_world_scheme \<Rightarrow> ('e, 'z) sched_world_scheme" where
  "pico_playback_scheduler_start_ptr cb sdk has_scheduler playback_start_us w =
     (if has_scheduler then pico_playback_scheduler_start cb sdk playback_start_us w else w)"

definition pico_playback_scheduler_stop_ptr ::
    "('e, 'z) sched_cb \<Rightarrow> 'e sdk \<Rightarrow> bool \<Rightarrow> ('e, 'z) sched_world_scheme \<Rightarrow> ('e, 'z) sched_world_scheme" where
  "pico_playback_scheduler_stop_ptr cb sdk has_scheduler w =
     (if has_scheduler then pico_playback_scheduler_stop cb sdk w else w)"

definition pico_playback_scheduler_task_ptr ::
    "('e, 'z) sched_cb \<Rightarrow> 'e sdk \<Rightarrow> bool \<Rightarrow> ('e, 'z) sched_world_scheme \<Rightarrow> ('e, 'z) sched_world_scheme option" where
  "pico_playback_scheduler_task_ptr cb sdk has_scheduler w =
     (if has_scheduler then pico_playback_scheduler_task cb sdk w else Some w)"

definition pico_playback_scheduler_reset_sequence_ptr :: "playback_scheduler option \<Rightarrow> playback_scheduler option" where
  "pico_playback_scheduler_reset_sequence_ptr = map_option pico_playback_scheduler_reset_sequence"

definition pico_playback_scheduler_mark_sequence_ended_ptr :: "playback_scheduler option \<Rightarrow> playback_scheduler option" where
  "pico_playback_scheduler_mark_sequence_ended_ptr = map_option pico_playback_scheduler_mark_sequence_ended"

section \<open>Invariant\<close>

text \<open>
  A running scheduler either has the head of the queue in its deadline, or waits in an underrun. The
  law of a step: the reports that went out followed by those still queued stay the same list.
\<close>

definition sched_ok :: "playback_queue \<Rightarrow> playback_scheduler \<Rightarrow> bool" where
  "sched_ok q s \<longleftrightarrow> pq_inv q \<and> samples_inv s
     \<and> (ps_running s \<and> \<not> ps_waiting_for_event s \<longrightarrow>
          (\<exists>e. pico_playback_queue_peek q = Some e
             \<and> ps_next_deadline_us s = ps_playback_start_us s + qe_offset_us e))
     \<and> (ps_running s \<and> ps_waiting_for_event s \<longrightarrow> ps_underrun_active s)"

definition remaining :: "('e, 'z) sched_world_scheme \<Rightarrow> u8 list list" where
  "remaining w = map (\<lambda>e. report_bytes (qe_report e)) (pq_view (w_queue w))"

definition sched_law :: "('e, 'z) sched_world_scheme \<Rightarrow> ('e, 'z) sched_world_scheme \<Rightarrow> bool" where
  "sched_law w w' \<longleftrightarrow> sched_ok (w_queue w') (w_sched w') \<and> hid_out w' @ remaining w' = hid_out w @ remaining w"

lemma sched_ok_stopped: "pq_inv q \<Longrightarrow> samples_inv s \<Longrightarrow> \<not> ps_running s \<Longrightarrow> sched_ok q s"
  by (simp add: sched_ok_def)

lemma sched_law_trans: "sched_law u v \<Longrightarrow> sched_law v w \<Longrightarrow> sched_law u w"
  by (simp add: sched_law_def)

lemma samples_inv_update [simp]:
  "samples_inv (s\<lparr>ps_running := b\<rparr>) = samples_inv s"
  "samples_inv (s\<lparr>ps_alarm_fired := b\<rparr>) = samples_inv s"
  "samples_inv (s\<lparr>ps_alarm_armed := b\<rparr>) = samples_inv s"
  "samples_inv (s\<lparr>ps_waiting_for_event := b\<rparr>) = samples_inv s"
  "samples_inv (s\<lparr>ps_waiting_for_event := b, ps_underrun_active := b', ps_next_deadline_us := d\<rparr>) = samples_inv s"
  "samples_inv (s\<lparr>ps_underrun_active := b, ps_underrun_since_us := d, ps_underrun_count := n\<rparr>) = samples_inv s"
  "samples_inv (s\<lparr>ps_alarm_id := i, ps_alarm_armed := b\<rparr>) = samples_inv s"
  "samples_inv (s\<lparr>ps_alarm_id := i\<rparr>) = samples_inv s"
  "samples_inv (s\<lparr>ps_sequence_ended := b\<rparr>) = samples_inv s"
  by (simp_all add: samples_inv_def)

lemma length_sort_samples: "unat n \<le> length xs \<Longrightarrow> length (sort_samples xs n) = length xs"
  by (simp add: sort_samples_eq)

lemma samples_inv_finish [simp]:
  "samples_inv s \<Longrightarrow>
   samples_inv (s\<lparr>ps_running := False, ps_lateness_samples := sort_samples (ps_lateness_samples s) (ps_sample_count s)\<rparr>)"
  by (simp add: samples_inv_def length_sort_samples)

lemma samples_inv_start [simp]: "samples_inv s \<Longrightarrow> samples_inv (start_run t s)"
  by (simp add: samples_inv_def start_run_def)

lemma start_run_simps [simp]:
  "ps_running (start_run t s)" "ps_queue (start_run t s) = ps_queue s" "\<not> ps_waiting_for_event (start_run t s)" "ps_playback_start_us (start_run t s) = t"
  "ps_sequence_ended (start_run t s) = ps_sequence_ended s" "\<not> ps_alarm_armed (start_run t s)"
  by (simp_all add: start_run_def)

lemma start_run_fresh: "samples_inv s \<Longrightarrow> fresh_run (start_run t s)"
  by (simp add: fresh_run_def) (simp add: start_run_def)

text \<open>Steps on the hardware and on scheduler fields that neither the queue nor the traces see.\<close>

lemma hw_steps [simp]:
  "remaining (w\<lparr>hw := e\<rparr>) = remaining w"
  "w_queue (snd (call_hw f w)) = w_queue w" "w_sched (snd (call_hw f w)) = w_sched w"
  "hid_out (snd (call_hw f w)) = hid_out w" "remaining (snd (call_hw f w)) = remaining w"
  "w_queue (snd (time_us_64 sdk w)) = w_queue w" "w_sched (snd (time_us_64 sdk w)) = w_sched w"
  "hid_out (snd (time_us_64 sdk w)) = hid_out w" "remaining (snd (time_us_64 sdk w)) = remaining w"
  by (simp_all add: time_us_64_def remaining_def)

lemma sched_steps [simp]:
  "remaining (sched_update f w) = remaining w"
  "w_queue (disarm sdk w) = w_queue w" "hid_out (disarm sdk w) = hid_out w" "remaining (disarm sdk w) = remaining w"
  "w_sched (disarm sdk w) = (w_sched w)\<lparr>ps_alarm_armed := False\<rparr>"
  "w_queue (clear_fired w) = w_queue w" "hid_out (clear_fired w) = hid_out w" "remaining (clear_fired w) = remaining w"
  "w_sched (clear_fired w) = (w_sched w)\<lparr>ps_alarm_fired := False\<rparr>"
  by (simp_all add: remaining_def disarm_def clear_fired_def)

lemma arm_alarm_steps [simp]:
  "w_queue (arm_alarm sdk w) = w_queue w" "hid_out (arm_alarm sdk w) = hid_out w"
  "remaining (arm_alarm sdk w) = remaining w"
  "samples_inv (w_sched (arm_alarm sdk w)) = samples_inv (w_sched w)"
  "ps_running (w_sched (arm_alarm sdk w)) = ps_running (w_sched w)"
  "ps_waiting_for_event (w_sched (arm_alarm sdk w)) = ps_waiting_for_event (w_sched w)"
  "ps_underrun_active (w_sched (arm_alarm sdk w)) = ps_underrun_active (w_sched w)"
  "ps_sequence_ended (w_sched (arm_alarm sdk w)) = ps_sequence_ended (w_sched w)"
  "ps_playback_start_us (w_sched (arm_alarm sdk w)) = ps_playback_start_us (w_sched w)"
  "ps_next_deadline_us (w_sched (arm_alarm sdk w)) = ps_next_deadline_us (w_sched w)"
  by (simp_all add: arm_alarm_def Let_def split_beta)

lemma event_due_steps [simp]:
  "w_queue (snd (event_due sdk w)) = w_queue w" "hid_out (snd (event_due sdk w)) = hid_out w"
  "remaining (snd (event_due sdk w)) = remaining w"
  "w_sched (snd (event_due sdk w)) = (w_sched w)\<lparr>ps_alarm_fired := False\<rparr>"
  by (simp_all add: event_due_def exchange_fired_def Let_def split_beta alarm_isr_def)

lemma sched_ok_fired [simp]: "sched_ok q (s\<lparr>ps_alarm_fired := b\<rparr>) = sched_ok q s"
  by (simp add: sched_ok_def)

lemma record_lateness_fields [simp]:
  "ps_running (record_lateness l s) = ps_running s"
  "ps_waiting_for_event (record_lateness l s) = ps_waiting_for_event s"
  "ps_sequence_ended (record_lateness l s) = ps_sequence_ended s"
  by (simp_all add: record_lateness_def Let_def)

lemma peek_Some_view:
  assumes "pq_inv q" "pico_playback_queue_peek q = Some e"
  shows "pq_view q = e # pq_view (snd (pico_playback_queue_pop q))" "pq_count q \<noteq> 0"
    "pq_count (snd (pico_playback_queue_pop q)) = pq_count q - 1"
proof -
  show ne: "pq_count q \<noteq> 0" using assms(2) by (simp add: pico_playback_queue_peek_def split: if_splits)
  then show "pq_view q = e # pq_view (snd (pico_playback_queue_pop q))"
    using pq_view_Suc [OF assms(1)] assms(2) by (simp add: pico_playback_queue_peek_def split: if_splits)
  show "pq_count (snd (pico_playback_queue_pop q)) = pq_count q - 1"
    using ne by (simp add: pico_playback_queue_pop_def)
qed

lemma peek_None_iff: "pico_playback_queue_peek q = None \<longleftrightarrow> pq_count q = 0"
  by (simp add: pico_playback_queue_peek_def)

lemma remaining_Nil: "pq_count (w_queue w) = 0 \<Longrightarrow> remaining w = []"
  by (simp add: remaining_def pq_view_def)

section \<open>The contract of the callbacks\<close>

text \<open>
  Four callbacks: a send appends the report to the trace exactly when it says so, the reports of
  underrun and credit leave queue and scheduler alone, and completion, which is called with the
  scheduler stopped, leaves it stopped and an empty queue empty.
\<close>

definition all_sched_callbacks ::
    "(hid_report \<Rightarrow> 'w \<Rightarrow> bool \<times> 'w) \<Rightarrow> (u8 \<Rightarrow> playback_metrics \<Rightarrow> 'w \<Rightarrow> 'w)
      \<Rightarrow> (u64 \<Rightarrow> u16 \<Rightarrow> 'w \<Rightarrow> 'w) \<Rightarrow> ('w \<Rightarrow> 'w) \<Rightarrow> 'w sched_callbacks" where
  "all_sched_callbacks send cmp und buf =
     \<lparr>sc_send_report = Some send, sc_on_complete = Some cmp, sc_on_underrun = Some und, sc_on_buffer_available = Some buf\<rparr>"

lemma all_sched_callbacks_simps [simp]:
  "sc_send_report (all_sched_callbacks send cmp und buf) = Some send"
  "sc_on_complete (all_sched_callbacks send cmp und buf) = Some cmp"
  "sc_on_underrun (all_sched_callbacks send cmp und buf) = Some und"
  "sc_on_buffer_available (all_sched_callbacks send cmp und buf) = Some buf"
  by (simp_all add: all_sched_callbacks_def)

text \<open>How a round begins, and the five ways in which it ends.\<close>

definition round_entry ::
    "('e, 'z) sched_cb \<Rightarrow> 'e sdk \<Rightarrow> ('e, 'z) sched_world_scheme \<Rightarrow> bool \<times> ('e, 'z) sched_world_scheme" where
  "round_entry cb sdk w = (if ps_waiting_for_event (w_sched w) then arm_next cb sdk w else (True, w))"

lemma task_round_cases:
  assumes "sc_send_report cb = Some send"
  obtains (entry) w1 where "round_entry cb sdk w = (False, w1)" "task_round cb sdk w = (False, w1)"
  | (early) w1 w2 where "round_entry cb sdk w = (True, w1)" "event_due sdk w1 = (False, w2)" "task_round cb sdk w = (False, w2)"
  | (empty) w1 w2 where "round_entry cb sdk w = (True, w1)" "event_due sdk w1 = (True, w2)"
      "pico_playback_queue_peek (w_queue w2) = None" "task_round cb sdk w = (False, queue_empty_exit cb sdk w2)"
  | (refused) w1 w2 e w3 where "round_entry cb sdk w = (True, w1)" "event_due sdk w1 = (True, w2)"
      "pico_playback_queue_peek (w_queue w2) = Some e" "send (qe_report e) w2 = (False, w3)" "task_round cb sdk w = (False, w3)"
  | (sent) w1 w2 e w3 where "round_entry cb sdk w = (True, w1)" "event_due sdk w1 = (True, w2)"
      "pico_playback_queue_peek (w_queue w2) = Some e" "send (qe_report e) w2 = (True, w3)" "task_round cb sdk w = after_send cb sdk w3"
proof -
  obtain go w1 where w1: "round_entry cb sdk w = (go, w1)" by fastforce
  obtain due w2 where w2: "event_due sdk w1 = (due, w2)" by fastforce
  have round: "task_round cb sdk w = (if \<not> go then (False, w1) else if \<not> due then (False, w2)
     else case pico_playback_queue_peek (w_queue w2) of None \<Rightarrow> (False, queue_empty_exit cb sdk w2)
        | Some e \<Rightarrow> let (ok, w3) = send (qe_report e) w2 in if \<not> ok then (False, w3) else after_send cb sdk w3)"
    using w1 w2 by (simp add: task_round_def round_entry_def assms split: if_splits option.split)
  show ?thesis
  proof (cases "go \<and> due")
    case False
    with entry early w1 w2 round show ?thesis by (cases go) auto
  next
    case True
    show ?thesis
    proof (cases "pico_playback_queue_peek (w_queue w2)")
      case None
      with empty True w1 w2 round show ?thesis by simp
    next
      case (Some e)
      obtain ok w3 where "send (qe_report e) w2 = (ok, w3)" by fastforce
      with refused sent Some True w1 w2 round show ?thesis by (cases ok) auto
    qed
  qed
qed

locale sched_client =
  fixes send :: "hid_report \<Rightarrow> ('e, 'z) sched_world_scheme \<Rightarrow> bool \<times> ('e, 'z) sched_world_scheme"
    and cmp :: "u8 \<Rightarrow> playback_metrics \<Rightarrow> ('e, 'z) sched_world_scheme \<Rightarrow> ('e, 'z) sched_world_scheme"
    and und :: "u64 \<Rightarrow> u16 \<Rightarrow> ('e, 'z) sched_world_scheme \<Rightarrow> ('e, 'z) sched_world_scheme"
    and buf :: "('e, 'z) sched_world_scheme \<Rightarrow> ('e, 'z) sched_world_scheme"
  assumes send_effect: "w_queue (snd (send r w)) = w_queue w" "w_sched (snd (send r w)) = w_sched w"
      "hid_out (snd (send r w)) = hid_out w @ (if fst (send r w) then [report_bytes r] else [])"
    and und_effect: "w_queue (und off room w) = w_queue w" "w_sched (und off room w) = w_sched w"
      "hid_out (und off room w) = hid_out w"
    and buf_effect: "w_queue (buf w) = w_queue w" "w_sched (buf w) = w_sched w" "hid_out (buf w) = hid_out w"
    and cmp_effect: "\<not> ps_running (w_sched w) \<Longrightarrow> \<not> ps_running (w_sched (cmp reason m w))"
      "\<not> ps_running (w_sched w) \<Longrightarrow> samples_inv (w_sched w) \<Longrightarrow> samples_inv (w_sched (cmp reason m w))"
      "\<not> ps_running (w_sched w) \<Longrightarrow> pq_inv (w_queue w) \<Longrightarrow> pq_inv (w_queue (cmp reason m w))"
      "\<not> ps_running (w_sched w) \<Longrightarrow> pq_count (w_queue w) = 0 \<Longrightarrow> pq_count (w_queue (cmp reason m w)) = 0"
      "\<not> ps_running (w_sched w) \<Longrightarrow> hid_out (cmp reason m w) = hid_out w"
begin

lemma finish_law:
  assumes "pq_inv (w_queue w)" "samples_inv (w_sched w)" "pq_count (w_queue w) = 0"
  shows "sched_law w (finish (all_sched_callbacks send cmp und buf) reason w)"
    "\<not> ps_running (w_sched (finish (all_sched_callbacks send cmp und buf) reason w))"
    "pq_count (w_queue (finish (all_sched_callbacks send cmp und buf) reason w)) = 0"
proof -
  let ?w1 = "sched_update (\<lambda>s. s\<lparr>ps_running := False,
     ps_lateness_samples := sort_samples (ps_lateness_samples s) (ps_sample_count s)\<rparr>) w"
  have "\<not> ps_running (w_sched ?w1)" by simp
  note eff = cmp_effect [OF this, of reason "metrics_of (w_sched ?w1)"]
  have fin: "finish (all_sched_callbacks send cmp und buf) reason w = cmp reason (metrics_of (w_sched ?w1)) ?w1"
    by (simp add: finish_def Let_def)
  show "\<not> ps_running (w_sched (finish (all_sched_callbacks send cmp und buf) reason w))"
    and c0: "pq_count (w_queue (finish (all_sched_callbacks send cmp und buf) reason w)) = 0"
    using eff(1,4) assms by (simp_all add: fin)
  show "sched_law w (finish (all_sched_callbacks send cmp und buf) reason w)"
    using eff assms remaining_Nil [OF assms(3)] remaining_Nil [OF c0]
    by (simp add: sched_law_def fin sched_ok_stopped)
qed

lemma begin_underrun_law:
  assumes "pq_inv (w_queue w)" "samples_inv (w_sched w)" "ps_running (w_sched w)"
  shows "sched_law w (begin_underrun (all_sched_callbacks send cmp und buf) sdk w)"
    "ps_running (w_sched (begin_underrun (all_sched_callbacks send cmp und buf) sdk w))"
    "w_queue (begin_underrun (all_sched_callbacks send cmp und buf) sdk w) = w_queue w"
    "ps_waiting_for_event (w_sched (begin_underrun (all_sched_callbacks send cmp und buf) sdk w))"
  using assms
  by (simp_all add: sched_law_def sched_ok_def begin_underrun_def Let_def split_beta und_effect remaining_def
      time_us_64_def)

lemma queue_empty_exit_law:
  assumes "pq_inv (w_queue w)" "samples_inv (w_sched w)" "ps_running (w_sched w)" "pq_count (w_queue w) = 0"
  shows "sched_law w (queue_empty_exit (all_sched_callbacks send cmp und buf) sdk w)"
  using assms by (simp add: queue_empty_exit_def finish_law begin_underrun_law)

lemma arm_next_law:
  assumes "pq_inv (w_queue w)" "samples_inv (w_sched w)" "ps_running (w_sched w)"
  shows "sched_law w (snd (arm_next (all_sched_callbacks send cmp und buf) sdk w))"
    "fst (arm_next (all_sched_callbacks send cmp und buf) sdk w) \<longleftrightarrow> pq_count (w_queue w) \<noteq> 0"
    "fst (arm_next (all_sched_callbacks send cmp und buf) sdk w) \<Longrightarrow>
       ps_running (w_sched (snd (arm_next (all_sched_callbacks send cmp und buf) sdk w)))
       \<and> \<not> ps_waiting_for_event (w_sched (snd (arm_next (all_sched_callbacks send cmp und buf) sdk w)))
       \<and> w_queue (snd (arm_next (all_sched_callbacks send cmp und buf) sdk w)) = w_queue w"
proof -
  define w1 where "w1 = (if ps_alarm_armed (w_sched w) then clear_fired (disarm sdk w) else w)"
  have w1: "w_queue w1 = w_queue w" "hid_out w1 = hid_out w" "remaining w1 = remaining w"
    "samples_inv (w_sched w1)" "ps_running (w_sched w1)"
    using assms by (auto simp: w1_def)
  have arm: "arm_next (all_sched_callbacks send cmp und buf) sdk w = (case pico_playback_queue_peek (w_queue w) of
        None \<Rightarrow> (False, queue_empty_exit (all_sched_callbacks send cmp und buf) sdk w1)
      | Some event \<Rightarrow> (True, arm_alarm sdk (sched_update (\<lambda>s. s\<lparr>ps_waiting_for_event := False,
             ps_underrun_active := False,
             ps_next_deadline_us := ps_playback_start_us s + qe_offset_us event\<rparr>) w1)))"
    using w1(1) by (simp add: arm_next_def Let_def flip: w1_def)
  show "fst (arm_next (all_sched_callbacks send cmp und buf) sdk w) \<longleftrightarrow> pq_count (w_queue w) \<noteq> 0"
    by (auto simp: arm pico_playback_queue_peek_def)
  show "sched_law w (snd (arm_next (all_sched_callbacks send cmp und buf) sdk w))"
  proof (cases "pico_playback_queue_peek (w_queue w)")
    case None
    then have "pq_count (w_queue w1) = 0" using w1(1) by (simp add: peek_None_iff)
    from queue_empty_exit_law [OF _ w1(4,5) this, of sdk] None w1 assms(1) show ?thesis
      by (simp add: arm sched_law_def)
  next
    case (Some e)
    with w1 assms(1) show ?thesis by (simp add: arm sched_law_def sched_ok_def)
  qed
  show "ps_running (w_sched (snd (arm_next (all_sched_callbacks send cmp und buf) sdk w)))
       \<and> \<not> ps_waiting_for_event (w_sched (snd (arm_next (all_sched_callbacks send cmp und buf) sdk w)))
       \<and> w_queue (snd (arm_next (all_sched_callbacks send cmp und buf) sdk w)) = w_queue w"
    if "fst (arm_next (all_sched_callbacks send cmp und buf) sdk w)"
    using that w1 by (auto simp: arm split: option.splits)
qed

lemma after_send_law:
  fixes sdk :: "'e sdk"
  assumes "pq_inv (w_queue w)" "samples_inv (w_sched w)" "ps_running (w_sched w)"
    "pico_playback_queue_peek (w_queue w) = Some e"
  defines "res \<equiv> after_send (all_sched_callbacks send cmp und buf) sdk w"
  shows "sched_ok (w_queue (snd res)) (w_sched (snd res))
    \<and> hid_out (snd res) @ remaining (snd res) = hid_out w @ tl (remaining w)
    \<and> (fst res \<longrightarrow> ps_running (w_sched (snd res)) \<and> pq_count (w_queue (snd res)) < pq_count (w_queue w))"
proof -
  define w1 where "w1 = w\<lparr>w_queue := snd (pico_playback_queue_pop (w_queue w))\<rparr>"
  define w2 where "w2 = (if pico_playback_queue_free_capacity (Some (w_queue w)) = 0
     \<and> \<not> ps_sequence_ended (w_sched w) then buf w1 else w1)"
  define w4 where "w4 = sched_update (\<lambda>s. record_lateness (lateness_us (fst (time_us_64 sdk w2)) (ps_next_deadline_us s)) s)
     (snd (time_us_64 sdk w2))"
  have res: "res = arm_next (all_sched_callbacks send cmp und buf) sdk w4"
    by (simp add: res_def after_send_def w1_def w2_def w4_def Let_def split_beta)
  have q4: "w_queue w4 = snd (pico_playback_queue_pop (w_queue w))" and h4: "hid_out w4 = hid_out w"
    by (simp_all add: w4_def w2_def w1_def buf_effect)
  have s4: "samples_inv (w_sched w4)" "ps_running (w_sched w4)"
    using assms(2,3) by (simp_all add: w4_def w2_def w1_def buf_effect record_lateness_samples(1))
  have i4: "pq_inv (w_queue w4)" using assms(1) by (simp add: q4 pq_pop_inv)
  have r4: "remaining w4 = tl (remaining w)"
    using peek_Some_view(1) [OF assms(1,4)] by (simp add: remaining_def q4)
  note law = arm_next_law [OF i4 s4, of sdk]
  from law(1) have "sched_ok (w_queue (snd res)) (w_sched (snd res))"
    "hid_out (snd res) @ remaining (snd res) = hid_out w @ tl (remaining w)"
    by (simp_all add: res sched_law_def h4 r4)
  moreover have "pq_count (w_queue w4) < pq_count (w_queue w)"
    using peek_Some_view(2,3) [OF assms(1,4)] by (simp add: q4)
  ultimately show ?thesis using law(3) by (auto simp: res)
qed

lemmas round_cases = task_round_cases [OF all_sched_callbacks_simps(1) [of send cmp und buf], case_names entry early empty refused sent]

lemma entry_law:
  assumes "sched_ok (w_queue w) (w_sched w)" "ps_running (w_sched w)"
    "round_entry (all_sched_callbacks send cmp und buf) sdk w = (go, w1)"
  shows "sched_law w w1"
    "go \<Longrightarrow> ps_running (w_sched w1) \<and> w_queue w1 = w_queue w \<and> sched_ok (w_queue w1) (w_sched w1)
      \<and> (\<exists>e. pico_playback_queue_peek (w_queue w) = Some e
           \<and> ps_next_deadline_us (w_sched w1) = ps_playback_start_us (w_sched w1) + qe_offset_us e)"
proof -
  have inv: "pq_inv (w_queue w)" "samples_inv (w_sched w)" using assms(1) by (simp_all add: sched_ok_def)
  note arm = arm_next_law [OF inv assms(2), of sdk]
  show law: "sched_law w w1"
    using assms(1,3) arm(1) by (auto simp: round_entry_def sched_law_def split: if_splits)
  assume go
  then have run: "ps_running (w_sched w1)" "w_queue w1 = w_queue w" "\<not> ps_waiting_for_event (w_sched w1)"
    using assms(2,3) arm(3) by (auto simp: round_entry_def split: if_splits)
  moreover have ok: "sched_ok (w_queue w1) (w_sched w1)" using law by (simp add: sched_law_def)
  ultimately show "ps_running (w_sched w1) \<and> w_queue w1 = w_queue w \<and> sched_ok (w_queue w1) (w_sched w1)
      \<and> (\<exists>e. pico_playback_queue_peek (w_queue w) = Some e
           \<and> ps_next_deadline_us (w_sched w1) = ps_playback_start_us (w_sched w1) + qe_offset_us e)"
    unfolding sched_ok_def by auto
qed

text \<open>The state in which a round finds the event due or not: the queue is not empty there.\<close>

lemma due_law:
  assumes "sched_ok (w_queue w) (w_sched w)" "ps_running (w_sched w)"
    "round_entry (all_sched_callbacks send cmp und buf) sdk w = (True, w1)" "event_due sdk w1 = (due, w2)"
  shows "sched_law w w2" "ps_running (w_sched w2)" "w_queue w2 = w_queue w" "hid_out w2 = hid_out w1"
    "\<exists>e. pico_playback_queue_peek (w_queue w2) = Some e
      \<and> ps_next_deadline_us (w_sched w1) = ps_playback_start_us (w_sched w2) + qe_offset_us e"
  using entry_law [OF assms(1-3)] event_due_steps [of sdk w1] assms(4) by (auto simp: sched_law_def)

lemma sent_law:
  fixes sdk :: "'e sdk"
  assumes "sched_ok (w_queue w) (w_sched w)" "ps_running (w_sched w)"
    "pico_playback_queue_peek (w_queue w) = Some e" "send (qe_report e) w = (True, w1)"
  defines "res \<equiv> after_send (all_sched_callbacks send cmp und buf) sdk w1"
  shows "sched_law w (snd res) \<and> (fst res \<longrightarrow> ps_running (w_sched (snd res)) \<and> pq_count (w_queue (snd res)) < pq_count (w_queue w))"
proof -
  have eff: "w_queue w1 = w_queue w" "w_sched w1 = w_sched w" "remaining w1 = remaining w"
    "hid_out w1 = hid_out w @ [report_bytes (qe_report e)]"
    using send_effect [of "qe_report e" w] assms(4) by (simp_all add: remaining_def)
  have inv: "pq_inv (w_queue w1)" "samples_inv (w_sched w1)" "ps_running (w_sched w1)" "pico_playback_queue_peek (w_queue w1) = Some e"
    using assms(1-3) by (simp_all add: eff sched_ok_def)
  have "remaining w = report_bytes (qe_report e) # tl (remaining w)"
    using peek_Some_view(1) [OF inv(1,4)] by (simp add: remaining_def eff)
  with after_send_law [OF inv, of sdk] show ?thesis by (simp add: sched_law_def eff res_def)
qed

lemma task_round_law:
  fixes sdk :: "'e sdk"
  assumes "sched_ok (w_queue w) (w_sched w)" "ps_running (w_sched w)"
  defines "res \<equiv> task_round (all_sched_callbacks send cmp und buf) sdk w"
  shows "sched_law w (snd res)
    \<and> (fst res \<longrightarrow> ps_running (w_sched (snd res)) \<and> pq_count (w_queue (snd res)) < pq_count (w_queue w))"
proof (cases rule: round_cases [of sdk w])
  case entry
  with entry_law(1) [OF assms(1,2)] show ?thesis by (simp add: res_def)
next
  case early
  with due_law(1) [OF assms(1,2)] show ?thesis by (simp add: res_def)
next
  case empty
  with due_law(5) [OF assms(1,2) empty(1,2)] show ?thesis by simp
next
  case (refused w1 w2 e w3)
  note w2 = due_law [OF assms(1,2) refused(1,2)]
  have "remaining w3 = remaining w2" "hid_out w3 = hid_out w2" "w_queue w3 = w_queue w2" "w_sched w3 = w_sched w2"
    using send_effect [of "qe_report e" w2] refused(4)
    by (simp_all add: remaining_def)
  with w2(1) refused(5) show ?thesis by (simp add: res_def sched_law_def)
next
  case (sent w1 w2 e w3)
  note w2 = due_law [OF assms(1,2) sent(1,2)]
  from w2(1) have "sched_ok (w_queue w2) (w_sched w2)" by (simp add: sched_law_def)
  from sent_law [OF this w2(2) sent(3,4), of sdk] w2(3) sched_law_trans [OF w2(1)] sent(5) show ?thesis
    by (simp add: res_def)
qed

lemma start_law:
  assumes "sched_ok (w_queue w) (w_sched w)"
  shows "sched_law w (pico_playback_scheduler_start (all_sched_callbacks send cmp und buf) sdk t w)"
proof (cases "ps_queue (w_sched w) \<and> \<not> ps_running (w_sched w)")
  case True
  have inv: "pq_inv (w_queue w)" "samples_inv (w_sched w)" using assms by (simp_all add: sched_ok_def)
  with arm_next_law(1) [of "sched_update (start_run t) w" sdk] True show ?thesis
    by (simp add: pico_playback_scheduler_start_def sched_law_def)
next
  case False
  with assms show ?thesis by (auto simp: pico_playback_scheduler_start_def sched_law_def)
qed

end

end
