(* ===== verification/Keyboard_Capture.thy ===== *)
theory Keyboard_Capture
  imports Hid_Boot_Keyboard Bounded_Fifo
begin

text \<open>
  \<open>pico/src/keyboard_capture.c\<close>: the bounded FIFO between the USB host callback and the main loop,
  its acceptance statistics, and the flag that says whether the head was already sent as a
  \<open>RECORD_EVENT\<close>. The theory shows the index invariant, that the flag is never set on an empty
  FIFO, and interprets the contract \<open>peekable_fifo\<close>.
\<close>

abbreviation PICO_KEYBOARD_CAPTURE_CAPACITY :: nat where
  "PICO_KEYBOARD_CAPTURE_CAPACITY \<equiv> 16"

record capture_event =
  ce_timestamp_us :: u64
  ce_report_len :: u8
  ce_report :: hid_report

record capture_stats =
  accepted_count :: u32
  invalid_count :: u32
  dropped_count :: u32

record keyboard_capture =
  kc_events :: "capture_event list"
  kc_read_index :: nat
  kc_write_index :: nat
  kc_count :: nat
  kc_stats :: capture_stats
  kc_head_recorded :: bool

definition zero_capture_event :: capture_event where
  "zero_capture_event =
     \<lparr>ce_timestamp_us = 0, ce_report_len = 0, ce_report = report_of_bytes (replicate 8 0)\<rparr>"

definition zero_capture_stats :: capture_stats where
  "zero_capture_stats = \<lparr>accepted_count = 0, invalid_count = 0, dropped_count = 0\<rparr>"

definition pico_keyboard_capture_init :: keyboard_capture where
  "pico_keyboard_capture_init =
     \<lparr>kc_events = replicate PICO_KEYBOARD_CAPTURE_CAPACITY zero_capture_event,
      kc_read_index = 0, kc_write_index = 0, kc_count = 0,
      kc_stats = zero_capture_stats, kc_head_recorded = False\<rparr>"

definition pico_keyboard_capture_clear :: "keyboard_capture \<Rightarrow> keyboard_capture" where
  "pico_keyboard_capture_clear capture =
     capture\<lparr>kc_read_index := 0, kc_write_index := 0, kc_count := 0, kc_head_recorded := False\<rparr>"

definition pico_keyboard_capture_push ::
    "u64 \<Rightarrow> u8 list option \<Rightarrow> nat \<Rightarrow> keyboard_capture \<Rightarrow> bool \<times> keyboard_capture" where
  "pico_keyboard_capture_push timestamp_us report report_len capture =
     (let stats = kc_stats capture in
      if report = None \<or> report_len \<noteq> PICO_HID_BOOT_KEYBOARD_REPORT_LEN then
        (False, capture\<lparr>kc_stats := stats\<lparr>invalid_count := invalid_count stats + 1\<rparr>\<rparr>)
      else if kc_count capture = PICO_KEYBOARD_CAPTURE_CAPACITY then
        (False, capture\<lparr>kc_stats := stats\<lparr>dropped_count := dropped_count stats + 1\<rparr>\<rparr>)
      else
        (let event = \<lparr>ce_timestamp_us = timestamp_us, ce_report_len = of_nat report_len,
             ce_report = report_of_bytes (the report)\<rparr>
         in (True, capture\<lparr>
              kc_events := (kc_events capture)[kc_write_index capture := event],
              kc_write_index := (kc_write_index capture + 1) mod PICO_KEYBOARD_CAPTURE_CAPACITY,
              kc_count := kc_count capture + 1,
              kc_stats := stats\<lparr>accepted_count := accepted_count stats + 1\<rparr>\<rparr>)))"

definition pico_keyboard_capture_pop ::
    "keyboard_capture \<Rightarrow> capture_event option \<times> keyboard_capture" where
  "pico_keyboard_capture_pop capture =
     (if kc_count capture = 0 then (None, capture)
      else (Some (kc_events capture ! kc_read_index capture),
            capture\<lparr>kc_read_index := (kc_read_index capture + 1) mod PICO_KEYBOARD_CAPTURE_CAPACITY,
                    kc_count := kc_count capture - 1,
                    kc_head_recorded := False\<rparr>))"

definition pico_keyboard_capture_peek :: "keyboard_capture \<Rightarrow> capture_event option" where
  "pico_keyboard_capture_peek capture =
     (if kc_count capture = 0 then None else Some (kc_events capture ! kc_read_index capture))"

definition pico_keyboard_capture_get_stats :: "keyboard_capture option \<Rightarrow> capture_stats" where
  "pico_keyboard_capture_get_stats capture =
     (case capture of None \<Rightarrow> zero_capture_stats | Some c \<Rightarrow> kc_stats c)"

definition pico_keyboard_capture_head_recorded :: "keyboard_capture option \<Rightarrow> bool" where
  "pico_keyboard_capture_head_recorded capture =
     (case capture of None \<Rightarrow> False | Some c \<Rightarrow> kc_count c \<noteq> 0 \<and> kc_head_recorded c)"

definition pico_keyboard_capture_mark_head_recorded :: "keyboard_capture \<Rightarrow> keyboard_capture" where
  "pico_keyboard_capture_mark_head_recorded capture =
     (if kc_count capture = 0 then capture else capture\<lparr>kc_head_recorded := True\<rparr>)"

subsection \<open>The functions with their pointer guards\<close>

definition pico_keyboard_capture_init_ptr :: "keyboard_capture option \<Rightarrow> keyboard_capture option" where
  "pico_keyboard_capture_init_ptr p = snd (on_ptr () (\<lambda>_. ((), pico_keyboard_capture_init)) p)"

definition pico_keyboard_capture_clear_ptr :: "keyboard_capture option \<Rightarrow> keyboard_capture option" where
  "pico_keyboard_capture_clear_ptr p = snd (on_ptr () (\<lambda>c. ((), pico_keyboard_capture_clear c)) p)"

definition pico_keyboard_capture_push_ptr ::
    "u64 \<Rightarrow> u8 list option \<Rightarrow> nat \<Rightarrow> keyboard_capture option \<Rightarrow> bool \<times> keyboard_capture option" where
  "pico_keyboard_capture_push_ptr timestamp_us report report_len =
     on_ptr False (pico_keyboard_capture_push timestamp_us report report_len)"

definition pico_keyboard_capture_pop_ptr ::
    "bool \<Rightarrow> keyboard_capture option \<Rightarrow> capture_event option \<times> keyboard_capture option" where
  "pico_keyboard_capture_pop_ptr has_out p =
     (if \<not> has_out then (None, p) else on_ptr None pico_keyboard_capture_pop p)"

definition pico_keyboard_capture_peek_ptr :: "bool \<Rightarrow> keyboard_capture option \<Rightarrow> capture_event option" where
  "pico_keyboard_capture_peek_ptr has_out p =
     (if \<not> has_out then None else fst (on_ptr None (\<lambda>c. (pico_keyboard_capture_peek c, c)) p))"

definition pico_keyboard_capture_mark_head_recorded_ptr ::
    "keyboard_capture option \<Rightarrow> keyboard_capture option" where
  "pico_keyboard_capture_mark_head_recorded_ptr p =
     snd (on_ptr () (\<lambda>c. ((), pico_keyboard_capture_mark_head_recorded c)) p)"

section \<open>Invariant and list view\<close>

definition kc_view :: "keyboard_capture \<Rightarrow> capture_event list" where
  "kc_view c = ring_view (kc_events c) (kc_read_index c) (kc_count c)"

definition kc_inv :: "keyboard_capture \<Rightarrow> bool" where
  "kc_inv c \<longleftrightarrow> length (kc_events c) = PICO_KEYBOARD_CAPTURE_CAPACITY
     \<and> kc_read_index c < PICO_KEYBOARD_CAPTURE_CAPACITY
     \<and> kc_count c \<le> PICO_KEYBOARD_CAPTURE_CAPACITY
     \<and> kc_write_index c = (kc_read_index c + kc_count c) mod PICO_KEYBOARD_CAPTURE_CAPACITY
     \<and> (\<forall>e \<in> set (kc_view c). ce_report_len e = 8)
     \<and> (kc_head_recorded c \<longrightarrow> kc_count c \<noteq> 0)"

definition kc_pair :: "capture_event \<Rightarrow> u64 \<times> hid_report" where
  "kc_pair e = (ce_timestamp_us e, ce_report e)"

definition kc_contents :: "keyboard_capture \<Rightarrow> (u64 \<times> hid_report) list" where
  "kc_contents c = map kc_pair (kc_view c)"

definition kc_enqueue :: "u64 \<times> hid_report \<Rightarrow> keyboard_capture \<Rightarrow> bool \<times> keyboard_capture" where
  "kc_enqueue x c = pico_keyboard_capture_push (fst x) (Some (report_bytes (snd x))) 8 c"

definition kc_dequeue :: "keyboard_capture \<Rightarrow> (u64 \<times> hid_report) option \<times> keyboard_capture" where
  "kc_dequeue c = map_prod (map_option kc_pair) id (pico_keyboard_capture_pop c)"

definition kc_head :: "keyboard_capture \<Rightarrow> (u64 \<times> hid_report) option" where
  "kc_head c = map_option kc_pair (pico_keyboard_capture_peek c)"

lemma kc_init_inv [simp]: "kc_inv pico_keyboard_capture_init"
  by (simp add: kc_inv_def kc_view_def pico_keyboard_capture_init_def)

lemma kc_clear_inv [simp]: "kc_inv c \<Longrightarrow> kc_inv (pico_keyboard_capture_clear c)"
  by (simp add: kc_inv_def kc_view_def pico_keyboard_capture_clear_def)

lemma kc_clear_count [simp]: "kc_count (pico_keyboard_capture_clear c) = 0"
  by (simp add: pico_keyboard_capture_clear_def)

lemma kc_mark_inv [simp]: "kc_inv c \<Longrightarrow> kc_inv (pico_keyboard_capture_mark_head_recorded c)"
  by (auto simp: kc_inv_def kc_view_def pico_keyboard_capture_mark_head_recorded_def)

lemma kc_mark_view [simp]: "kc_view (pico_keyboard_capture_mark_head_recorded c) = kc_view c"
  by (simp add: kc_view_def pico_keyboard_capture_mark_head_recorded_def)

lemma kc_mark_count [simp]: "kc_count (pico_keyboard_capture_mark_head_recorded c) = kc_count c"
  by (simp add: pico_keyboard_capture_mark_head_recorded_def)

lemma kc_contents_mark [simp]:
  "kc_contents (pico_keyboard_capture_mark_head_recorded c) = kc_contents c"
  by (simp add: kc_contents_def)

lemma length_kc_contents [simp]: "length (kc_contents c) = kc_count c"
  by (simp add: kc_contents_def kc_view_def)

lemma kc_contents_eq_Nil [simp]: "kc_contents c = [] \<longleftrightarrow> kc_count c = 0"
  by (metis length_0_conv length_kc_contents)

lemma kc_contents_clear [simp]: "kc_contents (pico_keyboard_capture_clear c) = []"
  by simp

lemma kc_push_view:
  assumes "kc_inv c" "kc_count c < PICO_KEYBOARD_CAPTURE_CAPACITY"
  shows "kc_view (c\<lparr>kc_events := (kc_events c)[kc_write_index c := e],
        kc_write_index := w, kc_count := kc_count c + 1, kc_stats := s\<rparr>) = kc_view c @ [e]"
  using assms ring_view_append [of "kc_count c" "kc_events c" "kc_read_index c" e]
  by (simp add: kc_inv_def kc_view_def)

lemma kc_push_inv:
  assumes "kc_inv c"
  shows "kc_inv (snd (pico_keyboard_capture_push ts rep len c))"
proof (cases "rep = None \<or> len \<noteq> 8 \<or> kc_count c = 16")
  case True
  with assms show ?thesis
    by (auto simp: pico_keyboard_capture_push_def Let_def kc_inv_def kc_view_def)
next
  case False
  let ?e = "\<lparr>ce_timestamp_us = ts, ce_report_len = 8, ce_report = report_of_bytes (the rep)\<rparr>"
  let ?c' = "c\<lparr>kc_events := (kc_events c)[kc_write_index c := ?e],
      kc_write_index := (kc_write_index c + 1) mod 16, kc_count := kc_count c + 1,
      kc_stats := (kc_stats c)\<lparr>accepted_count := accepted_count (kc_stats c) + 1\<rparr>\<rparr>"
  have lt: "kc_count c < 16" using assms False by (simp add: kc_inv_def)
  have "kc_view ?c' = kc_view c @ [?e]" by (rule kc_push_view [OF assms lt])
  moreover have "(kc_write_index c + 1) mod 16 = (kc_read_index c + (kc_count c + 1)) mod 16"
    using assms by (simp add: kc_inv_def mod_simps)
  ultimately have "kc_inv ?c'" using assms lt unfolding kc_inv_def by simp
  with False show ?thesis by (auto simp: pico_keyboard_capture_push_def Let_def)
qed

lemma kc_view_Suc:
  assumes "kc_inv c" "kc_count c \<noteq> 0"
  shows "kc_view c = kc_events c ! kc_read_index c # kc_view (snd (pico_keyboard_capture_pop c))"
proof -
  obtain n where n: "kc_count c = Suc n" using assms(2) by (cases "kc_count c") auto
  have "ring_view (kc_events c) (Suc (kc_read_index c) mod 16) n
      = ring_view (kc_events c) (Suc (kc_read_index c)) n"
    using assms(1) ring_view_mod [of "kc_events c" "Suc (kc_read_index c)" n] by (simp add: kc_inv_def)
  with assms n show ?thesis
    by (simp add: kc_view_def pico_keyboard_capture_pop_def ring_view_Suc kc_inv_def)
qed

lemma kc_pop_inv:
  assumes "kc_inv c"
  shows "kc_inv (snd (pico_keyboard_capture_pop c))"
proof (cases "kc_count c = 0")
  case True
  with assms show ?thesis by (simp add: pico_keyboard_capture_pop_def)
next
  case False
  let ?c' = "snd (pico_keyboard_capture_pop c)"
  have "set (kc_view ?c') \<subseteq> set (kc_view c)" using kc_view_Suc [OF assms False] by auto
  moreover have "((kc_read_index c + 1) mod 16 + (kc_count c - 1)) mod 16
      = (kc_read_index c + kc_count c) mod 16"
    using False by (intro ring_index_advance) simp
  ultimately show ?thesis
    using assms False unfolding kc_inv_def by (auto simp: pico_keyboard_capture_pop_def)
qed

interpretation kcf: peekable_fifo kc_inv "\<lambda>_. True" kc_contents PICO_KEYBOARD_CAPTURE_CAPACITY kc_enqueue kc_dequeue kc_head
proof
  fix c :: keyboard_capture and x
  assume inv: "kc_inv c"
  show "length (kc_contents c) \<le> PICO_KEYBOARD_CAPTURE_CAPACITY" using inv by (simp add: kc_inv_def)
  show "kc_inv (snd (kc_enqueue x c))" using inv by (simp add: kc_enqueue_def kc_push_inv)
  show "kc_inv (snd (kc_dequeue c))" using inv by (simp add: kc_dequeue_def kc_pop_inv)
  show "map_prod id kc_contents (kc_enqueue x c) = list_push PICO_KEYBOARD_CAPTURE_CAPACITY x (kc_contents c)"
    using inv kc_push_view [OF inv]
    by (auto simp: kc_enqueue_def pico_keyboard_capture_push_def list_push_def kc_contents_def
        kc_pair_def kc_inv_def kc_view_def Let_def)
  show "map_prod id kc_contents (kc_dequeue c) = list_pop (kc_contents c)"
    using kc_view_Suc [OF inv]
    by (cases "kc_count c = 0")
      (simp_all add: kc_dequeue_def pico_keyboard_capture_pop_def kc_contents_def kc_view_def)
  show "kc_head c = (case kc_contents c of [] \<Rightarrow> None | x # _ \<Rightarrow> Some x)"
    using kc_view_Suc [OF inv]
    by (cases "kc_count c = 0")
      (simp_all add: kc_head_def pico_keyboard_capture_peek_def kc_contents_def kc_view_def)
qed

text \<open>
  Every call to push is counted in exactly one of the three statistics, and the reports that were
  accepted are those appended to the FIFO.
\<close>

lemma kc_push_stats:
  "let s = kc_stats c; s' = kc_stats (snd (pico_keyboard_capture_push ts rep len c))
   in accepted_count s' + invalid_count s' + dropped_count s'
      = accepted_count s + invalid_count s + dropped_count s + 1"
  by (simp add: pico_keyboard_capture_push_def Let_def)

lemma kc_push_stats_accepted:
  "accepted_count (kc_stats (snd (pico_keyboard_capture_push ts rep len c)))
   = accepted_count (kc_stats c) + (if fst (pico_keyboard_capture_push ts rep len c) then 1 else 0)"
  by (simp add: pico_keyboard_capture_push_def Let_def)

text \<open>Push leaves the record flag of the head alone; pop and clear reset it.\<close>

lemma kc_push_head_recorded [simp]:
  "kc_head_recorded (snd (pico_keyboard_capture_push ts rep len c)) = kc_head_recorded c"
  by (simp add: pico_keyboard_capture_push_def Let_def)

lemma kc_pop_head_recorded:
  "kc_inv c \<Longrightarrow> \<not> kc_head_recorded (snd (pico_keyboard_capture_pop c))"
  by (auto simp: pico_keyboard_capture_pop_def kc_inv_def)

text \<open>Within the invariant no access to the buffer is out of bounds.\<close>

lemma kc_inv_bounds:
  assumes "kc_inv c"
  shows "length (kc_events c) = 16" "kc_read_index c < 16" "kc_write_index c < 16" "kc_count c \<le> 16"
  using assms by (simp_all add: kc_inv_def)

end
