(* ===== verification/Physical_Report_Dispatch.thy ===== *)
theory Physical_Report_Dispatch
  imports Keyboard_Capture Mode_State
begin

text \<open>
  \<open>pico/src/physical_report_dispatch.c\<close>: forwarding captured reports to the USB endpoint in PASS and
  RECORD, and recording each of them once in RECORD. The loops consume the capture FIFO, so they
  end. The theory shows the conservation laws of forwarding and recording.
\<close>

text \<open>The two callbacks may be \<open>NULL\<close>; they act on the rest of the program state \<open>u\<close>.\<close>

type_synonym 'u send_pass_report = "(hid_report \<Rightarrow> 'u \<Rightarrow> bool \<times> 'u) option"
type_synonym 'u send_record_event = "(capture_event \<Rightarrow> 'u \<Rightarrow> 'u) option"

definition record_head ::
    "'u send_record_event \<Rightarrow> capture_event \<Rightarrow> keyboard_capture \<Rightarrow> 'u \<Rightarrow> keyboard_capture \<times> 'u" where
  "record_head rec event capture u =
     (if \<not> pico_keyboard_capture_head_recorded (Some capture) then
        (pico_keyboard_capture_mark_head_recorded capture,
         case rec of None \<Rightarrow> u | Some f \<Rightarrow> f event u)
      else (capture, u))"

lemma record_head_count [simp]: "kc_count (fst (record_head rec event c u)) = kc_count c"
  by (simp add: record_head_def pico_keyboard_capture_mark_head_recorded_def)

lemma peek_count: "pico_keyboard_capture_peek c = Some e \<Longrightarrow> kc_count c \<noteq> 0"
  by (simp add: pico_keyboard_capture_peek_def split: if_splits)

lemma pop_count: "kc_count c \<noteq> 0 \<Longrightarrow> kc_count (snd (pico_keyboard_capture_pop c)) = kc_count c - 1"
  by (simp add: pico_keyboard_capture_pop_def)

function dispatch_recording ::
    "bool \<Rightarrow> 'u send_pass_report \<Rightarrow> 'u send_record_event \<Rightarrow> keyboard_capture \<Rightarrow> 'u \<Rightarrow> keyboard_capture \<times> 'u" where
  "dispatch_recording ready send rec c u =
     (case pico_keyboard_capture_peek c of
        None \<Rightarrow> (c, u)
      | Some event \<Rightarrow>
          (let s1 = record_head rec event c u in
           if \<not> ready \<or> send = None then s1
           else
            (let s2 = the send (ce_report event) (snd s1) in
             if \<not> fst s2 then (fst s1, snd s2)
             else dispatch_recording ready send rec (snd (pico_keyboard_capture_pop (fst s1))) (snd s2))))"
  by pat_completeness auto
termination
  by (relation "measure (\<lambda>(ready, send, rec, c, u). kc_count c)")
    (auto simp: pop_count dest: peek_count)

function dispatch_pass :: "(hid_report \<Rightarrow> 'u \<Rightarrow> bool \<times> 'u) \<Rightarrow> keyboard_capture \<Rightarrow> 'u \<Rightarrow> keyboard_capture \<times> 'u" where
  "dispatch_pass send c u =
     (case pico_keyboard_capture_peek c of
        None \<Rightarrow> (c, u)
      | Some event \<Rightarrow>
          (let s = send (ce_report event) u in
           if \<not> fst s then (c, snd s)
           else dispatch_pass send (snd (pico_keyboard_capture_pop c)) (snd s)))"
  by pat_completeness auto
termination
  by (relation "measure (\<lambda>(send, c, u). kc_count c)") (auto simp: pop_count dest: peek_count)

declare dispatch_recording.simps [simp del] dispatch_pass.simps [simp del]

definition pico_physical_report_dispatch ::
    "u8 option \<Rightarrow> bool \<Rightarrow> 'u send_pass_report \<Rightarrow> 'u send_record_event \<Rightarrow> keyboard_capture \<Rightarrow> 'u
      \<Rightarrow> keyboard_capture \<times> 'u" where
  "pico_physical_report_dispatch mode hid_output_ready send rec c u =
     (if pico_mode_state_is_recording mode then dispatch_recording hid_output_ready send rec c u
      else if \<not> hid_output_ready \<or> pico_mode_state_get mode \<noteq> PICO_UART_MODE_PASS \<or> send = None then (c, u)
      else dispatch_pass (the send) c u)"

section \<open>Tracing the callbacks\<close>

text \<open>
  The callbacks with two traces beside their state: the reports accepted for forwarding and the
  events given to the recorder. The traces do not influence the run.
\<close>

type_synonym 'u traced = "'u \<times> hid_report list \<times> capture_event list"

definition traced_send :: "(hid_report \<Rightarrow> 'u \<Rightarrow> bool \<times> 'u) \<Rightarrow> hid_report \<Rightarrow> 'u traced \<Rightarrow> bool \<times> 'u traced" where
  "traced_send send r = (\<lambda>(u, fwd, recd). (fst (send r u), snd (send r u), if fst (send r u) then fwd @ [r] else fwd, recd))"

definition traced_rec :: "(capture_event \<Rightarrow> 'u \<Rightarrow> 'u) \<Rightarrow> capture_event \<Rightarrow> 'u traced \<Rightarrow> 'u traced" where
  "traced_rec rec e = (\<lambda>(u, fwd, recd). (rec e u, fwd, recd @ [e]))"

lemma traced_simps [simp]:
  "fst (traced_send send r s) = fst (send r (fst s))"
  "fst (snd (traced_send send r s)) = snd (send r (fst s))"
  "fst (snd (snd (traced_send send r s))) = (if fst (send r (fst s)) then fst (snd s) @ [r] else fst (snd s))"
  "snd (snd (snd (traced_send send r s))) = snd (snd s)"
  "fst (traced_rec rec e s) = rec e (fst s)"
  "fst (snd (traced_rec rec e s)) = fst (snd s)"
  "snd (snd (traced_rec rec e s)) = snd (snd s) @ [e]"
  by (simp_all add: traced_send_def traced_rec_def split_beta)

abbreviation traced_dispatch ::
    "u8 option \<Rightarrow> bool \<Rightarrow> (hid_report \<Rightarrow> 'u \<Rightarrow> bool \<times> 'u) \<Rightarrow> (capture_event \<Rightarrow> 'u \<Rightarrow> 'u) \<Rightarrow> keyboard_capture \<Rightarrow> 'u
      \<Rightarrow> keyboard_capture \<times> 'u traced" where
  "traced_dispatch mode ready send rec c u \<equiv>
     pico_physical_report_dispatch mode ready (Some (traced_send send)) (Some (traced_rec rec)) c (u, [], [])"

lemma record_head_erase:
  "record_head (Some rec) e c (fst s) = map_prod id fst (record_head (Some (traced_rec rec)) e c s)"
  by (simp add: record_head_def)

lemma dispatch_recording_erase:
  "dispatch_recording ready (Some send) (Some rec) c (fst s)
     = map_prod id fst (dispatch_recording ready (Some (traced_send send)) (Some (traced_rec rec)) c s)"
proof (induction ready "Some (traced_send send)" "Some (traced_rec rec)" c s rule: dispatch_recording.induct)
  case (1 ready c s)
  then show ?case
    by (subst (1 2) dispatch_recording.simps)
      (auto simp: Let_def record_head_erase [of rec _ c s] split: option.split)
qed

lemma dispatch_pass_erase:
  "dispatch_pass send c (fst s) = map_prod id fst (dispatch_pass (traced_send send) c s)"
proof (induction "traced_send send" c s rule: dispatch_pass.induct)
  case (1 c s)
  then show ?case by (subst (1 2) dispatch_pass.simps) (auto simp: Let_def split: option.split)
qed

lemma dispatch_erase:
  "pico_physical_report_dispatch mode ready (Some send) (Some rec) c u
     = map_prod id fst (traced_dispatch mode ready send rec c u)"
  using dispatch_recording_erase [of ready send rec c "(u, [], [])"] dispatch_pass_erase [of send c "(u, [], [])"]
  by (simp add: pico_physical_report_dispatch_def)

section \<open>Conservation\<close>

text \<open>The events that were not given to the recorder yet.\<close>

definition unrecorded :: "keyboard_capture \<Rightarrow> capture_event list" where
  "unrecorded c = (if kc_head_recorded c then tl (kc_view c) else kc_view c)"

lemma peek_view:
  assumes "kc_inv c" "pico_keyboard_capture_peek c = Some e"
  shows "kc_view c = e # kc_view (snd (pico_keyboard_capture_pop c))" "kc_count c \<noteq> 0"
proof -
  show "kc_count c \<noteq> 0" using assms(2) by (rule peek_count)
  then show "kc_view c = e # kc_view (snd (pico_keyboard_capture_pop c))"
    using kc_view_Suc [OF assms(1)] assms(2) by (simp add: pico_keyboard_capture_peek_def split: if_splits)
qed

lemma peek_None_view: "pico_keyboard_capture_peek c = None \<Longrightarrow> kc_view c = []"
  by (simp add: pico_keyboard_capture_peek_def kc_view_def split: if_splits)

lemma traced_record_head:
  fixes s :: "'u traced" and rec :: "capture_event \<Rightarrow> 'u \<Rightarrow> 'u"
  assumes "kc_inv c" "pico_keyboard_capture_peek c = Some e"
  defines "res \<equiv> record_head (Some (traced_rec rec)) e c s"
  shows "kc_inv (fst res)" "kc_view (fst res) = kc_view c" "kc_head_recorded (fst res)"
    "fst (snd (snd res)) = fst (snd s)"
    "snd (snd (snd res)) @ unrecorded (fst res) = snd (snd s) @ unrecorded c"
    "unrecorded (snd (pico_keyboard_capture_pop (fst res))) = unrecorded (fst res)"
    "kc_view (snd (pico_keyboard_capture_pop (fst res))) = kc_view (snd (pico_keyboard_capture_pop c))"
proof -
  note view = peek_view [OF assms(1,2)]
  show inv: "kc_inv (fst res)" using assms by (simp add: res_def record_head_def)
  show vw: "kc_view (fst res) = kc_view c" by (simp add: res_def record_head_def)
  show hr: "kc_head_recorded (fst res)"
    using view by (simp add: res_def record_head_def pico_keyboard_capture_head_recorded_def
        pico_keyboard_capture_mark_head_recorded_def)
  show "fst (snd (snd res)) = fst (snd s)" by (simp add: res_def record_head_def)
  show "snd (snd (snd res)) @ unrecorded (fst res) = snd (snd s) @ unrecorded c"
    using hr vw view unfolding unrecorded_def
    by (auto simp: res_def record_head_def pico_keyboard_capture_head_recorded_def)
  have cnt: "kc_count (fst res) \<noteq> 0" using view by (simp add: res_def)
  show popv: "kc_view (snd (pico_keyboard_capture_pop (fst res))) = kc_view (snd (pico_keyboard_capture_pop c))"
    using kc_view_Suc [OF inv cnt] vw view by simp
  show "unrecorded (snd (pico_keyboard_capture_pop (fst res))) = unrecorded (fst res)"
    using hr popv kc_pop_head_recorded [OF inv] vw view by (simp add: unrecorded_def)
qed

text \<open>
  The laws between the state before and after: \<open>s\<close> and \<open>s'\<close> are the callback states with the traces.
\<close>

definition forward_law :: "keyboard_capture \<Rightarrow> 'u traced \<Rightarrow> keyboard_capture \<Rightarrow> 'u traced \<Rightarrow> bool" where
  "forward_law c s c' s' \<longleftrightarrow>
     fst (snd s') @ map ce_report (kc_view c') = fst (snd s) @ map ce_report (kc_view c)"

definition record_law :: "keyboard_capture \<Rightarrow> 'u traced \<Rightarrow> keyboard_capture \<Rightarrow> 'u traced \<Rightarrow> bool" where
  "record_law c s c' s' \<longleftrightarrow> snd (snd s') @ unrecorded c' = snd (snd s) @ unrecorded c
     \<and> (kc_view c' \<noteq> [] \<longrightarrow> kc_head_recorded c')"

lemma dispatch_recording_conserves:
  assumes "kc_inv c" "dispatch_recording ready (Some (traced_send send)) (Some (traced_rec rec)) c s = (c', s')"
  shows "kc_inv c' \<and> forward_law c s c' s' \<and> record_law c s c' s'"
  using assms
proof (induction ready "Some (traced_send send)" "Some (traced_rec rec)" c s rule: dispatch_recording.induct)
  case (1 ready c s)
  note step = 1(3) [unfolded dispatch_recording.simps [of _ _ _ c]]
  show ?case
  proof (cases "pico_keyboard_capture_peek c")
    case None
    with 1(2) step peek_None_view [OF None] show ?thesis by (simp add: forward_law_def record_law_def)
  next
    case (Some e)
    note rh = traced_record_head [OF 1(2) Some, of rec s]
    let ?s1 = "record_head (Some (traced_rec rec)) e c s"
    let ?s2 = "traced_send send (ce_report e) (snd ?s1)"
    show ?thesis
    proof (cases "ready \<and> fst ?s2")
      case False
      with Some step have "(c', s') = (if ready then (fst ?s1, snd ?s2) else ?s1)"
        by (auto simp: Let_def)
      with False rh show ?thesis by (cases ready) (auto simp: forward_law_def record_law_def prod_eq_iff)
    next
      case True
      with Some step have "dispatch_recording ready (Some (traced_send send)) (Some (traced_rec rec))
          (snd (pico_keyboard_capture_pop (fst ?s1))) (snd ?s2) = (c', s')"
        by (simp add: Let_def)
      from 1(1) [OF Some refl _ refl _ kc_pop_inv [OF rh(1)]] this True
      have "kc_inv c' \<and> forward_law (snd (pico_keyboard_capture_pop (fst ?s1))) (snd ?s2) c' s'
          \<and> record_law (snd (pico_keyboard_capture_pop (fst ?s1))) (snd ?s2) c' s'"
        by simp
      with True rh peek_view(1) [OF 1(2) Some] show ?thesis
        by (auto simp: forward_law_def record_law_def)
    qed
  qed
qed

lemma dispatch_pass_conserves:
  assumes "kc_inv c" "dispatch_pass (traced_send send) c s = (c', s')"
  shows "kc_inv c' \<and> forward_law c s c' s' \<and> snd (snd s') = snd (snd s)"
  using assms
proof (induction "traced_send send" c s rule: dispatch_pass.induct)
  case (1 c s)
  note step = 1(3) [unfolded dispatch_pass.simps [of _ c]]
  show ?case
  proof (cases "pico_keyboard_capture_peek c")
    case None
    with 1(2) step show ?thesis by (simp add: forward_law_def)
  next
    case (Some e)
    let ?s2 = "traced_send send (ce_report e) s"
    show ?thesis
    proof (cases "fst ?s2")
      case False
      with Some step 1(2) show ?thesis by (auto simp: Let_def forward_law_def)
    next
      case True
      with Some step have "dispatch_pass (traced_send send) (snd (pico_keyboard_capture_pop c)) (snd ?s2) = (c', s')"
        by (simp add: Let_def)
      from 1(1) [OF Some refl _ kc_pop_inv [OF 1(2)]] this True peek_view(1) [OF 1(2) Some]
      show ?thesis by (simp add: forward_law_def)
    qed
  qed
qed

text \<open>
  One call of the dispatcher in any mode. What was forwarded followed by what is left is what there
  was; in RECORD the same holds of what was recorded, and a head that is left has been recorded.
\<close>

lemma dispatch_conserves:
  assumes "kc_inv c" "traced_dispatch mode ready send rec c u = (c', u', fwd, recd)"
  shows "kc_inv c' \<and> fwd @ map ce_report (kc_view c') = map ce_report (kc_view c)"
    and "pico_mode_state_is_recording mode \<Longrightarrow> recd @ unrecorded c' = unrecorded c
      \<and> (kc_view c' \<noteq> [] \<longrightarrow> kc_head_recorded c')"
    and "\<not> pico_mode_state_is_recording mode \<Longrightarrow> recd = []"
    and "\<not> ready \<Longrightarrow> fwd = [] \<and> kc_view c' = kc_view c"
proof -
  note defn = pico_physical_report_dispatch_def
  note rcs = dispatch_recording_conserves [OF assms(1), of ready send rec "(u, [], [])" c' "(u', fwd, recd)"]
  note pss = dispatch_pass_conserves [OF assms(1), of send "(u, [], [])" c' "(u', fwd, recd)"]
  show "kc_inv c' \<and> fwd @ map ce_report (kc_view c') = map ce_report (kc_view c)"
    using assms rcs pss by (auto simp: defn forward_law_def split: if_splits)
  show "recd @ unrecorded c' = unrecorded c \<and> (kc_view c' \<noteq> [] \<longrightarrow> kc_head_recorded c')"
    if "pico_mode_state_is_recording mode"
    using assms(2) that rcs by (simp add: defn record_law_def)
  show "recd = []" if "\<not> pico_mode_state_is_recording mode"
    using assms(2) that pss by (auto simp: defn split: if_splits)
  show "fwd = [] \<and> kc_view c' = kc_view c" if "\<not> ready"
    using assms(2) that
    by (auto simp: defn dispatch_recording.simps [of False] record_head_def traced_rec_def
        split: if_splits option.splits)
qed

text \<open>
  What both callbacks keep, the dispatcher keeps; the events given to the recorder carry a report of
  eight bytes, as all events of the FIFO do. Outside PASS and RECORD the dispatcher does nothing.
\<close>

lemma record_head_preserves:
  "(\<And>u. P u \<Longrightarrow> P (rec e u)) \<Longrightarrow> P u \<Longrightarrow> P (snd (record_head (Some rec) e c u))"
  by (simp add: record_head_def)

lemma record_head_inv: "kc_inv c \<Longrightarrow> kc_inv (fst (record_head rec e c u))"
  by (simp add: record_head_def)

lemma peek_report_len: "kc_inv c \<Longrightarrow> pico_keyboard_capture_peek c = Some e \<Longrightarrow> ce_report_len e = 8"
  using peek_view(1) [of c e] unfolding kc_inv_def by auto

lemma dispatch_recording_preserves:
  assumes "\<And>r u. P u \<Longrightarrow> P (snd (send r u))" "\<And>e u. ce_report_len e = 8 \<Longrightarrow> P u \<Longrightarrow> P (rec e u)"
    "kc_inv c" "P u"
  shows "P (snd (dispatch_recording ready (Some send) (Some rec) c u))"
  using assms(3,4)
proof (induction ready "Some send" "Some rec" c u rule: dispatch_recording.induct)
  case (1 ready c u)
  have head: "P (snd (record_head (Some rec) e c u))" if "pico_keyboard_capture_peek c = Some e" for e
    by (rule record_head_preserves) (use assms(2) peek_report_len [OF 1(2) that] 1(3) in auto)
  show ?case
  proof (cases "pico_keyboard_capture_peek c")
    case None
    with 1(3) show ?thesis by (simp add: dispatch_recording.simps [of _ _ _ c])
  next
    case (Some e)
    let ?s1 = "record_head (Some rec) e c u"
    let ?s2 = "send (ce_report e) (snd ?s1)"
    have P: "P (snd ?s1)" "P (snd ?s2)" using head [OF Some] assms(1) by blast+
    have inv: "kc_inv (snd (pico_keyboard_capture_pop (fst ?s1)))"
      using 1(2) by (intro kc_pop_inv record_head_inv)
    show ?thesis
    proof (cases "ready \<and> fst ?s2")
      case False
      with P Some show ?thesis by (auto simp: dispatch_recording.simps [of _ _ _ c] Let_def)
    next
      case True
      with 1(1) [OF Some refl _ refl] inv P Some show ?thesis
        by (simp add: dispatch_recording.simps [of _ _ _ c] Let_def)
    qed
  qed
qed

lemma dispatch_pass_preserves:
  assumes "\<And>r u. P u \<Longrightarrow> P (snd (send r u))" "P u"
  shows "P (snd (dispatch_pass send c u))"
  using assms
proof (induction send c u rule: dispatch_pass.induct)
  case (1 send c u)
  show ?case
  proof (cases "pico_keyboard_capture_peek c")
    case (Some e)
    with 1(1) [OF Some refl _ 1(2)] 1(2) [OF 1(3), of "ce_report e"] show ?thesis
      by (subst dispatch_pass.simps) (simp add: Let_def)
  qed (use 1(3) in \<open>simp add: dispatch_pass.simps [of _ c]\<close>)
qed

lemma dispatch_preserves:
  assumes "\<And>r u. P u \<Longrightarrow> P (snd (send r u))" "\<And>e u. ce_report_len e = 8 \<Longrightarrow> P u \<Longrightarrow> P (rec e u)"
    "kc_inv c" "P u"
  shows "P (snd (pico_physical_report_dispatch mode ready (Some send) (Some rec) c u))"
  using dispatch_recording_preserves [where P = P, OF assms] dispatch_pass_preserves [where P = P, OF assms(1,4)] assms(4)
  by (simp add: pico_physical_report_dispatch_def)

lemma dispatch_idle:
  assumes "s \<noteq> PICO_UART_MODE_PASS" "s \<noteq> PICO_UART_MODE_RECORD"
  shows "pico_physical_report_dispatch (Some s) ready send rec c u = (c, u)"
  using assms
  by (simp add: pico_physical_report_dispatch_def pico_mode_state_is_recording_def pico_mode_state_get_def)

lemma dispatch_result:
  fixes u :: 'u and mode :: "u8 option" and ready :: bool and send :: "hid_report \<Rightarrow> 'u \<Rightarrow> bool \<times> 'u"
    and rec :: "capture_event \<Rightarrow> 'u \<Rightarrow> 'u"
  assumes "kc_inv c"
  defines "c' \<equiv> fst (pico_physical_report_dispatch mode ready (Some send) (Some rec) c u)"
  shows "kc_inv c'" "kc_count c' \<le> kc_count c"
proof -
  obtain d v fwd recd where t: "traced_dispatch mode ready send rec c u = (d, v, fwd, recd)"
    using prod_cases4 by blast
  have c': "c' = d" using dispatch_erase [of mode ready send rec c u] t by (simp add: c'_def)
  note law = dispatch_conserves(1) [OF assms(1) t]
  then show "kc_inv c'" by (simp add: c')
  have "length (fwd @ map ce_report (kc_view d)) = length (kc_view c)" using law by simp
  then show "kc_count c' \<le> kc_count c" by (simp add: c' kc_view_def)
qed

end
