(* ===== verification/Safety_Release.thy ===== *)
theory Safety_Release
  imports Prelude
begin

text \<open>
  \<open>pico/src/safety_release.c\<close>: the latch that keeps an all-keys release pending until the USB
  endpoint takes it.
\<close>

datatype pico_safety_release_result =
    PICO_SAFETY_RELEASE_BLOCKED
  | PICO_SAFETY_RELEASE_SENT
  | PICO_SAFETY_RELEASE_READY

record safety_release =
  sr_pending :: bool

definition pico_safety_release_init :: "safety_release option \<Rightarrow> safety_release option" where
  "pico_safety_release_init = map_option (\<lambda>r. r\<lparr>sr_pending := False\<rparr>)"

definition pico_safety_release_request :: "safety_release option \<Rightarrow> safety_release option" where
  "pico_safety_release_request = map_option (\<lambda>r. r\<lparr>sr_pending := True\<rparr>)"

text \<open>\<open>send\<close> may be \<open>NULL\<close>; otherwise it acts on the rest of the program state \<open>u\<close>.\<close>

definition pico_safety_release_service ::
    "('u \<Rightarrow> bool \<times> 'u) option \<Rightarrow> safety_release option \<Rightarrow> 'u
      \<Rightarrow> pico_safety_release_result \<times> safety_release option \<times> 'u" where
  "pico_safety_release_service send release u =
     (case release of
        None \<Rightarrow> (PICO_SAFETY_RELEASE_BLOCKED, None, u)
      | Some r \<Rightarrow>
          if \<not> sr_pending r then (PICO_SAFETY_RELEASE_READY, Some r, u)
          else
            (case send of
               None \<Rightarrow> (PICO_SAFETY_RELEASE_BLOCKED, Some r, u)
             | Some f \<Rightarrow>
                 (let (ok, u') = f u in
                  if ok then (PICO_SAFETY_RELEASE_SENT, Some (r\<lparr>sr_pending := False\<rparr>), u')
                  else (PICO_SAFETY_RELEASE_BLOCKED, Some r, u'))))"

text \<open>
  A pending release is served exactly when the send succeeds; READY means that none was pending and
  nothing was sent.
\<close>

lemma service_cases:
  assumes "pico_safety_release_service (Some send) (Some r) u = (result, r', u')"
  shows "\<not> sr_pending r \<and> result = PICO_SAFETY_RELEASE_READY \<and> r' = Some r \<and> u' = u
    \<or> sr_pending r \<and> fst (send u) \<and> result = PICO_SAFETY_RELEASE_SENT \<and> r' = Some (r\<lparr>sr_pending := False\<rparr>)
        \<and> u' = snd (send u)
    \<or> sr_pending r \<and> \<not> fst (send u) \<and> result = PICO_SAFETY_RELEASE_BLOCKED \<and> r' = Some r \<and> u' = snd (send u)"
  using assms by (auto simp: pico_safety_release_service_def Let_def split_beta split: if_splits)

text \<open>
  Retrying every iteration: with a send that succeeds from attempt \<open>k\<close> on, the release leaves the
  latch on attempt \<open>k\<close> and no other attempt sends anything.
\<close>

fun service_times :: "nat \<Rightarrow> ('u \<Rightarrow> bool \<times> 'u) \<Rightarrow> safety_release \<times> 'u
    \<Rightarrow> pico_safety_release_result list \<times> safety_release \<times> 'u" where
  "service_times 0 send s = ([], s)"
| "service_times (Suc n) send (r, u) =
     (let (res, r', u') = pico_safety_release_service (Some send) (Some r) u;
          (rs, s) = service_times n send (the r', u')
      in (res # rs, s))"

lemma service_times_READY:
  "\<not> sr_pending r \<Longrightarrow> service_times n send (r, u) = (replicate n PICO_SAFETY_RELEASE_READY, r, u)"
  by (induction n) (simp_all add: pico_safety_release_service_def)

definition attempt :: "('u \<Rightarrow> bool \<times> 'u) \<Rightarrow> 'u \<Rightarrow> 'u" where
  "attempt send u = snd (send u)"

lemma service_times_retry:
  assumes "sr_pending r" "\<And>i. i < k \<Longrightarrow> \<not> fst (send ((attempt send ^^ i) u))" "fst (send ((attempt send ^^ k) u))"
  shows "service_times (k + Suc n) send (r, u) =
    (replicate k PICO_SAFETY_RELEASE_BLOCKED @ PICO_SAFETY_RELEASE_SENT # replicate n PICO_SAFETY_RELEASE_READY,
     r\<lparr>sr_pending := False\<rparr>, (attempt send ^^ Suc k) u)"
  using assms
proof (induction k arbitrary: u)
  case 0
  then show ?case
    by (simp add: pico_safety_release_service_def Let_def split_beta service_times_READY attempt_def)
next
  case (Suc k)
  have first: "\<not> fst (send u)" using Suc.prems(2) [of 0] by simp
  have "\<not> fst (send ((attempt send ^^ i) (attempt send u)))" if "i < k" for i
    using Suc.prems(2) [of "Suc i"] that by (simp add: funpow_swap1)
  then have IH: "service_times (k + Suc n) send (r, attempt send u) =
    (replicate k PICO_SAFETY_RELEASE_BLOCKED @ PICO_SAFETY_RELEASE_SENT # replicate n PICO_SAFETY_RELEASE_READY,
     r\<lparr>sr_pending := False\<rparr>, (attempt send ^^ Suc k) (attempt send u))"
    using Suc.prems by (intro Suc.IH) (simp_all add: funpow_swap1)
  have "pico_safety_release_service (Some send) (Some r) u = (PICO_SAFETY_RELEASE_BLOCKED, Some r, attempt send u)"
    using first Suc.prems(1) by (simp add: pico_safety_release_service_def Let_def split_beta attempt_def)
  with IH show ?case by (simp add: funpow_swap1)
qed

end
