(* ===== verification/Hid_Keyboard_Host.thy ===== *)
theory Hid_Keyboard_Host
  imports Keyboard_Capture Pico_Machine
begin

text \<open>
  \<open>pico/src/hid_keyboard_host.c\<close>: the callbacks of the TinyUSB host stack. One Boot keyboard is
  accepted; its reports are captured when the mode accepts physical input, and reception is armed
  again after every report. The theory shows when a report reaches the capture FIFO, that reports of
  other interfaces are without effect, and that reception is armed once per report.
\<close>

record host_stats =
  keyboard_mounts :: u32
  keyboard_unmounts :: u32
  unsupported_mounts :: u32
  report_callbacks :: u32
  receive_requests :: u32
  receive_errors :: u32

text \<open>\<open>kh_capture\<close> and \<open>kh_mode\<close> say that the pointers to the capture FIFO and the mode are set.\<close>

record keyboard_host =
  kh_capture :: bool
  kh_mode :: bool
  kh_mounted :: bool
  kh_dev_addr :: u8
  kh_instance :: u8
  kh_stats :: host_stats

definition HID_ITF_PROTOCOL_KEYBOARD :: u8 where "HID_ITF_PROTOCOL_KEYBOARD = 1"

definition zero_host_stats :: host_stats where
  "zero_host_stats = \<lparr>keyboard_mounts = 0, keyboard_unmounts = 0, unsupported_mounts = 0,
     report_callbacks = 0, receive_requests = 0, receive_errors = 0\<rparr>"

definition pico_hid_keyboard_host_init :: "bool \<Rightarrow> bool \<Rightarrow> keyboard_host" where
  "pico_hid_keyboard_host_init capture mode =
     \<lparr>kh_capture = capture, kh_mode = mode, kh_mounted = False, kh_dev_addr = 0, kh_instance = 0,
      kh_stats = zero_host_stats\<rparr>"

definition pico_hid_keyboard_host_is_mounted :: "keyboard_host \<Rightarrow> bool" where
  "pico_hid_keyboard_host_is_mounted h = kh_mounted h"

definition pico_hid_keyboard_host_get_stats :: "keyboard_host \<Rightarrow> host_stats" where
  "pico_hid_keyboard_host_get_stats h = kh_stats h"

definition host_stat :: "(host_stats \<Rightarrow> host_stats) \<Rightarrow> keyboard_host \<Rightarrow> keyboard_host" where
  "host_stat f h = h\<lparr>kh_stats := f (kh_stats h)\<rparr>"

definition request_next_report ::
    "'e sdk \<Rightarrow> u8 \<Rightarrow> u8 \<Rightarrow> keyboard_host \<Rightarrow> ('e, 'z) machine_scheme \<Rightarrow> keyboard_host \<times> ('e, 'z) machine_scheme" where
  "request_next_report sdk dev_addr ins h w =
     (let h1 = host_stat (\<lambda>s. s\<lparr>receive_requests := receive_requests s + 1\<rparr>) h;
          (ok, w1) = call_hw (sdk_tuh_hid_receive_report sdk dev_addr ins) w
      in (if ok then h1 else host_stat (\<lambda>s. s\<lparr>receive_errors := receive_errors s + 1\<rparr>) h1, w1))"

definition tuh_hid_mount_cb ::
    "'e sdk \<Rightarrow> u8 \<Rightarrow> u8 \<Rightarrow> keyboard_host \<Rightarrow> ('e, 'z) machine_scheme \<Rightarrow> keyboard_host \<times> ('e, 'z) machine_scheme" where
  "tuh_hid_mount_cb sdk dev_addr ins h w =
     (let (protocol, w1) = call_hw (sdk_tuh_hid_interface_protocol sdk dev_addr ins) w in
      if protocol \<noteq> HID_ITF_PROTOCOL_KEYBOARD then
        (host_stat (\<lambda>s. s\<lparr>unsupported_mounts := unsupported_mounts s + 1\<rparr>) h, w1)
      else if kh_mounted h \<and> (kh_dev_addr h \<noteq> dev_addr \<or> kh_instance h \<noteq> ins) then
        (host_stat (\<lambda>s. s\<lparr>unsupported_mounts := unsupported_mounts s + 1\<rparr>) h, w1)
      else
        request_next_report sdk dev_addr ins
          (host_stat (\<lambda>s. s\<lparr>keyboard_mounts := keyboard_mounts s + 1\<rparr>)
             (h\<lparr>kh_mounted := True, kh_dev_addr := dev_addr, kh_instance := ins\<rparr>)) w1)"

definition is_keyboard :: "u8 \<Rightarrow> u8 \<Rightarrow> keyboard_host \<Rightarrow> bool" where
  "is_keyboard dev_addr ins h \<longleftrightarrow> \<not> (\<not> kh_mounted h \<or> kh_dev_addr h \<noteq> dev_addr \<or> kh_instance h \<noteq> ins)"

definition tuh_hid_umount_cb :: "u8 \<Rightarrow> u8 \<Rightarrow> keyboard_host \<Rightarrow> keyboard_host" where
  "tuh_hid_umount_cb dev_addr ins h =
     (if \<not> is_keyboard dev_addr ins h then h
      else host_stat (\<lambda>s. s\<lparr>keyboard_unmounts := keyboard_unmounts s + 1\<rparr>) (h\<lparr>kh_mounted := False\<rparr>))"

text \<open>The capture FIFO is the object \<open>host_state.capture\<close> points to.\<close>

definition tuh_hid_report_received_cb ::
    "'e sdk \<Rightarrow> u8 \<Rightarrow> u8 \<Rightarrow> u8 list option \<Rightarrow> u16 \<Rightarrow> keyboard_host \<Rightarrow> keyboard_capture \<Rightarrow> ('e, 'z) machine_scheme
      \<Rightarrow> keyboard_host \<times> keyboard_capture \<times> ('e, 'z) machine_scheme" where
  "tuh_hid_report_received_cb sdk dev_addr ins report report_len h capture w =
     (let (timestamp_us, w1) = time_us_64 sdk w in
      if \<not> is_keyboard dev_addr ins h then (h, capture, w1)
      else
       (let h1 = host_stat (\<lambda>s. s\<lparr>report_callbacks := report_callbacks s + 1\<rparr>) h;
            mode = (if kh_mode h1 then Some (mode_state w1) else None);
            capture1 = (if (mode = None \<or> pico_mode_state_accepts_physical mode) \<and> kh_capture h1
                        then snd (pico_keyboard_capture_push timestamp_us report (unat report_len) capture)
                        else capture);
            (h2, w2) = request_next_report sdk dev_addr ins h1 w1
        in (h2, capture1, w2)))"

lemma host_stat_simps [simp]:
  "kh_capture (host_stat f h) = kh_capture h" "kh_mode (host_stat f h) = kh_mode h"
  "kh_mounted (host_stat f h) = kh_mounted h" "kh_dev_addr (host_stat f h) = kh_dev_addr h"
  "kh_instance (host_stat f h) = kh_instance h" "kh_stats (host_stat f h) = f (kh_stats h)"
  by (simp_all add: host_stat_def)

lemma request_effect:
  assumes "request_next_report sdk dev ins h w = (h', w')"
  shows "receive_requests (kh_stats h') = receive_requests (kh_stats h) + 1"
    "kh_mounted h' = kh_mounted h" "kh_dev_addr h' = kh_dev_addr h" "kh_instance h' = kh_instance h"
    "kh_capture h' = kh_capture h" "kh_mode h' = kh_mode h" "\<exists>e. w' = w\<lparr>hw := e\<rparr>"
  using assms by (auto simp: request_next_report_def Let_def call_hw_def split_beta split: if_splits)

text \<open>A report of the keyboard is captured exactly in PASS and RECORD, and reception is armed once.\<close>

lemma report_received_effect:
  assumes "tuh_hid_report_received_cb sdk dev ins rep len h c w = (h', c', w')" "kh_mode h" "kh_capture h"
  shows "c' = (if is_keyboard dev ins h \<and> (mode_state w = 0 \<or> mode_state w = 1)
      then snd (pico_keyboard_capture_push (fst (sdk_time_us_64 sdk (hw w))) rep (unat len) c) else c)"
    "receive_requests (kh_stats h') = receive_requests (kh_stats h) + (if is_keyboard dev ins h then 1 else 0)"
    "\<exists>e. w' = w\<lparr>hw := e\<rparr>" "kh_mode h'" "kh_capture h'"
  using assms
  by (auto simp: tuh_hid_report_received_cb_def Let_def time_us_64_def call_hw_def split_beta
      pico_mode_state_accepts_physical_def mode_defs request_next_report_def split: if_splits)

lemma mount_effect:
  assumes "tuh_hid_mount_cb sdk dev ins h w = (h', w')"
  shows "\<exists>e. w' = w\<lparr>hw := e\<rparr>" "kh_capture h' = kh_capture h" "kh_mode h' = kh_mode h"
    "kh_mounted h \<Longrightarrow> kh_mounted h' \<and> kh_dev_addr h' = kh_dev_addr h \<and> kh_instance h' = kh_instance h"
  using assms
  by (auto simp: tuh_hid_mount_cb_def Let_def call_hw_def split_beta request_next_report_def split: if_splits)

lemma umount_effect [simp]:
  "kh_capture (tuh_hid_umount_cb dev ins h) = kh_capture h" "kh_mode (tuh_hid_umount_cb dev ins h) = kh_mode h"
  by (simp_all add: tuh_hid_umount_cb_def)

end
