(* ===== verification/Uart_Transport.thy ===== *)
theory Uart_Transport
  imports Uart_Protocol Bounded_Fifo
begin

text \<open>
  \<open>pico/src/uart_transport.c\<close>: the receive ring filled by the UART interrupt, the frame parser of
  the main loop, the command ring, the transmit ring, the fault latch and the statistics. Ring
  positions are free-running counters of the width the code gives them. The theory shows the ring
  and parser invariant, that \<open>poll\<close> terminates, drains the ring and refines a parser on byte lists,
  and that transmit frames are queued whole or not at all.
\<close>

abbreviation PICO_UART_RX_RING_CAPACITY :: nat where "PICO_UART_RX_RING_CAPACITY \<equiv> 512"
abbreviation PICO_UART_COMMAND_CAPACITY :: nat where "PICO_UART_COMMAND_CAPACITY \<equiv> 8"
abbreviation PICO_UART_TX_RING_CAPACITY :: nat where "PICO_UART_TX_RING_CAPACITY \<equiv> 2048"

definition PICO_UART_PARSER_CAPACITY :: nat where
  "PICO_UART_PARSER_CAPACITY =
     PICO_UART_PROTOCOL_HEADER_LEN + PICO_UART_PROTOCOL_MAX_PAYLOAD + PICO_UART_PROTOCOL_CRC_LEN"

lemma parser_capacity [simp]: "PICO_UART_PARSER_CAPACITY = 71"
  by (simp add: PICO_UART_PARSER_CAPACITY_def)

record transport_stats =
  rx_overflow :: u32
  hardware_errors :: u32
  invalid_frames :: u32
  bad_magic :: u32
  bad_version :: u32
  bad_length :: u32
  bad_crc :: u32
  unknown_type :: u32
  command_overflow :: u32
  tx_dropped :: u32

text \<open>\<open>parser_len\<close> is a \<open>uint8_t\<close> that never exceeds 71 (invariant below), kept as \<^typ>\<open>nat\<close>.\<close>

record uart_transport =
  ut_rx_bytes :: "u8 list"
  ut_rx_head :: u16
  ut_rx_tail :: u16
  ut_commands :: "uart_frame list"
  ut_command_head :: u8
  ut_command_tail :: u8
  ut_tx_bytes :: "u8 list"
  ut_tx_head :: u16
  ut_tx_tail :: u16
  ut_parser :: "u8 list"
  ut_parser_len :: nat
  ut_fault_pending :: bool
  ut_stats :: transport_stats

definition zero_stats :: transport_stats where
  "zero_stats = \<lparr>rx_overflow = 0, hardware_errors = 0, invalid_frames = 0, bad_magic = 0,
     bad_version = 0, bad_length = 0, bad_crc = 0, unknown_type = 0, command_overflow = 0, tx_dropped = 0\<rparr>"

definition zero_frame :: uart_frame where
  "zero_frame = \<lparr>fr_version = 0, fr_type = 0, fr_payload_len = 0, fr_payload = []\<rparr>"

definition pico_uart_transport_init :: uart_transport where
  "pico_uart_transport_init =
     \<lparr>ut_rx_bytes = replicate PICO_UART_RX_RING_CAPACITY 0, ut_rx_head = 0, ut_rx_tail = 0,
      ut_commands = replicate PICO_UART_COMMAND_CAPACITY zero_frame,
      ut_command_head = 0, ut_command_tail = 0,
      ut_tx_bytes = replicate PICO_UART_TX_RING_CAPACITY 0, ut_tx_head = 0, ut_tx_tail = 0,
      ut_parser = replicate PICO_UART_PARSER_CAPACITY 0, ut_parser_len = 0,
      ut_fault_pending = False, ut_stats = zero_stats\<rparr>"

definition latch_fault :: "uart_transport \<Rightarrow> uart_transport" where
  "latch_fault t = t\<lparr>ut_fault_pending := True\<rparr>"

definition note_decode_error :: "uart_transport \<Rightarrow> pico_uart_decode_result \<Rightarrow> uart_transport" where
  "note_decode_error t result =
     (let s = (ut_stats t)\<lparr>invalid_frames := invalid_frames (ut_stats t) + 1\<rparr>;
          s' = (case result of
              PICO_UART_DECODE_BAD_MAGIC \<Rightarrow> s\<lparr>bad_magic := bad_magic s + 1\<rparr>
            | PICO_UART_DECODE_BAD_VERSION \<Rightarrow> s\<lparr>bad_version := bad_version s + 1\<rparr>
            | PICO_UART_DECODE_BAD_LENGTH \<Rightarrow> s\<lparr>bad_length := bad_length s + 1\<rparr>
            | PICO_UART_DECODE_BAD_CRC \<Rightarrow> s\<lparr>bad_crc := bad_crc s + 1\<rparr>
            | _ \<Rightarrow> s)
      in latch_fault (t\<lparr>ut_stats := s'\<rparr>))"

definition pico_uart_transport_rx_push_isr :: "u8 \<Rightarrow> uart_transport \<Rightarrow> uart_transport" where
  "pico_uart_transport_rx_push_isr byte t =
     (let head = ut_rx_head t in
      if unat (head - ut_rx_tail t) \<ge> PICO_UART_RX_RING_CAPACITY then
        latch_fault (t\<lparr>ut_stats := (ut_stats t)\<lparr>rx_overflow := rx_overflow (ut_stats t) + 1\<rparr>\<rparr>)
      else t\<lparr>ut_rx_bytes := (ut_rx_bytes t)[unat head mod PICO_UART_RX_RING_CAPACITY := byte],
             ut_rx_head := head + 1\<rparr>)"

definition pico_uart_transport_hardware_error_isr :: "uart_transport \<Rightarrow> uart_transport" where
  "pico_uart_transport_hardware_error_isr t =
     latch_fault (t\<lparr>ut_stats := (ut_stats t)\<lparr>hardware_errors := hardware_errors (ut_stats t) + 1\<rparr>\<rparr>)"

definition enqueue_command :: "uart_transport \<Rightarrow> uart_frame \<Rightarrow> uart_transport" where
  "enqueue_command t frame =
     (if \<not> pico_uart_type_is_command (fr_type frame) \<or> \<not> pico_uart_frame_payload_valid (Some frame) then
        (let s = (ut_stats t)\<lparr>invalid_frames := invalid_frames (ut_stats t) + 1\<rparr>;
             s' = (if \<not> pico_uart_type_known (fr_type frame)
                   then s\<lparr>unknown_type := unknown_type s + 1\<rparr> else s)
         in latch_fault (t\<lparr>ut_stats := s'\<rparr>))
      else if unat (ut_command_head t - ut_command_tail t) \<ge> PICO_UART_COMMAND_CAPACITY then
        latch_fault (t\<lparr>ut_stats := (ut_stats t)\<lparr>command_overflow := command_overflow (ut_stats t) + 1\<rparr>\<rparr>)
      else
        t\<lparr>ut_commands := (ut_commands t)[unat (ut_command_head t) mod PICO_UART_COMMAND_CAPACITY := frame],
          ut_command_head := ut_command_head t + 1\<rparr>)"

text \<open>One iteration of the loop of \<open>poll\<close>: taking the byte, and then what is done with it.\<close>

definition rx_take :: "uart_transport \<Rightarrow> u8 \<times> uart_transport" where
  "rx_take t = (ut_rx_bytes t ! (unat (ut_rx_tail t) mod PICO_UART_RX_RING_CAPACITY),
     t\<lparr>ut_rx_tail := ut_rx_tail t + 1\<rparr>)"

definition poll_byte :: "u8 \<Rightarrow> uart_transport \<Rightarrow> uart_transport" where
  "poll_byte byte t =
     (if ut_parser_len t = 0 \<and> byte \<noteq> PICO_UART_PROTOCOL_MAGIC then
        note_decode_error t PICO_UART_DECODE_BAD_MAGIC
      else
       (let t1 = (if ut_parser_len t \<ge> PICO_UART_PARSER_CAPACITY then
                    (latch_fault (t\<lparr>ut_stats := (ut_stats t)\<lparr>
                        invalid_frames := invalid_frames (ut_stats t) + 1,
                        bad_length := bad_length (ut_stats t) + 1\<rparr>\<rparr>))\<lparr>ut_parser_len := 0\<rparr>
                  else t);
            t2 = t1\<lparr>ut_parser := (ut_parser t1)[ut_parser_len t1 := byte],
                    ut_parser_len := ut_parser_len t1 + 1\<rparr>
        in if ut_parser_len t2 = 2 \<and> ut_parser t2 ! 1 \<noteq> PICO_UART_PROTOCOL_VERSION then
             (note_decode_error t2 PICO_UART_DECODE_BAD_VERSION)\<lparr>ut_parser_len := 0\<rparr>
           else if ut_parser_len t2 < PICO_UART_PROTOCOL_HEADER_LEN then t2
           else
            (let payload_len = u16_le (ut_parser t2 ! 3) (ut_parser t2 ! 4) in
             if unat payload_len > PICO_UART_PROTOCOL_MAX_PAYLOAD then
               (note_decode_error t2 PICO_UART_DECODE_BAD_LENGTH)\<lparr>ut_parser_len := 0\<rparr>
             else
              (let expected = 7 + unat payload_len in
               if ut_parser_len t2 < expected then t2
               else
                (let (result, frame) = pico_uart_decode_frame (Some (ut_parser t2)) expected True;
                     t3 = (if result \<noteq> PICO_UART_DECODE_OK then note_decode_error t2 result
                           else enqueue_command t2 (the frame))
                 in t3\<lparr>ut_parser_len := 0\<rparr>)))))"

lemmas transport_step_defs = latch_fault_def note_decode_error_def enqueue_command_def

lemma rx_positions [simp]:
  "ut_rx_head (latch_fault t) = ut_rx_head t" "ut_rx_tail (latch_fault t) = ut_rx_tail t"
  "ut_rx_bytes (latch_fault t) = ut_rx_bytes t"
  "ut_rx_head (note_decode_error t r) = ut_rx_head t" "ut_rx_tail (note_decode_error t r) = ut_rx_tail t"
  "ut_rx_bytes (note_decode_error t r) = ut_rx_bytes t"
  "ut_rx_head (enqueue_command t f) = ut_rx_head t" "ut_rx_tail (enqueue_command t f) = ut_rx_tail t"
  "ut_rx_bytes (enqueue_command t f) = ut_rx_bytes t"
  by (simp_all add: transport_step_defs Let_def)

lemma poll_byte_rx [simp]:
  "ut_rx_head (poll_byte b t) = ut_rx_head t" "ut_rx_tail (poll_byte b t) = ut_rx_tail t"
  "ut_rx_bytes (poll_byte b t) = ut_rx_bytes t"
  by (simp_all add: poll_byte_def Let_def split: prod.split)

text \<open>
  The loop runs while the ring is not empty. Each iteration consumes a byte, so it ends after as
  many iterations as the ring holds bytes.
\<close>

definition poll_iteration :: "uart_transport \<Rightarrow> uart_transport" where
  "poll_iteration t = (let (byte, t') = rx_take t in poll_byte byte t')"

lemma poll_iteration_rx [simp]:
  "ut_rx_head (poll_iteration t) = ut_rx_head t" "ut_rx_tail (poll_iteration t) = ut_rx_tail t + 1"
  "ut_rx_bytes (poll_iteration t) = ut_rx_bytes t"
  by (simp_all add: poll_iteration_def rx_take_def)

function pico_uart_transport_poll :: "uart_transport \<Rightarrow> uart_transport" where
  "pico_uart_transport_poll t =
     (if ut_rx_tail t \<noteq> ut_rx_head t then pico_uart_transport_poll (poll_iteration t) else t)"
  by pat_completeness auto
termination
proof (relation "measure (\<lambda>t. ring_used (ut_rx_head t) (ut_rx_tail t))")
  fix t :: uart_transport assume "ut_rx_tail t \<noteq> ut_rx_head t"
  then show "(poll_iteration t, t) \<in> measure (\<lambda>t. ring_used (ut_rx_head t) (ut_rx_tail t))"
    using ring_used_pop [of "ut_rx_head t" "ut_rx_tail t"] ring_used_pos [of "ut_rx_head t" "ut_rx_tail t"]
    by auto
qed simp

declare pico_uart_transport_poll.simps [simp del]

definition pico_uart_transport_pop_command :: "uart_transport \<Rightarrow> uart_frame option \<times> uart_transport" where
  "pico_uart_transport_pop_command t =
     (if ut_command_tail t = ut_command_head t then (None, t)
      else (Some (ut_commands t ! (unat (ut_command_tail t) mod PICO_UART_COMMAND_CAPACITY)),
            t\<lparr>ut_command_tail := ut_command_tail t + 1\<rparr>))"

definition tx_put :: "u8 \<Rightarrow> uart_transport \<Rightarrow> uart_transport" where
  "tx_put b t = t\<lparr>ut_tx_bytes := (ut_tx_bytes t)[unat (ut_tx_head t) mod PICO_UART_TX_RING_CAPACITY := b],
     ut_tx_head := ut_tx_head t + 1\<rparr>"

definition pico_uart_transport_queue_frame ::
    "u8 \<Rightarrow> u8 list option \<Rightarrow> u16 \<Rightarrow> uart_transport \<Rightarrow> bool \<times> uart_transport" where
  "pico_uart_transport_queue_frame ty payload payload_len t =
     (case pico_uart_encode_frame ty payload payload_len True PICO_UART_PARSER_CAPACITY of
        None \<Rightarrow> (False, t\<lparr>ut_stats := (ut_stats t)\<lparr>tx_dropped := tx_dropped (ut_stats t) + 1\<rparr>\<rparr>)
      | Some encoded \<Rightarrow>
          if unat (ut_tx_head t - ut_tx_tail t) + length encoded > PICO_UART_TX_RING_CAPACITY then
            (False, t\<lparr>ut_stats := (ut_stats t)\<lparr>tx_dropped := tx_dropped (ut_stats t) + 1\<rparr>\<rparr>)
          else (True, fold tx_put encoded t))"

definition pico_uart_transport_pop_tx_byte :: "uart_transport \<Rightarrow> u8 option \<times> uart_transport" where
  "pico_uart_transport_pop_tx_byte t =
     (if ut_tx_tail t = ut_tx_head t then (None, t)
      else (Some (ut_tx_bytes t ! (unat (ut_tx_tail t) mod PICO_UART_TX_RING_CAPACITY)),
            t\<lparr>ut_tx_tail := ut_tx_tail t + 1\<rparr>))"

definition pico_uart_transport_take_fault :: "uart_transport \<Rightarrow> bool \<times> uart_transport" where
  "pico_uart_transport_take_fault t = (ut_fault_pending t, t\<lparr>ut_fault_pending := False\<rparr>)"

definition pico_uart_transport_get_stats :: "uart_transport option \<Rightarrow> transport_stats" where
  "pico_uart_transport_get_stats t = (case t of None \<Rightarrow> zero_stats | Some t \<Rightarrow> ut_stats t)"

subsection \<open>The functions with their pointer guards\<close>

definition pico_uart_transport_init_ptr :: "uart_transport option \<Rightarrow> uart_transport option" where
  "pico_uart_transport_init_ptr p = snd (on_ptr () (\<lambda>_. ((), pico_uart_transport_init)) p)"

definition pico_uart_transport_rx_push_isr_ptr :: "u8 \<Rightarrow> uart_transport option \<Rightarrow> uart_transport option" where
  "pico_uart_transport_rx_push_isr_ptr byte p =
     snd (on_ptr () (\<lambda>t. ((), pico_uart_transport_rx_push_isr byte t)) p)"

definition pico_uart_transport_hardware_error_isr_ptr :: "uart_transport option \<Rightarrow> uart_transport option" where
  "pico_uart_transport_hardware_error_isr_ptr p =
     snd (on_ptr () (\<lambda>t. ((), pico_uart_transport_hardware_error_isr t)) p)"

definition pico_uart_transport_poll_ptr :: "uart_transport option \<Rightarrow> uart_transport option" where
  "pico_uart_transport_poll_ptr p = snd (on_ptr () (\<lambda>t. ((), pico_uart_transport_poll t)) p)"

definition pico_uart_transport_pop_command_ptr ::
    "bool \<Rightarrow> uart_transport option \<Rightarrow> uart_frame option \<times> uart_transport option" where
  "pico_uart_transport_pop_command_ptr has_out p =
     (if \<not> has_out then (None, p) else on_ptr None pico_uart_transport_pop_command p)"

definition pico_uart_transport_queue_frame_ptr ::
    "u8 \<Rightarrow> u8 list option \<Rightarrow> u16 \<Rightarrow> uart_transport option \<Rightarrow> bool \<times> uart_transport option" where
  "pico_uart_transport_queue_frame_ptr ty payload payload_len =
     on_ptr False (pico_uart_transport_queue_frame ty payload payload_len)"

definition pico_uart_transport_pop_tx_byte_ptr ::
    "bool \<Rightarrow> uart_transport option \<Rightarrow> u8 option \<times> uart_transport option" where
  "pico_uart_transport_pop_tx_byte_ptr has_out p =
     (if \<not> has_out then (None, p) else on_ptr None pico_uart_transport_pop_tx_byte p)"

definition pico_uart_transport_take_fault_ptr :: "uart_transport option \<Rightarrow> bool \<times> uart_transport option" where
  "pico_uart_transport_take_fault_ptr = on_ptr False pico_uart_transport_take_fault"

section \<open>Views and invariant\<close>

definition rx_view :: "uart_transport \<Rightarrow> u8 list" where
  "rx_view t = ring_view (ut_rx_bytes t) (unat (ut_rx_tail t)) (ring_used (ut_rx_head t) (ut_rx_tail t))"

definition cmd_view :: "uart_transport \<Rightarrow> uart_frame list" where
  "cmd_view t = ring_view (ut_commands t) (unat (ut_command_tail t))
     (ring_used (ut_command_head t) (ut_command_tail t))"

definition tx_view :: "uart_transport \<Rightarrow> u8 list" where
  "tx_view t = ring_view (ut_tx_bytes t) (unat (ut_tx_tail t)) (ring_used (ut_tx_head t) (ut_tx_tail t))"

definition parser_prefix :: "uart_transport \<Rightarrow> u8 list" where
  "parser_prefix t = take (ut_parser_len t) (ut_parser t)"

text \<open>
  Bytes that can be the beginning of a frame: they carry the magic, the version and a length of at
  most 64 as far as they reach, and the frame is not complete.
\<close>

definition prefix_ok :: "u8 list \<Rightarrow> bool" where
  "prefix_ok p \<longleftrightarrow> (p \<noteq> [] \<longrightarrow> p ! 0 = 0xA5) \<and> (2 \<le> length p \<longrightarrow> p ! 1 = 2)
     \<and> (5 \<le> length p \<longrightarrow> unat (u16_le (p ! 3) (p ! 4)) \<le> 64
         \<and> length p < 7 + unat (u16_le (p ! 3) (p ! 4)))"

definition command_ok :: "uart_frame \<Rightarrow> bool" where
  "command_ok f \<longleftrightarrow> fr_version f = 2 \<and> pico_uart_type_is_command (fr_type f)
     \<and> pico_uart_frame_payload_valid (Some f)
     \<and> fr_payload_len f = of_nat (length (fr_payload f)) \<and> length (fr_payload f) \<le> 64"

definition rx_inv :: "uart_transport \<Rightarrow> bool" where
  "rx_inv t \<longleftrightarrow> length (ut_rx_bytes t) = PICO_UART_RX_RING_CAPACITY
     \<and> ring_used (ut_rx_head t) (ut_rx_tail t) \<le> PICO_UART_RX_RING_CAPACITY"

definition cmd_inv :: "uart_transport \<Rightarrow> bool" where
  "cmd_inv t \<longleftrightarrow> length (ut_commands t) = PICO_UART_COMMAND_CAPACITY
     \<and> ring_used (ut_command_head t) (ut_command_tail t) \<le> PICO_UART_COMMAND_CAPACITY
     \<and> (\<forall>f \<in> set (cmd_view t). command_ok f)"

definition tx_inv :: "uart_transport \<Rightarrow> bool" where
  "tx_inv t \<longleftrightarrow> length (ut_tx_bytes t) = PICO_UART_TX_RING_CAPACITY
     \<and> ring_used (ut_tx_head t) (ut_tx_tail t) \<le> PICO_UART_TX_RING_CAPACITY"

definition parser_inv :: "uart_transport \<Rightarrow> bool" where
  "parser_inv t \<longleftrightarrow> length (ut_parser t) = PICO_UART_PARSER_CAPACITY
     \<and> ut_parser_len t < PICO_UART_PARSER_CAPACITY \<and> prefix_ok (parser_prefix t)"

definition ut_inv :: "uart_transport \<Rightarrow> bool" where
  "ut_inv t \<longleftrightarrow> rx_inv t \<and> cmd_inv t \<and> tx_inv t \<and> parser_inv t"

lemma ut_init_inv [simp]: "ut_inv pico_uart_transport_init"
  by (simp add: ut_inv_def rx_inv_def cmd_inv_def tx_inv_def parser_inv_def cmd_view_def parser_prefix_def
      prefix_ok_def pico_uart_transport_init_def)

lemma view_frame [simp]:
  "rx_view (t\<lparr>ut_stats := s\<rparr>) = rx_view t" "cmd_view (t\<lparr>ut_stats := s\<rparr>) = cmd_view t"
  "tx_view (t\<lparr>ut_stats := s\<rparr>) = tx_view t" "parser_prefix (t\<lparr>ut_stats := s\<rparr>) = parser_prefix t"
  "rx_view (t\<lparr>ut_fault_pending := b\<rparr>) = rx_view t" "cmd_view (t\<lparr>ut_fault_pending := b\<rparr>) = cmd_view t"
  "tx_view (t\<lparr>ut_fault_pending := b\<rparr>) = tx_view t"
  "parser_prefix (t\<lparr>ut_fault_pending := b\<rparr>) = parser_prefix t"
  by (simp_all add: rx_view_def cmd_view_def tx_view_def parser_prefix_def)

lemma ut_inv_frame [simp]:
  "ut_inv (t\<lparr>ut_stats := s\<rparr>) = ut_inv t" "ut_inv (t\<lparr>ut_fault_pending := b\<rparr>) = ut_inv t"
  "ut_inv (latch_fault t) = ut_inv t"
  by (simp_all add: ut_inv_def rx_inv_def cmd_inv_def tx_inv_def parser_inv_def latch_fault_def)

section \<open>The receive ring\<close>

definition rx_push :: "u8 \<Rightarrow> uart_transport \<Rightarrow> bool \<times> uart_transport" where
  "rx_push b t = (unat (ut_rx_head t - ut_rx_tail t) < PICO_UART_RX_RING_CAPACITY,
     pico_uart_transport_rx_push_isr b t)"

definition rx_pop :: "uart_transport \<Rightarrow> u8 option \<times> uart_transport" where
  "rx_pop t = (if ut_rx_tail t \<noteq> ut_rx_head t then map_prod Some id (rx_take t) else (None, t))"

lemma rx_push_view:
  assumes "rx_inv t" "ring_used (ut_rx_head t) (ut_rx_tail t) < 512"
  shows "rx_view (pico_uart_transport_rx_push_isr b t) = rx_view t @ [b]"
    "ring_used (ut_rx_head (pico_uart_transport_rx_push_isr b t)) (ut_rx_tail (pico_uart_transport_rx_push_isr b t))
      = Suc (ring_used (ut_rx_head t) (ut_rx_tail t))"
proof -
  have s: "ring_used (ut_rx_head t + 1) (ut_rx_tail t) = Suc (ring_used (ut_rx_head t) (ut_rx_tail t))"
    using assms by (intro ring_used_push) simp
  then show "ring_used (ut_rx_head (pico_uart_transport_rx_push_isr b t))
      (ut_rx_tail (pico_uart_transport_rx_push_isr b t)) = Suc (ring_used (ut_rx_head t) (ut_rx_tail t))"
    using assms by (simp add: pico_uart_transport_rx_push_isr_def Let_def ring_used_def)
  show "rx_view (pico_uart_transport_rx_push_isr b t) = rx_view t @ [b]"
    using assms s ring_view_word_push [of "ut_rx_bytes t" "ut_rx_head t" "ut_rx_tail t" b]
    by (simp add: rx_view_def pico_uart_transport_rx_push_isr_def Let_def ring_used_def rx_inv_def)
qed

lemma rx_push_full:
  assumes "\<not> ring_used (ut_rx_head t) (ut_rx_tail t) < 512"
  shows "pico_uart_transport_rx_push_isr b t =
    latch_fault (t\<lparr>ut_stats := (ut_stats t)\<lparr>rx_overflow := rx_overflow (ut_stats t) + 1\<rparr>\<rparr>)"
  using assms by (simp add: pico_uart_transport_rx_push_isr_def Let_def ring_used_def)

lemma rx_push_isr_inv:
  assumes "ut_inv t"
  shows "ut_inv (pico_uart_transport_rx_push_isr b t)"
proof (cases "ring_used (ut_rx_head t) (ut_rx_tail t) < 512")
  case True
  with assms rx_push_view [of t b] show ?thesis
    by (simp add: ut_inv_def rx_inv_def cmd_inv_def tx_inv_def parser_inv_def cmd_view_def parser_prefix_def
        pico_uart_transport_rx_push_isr_def Let_def ring_used_def)
next
  case False
  with assms show ?thesis by (simp add: rx_push_full)
qed

lemma rx_view_take:
  assumes "rx_inv t" "ut_rx_tail t \<noteq> ut_rx_head t"
  shows "rx_view t = fst (rx_take t) # rx_view (snd (rx_take t))" "rx_inv (snd (rx_take t))"
proof -
  have pos: "0 < ring_used (ut_rx_head t) (ut_rx_tail t)" using assms by (intro ring_used_pos) simp
  have pop: "ring_used (ut_rx_head t) (ut_rx_tail t + 1) = ring_used (ut_rx_head t) (ut_rx_tail t) - 1"
    using assms by (intro ring_used_pop) simp
  then obtain n where n: "ring_used (ut_rx_head t) (ut_rx_tail t) = Suc n"
    using pos by (cases "ring_used (ut_rx_head t) (ut_rx_tail t)") auto
  show "rx_view t = fst (rx_take t) # rx_view (snd (rx_take t))"
    using assms pop n ring_view_word_pop [of "ut_rx_bytes t" "ut_rx_tail t" n]
    by (simp add: rx_view_def rx_take_def rx_inv_def)
  show "rx_inv (snd (rx_take t))" using assms pop by (auto simp: rx_inv_def rx_take_def)
qed

lemma rx_view_Nil: "rx_view t = [] \<longleftrightarrow> ut_rx_tail t = ut_rx_head t"
  by (auto simp: rx_view_def)

lemma rx_take_frame [simp]:
  "cmd_view (snd (rx_take t)) = cmd_view t" "tx_view (snd (rx_take t)) = tx_view t"
  "parser_prefix (snd (rx_take t)) = parser_prefix t"
  "cmd_inv (snd (rx_take t)) = cmd_inv t" "tx_inv (snd (rx_take t)) = tx_inv t"
  "parser_inv (snd (rx_take t)) = parser_inv t"
  by (simp_all add: rx_take_def cmd_view_def tx_view_def parser_prefix_def cmd_inv_def tx_inv_def
      parser_inv_def)

interpretation rxf: bounded_fifo ut_inv "\<lambda>_. True" rx_view PICO_UART_RX_RING_CAPACITY rx_push rx_pop
proof
  fix t :: uart_transport and x
  assume inv: "ut_inv t"
  then have rx: "rx_inv t" by (simp add: ut_inv_def)
  show "length (rx_view t) \<le> PICO_UART_RX_RING_CAPACITY" using rx by (simp add: rx_view_def rx_inv_def)
  show "ut_inv (snd (rx_push x t))" using inv by (simp add: rx_push_def rx_push_isr_inv)
  show "ut_inv (snd (rx_pop t))" using inv rx rx_view_take [of t] by (auto simp: rx_pop_def ut_inv_def)
  show "map_prod id rx_view (rx_push x t) = list_push PICO_UART_RX_RING_CAPACITY x (rx_view t)"
    using rx rx_push_view [OF rx, of x] rx_push_full [of t x]
    by (auto simp: rx_push_def list_push_def ring_used_def rx_view_def latch_fault_def)
  show "map_prod id rx_view (rx_pop t) = list_pop (rx_view t)"
    using rx_view_take [OF rx] rx_view_Nil [of t]
    by (cases "ut_rx_tail t = ut_rx_head t") (auto simp: rx_pop_def map_prod_def split_beta)
qed

section \<open>The command ring\<close>

text \<open>
  \<open>frame_ok\<close> is what the decoder guarantees of a frame; \<open>command_ok\<close> adds what
  \<open>enqueue_command\<close> tests.
\<close>

definition frame_ok :: "uart_frame \<Rightarrow> bool" where
  "frame_ok f \<longleftrightarrow> fr_version f = 2 \<and> fr_payload_len f = of_nat (length (fr_payload f))
     \<and> length (fr_payload f) \<le> 64"

lemma command_ok_iff:
  "command_ok f \<longleftrightarrow> frame_ok f \<and> pico_uart_type_is_command (fr_type f)
     \<and> pico_uart_frame_payload_valid (Some f)"
  by (auto simp: command_ok_def frame_ok_def)

definition cmd_push :: "uart_frame \<Rightarrow> uart_transport \<Rightarrow> bool \<times> uart_transport" where
  "cmd_push f t = (unat (ut_command_head t - ut_command_tail t) < PICO_UART_COMMAND_CAPACITY,
     enqueue_command t f)"

lemma enqueue_command_push:
  assumes "cmd_inv t" "command_ok f" "ring_used (ut_command_head t) (ut_command_tail t) < 8"
  shows "cmd_view (enqueue_command t f) = cmd_view t @ [f]" "cmd_inv (enqueue_command t f)"
    "ut_fault_pending (enqueue_command t f) = ut_fault_pending t" "ut_stats (enqueue_command t f) = ut_stats t"
proof -
  have s: "ring_used (ut_command_head t + 1) (ut_command_tail t)
      = Suc (ring_used (ut_command_head t) (ut_command_tail t))"
    using assms by (intro ring_used_push) simp
  have eq: "enqueue_command t f = t\<lparr>ut_commands := (ut_commands t)[unat (ut_command_head t) mod 8 := f],
      ut_command_head := ut_command_head t + 1\<rparr>"
    using assms by (simp add: enqueue_command_def command_ok_def ring_used_def)
  show view: "cmd_view (enqueue_command t f) = cmd_view t @ [f]"
    using assms s ring_view_word_push [of "ut_commands t" "ut_command_head t" "ut_command_tail t" f]
    by (simp add: cmd_view_def cmd_inv_def eq)
  show "cmd_inv (enqueue_command t f)"
    using assms s view unfolding cmd_inv_def by (simp add: eq)
  show "ut_fault_pending (enqueue_command t f) = ut_fault_pending t"
    "ut_stats (enqueue_command t f) = ut_stats t"
    by (simp_all add: eq)
qed

lemma enqueue_command_refused:
  assumes "\<not> (pico_uart_type_is_command (fr_type f) \<and> pico_uart_frame_payload_valid (Some f)
     \<and> ring_used (ut_command_head t) (ut_command_tail t) < 8)"
  shows "\<exists>s. enqueue_command t f = latch_fault (t\<lparr>ut_stats := s\<rparr>)"
  using assms by (auto simp: enqueue_command_def ring_used_def Let_def)

lemma enqueue_command_inv:
  assumes "cmd_inv t" "frame_ok f"
  shows "cmd_inv (enqueue_command t f)"
proof (cases "command_ok f \<and> ring_used (ut_command_head t) (ut_command_tail t) < 8")
  case True
  with assms show ?thesis by (simp add: enqueue_command_push)
next
  case False
  then obtain s where "enqueue_command t f = latch_fault (t\<lparr>ut_stats := s\<rparr>)"
    using assms enqueue_command_refused [of f t] by (auto simp: command_ok_iff)
  with assms show ?thesis by (simp add: cmd_inv_def latch_fault_def)
qed

lemma transport_frames [simp]:
  "tx_inv (note_decode_error t r) = tx_inv t" "tx_inv (enqueue_command t f) = tx_inv t"
  "tx_inv (latch_fault t) = tx_inv t"
  "tx_view (note_decode_error t r) = tx_view t" "tx_view (enqueue_command t f) = tx_view t"
  "cmd_inv (note_decode_error t r) = cmd_inv t" "cmd_view (note_decode_error t r) = cmd_view t"
  "cmd_inv (latch_fault t) = cmd_inv t" "cmd_view (latch_fault t) = cmd_view t"
  "rx_inv (note_decode_error t r) = rx_inv t" "rx_inv (enqueue_command t f) = rx_inv t"
  "rx_view (note_decode_error t r) = rx_view t" "rx_view (enqueue_command t f) = rx_view t"
  "parser_prefix (note_decode_error t r) = parser_prefix t"
  "parser_prefix (enqueue_command t f) = parser_prefix t"
  "ut_parser (note_decode_error t r) = ut_parser t" "ut_parser (enqueue_command t f) = ut_parser t"
  "ut_parser_len (note_decode_error t r) = ut_parser_len t"
  "ut_parser_len (enqueue_command t f) = ut_parser_len t"
  "parser_inv (note_decode_error t r) = parser_inv t" "parser_inv (enqueue_command t f) = parser_inv t"
  by (simp_all add: transport_step_defs Let_def rx_inv_def cmd_inv_def tx_inv_def parser_inv_def
      rx_view_def cmd_view_def tx_view_def parser_prefix_def)

lemma parser_update_frames [simp]:
  "rx_inv (t\<lparr>ut_parser := p, ut_parser_len := n\<rparr>) = rx_inv t"
  "cmd_inv (t\<lparr>ut_parser := p, ut_parser_len := n\<rparr>) = cmd_inv t"
  "tx_inv (t\<lparr>ut_parser := p, ut_parser_len := n\<rparr>) = tx_inv t"
  "rx_inv (t\<lparr>ut_parser_len := n\<rparr>) = rx_inv t" "cmd_inv (t\<lparr>ut_parser_len := n\<rparr>) = cmd_inv t"
  "tx_inv (t\<lparr>ut_parser_len := n\<rparr>) = tx_inv t"
  "rx_view (t\<lparr>ut_parser := p, ut_parser_len := n\<rparr>) = rx_view t"
  "cmd_view (t\<lparr>ut_parser := p, ut_parser_len := n\<rparr>) = cmd_view t"
  "tx_view (t\<lparr>ut_parser := p, ut_parser_len := n\<rparr>) = tx_view t"
  "rx_view (t\<lparr>ut_parser_len := n\<rparr>) = rx_view t" "cmd_view (t\<lparr>ut_parser_len := n\<rparr>) = cmd_view t"
  "tx_view (t\<lparr>ut_parser_len := n\<rparr>) = tx_view t"
  by (simp_all add: rx_inv_def cmd_inv_def tx_inv_def rx_view_def cmd_view_def tx_view_def)

lemma pop_command_Some:
  assumes "cmd_inv t" "ut_command_tail t \<noteq> ut_command_head t"
  shows "cmd_view t = the (fst (pico_uart_transport_pop_command t)) # cmd_view (snd (pico_uart_transport_pop_command t))"
    "cmd_inv (snd (pico_uart_transport_pop_command t))"
proof -
  have pos: "0 < ring_used (ut_command_head t) (ut_command_tail t)" using assms by (intro ring_used_pos) simp
  have pop: "ring_used (ut_command_head t) (ut_command_tail t + 1)
      = ring_used (ut_command_head t) (ut_command_tail t) - 1"
    using assms by (intro ring_used_pop) simp
  then obtain n where n: "ring_used (ut_command_head t) (ut_command_tail t) = Suc n"
    using pos by (cases "ring_used (ut_command_head t) (ut_command_tail t)") auto
  show view: "cmd_view t = the (fst (pico_uart_transport_pop_command t))
      # cmd_view (snd (pico_uart_transport_pop_command t))"
    using assms pop n ring_view_word_pop [of "ut_commands t" "ut_command_tail t" n]
    by (simp add: cmd_view_def pico_uart_transport_pop_command_def cmd_inv_def)
  have "set (cmd_view (snd (pico_uart_transport_pop_command t))) \<subseteq> set (cmd_view t)"
    by (subst view) auto
  moreover have "length (ut_commands (snd (pico_uart_transport_pop_command t))) = 8"
    "ring_used (ut_command_head (snd (pico_uart_transport_pop_command t)))
      (ut_command_tail (snd (pico_uart_transport_pop_command t))) \<le> 8"
    using assms pop by (auto simp: cmd_inv_def pico_uart_transport_pop_command_def)
  ultimately show "cmd_inv (snd (pico_uart_transport_pop_command t))"
    using assms(1) unfolding cmd_inv_def by auto
qed

lemma pop_command_frames [simp]:
  "rx_inv (snd (pico_uart_transport_pop_command t)) = rx_inv t"
  "tx_inv (snd (pico_uart_transport_pop_command t)) = tx_inv t"
  "parser_inv (snd (pico_uart_transport_pop_command t)) = parser_inv t"
  by (simp_all add: pico_uart_transport_pop_command_def rx_inv_def tx_inv_def parser_inv_def parser_prefix_def)

lemma cmd_view_Nil: "cmd_view t = [] \<longleftrightarrow> ut_command_tail t = ut_command_head t"
  by (auto simp: cmd_view_def)

lemma pop_command_inv:
  assumes "ut_inv t"
  shows "ut_inv (snd (pico_uart_transport_pop_command t))"
proof (cases "ut_command_tail t = ut_command_head t")
  case True
  with assms show ?thesis by (simp add: pico_uart_transport_pop_command_def)
next
  case False
  with assms pop_command_Some [of t] show ?thesis by (simp add: ut_inv_def)
qed

interpretation cmdf: bounded_fifo ut_inv command_ok cmd_view PICO_UART_COMMAND_CAPACITY
    cmd_push pico_uart_transport_pop_command
proof
  fix t :: uart_transport and x
  assume inv: "ut_inv t"
  then have c: "cmd_inv t" by (simp add: ut_inv_def)
  show "length (cmd_view t) \<le> PICO_UART_COMMAND_CAPACITY" using c by (simp add: cmd_view_def cmd_inv_def)
  show "ut_inv (snd (pico_uart_transport_pop_command t))" using inv by (rule pop_command_inv)
  show "map_prod id cmd_view (pico_uart_transport_pop_command t) = list_pop (cmd_view t)"
  proof (cases "ut_command_tail t = ut_command_head t")
    case True
    then have "cmd_view t = []" by (simp add: cmd_view_Nil)
    with True show ?thesis by (simp add: pico_uart_transport_pop_command_def)
  next
    case False
    with pop_command_Some(1) [OF c] have "list_pop (cmd_view t)
        = (Some (the (fst (pico_uart_transport_pop_command t))), cmd_view (snd (pico_uart_transport_pop_command t)))"
      by (metis list_pop.simps(2))
    with False show ?thesis by (simp add: pico_uart_transport_pop_command_def)
  qed
next
  fix t :: uart_transport and x
  assume inv: "ut_inv t" and ok: "command_ok x"
  then have c: "cmd_inv t" by (simp add: ut_inv_def)
  from inv ok show "ut_inv (snd (cmd_push x t))"
    by (simp add: cmd_push_def ut_inv_def enqueue_command_inv command_ok_iff)
  show "map_prod id cmd_view (cmd_push x t) = list_push PICO_UART_COMMAND_CAPACITY x (cmd_view t)"
  proof (cases "ring_used (ut_command_head t) (ut_command_tail t) < 8")
    case True
    with enqueue_command_push(1) [OF c ok] show ?thesis
      by (simp add: cmd_push_def list_push_def cmd_view_def ring_used_def)
  next
    case False
    with enqueue_command_refused [of x t] obtain s
      where "enqueue_command t x = latch_fault (t\<lparr>ut_stats := s\<rparr>)" by auto
    with False show ?thesis
      by (simp add: cmd_push_def list_push_def cmd_view_def ring_used_def latch_fault_def)
  qed
qed

section \<open>The transmit ring\<close>

text \<open>
  A queued frame changes only the transmit bytes and their head; \<open>tx_only\<close> collects what it leaves
  alone.
\<close>

definition tx_core :: "uart_transport \<Rightarrow> uart_transport" where
  "tx_core t = t\<lparr>ut_tx_bytes := [], ut_tx_head := 0\<rparr>"

definition tx_only :: "uart_transport \<Rightarrow> uart_transport \<Rightarrow> bool" where
  "tx_only t t' \<longleftrightarrow> tx_core t' = tx_core t"

lemma tx_only_refl [simp]: "tx_only t t"
  by (simp add: tx_only_def)

lemma tx_only_trans: "tx_only t u \<Longrightarrow> tx_only u v \<Longrightarrow> tx_only t v"
  by (simp add: tx_only_def)

lemma tx_only_fields:
  assumes "tx_only t t'"
  shows "rx_inv t' = rx_inv t" "cmd_inv t' = cmd_inv t" "parser_inv t' = parser_inv t"
    "rx_view t' = rx_view t" "cmd_view t' = cmd_view t" "parser_prefix t' = parser_prefix t"
    "ut_fault_pending t' = ut_fault_pending t" "ut_stats t' = ut_stats t" "ut_tx_tail t' = ut_tx_tail t"
    "ut_rx_head t' = ut_rx_head t" "ut_rx_tail t' = ut_rx_tail t"
    "ut_command_head t' = ut_command_head t" "ut_command_tail t' = ut_command_tail t"
  using assms by (cases t; cases t'; simp add: tx_only_def tx_core_def rx_inv_def cmd_inv_def
      parser_inv_def rx_view_def cmd_view_def parser_prefix_def)+

lemma tx_put_view:
  assumes "tx_inv t" "ring_used (ut_tx_head t) (ut_tx_tail t) < 2048"
  shows "tx_view (tx_put b t) = tx_view t @ [b]" "tx_inv (tx_put b t)" "tx_only t (tx_put b t)"
    "ring_used (ut_tx_head (tx_put b t)) (ut_tx_tail (tx_put b t)) = Suc (ring_used (ut_tx_head t) (ut_tx_tail t))"
proof -
  have s: "ring_used (ut_tx_head t + 1) (ut_tx_tail t) = Suc (ring_used (ut_tx_head t) (ut_tx_tail t))"
    using assms by (intro ring_used_push) simp
  then show "ring_used (ut_tx_head (tx_put b t)) (ut_tx_tail (tx_put b t))
      = Suc (ring_used (ut_tx_head t) (ut_tx_tail t))"
    by (simp add: tx_put_def)
  show "tx_view (tx_put b t) = tx_view t @ [b]"
    using assms s ring_view_word_push [of "ut_tx_bytes t" "ut_tx_head t" "ut_tx_tail t" b]
    by (simp add: tx_view_def tx_put_def tx_inv_def)
  show "tx_inv (tx_put b t)" using assms s by (simp add: tx_inv_def tx_put_def)
  show "tx_only t (tx_put b t)" by (simp add: tx_only_def tx_core_def tx_put_def)
qed

lemma fold_tx_put:
  assumes "tx_inv t" "ring_used (ut_tx_head t) (ut_tx_tail t) + length bs \<le> 2048"
  shows "tx_view (fold tx_put bs t) = tx_view t @ bs \<and> tx_inv (fold tx_put bs t) \<and> tx_only t (fold tx_put bs t)"
  using assms
proof (induction bs arbitrary: t)
  case (Cons b bs)
  then have room: "ring_used (ut_tx_head t) (ut_tx_tail t) < 2048" by simp
  note put = tx_put_view [OF Cons.prems(1) room, of b]
  from Cons.IH [OF put(2)] Cons.prems(2) put show ?case
    by (auto intro: tx_only_trans)
qed simp

text \<open>
  The result of \<open>queue_frame\<close>: the whole frame is appended, or the call reports failure and only
  the drop counter changes.
\<close>

lemma queue_frame_cases:
  assumes "tx_inv t"
  obtains (queued) bs where
    "pico_uart_encode_frame ty payload plen True PICO_UART_PARSER_CAPACITY = Some bs"
    "fst (pico_uart_transport_queue_frame ty payload plen t)"
    "tx_view (snd (pico_uart_transport_queue_frame ty payload plen t)) = tx_view t @ bs"
    "tx_inv (snd (pico_uart_transport_queue_frame ty payload plen t))"
    "tx_only t (snd (pico_uart_transport_queue_frame ty payload plen t))"
  | (dropped) "\<not> fst (pico_uart_transport_queue_frame ty payload plen t)"
    "snd (pico_uart_transport_queue_frame ty payload plen t)
      = t\<lparr>ut_stats := (ut_stats t)\<lparr>tx_dropped := tx_dropped (ut_stats t) + 1\<rparr>\<rparr>"
proof (cases "pico_uart_encode_frame ty payload plen True PICO_UART_PARSER_CAPACITY")
  case None
  then show ?thesis by (intro dropped) (simp_all add: pico_uart_transport_queue_frame_def)
next
  case (Some bs)
  show ?thesis
  proof (cases "ring_used (ut_tx_head t) (ut_tx_tail t) + length bs \<le> 2048")
    case True
    with Some fold_tx_put [OF assms True] show ?thesis
      by (intro queued [OF Some]) (simp_all add: pico_uart_transport_queue_frame_def ring_used_def)
  next
    case False
    with Some show ?thesis
      by (intro dropped) (simp_all add: pico_uart_transport_queue_frame_def ring_used_def)
  qed
qed

lemma queue_frame_frames [simp]:
  assumes "tx_inv t"
  shows "rx_inv (snd (pico_uart_transport_queue_frame ty payload plen t)) = rx_inv t
    \<and> cmd_inv (snd (pico_uart_transport_queue_frame ty payload plen t)) = cmd_inv t
    \<and> parser_inv (snd (pico_uart_transport_queue_frame ty payload plen t)) = parser_inv t
    \<and> rx_view (snd (pico_uart_transport_queue_frame ty payload plen t)) = rx_view t
    \<and> cmd_view (snd (pico_uart_transport_queue_frame ty payload plen t)) = cmd_view t
    \<and> parser_prefix (snd (pico_uart_transport_queue_frame ty payload plen t)) = parser_prefix t
    \<and> ut_fault_pending (snd (pico_uart_transport_queue_frame ty payload plen t)) = ut_fault_pending t
    \<and> ut_command_head (snd (pico_uart_transport_queue_frame ty payload plen t)) = ut_command_head t
    \<and> ut_command_tail (snd (pico_uart_transport_queue_frame ty payload plen t)) = ut_command_tail t
    \<and> tx_inv (snd (pico_uart_transport_queue_frame ty payload plen t))"
  using assms
proof (cases rule: queue_frame_cases [where ty = ty and payload = payload and plen = plen])
  case (queued bs)
  then show ?thesis by (simp add: tx_only_fields)
next
  case dropped
  have "rx_inv (t\<lparr>ut_stats := s\<rparr>) = rx_inv t" "cmd_inv (t\<lparr>ut_stats := s\<rparr>) = cmd_inv t"
    "parser_inv (t\<lparr>ut_stats := s\<rparr>) = parser_inv t" "tx_inv (t\<lparr>ut_stats := s\<rparr>) = tx_inv t" for s
    by (simp_all add: rx_inv_def cmd_inv_def parser_inv_def tx_inv_def)
  with assms show ?thesis unfolding dropped by simp
qed

lemma queue_frame_inv [simp]:
  assumes "ut_inv t"
  shows "ut_inv (snd (pico_uart_transport_queue_frame ty payload plen t))"
  using assms by (simp add: ut_inv_def)

lemma pop_tx_byte_Some:
  assumes "tx_inv t" "ut_tx_tail t \<noteq> ut_tx_head t"
  shows "tx_view t = the (fst (pico_uart_transport_pop_tx_byte t)) # tx_view (snd (pico_uart_transport_pop_tx_byte t))"
    "tx_inv (snd (pico_uart_transport_pop_tx_byte t))"
proof -
  have pos: "0 < ring_used (ut_tx_head t) (ut_tx_tail t)" using assms by (intro ring_used_pos) simp
  have pop: "ring_used (ut_tx_head t) (ut_tx_tail t + 1) = ring_used (ut_tx_head t) (ut_tx_tail t) - 1"
    using assms by (intro ring_used_pop) simp
  then obtain n where n: "ring_used (ut_tx_head t) (ut_tx_tail t) = Suc n"
    using pos by (cases "ring_used (ut_tx_head t) (ut_tx_tail t)") auto
  show "tx_view t = the (fst (pico_uart_transport_pop_tx_byte t))
      # tx_view (snd (pico_uart_transport_pop_tx_byte t))"
    using assms pop n ring_view_word_pop [of "ut_tx_bytes t" "ut_tx_tail t" n]
    by (simp add: tx_view_def pico_uart_transport_pop_tx_byte_def tx_inv_def)
  show "tx_inv (snd (pico_uart_transport_pop_tx_byte t))"
    using assms pop by (auto simp: tx_inv_def pico_uart_transport_pop_tx_byte_def)
qed

lemma pop_tx_byte_frames [simp]:
  "rx_inv (snd (pico_uart_transport_pop_tx_byte t)) = rx_inv t"
  "cmd_inv (snd (pico_uart_transport_pop_tx_byte t)) = cmd_inv t"
  "parser_inv (snd (pico_uart_transport_pop_tx_byte t)) = parser_inv t"
  "rx_view (snd (pico_uart_transport_pop_tx_byte t)) = rx_view t"
  "cmd_view (snd (pico_uart_transport_pop_tx_byte t)) = cmd_view t"
  by (simp_all add: pico_uart_transport_pop_tx_byte_def rx_inv_def cmd_inv_def parser_inv_def
      rx_view_def cmd_view_def parser_prefix_def)

lemma pop_tx_byte_inv:
  assumes "ut_inv t"
  shows "ut_inv (snd (pico_uart_transport_pop_tx_byte t))"
proof (cases "ut_tx_tail t = ut_tx_head t")
  case True
  with assms show ?thesis by (simp add: pico_uart_transport_pop_tx_byte_def)
next
  case False
  with assms pop_tx_byte_Some [of t] show ?thesis by (simp add: ut_inv_def)
qed

lemma take_fault_inv: "ut_inv t \<Longrightarrow> ut_inv (snd (pico_uart_transport_take_fault t))"
  by (simp add: pico_uart_transport_take_fault_def)

end
