(* ===== verification/Uart_Parser.thy ===== *)
theory Uart_Parser
  imports Uart_Transport
begin

text \<open>
  What the receive side of \<open>pico/src/uart_transport.c\<close> computes: a parser on byte lists without
  arrays or ring positions, the refinement of \<open>poll\<close> to it, and its behaviour on the wire format.
  The refinement also covers interrupts that deliver bytes between iterations of the loop.
\<close>

section \<open>The parser on byte lists\<close>

text \<open>
  The state is the beginning of a frame received so far; a byte is awaited, completes a frame that
  is accepted, or is rejected with a reason, and rejection and acceptance start over.
\<close>

datatype parse_outcome = Wait | Reject pico_uart_decode_result | Accept uart_frame

definition feed :: "u8 list \<Rightarrow> u8 \<Rightarrow> u8 list \<times> parse_outcome" where
  "feed acc b =
     (if acc = [] \<and> b \<noteq> 0xA5 then ([], Reject PICO_UART_DECODE_BAD_MAGIC)
      else
       (let p = acc @ [b] in
        if length p = 2 \<and> p ! 1 \<noteq> 2 then ([], Reject PICO_UART_DECODE_BAD_VERSION)
        else if length p < 5 then (p, Wait)
        else if unat (u16_le (p ! 3) (p ! 4)) > 64 then ([], Reject PICO_UART_DECODE_BAD_LENGTH)
        else if length p < 7 + unat (u16_le (p ! 3) (p ! 4)) then (p, Wait)
        else (case pico_uart_decode_frame (Some p) (length p) True of
                (r, None) \<Rightarrow> ([], Reject r)
              | (r, Some f) \<Rightarrow> ([], Accept f))))"

fun apply_outcome :: "parse_outcome \<Rightarrow> uart_transport \<Rightarrow> uart_transport" where
  "apply_outcome Wait t = t"
| "apply_outcome (Reject r) t = note_decode_error t r"
| "apply_outcome (Accept f) t = enqueue_command t f"

fun parse :: "u8 list \<Rightarrow> u8 list \<Rightarrow> u8 list \<times> parse_outcome list" where
  "parse acc [] = (acc, [])"
| "parse acc (b # bs) =
     (let (acc', out) = feed acc b; (acc'', outs) = parse acc' bs in (acc'', out # outs))"

lemma parse_append:
  "parse acc (xs @ ys) =
     (fst (parse (fst (parse acc xs)) ys), snd (parse acc xs) @ snd (parse (fst (parse acc xs)) ys))"
  by (induction xs arbitrary: acc) (simp_all add: Let_def split_beta)

lemma decode_prefix:
  assumes "7 + n = len" "len \<le> length d" "n = unat (u16_le (d ! 3) (d ! 4))"
  shows "pico_uart_decode_frame (Some d) len True = pico_uart_decode_frame (Some (take len d)) len True"
  using assms by (simp add: pico_uart_decode_frame_def pico_uart_crc16_def Let_def min_def drop_take)

lemma decode_None_iff:
  "pico_uart_decode_frame (Some d) len True = (r, None) \<Longrightarrow> r \<noteq> PICO_UART_DECODE_OK"
  "pico_uart_decode_frame (Some d) len True = (r, Some f) \<Longrightarrow> r = PICO_UART_DECODE_OK"
  by (auto simp: pico_uart_decode_frame_def Let_def split: if_splits)

lemma feed_prefix_ok:
  assumes "prefix_ok acc"
  shows "prefix_ok (fst (feed acc b))"
proof (cases "fst (feed acc b) = []")
  case True
  then show ?thesis by (simp add: prefix_ok_def)
next
  case False
  let ?p = "acc @ [b]"
  have p: "fst (feed acc b) = ?p" and magic: "acc = [] \<longrightarrow> b = 0xA5"
    and version: "length ?p = 2 \<longrightarrow> ?p ! 1 = 2"
    and len: "5 \<le> length ?p \<longrightarrow> unat (u16_le (?p ! 3) (?p ! 4)) \<le> 64
      \<and> length ?p < 7 + unat (u16_le (?p ! 3) (?p ! 4))"
    using False by (auto simp: feed_def Let_def split: if_splits prod.splits option.splits)
  have "?p ! 0 = 0xA5" using assms magic by (cases acc) (auto simp: prefix_ok_def)
  moreover have "2 \<le> length ?p \<longrightarrow> ?p ! 1 = 2"
    using assms version by (cases "2 \<le> length acc") (auto simp: prefix_ok_def nth_append)
  ultimately show ?thesis unfolding p using len by (simp add: prefix_ok_def del: length_append)
qed

lemma prefix_ok_length: "prefix_ok p \<Longrightarrow> length p < 71"
  by (cases "5 \<le> length p") (auto simp: prefix_ok_def)

section \<open>One iteration refines one step of the parser\<close>

definition parser_core :: "uart_transport \<Rightarrow> uart_transport" where
  "parser_core t = t\<lparr>ut_parser := [], ut_parser_len := 0\<rparr>"

lemma parser_core_update [simp]:
  "parser_core (t\<lparr>ut_parser := p\<rparr>) = parser_core t" "parser_core (t\<lparr>ut_parser_len := n\<rparr>) = parser_core t"
  "parser_core (t\<lparr>ut_parser := p, ut_parser_len := n\<rparr>) = parser_core t"
  by (simp_all add: parser_core_def)

lemma parser_core_outcome [simp]:
  "parser_core (note_decode_error t r) = note_decode_error (parser_core t) r"
  "parser_core (enqueue_command t f) = enqueue_command (parser_core t) f"
  by (simp_all add: parser_core_def transport_step_defs Let_def)

lemma parser_core_apply [simp]:
  "parser_core (apply_outcome out t) = apply_outcome out (parser_core t)"
  by (cases out) simp_all

text \<open>The byte in the parser buffer, before anything is decided.\<close>

definition stored :: "u8 \<Rightarrow> uart_transport \<Rightarrow> uart_transport" where
  "stored b t = t\<lparr>ut_parser := (ut_parser t)[ut_parser_len t := b], ut_parser_len := ut_parser_len t + 1\<rparr>"

lemma stored_fields [simp]:
  "ut_parser_len (stored b t) = Suc (ut_parser_len t)" "parser_core (stored b t) = parser_core t"
  "length (ut_parser (stored b t)) = length (ut_parser t)"
  by (simp_all add: stored_def)

lemma stored_buffer:
  assumes "parser_inv t"
  shows "length (parser_prefix t) = ut_parser_len t" "length (ut_parser t) = 71" "ut_parser_len t < 71"
    "parser_prefix (stored b t) = parser_prefix t @ [b]"
    "take (Suc (ut_parser_len t)) (ut_parser (stored b t)) = parser_prefix t @ [b]"
    "k \<le> ut_parser_len t \<Longrightarrow> ut_parser (stored b t) ! k = (parser_prefix t @ [b]) ! k"
proof -
  show len: "length (ut_parser t) = 71" "ut_parser_len t < 71" using assms by (simp_all add: parser_inv_def)
  then show "length (parser_prefix t) = ut_parser_len t" by (simp add: parser_prefix_def)
  show tk: "take (Suc (ut_parser_len t)) (ut_parser (stored b t)) = parser_prefix t @ [b]"
    using len by (simp add: stored_def parser_prefix_def take_Suc_conv_app_nth take_update_cancel)
  then show "parser_prefix (stored b t) = parser_prefix t @ [b]" by (simp add: parser_prefix_def)
  show "ut_parser (stored b t) ! k = (parser_prefix t @ [b]) ! k" if "k \<le> ut_parser_len t"
    by (metis tk that less_Suc_eq_le nth_take)
qed

lemma stored_decode:
  fixes b t
  defines "p \<equiv> parser_prefix t @ [b]"
  assumes "parser_inv t" "4 \<le> ut_parser_len t" "7 + unat (u16_le (p ! 3) (p ! 4)) \<le> Suc (ut_parser_len t)"
  shows "Suc (ut_parser_len t) = 7 + unat (u16_le (p ! 3) (p ! 4))"
    "pico_uart_decode_frame (Some (ut_parser (stored b t))) (7 + unat (u16_le (p ! 3) (p ! 4))) True
      = pico_uart_decode_frame (Some p) (length p) True"
proof -
  note buf = stored_buffer [OF assms(2)]
  let ?l = "unat (u16_le (p ! 3) (p ! 4))"
  have ok: "prefix_ok (parser_prefix t)" using assms(2) by (simp add: parser_inv_def)
  show end_reached: "Suc (ut_parser_len t) = 7 + ?l"
  proof (cases "5 \<le> ut_parser_len t")
    case True
    with ok buf(1) have "ut_parser_len t < 7 + ?l" by (simp add: p_def prefix_ok_def nth_append)
    with assms(4) show ?thesis by simp
  qed (use assms(4) in simp)
  show "pico_uart_decode_frame (Some (ut_parser (stored b t))) (7 + ?l) True = pico_uart_decode_frame (Some p) (length p) True"
    using decode_prefix [of ?l "7 + ?l" "ut_parser (stored b t)"] assms(3) end_reached buf(1-3) buf(5) [of b] buf(6) [of 3 b] buf(6) [of 4 b]
    by (simp add: p_def)
qed

text \<open>What an iteration does with the byte is the outcome of the parser.\<close>

lemma poll_byte_stored:
  assumes "parser_inv t" "\<not> (ut_parser_len t = 0 \<and> b \<noteq> 0xA5)"
  shows "poll_byte b t =
    (if Suc (ut_parser_len t) = 2 \<and> ut_parser (stored b t) ! 1 \<noteq> 2 then
       (note_decode_error (stored b t) PICO_UART_DECODE_BAD_VERSION)\<lparr>ut_parser_len := 0\<rparr>
     else if Suc (ut_parser_len t) < 5 then stored b t
     else
      (let payload_len = unat (u16_le (ut_parser (stored b t) ! 3) (ut_parser (stored b t) ! 4)) in
       if payload_len > 64 then (note_decode_error (stored b t) PICO_UART_DECODE_BAD_LENGTH)\<lparr>ut_parser_len := 0\<rparr>
       else if Suc (ut_parser_len t) < 7 + payload_len then stored b t
       else
        (let (result, frame) = pico_uart_decode_frame (Some (ut_parser (stored b t))) (7 + payload_len) True
         in (if result \<noteq> PICO_UART_DECODE_OK then note_decode_error (stored b t) result
             else enqueue_command (stored b t) (the frame))\<lparr>ut_parser_len := 0\<rparr>)))"
proof -
  have cap: "\<not> PICO_UART_PARSER_CAPACITY \<le> ut_parser_len t" using assms(1) by (simp add: parser_inv_def)
  show ?thesis
    unfolding poll_byte_def stored_def Let_def if_not_P [OF assms(2)] if_not_P [OF cap]
    by (simp add: split_beta cong: if_cong split del: if_split)
qed

lemma poll_byte_outcome:
  assumes "parser_inv t" "\<not> (ut_parser_len t = 0 \<and> b \<noteq> 0xA5)"
  shows "(feed (parser_prefix t) b = (parser_prefix t @ [b], Wait) \<and> poll_byte b t = stored b t)
    \<or> (\<exists>out. feed (parser_prefix t) b = ([], out) \<and> poll_byte b t = (apply_outcome out (stored b t))\<lparr>ut_parser_len := 0\<rparr>)"
proof -
  let ?n = "ut_parser_len t" and ?p = "parser_prefix t @ [b]"
  let ?l = "unat (u16_le (?p ! 3) (?p ! 4))"
  note buf = stored_buffer(1-3) [OF assms(1)] and nth = stored_buffer(6) [OF assms(1), where b = b]
  have acc: "\<not> (parser_prefix t = [] \<and> b \<noteq> 0xA5)" "length ?p = Suc ?n" using assms(2) buf(1) by auto
  note code = poll_byte_stored [OF assms] Let_def
  consider (version) "?n = 1" "?p ! 1 \<noteq> 2"
    | (short) "\<not> (?n = 1 \<and> ?p ! 1 \<noteq> 2)" "?n < 4"
    | (length) "4 \<le> ?n" "64 < ?l"
    | (wait) "4 \<le> ?n" "?l \<le> 64" "Suc ?n < 7 + ?l"
    | (full) "4 \<le> ?n" "?l \<le> 64" "7 + ?l \<le> Suc ?n"
    by fastforce
  then show ?thesis
  proof cases
    case version
    with acc have "feed (parser_prefix t) b = ([], Reject PICO_UART_DECODE_BAD_VERSION)" by (simp add: feed_def Let_def)
    with version assms(2) buf nth [of 1] show ?thesis by (simp add: code)
  next
    case short
    with acc have "feed (parser_prefix t) b = (?p, Wait)" by (auto simp: feed_def Let_def)
    with short assms(2) buf nth [of 1] show ?thesis by (auto simp: code)
  next
    case length
    with acc have "feed (parser_prefix t) b = ([], Reject PICO_UART_DECODE_BAD_LENGTH)" by (simp add: feed_def Let_def)
    with length assms(2) buf nth [of 3] nth [of 4] show ?thesis by (simp add: code)
  next
    case wait
    with acc have "feed (parser_prefix t) b = (?p, Wait)" by (simp add: feed_def Let_def)
    with wait assms(2) buf nth [of 3] nth [of 4] show ?thesis by (simp add: code)
  next
    case full
    note dec = stored_decode [OF assms(1) full(1,3)]
    obtain r f where rf: "pico_uart_decode_frame (Some ?p) (length ?p) True = (r, f)" by fastforce
    have out: "feed (parser_prefix t) b = ([], case f of None \<Rightarrow> Reject r | Some x \<Rightarrow> Accept x)"
      using acc full dec(1) rf unfolding feed_def if_not_P [OF acc(1)] by (simp add: Let_def split: option.split)
    have "r \<noteq> PICO_UART_DECODE_OK \<longleftrightarrow> f = None" using rf decode_None_iff [of ?p "length ?p" r] by (cases f) auto
    with out full assms(2) buf nth [of 3] nth [of 4] dec rf show ?thesis by (cases f) (simp_all add: code)
  qed
qed

lemma poll_byte_refines:
  assumes "parser_inv t"
  shows "parser_inv (poll_byte b t)"
    and "parser_prefix (poll_byte b t) = fst (feed (parser_prefix t) b)"
    and "parser_core (poll_byte b t) = apply_outcome (snd (feed (parser_prefix t) b)) (parser_core t)"
proof -
  note buf = stored_buffer [OF assms] and ok = feed_prefix_ok [of "parser_prefix t" b]
  have pre: "prefix_ok (parser_prefix t)" using assms by (simp add: parser_inv_def)
  have reset: "parser_inv ((apply_outcome out (stored b t))\<lparr>ut_parser_len := 0\<rparr>)"
    "parser_prefix ((apply_outcome out (stored b t))\<lparr>ut_parser_len := 0\<rparr>) = []" for out
    using buf(2) by (cases out; simp add: parser_inv_def parser_prefix_def prefix_ok_def)+
  have "parser_inv (poll_byte b t) \<and> parser_prefix (poll_byte b t) = fst (feed (parser_prefix t) b)
    \<and> parser_core (poll_byte b t) = apply_outcome (snd (feed (parser_prefix t) b)) (parser_core t)"
  proof (cases "ut_parser_len t = 0 \<and> b \<noteq> 0xA5")
    case True
    then have "parser_prefix t = []" using buf(1) by simp
    with True assms show ?thesis by (simp add: poll_byte_def feed_def)
  next
    case False
    from poll_byte_outcome [OF assms False] show ?thesis
    proof (elim disjE conjE exE)
      assume wait: "feed (parser_prefix t) b = (parser_prefix t @ [b], Wait)" "poll_byte b t = stored b t"
      with ok pre have "prefix_ok (parser_prefix t @ [b])" by simp
      from prefix_ok_length [OF this] this wait buf show ?thesis by (simp add: parser_inv_def)
    next
      fix out assume "feed (parser_prefix t) b = ([], out)" "poll_byte b t = (apply_outcome out (stored b t))\<lparr>ut_parser_len := 0\<rparr>"
      with reset show ?thesis by simp
    qed
  qed
  then show "parser_inv (poll_byte b t)"
    and "parser_prefix (poll_byte b t) = fst (feed (parser_prefix t) b)"
    and "parser_core (poll_byte b t) = apply_outcome (snd (feed (parser_prefix t) b)) (parser_core t)"
    by simp_all
qed

section \<open>The loop of poll refines the parser\<close>

text \<open>
  \<open>poll_core\<close> is what the loop shares with the rest of the program: everything but the receive ring
  and the parser buffer. The loop applies to it the outcomes of parsing the bytes of the ring.
\<close>

definition poll_core :: "uart_transport \<Rightarrow> uart_transport" where
  "poll_core t = t\<lparr>ut_rx_bytes := [], ut_rx_head := 0, ut_rx_tail := 0, ut_parser := [], ut_parser_len := 0\<rparr>"

lemma poll_core_parser_core [simp]: "poll_core (parser_core t) = poll_core t"
  by (simp add: poll_core_def parser_core_def)

lemma poll_core_apply [simp]: "poll_core (apply_outcome out t) = apply_outcome out (poll_core t)"
  by (cases out) (simp_all add: poll_core_def transport_step_defs Let_def split: pico_uart_decode_result.split)

lemma poll_core_fields [simp]:
  "cmd_inv (poll_core t) = cmd_inv t" "tx_inv (poll_core t) = tx_inv t"
  "cmd_view (poll_core t) = cmd_view t" "tx_view (poll_core t) = tx_view t"
  "ut_fault_pending (poll_core t) = ut_fault_pending t" "ut_stats (poll_core t) = ut_stats t"
  "ut_command_head (poll_core t) = ut_command_head t" "ut_command_tail (poll_core t) = ut_command_tail t"
  by (simp_all add: poll_core_def cmd_inv_def tx_inv_def cmd_view_def tx_view_def)

lemma poll_core_rx_take [simp]: "poll_core (snd (rx_take t)) = poll_core t"
  by (simp add: poll_core_def rx_take_def)

lemma poll_byte_core:
  assumes "parser_inv t"
  shows "poll_core (poll_byte b t) = apply_outcome (snd (feed (parser_prefix t) b)) (poll_core t)"
  using poll_byte_refines(3) [OF assms, of b] by (metis poll_core_apply poll_core_parser_core)

lemma feed_Accept_frame:
  assumes "snd (feed acc b) = Accept f"
  shows "frame_ok f" "acc @ [b] = wire_frame (fr_type f) (fr_payload f)" "f = mk_frame (fr_type f) (fr_payload f)"
proof -
  have dec: "pico_uart_decode_frame (Some (acc @ [b])) (length (acc @ [b])) True = (PICO_UART_DECODE_OK, Some f)"
    using assms decode_None_iff
    by (auto simp: feed_def Let_def split: if_splits prod.splits option.splits)
  from decode_OK_wire [OF dec] show "acc @ [b] = wire_frame (fr_type f) (fr_payload f)"
    and mk: "f = mk_frame (fr_type f) (fr_payload f)" by blast+
  from decode_OK_wire(3) [OF dec] mk show "frame_ok f"
    unfolding frame_ok_def by (metis mk_frame_simps(3,4))
qed

definition outcome_ok :: "parse_outcome \<Rightarrow> bool" where
  "outcome_ok out \<longleftrightarrow> (\<forall>f. out = Accept f \<longrightarrow> frame_ok f)"

lemma apply_outcome_inv:
  assumes "cmd_inv t" "outcome_ok out"
  shows "cmd_inv (apply_outcome out t)" "tx_inv (apply_outcome out t) = tx_inv t"
    "tx_view (apply_outcome out t) = tx_view t"
  using assms by (cases out; simp add: enqueue_command_inv outcome_ok_def)+

lemma feed_outcome_ok [simp]: "outcome_ok (snd (feed acc b))"
  using feed_Accept_frame(1) by (simp add: outcome_ok_def)

lemma parse_outcome_ok: "out \<in> set (snd (parse acc bs)) \<Longrightarrow> outcome_ok out"
  by (induction bs arbitrary: acc) (auto simp: Let_def split_beta)

lemma poll_byte_inv:
  assumes "ut_inv t"
  shows "ut_inv (poll_byte b t)"
proof -
  have "parser_inv t" "cmd_inv t" using assms by (simp_all add: ut_inv_def)
  moreover from this have "cmd_inv (poll_byte b t)" "tx_inv (poll_byte b t) = tx_inv t"
    using apply_outcome_inv [of "poll_core t" "snd (feed (parser_prefix t) b)"] poll_byte_core [of t b]
    by (metis poll_core_fields(1,2) feed_outcome_ok)+
  ultimately show ?thesis
    using assms poll_byte_refines(1) [of t b] by (simp add: ut_inv_def rx_inv_def)
qed

lemma poll_iteration_refines:
  assumes "ut_inv t" "ut_rx_tail t \<noteq> ut_rx_head t"
  shows "\<exists>b. rx_view t = b # rx_view (poll_iteration t) \<and> ut_inv (poll_iteration t)
    \<and> parser_prefix (poll_iteration t) = fst (feed (parser_prefix t) b)
    \<and> poll_core (poll_iteration t) = apply_outcome (snd (feed (parser_prefix t) b)) (poll_core t)"
proof -
  obtain b t' where take: "rx_take t = (b, t')" by (cases "rx_take t")
  have rx: "rx_inv t" using assms(1) by (simp add: ut_inv_def)
  note take_simps = rx_view_take [OF rx assms(2)] rx_take_frame [of t] poll_core_rx_take [of t]
  have inv': "ut_inv t'" using assms take_simps take by (simp add: ut_inv_def)
  then have "parser_inv t'" by (simp add: ut_inv_def)
  moreover have "rx_view (poll_byte b t') = rx_view t'" by (simp add: rx_view_def)
  ultimately show ?thesis
    using take_simps take poll_byte_inv [OF inv'] poll_byte_refines(2) [of t' b] poll_byte_core [of t' b]
    by (simp add: poll_iteration_def)
qed

text \<open>
  \<open>absorb\<close> parses bytes and applies the outcomes; a state with bytes pending in the ring is
  abstracted to the state after absorbing them.
\<close>

definition absorb :: "u8 list \<Rightarrow> u8 list \<times> uart_transport \<Rightarrow> u8 list \<times> uart_transport" where
  "absorb bs s = (fst (parse (fst s) bs), fold apply_outcome (snd (parse (fst s) bs)) (snd s))"

definition settled :: "uart_transport \<Rightarrow> u8 list \<times> uart_transport" where
  "settled t = absorb (rx_view t) (parser_prefix t, poll_core t)"

lemma absorb_Nil [simp]: "absorb [] s = s"
  by (simp add: absorb_def)

lemma absorb_Cons:
  "absorb (b # bs) (acc, c) = absorb bs (fst (feed acc b), apply_outcome (snd (feed acc b)) c)"
  by (simp add: absorb_def Let_def split_beta)

lemma absorb_append: "absorb (xs @ ys) s = absorb ys (absorb xs s)"
  by (simp add: absorb_def parse_append)

lemma settled_iteration:
  assumes "ut_inv t" "ut_rx_tail t \<noteq> ut_rx_head t"
  shows "settled (poll_iteration t) = settled t"
  using poll_iteration_refines [OF assms] by (auto simp: settled_def absorb_Cons)

lemma poll_refines:
  assumes "ut_inv t"
  shows "ut_inv (pico_uart_transport_poll t) \<and> rx_view (pico_uart_transport_poll t) = []
    \<and> (parser_prefix (pico_uart_transport_poll t), poll_core (pico_uart_transport_poll t)) = settled t"
  using assms
proof (induction t rule: pico_uart_transport_poll.induct)
  case (1 t)
  show ?case
  proof (cases "ut_rx_tail t \<noteq> ut_rx_head t")
    case True
    with poll_iteration_refines [OF 1(2) True] 1(1) [OF True] settled_iteration [OF 1(2) True]
    show ?thesis by (auto simp: pico_uart_transport_poll.simps [of t])
  next
    case False
    then have "rx_view t = []" by (simp add: rx_view_Nil)
    with False 1(2) show ?thesis by (simp add: pico_uart_transport_poll.simps [of t] settled_def)
  qed
qed

lemma poll_inv: "ut_inv t \<Longrightarrow> ut_inv (pico_uart_transport_poll t)"
  using poll_refines by blast

section \<open>Commands and faults from a batch of outcomes\<close>

definition command_of :: "parse_outcome \<Rightarrow> uart_frame option" where
  "command_of out = (case out of
      Accept f \<Rightarrow> if pico_uart_type_is_command (fr_type f) \<and> pico_uart_frame_payload_valid (Some f) then Some f else None
    | _ \<Rightarrow> None)"

definition faulty :: "parse_outcome \<Rightarrow> bool" where
  "faulty out \<longleftrightarrow> out \<noteq> Wait \<and> command_of out = None"

abbreviation commands_of :: "parse_outcome list \<Rightarrow> uart_frame list" where
  "commands_of outs \<equiv> List.map_filter command_of outs"

lemma command_of_Some: "outcome_ok out \<Longrightarrow> command_of out = Some f \<Longrightarrow> command_ok f \<and> out = Accept f"
  by (auto simp: command_of_def outcome_ok_def command_ok_iff split: parse_outcome.splits if_splits)

lemma ring_used_length: "ring_used (ut_command_head t) (ut_command_tail t) = length (cmd_view t)"
  by (simp add: cmd_view_def)

lemma apply_command:
  assumes "cmd_inv t" "outcome_ok out"
  shows "cmd_view (apply_outcome out t) = cmd_view t @ take (8 - length (cmd_view t)) (commands_of [out])
    \<and> (ut_fault_pending (apply_outcome out t) \<longleftrightarrow>
         ut_fault_pending t \<or> faulty out \<or> (command_of out \<noteq> None \<and> length (cmd_view t) = 8))"
proof (cases "command_of out")
  case None
  then show ?thesis
    by (cases out) (auto simp: List.map_filter_def faulty_def command_of_def enqueue_command_def Let_def
        latch_fault_def note_decode_error_def split: if_splits)
next
  case (Some f)
  with assms have f: "command_ok f" "out = Accept f" using command_of_Some by blast+
  have len: "length (cmd_view t) \<le> 8" using assms by (simp add: cmd_inv_def ring_used_length)
  show ?thesis
  proof (cases "length (cmd_view t) < 8")
    case True
    with f Some assms enqueue_command_push [of t f] show ?thesis
      by (auto simp: List.map_filter_def faulty_def ring_used_length)
  next
    case False
    with f have "enqueue_command t f = latch_fault
        (t\<lparr>ut_stats := (ut_stats t)\<lparr>command_overflow := command_overflow (ut_stats t) + 1\<rparr>\<rparr>)"
      by (simp add: enqueue_command_def command_ok_def ring_used_length [unfolded ring_used_def])
    with False len Some f show ?thesis by (simp add: faulty_def latch_fault_def)
  qed
qed

lemma map_filter_Cons: "List.map_filter f (x # xs) = List.map_filter f [x] @ List.map_filter f xs"
  by (simp add: List.map_filter_def)

lemma fold_outcomes:
  assumes "cmd_inv t" "\<And>out. out \<in> set outs \<Longrightarrow> outcome_ok out"
  shows "cmd_inv (fold apply_outcome outs t)
    \<and> cmd_view (fold apply_outcome outs t) = cmd_view t @ take (8 - length (cmd_view t)) (commands_of outs)
    \<and> (ut_fault_pending (fold apply_outcome outs t) \<longleftrightarrow> ut_fault_pending t \<or> (\<exists>out \<in> set outs. faulty out)
         \<or> 8 < length (cmd_view t) + length (commands_of outs))"
  using assms
proof (induction outs arbitrary: t)
  case Nil
  then show ?case by (simp add: List.map_filter_def cmd_inv_def ring_used_length)
next
  case (Cons out outs)
  have len: "length (cmd_view t) \<le> 8" using Cons.prems by (simp add: cmd_inv_def ring_used_length)
  have out: "outcome_ok out" and outs: "\<And>out. out \<in> set outs \<Longrightarrow> outcome_ok out" using Cons.prems(2) by simp_all
  note step = apply_command [OF Cons.prems(1) out]
  note IH = Cons.IH [OF apply_outcome_inv(1) [OF Cons.prems(1) out] outs]
  show ?case
  proof (cases "command_of out")
    case None
    with step IH show ?thesis
      by (subst (1 2) map_filter_Cons) (auto simp: List.map_filter_def)
  next
    case (Some f)
    then have f: "commands_of [out] = [f]" "\<not> faulty out" by (simp_all add: List.map_filter_def faulty_def)
    show ?thesis
    proof (cases "length (cmd_view t) < 8")
      case True
      with step IH f Some show ?thesis
        by (subst (1 2) map_filter_Cons) (auto simp: take_Cons' Suc_diff_Suc)
    next
      case False
      with len step IH f Some show ?thesis
        by (subst (1 2) map_filter_Cons) auto
    qed
  qed
qed

end
