(* ===== verification/Uart_Link.thy ===== *)
theory Uart_Link
  imports Uart_Parser
begin

text \<open>
  The link between the two ends of the UART: the parser on whole frames and on damaged ones,
  interrupts that deliver bytes while \<open>poll\<close> of \<open>pico/src/uart_transport.c\<close> runs, and the path of a
  frame from the encoder of one side to the command ring of the other.
\<close>

section \<open>Whole frames\<close>

text \<open>A list that agrees with the header of a frame and is shorter than the frame is awaited.\<close>

definition frame_like :: "nat \<Rightarrow> u8 list \<Rightarrow> bool" where
  "frame_like n d \<longleftrightarrow> length d = 7 + n \<and> n \<le> 64 \<and> d ! 0 = 0xA5 \<and> d ! 1 = 2
     \<and> u16_le (d ! 3) (d ! 4) = of_nat n"

lemma frame_like_wire:
  assumes "length body \<le> 64"
  shows "frame_like (length body) (wire_frame ty body)"
  using assms by (simp add: frame_like_def wire_frame_def wire_covered_def Let_def)

lemma feed_frame_like:
  assumes "frame_like n d" "k < length d"
  shows "feed (take k d) (d ! k) =
    (if Suc k < length d then (take (Suc k) d, Wait)
     else ([], case pico_uart_decode_frame (Some d) (length d) True of
        (r, None) \<Rightarrow> Reject r | (r, Some f) \<Rightarrow> Accept f))"
proof -
  have d: "length d = 7 + n" "n \<le> 64" "d ! 0 = 0xA5" "d ! 1 = 2" "u16_le (d ! 3) (d ! 4) = of_nat n"
    using assms by (simp_all add: frame_like_def)
  have len: "unat (u16_le (d ! 3) (d ! 4)) = n" using d by (simp add: unat_of_nat_le_64)
  have p: "take k d @ [d ! k] = take (Suc k) d" using assms by (simp add: take_Suc_conv_app_nth)
  have magic: "\<not> (take k d = [] \<and> d ! k \<noteq> 0xA5)" using d assms by (cases k) auto
  have lp: "length (take (Suc k) d) = Suc k" using assms by simp
  have version: "\<not> (Suc k = 2 \<and> take (Suc k) d ! 1 \<noteq> 2)" using d by auto
  have hdr: "take (Suc k) d ! 3 = d ! 3" "take (Suc k) d ! 4 = d ! 4" if "\<not> Suc k < 5"
    using that by simp_all
  show ?thesis
  proof (cases "Suc k < length d")
    case True
    then show ?thesis
      unfolding feed_def if_not_P [OF magic] Let_def p lp if_not_P [OF version]
      using hdr len d by (simp del: take_Suc)
  next
    case False
    then have k: "k = 6 + n" using assms d by simp
    then have "take (Suc k) d = d" using d by simp
    with k d len show ?thesis
      unfolding feed_def if_not_P [OF magic] Let_def p lp if_not_P [OF version]
      by (simp split: prod.split option.split)
  qed
qed

lemma parse_take_frame_like:
  assumes "frame_like n d" "k < length d"
  shows "parse [] (take k d) = (take k d, replicate k Wait)"
  using assms(2)
proof (induction k)
  case (Suc k)
  then have "take (Suc k) d = take k d @ [d ! k]" by (simp add: take_Suc_conv_app_nth)
  moreover have "feed (take k d) (d ! k) = (take (Suc k) d, Wait)"
    using feed_frame_like [OF assms(1), of k] Suc.prems by simp
  moreover have "parse [] (take k d) = (take k d, replicate k Wait)" using Suc by simp
  ultimately show ?case by (simp add: parse_append replicate_append_same del: take_Suc)
qed simp

lemma parse_frame_like:
  assumes "frame_like n d"
  shows "parse [] d = ([], replicate (6 + n) Wait @
    [case pico_uart_decode_frame (Some d) (length d) True of (r, None) \<Rightarrow> Reject r | (r, Some f) \<Rightarrow> Accept f])"
proof -
  have len: "length d = Suc (6 + n)" using assms by (simp add: frame_like_def)
  then have d: "take (6 + n) d @ [d ! (6 + n)] = d" by (simp flip: take_Suc_conv_app_nth)
  have "parse [] (take (6 + n) d @ [d ! (6 + n)]) = ([], replicate (6 + n) Wait @
    [case pico_uart_decode_frame (Some d) (length d) True of (r, None) \<Rightarrow> Reject r | (r, Some f) \<Rightarrow> Accept f])"
    unfolding parse_append parse_take_frame_like [OF assms, of "6 + n", unfolded len, simplified]
    using feed_frame_like [OF assms, of "6 + n"] len by simp
  with d show ?thesis by simp
qed

lemma parse_wire_frame:
  assumes "length body \<le> 64"
  shows "parse [] (wire_frame ty body) = ([], replicate (6 + length body) Wait @ [Accept (mk_frame ty body)])"
  using parse_frame_like [OF frame_like_wire [OF assms, of ty]] decode_wire_frame [OF assms, of ty "[]"]
  by simp

text \<open>A stream of frames, with the outcomes that are not \<open>Wait\<close>.\<close>

definition events :: "parse_outcome list \<Rightarrow> parse_outcome list" where
  "events outs = filter (\<lambda>out. out \<noteq> Wait) outs"

lemma events_append [simp]: "events (xs @ ys) = events xs @ events ys"
  by (simp add: events_def)

lemma events_simps [simp]:
  "events [] = []" "events (Wait # outs) = events outs" "events (Accept f # outs) = Accept f # events outs"
  "events (Reject r # outs) = Reject r # events outs" "events (replicate k Wait) = []"
  by (simp_all add: events_def)

lemma parse_frame_stream:
  assumes "\<And>ty body. (ty, body) \<in> set fs \<Longrightarrow> length body \<le> 64"
  shows "fst (parse [] (concat (map (\<lambda>(ty, body). wire_frame ty body) fs) @ rest)) = fst (parse [] rest)
    \<and> events (snd (parse [] (concat (map (\<lambda>(ty, body). wire_frame ty body) fs) @ rest)))
        = map (\<lambda>(ty, body). Accept (mk_frame ty body)) fs @ events (snd (parse [] rest))"
  using assms
proof (induction fs)
  case (Cons f fs)
  obtain ty body where f: "f = (ty, body)" by (cases f)
  have "length body \<le> 64" using Cons.prems [of ty body] f by simp
  from parse_wire_frame [OF this] have p: "parse [] (wire_frame ty body)
      = ([], replicate (6 + length body) Wait @ [Accept (mk_frame ty body)])" .
  have IH: "fst (parse [] (concat (map (\<lambda>(ty, body). wire_frame ty body) fs) @ rest)) = fst (parse [] rest)
    \<and> events (snd (parse [] (concat (map (\<lambda>(ty, body). wire_frame ty body) fs) @ rest)))
        = map (\<lambda>(ty, body). Accept (mk_frame ty body)) fs @ events (snd (parse [] rest))"
    using Cons.prems by (intro Cons.IH) auto
  then show ?case by (simp add: f parse_append p)
qed simp

section \<open>Interrupts between iterations\<close>

text \<open>
  The receive interrupt may store a byte between any two iterations of the loop of \<open>poll\<close>: the
  interrupt writes the head and the slots from it on, the loop only moves the tail.
\<close>

datatype link_op = Arrive u8 | Iterate

primrec link_step :: "link_op \<Rightarrow> uart_transport \<Rightarrow> uart_transport" where
  "link_step (Arrive b) t = pico_uart_transport_rx_push_isr b t"
| "link_step Iterate t = (if ut_rx_tail t \<noteq> ut_rx_head t then poll_iteration t else t)"

definition link_run :: "link_op list \<Rightarrow> uart_transport \<Rightarrow> uart_transport" where
  "link_run ops t = fold link_step ops t"

text \<open>The bytes that arrive, and whether the ring has room for each of them.\<close>

definition arrived :: "link_op list \<Rightarrow> u8 list" where
  "arrived ops = List.map_filter (\<lambda>op. case op of Arrive b \<Rightarrow> Some b | Iterate \<Rightarrow> None) ops"

fun no_overrun :: "link_op list \<Rightarrow> uart_transport \<Rightarrow> bool" where
  "no_overrun [] t = True"
| "no_overrun (op # ops) t =
     ((case op of Arrive b \<Rightarrow> length (rx_view t) < 512 | Iterate \<Rightarrow> True) \<and> no_overrun ops (link_step op t))"

lemma length_rx_view: "length (rx_view t) = ring_used (ut_rx_head t) (ut_rx_tail t)"
  by (simp add: rx_view_def)

lemma rx_push_frames:
  "parser_prefix (pico_uart_transport_rx_push_isr b t) = parser_prefix t"
  "length (rx_view t) < 512 \<Longrightarrow> poll_core (pico_uart_transport_rx_push_isr b t) = poll_core t"
  by (simp_all add: pico_uart_transport_rx_push_isr_def Let_def latch_fault_def parser_prefix_def poll_core_def
      length_rx_view ring_used_def)

lemma settled_push:
  assumes "ut_inv t" "length (rx_view t) < 512"
  shows "settled (pico_uart_transport_rx_push_isr b t) = absorb [b] (settled t)"
proof -
  have "rx_inv t" using assms(1) by (simp add: ut_inv_def)
  then have "rx_view (pico_uart_transport_rx_push_isr b t) = rx_view t @ [b]"
    using assms(2) by (simp add: rx_push_view(1) length_rx_view)
  with rx_push_frames [where b = b and t = t] assms show ?thesis by (simp add: settled_def absorb_append)
qed

lemma link_step_refines:
  assumes "ut_inv t" "no_overrun [op] t"
  shows "ut_inv (link_step op t)" "settled (link_step op t) = absorb (arrived [op]) (settled t)"
proof -
  show "ut_inv (link_step op t)"
    using assms rx_push_isr_inv [OF assms(1)] poll_iteration_refines [of t] by (cases op) auto
  show "settled (link_step op t) = absorb (arrived [op]) (settled t)"
    using assms settled_push [OF assms(1)] settled_iteration [of t]
    by (cases op) (auto simp: arrived_def List.map_filter_def)
qed

lemma link_run_refines:
  assumes "ut_inv t" "no_overrun ops t"
  shows "ut_inv (link_run ops t) \<and> settled (link_run ops t) = absorb (arrived ops) (settled t)"
  using assms
proof (induction ops arbitrary: t)
  case Nil
  then show ?case by (simp add: link_run_def arrived_def List.map_filter_def)
next
  case (Cons op ops)
  have one: "no_overrun [op] t" using Cons.prems(2) by simp
  note step = link_step_refines [OF Cons.prems(1) one]
  have "ut_inv (link_run ops (link_step op t)) \<and> settled (link_run ops (link_step op t))
      = absorb (arrived ops) (settled (link_step op t))"
    using Cons.IH [OF step(1)] Cons.prems(2) by simp
  moreover have "arrived (op # ops) = arrived [op] @ arrived ops"
    unfolding arrived_def by (rule map_filter_Cons)
  ultimately show ?case using step(2) by (simp add: link_run_def absorb_append)
qed

section \<open>Delivering bytes and polling\<close>

definition deliver :: "u8 list \<Rightarrow> uart_transport \<Rightarrow> uart_transport" where
  "deliver bs t = fold pico_uart_transport_rx_push_isr bs t"

lemma deliver_refines:
  assumes "ut_inv t" "length (rx_view t) + length bs \<le> 512"
  shows "ut_inv (deliver bs t) \<and> settled (deliver bs t) = absorb bs (settled t)"
  using assms
proof (induction bs arbitrary: t)
  case (Cons b bs)
  have room: "length (rx_view t) < 512" using Cons.prems by simp
  have rx: "rx_inv t" using Cons.prems by (simp add: ut_inv_def)
  have "length (rx_view (pico_uart_transport_rx_push_isr b t)) = Suc (length (rx_view t))"
    using rx_push_view(1) [OF rx, of b] room by (simp add: length_rx_view)
  then have "ut_inv (deliver bs (pico_uart_transport_rx_push_isr b t))
      \<and> settled (deliver bs (pico_uart_transport_rx_push_isr b t))
        = absorb bs (settled (pico_uart_transport_rx_push_isr b t))"
    using Cons.prems by (intro Cons.IH rx_push_isr_inv) simp_all
  with settled_push [OF Cons.prems(1) room, of b] absorb_append [of "[b]" bs] show ?case
    by (simp add: deliver_def)
qed (simp add: deliver_def)

text \<open>A transport between frames: nothing received that is not processed.\<close>

definition idle :: "uart_transport \<Rightarrow> bool" where
  "idle t \<longleftrightarrow> rx_view t = [] \<and> parser_prefix t = []"

lemma idle_settled: "idle t \<Longrightarrow> settled t = ([], poll_core t)"
  by (simp add: idle_def settled_def)

lemma poll_deliver:
  assumes "ut_inv t" "idle t" "length bs \<le> 512"
  defines "t' \<equiv> pico_uart_transport_poll (deliver bs t)"
  shows "ut_inv t' \<and> rx_view t' = [] \<and> parser_prefix t' = fst (parse [] bs)
    \<and> poll_core t' = fold apply_outcome (snd (parse [] bs)) (poll_core t)"
proof -
  have "ut_inv (deliver bs t) \<and> settled (deliver bs t) = absorb bs (settled t)"
    using assms by (intro deliver_refines) (simp_all add: idle_def)
  with poll_refines [of "deliver bs t"] assms(2) show ?thesis
    by (simp add: t'_def idle_settled absorb_def)
qed

lemma fold_apply_Wait: "fold apply_outcome (replicate n Wait) t = t"
  by (induction n arbitrary: t) simp_all

lemma funpow_apply_Wait [simp]: "(apply_outcome Wait ^^ n) t = t"
  by (induction n) simp_all

lemma poll_deliver_frame:
  assumes "ut_inv t" "idle t" "frame_like n d"
  defines "out \<equiv> (case pico_uart_decode_frame (Some d) (length d) True of (r, None) \<Rightarrow> Reject r | (r, Some f) \<Rightarrow> Accept f)"
  shows "ut_inv (pico_uart_transport_poll (deliver d t)) \<and> idle (pico_uart_transport_poll (deliver d t))
    \<and> poll_core (pico_uart_transport_poll (deliver d t)) = apply_outcome out (poll_core t)"
proof -
  have "length d \<le> 512" using assms(3) by (simp add: frame_like_def)
  from poll_deliver [OF assms(1,2) this] parse_frame_like [OF assms(3)] show ?thesis
    by (simp add: idle_def fold_apply_Wait out_def)
qed

lemma poll_wire_frame:
  assumes "ut_inv t" "idle t" "length body \<le> 64"
  shows "ut_inv (pico_uart_transport_poll (deliver (wire_frame ty body) t))
    \<and> idle (pico_uart_transport_poll (deliver (wire_frame ty body) t))
    \<and> poll_core (pico_uart_transport_poll (deliver (wire_frame ty body) t))
        = enqueue_command (poll_core t) (mk_frame ty body)"
  using poll_deliver_frame [OF assms(1,2) frame_like_wire [OF assms(3), of ty]]
    decode_wire_frame [OF assms(3), of ty "[]"] by simp

lemma command_ok_mk_frame:
  assumes "length body \<le> 64" "pico_uart_type_is_command ty" "pico_uart_frame_payload_valid (Some (mk_frame ty body))"
  shows "command_ok (mk_frame ty body)"
  using assms by (simp add: command_ok_def)

lemma poll_command_frame:
  assumes "ut_inv t" "idle t" "length body \<le> 64" "pico_uart_type_is_command ty"
    "pico_uart_frame_payload_valid (Some (mk_frame ty body))" "length (cmd_view t) < 8"
  shows "cmd_view (pico_uart_transport_poll (deliver (wire_frame ty body) t)) = cmd_view t @ [mk_frame ty body]
    \<and> ut_fault_pending (pico_uart_transport_poll (deliver (wire_frame ty body) t)) = ut_fault_pending t"
proof -
  have "cmd_inv (poll_core t)" using assms(1) by (simp add: ut_inv_def)
  from enqueue_command_push [OF this command_ok_mk_frame [OF assms(3-5)]] poll_wire_frame [OF assms(1-3), of ty]
  show ?thesis using assms(6) by (metis poll_core_fields(3,5,7,8) ring_used_length)
qed

text \<open>
  A frame damaged in one byte that is neither the magic, the version nor the length, or in two bytes in a
  row of its payload or of its checksum, is rejected as a whole, and the parser is at a frame boundary again.
\<close>

lemma frame_like_damage:
  assumes "frame_like n d" "damage n d d'"
  shows "frame_like n d'"
  using assms by (auto simp: frame_like_def damage_def)

lemma poll_damaged_frame:
  assumes "ut_inv t" "idle t" "length body \<le> 64" "damage (length body) (wire_frame ty body) d'"
  shows "\<exists>t'. t' = pico_uart_transport_poll (deliver d' t)
    \<and> ut_inv t' \<and> idle t' \<and> cmd_view t' = cmd_view t \<and> ut_fault_pending t'"
proof -
  let ?d = "wire_frame ty body"
  have ok: "fst (pico_uart_decode_frame (Some ?d) (length ?d) True) = PICO_UART_DECODE_OK"
    using decode_wire_frame [OF assms(3), of ty "[]"] by simp
  have len: "length ?d = 7 + length body" by simp
  note rej = damaged_rejected [OF len ok assms(4)]
  obtain r x where dec: "pico_uart_decode_frame (Some d') (length d') True = (r, x)" by fastforce
  with rej have "x = None" using decode_None_iff(2) by (cases x) auto
  with dec have r: "pico_uart_decode_frame (Some d') (length d') True = (r, None)" by simp
  have core: "poll_core (pico_uart_transport_poll (deliver d' t)) = note_decode_error (poll_core t) r"
    and rest: "ut_inv (pico_uart_transport_poll (deliver d' t))" "idle (pico_uart_transport_poll (deliver d' t))"
    using poll_deliver_frame [OF assms(1,2) frame_like_damage [OF frame_like_wire [OF assms(3), of ty] assms(4)]] r
    by simp_all
  have "cmd_view (pico_uart_transport_poll (deliver d' t)) = cmd_view t"
    using arg_cong [OF core, of cmd_view] by simp
  moreover have "ut_fault_pending (pico_uart_transport_poll (deliver d' t))"
    using arg_cong [OF core, of ut_fault_pending] by (simp add: note_decode_error_def latch_fault_def Let_def)
  ultimately show ?thesis using rest by blast
qed

section \<open>Draining the transmit ring\<close>

text \<open>\<open>n\<close> calls of \<open>pop_tx_byte\<close>, and the bytes they return.\<close>

fun pop_tx_bytes :: "nat \<Rightarrow> uart_transport \<Rightarrow> u8 list \<times> uart_transport" where
  "pop_tx_bytes 0 t = ([], t)"
| "pop_tx_bytes (Suc n) t = (case pico_uart_transport_pop_tx_byte t of
      (None, t') \<Rightarrow> ([], t')
    | (Some b, t') \<Rightarrow> (let (bs, t'') = pop_tx_bytes n t' in (b # bs, t'')))"

lemma tx_view_Nil: "tx_view t = [] \<longleftrightarrow> ut_tx_tail t = ut_tx_head t"
  by (auto simp: tx_view_def)

lemma pop_tx_bytes_view:
  assumes "tx_inv t" "n \<le> length (tx_view t)"
  shows "fst (pop_tx_bytes n t) = take n (tx_view t) \<and> tx_view (snd (pop_tx_bytes n t)) = drop n (tx_view t)
    \<and> tx_inv (snd (pop_tx_bytes n t))"
  using assms
proof (induction n arbitrary: t)
  case (Suc n)
  then have ne: "ut_tx_tail t \<noteq> ut_tx_head t" using tx_view_Nil [of t] by auto
  then obtain b t' where pop: "pico_uart_transport_pop_tx_byte t = (Some b, t')"
    by (simp add: pico_uart_transport_pop_tx_byte_def)
  note view = pop_tx_byte_Some [OF Suc.prems(1) ne, unfolded pop fst_conv snd_conv option.sel]
  from Suc.IH [OF view(2)] Suc.prems(2) pop view(1) show ?case by (simp add: Let_def split_beta)
qed simp

text \<open>Within the invariant no access to the four buffers is out of bounds.\<close>

lemma ut_inv_bounds:
  assumes "ut_inv t"
  shows "length (ut_rx_bytes t) = 512" "length (rx_view t) \<le> 512" "length (ut_commands t) = 8" "length (cmd_view t) \<le> 8"
    "list_all command_ok (cmd_view t)" "length (ut_tx_bytes t) = 2048" "length (tx_view t) \<le> 2048"
    "length (ut_parser t) = 71" "ut_parser_len t < 71"
proof -
  from assms have "rx_inv t" "cmd_inv t" "tx_inv t" "parser_inv t" by (simp_all add: ut_inv_def)
  then show "length (ut_rx_bytes t) = 512" "length (rx_view t) \<le> 512" "length (ut_commands t) = 8" "length (cmd_view t) \<le> 8"
    "list_all command_ok (cmd_view t)" "length (ut_tx_bytes t) = 2048" "length (tx_view t) \<le> 2048"
    "length (ut_parser t) = 71" "ut_parser_len t < 71"
    by (simp_all add: rx_inv_def cmd_inv_def tx_inv_def parser_inv_def length_rx_view list_all_iff)
      (simp_all add: cmd_view_def tx_view_def)
qed

end
