(* ===== verification/Uart_Messages.thy ===== *)
theory Uart_Messages
  imports Uart_Link
begin

text \<open>
  The transmit direction of \<open>pico/src/uart_transport.c\<close> as a stream of messages. A message of the
  Pico is a type with a payload of the form that \<open>pico_uart_frame_payload_valid\<close> demands, and not a
  command. The theory says which calls of \<open>queue_frame\<close> send such messages, and that a transmit ring
  changed by such calls alone grows by whole frames.
\<close>

section \<open>Messages and streams\<close>

type_synonym message = "u8 \<times> u8 list"

definition wire_stream :: "message list \<Rightarrow> u8 list" where
  "wire_stream ms = concat (map (\<lambda>(ty, body). wire_frame ty body) ms)"

definition pico_message :: "message \<Rightarrow> bool" where
  "pico_message m \<longleftrightarrow> length (snd m) \<le> 64 \<and> \<not> pico_uart_type_is_command (fst m)
     \<and> pico_uart_frame_payload_valid (Some (mk_frame (fst m) (snd m)))"

lemma wire_stream_simps [simp]:
  "wire_stream [] = []" "wire_stream ((ty, body) # ms) = wire_frame ty body @ wire_stream ms"
  "wire_stream (ms @ ns) = wire_stream ms @ wire_stream ns"
  by (simp_all add: wire_stream_def)

text \<open>The receiver of such a stream sees the messages, one frame each.\<close>

lemma parse_wire_stream:
  assumes "list_all pico_message ms"
  shows "fst (parse [] (wire_stream ms)) = []"
    "events (snd (parse [] (wire_stream ms))) = map (\<lambda>(ty, body). Accept (mk_frame ty body)) ms"
proof -
  have "length body \<le> 64" if "(ty, body) \<in> set ms" for ty body
    using assms that by (auto simp: pico_message_def list_all_iff)
  from parse_frame_stream [where fs = ms and rest = "[]", OF this]
  show "fst (parse [] (wire_stream ms)) = []"
    "events (snd (parse [] (wire_stream ms))) = map (\<lambda>(ty, body). Accept (mk_frame ty body)) ms"
    by (simp_all add: wire_stream_def)
qed

text \<open>The payload rules of the messages that \<open>main.c\<close> sends.\<close>

lemma of_nat_length_eq: "length body \<le> 64 \<Longrightarrow> n < 65536 \<Longrightarrow> (of_nat (length body) :: u16) = of_nat n \<longleftrightarrow> length body = n"
  by (auto simp: word_unat_eq_iff unat_of_nat)

lemma pico_message_iff [simp]:
  "pico_message (PICO_UART_RECORD_EVENT, body) \<longleftrightarrow> length body = 17 \<and> body ! 8 = 8"
  "pico_message (PICO_UART_PICO_STATUS, body) \<longleftrightarrow> length body = 5"
  "pico_message (PICO_UART_BUFFER_STATUS, body) \<longleftrightarrow> length body = 5"
  "pico_message (PICO_UART_PLAY_READY, body) \<longleftrightarrow> body = []"
  "pico_message (PICO_UART_PLAY_STARTED, body) \<longleftrightarrow> length body = 8"
  "pico_message (PICO_UART_PLAY_FINISHED, body) \<longleftrightarrow> body = []"
  "pico_message (PICO_UART_PLAY_ABORTED, body) \<longleftrightarrow> body = []"
  "pico_message (PICO_UART_PLAY_UNDERRUN, body) \<longleftrightarrow> length body = 10"
  "pico_message (PICO_UART_PONG, body) \<longleftrightarrow> body = []"
  "pico_message (PICO_UART_MODE_CHANGED, body) \<longleftrightarrow> length body = 2"
  "pico_message (PICO_UART_PLAY_METRICS, body) \<longleftrightarrow> length body = 33"
  using of_nat_length_eq [of body 17] of_nat_length_eq [of body 5] of_nat_length_eq [of body 8]
    of_nat_length_eq [of body 10] of_nat_length_eq [of body 2] of_nat_length_eq [of body 33] of_nat_length_eq [of body 0]
  by (auto simp: pico_message_def pico_uart_frame_payload_valid_def type_known_iff command_iff
      pico_constants Let_def)

section \<open>Queueing messages\<close>

text \<open>The payload of a call of \<open>queue_frame\<close>, and the calls that send a message.\<close>

definition message_body :: "u8 list option \<Rightarrow> u16 \<Rightarrow> u8 list" where
  "message_body payload len = (case payload of None \<Rightarrow> [] | Some bytes \<Rightarrow> take (unat len) bytes)"

definition sendable :: "u8 \<Rightarrow> u8 list option \<Rightarrow> u16 \<Rightarrow> bool" where
  "sendable ty payload len \<longleftrightarrow> pico_message (ty, message_body payload len)
     \<and> length (message_body payload len) = unat len"

lemma sendable_simps [simp]:
  "sendable ty None 0 = pico_message (ty, [])" "sendable ty (Some bytes) 0 = pico_message (ty, [])"
  "unat len = length body \<Longrightarrow> sendable ty (Some body) len = pico_message (ty, body)"
  by (simp_all add: sendable_def message_body_def)

text \<open>\<open>says t t'\<close>: the transmit ring grew by whole messages.\<close>

definition says :: "uart_transport \<Rightarrow> uart_transport \<Rightarrow> bool" where
  "says t t' \<longleftrightarrow> (\<exists>ms. list_all pico_message ms \<and> tx_view t' = tx_view t @ wire_stream ms)"

lemma says_same: "tx_view t' = tx_view t \<Longrightarrow> says t t'"
  unfolding says_def by (rule exI [of _ "[]"]) simp

lemma says_refl [simp]: "says t t"
  by (rule says_same) simp

lemma says_trans: "says t u \<Longrightarrow> says u v \<Longrightarrow> says t v"
  unfolding says_def by (metis append_assoc list_all_append wire_stream_simps(3))

lemma queue_frame_says:
  assumes "tx_inv t" "sendable ty payload len"
  shows "says t (snd (pico_uart_transport_queue_frame ty payload len t))"
  using assms(1)
proof (cases rule: queue_frame_cases [where ty = ty and payload = payload and plen = len])
  case (queued bs)
  let ?body = "message_body payload len"
  have msg: "pico_message (ty, ?body)" and len: "length ?body = unat len"
    using assms(2) by (simp_all add: sendable_def)
  have room: "unat len \<noteq> 0 \<Longrightarrow> unat len \<le> length (the payload)"
    using len by (cases payload) (simp_all add: message_body_def)
  have "bs = wire_frame ty (if unat len = 0 then [] else take (unat len) (the payload))"
    using queued(1) encode_frame_eq [OF refl, of len payload ty True 71] room by (simp split: if_splits)
  moreover have "(if unat len = 0 then [] else take (unat len) (the payload)) = ?body"
    using len by (cases payload) (simp_all add: message_body_def)
  ultimately have "tx_view (snd (pico_uart_transport_queue_frame ty payload len t)) = tx_view t @ wire_stream [(ty, ?body)]"
    using queued(3) by simp
  with msg show ?thesis unfolding says_def by (intro exI [of _ "[(ty, ?body)]"]) simp
next
  case dropped
  then show ?thesis by (intro says_same) simp
qed

end
