(* ===== verification/Uart_Hw.thy ===== *)
theory Uart_Hw
  imports Uart_Messages Pico_Machine
begin

text \<open>
  \<open>pico/src/uart_transport_pico.c\<close>: the interrupt handler that moves the bytes of the UART into the
  receive ring and the task that moves the transmit ring into the UART. The UART itself is a
  parameter (\<open>sdk\<close>). The handler loops while the UART has data and the hardware decides when that
  ends, so its loop is partial; the task ends because each round consumes a queued byte.
\<close>

section \<open>The interrupt handler\<close>

partial_function (option) irq_drain ::
    "'e sdk \<Rightarrow> uart_transport \<Rightarrow> 'e \<Rightarrow> (uart_transport \<times> 'e) option" where
  "irq_drain sdk t e =
     (let (readable, e1) = sdk_uart_is_readable sdk e in
      if \<not> readable then Some (t, e1)
      else (let (c, e2) = sdk_uart_getc sdk e1 in
            irq_drain sdk (pico_uart_transport_rx_push_isr c t) e2))"

text \<open>\<open>active_transport\<close> is \<^const>\<open>None\<close> until \<open>hw_init\<close> sets it.\<close>

definition uart0_irq_handler ::
    "'e sdk \<Rightarrow> uart_transport option \<Rightarrow> 'e \<Rightarrow> (uart_transport option \<times> 'e) option" where
  "uart0_irq_handler sdk active_transport e =
     (case active_transport of
        None \<Rightarrow> Some (None, e)
      | Some t \<Rightarrow>
          (let (errors, e1) = sdk_uart_rsr sdk e;
               (t1, e2) = (if errors \<noteq> 0 then (pico_uart_transport_hardware_error_isr t, sdk_uart_clear_rsr sdk e1)
                           else (t, e1))
           in map_option (map_prod Some id) (irq_drain sdk t1 e2)))"

text \<open>
  The UART as the handler sees it: \<open>pend e\<close> are the bytes in its FIFO. \<open>is_readable\<close> says whether
  there is one and \<open>getc\<close> takes the first, as the SDK documents.
\<close>

definition uart_fifo_ok :: "'e sdk \<Rightarrow> ('e \<Rightarrow> u8 list) \<Rightarrow> bool" where
  "uart_fifo_ok sdk pend \<longleftrightarrow>
     (\<forall>e. fst (sdk_uart_is_readable sdk e) = (pend e \<noteq> []) \<and> pend (snd (sdk_uart_is_readable sdk e)) = pend e)
     \<and> (\<forall>e. pend e \<noteq> [] \<longrightarrow> fst (sdk_uart_getc sdk e) = hd (pend e) \<and> pend (snd (sdk_uart_getc sdk e)) = tl (pend e))
     \<and> (\<forall>e. pend (snd (sdk_uart_rsr sdk e)) = pend e \<and> pend (sdk_uart_clear_rsr sdk e) = pend e)"

lemma irq_drain_delivers:
  assumes "uart_fifo_ok sdk pend"
  shows "\<exists>e'. irq_drain sdk t e = Some (deliver (pend e) t, e') \<and> pend e' = []"
proof (induction "pend e" arbitrary: t e)
  case Nil
  with assms show ?case
    by (subst irq_drain.simps) (auto simp: uart_fifo_ok_def Let_def split_beta deliver_def)
next
  case (Cons b bs)
  let ?e1 = "snd (sdk_uart_is_readable sdk e)"
  have rd: "fst (sdk_uart_is_readable sdk e)" "pend ?e1 = b # bs"
    using assms Cons(2) by (simp_all add: uart_fifo_ok_def flip: Cons(2))
  then have gc: "fst (sdk_uart_getc sdk ?e1) = b" "bs = pend (snd (sdk_uart_getc sdk ?e1))"
    using assms by (simp_all add: uart_fifo_ok_def)
  from Cons(1) [OF gc(2), of "pico_uart_transport_rx_push_isr b t"]
  show ?case
    using rd gc Cons(2) [symmetric]
    by (subst irq_drain.simps) (simp add: Let_def split_beta deliver_def)
qed

lemma irq_handler_delivers:
  assumes "uart_fifo_ok sdk pend"
  defines "t1 \<equiv> \<lambda>t e. if fst (sdk_uart_rsr sdk e) \<noteq> 0 then pico_uart_transport_hardware_error_isr t else t"
  shows "\<exists>e'. uart0_irq_handler sdk (Some t) e = Some (Some (deliver (pend e) (t1 t e)), e') \<and> pend e' = []"
proof -
  let ?e1 = "snd (sdk_uart_rsr sdk e)"
  have "pend ?e1 = pend e" "pend (sdk_uart_clear_rsr sdk ?e1) = pend e"
    using assms(1) by (simp_all add: uart_fifo_ok_def)
  with irq_drain_delivers [OF assms(1), of "t1 t e" "if fst (sdk_uart_rsr sdk e) \<noteq> 0 then sdk_uart_clear_rsr sdk ?e1 else ?e1"]
  show ?thesis by (auto simp: uart0_irq_handler_def Let_def split_beta t1_def split: if_splits)
qed

section \<open>The transmit task\<close>

definition uart_putc_raw :: "'e sdk \<Rightarrow> u8 \<Rightarrow> ('e, 'z) machine_scheme \<Rightarrow> ('e, 'z) machine_scheme" where
  "uart_putc_raw sdk b w = w\<lparr>hw := sdk_uart_putc_raw sdk b (hw w), uart_out := uart_out w @ [b]\<rparr>"

function tx_loop :: "'e sdk \<Rightarrow> uart_transport \<Rightarrow> ('e, 'z) machine_scheme \<Rightarrow> uart_transport \<times> ('e, 'z) machine_scheme" where
  "tx_loop sdk t w =
     (let s = call_hw (sdk_uart_is_writable sdk) w in
      if \<not> fst s then (t, snd s)
      else (case fst (pico_uart_transport_pop_tx_byte t) of
              None \<Rightarrow> (snd (pico_uart_transport_pop_tx_byte t), snd s)
            | Some b \<Rightarrow> tx_loop sdk (snd (pico_uart_transport_pop_tx_byte t)) (uart_putc_raw sdk b (snd s))))"
  by pat_completeness auto
termination
proof (relation "measure (\<lambda>(sdk, t, w). ring_used (ut_tx_head t) (ut_tx_tail t))")
  fix sdk :: "'e sdk" and t b and w s :: "('e, 'z) machine_scheme" and x
  assume "fst (pico_uart_transport_pop_tx_byte t) = Some b"
  then have "ut_tx_head t \<noteq> ut_tx_tail t"
    by (auto simp: pico_uart_transport_pop_tx_byte_def split: if_splits)
  then show "((sdk, snd (pico_uart_transport_pop_tx_byte t), uart_putc_raw sdk b (snd x)), sdk, t, w)
    \<in> measure (\<lambda>(sdk, t, w). ring_used (ut_tx_head t) (ut_tx_tail t))"
    using ring_used_pop [of "ut_tx_head t" "ut_tx_tail t"] ring_used_pos [of "ut_tx_head t" "ut_tx_tail t"]
    by (auto simp: pico_uart_transport_pop_tx_byte_def)
qed simp

declare tx_loop.simps [simp del]

definition pico_uart_transport_tx_task ::
    "'e sdk \<Rightarrow> uart_transport option \<Rightarrow> ('e, 'z) machine_scheme \<Rightarrow> uart_transport option \<times> ('e, 'z) machine_scheme" where
  "pico_uart_transport_tx_task sdk p w =
     (case p of None \<Rightarrow> (None, w) | Some t \<Rightarrow> map_prod Some id (tx_loop sdk t w))"

text \<open>The task moves bytes from the ring to the UART in order, and touches nothing else of the transport.\<close>

lemma pop_tx_byte_frame:
  "cmd_view (snd (pico_uart_transport_pop_tx_byte t)) = cmd_view t"
  "parser_prefix (snd (pico_uart_transport_pop_tx_byte t)) = parser_prefix t"
  "ut_fault_pending (snd (pico_uart_transport_pop_tx_byte t)) = ut_fault_pending t"
  "ut_stats (snd (pico_uart_transport_pop_tx_byte t)) = ut_stats t"
  by (simp_all add: pico_uart_transport_pop_tx_byte_def cmd_view_def parser_prefix_def)

lemma tx_loop_conserves:
  assumes "ut_inv t" "tx_loop sdk t w = (t', w')"
  shows "ut_inv t' \<and> uart_out w' @ tx_view t' = uart_out w @ tx_view t \<and> rx_view t' = rx_view t
    \<and> cmd_view t' = cmd_view t \<and> w' = w\<lparr>hw := hw w', uart_out := uart_out w'\<rparr>
    \<and> length (tx_view t') \<le> length (tx_view t)"
  using assms
proof (induction sdk t w rule: tx_loop.induct)
  case (1 sdk t w)
  note step = 1(3) [unfolded tx_loop.simps [of sdk t]]
  let ?s = "call_hw (sdk_uart_is_writable sdk) w" and ?t = "snd (pico_uart_transport_pop_tx_byte t)"
  show ?case
  proof (cases "fst ?s \<and> fst (pico_uart_transport_pop_tx_byte t) \<noteq> None")
    case False
    then have "t' = t \<and> w' = snd ?s"
      using step by (auto simp: Let_def pico_uart_transport_pop_tx_byte_def split: if_splits)
    with 1(2) show ?thesis by simp
  next
    case True
    then obtain b where b: "fst (pico_uart_transport_pop_tx_byte t) = Some b" by blast
    then have ne: "ut_tx_tail t \<noteq> ut_tx_head t"
      by (auto simp: pico_uart_transport_pop_tx_byte_def)
    have rec: "tx_loop sdk ?t (uart_putc_raw sdk b (snd ?s)) = (t', w')"
      using step True b by (simp add: Let_def)
    have "tx_inv t" using 1(2) by (simp add: ut_inv_def)
    note pop = pop_tx_byte_Some(1) [OF this ne]
    from 1(1) [OF refl _ b pop_tx_byte_inv [OF 1(2)] rec] True pop b
    show ?thesis by (auto simp: uart_putc_raw_def pop_tx_byte_frame)
  qed
qed

end
