(* ===== verification/Firmware.thy ===== *)
theory Firmware
  imports Playback_Scheduler Physical_Report_Dispatch Safety_Release Hid_Keyboard_Host Uart_Hw
    "HOL-Library.Monad_Syntax"
begin

text \<open>
  \<open>pico/src/main.c\<close>: the global objects, the callbacks that connect the components, the dispatch of
  UART commands, and one iteration of the main loop. Loops whose end depends on the hardware or on
  callbacks are partial functions, and so is the iteration; that it returns is shown in
  \<open>Firmware_Invariant\<close>.
\<close>

section \<open>Globals and callbacks\<close>

record 'e globals = "'e sched_world" +
  g_capture :: keyboard_capture
  g_transport :: uart_transport
  g_safety :: safety_release
  g_flow_fault :: bool
  g_host :: keyboard_host

definition tx_frame :: "u8 \<Rightarrow> u8 list option \<Rightarrow> u16 \<Rightarrow> 'e globals \<Rightarrow> bool \<times> 'e globals" where
  "tx_frame ty payload payload_len w =
     (let (ok, t) = pico_uart_transport_queue_frame ty payload payload_len (g_transport w)
      in (ok, w\<lparr>g_transport := t\<rparr>))"

definition mode_all_release :: "'e globals \<Rightarrow> 'e globals" where
  "mode_all_release w = w\<lparr>g_safety := the (pico_safety_release_request (Some (g_safety w)))\<rparr>"

definition send_all_keys_release :: "'e sdk \<Rightarrow> 'e globals \<Rightarrow> bool \<times> 'e globals" where
  "send_all_keys_release sdk w = pico_hid_keyboard_send_all_keys_release sdk w"

definition mode_clear_physical :: "'e globals \<Rightarrow> 'e globals" where
  "mode_clear_physical w = w\<lparr>g_capture := pico_keyboard_capture_clear (g_capture w)\<rparr>"

definition mode_changed :: "u8 \<Rightarrow> u8 \<Rightarrow> 'e globals \<Rightarrow> 'e globals" where
  "mode_changed state reason w = snd (tx_frame PICO_UART_MODE_CHANGED (Some [state, reason]) 2 w)"

definition send_record_event :: "capture_event \<Rightarrow> 'e globals \<Rightarrow> 'e globals" where
  "send_record_event event w =
     (let payload = write_u64_le (ce_timestamp_us event) @ [ce_report_len event] @ report_bytes (ce_report event)
      in snd (tx_frame PICO_UART_RECORD_EVENT (Some payload) 17 w))"

definition send_pass_report :: "'e sdk \<Rightarrow> hid_report \<Rightarrow> 'e globals \<Rightarrow> bool \<times> 'e globals" where
  "send_pass_report sdk report w = pico_hid_keyboard_send_boot_report sdk (Some report) w"

definition send_status :: "'e globals \<Rightarrow> 'e globals" where
  "send_status w =
     (let stats = pico_uart_transport_get_stats (Some (g_transport w));
          payload = [pico_mode_state_get (Some (mode_state w)), of_bool (rx_overflow stats \<noteq> 0),
            of_bool (hardware_errors stats \<noteq> 0), of_bool (invalid_frames stats \<noteq> 0),
            of_bool (tx_dropped stats \<noteq> 0)]
      in snd (tx_frame PICO_UART_PICO_STATUS (Some payload) 5 w))"

definition send_buffer_status :: "'e globals \<Rightarrow> bool \<times> 'e globals" where
  "send_buffer_status w =
     (let queued_count = of_nat (pico_playback_queue_count (Some (w_queue w)));
          free_capacity = of_nat (pico_playback_queue_free_capacity (Some (w_queue w)));
          payload = [pico_mode_state_get (Some (mode_state w)), lo8 queued_count, hi8 queued_count,
            lo8 free_capacity, hi8 free_capacity]
      in tx_frame PICO_UART_BUFFER_STATUS (Some payload) 5 w)"

definition playback_underrun :: "u64 \<Rightarrow> u16 \<Rightarrow> 'e globals \<Rightarrow> 'e globals" where
  "playback_underrun elapsed_offset_us free_capacity w =
     (let payload = write_u64_le elapsed_offset_us @ [lo8 free_capacity, hi8 free_capacity];
          (ok, w1) = tx_frame PICO_UART_PLAY_UNDERRUN (Some payload) 10 w
      in if \<not> ok then w1\<lparr>g_flow_fault := True\<rparr> else w1)"

definition playback_buffer_available :: "'e globals \<Rightarrow> 'e globals" where
  "playback_buffer_available w =
     (let (ok, w1) = send_buffer_status w in if \<not> ok then w1\<lparr>g_flow_fault := True\<rparr> else w1)"

text \<open>
  The callbacks call each other: completion finishes the mode, finishing clears the queue, clearing
  stops the scheduler, and stopping a running scheduler completes. The scheduler has stopped before
  it calls completion, so the circle is not taken twice. The model ties it with a depth: at depth 0
  completion does nothing, and the main program uses depth 2; the depth beyond 1 makes no difference
  (\<open>playback_complete_depth\<close>).
\<close>

definition scheduler_callbacks ::
    "(u8 \<Rightarrow> playback_metrics \<Rightarrow> 'e globals \<Rightarrow> 'e globals) \<Rightarrow> 'e sdk \<Rightarrow> 'e globals sched_callbacks" where
  "scheduler_callbacks cmp sdk =
     all_sched_callbacks (send_pass_report sdk) cmp playback_underrun playback_buffer_available"

definition mode_clear_queue ::
    "(u8 \<Rightarrow> playback_metrics \<Rightarrow> 'e globals \<Rightarrow> 'e globals) \<Rightarrow> 'e sdk \<Rightarrow> 'e globals \<Rightarrow> 'e globals" where
  "mode_clear_queue cmp sdk w =
     (let w1 = pico_playback_scheduler_stop (scheduler_callbacks cmp sdk) sdk w;
          w2 = w1\<lparr>w_queue := pico_playback_queue_clear (w_queue w1)\<rparr>;
          w3 = sched_update pico_playback_scheduler_reset_sequence w2
      in w3\<lparr>g_flow_fault := False\<rparr>)"

definition mode_callbacks_with ::
    "(u8 \<Rightarrow> playback_metrics \<Rightarrow> 'e globals \<Rightarrow> 'e globals) \<Rightarrow> 'e sdk \<Rightarrow> 'e globals mode_callbacks" where
  "mode_callbacks_with cmp sdk =
     all_callbacks mode_all_release mode_clear_physical (mode_clear_queue cmp sdk) mode_changed"

definition metrics_payload :: "playback_metrics \<Rightarrow> u8 list" where
  "metrics_payload m =
     write_u32_le (pm_dispatched_count m) @ write_u32_le (pm_underrun_count m)
     @ write_u32_le (i32_bits (pm_min_lateness_us m)) @ write_u32_le (i32_bits (pm_max_lateness_us m))
     @ write_u64_le (pm_sum_lateness_us m)
     @ write_u32_le (i32_bits (pm_p95_lateness_us m)) @ write_u32_le (i32_bits (pm_p99_lateness_us m))
     @ [of_bool (pm_samples_truncated m)]"

primrec playback_complete ::
    "nat \<Rightarrow> 'e sdk \<Rightarrow> u8 \<Rightarrow> playback_metrics \<Rightarrow> 'e globals \<Rightarrow> 'e globals" where
  "playback_complete 0 sdk reason metrics w = w"
| "playback_complete (Suc n) sdk reason metrics w =
     (let w1 = snd (tx_frame (if reason = PICO_UART_REASON_FINISHED then PICO_UART_PLAY_FINISHED
                              else PICO_UART_PLAY_ABORTED) None 0 w);
          w2 = snd (tx_frame PICO_UART_PLAY_METRICS (Some (metrics_payload metrics)) 33 w1)
      in if reason = PICO_UART_REASON_FINISHED
         then snd (pico_mode_state_play_finish (mode_callbacks_with (playback_complete n sdk) sdk) w2)
         else w2)"

abbreviation main_complete :: "'e sdk \<Rightarrow> u8 \<Rightarrow> playback_metrics \<Rightarrow> 'e globals \<Rightarrow> 'e globals" where
  "main_complete \<equiv> playback_complete 2"

abbreviation mode_cb :: "'e sdk \<Rightarrow> 'e globals mode_callbacks" where
  "mode_cb sdk \<equiv> mode_callbacks_with (main_complete sdk) sdk"

abbreviation sched_cb :: "'e sdk \<Rightarrow> 'e globals sched_callbacks" where
  "sched_cb sdk \<equiv> scheduler_callbacks (main_complete sdk) sdk"

section \<open>Commands\<close>

definition ack_or_error :: "'e sdk \<Rightarrow> 'e globals \<Rightarrow> 'e globals" where
  "ack_or_error sdk w =
     (let (ok, w1) = send_buffer_status w in
      if \<not> ok then pico_mode_state_protocol_error (mode_cb sdk) w1 else w1)"

definition dispatch_queue_command :: "'e sdk \<Rightarrow> uart_frame \<Rightarrow> 'e globals \<Rightarrow> 'e globals" where
  "dispatch_queue_command sdk frame w =
     (let state = pico_mode_state_get (Some (mode_state w)) in
      if \<not> pico_uart_queue_command_allowed (fr_type frame) state
      then pico_mode_state_protocol_error (mode_cb sdk) w
      else if fr_type frame = PICO_UART_QUEUE_CLEAR then
        ack_or_error sdk (sched_update pico_playback_scheduler_reset_sequence
          (w\<lparr>w_queue := pico_playback_queue_clear (w_queue w)\<rparr>))
      else if fr_type frame = PICO_UART_QUEUE_EVENT then
        (let offset_us = read_u64_le (fr_payload frame);
             (ok, q) = pico_playback_queue_push offset_us (Some (drop 9 (fr_payload frame))) 8 (w_queue w);
             w1 = w\<lparr>w_queue := q\<rparr>
         in if \<not> ok then pico_mode_state_protocol_error (mode_cb sdk) w1 else ack_or_error sdk w1)
      else if fr_type frame = PICO_UART_QUEUE_END then
        (let w1 = sched_update pico_playback_scheduler_mark_sequence_ended w;
             w2 = (if state = PICO_UART_MODE_ARMED then snd (tx_frame PICO_UART_PLAY_READY None 0 w1) else w1)
         in ack_or_error sdk w2)
      else pico_mode_state_protocol_error (mode_cb sdk) w)"

definition dispatch_command :: "'e sdk \<Rightarrow> uart_frame \<Rightarrow> 'e globals \<Rightarrow> 'e globals" where
  "dispatch_command sdk frame w =
     (let ty = fr_type frame in
      if ty = PICO_UART_MODE_SET then snd (pico_mode_state_handle_mode_set (mode_cb sdk) (fr_payload frame ! 0) w)
      else if ty = PICO_UART_PLAY_START then
        (let (playback_start_us, w1) = time_us_64 sdk w;
             (ok, w2) = pico_mode_state_play_start (mode_cb sdk) w1
         in if ok then
              pico_playback_scheduler_start (sched_cb sdk) sdk playback_start_us
                (snd (tx_frame PICO_UART_PLAY_STARTED (Some (write_u64_le playback_start_us)) 8 w2))
            else w2)
      else if ty = PICO_UART_PLAY_ABORT then snd (pico_mode_state_play_abort (mode_cb sdk) w)
      else if ty = PICO_UART_PING then
        snd (tx_frame PICO_UART_PONG (Some (fr_payload frame)) (fr_payload_len frame) w)
      else if ty = PICO_UART_STATUS_REQUEST then send_status w
      else if ty = PICO_UART_QUEUE_CLEAR \<or> ty = PICO_UART_QUEUE_EVENT \<or> ty = PICO_UART_QUEUE_END then
        dispatch_queue_command sdk frame w
      else pico_mode_state_protocol_error (mode_cb sdk) w)"

partial_function (option) command_loop :: "'e sdk \<Rightarrow> 'e globals \<Rightarrow> 'e globals option" where
  "command_loop sdk w =
     (let (cmd, t) = pico_uart_transport_pop_command (g_transport w) in
      case cmd of
        None \<Rightarrow> Some (w\<lparr>g_transport := t\<rparr>)
      | Some frame \<Rightarrow> command_loop sdk (dispatch_command sdk frame (w\<lparr>g_transport := t\<rparr>)))"

section \<open>The main loop\<close>

text \<open>
  The rest of the hardware: the device and host tasks of TinyUSB with the callbacks the host task
  makes, the number of UART interrupts, and the idle calls. An interrupt touches only the receive
  ring, the fault latch and two error counters, and the main loop looks at those in \<open>poll\<close> and in
  \<open>take_fault\<close>. So there are two places for interrupts in an iteration: before \<open>poll\<close>, where those
  since the last \<open>take_fault\<close> may stand, and between \<open>poll\<close> and \<open>take_fault\<close>. (An error counted while
  a command is dispatched would otherwise show one iteration earlier in the error bits of a
  PICO_STATUS; that is all.) Interrupts inside \<open>poll\<close> are the subject of \<open>Uart_Link\<close>.
\<close>

datatype host_event = Mounted u8 u8 | Unmounted u8 u8 | Report_Received u8 u8 "u8 list option" u16

record 'e board =
  bd_sdk :: "'e sdk"
  bd_tud_task :: "'e \<Rightarrow> 'e"
  bd_tuh_task :: "'e \<Rightarrow> host_event list \<times> 'e"
  bd_uart_irqs :: "'e \<Rightarrow> nat \<times> 'e"
  bd_tight_loop_contents :: "'e \<Rightarrow> 'e"
  bd_sleep_us :: "nat \<Rightarrow> 'e \<Rightarrow> 'e"
  bd_sleep_ms :: "nat \<Rightarrow> 'e \<Rightarrow> 'e"

fun host_callback :: "'e sdk \<Rightarrow> host_event \<Rightarrow> 'e globals \<Rightarrow> 'e globals" where
  "host_callback sdk (Mounted dev ins) w =
     (let (h, w1) = tuh_hid_mount_cb sdk dev ins (g_host w) w in w1\<lparr>g_host := h\<rparr>)"
| "host_callback sdk (Unmounted dev ins) w = w\<lparr>g_host := tuh_hid_umount_cb dev ins (g_host w)\<rparr>"
| "host_callback sdk (Report_Received dev ins report len) w =
     (let (h, c, w1) = tuh_hid_report_received_cb sdk dev ins report len (g_host w) (g_capture w) w
      in w1\<lparr>g_capture := c, g_host := h\<rparr>)"

definition usb_tasks :: "'e board \<Rightarrow> 'e globals \<Rightarrow> 'e globals" where
  "usb_tasks bd w =
     (let w1 = w\<lparr>hw := bd_tud_task bd (hw w)\<rparr>;
          (events, w2) = call_hw (bd_tuh_task bd) w1
      in fold (host_callback (bd_sdk bd)) events w2)"

primrec uart_irqs :: "'e sdk \<Rightarrow> nat \<Rightarrow> 'e globals \<Rightarrow> 'e globals option" where
  "uart_irqs sdk 0 w = Some w"
| "uart_irqs sdk (Suc n) w =
     (case uart0_irq_handler sdk (Some (g_transport w)) (hw w) of
        Some (Some t, e) \<Rightarrow> uart_irqs sdk n (w\<lparr>hw := e, g_transport := t\<rparr>)
      | _ \<Rightarrow> None)"

definition poll_step :: "'e globals \<Rightarrow> 'e globals" where
  "poll_step w = w\<lparr>g_transport := pico_uart_transport_poll (g_transport w)\<rparr>"

definition fault_step :: "'e sdk \<Rightarrow> 'e globals \<Rightarrow> 'e globals" where
  "fault_step sdk w =
     (let (fault, t) = pico_uart_transport_take_fault (g_transport w);
          w1 = w\<lparr>g_transport := t\<rparr>
      in if fault then pico_mode_state_uart_fault (mode_cb sdk) w1 else w1)"

definition release_step :: "'e sdk \<Rightarrow> 'e globals \<Rightarrow> pico_safety_release_result \<times> 'e globals" where
  "release_step sdk w =
     (let (result, r, w1) = pico_safety_release_service (Some (send_all_keys_release sdk)) (Some (g_safety w)) w
      in (result, w1\<lparr>g_safety := the r\<rparr>))"

definition dispatch_step :: "'e sdk \<Rightarrow> pico_safety_release_result \<Rightarrow> 'e globals \<Rightarrow> 'e globals" where
  "dispatch_step sdk release_result w =
     (let (c, w1) = pico_physical_report_dispatch (Some (mode_state w))
            (release_result = PICO_SAFETY_RELEASE_READY) (Some (send_pass_report sdk)) (Some send_record_event)
            (g_capture w) w
      in w1\<lparr>g_capture := c\<rparr>)"

definition flow_fault_step :: "'e sdk \<Rightarrow> 'e globals \<Rightarrow> 'e globals" where
  "flow_fault_step sdk w =
     (if g_flow_fault w then pico_mode_state_protocol_error (mode_cb sdk) (w\<lparr>g_flow_fault := False\<rparr>) else w)"

definition watchdog_step :: "'e sdk \<Rightarrow> 'e globals \<Rightarrow> 'e globals" where
  "watchdog_step sdk w =
     (if pico_mode_state_get (Some (mode_state w)) = PICO_UART_MODE_PLAYING then
        (let (now, w1) = time_us_64 sdk w in
         if pico_playback_scheduler_watchdog_expired (Some (w_sched w1)) now
         then pico_mode_state_underrun_fault (mode_cb sdk) w1 else w1)
      else w)"

definition transmit_step :: "'e sdk \<Rightarrow> 'e globals \<Rightarrow> 'e globals" where
  "transmit_step sdk w =
     (let (t, w1) = pico_uart_transport_tx_task sdk (Some (g_transport w)) w
      in w1\<lparr>g_transport := the t\<rparr>)"

definition PICO_RECORD_LOOP_INTERVAL_US :: nat where "PICO_RECORD_LOOP_INTERVAL_US = 200"

definition idle_step :: "'e board \<Rightarrow> 'e globals \<Rightarrow> 'e globals" where
  "idle_step bd w =
     (let loop_mode = pico_mode_state_get (Some (mode_state w)) in
      if loop_mode = PICO_UART_MODE_PLAYING then w\<lparr>hw := bd_tight_loop_contents bd (hw w)\<rparr>
      else if loop_mode = PICO_UART_MODE_RECORD then w\<lparr>hw := bd_sleep_us bd PICO_RECORD_LOOP_INTERVAL_US (hw w)\<rparr>
      else w\<lparr>hw := bd_sleep_ms bd 1 (hw w)\<rparr>)"

text \<open>
  One pass of the loop up to the transmission; it also returns what became of the pending release, as
  a hook of the test builds looks at it. The idle call ends the iteration.
\<close>

definition main_pass :: "'e board \<Rightarrow> 'e globals \<Rightarrow> (pico_safety_release_result \<times> 'e globals) option" where
  "main_pass bd w =
     (let sdk = bd_sdk bd; (before_poll, w1) = call_hw (bd_uart_irqs bd) (usb_tasks bd w) in
      do {
        w2 \<leftarrow> uart_irqs sdk before_poll w1;
        w3 \<leftarrow> (let (after_poll, w') = call_hw (bd_uart_irqs bd) (poll_step w2) in uart_irqs sdk after_poll w');
        w4 \<leftarrow> command_loop sdk (fault_step sdk w3);
        (let (release_result, w5) = release_step sdk w4 in
         do {
           w6 \<leftarrow> pico_playback_scheduler_task (sched_cb sdk) sdk (dispatch_step sdk release_result w5);
           Some (release_result, transmit_step sdk (watchdog_step sdk (flow_fault_step sdk w6)))
         })
      })"

definition main_iteration :: "'e board \<Rightarrow> 'e globals \<Rightarrow> 'e globals option" where
  "main_iteration bd w = do { (release_result, w1) \<leftarrow> main_pass bd w; Some (idle_step bd w1) }"

definition main_init :: "'e \<Rightarrow> 'e globals" where
  "main_init e =
     \<lparr>mode_state = PICO_UART_MODE_PASS, hw = e, hid_out = [], uart_out = [],
      w_queue = pico_playback_queue_init, w_sched = pico_playback_scheduler_init True,
      g_capture = pico_keyboard_capture_init, g_transport = pico_uart_transport_init,
      g_safety = the (pico_safety_release_init (Some \<lparr>sr_pending = False\<rparr>)), g_flow_fault = False,
      g_host = pico_hid_keyboard_host_init True True\<rparr>"

primrec main_loop :: "nat \<Rightarrow> 'e board \<Rightarrow> 'e globals \<Rightarrow> 'e globals option" where
  "main_loop 0 bd w = Some w"
| "main_loop (Suc n) bd w = do { w1 \<leftarrow> main_iteration bd w; main_loop n bd w1 }"

end
