(* ===== verification/Playback_Timing.thy ===== *)
theory Playback_Timing
  imports Playback_Scheduler
begin

text \<open>
  More about \<open>pico/src/playback_scheduler.c\<close>: invariants of the program state that the steps of the
  scheduler keep, the deadlines reports are sent against, the underrun watchdog, and the figures
  reported at the end of a run.
\<close>

section \<open>Invariants of the surrounding program\<close>

text \<open>
  \<open>same_run s s'\<close>: the changes of the scheduler state inside a run, which the rest of the program
  does not depend on. A predicate kept by those, by hardware steps, by taking the head of the queue
  and by the callbacks is kept by \<open>start\<close> and \<open>task\<close>.
\<close>

definition same_run :: "playback_scheduler \<Rightarrow> playback_scheduler \<Rightarrow> bool" where
  "same_run s s' \<longleftrightarrow> ps_queue s' = ps_queue s \<and> ps_running s' = ps_running s
     \<and> ps_sequence_ended s' = ps_sequence_ended s \<and> (samples_inv s \<longrightarrow> samples_inv s')"

lemma same_run_updates [simp]:
  "same_run s s"
  "same_run s (s\<lparr>ps_alarm_fired := b\<rparr>)" "same_run s (s\<lparr>ps_alarm_armed := b\<rparr>)"
  "same_run s (s\<lparr>ps_waiting_for_event := b\<rparr>)"
  "same_run s (s\<lparr>ps_waiting_for_event := b, ps_underrun_active := b', ps_next_deadline_us := d\<rparr>)"
  "same_run s (s\<lparr>ps_underrun_active := b, ps_underrun_since_us := d, ps_underrun_count := n\<rparr>)"
  "same_run s (s\<lparr>ps_alarm_id := i, ps_alarm_armed := b\<rparr>)"
  "same_run s (record_lateness l s)"
  by (simp_all add: same_run_def record_lateness_samples(1)) (simp add: record_lateness_def Let_def)

locale sched_invariant = sched_client +
  fixes I :: "('a, 'b) sched_world_scheme \<Rightarrow> bool"
  assumes I_hw: "I w \<Longrightarrow> I (w\<lparr>hw := e\<rparr>)"
    and I_sched: "I w \<Longrightarrow> same_run (w_sched w) s \<Longrightarrow> I (w\<lparr>w_sched := s\<rparr>)"
    and I_pop: "I w \<Longrightarrow> I (w\<lparr>w_queue := snd (pico_playback_queue_pop (w_queue w))\<rparr>)"
    and I_send: "I w \<Longrightarrow> I (snd (send r w))"
    and I_und: "I w \<Longrightarrow> I (und off room w)"
    and I_buf: "I w \<Longrightarrow> I (buf w)"
    and I_finish: "I w \<Longrightarrow> ps_running (w_sched w) \<Longrightarrow> pq_count (w_queue w) = 0 \<Longrightarrow>
      same_run (w_sched w) (s\<lparr>ps_running := True\<rparr>) \<Longrightarrow> \<not> ps_running s \<Longrightarrow>
      I (cmp PICO_UART_REASON_FINISHED m (w\<lparr>w_sched := s\<rparr>))"
begin

lemma I_update: "I w \<Longrightarrow> same_run (w_sched w) (f (w_sched w)) \<Longrightarrow> I (sched_update f w)"
  by (simp add: sched_update_def I_sched)

lemma I_call [simp]: "I w \<Longrightarrow> I (snd (call_hw f w))" "I w \<Longrightarrow> I (snd (time_us_64 sdk w))"
  by (simp_all add: I_hw time_us_64_def)

lemma I_disarm: "I w \<Longrightarrow> I (clear_fired (disarm sdk w))" "I w \<Longrightarrow> I (clear_fired w)"
  unfolding disarm_def clear_fired_def Let_def by (intro I_update I_call; simp)+

lemma I_arm_alarm: "I w \<Longrightarrow> I (arm_alarm sdk w)"
  unfolding arm_alarm_def Let_def split_beta by (auto intro!: I_update I_hw simp del: call_hw_result I_call intro: I_call)

lemma I_begin_underrun: "I w \<Longrightarrow> I (begin_underrun (all_sched_callbacks send cmp und buf) sdk w)"
  unfolding begin_underrun_def Let_def split_beta
  by (auto intro!: I_und I_update simp del: I_call intro: I_call)

lemma I_exit:
  assumes "I w" "ps_running (w_sched w)" "pq_count (w_queue w) = 0" "samples_inv (w_sched w)"
  shows "I (queue_empty_exit (all_sched_callbacks send cmp und buf) sdk w)"
proof -
  have "same_run (w_sched w) ((w_sched w)\<lparr>ps_running := False,
      ps_lateness_samples := sort_samples (ps_lateness_samples (w_sched w)) (ps_sample_count (w_sched w)),
      ps_running := True\<rparr>)"
    using assms by (simp add: same_run_def samples_inv_def length_sort_samples)
  then have "I (finish (all_sched_callbacks send cmp und buf) PICO_UART_REASON_FINISHED w)"
    using assms unfolding finish_def Let_def
    by (simp add: sched_update_def) (rule I_finish; simp)
  with assms(1) show ?thesis by (simp add: queue_empty_exit_def I_begin_underrun)
qed

lemma I_arm_next:
  assumes "I w" "ps_running (w_sched w)" "samples_inv (w_sched w)"
  shows "I (snd (arm_next (all_sched_callbacks send cmp und buf) sdk w))"
proof -
  define w1 where "w1 = (if ps_alarm_armed (w_sched w) then clear_fired (disarm sdk w) else w)"
  have w1: "I w1" "ps_running (w_sched w1)" "samples_inv (w_sched w1)" "w_queue w1 = w_queue w"
    using assms by (auto simp: w1_def intro: I_disarm)
  show ?thesis
    unfolding arm_next_def Let_def w1_def [symmetric]
    using w1 by (auto simp: peek_None_iff intro!: I_exit I_arm_alarm I_update split: option.split)
qed

lemma I_event_due: "I w \<Longrightarrow> I (snd (event_due sdk w))"
  unfolding event_due_def exchange_fired_def Let_def split_beta
  by (auto intro!: I_disarm I_update simp: alarm_isr_def simp del: call_hw_result I_call intro: I_call)

lemma I_after_send:
  assumes "I w" "ps_running (w_sched w)" "samples_inv (w_sched w)"
  shows "I (snd (after_send (all_sched_callbacks send cmp und buf) sdk w))"
proof -
  define w1 where "w1 = w\<lparr>w_queue := snd (pico_playback_queue_pop (w_queue w))\<rparr>"
  define w2 where "w2 = (if pico_playback_queue_free_capacity (Some (w_queue w)) = 0
     \<and> \<not> ps_sequence_ended (w_sched w1) then buf w1 else w1)"
  have "I w2" "w_sched w2 = w_sched w" using I_pop [OF assms(1)] by (auto simp: w2_def w1_def buf_effect intro: I_buf)
  with assms show ?thesis
    unfolding after_send_def Let_def split_beta call_back_simps all_sched_callbacks_simps
      w1_def [symmetric] w2_def [symmetric]
    by (intro I_arm_next I_update I_call) (simp_all add: record_lateness_samples(1))
qed

lemma I_round:
  assumes "I w" "sched_ok (w_queue w) (w_sched w)" "ps_running (w_sched w)"
  shows "I (snd (task_round (all_sched_callbacks send cmp und buf) sdk w))"
proof -
  have samples: "samples_inv (w_sched w)" using assms(2) by (simp add: sched_ok_def)
  have start: "I w1" if "round_entry (all_sched_callbacks send cmp und buf) sdk w = (go, w1)" for go w1
    using that I_arm_next [OF assms(1,3) samples, of sdk] assms(1) by (auto simp: round_entry_def split: if_splits)
  have due: "I w2" if "round_entry (all_sched_callbacks send cmp und buf) sdk w = (go, w1)" "event_due sdk w1 = (d, w2)" for go w1 d w2
    using I_event_due [OF start [OF that(1)], of sdk] that(2) by simp
  show ?thesis
  proof (cases rule: round_cases [of sdk w])
    case (empty w1 w2)
    with due_law(5) [OF assms(2,3) empty(1,2)] show ?thesis by simp
  next
    case (refused w1 w2 e w3)
    with I_send [OF due [OF refused(1,2)], of "qe_report e"] show ?thesis by simp
  next
    case (sent w1 w2 e w3)
    note w2 = due_law [OF assms(2,3) sent(1,2)]
    have "I w3" "w_sched w3 = w_sched w2"
      using I_send [OF due [OF sent(1,2)], of "qe_report e"] send_effect(2) [of "qe_report e" w2] sent(4) by simp_all
    with w2 sent(5) show ?thesis by (simp add: I_after_send sched_law_def sched_ok_def)
  qed (use start due in auto)
qed

lemma I_task:
  assumes "I w" "sched_ok (w_queue w) (w_sched w)"
  shows "\<exists>w'. pico_playback_scheduler_task (all_sched_callbacks send cmp und buf) sdk w = Some w' \<and> sched_law w w' \<and> I w'"
  using assms
proof (induction "pq_count (w_queue w)" arbitrary: w rule: less_induct)
  case less
  let ?r = "task_round (all_sched_callbacks send cmp und buf) sdk w"
  show ?case
  proof (cases "ps_running (w_sched w)")
    case False
    with less(2,3) show ?thesis by (subst pico_playback_scheduler_task.simps) (simp add: sched_law_def)
  next
    case True
    note law = task_round_law [OF less(3) True, of sdk] and I' = I_round [OF less(2,3) True, of sdk]
    show ?thesis
    proof (cases "fst ?r")
      case False
      with True law I' show ?thesis
        by (subst pico_playback_scheduler_task.simps) (simp add: split_beta Let_def)
    next
      case go: True
      with law have "sched_ok (w_queue (snd ?r)) (w_sched (snd ?r))" by (simp add: sched_law_def)
      from less(1) [OF _ I' this] law go obtain w'
        where "pico_playback_scheduler_task (all_sched_callbacks send cmp und buf) sdk (snd ?r) = Some w'"
          "sched_law (snd ?r) w'" "I w'" by auto
      with True go law show ?thesis
        by (subst pico_playback_scheduler_task.simps) (auto simp: split_beta Let_def intro: sched_law_trans)
    qed
  qed
qed

end

section \<open>Reports are sent when due\<close>

lemma event_due_iff:
  "fst (event_due sdk w) \<longleftrightarrow> ps_alarm_fired (w_sched w) \<or> fst (sdk_alarm_irq sdk (hw w))
     \<or> ps_next_deadline_us (w_sched w) \<le> fst (sdk_time_us_64 sdk (snd (sdk_alarm_irq sdk (hw w))))"
  by (simp add: event_due_def exchange_fired_def Let_def split_beta alarm_isr_def time_us_64_def clear_fired_def
      not_less)

text \<open>The state in which a round looks at the clock: after leaving a wait, if there was one.\<close>

text \<open>
  When the task returns while the run goes on, there was a reason: the queue is empty, the endpoint refused the
  head, or the last thing the task did was to read a clock before the deadline of the head.
\<close>

definition idle_reason ::
    "(hid_report \<Rightarrow> ('e, 'z) sched_world_scheme \<Rightarrow> bool \<times> ('e, 'z) sched_world_scheme) \<Rightarrow> 'e sdk
      \<Rightarrow> ('e, 'z) sched_world_scheme \<Rightarrow> bool" where
  "idle_reason send sdk w \<longleftrightarrow> pq_count (w_queue w) = 0
     \<or> (\<exists>e. pico_playback_queue_peek (w_queue w) = Some e
          \<and> ((\<exists>v. send (qe_report e) v = (False, w))
             \<or> (\<exists>x. fst (sdk_time_us_64 sdk x) < ps_playback_start_us (w_sched w) + qe_offset_us e
                  \<and> hw w = snd (sdk_time_us_64 sdk x))))"

lemma event_due_waits:
  assumes "\<not> fst (event_due sdk w)"
  shows "\<exists>x. fst (sdk_time_us_64 sdk x) < ps_next_deadline_us (w_sched w) \<and> hw (snd (event_due sdk w)) = snd (sdk_time_us_64 sdk x)"
proof -
  let ?x = "snd (sdk_alarm_irq sdk (hw w))"
  have "fst (sdk_time_us_64 sdk ?x) < ps_next_deadline_us (w_sched w)"
    using assms by (auto simp: event_due_iff not_le)
  moreover have "hw (snd (event_due sdk w)) = snd (sdk_time_us_64 sdk ?x)"
    using assms by (auto simp: event_due_def exchange_fired_def Let_def split_beta alarm_isr_def time_us_64_def clear_fired_def
        split: if_splits)
  ultimately show ?thesis by blast
qed

context sched_client
begin

lemma finish_hid_out [simp]: "hid_out (finish (all_sched_callbacks send cmp und buf) reason w) = hid_out w"
  by (simp add: finish_def Let_def cmp_effect)

lemma exit_hid_out [simp]: "hid_out (queue_empty_exit (all_sched_callbacks send cmp und buf) sdk w) = hid_out w"
  by (simp add: queue_empty_exit_def begin_underrun_def Let_def split_beta und_effect time_us_64_def)

lemma arm_next_hid_out [simp]: "hid_out (snd (arm_next (all_sched_callbacks send cmp und buf) sdk w)) = hid_out w"
  by (simp add: arm_next_def Let_def split: option.split)

lemma after_send_hid_out [simp]: "hid_out (snd (after_send (all_sched_callbacks send cmp und buf) sdk w)) = hid_out w"
  by (simp add: after_send_def Let_def split_beta buf_effect)

lemma entry_hid_out: "hid_out (snd (round_entry (all_sched_callbacks send cmp und buf) sdk w)) = hid_out w"
  by (simp add: round_entry_def)

lemma round_sends:
  fixes sdk :: "'e sdk"
  assumes "sched_ok (w_queue w) (w_sched w)" "ps_running (w_sched w)"
    "hid_out (snd (task_round (all_sched_callbacks send cmp und buf) sdk w)) \<noteq> hid_out w"
  defines "w1 \<equiv> snd (round_entry (all_sched_callbacks send cmp und buf) sdk w)"
  shows "\<exists>e. pico_playback_queue_peek (w_queue w) = Some e
    \<and> hid_out (snd (task_round (all_sched_callbacks send cmp und buf) sdk w)) = hid_out w @ [report_bytes (qe_report e)]
    \<and> ps_next_deadline_us (w_sched w1) = ps_playback_start_us (w_sched w1) + qe_offset_us e
    \<and> fst (event_due sdk w1)"
proof -
  have hid: "hid_out v = hid_out w" if "round_entry (all_sched_callbacks send cmp und buf) sdk w = (go, v)" for go v
    using that entry_hid_out [of sdk w] by simp
  have due: "hid_out v' = hid_out w"
    if "round_entry (all_sched_callbacks send cmp und buf) sdk w = (go, v)" "event_due sdk v = (d, v')" for v v' d go
    using that(2) event_due_steps(2) [of sdk v] hid [OF that(1)] by simp
  show ?thesis
  proof (cases rule: round_cases [of sdk w])
    case (entry v1)
    with assms(3) hid [OF entry(1)] show ?thesis by simp
  next
    case (early v1 v2)
    with assms(3) due [OF early(1,2)] show ?thesis by simp
  next
    case (empty v1 v2)
    with assms(3) due [OF empty(1,2)] show ?thesis by simp
  next
    case (refused v1 v2 e v3)
    with assms(3) due [OF refused(1,2)] send_effect(3) [of "qe_report e" v2] show ?thesis by simp
  next
    case (sent v1 v2 e v3)
    note entry = entry_law(2) [OF assms(1,2) sent(1)] and queue = due_law(3) [OF assms(1,2) sent(1,2)]
    have "hid_out v3 = hid_out w @ [report_bytes (qe_report e)]"
      using send_effect(3) [of "qe_report e" v2] sent(4) due [OF sent(1,2)] by simp
    with entry queue sent show ?thesis by (auto simp: w1_def)
  qed
qed

lemma exit_empty:
  "pq_count (w_queue w) = 0 \<Longrightarrow> pq_count (w_queue (queue_empty_exit (all_sched_callbacks send cmp und buf) sdk w)) = 0"
  by (simp add: queue_empty_exit_def finish_def begin_underrun_def Let_def split_beta cmp_effect und_effect)

lemma arm_next_stops:
  "\<not> fst (arm_next (all_sched_callbacks send cmp und buf) sdk w) \<Longrightarrow>
   pq_count (w_queue (snd (arm_next (all_sched_callbacks send cmp und buf) sdk w))) = 0"
  by (cases "ps_alarm_armed (w_sched w)")
    (auto simp: arm_next_def Let_def peek_None_iff exit_empty split: option.splits)

lemma round_stops:
  fixes sdk :: "'e sdk"
  assumes "sched_ok (w_queue w) (w_sched w)" "ps_running (w_sched w)"
    "\<not> fst (task_round (all_sched_callbacks send cmp und buf) sdk w)"
  shows "idle_reason send sdk (snd (task_round (all_sched_callbacks send cmp und buf) sdk w))"
proof (cases rule: round_cases [of sdk w])
  case (entry w1)
  with arm_next_stops [of sdk w] show ?thesis by (simp add: round_entry_def idle_reason_def split: if_splits)
next
  case (early w1 w2)
  from due_law(5) [OF assms(1,2) early(1,2)] event_due_waits [of sdk w1] early(2,3) show ?thesis
    by (auto simp: idle_reason_def)
next
  case (empty w1 w2)
  with due_law(5) [OF assms(1,2) empty(1,2)] show ?thesis by simp
next
  case (refused w1 w2 e w3)
  with send_effect(1) [of "qe_report e" w2] show ?thesis by (auto simp: idle_reason_def)
next
  case (sent w1 w2 e w3)
  have "pq_count (w_queue (snd (after_send (all_sched_callbacks send cmp und buf) sdk w3))) = 0"
    using assms(3) sent(5) arm_next_stops [of sdk] by (simp add: after_send_def Let_def split_beta)
  with sent(5) show ?thesis by (simp add: idle_reason_def)
qed

lemma task_stops:
  fixes sdk :: "'e sdk"
  assumes "pico_playback_scheduler_task (all_sched_callbacks send cmp und buf) sdk w = Some w'"
    "sched_ok (w_queue w) (w_sched w)" "ps_running (w_sched w')"
  shows "idle_reason send sdk w'"
  using assms
proof (induction "pq_count (w_queue w)" arbitrary: w rule: less_induct)
  case less
  let ?r = "task_round (all_sched_callbacks send cmp und buf) sdk w"
  have run: "ps_running (w_sched w)"
    using less(2,4) by (subst (asm) pico_playback_scheduler_task.simps) (auto split: if_splits)
  note law = task_round_law [OF less(3) run, of sdk]
  show ?case
  proof (cases "fst ?r")
    case False
    with less(2) run have "w' = snd ?r"
      by (subst (asm) pico_playback_scheduler_task.simps) (simp add: split_beta Let_def)
    with round_stops [OF less(3) run False] show ?thesis by simp
  next
    case go: True
    with less(2) run have "pico_playback_scheduler_task (all_sched_callbacks send cmp und buf) sdk (snd ?r) = Some w'"
      by (subst (asm) pico_playback_scheduler_task.simps) (simp add: split_beta Let_def)
    from less(1) [OF _ this _ less(4)] law go show ?thesis by (simp add: sched_law_def)
  qed
qed

end

section \<open>Underruns\<close>

text \<open>An underrun is entered once, reported once, and left only by new events or the end of the run.\<close>

definition in_underrun :: "playback_scheduler \<Rightarrow> u64 \<Rightarrow> bool" where
  "in_underrun s since \<longleftrightarrow> ps_running s \<and> ps_waiting_for_event s \<and> ps_underrun_active s
     \<and> ps_underrun_since_us s = since \<and> \<not> ps_alarm_armed s \<and> \<not> ps_sequence_ended s"

lemma underrun_quiet:
  assumes "in_underrun (w_sched w) since" "pq_count (w_queue w) = 0"
  shows "pico_playback_scheduler_task cb sdk w = Some w"
proof -
  have "begin_underrun cb sdk w = w"
    using assms(1) by (simp add: begin_underrun_def in_underrun_def sched_update_def Let_def)
  moreover have "pico_playback_queue_peek (w_queue w) = None" using assms(2) by (simp add: peek_None_iff)
  ultimately have "arm_next cb sdk w = (False, w)"
    using assms(1) by (simp add: arm_next_def in_underrun_def queue_empty_exit_def)
  then have "task_round cb sdk w = (False, w)"
    using assms(1) by (simp add: task_round_def in_underrun_def)
  with assms(1) show ?thesis by (subst pico_playback_scheduler_task.simps) (simp add: in_underrun_def)
qed

lemma underrun_entry:
  fixes sdk :: "'e sdk"
  assumes "ps_running (w_sched w)" "\<not> ps_underrun_active (w_sched w)" "\<not> ps_sequence_ended (w_sched w)"
    "pq_count (w_queue w) = 0" "sc_on_underrun cb = Some und" "\<And>off room v. w_sched (und off room v) = w_sched v"
  defines "w1 \<equiv> (if ps_alarm_armed (w_sched w) then clear_fired (disarm sdk w) else w)"
  shows "fst (arm_next cb sdk w) = False"
    "in_underrun (w_sched (snd (arm_next cb sdk w))) (fst (sdk_time_us_64 sdk (hw w1)))"
    "ps_underrun_count (w_sched (snd (arm_next cb sdk w))) = ps_underrun_count (w_sched w) + 1"
proof -
  have "pico_playback_queue_peek (w_queue w) = None" using assms(4) by (simp add: peek_None_iff)
  then show "fst (arm_next cb sdk w) = False"
    "in_underrun (w_sched (snd (arm_next cb sdk w))) (fst (sdk_time_us_64 sdk (hw w1)))"
    "ps_underrun_count (w_sched (snd (arm_next cb sdk w))) = ps_underrun_count (w_sched w) + 1"
    using assms(1-3,5,6)
    by (simp_all add: w1_def arm_next_def queue_empty_exit_def begin_underrun_def Let_def split_beta
        in_underrun_def time_us_64_def)
qed

lemma watchdog_iff:
  assumes "in_underrun s since"
  shows "pico_playback_scheduler_watchdog_expired (Some s) now \<longleftrightarrow> unat since + 2000000 \<le> unat now"
proof -
  have "unat (now - since) = unat now - unat since" if "since \<le> now" using that by (rule unat_sub)
  then show ?thesis
    using assms by (auto simp: pico_playback_scheduler_watchdog_expired_def in_underrun_def word_le_nat_alt)
qed

section \<open>The figures of a run\<close>

text \<open>What \<open>finish\<close> reports: the figures after sorting the log.\<close>

definition run_figures :: "playback_scheduler \<Rightarrow> playback_metrics" where
  "run_figures s = metrics_of (s\<lparr>ps_running := False,
     ps_lateness_samples := sort_samples (ps_lateness_samples s) (ps_sample_count s)\<rparr>)"

lemma finish_reports:
  "sc_on_complete cb = Some cmp \<Longrightarrow> \<exists>v. finish cb reason w = cmp reason (run_figures (w_sched w)) v
     \<and> \<not> ps_running (w_sched v) \<and> w_queue v = w_queue w"
  by (auto simp: finish_def Let_def run_figures_def)

lemma records_percentile:
  assumes "records ls s" "ls \<noteq> []" "length ls \<le> 2048" "0 < unat p" "unat p \<le> 100"
  shows "percentile (sort_samples (ps_lateness_samples s) (ps_sample_count s)) (ps_sample_count s) p
    = sort ls ! (nearest_rank (unat p) (length ls) - 1)"
proof -
  let ?n = "ps_sample_count s"
  have n: "unat ?n = length ls" and inv: "samples_inv s"
    using assms(1,3) by (simp_all add: records_def)
  have "take (unat ?n) (ps_lateness_samples s) = take 2048 ls"
    using assms(1) unfolding records_def by blast
  also have "\<dots> = ls" using assms(3) by simp
  finally have tk: "take (unat ?n) (ps_lateness_samples s) = ls" .
  have "0 < unat ?n" using n assms(2) by simp
  moreover have "unat ?n \<le> 2048" using n assms(3) by simp
  ultimately have pc: "percentile xs ?n p = xs ! (nearest_rank (unat p) (length ls) - 1)"
      "0 < nearest_rank (unat p) (length ls)" "nearest_rank (unat p) (length ls) \<le> length ls" for xs
    using percentile_eq [of ?n p] assms(4,5) unfolding n by simp_all
  have le: "unat ?n \<le> length (ps_lateness_samples s)" using inv by (simp add: samples_inv_def)
  have "sort_samples (ps_lateness_samples s) ?n = sort ls @ drop (length ls) (ps_lateness_samples s)"
    using sort_samples_eq [OF le] tk n by simp
  moreover have "nearest_rank (unat p) (length ls) - 1 < length (sort ls)" using pc(2,3) by (cases "nearest_rank (unat p) (length ls)") auto
  ultimately show ?thesis by (simp add: pc(1) nth_append)
qed

lemma figures_of_run:
  assumes "records ls s" "ls \<noteq> []" "length ls \<le> 2048"
  shows "pm_dispatched_count (run_figures s) = of_nat (length ls)"
    "pm_min_lateness_us (run_figures s) = Min (set ls)" "pm_max_lateness_us (run_figures s) = Max (set ls)"
    "pm_sum_lateness_us (run_figures s) = word_of_int (\<Sum>l \<leftarrow> ls. i32_int l)"
    "pm_p95_lateness_us (run_figures s) = sort ls ! (nearest_rank 95 (length ls) - 1)"
    "pm_p99_lateness_us (run_figures s) = sort ls ! (nearest_rank 99 (length ls) - 1)"
    "\<not> pm_samples_truncated (run_figures s)"
  using assms records_percentile [OF assms, of 95] records_percentile [OF assms, of 99]
  by (simp_all add: run_figures_def metrics_of_def records_def)

section \<open>Lateness\<close>

lemma lateness_clamp:
  "i32_int (lateness_us d deadline) = max (-2147483648) (min 2147483647 (sint (d - deadline)))"
  by (auto simp: lateness_us_def Let_def i32_int_of_int)

lemma lateness_on_time:
  assumes "deadline \<le> d" "unat d - unat deadline < 2 ^ 63"
  shows "i32_int (lateness_us d deadline) = min 2147483647 (int (unat d - unat deadline))"
proof -
  have "unat (d - deadline) = unat d - unat deadline" using assms(1) by (rule unat_sub)
  then have u: "uint (d - deadline) = int (unat d - unat deadline)" by (metis uint_nat)
  have "int (unat d - unat deadline) < int (2 ^ 63)" using assms(2) by (simp only: of_nat_less_iff)
  then have bound: "uint (d - deadline) < 2 ^ 63" using u by simp
  have "sint (d - deadline) = signed_take_bit 63 (uint (d - deadline))"
    by (simp add: sint_uint)
  also have "\<dots> = uint (d - deadline)"
    using bound by (intro signed_take_bit_int_eq_self) (use uint_nonnegative [of "d - deadline"] in linarith)+
  finally show ?thesis using u by (simp add: lateness_clamp)
qed

end
