(* ===== verification/Firmware_Invariant.thy ===== *)
theory Firmware_Invariant
  imports Firmware Playback_Timing "HOL-Library.Sublist"
begin

text \<open>
  The invariant of \<open>pico/src/main.c\<close>: the invariants of the components and the rules that tie the
  mode to them. It holds at the start, every step of the main loop keeps it, and the main loop
  returns from every iteration.
\<close>

section \<open>What the callbacks change\<close>

text \<open>
  \<open>tx_like\<close>: a transport that differs in its transmit ring and the drop counter only, and whose ring
  grew by whole messages.
\<close>

definition tx_like :: "uart_transport \<Rightarrow> uart_transport \<Rightarrow> bool" where
  "tx_like t t' \<longleftrightarrow> (ut_inv t \<longrightarrow> ut_inv t' \<and> rx_view t' = rx_view t \<and> cmd_view t' = cmd_view t
     \<and> parser_prefix t' = parser_prefix t \<and> ut_fault_pending t' = ut_fault_pending t
     \<and> ut_command_head t' = ut_command_head t \<and> ut_command_tail t' = ut_command_tail t \<and> says t t')"

lemma tx_like_refl [simp]: "tx_like t t"
  by (simp add: tx_like_def)

lemma tx_like_trans: "tx_like t u \<Longrightarrow> tx_like u v \<Longrightarrow> tx_like t v"
  by (auto simp: tx_like_def intro: says_trans)

lemma tx_like_queue:
  "sendable ty payload len \<Longrightarrow> tx_like t (snd (pico_uart_transport_queue_frame ty payload len t))"
  unfolding tx_like_def using queue_frame_inv queue_frame_frames queue_frame_says by (simp add: ut_inv_def)

definition tx_only_step :: "'e globals \<Rightarrow> 'e globals \<Rightarrow> bool" where
  "tx_only_step w w' \<longleftrightarrow> w' = w\<lparr>g_transport := g_transport w'\<rparr> \<and> tx_like (g_transport w) (g_transport w')"

lemma tx_only_step_refl [simp]: "tx_only_step w w"
  by (simp add: tx_only_step_def)

lemma tx_only_step_trans: "tx_only_step u v \<Longrightarrow> tx_only_step v w \<Longrightarrow> tx_only_step u w"
  unfolding tx_only_step_def by (cases u; cases v; cases w) (auto intro: tx_like_trans)

lemma tx_only_step_frame [simp]: "sendable ty payload len \<Longrightarrow> tx_only_step w (snd (tx_frame ty payload len w))"
  by (simp add: tx_only_step_def tx_frame_def split_beta tx_like_queue)

lemma tx_only_step_fields:
  assumes "tx_only_step w w'"
  shows "mode_state w' = mode_state w" "hw w' = hw w" "hid_out w' = hid_out w" "uart_out w' = uart_out w"
    "w_queue w' = w_queue w" "w_sched w' = w_sched w" "g_capture w' = g_capture w"
    "g_safety w' = g_safety w" "g_flow_fault w' = g_flow_fault w" "g_host w' = g_host w"
    "tx_like (g_transport w) (g_transport w')"
  using assms unfolding tx_only_step_def by (cases w; cases w'; simp)+

lemma tx_frame_fields [simp]:
  "mode_state (snd (tx_frame ty p n w)) = mode_state w" "hw (snd (tx_frame ty p n w)) = hw w"
  "hid_out (snd (tx_frame ty p n w)) = hid_out w" "uart_out (snd (tx_frame ty p n w)) = uart_out w"
  "w_queue (snd (tx_frame ty p n w)) = w_queue w" "w_sched (snd (tx_frame ty p n w)) = w_sched w"
  "g_capture (snd (tx_frame ty p n w)) = g_capture w" "g_safety (snd (tx_frame ty p n w)) = g_safety w"
  "g_flow_fault (snd (tx_frame ty p n w)) = g_flow_fault w" "g_host (snd (tx_frame ty p n w)) = g_host w"
  by (simp_all add: tx_frame_def split_beta)

lemma mode_changed_tx [simp]: "tx_only_step w (mode_changed s r w)"
  by (simp add: mode_changed_def)

lemma send_buffer_status_tx [simp]: "tx_only_step w (snd (send_buffer_status w))"
  by (simp add: send_buffer_status_def Let_def)

lemma send_status_tx [simp]: "tx_only_step w (send_status w)"
  by (simp add: send_status_def Let_def)

lemma send_record_event_tx [simp]: "ce_report_len e = 8 \<Longrightarrow> tx_only_step w (send_record_event e w)"
  by (simp add: send_record_event_def Let_def nth_append)

lemma length_metrics_payload [simp]: "length (metrics_payload m) = 33"
  by (simp add: metrics_payload_def)

lemma tx_only_step_completion [simp]:
  "ty = PICO_UART_PLAY_FINISHED \<or> ty = PICO_UART_PLAY_ABORTED \<Longrightarrow>
   tx_only_step w (snd (tx_frame PICO_UART_PLAY_METRICS (Some (metrics_payload m)) 33 (snd (tx_frame ty None 0 w))))"
  by (rule tx_only_step_trans [of _ "snd (tx_frame ty None 0 w)"]) auto

section \<open>Stopping, clearing and the mode operations\<close>

text \<open>Stopping: at most the hardware, the scheduler and the transmit ring change.\<close>

definition stopped_like :: "playback_scheduler \<Rightarrow> playback_scheduler \<Rightarrow> bool" where
  "stopped_like s s' \<longleftrightarrow> \<not> ps_running s' \<and> ps_queue s' = ps_queue s \<and> (samples_inv s \<longrightarrow> samples_inv s')"

lemma playback_complete_aborted:
  "reason \<noteq> PICO_UART_REASON_FINISHED \<Longrightarrow> tx_only_step w (playback_complete n sdk reason m w)"
  by (cases n) (simp_all add: Let_def)

lemma globals_steps [simp]:
  "g_capture (sched_update f w) = g_capture w" "g_transport (sched_update f w) = g_transport w"
  "g_safety (sched_update f w) = g_safety w" "g_flow_fault (sched_update f w) = g_flow_fault w"
  "g_host (sched_update f w) = g_host w"
  "g_capture (snd (call_hw h w)) = g_capture w" "g_transport (snd (call_hw h w)) = g_transport w"
  "g_safety (snd (call_hw h w)) = g_safety w" "g_flow_fault (snd (call_hw h w)) = g_flow_fault w"
  "g_host (snd (call_hw h w)) = g_host w" "mode_state (snd (call_hw h w)) = mode_state w"
  "uart_out (snd (call_hw h w)) = uart_out w"
  by (simp_all add: sched_update_def call_hw_def split_beta)

text \<open>Everything but the hardware, the scheduler, the queue, the transmit ring and the flow fault.\<close>

definition same_rest :: "'e globals \<Rightarrow> 'e globals \<Rightarrow> bool" where
  "same_rest w w' \<longleftrightarrow> hid_out w' = hid_out w \<and> uart_out w' = uart_out w \<and> g_host w' = g_host w
     \<and> tx_like (g_transport w) (g_transport w')"

lemma same_rest_trans: "same_rest u v \<Longrightarrow> same_rest v w \<Longrightarrow> same_rest u w"
  by (auto simp: same_rest_def intro: tx_like_trans)

lemma tx_only_same_rest: "tx_only_step w w' \<Longrightarrow> same_rest w w'"
  using tx_only_step_fields by (auto simp: same_rest_def)

lemma stop_effect:
  fixes w :: "'e globals" and sdk :: "'e sdk" and n :: nat
  defines "w' \<equiv> pico_playback_scheduler_stop (scheduler_callbacks (playback_complete n sdk) sdk) sdk w"
  shows "same_rest w w' \<and> stopped_like (w_sched w) (w_sched w') \<and> mode_state w' = mode_state w
    \<and> w_queue w' = w_queue w \<and> g_capture w' = g_capture w \<and> g_safety w' = g_safety w"
proof (cases "ps_running (w_sched w)")
  case False
  then show ?thesis by (simp add: w'_def pico_playback_scheduler_stop_def stopped_like_def same_rest_def)
next
  case True
  define w2 where "w2 = sched_update (\<lambda>s. s\<lparr>ps_running := False,
      ps_lateness_samples := sort_samples (ps_lateness_samples s) (ps_sample_count s)\<rparr>)
      (clear_fired (if ps_alarm_armed (w_sched w) then disarm sdk w else w))"
  have w2: "same_rest w w2" "stopped_like (w_sched w) (w_sched w2)" "mode_state w2 = mode_state w"
    "w_queue w2 = w_queue w" "g_capture w2 = g_capture w" "g_safety w2 = g_safety w"
    by (simp_all add: w2_def clear_fired_def disarm_def Let_def stopped_like_def same_rest_def
        samples_inv_def length_sort_samples)
  have "w' = playback_complete n sdk PICO_UART_REASON_ABORTED (metrics_of (w_sched w2)) w2"
    using True by (simp add: w'_def w2_def pico_playback_scheduler_stop_def finish_def
        scheduler_callbacks_def Let_def)
  with playback_complete_aborted [of PICO_UART_REASON_ABORTED w2 n sdk]
  have tx: "tx_only_step w2 w'" by (simp add: reason_defs)
  from tx_only_step_fields [OF tx] w2 same_rest_trans [OF w2(1) tx_only_same_rest [OF tx]]
  show ?thesis by simp
qed

text \<open>The queue callback leaves the scheduler stopped between sequences and the queue empty.\<close>

definition between_runs :: "playback_scheduler \<Rightarrow> bool" where
  "between_runs s \<longleftrightarrow> \<not> ps_running s \<and> \<not> ps_sequence_ended s \<and> \<not> ps_waiting_for_event s \<and> \<not> ps_underrun_active s"

lemma clear_queue_effect:
  fixes w :: "'e globals" and sdk :: "'e sdk" and n :: nat
  defines "w' \<equiv> mode_clear_queue (playback_complete n sdk) sdk w"
  shows "same_rest w w' \<and> stopped_like (w_sched w) (w_sched w') \<and> between_runs (w_sched w')
    \<and> mode_state w' = mode_state w \<and> w_queue w' = pico_playback_queue_clear (w_queue w)
    \<and> g_capture w' = g_capture w \<and> g_safety w' = g_safety w \<and> \<not> g_flow_fault w'"
  using stop_effect [of w n sdk]
  by (auto simp: w'_def mode_clear_queue_def Let_def pico_playback_scheduler_reset_sequence_def
      stopped_like_def same_rest_def between_runs_def samples_inv_def)

text \<open>The effect of a mode operation by the entry of the transition table.\<close>

definition mode_effect :: "clearing \<Rightarrow> u8 \<Rightarrow> 'e globals \<Rightarrow> 'e globals \<Rightarrow> bool" where
  "mode_effect k s' w w' \<longleftrightarrow> same_rest w w' \<and> mode_state w' = s'
     \<and> g_capture w' = (if k = Keep then g_capture w else pico_keyboard_capture_clear (g_capture w))
     \<and> sr_pending (g_safety w') = (k \<noteq> Keep \<or> sr_pending (g_safety w))
     \<and> w_queue w' = (if k = Clear_All then pico_playback_queue_clear (w_queue w) else w_queue w)
     \<and> (if k = Clear_All then stopped_like (w_sched w) (w_sched w') \<and> between_runs (w_sched w')
        else w_sched w' = w_sched w)
     \<and> g_flow_fault w' = (k \<noteq> Clear_All \<and> g_flow_fault w)"

lemma mode_step_effect:
  assumes "mode_table op (mode_state w) = (k, s', reason, ok)"
  shows "fst (mode_step (mode_callbacks_with (playback_complete n sdk) sdk) op w) = ok"
    "mode_effect k s' w (snd (mode_step (mode_callbacks_with (playback_complete n sdk) sdk) op w))"
proof -
  let ?cb = "mode_callbacks_with (playback_complete n sdk) sdk"
  define w1 where "w1 = (if k = Keep then w else (apply_clearing ?cb k w)\<lparr>mode_state := s'\<rparr>)"
  have step: "mode_step ?cb op w = (ok, mode_changed (mode_state w1) reason w1)"
    using mode_step_table [OF assms, of ?cb]
    by (simp add: w1_def notify_def mode_callbacks_with_def all_callbacks_def)
  then show "fst (mode_step ?cb op w) = ok" by simp
  have "mode_effect k s' w w1"
  proof (cases k)
    case Keep
    with mode_table_next [OF assms] show ?thesis by (simp add: w1_def mode_effect_def same_rest_def)
  next
    case Clear_Input
    then show ?thesis
      by (simp add: w1_def mode_effect_def same_rest_def clear_and_release_def mode_callbacks_with_def
          all_callbacks_def mode_clear_physical_def mode_all_release_def pico_safety_release_request_def)
  next
    case Clear_All
    with clear_queue_effect [of w n sdk] show ?thesis
      by (simp add: w1_def mode_effect_def same_rest_def clear_and_release_def clear_release_and_queue_def
          mode_callbacks_with_def all_callbacks_def mode_clear_physical_def mode_all_release_def
          pico_safety_release_request_def)
  qed
  moreover have "tx_only_step w1 (mode_changed (mode_state w1) reason w1)" by simp
  note f = tx_only_step_fields [OF this] tx_only_same_rest [OF this]
  ultimately show "mode_effect k s' w (snd (mode_step ?cb op w))"
    unfolding step snd_conv mode_effect_def f(1-10) using same_rest_trans f(12) by auto
qed

section \<open>The invariant\<close>

text \<open>\<open>fw_core\<close>: the components are well-formed. \<open>fw_modes\<close>: what each mode implies.\<close>

definition fw_core :: "'e globals \<Rightarrow> bool" where
  "fw_core w \<longleftrightarrow> ut_inv (g_transport w) \<and> kc_inv (g_capture w) \<and> pq_inv (w_queue w)
     \<and> samples_inv (w_sched w) \<and> ps_queue (w_sched w) \<and> kh_capture (g_host w) \<and> kh_mode (g_host w)"

definition fw_modes :: "'e globals \<Rightarrow> bool" where
  "fw_modes w \<longleftrightarrow> mode_state w \<le> 4
     \<and> (ps_running (w_sched w) \<longleftrightarrow> mode_state w = PICO_UART_MODE_PLAYING)
     \<and> (mode_state w \<noteq> PICO_UART_MODE_PASS \<and> mode_state w \<noteq> PICO_UART_MODE_RECORD \<longrightarrow> kc_count (g_capture w) = 0)
     \<and> (mode_state w \<noteq> PICO_UART_MODE_ARMED \<and> mode_state w \<noteq> PICO_UART_MODE_PLAYING \<longrightarrow>
          pq_count (w_queue w) = 0 \<and> \<not> ps_sequence_ended (w_sched w))"

abbreviation fw_ok :: "'e globals \<Rightarrow> bool" where
  "fw_ok w \<equiv> fw_core w \<and> fw_modes w"

definition fw_inv :: "'e globals \<Rightarrow> bool" where
  "fw_inv w \<longleftrightarrow> fw_core w \<and> fw_modes w \<and> sched_ok (w_queue w) (w_sched w)"

lemma queue_clear_count [simp]: "pq_count (pico_playback_queue_clear q) = 0"
  by (simp add: pico_playback_queue_clear_def)

lemma main_init_inv: "fw_inv (main_init e)"
  by (simp add: fw_inv_def fw_core_def fw_modes_def main_init_def sched_ok_def samples_inv_def
      pico_playback_scheduler_init_def pico_hid_keyboard_host_init_def mode_defs
      pico_playback_queue_init_def [THEN arg_cong, of pq_count] pico_keyboard_capture_init_def [THEN arg_cong, of kc_count])

lemma tx_like_inv: "tx_like t t' \<Longrightarrow> ut_inv t \<Longrightarrow> ut_inv t'"
  by (simp add: tx_like_def)

lemma tx_only_ok:
  assumes "tx_only_step w w'"
  shows "fw_core w \<Longrightarrow> fw_core w'" "fw_modes w' = fw_modes w" "fw_inv w \<Longrightarrow> fw_inv w'"
  using tx_only_step_fields [OF assms] by (auto simp: fw_core_def fw_modes_def fw_inv_def intro: tx_like_inv)

lemma mode_effect_core:
  assumes "mode_effect k s' w w'" "fw_core w"
  shows "fw_core w'"
  using assms
  by (cases k) (auto simp: mode_effect_def fw_core_def same_rest_def stopped_like_def intro: tx_like_inv)

lemma mode_effect_modes:
  assumes "mode_effect k s' w w'" "mode_table op (mode_state w) = (k, s', reason, ok)" "s' \<le> 4"
    "if k = Keep then fw_modes w else k = Clear_All \<and> s' \<noteq> PICO_UART_MODE_PLAYING"
  shows "fw_modes w'"
proof (cases "k = Keep")
  case True
  with mode_table_next [OF assms(2)] assms(1,4) show ?thesis
    by (simp add: mode_effect_def fw_modes_def)
next
  case False
  with assms show ?thesis by (simp add: mode_effect_def fw_modes_def between_runs_def)
qed

lemma mode_table_not_start:
  "mode_table op s = (k, s', reason, ok) \<Longrightarrow> op \<noteq> Play_Start \<Longrightarrow> k = Keep \<or> k = Clear_All \<and> s' \<noteq> 3"
  by (cases op) (auto split: if_splits)

lemma mode_step_ok:
  assumes "fw_ok w" "op \<noteq> Play_Start"
  shows "fw_ok (snd (mode_step (mode_callbacks_with (playback_complete n sdk) sdk) op w))"
proof -
  obtain k s' reason ok where t: "mode_table op (mode_state w) = (k, s', reason, ok)"
    using prod_cases4 by blast
  note eff = mode_step_effect(2) [OF t, of n sdk]
  have "mode_state w \<le> 4" using assms(1) by (simp add: fw_modes_def)
  then have "s' \<le> 4" using mode_table_valid [OF t] by simp
  with mode_effect_modes [OF eff t] mode_effect_core [OF eff] mode_table_not_start [OF t assms(2)] assms(1)
  show ?thesis by (auto simp: mode_defs split: if_splits)
qed

lemma mode_step_inv:
  assumes "fw_inv w" "op \<noteq> Play_Start"
  shows "fw_inv (snd (mode_step (mode_callbacks_with (playback_complete n sdk) sdk) op w))"
proof -
  obtain k s' reason ok where t: "mode_table op (mode_state w) = (k, s', reason, ok)"
    using prod_cases4 by blast
  note eff = mode_step_effect(2) [OF t, of n sdk]
  have "fw_ok (snd (mode_step (mode_callbacks_with (playback_complete n sdk) sdk) op w))"
    using assms by (intro mode_step_ok) (simp_all add: fw_inv_def)
  moreover have "sched_ok (w_queue (snd (mode_step (mode_callbacks_with (playback_complete n sdk) sdk) op w)))
      (w_sched (snd (mode_step (mode_callbacks_with (playback_complete n sdk) sdk) op w)))"
    using eff assms mode_table_not_start [OF t assms(2)]
    by (auto simp: mode_effect_def fw_inv_def fw_core_def stopped_like_def intro: sched_ok_stopped)
  ultimately show ?thesis by (simp add: fw_inv_def)
qed

section \<open>The callbacks fulfil the contracts\<close>

lemma send_pass_report_effect:
  "\<exists>e. snd (send_pass_report sdk r w) = w\<lparr>hw := e,
     hid_out := hid_out w @ (if fst (send_pass_report sdk r w) then [report_bytes r] else [])\<rparr>"
  using send_boot_report [of sdk r w "fst (send_pass_report sdk r w)" "snd (send_pass_report sdk r w)"]
  by (auto simp: send_pass_report_def)

lemma send_pass_report_fields [simp]:
  "w_queue (snd (send_pass_report sdk r w)) = w_queue w" "w_sched (snd (send_pass_report sdk r w)) = w_sched w"
  "hid_out (snd (send_pass_report sdk r w)) = hid_out w @ (if fst (send_pass_report sdk r w) then [report_bytes r] else [])"
  "mode_state (snd (send_pass_report sdk r w)) = mode_state w"
  "g_capture (snd (send_pass_report sdk r w)) = g_capture w" "g_transport (snd (send_pass_report sdk r w)) = g_transport w"
  "g_safety (snd (send_pass_report sdk r w)) = g_safety w" "g_host (snd (send_pass_report sdk r w)) = g_host w"
  "g_flow_fault (snd (send_pass_report sdk r w)) = g_flow_fault w"
  "uart_out (snd (send_pass_report sdk r w)) = uart_out w"
  using send_pass_report_effect [of sdk r w] by auto

text \<open>The two reports of the scheduler change the transmit ring and perhaps the flow fault.\<close>

definition flow_step :: "'e globals \<Rightarrow> 'e globals \<Rightarrow> bool" where
  "flow_step w w' \<longleftrightarrow> same_rest w w' \<and> mode_state w' = mode_state w \<and> w_queue w' = w_queue w
     \<and> w_sched w' = w_sched w \<and> g_capture w' = g_capture w \<and> g_safety w' = g_safety w"

lemma tx_only_flow: "tx_only_step w w' \<Longrightarrow> flow_step w (w'\<lparr>g_flow_fault := b\<rparr>) \<and> flow_step w w'"
  using tx_only_step_fields [of w w'] by (simp add: flow_step_def same_rest_def)

lemma flow_step_callbacks [simp]:
  "flow_step w (playback_underrun off room w)" "flow_step w (playback_buffer_available w)"
  by (simp_all add: playback_underrun_def playback_buffer_available_def Let_def split_beta
      tx_only_flow)

lemma flow_step_ok: "flow_step w w' \<Longrightarrow> fw_ok w \<Longrightarrow> fw_ok w'"
  by (auto simp: flow_step_def fw_core_def fw_modes_def same_rest_def intro: tx_like_inv)

lemma playback_complete_stopped:
  fixes w :: "'e globals" and sdk :: "'e sdk" and n :: nat and reason :: u8 and m :: playback_metrics
  assumes "\<not> ps_running (w_sched w)"
  defines "w' \<equiv> playback_complete n sdk reason m w"
  shows "same_rest w w' \<and> \<not> ps_running (w_sched w') \<and> (samples_inv (w_sched w) \<longrightarrow> samples_inv (w_sched w'))
    \<and> (pq_inv (w_queue w) \<longrightarrow> pq_inv (w_queue w')) \<and> (pq_count (w_queue w) = 0 \<longrightarrow> pq_count (w_queue w') = 0)"
proof (cases n)
  case 0
  with assms show ?thesis by (simp add: same_rest_def)
next
  case (Suc k)
  define w2 where "w2 = snd (tx_frame PICO_UART_PLAY_METRICS (Some (metrics_payload m)) 33
     (snd (tx_frame (if reason = PICO_UART_REASON_FINISHED then PICO_UART_PLAY_FINISHED else PICO_UART_PLAY_ABORTED) None 0 w)))"
  have tx: "tx_only_step w w2"
    unfolding w2_def by (rule tx_only_step_completion) simp
  note f = tx_only_step_fields [OF tx]
  show ?thesis
  proof (cases "reason = PICO_UART_REASON_FINISHED")
    case False
    with Suc have "w' = w2" by (simp add: w'_def w2_def Let_def)
    with f assms(1) tx_only_same_rest [OF tx] show ?thesis by simp
  next
    case True
    obtain c s' r ok where t: "mode_table Play_Finish (mode_state w2) = (c, s', r, ok)" using prod_cases4 by blast
    have "w' = snd (mode_step (mode_callbacks_with (playback_complete k sdk) sdk) Play_Finish w2)"
      using Suc True by (simp add: w'_def w2_def Let_def)
    with mode_step_effect(2) [OF t, of k sdk] have "mode_effect c s' w2 w'" by simp
    with f assms(1) tx_only_same_rest [OF tx] show ?thesis
      by (cases c) (auto simp: mode_effect_def stopped_like_def intro: same_rest_trans)
  qed
qed

lemma playback_complete_depth:
  assumes "\<not> ps_running (w_sched w)"
  shows "playback_complete (Suc n) sdk reason m w = playback_complete (Suc k) sdk reason m w"
proof -
  have stop: "pico_playback_scheduler_stop cb sdk v = v" if "w_sched v = w_sched w" for v :: "'a globals" and cb
    using assms that by (simp add: pico_playback_scheduler_stop_def)
  have "snd (pico_mode_state_play_finish (mode_callbacks_with c sdk) v)
      = snd (pico_mode_state_play_finish (mode_callbacks_with c' sdk) v)"
    if "w_sched v = w_sched w" for v :: "'a globals" and c c'
    by (simp add: pico_mode_state_play_finish_def mode_callbacks_with_def all_callbacks_def notify_def
        clear_release_and_queue_def clear_and_release_def mode_clear_queue_def stop [OF that])
  then show ?thesis by (auto simp: Let_def)
qed

interpretation mfx: mode_effects mode_all_release mode_clear_physical
    "mode_clear_queue (playback_complete n sdk) sdk" mode_changed
    "\<lambda>w. sr_pending (g_safety w)" "\<lambda>w. kc_count (g_capture w) = 0" "\<lambda>w. pq_count (w_queue w) = 0"
  for n :: nat and sdk :: "'e sdk"
proof
  fix w :: "'e globals" and s r
  show "mode_state (mode_clear_queue (playback_complete n sdk) sdk w) = mode_state w"
    "pq_count (w_queue (mode_clear_queue (playback_complete n sdk) sdk w)) = 0"
    using clear_queue_effect [of w n sdk] by simp_all
qed (simp_all add: mode_all_release_def mode_clear_physical_def mode_changed_def pico_safety_release_request_def)

text \<open>
  \<open>fw_rel\<close> relates the states around a piece of the main loop: received bytes and commands stay, a
  pending release stays pending, and a change of mode leaves a release pending and no input captured.
\<close>

definition fw_rel :: "'e globals \<Rightarrow> 'e globals \<Rightarrow> bool" where
  "fw_rel w w' \<longleftrightarrow> tx_like (g_transport w) (g_transport w') \<and> uart_out w' = uart_out w \<and> g_host w' = g_host w
     \<and> (sr_pending (g_safety w) \<longrightarrow> sr_pending (g_safety w')) \<and> (kc_count (g_capture w) = 0 \<longrightarrow> kc_count (g_capture w') = 0)
     \<and> (mode_state w' \<noteq> mode_state w \<longrightarrow> sr_pending (g_safety w') \<and> kc_count (g_capture w') = 0)"

lemma fw_rel_refl [simp]: "fw_rel w w"
  by (simp add: fw_rel_def)

lemma fw_rel_trans: "fw_rel u v \<Longrightarrow> fw_rel v w \<Longrightarrow> fw_rel u w"
  unfolding fw_rel_def by (metis tx_like_trans)

lemma fw_rel_tx: "tx_only_step w w' \<Longrightarrow> fw_rel w w'"
  using tx_only_step_fields [of w w'] by (simp add: fw_rel_def)

lemma fw_rel_flow: "flow_step w w' \<Longrightarrow> fw_rel w w'"
  by (simp add: flow_step_def fw_rel_def same_rest_def)

lemma fw_rel_mode:
  "mode_effect k s' w w' \<Longrightarrow> mode_table op (mode_state w) = (k, s', reason, ok) \<Longrightarrow> fw_rel w w'"
  using mode_table_next [of op "mode_state w" k s' reason ok]
  by (cases k) (auto simp: mode_effect_def fw_rel_def same_rest_def)

lemma fw_rel_step: "fw_rel w (snd (mode_step (mode_callbacks_with (playback_complete n sdk) sdk) op w))"
proof -
  obtain k s' reason ok where t: "mode_table op (mode_state w) = (k, s', reason, ok)"
    using prod_cases4 by blast
  show ?thesis by (rule fw_rel_mode [OF mode_step_effect(2) [OF t] t])
qed

text \<open>
  \<open>run_rel\<close> adds what holds around a piece of playback: reports are only added to what the PC got, and
  the mode stays or goes from PLAYING to ARMED; where it stays, no release becomes pending. Nothing is
  queued, and at the end of the run the queue is empty.
\<close>

definition run_rel :: "'e globals \<Rightarrow> 'e globals \<Rightarrow> bool" where
  "run_rel w w' \<longleftrightarrow> fw_rel w w' \<and> prefix (hid_out w) (hid_out w')
     \<and> (mode_state w' = mode_state w \<or> mode_state w = PICO_UART_MODE_PLAYING \<and> mode_state w' = PICO_UART_MODE_ARMED)
     \<and> (mode_state w' = mode_state w \<longrightarrow> sr_pending (g_safety w') = sr_pending (g_safety w))
     \<and> (pq_count (w_queue w) = 0 \<or> mode_state w' \<noteq> mode_state w \<longrightarrow> pq_count (w_queue w') = 0)"

lemma run_rel_refl [simp]: "run_rel w w"
  by (simp add: run_rel_def)

lemma run_rel_trans: "run_rel u v \<Longrightarrow> run_rel v w \<Longrightarrow> run_rel u w"
  unfolding run_rel_def by (auto intro: fw_rel_trans prefix_order.trans simp: mode_defs)

lemma run_rel_flow: "flow_step w w' \<Longrightarrow> run_rel w w'"
  using fw_rel_flow by (simp add: run_rel_def flow_step_def same_rest_def)

lemma fw_ok_finish:
  assumes "fw_ok w" "ps_running (w_sched w)" "pq_count (w_queue w) = 0"
    "same_run (w_sched w) (s\<lparr>ps_running := True\<rparr>)" "\<not> ps_running s"
  shows "fw_ok (main_complete sdk PICO_UART_REASON_FINISHED m (w\<lparr>w_sched := s\<rparr>))
    \<and> run_rel w (main_complete sdk PICO_UART_REASON_FINISHED m (w\<lparr>w_sched := s\<rparr>))"
proof -
  define w1 where "w1 = w\<lparr>w_sched := s\<rparr>"
  define w2 where "w2 = snd (tx_frame PICO_UART_PLAY_METRICS (Some (metrics_payload m)) 33
     (snd (tx_frame PICO_UART_PLAY_FINISHED None 0 w1)))"
  have tx: "tx_only_step w1 w2"
    unfolding w2_def by (rule tx_only_step_completion) simp
  have core: "fw_core w2"
    using assms tx_only_ok(1) [OF tx] by (simp add: w1_def fw_core_def same_run_def samples_inv_def)
  have mode: "mode_state w2 = 3" using assms tx_only_step_fields(1) [OF tx]
    by (simp add: w1_def fw_modes_def mode_defs)
  then have t: "mode_table Play_Finish (mode_state w2) = (Clear_All, 2, PICO_UART_REASON_FINISHED, True)" by simp
  have eq: "main_complete sdk PICO_UART_REASON_FINISHED m w1
      = snd (mode_step (mode_callbacks_with (playback_complete 1 sdk) sdk) Play_Finish w2)"
    by (simp add: w2_def Let_def numeral_2_eq_2)
  note eff = mode_step_effect(2) [OF t, of 1 sdk]
  have "fw_rel w w1" by (simp add: fw_rel_def w1_def)
  then have "fw_rel w (main_complete sdk PICO_UART_REASON_FINISHED m w1)"
    unfolding eq by (blast intro: fw_rel_trans fw_rel_tx [OF tx] fw_rel_mode [OF eff t])
  moreover have "hid_out w2 = hid_out w" "mode_state w = 3"
    using tx_only_step_fields(1,3) [OF tx] mode by (simp_all add: w1_def)
  ultimately have "run_rel w (main_complete sdk PICO_UART_REASON_FINISHED m w1)"
    unfolding eq run_rel_def using eff by (simp add: mode_effect_def same_rest_def mode_defs)
  with mode_effect_core [OF eff core] mode_effect_modes [OF eff t] show ?thesis
    unfolding w1_def [symmetric] eq by (simp add: mode_defs)
qed

text \<open>What a round of the playback task does to the state keeps the invariant of a run.\<close>

lemma run_keeps_sched:
  assumes "fw_ok w \<and> run_rel w0 w" "same_run (w_sched w) s"
  shows "fw_ok (w\<lparr>w_sched := s\<rparr>) \<and> run_rel w0 (w\<lparr>w_sched := s\<rparr>)"
proof -
  have "run_rel w (w\<lparr>w_sched := s\<rparr>)" by (simp add: run_rel_def fw_rel_def)
  moreover have "fw_ok (w\<lparr>w_sched := s\<rparr>)" using assms by (simp add: fw_core_def fw_modes_def same_run_def)
  ultimately show ?thesis using assms(1) run_rel_trans by blast
qed

lemma run_keeps_pop:
  fixes w :: "'e globals"
  assumes "fw_ok w \<and> run_rel w0 w"
  defines "w1 \<equiv> w\<lparr>w_queue := snd (pico_playback_queue_pop (w_queue w))\<rparr>"
  shows "fw_ok w1 \<and> run_rel w0 w1"
proof -
  have empty: "pq_count (w_queue w) = 0 \<Longrightarrow> pq_count (w_queue w1) = 0" by (simp add: w1_def pico_playback_queue_pop_def)
  then have "run_rel w w1" by (simp add: w1_def run_rel_def fw_rel_def)
  moreover from empty have "fw_ok w1" using assms(1) by (simp add: w1_def fw_core_def fw_modes_def pq_pop_inv)
  ultimately show ?thesis using assms(1) run_rel_trans by blast
qed

lemma run_keeps_hw:
  fixes w :: "'e globals"
  assumes "fw_ok w \<and> run_rel w0 w"
  shows "fw_ok (w\<lparr>hw := e\<rparr>) \<and> run_rel w0 (w\<lparr>hw := e\<rparr>)"
    "fw_ok (snd (send_pass_report sdk r w)) \<and> run_rel w0 (snd (send_pass_report sdk r w))"
proof -
  have "run_rel w (w\<lparr>hw := e\<rparr>)" "run_rel w (snd (send_pass_report sdk r w))"
    by (simp_all add: run_rel_def fw_rel_def)
  moreover have "fw_ok (w\<lparr>hw := e\<rparr>) = fw_ok w" "fw_ok (snd (send_pass_report sdk r w)) = fw_ok w"
    by (simp_all add: fw_core_def fw_modes_def)
  ultimately show "fw_ok (w\<lparr>hw := e\<rparr>) \<and> run_rel w0 (w\<lparr>hw := e\<rparr>)"
    "fw_ok (snd (send_pass_report sdk r w)) \<and> run_rel w0 (snd (send_pass_report sdk r w))"
    using assms run_rel_trans by blast+
qed

interpretation fws: sched_invariant "send_pass_report sdk" "main_complete sdk" playback_underrun playback_buffer_available
    "\<lambda>w. fw_ok w \<and> run_rel w0 w"
  for sdk :: "'e sdk" and w0 :: "'e globals"
proof
  fix w :: "'e globals" and reason m off room
  show "w_queue (playback_underrun off room w) = w_queue w" "w_sched (playback_underrun off room w) = w_sched w"
    "hid_out (playback_underrun off room w) = hid_out w"
    using flow_step_callbacks(1) [of w off room] by (simp_all add: flow_step_def same_rest_def)
  show "w_queue (playback_buffer_available w) = w_queue w" "w_sched (playback_buffer_available w) = w_sched w"
    "hid_out (playback_buffer_available w) = hid_out w"
    using flow_step_callbacks(2) [of w] by (simp_all add: flow_step_def same_rest_def)
  show "fw_ok (playback_underrun off room w) \<and> run_rel w0 (playback_underrun off room w)"
    "fw_ok (playback_buffer_available w) \<and> run_rel w0 (playback_buffer_available w)" if "fw_ok w \<and> run_rel w0 w"
    using that by (meson flow_step_ok flow_step_callbacks run_rel_flow run_rel_trans)+
  assume "\<not> ps_running (w_sched w)"
  note eff = playback_complete_stopped [OF this, of 2 sdk reason m]
  show "\<not> ps_running (w_sched (main_complete sdk reason m w))"
    "hid_out (main_complete sdk reason m w) = hid_out w"
    using eff by (simp_all add: same_rest_def)
  show "samples_inv (w_sched (main_complete sdk reason m w))" if "samples_inv (w_sched w)" using eff that by simp
  show "pq_inv (w_queue (main_complete sdk reason m w))" if "pq_inv (w_queue w)" using eff that by simp
  show "pq_count (w_queue (main_complete sdk reason m w)) = 0" if "pq_count (w_queue w) = 0" using eff that by simp
next
  fix w :: "'e globals" and s m
  assume "fw_ok w \<and> run_rel w0 w" "ps_running (w_sched w)" "pq_count (w_queue w) = 0"
    "same_run (w_sched w) (s\<lparr>ps_running := True\<rparr>)" "\<not> ps_running s"
  then show "fw_ok (main_complete sdk PICO_UART_REASON_FINISHED m (w\<lparr>w_sched := s\<rparr>))
      \<and> run_rel w0 (main_complete sdk PICO_UART_REASON_FINISHED m (w\<lparr>w_sched := s\<rparr>))"
    using fw_ok_finish [of w s sdk m] run_rel_trans by blast
qed (rule run_keeps_sched run_keeps_pop run_keeps_hw, assumption+ | simp)+

text \<open>The rounds of the program's playback task.\<close>

lemma sched_cb_send: "sc_send_report (sched_cb sdk) = Some (send_pass_report sdk)"
  by (simp add: scheduler_callbacks_def)

lemmas program_rounds =
  task_round_cases [OF sched_cb_send [of sdk], where sdk = sdk, case_names entry early empty refused sent] for sdk :: "'e sdk"

section \<open>Every step keeps the invariant\<close>

lemma start_ok:
  fixes w :: "'e globals" and sdk :: "'e sdk" and t :: u64
  assumes "fw_core w" "mode_state w = PICO_UART_MODE_PLAYING" "kc_count (g_capture w) = 0" "\<not> ps_running (w_sched w)"
  defines "w' \<equiv> pico_playback_scheduler_start (sched_cb sdk) sdk t w"
  shows "fw_inv w' \<and> run_rel w w' \<and> hid_out w' @ remaining w' = hid_out w @ remaining w"
proof -
  let ?w1 = "sched_update (start_run t) w"
  have ok: "fw_ok ?w1 \<and> run_rel w ?w1"
    using assms(1-4) by (simp add: fw_core_def fw_modes_def run_rel_def fw_rel_def mode_defs start_run_def [THEN arg_cong, of ps_queue])
  have inv: "pq_inv (w_queue ?w1)" "samples_inv (w_sched ?w1)" "ps_running (w_sched ?w1)"
    using assms(1) by (simp_all add: fw_core_def)
  have "w' = snd (arm_next (sched_cb sdk) sdk ?w1)"
    using assms(1,4) by (simp add: w'_def pico_playback_scheduler_start_def fw_core_def)
  with fws.I_arm_next [OF ok inv(3,2), of sdk sdk] fws.arm_next_law(1) [OF inv, of sdk sdk] show ?thesis
    by (simp add: fw_inv_def sched_law_def scheduler_callbacks_def)
qed

lemma task_ok:
  assumes "fw_inv w"
  shows "\<exists>w'. pico_playback_scheduler_task (sched_cb sdk) sdk w = Some w' \<and> fw_inv w' \<and> run_rel w w' \<and> sched_law w w'"
  using fws.I_task [of w w sdk sdk] assms
  by (auto simp: fw_inv_def scheduler_callbacks_def sched_law_def)

text \<open>Commands. A new event behind the head of the queue does not touch the armed deadline.\<close>

lemma peek_view_eq: "pq_inv q \<Longrightarrow> pico_playback_queue_peek q = (case pq_view q of [] \<Rightarrow> None | e # _ \<Rightarrow> Some e)"
  using peek_Some_view(1) [of q] peek_None_iff [of q]
  by (cases "pico_playback_queue_peek q") (auto simp: pq_view_def)

lemma push_view:
  assumes "pq_inv q"
  shows "\<exists>es. pq_view (snd (pico_playback_queue_push off rep len q)) = pq_view q @ es"
proof (cases "rep = None \<or> len \<noteq> 8 \<or> pq_count q = 512")
  case True
  then have "snd (pico_playback_queue_push off rep len q) = q"
    by (auto simp: pico_playback_queue_push_def split: option.split)
  then show ?thesis by simp
next
  case False
  then have "pq_count q < 512" using assms by (simp add: pq_inv_def)
  from pq_push_view [OF assms this] False show ?thesis
    by (auto simp: pico_playback_queue_push_def)
qed

lemma push_keeps_peek:
  assumes "pq_inv q" "pico_playback_queue_peek q = Some e"
  shows "pico_playback_queue_peek (snd (pico_playback_queue_push off rep len q)) = Some e"
  using push_view [OF assms(1), of off rep len] assms(2) peek_view_eq [OF assms(1)]
    peek_view_eq [OF pq_push_inv [OF assms(1)], of off rep len]
  by (auto split: list.splits)

lemma push_ok:
  assumes "fw_inv w" "mode_state w = PICO_UART_MODE_ARMED \<or> mode_state w = PICO_UART_MODE_PLAYING"
  shows "fw_inv (w\<lparr>w_queue := snd (pico_playback_queue_push off rep len (w_queue w))\<rparr>)"
  using assms push_keeps_peek [of "w_queue w" _ off rep len]
  by (auto simp: fw_inv_def fw_core_def fw_modes_def sched_ok_def pq_push_inv)

lemma clear_reset_ok:
  assumes "fw_inv w" "mode_state w = PICO_UART_MODE_ARMED"
  shows "fw_inv (sched_update pico_playback_scheduler_reset_sequence (w\<lparr>w_queue := pico_playback_queue_clear (w_queue w)\<rparr>))"
  using assms
  by (auto simp: fw_inv_def fw_core_def fw_modes_def sched_ok_def mode_defs pico_playback_scheduler_reset_sequence_def
      samples_inv_def)

lemma mark_ended_ok:
  assumes "fw_inv w" "mode_state w = PICO_UART_MODE_ARMED \<or> mode_state w = PICO_UART_MODE_PLAYING"
  shows "fw_inv (sched_update pico_playback_scheduler_mark_sequence_ended w)"
  using assms
  by (auto simp: fw_inv_def fw_core_def fw_modes_def sched_ok_def pico_playback_scheduler_mark_sequence_ended_def)

lemma protocol_error_ok:
  assumes "fw_inv w"
  shows "fw_inv (pico_mode_state_protocol_error (mode_cb sdk) w) \<and> fw_rel w (pico_mode_state_protocol_error (mode_cb sdk) w)"
  using mode_step_inv [OF assms, of Protocol_Error 2 sdk] fw_rel_step [of w 2 sdk Protocol_Error] by simp

lemma ack_ok:
  assumes "fw_inv w"
  shows "fw_inv (ack_or_error sdk w) \<and> fw_rel w (ack_or_error sdk w)"
proof -
  have tx: "tx_only_step w (snd (send_buffer_status w))" by simp
  note inv = tx_only_ok(3) [OF tx assms]
  from protocol_error_ok [OF inv, of sdk] fw_rel_trans [OF fw_rel_tx [OF tx]] inv fw_rel_tx [OF tx]
  show ?thesis by (auto simp: ack_or_error_def Let_def split_beta)
qed

lemma queue_clear_ok:
  assumes "fw_inv w" "mode_state w = PICO_UART_MODE_ARMED"
  defines "w1 \<equiv> sched_update pico_playback_scheduler_reset_sequence (w\<lparr>w_queue := pico_playback_queue_clear (w_queue w)\<rparr>)"
  shows "fw_inv (ack_or_error sdk w1) \<and> fw_rel w (ack_or_error sdk w1)"
proof -
  from ack_ok [OF clear_reset_ok [OF assms(1,2)], of sdk] have "fw_inv (ack_or_error sdk w1) \<and> fw_rel w1 (ack_or_error sdk w1)"
    by (simp add: w1_def)
  moreover have "fw_rel w w1" by (simp add: w1_def fw_rel_def)
  ultimately show ?thesis using fw_rel_trans by blast
qed

lemma queue_event_ok:
  fixes off :: u64 and bytes :: "u8 list"
  assumes "fw_inv w" "mode_state w = PICO_UART_MODE_ARMED \<or> mode_state w = PICO_UART_MODE_PLAYING"
  defines "w1 \<equiv> w\<lparr>w_queue := snd (pico_playback_queue_push off (Some bytes) 8 (w_queue w))\<rparr>"
  shows "fw_inv (pico_mode_state_protocol_error (mode_cb sdk) w1) \<and> fw_rel w (pico_mode_state_protocol_error (mode_cb sdk) w1)"
    "fw_inv (ack_or_error sdk w1) \<and> fw_rel w (ack_or_error sdk w1)"
proof -
  have inv: "fw_inv w1" using push_ok [OF assms(1,2), of off "Some bytes" 8] by (simp add: w1_def)
  have "fw_rel w w1" by (simp add: w1_def fw_rel_def)
  with protocol_error_ok [OF inv, of sdk] ack_ok [OF inv, of sdk]
  show "fw_inv (pico_mode_state_protocol_error (mode_cb sdk) w1) \<and> fw_rel w (pico_mode_state_protocol_error (mode_cb sdk) w1)"
    "fw_inv (ack_or_error sdk w1) \<and> fw_rel w (ack_or_error sdk w1)"
    using fw_rel_trans by blast+
qed

lemma queue_end_ok:
  assumes "fw_inv w" "mode_state w = PICO_UART_MODE_ARMED \<or> mode_state w = PICO_UART_MODE_PLAYING"
  defines "w1 \<equiv> sched_update pico_playback_scheduler_mark_sequence_ended w"
  defines "w2 \<equiv> if mode_state w = PICO_UART_MODE_ARMED then snd (tx_frame PICO_UART_PLAY_READY None 0 w1) else w1"
  shows "fw_inv (ack_or_error sdk w2) \<and> fw_rel w (ack_or_error sdk w2)"
proof -
  have inv: "fw_inv w1" using mark_ended_ok [OF assms(1,2)] by (simp add: w1_def)
  have tx: "tx_only_step w1 w2" by (simp add: w2_def)
  have "fw_rel w w1" by (simp add: w1_def fw_rel_def)
  then have "fw_rel w w2" using fw_rel_tx [OF tx] fw_rel_trans by blast
  with ack_ok [OF tx_only_ok(3) [OF tx inv], of sdk] show ?thesis using fw_rel_trans by blast
qed

lemma dispatch_queue_ok:
  assumes "fw_inv w"
  shows "fw_inv (dispatch_queue_command sdk f w) \<and> fw_rel w (dispatch_queue_command sdk f w)"
proof -
  let ?allowed = "pico_uart_queue_command_allowed (fr_type f) (mode_state w)"
  have get: "pico_mode_state_get (Some s) = s" for s by (simp add: pico_mode_state_get_def)
  note defs = dispatch_queue_command_def Let_def get zero_type_defs
  consider (refused) "\<not> ?allowed" | (clear) "?allowed" "fr_type f = PICO_UART_QUEUE_CLEAR"
    | (event) "?allowed" "fr_type f = PICO_UART_QUEUE_EVENT" | (end_seq) "?allowed" "fr_type f = PICO_UART_QUEUE_END"
    | (other) "fr_type f \<noteq> PICO_UART_QUEUE_CLEAR" "fr_type f \<noteq> PICO_UART_QUEUE_EVENT" "fr_type f \<noteq> PICO_UART_QUEUE_END"
    by blast
  then show ?thesis
  proof cases
    case clear
    then have "mode_state w = PICO_UART_MODE_ARMED" by (simp add: pico_uart_queue_command_allowed_def)
    from queue_clear_ok [OF assms this, of sdk] clear show ?thesis by (simp add: defs)
  next
    case event
    then have "mode_state w = PICO_UART_MODE_ARMED \<or> mode_state w = PICO_UART_MODE_PLAYING"
      by (auto simp: pico_uart_queue_command_allowed_def split: if_splits)
    from queue_event_ok [OF assms this, of sdk "read_u64_le (fr_payload f)" "drop 9 (fr_payload f)"] event
    show ?thesis by (simp add: defs split_beta)
  next
    case end_seq
    then have "mode_state w = PICO_UART_MODE_ARMED \<or> mode_state w = PICO_UART_MODE_PLAYING"
      by (auto simp: pico_uart_queue_command_allowed_def split: if_splits)
    from queue_end_ok [OF assms this, of sdk] end_seq show ?thesis by (simp add: defs)
  qed (use protocol_error_ok [OF assms, of sdk] in \<open>simp_all add: defs\<close>)
qed

lemma hw_ok:
  "fw_inv (w\<lparr>hw := e\<rparr>) = fw_inv w" "fw_rel w (w\<lparr>hw := e\<rparr>)"
  "fw_inv (snd (time_us_64 sdk w)) = fw_inv w" "fw_rel w (snd (time_us_64 sdk w))"
  by (simp_all add: fw_inv_def fw_core_def fw_modes_def fw_rel_def time_us_64_def)

lemma play_start_ok:
  fixes w :: "'e globals" and sdk :: "'e sdk"
  assumes "fw_inv w" "mode_state w = PICO_UART_MODE_ARMED"
  defines "w2 \<equiv> snd (pico_mode_state_play_start (mode_cb sdk) w)"
  shows "fst (pico_mode_state_play_start (mode_cb sdk) w)"
    "fw_core w2 \<and> mode_state w2 = PICO_UART_MODE_PLAYING \<and> kc_count (g_capture w2) = 0 \<and> \<not> ps_running (w_sched w2)
      \<and> w_queue w2 = w_queue w \<and> w_sched w2 = w_sched w \<and> sr_pending (g_safety w2) \<and> fw_rel w w2 \<and> hid_out w2 = hid_out w"
proof -
  have t: "mode_table Play_Start (mode_state w) = (Clear_Input, 3, PICO_UART_REASON_OK, True)"
    using assms(2) by (simp add: mode_defs)
  note step = mode_step_effect [OF t, of 2 sdk]
  from step(1) show "fst (pico_mode_state_play_start (mode_cb sdk) w)" by simp
  have eff: "mode_effect Clear_Input 3 w w2" using step(2) by (simp add: w2_def)
  with assms(1,2) mode_effect_core [OF eff] fw_rel_mode [OF eff t]
  show "fw_core w2 \<and> mode_state w2 = PICO_UART_MODE_PLAYING \<and> kc_count (g_capture w2) = 0 \<and> \<not> ps_running (w_sched w2)
      \<and> w_queue w2 = w_queue w \<and> w_sched w2 = w_sched w \<and> sr_pending (g_safety w2) \<and> fw_rel w w2 \<and> hid_out w2 = hid_out w"
    by (simp add: mode_effect_def fw_inv_def fw_modes_def mode_defs same_rest_def)
qed

lemma dispatch_start_ok:
  assumes "fw_inv w" "fr_type f = PICO_UART_PLAY_START"
  shows "fw_inv (dispatch_command sdk f w) \<and> fw_rel w (dispatch_command sdk f w)"
proof -
  define w1 where "w1 = snd (time_us_64 sdk w)"
  define t where "t = fst (time_us_64 sdk w)"
  have inv1: "fw_inv w1" and rel1: "fw_rel w w1" using assms by (simp_all add: w1_def hw_ok)
  let ?r = "pico_mode_state_play_start (mode_cb sdk) w1"
  have eq: "dispatch_command sdk f w = (if fst ?r then pico_playback_scheduler_start (sched_cb sdk) sdk t
      (snd (tx_frame PICO_UART_PLAY_STARTED (Some (write_u64_le t)) 8 (snd ?r))) else snd ?r)"
    using assms(2) by (simp add: dispatch_command_def Let_def split_beta w1_def t_def zero_type_defs)
  show ?thesis
  proof (cases "mode_state w1 = PICO_UART_MODE_ARMED")
    case True
    note st = play_start_ok [OF inv1 True, of sdk]
    define w3 where "w3 = snd (tx_frame PICO_UART_PLAY_STARTED (Some (write_u64_le t)) 8 (snd ?r))"
    have tx: "tx_only_step (snd ?r) w3" by (simp add: w3_def)
    have w3: "fw_core w3" "mode_state w3 = PICO_UART_MODE_PLAYING" "kc_count (g_capture w3) = 0" "\<not> ps_running (w_sched w3)"
      using st(2) tx_only_ok(1) [OF tx] tx_only_step_fields [OF tx] by auto
    have "fw_rel w w3" using rel1 st(2) fw_rel_tx [OF tx] fw_rel_trans by blast
    with start_ok [OF w3, of sdk t] st(1) show ?thesis
      unfolding eq by (auto simp: w3_def [symmetric] run_rel_def intro: fw_rel_trans)
  next
    case False
    then have r: "?r = mode_step (mode_cb sdk) Play_Start w1" "mode_table Play_Start (mode_state w1)
        = (Keep, mode_state w1, PICO_UART_REASON_INVALID_TRANSITION, False)"
      by (simp_all add: mode_defs)
    note step = mode_step_effect [OF r(2), of 2 sdk, folded r(1)]
    have core: "fw_core (snd ?r)" using mode_effect_core [OF step(2)] inv1 by (simp add: fw_inv_def)
    moreover have "fw_modes (snd ?r)"
      using mode_effect_modes [OF step(2) r(2)] inv1 by (simp add: fw_inv_def fw_modes_def)
    moreover have "sched_ok (w_queue (snd ?r)) (w_sched (snd ?r))"
      using step(2) inv1 by (simp add: mode_effect_def fw_inv_def)
    moreover have "fw_rel w1 (snd ?r)" by (rule fw_rel_mode [OF step(2) r(2)])
    ultimately show ?thesis using step(1) rel1 fw_rel_trans unfolding eq by (auto simp: fw_inv_def)
  qed
qed

text \<open>
  A PING is answered with its own payload, so what PONG sends is a message only for a PING without
  payload; the transport lets no other one pass.
\<close>

lemma command_ok_ping: "command_ok f \<Longrightarrow> fr_type f = PICO_UART_PING \<Longrightarrow> fr_payload_len f = 0"
  by (simp add: command_ok_def pico_uart_frame_payload_valid_def Let_def pico_constants split: if_splits) metis

lemma dispatch_ping:
  assumes "fr_type f = PICO_UART_PING"
  shows "dispatch_command sdk f w = snd (tx_frame PICO_UART_PONG (Some (fr_payload f)) (fr_payload_len f) w)"
  using assms by (simp add: dispatch_command_def zero_type_defs)

lemma dispatch_ok:
  assumes "fw_inv w" "fr_type f = PICO_UART_PING \<Longrightarrow> fr_payload_len f = 0"
  shows "fw_inv (dispatch_command sdk f w) \<and> fw_rel w (dispatch_command sdk f w)"
proof -
  consider (start) "fr_type f = PICO_UART_PLAY_START" | (ping) "fr_type f = PICO_UART_PING"
    | (other) "fr_type f \<noteq> PICO_UART_PLAY_START" "fr_type f \<noteq> PICO_UART_PING" by blast
  then show ?thesis
  proof cases
    case start
    with dispatch_start_ok [OF assms(1)] show ?thesis by blast
  next
    case ping
    with assms(2) have "tx_only_step w (dispatch_command sdk f w)" by (simp add: dispatch_ping)
    with tx_only_ok(3) [OF _ assms(1)] fw_rel_tx show ?thesis by blast
  next
    case other
    have mode: "fw_inv (snd (mode_step (mode_cb sdk) op w)) \<and> fw_rel w (snd (mode_step (mode_cb sdk) op w))"
      if "op \<noteq> Play_Start" for op
      using mode_step_inv [OF assms(1) that, of 2 sdk] fw_rel_step [of w 2 sdk op] by simp
    show ?thesis
      using other mode [of "Mode_Set (fr_payload f ! 0)"] mode [of Play_Abort] protocol_error_ok [OF assms(1), of sdk]
        dispatch_queue_ok [OF assms(1), of sdk f] tx_only_ok(3) [OF send_status_tx assms(1)] fw_rel_tx [OF send_status_tx [of w]]
      by (simp add: dispatch_command_def Let_def)
  qed
qed

text \<open>A frame that is no validated command keeps the invariant too.\<close>

lemma dispatch_any_ok:
  assumes "fw_inv w"
  shows "fw_inv (dispatch_command sdk f w)
    \<and> (mode_state (dispatch_command sdk f w) \<noteq> mode_state w \<longrightarrow>
        sr_pending (g_safety (dispatch_command sdk f w)) \<and> kc_count (g_capture (dispatch_command sdk f w)) = 0)"
proof (cases "fr_type f = PICO_UART_PING")
  case True
  have "ut_inv (snd (pico_uart_transport_queue_frame ty p n (g_transport w)))" for ty p n
    using assms by (simp add: fw_inv_def fw_core_def)
  with assms show ?thesis
    by (simp add: dispatch_ping [OF True] fw_inv_def fw_core_def fw_modes_def) (simp add: tx_frame_def split_beta)
next
  case False
  with dispatch_ok [OF assms, of f sdk] show ?thesis by (auto simp: fw_rel_def)
qed

text \<open>The command loop takes every queued command and returns.\<close>

lemma pop_command_globals:
  assumes "fw_inv w"
  shows "fw_inv (w\<lparr>g_transport := snd (pico_uart_transport_pop_command (g_transport w))\<rparr>)"
  using assms pop_command_inv [of "g_transport w"] by (auto simp: fw_inv_def fw_core_def fw_modes_def)

definition loop_rel :: "'e globals \<Rightarrow> 'e globals \<Rightarrow> bool" where
  "loop_rel w w' \<longleftrightarrow> uart_out w' = uart_out w \<and> g_host w' = g_host w
     \<and> rx_view (g_transport w') = rx_view (g_transport w) \<and> ut_fault_pending (g_transport w') = ut_fault_pending (g_transport w)
     \<and> (sr_pending (g_safety w) \<longrightarrow> sr_pending (g_safety w')) \<and> (kc_count (g_capture w) = 0 \<longrightarrow> kc_count (g_capture w') = 0)
     \<and> (mode_state w' \<noteq> mode_state w \<longrightarrow> sr_pending (g_safety w') \<and> kc_count (g_capture w') = 0)"

lemma loop_rel_trans: "loop_rel u v \<Longrightarrow> loop_rel v w \<Longrightarrow> loop_rel u w"
  unfolding loop_rel_def by metis

lemma fw_rel_loop: "fw_rel w w' \<Longrightarrow> fw_inv w \<Longrightarrow> loop_rel w w' \<and> cmd_view (g_transport w') = cmd_view (g_transport w)"
  by (auto simp: fw_rel_def loop_rel_def tx_like_def fw_inv_def fw_core_def)

lemma command_loop_ok:
  assumes "fw_inv w"
  shows "\<exists>w'. command_loop sdk w = Some w' \<and> fw_inv w' \<and> loop_rel w w' \<and> cmd_view (g_transport w') = []"
  using assms
proof (induction "length (cmd_view (g_transport w))" arbitrary: w rule: less_induct)
  case less
  let ?t = "g_transport w"
  let ?w1 = "w\<lparr>g_transport := snd (pico_uart_transport_pop_command ?t)\<rparr>"
  have inv1: "fw_inv ?w1" using less(2) by (rule pop_command_globals)
  have cmd: "cmd_inv ?t" using less(2) by (simp add: fw_inv_def fw_core_def ut_inv_def)
  have rel1: "loop_rel w ?w1"
    by (simp add: loop_rel_def pico_uart_transport_pop_command_def rx_view_def)
  show ?case
  proof (cases "cmd_view ?t")
    case Nil
    then have "pico_uart_transport_pop_command ?t = (None, ?t)"
      by (simp add: cmd_view_Nil pico_uart_transport_pop_command_def)
    with inv1 rel1 Nil show ?thesis by (subst command_loop.simps) simp
  next
    case (Cons f fs)
    then have ne: "ut_command_tail ?t \<noteq> ut_command_head ?t" using cmd_view_Nil [of ?t] by auto
    then have "fst (pico_uart_transport_pop_command ?t) \<noteq> None" by (simp add: pico_uart_transport_pop_command_def)
    with pop_command_Some(1) [OF cmd ne] Cons
    have pop: "fst (pico_uart_transport_pop_command ?t) = Some f" "cmd_view (g_transport ?w1) = fs" by auto
    have "command_ok f" using cmd Cons by (simp add: cmd_inv_def)
    note ping = command_ok_ping [OF this]
    let ?w2 = "dispatch_command sdk f ?w1"
    have inv2: "fw_inv ?w2" and rel2: "fw_rel ?w1 ?w2" using dispatch_ok [OF inv1 ping, of sdk] by simp_all
    note lr = fw_rel_loop [OF rel2 inv1]
    from less(1) [OF _ inv2] lr pop Cons obtain w'
      where w': "command_loop sdk ?w2 = Some w'" "fw_inv w'" "loop_rel ?w2 w'" "cmd_view (g_transport w') = []"
      by auto
    have "command_loop sdk w = Some w'"
      using pop w'(1) by (subst command_loop.simps) (simp add: split_beta Let_def)
    moreover have "loop_rel w w'" using loop_rel_trans [OF loop_rel_trans [OF rel1] w'(3)] lr by blast
    ultimately show ?thesis using w' by blast
  qed
qed

end
