(* ===== verification/Firmware_Loop.thy ===== *)
theory Firmware_Loop
  imports Firmware_Invariant
begin

text \<open>
  The main loop of \<open>pico/src/main.c\<close>: each step keeps the invariant, every iteration returns, and
  what an iteration sends to the PC.
\<close>

section \<open>Before the commands: USB callbacks, interrupts, the parser\<close>

lemma host_callback_ok:
  assumes "fw_inv w"
  shows "fw_inv (host_callback sdk ev w)"
proof (cases ev)
  case (Mounted dev ins)
  obtain h w1 where m: "tuh_hid_mount_cb sdk dev ins (g_host w) w = (h, w1)" by fastforce
  obtain e where "w1 = w\<lparr>hw := e\<rparr>" using mount_effect(1) [OF m] by blast
  with mount_effect(2,3) [OF m] assms m Mounted show ?thesis
    by (simp add: fw_inv_def fw_core_def fw_modes_def)
next
  case (Unmounted dev ins)
  with assms show ?thesis by (simp add: fw_inv_def fw_core_def fw_modes_def)
next
  case (Report_Received dev ins rep len)
  obtain h c w1 where r: "tuh_hid_report_received_cb sdk dev ins rep len (g_host w) (g_capture w) w = (h, c, w1)"
    using prod_cases3 by blast
  have host: "kh_mode (g_host w)" "kh_capture (g_host w)" using assms by (simp_all add: fw_inv_def fw_core_def)
  note eff = report_received_effect [OF r host]
  have inv: "kc_inv c" using eff(1) assms by (simp add: fw_inv_def fw_core_def kc_push_inv)
  have empty: "kc_count c = 0" if "mode_state w \<noteq> PICO_UART_MODE_PASS" "mode_state w \<noteq> PICO_UART_MODE_RECORD"
    using that eff(1) assms by (simp add: fw_inv_def fw_modes_def mode_defs)
  obtain e where "w1 = w\<lparr>hw := e\<rparr>" using eff(3) by blast
  with eff(4,5) inv empty assms r Report_Received show ?thesis
    by (simp add: fw_inv_def fw_core_def fw_modes_def)
qed

lemma usb_tasks_ok: "fw_inv w \<Longrightarrow> fw_inv (usb_tasks bd w)"
proof -
  have fold: "fw_inv v \<Longrightarrow> fw_inv (fold (host_callback (bd_sdk bd)) evs v)" for evs and v :: "'a globals"
    by (induction evs arbitrary: v) (simp_all add: host_callback_ok)
  show "fw_inv w \<Longrightarrow> fw_inv (usb_tasks bd w)"
    by (simp add: usb_tasks_def Let_def split_beta fold hw_ok)
qed

lemma deliver_inv: "ut_inv t \<Longrightarrow> ut_inv (deliver bs t)"
  by (induction bs arbitrary: t) (simp_all add: deliver_def rx_push_isr_inv)

lemma hardware_error_inv: "ut_inv t \<Longrightarrow> ut_inv (pico_uart_transport_hardware_error_isr t)"
  by (simp add: pico_uart_transport_hardware_error_isr_def)

lemma set_transport_ok: "fw_inv w \<Longrightarrow> ut_inv t \<Longrightarrow> fw_inv (w\<lparr>g_transport := t\<rparr>)"
  by (simp add: fw_inv_def fw_core_def fw_modes_def)

lemma uart_irqs_ok:
  assumes "uart_fifo_ok sdk pend" "fw_inv w"
  shows "\<exists>w'. uart_irqs sdk n w = Some w' \<and> fw_inv w'"
  using assms(2)
proof (induction n arbitrary: w)
  case (Suc n)
  let ?t1 = "if fst (sdk_uart_rsr sdk (hw w)) \<noteq> 0 then pico_uart_transport_hardware_error_isr (g_transport w) else g_transport w"
  obtain e' where e: "uart0_irq_handler sdk (Some (g_transport w)) (hw w) = Some (Some (deliver (pend (hw w)) ?t1), e')"
    using irq_handler_delivers [OF assms(1), of "g_transport w" "hw w"] by blast
  have "ut_inv (deliver (pend (hw w)) ?t1)"
    using Suc.prems by (intro deliver_inv) (simp add: fw_inv_def fw_core_def hardware_error_inv)
  then have "fw_inv (w\<lparr>hw := e', g_transport := deliver (pend (hw w)) ?t1\<rparr>)"
    using set_transport_ok [of "w\<lparr>hw := e'\<rparr>"] Suc.prems by (simp add: hw_ok)
  from Suc.IH [OF this] show ?case by (simp add: e)
qed simp

lemma poll_step_ok: "fw_inv w \<Longrightarrow> fw_inv (poll_step w)"
  unfolding poll_step_def by (intro set_transport_ok poll_inv) (simp_all add: fw_inv_def fw_core_def)

lemma fault_step_ok:
  assumes "fw_inv w"
  shows "fw_inv (fault_step sdk w)"
proof -
  let ?w1 = "w\<lparr>g_transport := snd (pico_uart_transport_take_fault (g_transport w))\<rparr>"
  have "ut_inv (g_transport w)" using assms by (simp add: fw_inv_def fw_core_def)
  then have "fw_inv ?w1" using assms by (intro set_transport_ok take_fault_inv)
  with mode_step_inv [OF this, of Uart_Fault 2 sdk] show ?thesis
    by (simp add: fault_step_def Let_def split_beta)
qed

section \<open>After the commands: release, dispatch, playback, faults, transmission\<close>

abbreviation release_bytes :: "u8 list" where
  "release_bytes \<equiv> report_bytes pico_hid_boot_keyboard_release_all"

text \<open>
  The release goes out at most once and only when pending; READY means that none is pending.
\<close>

lemma release_step_effect:
  assumes "release_step sdk w = (result, w')"
  shows "mode_state w' = mode_state w \<and> w_queue w' = w_queue w \<and> w_sched w' = w_sched w \<and> g_capture w' = g_capture w
      \<and> g_transport w' = g_transport w \<and> g_host w' = g_host w \<and> g_flow_fault w' = g_flow_fault w \<and> uart_out w' = uart_out w"
    "result = PICO_SAFETY_RELEASE_READY \<longleftrightarrow> \<not> sr_pending (g_safety w)"
    "sr_pending (g_safety w') \<longleftrightarrow> result = PICO_SAFETY_RELEASE_BLOCKED"
    "hid_out w' = hid_out w @ (if result = PICO_SAFETY_RELEASE_SENT then [release_bytes] else [])"
proof -
  obtain r u where s: "pico_safety_release_service (Some (send_all_keys_release sdk)) (Some (g_safety w)) w = (result, r, u)"
    and w': "w' = u\<lparr>g_safety := the r\<rparr>"
    using assms by (auto simp: release_step_def split_beta prod_eq_iff)
  obtain b v where snd: "send_all_keys_release sdk w = (b, v)" by fastforce
  from snd have bs: "pico_hid_keyboard_send_boot_report sdk (Some pico_hid_boot_keyboard_release_all) w = (b, v)"
    by (simp add: send_all_keys_release_def pico_hid_keyboard_send_all_keys_release_def)
  note out = send_boot_report [OF bs]
  from service_cases [OF s] out snd w'
  show "mode_state w' = mode_state w \<and> w_queue w' = w_queue w \<and> w_sched w' = w_sched w \<and> g_capture w' = g_capture w
      \<and> g_transport w' = g_transport w \<and> g_host w' = g_host w \<and> g_flow_fault w' = g_flow_fault w \<and> uart_out w' = uart_out w"
    "result = PICO_SAFETY_RELEASE_READY \<longleftrightarrow> \<not> sr_pending (g_safety w)"
    "sr_pending (g_safety w') \<longleftrightarrow> result = PICO_SAFETY_RELEASE_BLOCKED"
    "hid_out w' = hid_out w @ (if result = PICO_SAFETY_RELEASE_SENT then [release_bytes] else [])"
    by auto
qed

lemma release_step_ok: "fw_inv w \<Longrightarrow> fw_inv (snd (release_step sdk w))"
  using release_step_effect(1) [of sdk w "fst (release_step sdk w)" "snd (release_step sdk w)"]
  by (simp add: fw_inv_def fw_core_def fw_modes_def)

definition dispatch_rel :: "'e globals \<Rightarrow> 'e globals \<Rightarrow> bool" where
  "dispatch_rel w w' \<longleftrightarrow> mode_state w' = mode_state w \<and> w_queue w' = w_queue w \<and> w_sched w' = w_sched w
     \<and> g_safety w' = g_safety w \<and> g_host w' = g_host w \<and> g_flow_fault w' = g_flow_fault w \<and> uart_out w' = uart_out w
     \<and> tx_like (g_transport w) (g_transport w')"

lemma dispatch_rel_callbacks:
  "dispatch_rel w v \<Longrightarrow> dispatch_rel w (snd (send_pass_report sdk r v))"
  "ce_report_len e = 8 \<Longrightarrow> dispatch_rel w v \<Longrightarrow> dispatch_rel w (send_record_event e v)"
  using tx_only_step_fields [OF send_record_event_tx [of e v]] tx_like_trans
  by (auto simp: dispatch_rel_def)

lemma dispatch_step_effect:
  assumes "fw_inv w"
  shows "dispatch_rel w (dispatch_step sdk result w)" "fw_inv (dispatch_step sdk result w)"
    "result \<noteq> PICO_SAFETY_RELEASE_READY \<Longrightarrow> hid_out (dispatch_step sdk result w) = hid_out w"
    "mode_state w \<noteq> PICO_UART_MODE_PASS \<Longrightarrow> mode_state w \<noteq> PICO_UART_MODE_RECORD \<Longrightarrow> dispatch_step sdk result w = w"
proof -
  let ?ready = "result = PICO_SAFETY_RELEASE_READY"
  let ?r = "pico_physical_report_dispatch (Some (mode_state w)) ?ready (Some (send_pass_report sdk)) (Some send_record_event) (g_capture w) w"
  have step: "dispatch_step sdk result w = (snd ?r)\<lparr>g_capture := fst ?r\<rparr>"
    by (simp add: dispatch_step_def split_beta Let_def)
  have inv: "kc_inv (g_capture w)" using assms by (simp add: fw_inv_def fw_core_def)
  note c = dispatch_result [OF inv, of "Some (mode_state w)" ?ready "send_pass_report sdk" send_record_event w]
  have rel: "dispatch_rel w (snd ?r)"
    by (rule dispatch_preserves [where P = "dispatch_rel w"])
      (simp_all add: dispatch_rel_callbacks inv, simp add: dispatch_rel_def)
  then show "dispatch_rel w (dispatch_step sdk result w)" by (simp add: step dispatch_rel_def)
  show idle: "dispatch_step sdk result w = w" if "mode_state w \<noteq> PICO_UART_MODE_PASS" "mode_state w \<noteq> PICO_UART_MODE_RECORD"
    by (simp add: step dispatch_idle [OF that])
  show "fw_inv (dispatch_step sdk result w)"
  proof (cases "mode_state w = PICO_UART_MODE_PASS \<or> mode_state w = PICO_UART_MODE_RECORD")
    case True
    with rel c assms show ?thesis
      by (auto simp: step dispatch_rel_def fw_inv_def fw_core_def fw_modes_def intro: tx_like_inv)
  next
    case False
    with idle assms show ?thesis by simp
  qed
  show "hid_out (dispatch_step sdk result w) = hid_out w" if "result \<noteq> PICO_SAFETY_RELEASE_READY"
  proof -
    have "hid_out (snd (dispatch_recording False (Some (send_pass_report sdk)) (Some send_record_event) (g_capture w) w)) = hid_out w"
      by (auto simp: dispatch_recording.simps [of False] record_head_def send_record_event_def Let_def split: option.split)
    with that show ?thesis by (simp add: step pico_physical_report_dispatch_def)
  qed
qed

lemma flow_fault_step_ok:
  assumes "fw_inv w"
  shows "fw_inv (flow_fault_step sdk w)"
proof -
  have "fw_inv (w\<lparr>g_flow_fault := False\<rparr>)" using assms by (simp add: fw_inv_def fw_core_def fw_modes_def)
  with protocol_error_ok [OF this, of sdk] assms show ?thesis by (simp add: flow_fault_step_def)
qed

lemma watchdog_step_ok:
  assumes "fw_inv w"
  shows "fw_inv (watchdog_step sdk w)"
  using mode_step_inv [of "snd (time_us_64 sdk w)" Underrun_Fault 2 sdk] assms
  by (simp add: watchdog_step_def Let_def split_beta hw_ok)

lemma transmit_step_effect:
  assumes "fw_inv w"
  shows "fw_inv (transmit_step sdk w)" "hid_out (transmit_step sdk w) = hid_out w"
    "mode_state (transmit_step sdk w) = mode_state w" "g_safety (transmit_step sdk w) = g_safety w"
    "g_capture (transmit_step sdk w) = g_capture w"
    "uart_out (transmit_step sdk w) @ tx_view (g_transport (transmit_step sdk w)) = uart_out w @ tx_view (g_transport w)"
    "w_queue (transmit_step sdk w) = w_queue w" "w_sched (transmit_step sdk w) = w_sched w"
proof -
  obtain t v where tx: "tx_loop sdk (g_transport w) w = (t, v)" by fastforce
  have "ut_inv (g_transport w)" using assms by (simp add: fw_inv_def fw_core_def)
  note law = tx_loop_conserves [OF this tx]
  have step: "transmit_step sdk w = v\<lparr>g_transport := t\<rparr>"
    by (simp add: transmit_step_def pico_uart_transport_tx_task_def tx)
  obtain e out where v: "v = w\<lparr>hw := e, uart_out := out\<rparr>" using law by blast
  show "fw_inv (transmit_step sdk w)"
    using law assms by (simp add: step v fw_inv_def fw_core_def fw_modes_def)
  show "hid_out (transmit_step sdk w) = hid_out w" "mode_state (transmit_step sdk w) = mode_state w"
    "g_safety (transmit_step sdk w) = g_safety w" "g_capture (transmit_step sdk w) = g_capture w"
    "w_queue (transmit_step sdk w) = w_queue w" "w_sched (transmit_step sdk w) = w_sched w"
    by (simp_all add: step v)
  show "uart_out (transmit_step sdk w) @ tx_view (g_transport (transmit_step sdk w)) = uart_out w @ tx_view (g_transport w)"
    using law by (simp add: step v)
qed

lemma idle_step_ok: "fw_inv (idle_step bd w) = fw_inv w"
  by (simp add: idle_step_def Let_def hw_ok)

section \<open>The iteration\<close>

lemma main_pass_ok:
  assumes "uart_fifo_ok (bd_sdk bd) pend" "fw_inv w"
  shows "\<exists>r w'. main_pass bd w = Some (r, w') \<and> fw_inv w'"
proof -
  let ?sdk = "bd_sdk bd"
  let ?call = "call_hw (bd_uart_irqs bd)"
  have irqs: "\<exists>v'. uart_irqs ?sdk (fst (?call v)) (snd (?call v)) = Some v' \<and> fw_inv v'" if "fw_inv v" for v
    using that by (intro uart_irqs_ok [OF assms(1)]) (simp add: hw_ok)
  from irqs [OF usb_tasks_ok [OF assms(2)]] obtain w2 where w2:
    "uart_irqs ?sdk (fst (?call (usb_tasks bd w))) (snd (?call (usb_tasks bd w))) = Some w2" "fw_inv w2" by blast
  from irqs [OF poll_step_ok [OF w2(2)]] obtain w3 where w3:
    "uart_irqs ?sdk (fst (?call (poll_step w2))) (snd (?call (poll_step w2))) = Some w3" "fw_inv w3" by blast
  from command_loop_ok [OF fault_step_ok [OF w3(2)], of ?sdk ?sdk] obtain w4 where w4:
    "command_loop ?sdk (fault_step ?sdk w3) = Some w4" "fw_inv w4" by blast
  let ?r = "release_step ?sdk w4"
  have w5: "fw_inv (dispatch_step ?sdk (fst ?r) (snd ?r))"
    by (rule dispatch_step_effect(2) [OF release_step_ok [OF w4(2)]])
  from task_ok [OF w5, of ?sdk] obtain w6 where w6:
    "pico_playback_scheduler_task (sched_cb ?sdk) ?sdk (dispatch_step ?sdk (fst ?r) (snd ?r)) = Some w6" "fw_inv w6" by blast
  have "fw_inv (transmit_step ?sdk (watchdog_step ?sdk (flow_fault_step ?sdk w6)))"
    by (simp add: transmit_step_effect(1) watchdog_step_ok flow_fault_step_ok w6(2))
  with w2 w3 w4 w6 show ?thesis
    by (simp add: main_pass_def Let_def split_beta)
qed

lemma main_iteration_ok:
  assumes "uart_fifo_ok (bd_sdk bd) pend" "fw_inv w"
  shows "\<exists>w'. main_iteration bd w = Some w' \<and> fw_inv w'"
  using main_pass_ok [OF assms] by (auto simp: main_iteration_def idle_step_ok)

lemma main_loop_ok:
  assumes "uart_fifo_ok (bd_sdk bd) pend" "fw_inv w"
  shows "\<exists>w'. main_loop n bd w = Some w' \<and> fw_inv w'"
  using assms(2)
proof (induction n arbitrary: w)
  case (Suc n)
  from main_iteration_ok [OF assms(1) Suc.prems] obtain w1 where "main_iteration bd w = Some w1" "fw_inv w1" by blast
  with Suc.IH [OF this(2)] show ?case by simp
qed simp

end
