(* ===== verification/Firmware_Commands.thy ===== *)
theory Firmware_Commands
  imports Firmware_Loop
begin

text \<open>
  What single commands and callbacks of \<open>pico/src/main.c\<close> do: frames on the wire in their order,
  queued events, the start of playback, and what happens when the peer sends more than the queue
  holds or the transport reports a fault.
\<close>

section \<open>Frames that fit\<close>

text \<open>A frame with room behind the queued bytes is appended to them.\<close>

lemma queue_frame_room:
  assumes "ut_inv t" "pico_uart_encode_frame ty payload len True 71 = Some bytes" "length (tx_view t) + length bytes \<le> 2048"
  shows "fst (pico_uart_transport_queue_frame ty payload len t)"
    "tx_view (snd (pico_uart_transport_queue_frame ty payload len t)) = tx_view t @ bytes"
    "ut_inv (snd (pico_uart_transport_queue_frame ty payload len t))"
proof -
  have tx: "tx_inv t" using assms(1) by (simp add: ut_inv_def)
  have room: "ring_used (ut_tx_head t) (ut_tx_tail t) + length bytes \<le> 2048" using assms(3) by (simp add: tx_view_def)
  have q: "pico_uart_transport_queue_frame ty payload len t = (True, fold tx_put bytes t)"
    using assms(2) room by (simp add: pico_uart_transport_queue_frame_def ring_used_def)
  from fold_tx_put [OF tx room] show "fst (pico_uart_transport_queue_frame ty payload len t)"
    "tx_view (snd (pico_uart_transport_queue_frame ty payload len t)) = tx_view t @ bytes" by (simp_all add: q)
  show "ut_inv (snd (pico_uart_transport_queue_frame ty payload len t))" using assms(1) by simp
qed

abbreviation tx_pending :: "'e globals \<Rightarrow> u8 list" where
  "tx_pending w \<equiv> tx_view (g_transport w)"

lemma tx_frame_body:
  assumes "ut_inv (g_transport w)" "length body \<le> 64" "pico_uart_type_known ty"
    "length (tx_pending w) + 7 + length body \<le> 2048" "len = of_nat (length body)"
  shows "fst (tx_frame ty (Some body) len w)" "tx_pending (snd (tx_frame ty (Some body) len w)) = tx_pending w @ wire_frame ty body"
    "ut_inv (g_transport (snd (tx_frame ty (Some body) len w)))"
proof -
  have "pico_uart_encode_frame ty (Some body) len True 71 = Some (wire_frame ty body)"
    unfolding assms(5) using assms(2,3) by (intro encode_frame_Some) simp_all
  from queue_frame_room [OF assms(1) this] assms(4)
  show "fst (tx_frame ty (Some body) len w)" "tx_pending (snd (tx_frame ty (Some body) len w)) = tx_pending w @ wire_frame ty body"
    "ut_inv (g_transport (snd (tx_frame ty (Some body) len w)))"
    by (simp_all add: tx_frame_def split_beta)
qed

lemma tx_frame_empty:
  assumes "ut_inv (g_transport w)" "pico_uart_type_known ty" "length (tx_pending w) + 7 \<le> 2048"
  shows "fst (tx_frame ty None 0 w)" "tx_pending (snd (tx_frame ty None 0 w)) = tx_pending w @ wire_frame ty []"
    "ut_inv (g_transport (snd (tx_frame ty None 0 w)))"
proof -
  have "pico_uart_encode_frame ty None 0 True 71 = Some (wire_frame ty [])"
    using assms(2) by (intro encode_frame_NULL) simp_all
  from queue_frame_room [OF assms(1) this] assms(3)
  show "fst (tx_frame ty None 0 w)" "tx_pending (snd (tx_frame ty None 0 w)) = tx_pending w @ wire_frame ty []"
    "ut_inv (g_transport (snd (tx_frame ty None 0 w)))"
    by (simp_all add: tx_frame_def split_beta)
qed

lemma known_types:
  "pico_uart_type_known PICO_UART_PLAY_FINISHED" "pico_uart_type_known PICO_UART_PLAY_ABORTED"
  "pico_uart_type_known PICO_UART_PLAY_METRICS" "pico_uart_type_known PICO_UART_MODE_CHANGED"
  "pico_uart_type_known PICO_UART_BUFFER_STATUS" "pico_uart_type_known PICO_UART_PLAY_STARTED"
  by (simp_all add: pico_uart_type_known_def pico_type_defs)

lemma clear_stopped_transport:
  assumes "\<not> ps_running (w_sched w)"
  shows "g_transport (clear_release_and_queue (mode_callbacks_with cmp sdk) w) = g_transport w"
  using assms
  by (simp add: clear_release_and_queue_def clear_and_release_def mode_callbacks_with_def all_callbacks_def
      mode_clear_queue_def pico_playback_scheduler_stop_def Let_def mode_clear_physical_def mode_all_release_def)

text \<open>The end of a run on the wire.\<close>

lemma completion_order:
  assumes "ut_inv (g_transport w)" "mode_state w = PICO_UART_MODE_PLAYING" "\<not> ps_running (w_sched w)"
    "length (tx_pending w) + 56 \<le> 2048"
  shows "tx_pending (main_complete sdk PICO_UART_REASON_FINISHED m w) = tx_pending w
    @ wire_frame PICO_UART_PLAY_FINISHED [] @ wire_frame PICO_UART_PLAY_METRICS (metrics_payload m)
    @ wire_frame PICO_UART_MODE_CHANGED [PICO_UART_MODE_ARMED, PICO_UART_REASON_FINISHED]"
proof -
  let ?cb = "mode_callbacks_with (playback_complete 1 sdk) sdk"
  define w1 where "w1 = snd (tx_frame PICO_UART_PLAY_FINISHED None 0 w)"
  define w2 where "w2 = snd (tx_frame PICO_UART_PLAY_METRICS (Some (metrics_payload m)) 33 w1)"
  define w3 where "w3 = (clear_release_and_queue ?cb w2)\<lparr>mode_state := PICO_UART_MODE_ARMED\<rparr>"
  have w1: "tx_pending w1 = tx_pending w @ wire_frame PICO_UART_PLAY_FINISHED []" "ut_inv (g_transport w1)"
    using tx_frame_empty(2,3) [OF assms(1) known_types(1)] assms(4) by (simp_all add: w1_def)
  have w2: "tx_pending w2 = tx_pending w1 @ wire_frame PICO_UART_PLAY_METRICS (metrics_payload m)" "ut_inv (g_transport w2)"
    using tx_frame_body(2,3) [OF w1(2), of "metrics_payload m" PICO_UART_PLAY_METRICS 33] assms(4) known_types(3) w1(1)
    by (simp_all add: w2_def)
  have run2: "\<not> ps_running (w_sched w2)" and mode2: "mode_state w2 = PICO_UART_MODE_PLAYING"
    using assms(2,3) by (simp_all add: w2_def w1_def)
  have w3: "g_transport w3 = g_transport w2" using clear_stopped_transport [OF run2] by (simp add: w3_def)
  have "main_complete sdk PICO_UART_REASON_FINISHED m w = mode_changed PICO_UART_MODE_ARMED PICO_UART_REASON_FINISHED w3"
    using mode2 by (simp add: numeral_2_eq_2 Let_def pico_mode_state_play_finish_def notify_def
        mode_callbacks_with_def all_callbacks_def w3_def w2_def w1_def)
  also have "tx_pending \<dots> = tx_pending w3
      @ wire_frame PICO_UART_MODE_CHANGED [PICO_UART_MODE_ARMED, PICO_UART_REASON_FINISHED]"
    unfolding mode_changed_def using tx_frame_body(2) [of w3 "[PICO_UART_MODE_ARMED, PICO_UART_REASON_FINISHED]" PICO_UART_MODE_CHANGED 2]
      w2 w1(1) w3 assms(4) known_types(4) by simp
  finally show ?thesis by (simp add: w3 w2(1) w1(1))
qed

section \<open>Queued events\<close>

lemma send_buffer_status_room:
  assumes "ut_inv (g_transport w)" "length (tx_pending w) + 12 \<le> 2048"
  shows "fst (send_buffer_status w)"
  unfolding send_buffer_status_def Let_def
  by (rule tx_frame_body(1) [OF assms(1) _ known_types(5)]) (use assms(2) in simp_all)

lemma ack_room:
  assumes "ut_inv (g_transport w)" "length (tx_pending w) + 12 \<le> 2048"
  shows "tx_only_step w (ack_or_error sdk w)"
  using send_buffer_status_room [OF assms] by (simp add: ack_or_error_def Let_def split_beta)

definition event_payload :: "u64 \<Rightarrow> hid_report \<Rightarrow> u8 list" where
  "event_payload off r = write_u64_le off @ [8] @ report_bytes r"

lemma queue_event_push:
  assumes "pq_inv (w_queue w)"
  shows "dispatch_queue_command sdk (mk_frame PICO_UART_QUEUE_EVENT (event_payload off r)) w
    = (if mode_state w = PICO_UART_MODE_ARMED \<or> mode_state w = PICO_UART_MODE_PLAYING then
         (if pq_count (w_queue w) < 512 then ack_or_error sdk (w\<lparr>w_queue := snd (pq_enqueue (off, r) (w_queue w))\<rparr>)
          else pico_mode_state_protocol_error (mode_cb sdk) w)
       else pico_mode_state_protocol_error (mode_cb sdk) w)"
proof -
  have off: "read_u64_le (event_payload off r) = off" by (simp add: event_payload_def)
  have rep: "drop 9 (event_payload off r) = report_bytes r"
    by (simp add: event_payload_def)
  have full: "pq_count (w_queue w) \<le> 512" using assms by (simp add: pq_inv_def)
  have push: "pico_playback_queue_push off (Some (report_bytes r)) 8 (w_queue w)
      = (pq_count (w_queue w) < 512, snd (pq_enqueue (off, r) (w_queue w)))"
    using full by (auto simp: pq_enqueue_def pico_playback_queue_push_def)
  have same: "w\<lparr>w_queue := snd (pq_enqueue (off, r) (w_queue w))\<rparr> = w" if "\<not> pq_count (w_queue w) < 512"
    using full that by (simp add: pq_enqueue_def pico_playback_queue_push_def)
  show ?thesis
    using push same
    by (simp add: dispatch_queue_command_def pico_mode_state_get_def pico_uart_queue_command_allowed_def Let_def
        off rep split_beta pico_constants)
qed

lemma protocol_error_effect:
  assumes "mode_state w \<noteq> PICO_UART_MODE_PASS" "mode_state w \<noteq> PICO_UART_MODE_ERROR"
  shows "mode_effect Clear_All PICO_UART_MODE_ERROR w (pico_mode_state_protocol_error (mode_cb sdk) w)"
    "mode_effect Clear_All PICO_UART_MODE_ERROR w (pico_mode_state_uart_fault (mode_cb sdk) w)"
    "mode_effect Clear_All PICO_UART_MODE_ERROR w (pico_mode_state_underrun_fault (mode_cb sdk) w)"
  using mode_step_effect(2) [of Protocol_Error w Clear_All 4 PICO_UART_REASON_PROTOCOL_ERROR True 2 sdk]
    mode_step_effect(2) [of Uart_Fault w Clear_All 4 PICO_UART_REASON_UART_FAULT True 2 sdk]
    mode_step_effect(2) [of Underrun_Fault w Clear_All 4 PICO_UART_REASON_UNDERRUN True 2 sdk] assms
  by (simp_all add: mode_defs)

text \<open>A state in which the program is safe after a fault.\<close>

definition safe_error :: "'e globals \<Rightarrow> bool" where
  "safe_error w \<longleftrightarrow> mode_state w = PICO_UART_MODE_ERROR \<and> sr_pending (g_safety w) \<and> kc_count (g_capture w) = 0
     \<and> pq_count (w_queue w) = 0 \<and> \<not> ps_running (w_sched w) \<and> \<not> g_flow_fault w"

lemma error_is_safe: "mode_effect Clear_All PICO_UART_MODE_ERROR w w' \<Longrightarrow> safe_error w'"
  by (simp add: mode_effect_def safe_error_def between_runs_def)

section \<open>The start of playback\<close>

lemma start_with_event:
  fixes w :: "'e globals" and cb :: "'e globals sched_callbacks" and sdk :: "'e sdk" and t :: u64
  assumes "ps_queue (w_sched w)" "\<not> ps_running (w_sched w)" "pico_playback_queue_peek (w_queue w) = Some e"
  defines "w' \<equiv> pico_playback_scheduler_start cb sdk t w"
  shows "ps_running (w_sched w') \<and> \<not> ps_waiting_for_event (w_sched w') \<and> ps_playback_start_us (w_sched w') = t
    \<and> ps_next_deadline_us (w_sched w') = t + qe_offset_us e \<and> w_queue w' = w_queue w \<and> hid_out w' = hid_out w
    \<and> mode_state w' = mode_state w \<and> sr_pending (g_safety w') = sr_pending (g_safety w)
    \<and> g_transport w' = g_transport w \<and> g_capture w' = g_capture w"
proof -
  have "w' = arm_alarm sdk (sched_update (\<lambda>s. s\<lparr>ps_waiting_for_event := False, ps_underrun_active := False,
      ps_next_deadline_us := ps_playback_start_us s + qe_offset_us e\<rparr>) (sched_update (start_run t) w))"
    using assms(1-3) by (simp add: w'_def pico_playback_scheduler_start_def arm_next_def)
  moreover have "mode_state (arm_alarm sdk v) = mode_state v" "g_safety (arm_alarm sdk v) = g_safety v"
    "g_transport (arm_alarm sdk v) = g_transport v" "g_capture (arm_alarm sdk v) = g_capture v" for v :: "'e globals"
    by (simp_all add: arm_alarm_def Let_def split_beta time_us_64_def)
  ultimately show ?thesis by simp
qed

section \<open>The order of fault and commands\<close>

text \<open>
  The main loop looks at the fault first and at the commands after it. A fault that is found in PASS
  together with a command to leave PASS, say because damaged bytes followed the command in the same
  batch, is reported as a fault in PASS, and then the command is executed: the mode is ARMED, not
  ERROR.
\<close>

lemma fault_before_command:
  fixes w :: "'e globals" and sdk :: "'e sdk"
  assumes "fw_inv w" "mode_state w = PICO_UART_MODE_PASS" "ut_fault_pending (g_transport w)"
    "cmd_view (g_transport w) = [mk_frame PICO_UART_MODE_SET [PICO_UART_MODE_ARMED]]"
  shows "\<exists>w'. command_loop sdk (fault_step sdk w) = Some w' \<and> mode_state w' = PICO_UART_MODE_ARMED"
proof -
  let ?f = "mk_frame PICO_UART_MODE_SET [PICO_UART_MODE_ARMED]"
  define t where "t = snd (pico_uart_transport_take_fault (g_transport w))"
  define w1 where "w1 = fault_step sdk w"
  have "ut_inv (g_transport w)" using assms(1) by (simp add: fw_inv_def fw_core_def)
  then have t: "ut_inv t" "cmd_view t = [?f]"
    using assms(4) by (simp_all add: t_def take_fault_inv) (simp add: pico_uart_transport_take_fault_def cmd_view_def)
  have inv: "fw_inv (w\<lparr>g_transport := t\<rparr>)"
    using assms(1) t(1) by (simp add: fw_inv_def fw_core_def fw_modes_def)
  have "w1 = mode_changed PICO_UART_MODE_PASS PICO_UART_REASON_UART_FAULT (w\<lparr>g_transport := t\<rparr>)"
    using assms(2,3) by (simp add: w1_def fault_step_def t_def Let_def split_beta pico_mode_state_uart_fault_def
        enter_error_def notify_def mode_callbacks_with_def all_callbacks_def pico_uart_transport_take_fault_def)
  then have tx: "tx_only_step (w\<lparr>g_transport := t\<rparr>) w1" by simp
  note f = tx_only_step_fields [OF tx] tx_only_ok(3) [OF tx inv]
  have c1: "cmd_view (g_transport w1) = [?f]" "mode_state w1 = PICO_UART_MODE_PASS" "cmd_inv (g_transport w1)"
    using f(1,11,12) t assms(2) by (simp_all add: tx_like_def fw_inv_def fw_core_def ut_inv_def)
  have ne: "ut_command_tail (g_transport w1) \<noteq> ut_command_head (g_transport w1)"
    using c1(1) cmd_view_Nil [of "g_transport w1"] by auto
  let ?w2 = "w1\<lparr>g_transport := snd (pico_uart_transport_pop_command (g_transport w1))\<rparr>"
  have pop: "fst (pico_uart_transport_pop_command (g_transport w1)) = Some ?f" "cmd_view (g_transport ?w2) = []"
    using pop_command_Some(1) [OF c1(3) ne] c1(1) ne by (auto simp: pico_uart_transport_pop_command_def)
  have inv2: "fw_inv ?w2" using f(12) by (rule pop_command_globals)
  define w3 where "w3 = dispatch_command sdk ?f ?w2"
  have "w3 = snd (mode_step (mode_cb sdk) (Mode_Set 2) ?w2)"
    by (simp add: w3_def dispatch_command_def zero_type_defs mode_defs)
  moreover have "mode_table (Mode_Set 2) (mode_state ?w2) = (Clear_All, 2, PICO_UART_REASON_OK, True)"
    using c1(2) by (simp add: mode_defs)
  ultimately have m3: "mode_state w3 = PICO_UART_MODE_ARMED"
    using mode_step_effect(2) [of "Mode_Set 2" ?w2 Clear_All 2 _ _ 2 sdk] by (simp add: mode_effect_def mode_defs)
  have "cmd_view (g_transport w3) = []"
    using fw_rel_loop [of ?w2 w3] dispatch_ok [OF inv2, of ?f sdk] inv2 pop(2) by (simp add: w3_def pico_constants)
  then have "command_loop sdk w3 = Some w3"
    by (subst command_loop.simps) (simp add: cmd_view_Nil pico_uart_transport_pop_command_def)
  with m3 pop(1) show ?thesis
    by (subst command_loop.simps) (simp add: w1_def [symmetric] w3_def split_beta Let_def)
qed

end
