(* ===== verification/Samples.thy ===== *)
theory Samples
  imports Firmware_Commands
begin

text \<open>
  Concrete hardware and program states for the witnesses of the properties.
\<close>

section \<open>Sample hardware\<close>

text \<open>
  The witnesses run the model on a small board: the hardware state is the receive FIFO of the UART,
  the clock stands at zero, no alarm fires, and every report and byte is taken.
\<close>

definition fifo_sdk :: "u8 list sdk" where
  "fifo_sdk = \<lparr>sdk_time_us_64 = (\<lambda>e. (0, e)), sdk_add_alarm_at = (\<lambda>d e. (I32 1, e)),
     sdk_cancel_alarm = (\<lambda>i e. (True, e)), sdk_alarm_irq = (\<lambda>e. (False, e)),
     sdk_tud_hid_ready = (\<lambda>e. (True, e)), sdk_tud_hid_report = (\<lambda>i r e. (True, e)),
     sdk_tuh_hid_receive_report = (\<lambda>d i e. (True, e)), sdk_tuh_hid_interface_protocol = (\<lambda>d i e. (1, e)),
     sdk_uart_is_writable = (\<lambda>e. (True, e)), sdk_uart_putc_raw = (\<lambda>b e. e),
     sdk_uart_rsr = (\<lambda>e. (0, e)), sdk_uart_clear_rsr = (\<lambda>e. e),
     sdk_uart_is_readable = (\<lambda>e. (e \<noteq> [], e)), sdk_uart_getc = (\<lambda>e. (hd e, tl e))\<rparr>"

definition fifo_board :: "u8 list board" where
  "fifo_board = \<lparr>bd_sdk = fifo_sdk, bd_tud_task = (\<lambda>e. e), bd_tuh_task = (\<lambda>e. ([], e)),
     bd_uart_irqs = (\<lambda>e. (1, e)), bd_tight_loop_contents = (\<lambda>e. e), bd_sleep_us = (\<lambda>n e. e),
     bd_sleep_ms = (\<lambda>n e. e)\<rparr>"

lemma fifo_sdk_ok: "uart_fifo_ok fifo_sdk (\<lambda>e. e)"
  by (simp add: uart_fifo_ok_def fifo_sdk_def)

abbreviation sample_init :: "u8 list globals" where
  "sample_init \<equiv> main_init []"

definition sample_armed :: "u8 list globals" where
  "sample_armed = snd (mode_step (mode_cb fifo_sdk) (Mode_Set 2) sample_init)"

lemma sample_init_mode [simp]: "mode_state (main_init e) = 0"
  by (simp add: main_init_def mode_defs)

lemma sample_armed_facts: "fw_inv sample_armed" "mode_state sample_armed = 2" "sr_pending (g_safety sample_armed)"
proof -
  have t: "mode_table (Mode_Set 2) (mode_state sample_init) = (Clear_All, 2, PICO_UART_REASON_OK, True)" by simp
  show "fw_inv sample_armed" by (simp only: sample_armed_def) (rule mode_step_inv; simp add: main_init_inv)
  show "mode_state sample_armed = 2" "sr_pending (g_safety sample_armed)"
    using mode_step_effect(2) [OF t, of 2 fifo_sdk] by (simp_all add: sample_armed_def mode_effect_def)
qed

text \<open>A scheduler in the middle of a run: one event, due at once.\<close>

definition sample_playing :: "u8 list globals" where
  "sample_playing = sample_init\<lparr>mode_state := 3,
     w_queue := snd (pico_playback_queue_push 0 (Some (replicate 8 0)) 8 pico_playback_queue_init),
     w_sched := start_run 0 (pico_playback_scheduler_init True)\<rparr>"

lemma sample_playing_queue:
  "pico_playback_queue_peek (w_queue sample_playing)
     = Some \<lparr>qe_offset_us = 0, qe_report_len = 8, qe_report = report_of_bytes (replicate 8 0)\<rparr>"
  "pq_inv (w_queue sample_playing)" "pq_count (w_queue sample_playing) = 1"
proof -
  show "pq_inv (w_queue sample_playing)" by (simp add: sample_playing_def pq_push_inv)
qed (simp_all add: sample_playing_def pico_playback_queue_push_def pico_playback_queue_init_def
      pico_playback_queue_peek_def)

lemma sample_playing_inv: "fw_inv sample_playing" "ps_running (w_sched sample_playing)" "mode_state sample_playing = 3"
  using sample_playing_queue main_init_inv [of "[]"]
  by (simp_all add: fw_inv_def fw_core_def fw_modes_def sched_ok_def)
    (simp_all add: sample_playing_def mode_defs start_run_def samples_inv_def pico_playback_scheduler_init_def
      main_init_def pico_keyboard_capture_init_def)

lemma sample_dispatch: "dispatch_command fifo_sdk (mk_frame 0x87 [2]) sample_init = sample_armed"
  by (simp add: dispatch_command_def sample_armed_def zero_type_defs)

lemma sample_round: "hid_out (snd (task_round (sched_cb fifo_sdk) fifo_sdk sample_playing)) \<noteq> hid_out sample_playing"
proof -
  have s: "\<not> ps_waiting_for_event (w_sched sample_playing)" "ps_next_deadline_us (w_sched sample_playing) = 0"
    by (simp_all add: sample_playing_def) (simp add: start_run_def)
  have due: "fst (event_due fifo_sdk sample_playing)" by (simp add: event_due_iff s fifo_sdk_def)
  have send: "fst (send_pass_report fifo_sdk r w)" for r and w :: "u8 list globals"
    by (simp add: send_pass_report_def pico_hid_keyboard_send_boot_report_def pico_hid_keyboard_send_report_def
        tud_hid_report_def Let_def split_beta) (simp add: fifo_sdk_def)
  show ?thesis
    by (simp add: task_round_def Let_def split_beta s due sample_playing_queue send scheduler_callbacks_def)
qed

definition sample_capture :: keyboard_capture where
  "sample_capture = snd (pico_keyboard_capture_push 5 (Some (replicate 8 0)) 8 pico_keyboard_capture_init)"

lemma sample_capture_inv: "kc_inv sample_capture"
  by (simp add: sample_capture_def kc_push_inv)

lemma init_idle: "idle pico_uart_transport_init" "cmd_view pico_uart_transport_init = []" "tx_view pico_uart_transport_init = []"
    "rx_view pico_uart_transport_init = []" "ut_fault_pending pico_uart_transport_init = False"
  by (simp_all add: idle_def rx_view_def cmd_view_def tx_view_def parser_prefix_def pico_uart_transport_init_def)

lemma sample_command: "pico_uart_type_is_command 0x87" "pico_uart_frame_payload_valid (Some (mk_frame 0x87 [2]))"
  by (simp_all add: pico_uart_type_is_command_def pico_uart_frame_payload_valid_def pico_constants
      pico_uart_type_known_def)

text \<open>A full queue.\<close>

definition full_queue :: playback_queue where
  "full_queue = \<lparr>pq_events = replicate 512 \<lparr>qe_offset_us = 0, qe_report_len = 8, qe_report = report_of_bytes (replicate 8 0)\<rparr>,
     pq_read_index = 0, pq_write_index = 0, pq_count = 512\<rparr>"

lemma full_queue_inv: "pq_inv full_queue" "pq_count full_queue = 512"
  by (simp_all add: full_queue_def pq_inv_def pq_view_def ring_view_def)

lemma main_init_fields [simp]:
  "g_transport (main_init e) = pico_uart_transport_init" "w_queue (main_init e) = pico_playback_queue_init"
  "w_sched (main_init e) = pico_playback_scheduler_init True" "hid_out (main_init e) = []"
  "\<not> sr_pending (g_safety (main_init e))" "pq_count pico_playback_queue_init = 0"
  by (simp_all add: main_init_def pico_safety_release_init_def pico_playback_queue_init_def)

lemma sample_fresh: "fresh_run (start_run 0 (pico_playback_scheduler_init True))"
  by (intro start_run_fresh) (simp add: samples_inv_def pico_playback_scheduler_init_def)

definition sample_underrun :: "u8 list globals" where
  "sample_underrun = sample_init\<lparr>w_sched := (start_run 0 (pico_playback_scheduler_init True))
     \<lparr>ps_waiting_for_event := True, ps_underrun_active := True\<rparr>\<rparr>"

lemma sample_underrun_facts: "in_underrun (w_sched sample_underrun) 0" "pq_count (w_queue sample_underrun) = 0"
  by (simp_all add: sample_underrun_def in_underrun_def) (simp_all add: start_run_def pico_playback_scheduler_init_def)

end
