(* ===== verification/Firmware_Steps.thy ===== *)
theory Firmware_Steps
  imports Firmware_Loop
begin

text \<open>
  The main loop of \<open>pico/src/main.c\<close> as a transition system with labels. A step is one call of the
  loop, one callback of the USB host, one UART interrupt or a change of the hardware; a path is any
  sequence of steps, in whatever order. An iteration of the loop is the path with the order of the
  code, so what is shown of all steps and paths holds of the program.
\<close>

section \<open>Steps and paths\<close>

datatype step_label = Usb_Host host_event | Uart_Irq | Hardware | Poll | Fault | Command uart_frame
  | Release pico_safety_release_result | Dispatch pico_safety_release_result
  | Playback | Flow_Fault | Watchdog | Transmit

text \<open>
  Reports are dispatched as \<open>READY\<close> only while no release is pending; this is the one assumption about
  the order of the steps.
\<close>

inductive fw_step :: "'e sdk \<Rightarrow> 'e globals \<Rightarrow> step_label \<Rightarrow> 'e globals \<Rightarrow> bool" for sdk :: "'e sdk" where
  usb_host: "fw_step sdk w (Usb_Host ev) (host_callback sdk ev w)"
| uart_irq: "fw_step sdk w Uart_Irq (w\<lparr>hw := e, g_transport := t\<rparr>)"
    if "uart0_irq_handler sdk (Some (g_transport w)) (hw w) = Some (Some t, e)"
| hardware: "fw_step sdk w Hardware (w\<lparr>hw := e\<rparr>)"
| poll: "fw_step sdk w Poll (poll_step w)"
| fault: "fw_step sdk w Fault (fault_step sdk w)"
| command: "fw_step sdk w (Command f) (dispatch_command sdk f (w\<lparr>g_transport := t\<rparr>))"
    if "pico_uart_transport_pop_command (g_transport w) = (Some f, t)"
| release: "fw_step sdk w (Release result) w'"
    if "release_step sdk w = (result, w')"
| dispatch: "fw_step sdk w (Dispatch result) (dispatch_step sdk result w)"
    if "result = PICO_SAFETY_RELEASE_READY \<longrightarrow> \<not> sr_pending (g_safety w)"
| playback: "fw_step sdk w Playback w'"
    if "pico_playback_scheduler_task (sched_cb sdk) sdk w = Some w'"
| flow_fault: "fw_step sdk w Flow_Fault (flow_fault_step sdk w)"
| watchdog: "fw_step sdk w Watchdog (watchdog_step sdk w)"
| transmit: "fw_step sdk w Transmit (transmit_step sdk w)"

inductive_cases fw_stepE:
  "fw_step sdk w (Usb_Host ev) w'" "fw_step sdk w Uart_Irq w'" "fw_step sdk w Hardware w'"
  "fw_step sdk w Poll w'" "fw_step sdk w Fault w'" "fw_step sdk w (Command f) w'"
  "fw_step sdk w (Release result) w'" "fw_step sdk w (Dispatch result) w'" "fw_step sdk w Playback w'"
  "fw_step sdk w Flow_Fault w'" "fw_step sdk w Watchdog w'" "fw_step sdk w Transmit w'"

inductive fw_path :: "'e sdk \<Rightarrow> 'e globals \<Rightarrow> step_label list \<Rightarrow> 'e globals \<Rightarrow> bool" for sdk :: "'e sdk" where
  path_Nil: "fw_path sdk w [] w"
| path_Cons: "fw_path sdk u (l # ls) w" if "fw_step sdk u l v" "fw_path sdk v ls w"

inductive_simps fw_path_simps [simp]:
  "fw_path sdk u [] w" "fw_path sdk u (l # ls) w"

lemma fw_path_append: "fw_path sdk u (ks @ ls) w \<longleftrightarrow> (\<exists>v. fw_path sdk u ks v \<and> fw_path sdk v ls w)"
  by (induction ks arbitrary: u) auto

lemma fw_path_trans: "fw_path sdk u ks v \<Longrightarrow> fw_path sdk v ls w \<Longrightarrow> fw_path sdk u (ks @ ls) w"
  using fw_path_append by metis

text \<open>What single steps keep under a condition on their labels, paths keep.\<close>

lemma fw_path_induct:
  assumes "fw_path sdk w ls w'" "P w" "\<forall>l \<in> set ls. Q l"
    "\<And>u l v. fw_step sdk u l v \<Longrightarrow> P u \<Longrightarrow> Q l \<Longrightarrow> P v"
  shows "P w'"
  using assms(1-3) by (induction) (auto intro: assms(4))

definition fw_reachable :: "'e sdk \<Rightarrow> 'e globals \<Rightarrow> bool" where
  "fw_reachable sdk w \<longleftrightarrow> (\<exists>e ls. fw_path sdk (main_init e) ls w)"

lemma reachable_init: "fw_reachable sdk (main_init e)"
  unfolding fw_reachable_def using path_Nil by blast

lemma reachable_path: "fw_reachable sdk w \<Longrightarrow> fw_path sdk w ls w' \<Longrightarrow> fw_reachable sdk w'"
  unfolding fw_reachable_def using fw_path_append by metis

section \<open>An iteration is a path in the order of the code\<close>

definition input_labels :: "host_event list \<Rightarrow> nat \<Rightarrow> nat \<Rightarrow> uart_frame list \<Rightarrow> step_label list" where
  "input_labels evs i j fs =
     [Hardware, Hardware] @ map Usb_Host evs @ [Hardware] @ replicate i Uart_Irq @ [Poll, Hardware]
     @ replicate j Uart_Irq @ [Fault] @ map Command fs"

definition iteration_labels ::
    "host_event list \<Rightarrow> nat \<Rightarrow> nat \<Rightarrow> uart_frame list \<Rightarrow> pico_safety_release_result \<Rightarrow> step_label list" where
  "iteration_labels evs i j fs result =
     input_labels evs i j fs @ [Release result, Dispatch result, Playback, Flow_Fault, Watchdog, Transmit, Hardware]"

lemma host_events_path: "fw_path sdk w (map Usb_Host evs) (fold (host_callback sdk) evs w)"
  by (induction evs arbitrary: w) (auto intro: usb_host)

lemma uart_irqs_path: "uart_irqs sdk n w = Some w' \<Longrightarrow> fw_path sdk w (replicate n Uart_Irq) w'"
proof (induction n arbitrary: w)
  case (Suc n)
  from Suc.prems obtain t e where "uart0_irq_handler sdk (Some (g_transport w)) (hw w) = Some (Some t, e)"
    "uart_irqs sdk n (w\<lparr>hw := e, g_transport := t\<rparr>) = Some w'"
    by (auto split: option.splits)
  from fw_step.uart_irq [OF this(1)] Suc.IH [OF this(2)] show ?case by (simp only: replicate_Suc fw_path_simps) blast
qed simp

lemma command_loop_path:
  assumes "command_loop sdk w = Some w'"
  shows "\<exists>fs. fw_path sdk w (map Command fs) w'"
  using assms
proof (induction rule: command_loop.raw_induct [rotated, consumes 1, case_names call])
  case (call loop sdk w w')
  obtain cmd t where pop: "pico_uart_transport_pop_command (g_transport w) = (cmd, t)" by fastforce
  show ?case
  proof (cases cmd)
    case None
    with call(2) pop have "w' = w"
      by (auto simp: pico_uart_transport_pop_command_def split: if_splits)
    then have "fw_path sdk w (map Command []) w'" by simp
    then show ?thesis by blast
  next
    case (Some f)
    with call(2) pop have "loop sdk (dispatch_command sdk f (w\<lparr>g_transport := t\<rparr>)) = Some w'" by simp
    from call(1) [OF this] obtain fs where "fw_path sdk (dispatch_command sdk f (w\<lparr>g_transport := t\<rparr>)) (map Command fs) w'"
      by blast
    with pop Some have "fw_path sdk w (map Command (f # fs)) w'" by (auto dest: command)
    then show ?thesis by blast
  qed
qed

lemma usb_tasks_path: "\<exists>evs. fw_path (bd_sdk bd) w ([Hardware, Hardware] @ map Usb_Host evs) (usb_tasks bd w)"
proof -
  define w1 where "w1 = w\<lparr>hw := bd_tud_task bd (hw w)\<rparr>"
  define w2 where "w2 = snd (call_hw (bd_tuh_task bd) w1)"
  define evs where "evs = fst (call_hw (bd_tuh_task bd) w1)"
  have "usb_tasks bd w = fold (host_callback (bd_sdk bd)) evs w2"
    by (simp add: usb_tasks_def w1_def w2_def evs_def Let_def split_beta)
  moreover have "fw_step (bd_sdk bd) w Hardware w1" unfolding w1_def by (rule hardware)
  moreover have "fw_step (bd_sdk bd) w1 Hardware w2" unfolding w2_def call_hw_result by (rule hardware)
  ultimately have "fw_path (bd_sdk bd) w ([Hardware, Hardware] @ map Usb_Host evs) (usb_tasks bd w)"
    using host_events_path [of "bd_sdk bd" w2 evs] by auto
  then show ?thesis ..
qed

lemma idle_step_hardware: "fw_step sdk w Hardware (idle_step bd w)"
  by (auto simp: idle_step_def Let_def intro: hardware)

text \<open>The parts of an iteration: the input up to the commands, and what follows from it.\<close>

lemma main_pass_run:
  assumes "main_pass bd w = Some (result, w8)"
  obtains w2 w3 w4 w5 w6 where
    "uart_irqs (bd_sdk bd) (fst (call_hw (bd_uart_irqs bd) (usb_tasks bd w))) (snd (call_hw (bd_uart_irqs bd) (usb_tasks bd w))) = Some w2"
    "uart_irqs (bd_sdk bd) (fst (call_hw (bd_uart_irqs bd) (poll_step w2))) (snd (call_hw (bd_uart_irqs bd) (poll_step w2))) = Some w3"
    "command_loop (bd_sdk bd) (fault_step (bd_sdk bd) w3) = Some w4"
    "release_step (bd_sdk bd) w4 = (result, w5)"
    "pico_playback_scheduler_task (sched_cb (bd_sdk bd)) (bd_sdk bd) (dispatch_step (bd_sdk bd) result w5) = Some w6"
    "w8 = transmit_step (bd_sdk bd) (watchdog_step (bd_sdk bd) (flow_fault_step (bd_sdk bd) w6))"
proof -
  let ?sdk = "bd_sdk bd" and ?call = "call_hw (bd_uart_irqs bd)" and ?w1 = "usb_tasks bd w"
  obtain w2 where w2: "uart_irqs ?sdk (fst (?call ?w1)) (snd (?call ?w1)) = Some w2"
    using assms by (auto simp: main_pass_def Let_def split_beta bind_eq_Some_conv)
  obtain w3 where w3: "uart_irqs ?sdk (fst (?call (poll_step w2))) (snd (?call (poll_step w2))) = Some w3"
    using assms w2 by (auto simp: main_pass_def Let_def split_beta bind_eq_Some_conv)
  obtain w4 where w4: "command_loop ?sdk (fault_step ?sdk w3) = Some w4"
    using assms w2 w3 by (auto simp: main_pass_def Let_def split_beta bind_eq_Some_conv)
  obtain r w5 where w5: "release_step ?sdk w4 = (r, w5)" by fastforce
  obtain w6 where w6: "pico_playback_scheduler_task (sched_cb ?sdk) ?sdk (dispatch_step ?sdk r w5) = Some w6"
    and w8: "w8 = transmit_step ?sdk (watchdog_step ?sdk (flow_fault_step ?sdk w6))" "result = r"
    using assms w2 w3 w4 w5 by (auto simp: main_pass_def Let_def split_beta bind_eq_Some_conv)
  show ?thesis by (rule that [OF w2 w3 w4]) (use w5 w6 w8 in simp_all)
qed

lemma input_run_path:
  assumes
    "uart_irqs (bd_sdk bd) (fst (call_hw (bd_uart_irqs bd) (usb_tasks bd w))) (snd (call_hw (bd_uart_irqs bd) (usb_tasks bd w))) = Some w2"
    "uart_irqs (bd_sdk bd) (fst (call_hw (bd_uart_irqs bd) (poll_step w2))) (snd (call_hw (bd_uart_irqs bd) (poll_step w2))) = Some w3"
    "command_loop (bd_sdk bd) (fault_step (bd_sdk bd) w3) = Some w4"
  shows "\<exists>evs i j fs. fw_path (bd_sdk bd) w (input_labels evs i j fs) w4"
proof -
  let ?sdk = "bd_sdk bd" and ?call = "call_hw (bd_uart_irqs bd)" and ?w1 = "usb_tasks bd w"
  obtain evs where evs: "fw_path ?sdk w ([Hardware, Hardware] @ map Usb_Host evs) ?w1" using usb_tasks_path by blast
  obtain fs where fs: "fw_path ?sdk (fault_step ?sdk w3) (map Command fs) w4" using command_loop_path [OF assms(3)] by blast
  have irqs: "fw_path ?sdk v (Hardware # replicate (fst (?call v)) Uart_Irq) v'"
    if "uart_irqs ?sdk (fst (?call v)) (snd (?call v)) = Some v'" for v v'
    using path_Cons [OF hardware uart_irqs_path [OF that, unfolded call_hw_result]] by simp
  have "fw_path ?sdk w (([Hardware, Hardware] @ map Usb_Host evs) @ (Hardware # replicate (fst (?call ?w1)) Uart_Irq)
      @ (Poll # (Hardware # replicate (fst (?call (poll_step w2))) Uart_Irq) @ (Fault # map Command fs))) w4"
    by (rule fw_path_trans [OF evs fw_path_trans [OF irqs [OF assms(1)] path_Cons [OF poll
        fw_path_trans [OF irqs [OF assms(2)] path_Cons [OF fault fs]]]]])
  then have "fw_path ?sdk w (input_labels evs (fst (?call ?w1)) (fst (?call (poll_step w2))) fs) w4"
    by (simp only: input_labels_def append_assoc append_Cons append_Nil)
  then show ?thesis by blast
qed

lemma main_pass_parts:
  assumes "main_pass bd w = Some (result, w8)"
  obtains evs i j fs w4 w5 w6 where
    "fw_path (bd_sdk bd) w (input_labels evs i j fs) w4"
    "release_step (bd_sdk bd) w4 = (result, w5)"
    "pico_playback_scheduler_task (sched_cb (bd_sdk bd)) (bd_sdk bd) (dispatch_step (bd_sdk bd) result w5) = Some w6"
    "w8 = transmit_step (bd_sdk bd) (watchdog_step (bd_sdk bd) (flow_fault_step (bd_sdk bd) w6))"
  using assms input_run_path by (metis main_pass_run)

lemma iteration_path:
  assumes "main_iteration bd w = Some w'"
  shows "\<exists>evs i j fs result. fw_path (bd_sdk bd) w (iteration_labels evs i j fs result) w'"
proof -
  let ?sdk = "bd_sdk bd"
  obtain r w8 where pass: "main_pass bd w = Some (r, w8)" and w': "w' = idle_step bd w8"
    using assms by (auto simp: main_iteration_def bind_eq_Some_conv)
  from pass obtain evs i j fs w4 w5 w6 where input: "fw_path ?sdk w (input_labels evs i j fs) w4"
    and w5: "release_step ?sdk w4 = (r, w5)"
    and w6: "pico_playback_scheduler_task (sched_cb ?sdk) ?sdk (dispatch_step ?sdk r w5) = Some w6"
    and w8: "w8 = transmit_step ?sdk (watchdog_step ?sdk (flow_fault_step ?sdk w6))"
    by (rule main_pass_parts)
  have "r = PICO_SAFETY_RELEASE_READY \<longrightarrow> \<not> sr_pending (g_safety w5)"
    using release_step_effect(2,3) [OF w5] by auto
  then have "fw_path ?sdk w4 [Release r, Dispatch r, Playback, Flow_Fault, Watchdog, Transmit, Hardware] w'"
    using w5 w6 w8 w' idle_step_hardware by (auto intro!: fw_step.intros exI)
  from fw_path_trans [OF input this] show ?thesis unfolding iteration_labels_def by blast
qed

end
