(* ===== verification/Firmware_Reach.thy ===== *)
theory Firmware_Reach
  imports Firmware_Steps
begin

text \<open>
  What the steps of the main loop keep: the invariant of the program, the stream of messages to the
  Zero, where the reports to the PC come from, how the mode changes, and that a change of mode
  releases all keys.
\<close>

section \<open>The interrupt, whatever the UART delivers\<close>

lemma irq_drain_deliver:
  assumes "irq_drain sdk t e = Some r"
  shows "\<exists>bs. fst r = deliver bs t"
  using assms
proof (induction rule: irq_drain.raw_induct [rotated, consumes 1, case_names call])
  case (call drain sdk t e r)
  obtain rd e1 c e2 where rd: "sdk_uart_is_readable sdk e = (rd, e1)" "sdk_uart_getc sdk e1 = (c, e2)" by fastforce
  show ?case
  proof (cases rd)
    case False
    with call(2) rd have "fst r = deliver [] t" by (auto simp: deliver_def)
    then show ?thesis by blast
  next
    case True
    with call(2) rd have "drain sdk (pico_uart_transport_rx_push_isr c t) e2 = Some r" by simp
    from call(1) [OF this] obtain bs where "fst r = deliver (c # bs) t" by (auto simp: deliver_def)
    then show ?thesis by blast
  qed
qed

lemma tx_view_isr [simp]:
  "tx_view (pico_uart_transport_rx_push_isr b t) = tx_view t"
  "tx_view (pico_uart_transport_hardware_error_isr t) = tx_view t"
  "tx_view (deliver bs t) = tx_view t"
proof -
  show push: "tx_view (pico_uart_transport_rx_push_isr b t) = tx_view t" for b t
    by (simp add: pico_uart_transport_rx_push_isr_def Let_def latch_fault_def tx_view_def)
  show "tx_view (pico_uart_transport_hardware_error_isr t) = tx_view t"
    by (simp add: pico_uart_transport_hardware_error_isr_def latch_fault_def)
  show "tx_view (deliver bs t) = tx_view t"
    by (induction bs arbitrary: t) (simp_all add: deliver_def push)
qed

lemma irq_handler_keeps:
  assumes "uart0_irq_handler sdk (Some t) e = Some (Some t', e')"
  shows "ut_inv t \<Longrightarrow> ut_inv t'" "tx_view t' = tx_view t"
proof -
  let ?t1 = "if fst (sdk_uart_rsr sdk e) \<noteq> 0 then pico_uart_transport_hardware_error_isr t else t"
  obtain r e2 where "irq_drain sdk ?t1 e2 = Some r" "t' = fst r"
    using assms by (auto simp: uart0_irq_handler_def Let_def split_beta split: if_splits)
  with irq_drain_deliver obtain bs where t': "t' = deliver bs ?t1" by metis
  show "ut_inv t \<Longrightarrow> ut_inv t'" unfolding t' by (intro deliver_inv) (simp add: hardware_error_inv)
  show "tx_view t' = tx_view t" by (simp add: t')
qed

lemma tx_view_poll: "ut_inv t \<Longrightarrow> tx_view (pico_uart_transport_poll t) = tx_view t"
proof -
  assume "ut_inv t"
  have out: "tx_view (apply_outcome out u) = tx_view u" for out u by (cases out) simp_all
  have "tx_view (fold apply_outcome outs u) = tx_view u" for outs u
    by (induction outs arbitrary: u) (simp_all add: out)
  moreover from poll_refines [OF \<open>ut_inv t\<close>] have "poll_core (pico_uart_transport_poll t)
      = fold apply_outcome (snd (parse (parser_prefix t) (rx_view t))) (poll_core t)"
    by (simp add: settled_def absorb_def)
  ultimately have "tx_view (poll_core (pico_uart_transport_poll t)) = tx_view (poll_core t)" by simp
  then show "tx_view (pico_uart_transport_poll t) = tx_view t" by simp
qed

lemma tx_view_pop_command [simp]: "tx_view (snd (pico_uart_transport_pop_command t)) = tx_view t"
  by (simp add: pico_uart_transport_pop_command_def tx_view_def)

section \<open>The invariant\<close>

lemma fw_step_inv:
  assumes "fw_step sdk w l w'" "fw_inv w"
  shows "fw_inv w'"
  using assms
proof cases
  case (uart_irq t e)
  have "ut_inv t" using irq_handler_keeps(1) [OF uart_irq(3)] assms(2) by (simp add: fw_inv_def fw_core_def)
  then have "fw_inv (w\<lparr>hw := e\<rparr>\<lparr>g_transport := t\<rparr>)" using assms(2) by (intro set_transport_ok) (simp_all add: hw_ok)
  then show ?thesis by (simp add: uart_irq)
next
  case (command f t)
  then have "t = snd (pico_uart_transport_pop_command (g_transport w))" by simp
  with pop_command_globals [OF assms(2)] have "fw_inv (w\<lparr>g_transport := t\<rparr>)" by simp
  from dispatch_any_ok [OF this, of sdk f] show ?thesis unfolding command(2) by (rule conjunct1)
next
  case (playback)
  with task_ok [OF assms(2), of sdk] show ?thesis by auto
next
  case (release result)
  with release_step_ok [OF assms(2), of sdk] show ?thesis by simp
qed (use assms(2) in \<open>simp_all add: host_callback_ok hw_ok poll_step_ok fault_step_ok dispatch_step_effect(2)
      flow_fault_step_ok watchdog_step_ok transmit_step_effect(1)\<close>)

section \<open>Quiet steps\<close>

text \<open>
  \<open>wire_sent\<close>: all bytes for the Zero, those given to the UART and those still queued. A step \<open>speaks\<close> when it
  adds whole messages to them, and it is quiet when moreover nothing goes to the PC and a pending
  release stays pending.
\<close>

definition wire_sent :: "'e globals \<Rightarrow> u8 list" where
  "wire_sent w = uart_out w @ tx_view (g_transport w)"

definition speaks :: "'e globals \<Rightarrow> 'e globals \<Rightarrow> bool" where
  "speaks w w' \<longleftrightarrow> (\<exists>ms. list_all pico_message ms \<and> wire_sent w' = wire_sent w @ wire_stream ms)"

definition quiet :: "'e globals \<Rightarrow> 'e globals \<Rightarrow> bool" where
  "quiet w w' \<longleftrightarrow> speaks w w' \<and> hid_out w' = hid_out w \<and> (sr_pending (g_safety w) \<longrightarrow> sr_pending (g_safety w'))"

lemma speaks_same: "wire_sent w' = wire_sent w \<Longrightarrow> speaks w w'"
  unfolding speaks_def by (rule exI [of _ "[]"]) simp

lemma speaks_trans: "speaks u v \<Longrightarrow> speaks v w \<Longrightarrow> speaks u w"
  unfolding speaks_def by (metis append_assoc list_all_append wire_stream_simps(3))

lemma speaks_tx_like:
  assumes "fw_inv w" "uart_out w' = uart_out w" "tx_like (g_transport w) (g_transport w')"
  shows "speaks w w'"
proof -
  have "ut_inv (g_transport w)" using assms(1) by (simp add: fw_inv_def fw_core_def)
  then have "says (g_transport w) (g_transport w')" using assms(3) unfolding tx_like_def by blast
  then show ?thesis using assms(2) by (auto simp: says_def speaks_def wire_sent_def)
qed

lemma quiet_refl [simp]: "quiet w w"
  by (simp add: quiet_def speaks_same)

lemma quiet_trans: "quiet u v \<Longrightarrow> quiet v w \<Longrightarrow> quiet u w"
  by (auto simp: quiet_def intro: speaks_trans)

lemma quiet_hw [simp]: "quiet w (w\<lparr>hw := e\<rparr>)"
  by (simp add: quiet_def speaks_same wire_sent_def)

lemma quiet_rel: "fw_rel w w' \<Longrightarrow> fw_inv w \<Longrightarrow> hid_out w' = hid_out w \<Longrightarrow> quiet w w'"
  by (auto simp: fw_rel_def quiet_def intro: speaks_tx_like)

lemma mode_ops_hid_out [simp]:
  "hid_out (snd (pico_mode_state_handle_mode_set (mode_cb sdk) target w)) = hid_out w"
  "hid_out (snd (pico_mode_state_play_start (mode_cb sdk) w)) = hid_out w"
  "hid_out (snd (pico_mode_state_play_abort (mode_cb sdk) w)) = hid_out w"
  "hid_out (pico_mode_state_protocol_error (mode_cb sdk) w) = hid_out w"
  "hid_out (pico_mode_state_uart_fault (mode_cb sdk) w) = hid_out w"
  "hid_out (pico_mode_state_underrun_fault (mode_cb sdk) w) = hid_out w"
proof -
  have step: "hid_out (snd (mode_step (mode_cb sdk) op w)) = hid_out w" for op
  proof -
    obtain k s' reason ok where t: "mode_table op (mode_state w) = (k, s', reason, ok)"
      using prod_cases4 by blast
    show ?thesis using mode_step_effect(2) [OF t, of 2 sdk] by (simp add: mode_effect_def same_rest_def)
  qed
  show "hid_out (snd (pico_mode_state_handle_mode_set (mode_cb sdk) target w)) = hid_out w"
    using step [of "Mode_Set target"] by simp
  show "hid_out (snd (pico_mode_state_play_start (mode_cb sdk) w)) = hid_out w" using step [of Play_Start] by simp
  show "hid_out (snd (pico_mode_state_play_abort (mode_cb sdk) w)) = hid_out w" using step [of Play_Abort] by simp
  show "hid_out (pico_mode_state_protocol_error (mode_cb sdk) w) = hid_out w" using step [of Protocol_Error] by simp
  show "hid_out (pico_mode_state_uart_fault (mode_cb sdk) w) = hid_out w" using step [of Uart_Fault] by simp
  show "hid_out (pico_mode_state_underrun_fault (mode_cb sdk) w) = hid_out w" using step [of Underrun_Fault] by simp
qed

lemma frames_hid_out [simp]:
  "hid_out (snd (send_buffer_status w)) = hid_out w" "hid_out (send_status w) = hid_out w"
  "hid_out (ack_or_error sdk w) = hid_out w"
  by (simp_all add: send_buffer_status_def send_status_def ack_or_error_def Let_def split_beta)

lemma start_hid_out [simp]: "hid_out (pico_playback_scheduler_start (sched_cb sdk) sdk t w) = hid_out w"
  by (simp add: pico_playback_scheduler_start_def scheduler_callbacks_def fws.arm_next_hid_out)

lemma dispatch_command_hid_out: "hid_out (dispatch_command sdk f w) = hid_out w"
proof -
  have "hid_out (dispatch_queue_command sdk f w) = hid_out w"
    by (simp add: dispatch_queue_command_def Let_def split_beta)
  then show ?thesis by (simp add: dispatch_command_def Let_def split_beta)
qed

lemma quiet_error:
  assumes "fw_inv w"
  shows "quiet w (pico_mode_state_protocol_error (mode_cb sdk) w)"
    "quiet w (pico_mode_state_uart_fault (mode_cb sdk) w)"
    "quiet w (pico_mode_state_underrun_fault (mode_cb sdk) w)"
  using fw_rel_step [of w 2 sdk Protocol_Error] fw_rel_step [of w 2 sdk Uart_Fault] fw_rel_step [of w 2 sdk Underrun_Fault]
  by (simp_all add: quiet_rel [OF _ assms])

lemma quiet_transport:
  assumes "fw_inv w" "tx_view t = tx_view (g_transport w)"
  shows "quiet w (w\<lparr>g_transport := t\<rparr>)" "quiet w (w\<lparr>hw := e, g_transport := t\<rparr>)"
  using assms(2) by (simp_all add: quiet_def speaks_same wire_sent_def)

section \<open>The steps one by one\<close>

lemma host_callback_fields [simp]:
  "hid_out (host_callback sdk ev w) = hid_out w" "uart_out (host_callback sdk ev w) = uart_out w"
  "mode_state (host_callback sdk ev w) = mode_state w" "g_safety (host_callback sdk ev w) = g_safety w"
  "g_transport (host_callback sdk ev w) = g_transport w" "w_queue (host_callback sdk ev w) = w_queue w"
proof -
  have "\<exists>e c h. host_callback sdk ev w = w\<lparr>hw := e, g_capture := c, g_host := h\<rparr>"
  proof (cases ev)
    case (Mounted dev ins)
    obtain h w1 where m: "tuh_hid_mount_cb sdk dev ins (g_host w) w = (h, w1)" by fastforce
    from mount_effect(1) [OF m] obtain e where "w1 = w\<lparr>hw := e\<rparr>" by blast
    with Mounted m have "host_callback sdk ev w = w\<lparr>hw := e, g_capture := g_capture w, g_host := h\<rparr>" by simp
    then show ?thesis by blast
  next
    case (Unmounted dev ins)
    then have "host_callback sdk ev w = w\<lparr>hw := hw w, g_capture := g_capture w, g_host := tuh_hid_umount_cb dev ins (g_host w)\<rparr>"
      by simp
    then show ?thesis by blast
  next
    case (Report_Received dev ins rep len)
    obtain h c w1 where r: "tuh_hid_report_received_cb sdk dev ins rep len (g_host w) (g_capture w) w = (h, c, w1)"
      using prod_cases3 by blast
    then obtain e where "w1 = w\<lparr>hw := e\<rparr>"
      by (auto simp: tuh_hid_report_received_cb_def request_next_report_def Let_def split_beta time_us_64_def call_hw_def
          split: if_splits)
    with Report_Received r have "host_callback sdk ev w = w\<lparr>hw := e, g_capture := c, g_host := h\<rparr>" by simp
    then show ?thesis by blast
  qed
  then show "hid_out (host_callback sdk ev w) = hid_out w" "uart_out (host_callback sdk ev w) = uart_out w"
    "mode_state (host_callback sdk ev w) = mode_state w" "g_safety (host_callback sdk ev w) = g_safety w"
    "g_transport (host_callback sdk ev w) = g_transport w" "w_queue (host_callback sdk ev w) = w_queue w" by auto
qed

lemma popped_command_ok:
  assumes "fw_inv w" "pico_uart_transport_pop_command (g_transport w) = (Some f, t)"
  shows "command_ok f" "fw_inv (w\<lparr>g_transport := t\<rparr>)" "quiet w (w\<lparr>g_transport := t\<rparr>)"
proof -
  have cmd: "cmd_inv (g_transport w)" using assms(1) by (simp add: fw_inv_def fw_core_def ut_inv_def)
  have ne: "ut_command_tail (g_transport w) \<noteq> ut_command_head (g_transport w)"
    using assms(2) by (auto simp: pico_uart_transport_pop_command_def)
  from pop_command_Some(1) [OF cmd ne] assms(2) have "f \<in> set (cmd_view (g_transport w))" by simp
  with cmd show "command_ok f" by (simp add: cmd_inv_def)
  have t: "t = snd (pico_uart_transport_pop_command (g_transport w))" using assms(2) by simp
  show "fw_inv (w\<lparr>g_transport := t\<rparr>)" unfolding t by (rule pop_command_globals [OF assms(1)])
  show "quiet w (w\<lparr>g_transport := t\<rparr>)" by (rule quiet_transport [OF assms(1)]) (simp add: t)
qed

lemma dispatch_command_quiet:
  assumes "fw_inv w" "command_ok f"
  shows "quiet w (dispatch_command sdk f w)"
  using dispatch_ok [OF assms(1) command_ok_ping [OF assms(2)], of sdk] quiet_rel [OF _ assms(1)] dispatch_command_hid_out
  by blast

lemma fault_step_quiet:
  assumes "fw_inv w"
  shows "quiet w (fault_step sdk w)"
proof -
  let ?t = "snd (pico_uart_transport_take_fault (g_transport w))"
  have "quiet w (w\<lparr>g_transport := ?t\<rparr>)"
    by (rule quiet_transport [OF assms]) (simp add: pico_uart_transport_take_fault_def)
  moreover have "fw_inv (w\<lparr>g_transport := ?t\<rparr>)"
    using assms by (intro set_transport_ok take_fault_inv) (simp_all add: fw_inv_def fw_core_def)
  ultimately show ?thesis
    using quiet_error(2) [of "w\<lparr>g_transport := ?t\<rparr>" sdk] by (auto simp: fault_step_def Let_def split_beta intro: quiet_trans)
qed

lemma flow_fault_step_quiet: "fw_inv w \<Longrightarrow> quiet w (flow_fault_step sdk w)"
proof -
  assume inv: "fw_inv w"
  have "fw_inv (w\<lparr>g_flow_fault := False\<rparr>)" using inv by (simp add: fw_inv_def fw_core_def fw_modes_def)
  moreover have "quiet w (w\<lparr>g_flow_fault := False\<rparr>)" by (simp add: quiet_def speaks_same wire_sent_def)
  ultimately show ?thesis using quiet_error(1) by (auto simp: flow_fault_step_def intro: quiet_trans)
qed

lemma watchdog_step_quiet:
  assumes "fw_inv w"
  shows "quiet w (watchdog_step sdk w)"
  using assms quiet_error(3) [of "snd (time_us_64 sdk w)" sdk] quiet_trans [OF quiet_hw]
  by (auto simp: watchdog_step_def Let_def split_beta hw_ok time_us_64_def)

text \<open>The dispatched reports are the first of the captured ones.\<close>

lemma dispatch_step_reports:
  assumes "fw_inv w"
  shows "\<exists>rs. hid_out (dispatch_step sdk result w) = hid_out w @ map report_bytes rs
    \<and> rs @ map ce_report (kc_view (g_capture (dispatch_step sdk result w))) = map ce_report (kc_view (g_capture w))"
proof -
  let ?ready = "result = PICO_SAFETY_RELEASE_READY"
  have inv: "kc_inv (g_capture w)" using assms by (simp add: fw_inv_def fw_core_def)
  define P where "P = (\<lambda>s :: 'a globals traced. hid_out (fst s) = hid_out w @ map report_bytes (fst (snd s)))"
  obtain c v fwd recd where t: "traced_dispatch (Some (mode_state w)) ?ready (send_pass_report sdk) send_record_event
      (g_capture w) w = (c, v, fwd, recd)" using prod_cases4 by blast
  have "P (snd (traced_dispatch (Some (mode_state w)) ?ready (send_pass_report sdk) send_record_event (g_capture w) w))"
    by (rule dispatch_preserves [where P = P]) (simp_all add: P_def inv send_record_event_def Let_def)
  with t have "hid_out v = hid_out w @ map report_bytes fwd" by (simp add: P_def)
  moreover have "dispatch_step sdk result w = v\<lparr>g_capture := c\<rparr>"
    using dispatch_erase [of "Some (mode_state w)" ?ready "send_pass_report sdk" send_record_event "g_capture w" w] t
    by (simp add: dispatch_step_def)
  ultimately show ?thesis using dispatch_conserves(1) [OF inv t] by auto
qed

section \<open>What goes to the Zero and to the PC\<close>

lemma release_step_fields:
  assumes "release_step sdk w = (result, w')"
  shows "wire_sent w' = wire_sent w" "mode_state w' = mode_state w"
  using release_step_effect(1) [OF assms] by (simp_all add: wire_sent_def)

lemma task_step:
  assumes "pico_playback_scheduler_task (sched_cb sdk) sdk w = Some w'" "fw_inv w"
  shows "run_rel w w'" "hid_out w' @ remaining w' = hid_out w @ remaining w"
    "mode_state w \<noteq> PICO_UART_MODE_PLAYING \<Longrightarrow> w' = w"
proof -
  from task_ok [OF assms(2), of sdk] assms(1)
  show "run_rel w w'" "hid_out w' @ remaining w' = hid_out w @ remaining w" by (auto simp: sched_law_def)
  show "mode_state w \<noteq> PICO_UART_MODE_PLAYING \<Longrightarrow> w' = w"
    using assms by (subst (asm) pico_playback_scheduler_task.simps) (simp add: fw_inv_def fw_modes_def)
qed

lemma step_speaks:
  assumes "fw_step sdk w l w'" "fw_inv w"
  shows "speaks w w'"
  using assms(1)
proof cases
  case (uart_irq t e)
  from quiet_transport(2) [OF assms(2) irq_handler_keeps(2) [OF uart_irq(3)]] uart_irq(2) show ?thesis
    by (simp add: quiet_def)
next
  case poll
  with tx_view_poll quiet_transport(1) [OF assms(2)] assms(2) show ?thesis
    by (simp add: poll_step_def quiet_def fw_inv_def fw_core_def)
next
  case (command f t)
  from popped_command_ok [OF assms(2) command(3)] dispatch_command_quiet
  have "quiet w w'" unfolding command(2) by (blast intro: quiet_trans)
  then show ?thesis by (simp add: quiet_def)
next
  case (release result)
  from release_step_fields(1) [OF this(2)] show ?thesis by (rule speaks_same)
next
  case (dispatch result)
  with dispatch_step_effect(1) [OF assms(2), of sdk result] show ?thesis
    by (simp add: dispatch_rel_def speaks_tx_like [OF assms(2)])
next
  case playback
  from task_step(1) [OF this(2) assms(2)] show ?thesis
    by (simp add: run_rel_def fw_rel_def speaks_tx_like [OF assms(2)])
next
  case transmit
  with transmit_step_effect(6) [OF assms(2), of sdk] show ?thesis by (simp add: speaks_same wire_sent_def)
qed (use fault_step_quiet [OF assms(2), of sdk] flow_fault_step_quiet [OF assms(2), of sdk]
      watchdog_step_quiet [OF assms(2), of sdk] in
    \<open>auto simp: speaks_same wire_sent_def quiet_def\<close>)

text \<open>Where a report to the PC comes from: the release, the captured reports, or the playback queue.\<close>

definition report_origin :: "step_label \<Rightarrow> 'e globals \<Rightarrow> u8 list list \<Rightarrow> bool" where
  "report_origin l w rs \<longleftrightarrow> rs = [] \<or> (case l of
     Release result \<Rightarrow> result = PICO_SAFETY_RELEASE_SENT \<and> sr_pending (g_safety w) \<and> rs = [release_bytes]
   | Dispatch result \<Rightarrow> \<not> sr_pending (g_safety w)
       \<and> (mode_state w = PICO_UART_MODE_PASS \<or> mode_state w = PICO_UART_MODE_RECORD)
       \<and> prefix rs (map (\<lambda>e. report_bytes (ce_report e)) (kc_view (g_capture w)))
   | Playback \<Rightarrow> mode_state w = PICO_UART_MODE_PLAYING \<and> prefix rs (remaining w)
   | _ \<Rightarrow> False)"

lemma dispatch_step_origin:
  assumes "fw_inv w" "result = PICO_SAFETY_RELEASE_READY \<longrightarrow> \<not> sr_pending (g_safety w)"
  shows "\<exists>rs. hid_out (dispatch_step sdk result w) = hid_out w @ rs \<and> report_origin (Dispatch result) w rs"
proof -
  from dispatch_step_reports [OF assms(1), of sdk result] obtain rs where
    out: "hid_out (dispatch_step sdk result w) = hid_out w @ map report_bytes rs"
    and rs: "rs @ map ce_report (kc_view (g_capture (dispatch_step sdk result w))) = map ce_report (kc_view (g_capture w))"
    by blast
  have "prefix (map report_bytes rs) (map report_bytes (map ce_report (kc_view (g_capture w))))"
    unfolding rs [symmetric] by simp
  moreover have "rs = []" if "result \<noteq> PICO_SAFETY_RELEASE_READY"
    using dispatch_step_effect(3) [OF assms(1) that, of sdk] out by simp
  moreover have "rs = []" if "mode_state w \<noteq> PICO_UART_MODE_PASS" "mode_state w \<noteq> PICO_UART_MODE_RECORD"
    using dispatch_step_effect(4) [OF assms(1) that, of sdk result] out by simp
  ultimately have "report_origin (Dispatch result) w (map report_bytes rs)"
    using assms(2) unfolding report_origin_def by (auto simp: comp_def)
  with out show ?thesis by blast
qed

lemma step_reports:
  assumes "fw_step sdk w l w'" "fw_inv w"
  shows "\<exists>rs. hid_out w' = hid_out w @ rs \<and> report_origin l w rs"
proof -
  have same: ?thesis if "hid_out w' = hid_out w"
    using that by (intro exI [of _ "[]"]) (simp add: report_origin_def)
  from assms(1) show ?thesis
  proof cases
    case (command f t)
    then have "hid_out w' = hid_out w" by (simp add: dispatch_command_hid_out)
    then show ?thesis by (rule same)
  next
    case (release result)
    note eff = release_step_effect [OF release(2)]
    show ?thesis
    proof (cases "result = PICO_SAFETY_RELEASE_SENT")
      case True
      then have "hid_out w' = hid_out w @ [release_bytes]" "sr_pending (g_safety w)" using eff(2,4) by auto
      with True release(1) show ?thesis by (intro exI [of _ "[release_bytes]"]) (simp add: report_origin_def)
    qed (use eff(4) same in simp)
  next
    case (dispatch result)
    with dispatch_step_origin [OF assms(2)] show ?thesis by blast
  next
    case playback
    note task = task_step [OF this(2) assms(2)]
    from task(1) obtain rs where rs: "hid_out w' = hid_out w @ rs" by (auto simp: run_rel_def elim: prefixE)
    with task(2) have "prefix rs (remaining w)" by (metis append_assoc prefixI same_append_eq)
    moreover have "rs = []" if "mode_state w \<noteq> PICO_UART_MODE_PLAYING" using task(3) [OF that] rs by simp
    ultimately show ?thesis using playback(1) rs by (intro exI [of _ rs]) (auto simp: report_origin_def)
  qed (use assms(2) fault_step_quiet [OF assms(2), of sdk] flow_fault_step_quiet [OF assms(2), of sdk]
      watchdog_step_quiet [OF assms(2), of sdk] transmit_step_effect(2) [OF assms(2), of sdk] same
      in \<open>simp_all add: quiet_def poll_step_def\<close>)
qed

section \<open>How the mode changes\<close>

text \<open>\<open>mode_edge l s s'\<close>: a step labelled \<open>l\<close> may change the mode from \<open>s\<close> to \<open>s'\<close>.\<close>

fun mode_edge :: "step_label \<Rightarrow> u8 \<Rightarrow> u8 \<Rightarrow> bool" where
  "mode_edge (Command f) s s' =
     (if fr_type f = PICO_UART_MODE_SET
      then s' = fr_payload f ! 0 \<and> s' \<le> PICO_UART_MODE_ARMED \<and> (s = PICO_UART_MODE_PASS \<or> s' = PICO_UART_MODE_PASS)
      else if fr_type f = PICO_UART_PLAY_START then s = PICO_UART_MODE_ARMED \<and> s' = PICO_UART_MODE_PLAYING
      else if fr_type f = PICO_UART_PLAY_ABORT then s = PICO_UART_MODE_PLAYING \<and> s' = PICO_UART_MODE_ARMED
      else (fr_type f = PICO_UART_QUEUE_CLEAR \<or> fr_type f = PICO_UART_QUEUE_EVENT \<or> fr_type f = PICO_UART_QUEUE_END)
        \<and> s \<noteq> PICO_UART_MODE_PASS \<and> s' = PICO_UART_MODE_ERROR)"
| "mode_edge Fault s s' = (s \<noteq> PICO_UART_MODE_PASS \<and> s' = PICO_UART_MODE_ERROR)"
| "mode_edge Flow_Fault s s' = (s \<noteq> PICO_UART_MODE_PASS \<and> s' = PICO_UART_MODE_ERROR)"
| "mode_edge Watchdog s s' = (s = PICO_UART_MODE_PLAYING \<and> s' = PICO_UART_MODE_ERROR)"
| "mode_edge Playback s s' = (s = PICO_UART_MODE_PLAYING \<and> s' = PICO_UART_MODE_ARMED)"
| "mode_edge _ s s' = False"

lemma mode_step_next:
  "mode_state (snd (mode_step (mode_cb sdk) op w)) = fst (snd (mode_table op (mode_state w)))"
proof -
  obtain k s' reason ok where t: "mode_table op (mode_state w) = (k, s', reason, ok)"
    using prod_cases4 by blast
  show ?thesis using mode_step_effect(2) [OF t, of 2 sdk] t by (simp add: mode_effect_def)
qed

lemma error_next [simp]:
  "mode_state (pico_mode_state_protocol_error (mode_cb sdk) w) = (if mode_state w = PICO_UART_MODE_PASS then PICO_UART_MODE_PASS else PICO_UART_MODE_ERROR)"
  "mode_state (pico_mode_state_uart_fault (mode_cb sdk) w) = (if mode_state w = PICO_UART_MODE_PASS then PICO_UART_MODE_PASS else PICO_UART_MODE_ERROR)"
  "mode_state (pico_mode_state_underrun_fault (mode_cb sdk) w) = (if mode_state w = PICO_UART_MODE_PASS then PICO_UART_MODE_PASS else PICO_UART_MODE_ERROR)"
  using mode_step_next [of sdk Protocol_Error w] mode_step_next [of sdk Uart_Fault w] mode_step_next [of sdk Underrun_Fault w]
  by (simp_all add: mode_defs)

lemma frames_mode [simp]:
  "mode_state (snd (send_buffer_status w)) = mode_state w" "mode_state (send_status w) = mode_state w"
  by (simp_all add: send_buffer_status_def send_status_def Let_def)

lemma ack_mode:
  "mode_state (ack_or_error sdk w) = mode_state w
     \<or> mode_state w \<noteq> PICO_UART_MODE_PASS \<and> mode_state (ack_or_error sdk w) = PICO_UART_MODE_ERROR"
  by (simp add: ack_or_error_def Let_def split_beta)

lemma queue_command_mode:
  "mode_state (dispatch_queue_command sdk f w) = mode_state w
     \<or> mode_state w \<noteq> PICO_UART_MODE_PASS \<and> mode_state (dispatch_queue_command sdk f w) = PICO_UART_MODE_ERROR"
proof -
  define P where "P v \<longleftrightarrow> mode_state v = mode_state w
    \<or> mode_state w \<noteq> PICO_UART_MODE_PASS \<and> mode_state v = PICO_UART_MODE_ERROR" for v :: "'a globals"
  have "P (ack_or_error sdk v)" "P (pico_mode_state_protocol_error (mode_cb sdk) v)" if "mode_state v = mode_state w" for v
    using ack_mode [of sdk v] that by (simp_all add: P_def)
  then have "P (dispatch_queue_command sdk f w)"
    by (simp add: dispatch_queue_command_def Let_def split_beta)
  then show ?thesis by (simp add: P_def)
qed

lemma play_start_mode:
  fixes w :: "'e globals"
  assumes "fw_inv w" "fr_type f = PICO_UART_PLAY_START"
  shows "mode_state (dispatch_command sdk f w) = mode_state w
    \<or> mode_state w = PICO_UART_MODE_ARMED \<and> mode_state (dispatch_command sdk f w) = PICO_UART_MODE_PLAYING"
proof -
  define w1 where "w1 = snd (time_us_64 sdk w)"
  define t where "t = fst (time_us_64 sdk w)"
  let ?r = "pico_mode_state_play_start (mode_cb sdk) w1"
  let ?w3 = "snd (tx_frame PICO_UART_PLAY_STARTED (Some (write_u64_le t)) 8 (snd ?r))"
  have eq: "dispatch_command sdk f w = (if fst ?r then pico_playback_scheduler_start (sched_cb sdk) sdk t ?w3 else snd ?r)"
    using assms(2) by (simp add: dispatch_command_def Let_def split_beta w1_def t_def zero_type_defs)
  have inv1: "fw_inv w1" "mode_state w1 = mode_state w" using assms(1) by (simp_all add: w1_def hw_ok time_us_64_def)
  show ?thesis
  proof (cases "mode_state w1 = PICO_UART_MODE_ARMED")
    case True
    note st = play_start_ok [OF inv1(1) True, of sdk]
    have tx: "tx_only_step (snd ?r) ?w3" by simp
    have "fw_core ?w3" "mode_state ?w3 = PICO_UART_MODE_PLAYING" "kc_count (g_capture ?w3) = 0" "\<not> ps_running (w_sched ?w3)"
      using st(2) tx_only_ok(1) [OF tx] by auto
    from start_ok [OF this, of sdk t] have "run_rel ?w3 (pico_playback_scheduler_start (sched_cb sdk) sdk t ?w3)" by blast
    with True st inv1(2) show ?thesis by (auto simp: eq run_rel_def)
  next
    case False
    then have "\<not> fst ?r" "mode_state (snd ?r) = mode_state w1"
      using mode_step_next [of sdk Play_Start w1] by (simp_all add: pico_mode_state_play_start_def mode_defs)
    then show ?thesis by (simp add: eq inv1(2))
  qed
qed

lemma dispatch_command_mode:
  assumes "fw_inv w" "command_ok f"
  shows "mode_state (dispatch_command sdk f w) = mode_state w
    \<or> mode_edge (Command f) (mode_state w) (mode_state (dispatch_command sdk f w))"
proof -
  consider (set) "fr_type f = PICO_UART_MODE_SET" | (start) "fr_type f = PICO_UART_PLAY_START"
    | (abort) "fr_type f = PICO_UART_PLAY_ABORT"
    | (queue) "fr_type f = PICO_UART_QUEUE_CLEAR \<or> fr_type f = PICO_UART_QUEUE_EVENT \<or> fr_type f = PICO_UART_QUEUE_END"
    | (tx) "fr_type f = PICO_UART_PING \<or> fr_type f = PICO_UART_STATUS_REQUEST"
    using assms(2) unfolding command_ok_def command_iff by blast
  then show ?thesis
  proof cases
    case set
    then have "mode_state (dispatch_command sdk f w) = fst (snd (mode_table (Mode_Set (fr_payload f ! 0)) (mode_state w)))"
      using mode_step_next [of sdk "Mode_Set (fr_payload f ! 0)" w] by (simp add: dispatch_command_def)
    with set show ?thesis by (auto simp: mode_defs not_less)
  next
    case start
    with play_start_mode [OF assms(1) start, of sdk] show ?thesis by (auto simp: zero_type_defs)
  next
    case abort
    then have "mode_state (dispatch_command sdk f w) = fst (snd (mode_table Play_Abort (mode_state w)))"
      using mode_step_next [of sdk Play_Abort w] by (simp add: dispatch_command_def zero_type_defs)
    with abort show ?thesis by (auto simp: pico_constants)
  next
    case queue
    then have "dispatch_command sdk f w = dispatch_queue_command sdk f w"
      by (auto simp: dispatch_command_def Let_def zero_type_defs)
    with queue_command_mode [of sdk f w] queue show ?thesis by (auto simp: zero_type_defs)
  next
    case tx
    then show ?thesis by (auto simp: dispatch_command_def Let_def zero_type_defs)
  qed
qed

lemma step_takes_edge:
  assumes "fw_step sdk w l w'" "fw_inv w"
  shows "mode_state w' = mode_state w \<or> mode_edge l (mode_state w) (mode_state w')"
  using assms(1)
proof cases
  case (command f t)
  from dispatch_command_mode [OF popped_command_ok(2,1) [OF assms(2) command(3)], of sdk] command show ?thesis by simp
next
  case (release result)
  with release_step_fields(2) show ?thesis by simp
next
  case (dispatch result)
  with dispatch_step_effect(1) [OF assms(2), of sdk result] show ?thesis by (simp add: dispatch_rel_def)
next
  case playback
  from task_step(1) [OF this(2) assms(2)] this(1) show ?thesis by (auto simp: run_rel_def)
qed (use transmit_step_effect(3) [OF assms(2), of sdk] in
    \<open>simp_all add: poll_step_def fault_step_def flow_fault_step_def watchdog_step_def pico_mode_state_get_def
       Let_def split_beta time_us_64_def\<close>)

section \<open>Pending releases\<close>

lemma mode_step_pending:
  "sr_pending (g_safety (snd (mode_step (mode_cb sdk) op w)))
     \<longleftrightarrow> fst (mode_table op (mode_state w)) \<noteq> Keep \<or> sr_pending (g_safety w)"
proof -
  obtain k s' reason ok where t: "mode_table op (mode_state w) = (k, s', reason, ok)"
    using prod_cases4 by blast
  show ?thesis using mode_step_effect(2) [OF t, of 2 sdk] t by (simp add: mode_effect_def)
qed

lemma error_pending [simp]:
  "sr_pending (g_safety (pico_mode_state_protocol_error (mode_cb sdk) w))
     \<longleftrightarrow> mode_state w \<noteq> PICO_UART_MODE_PASS \<and> mode_state w \<noteq> PICO_UART_MODE_ERROR \<or> sr_pending (g_safety w)"
  "sr_pending (g_safety (pico_mode_state_uart_fault (mode_cb sdk) w))
     \<longleftrightarrow> mode_state w \<noteq> PICO_UART_MODE_PASS \<and> mode_state w \<noteq> PICO_UART_MODE_ERROR \<or> sr_pending (g_safety w)"
  "sr_pending (g_safety (pico_mode_state_underrun_fault (mode_cb sdk) w))
     \<longleftrightarrow> mode_state w \<noteq> PICO_UART_MODE_PASS \<and> mode_state w \<noteq> PICO_UART_MODE_ERROR \<or> sr_pending (g_safety w)"
  using mode_step_pending [of sdk Protocol_Error w] mode_step_pending [of sdk Uart_Fault w]
    mode_step_pending [of sdk Underrun_Fault w]
  by (simp_all add: mode_defs)

lemma step_pending:
  assumes "fw_step sdk w l w'" "fw_inv w" "sr_pending (g_safety w)"
  shows "sr_pending (g_safety w') \<or> l = Release PICO_SAFETY_RELEASE_SENT"
  using assms(1)
proof cases
  case (command f t)
  from popped_command_ok [OF assms(2) command(3)] dispatch_command_quiet
  have "quiet w w'" unfolding command(2) by (blast intro: quiet_trans)
  then show ?thesis using assms(3) by (simp add: quiet_def)
next
  case (release result)
  from release_step_effect(2,3) [OF release(2)] assms(3) release(1) show ?thesis by (cases result) auto
next
  case (dispatch result)
  with dispatch_step_effect(1) [OF assms(2), of sdk result] assms(3) show ?thesis by (simp add: dispatch_rel_def)
next
  case playback
  from task_step(1) [OF this(2) assms(2)] assms(3) show ?thesis by (simp add: run_rel_def fw_rel_def)
qed (use assms(3) transmit_step_effect(4) [OF assms(2), of sdk] in
    \<open>simp_all add: poll_step_def fault_step_def flow_fault_step_def watchdog_step_def Let_def split_beta time_us_64_def\<close>)

lemma step_change_pending:
  assumes "fw_step sdk w l w'" "fw_inv w" "mode_state w' \<noteq> mode_state w"
  shows "sr_pending (g_safety w')"
  using assms(1)
proof cases
  case (command f t)
  from dispatch_any_ok [OF popped_command_ok(2) [OF assms(2) command(3)], of sdk f] assms(3)
  show ?thesis unfolding command(2) by simp
next
  case playback
  from task_step(1) [OF this(2) assms(2)] assms(3) show ?thesis by (simp add: run_rel_def fw_rel_def)
next
  case fault
  with assms(3) show ?thesis by (auto simp: fault_step_def Let_def split_beta split: if_splits)
next
  case flow_fault
  with assms(3) show ?thesis by (auto simp: flow_fault_step_def split: if_splits)
next
  case watchdog
  with assms(3) show ?thesis
    by (auto simp: watchdog_step_def Let_def split_beta time_us_64_def split: if_splits)
qed (use step_takes_edge [OF assms(1,2)] assms(3) in auto)

text \<open>A change of mode discards the captured input.\<close>

lemma step_change_empty:
  assumes "fw_step sdk w l w'" "fw_inv w" "mode_state w' \<noteq> mode_state w"
  shows "kc_count (g_capture w') = 0"
proof (cases "mode_state w' = PICO_UART_MODE_PASS \<or> mode_state w' = PICO_UART_MODE_RECORD")
  case True
  with step_takes_edge [OF assms(1,2)] assms(3) obtain f where l: "l = Command f"
    by (cases l) (auto simp: mode_defs)
  from assms(1)[unfolded l] obtain t where w': "w' = dispatch_command sdk f (w\<lparr>g_transport := t\<rparr>)"
    and pop: "pico_uart_transport_pop_command (g_transport w) = (Some f, t)" by (auto elim: fw_stepE)
  from dispatch_any_ok [OF popped_command_ok(2) [OF assms(2) pop], of sdk f] assms(3)
  show ?thesis unfolding w' by simp
next
  case False
  with fw_step_inv [OF assms(1,2)] show ?thesis by (simp add: fw_inv_def fw_modes_def)
qed

section \<open>ERROR\<close>

definition leaves_error :: "step_label \<Rightarrow> bool" where
  "leaves_error l \<longleftrightarrow> (\<exists>f. l = Command f \<and> fr_type f = PICO_UART_MODE_SET \<and> fr_payload f ! 0 = PICO_UART_MODE_PASS)"

lemma error_command_pending:
  assumes "command_ok f" "mode_state w = PICO_UART_MODE_ERROR" "\<not> leaves_error (Command f)"
  shows "sr_pending (g_safety (dispatch_command sdk f w)) = sr_pending (g_safety w)"
proof -
  have keep: "sr_pending (g_safety (snd (mode_step (mode_cb sdk) op v))) = sr_pending (g_safety v)"
    if "mode_state v = PICO_UART_MODE_ERROR" "op \<noteq> Mode_Set 0" for op and v :: "'a globals"
    using that mode_step_pending [of sdk op v] by (cases op) (auto simp: mode_defs split: if_splits)
  have start: "\<not> fst (pico_mode_state_play_start (mode_cb sdk) v)" if "mode_state v = PICO_UART_MODE_ERROR" for v
    using that by (simp add: pico_mode_state_play_start_def mode_defs)
  have queue: "dispatch_queue_command sdk f w = pico_mode_state_protocol_error (mode_cb sdk) w"
    using assms(2) by (simp add: dispatch_queue_command_def pico_mode_state_get_def pico_uart_queue_command_allowed_def mode_defs)
  have time: "mode_state (snd (time_us_64 sdk w)) = PICO_UART_MODE_ERROR" "g_safety (snd (time_us_64 sdk w)) = g_safety w"
    using assms(2) by (simp_all add: time_us_64_def)
  show ?thesis
    using assms(2,3) start [OF time(1)] keep [OF time(1), of Play_Start] keep [OF assms(2), of Play_Abort]
      keep [OF assms(2), of "Mode_Set (fr_payload f ! 0)"] keep [OF assms(2), of Protocol_Error] time(2)
    by (auto simp: dispatch_command_def Let_def split_beta queue leaves_error_def mode_defs send_status_def)
qed

lemma error_step:
  assumes "fw_step sdk w l w'" "fw_inv w" "mode_state w = PICO_UART_MODE_ERROR" "\<not> leaves_error l"
  shows "mode_state w' = PICO_UART_MODE_ERROR" "sr_pending (g_safety w') \<longrightarrow> sr_pending (g_safety w)"
    "hid_out w' = hid_out w @ (if sr_pending (g_safety w) \<and> \<not> sr_pending (g_safety w') then [release_bytes] else [])"
proof -
  show mode: "mode_state w' = PICO_UART_MODE_ERROR"
    using step_takes_edge [OF assms(1,2)] assms(3,4)
    by (cases l) (auto simp: leaves_error_def mode_defs split: if_splits)
  have steps: "sr_pending (g_safety (fault_step sdk w)) = sr_pending (g_safety w)"
    "sr_pending (g_safety (flow_fault_step sdk w)) = sr_pending (g_safety w)"
    "sr_pending (g_safety (watchdog_step sdk w)) = sr_pending (g_safety w)"
    using assms(3) by (simp_all add: fault_step_def flow_fault_step_def watchdog_step_def Let_def split_beta
        pico_mode_state_get_def mode_defs)
  from assms(1) show pend: "sr_pending (g_safety w') \<longrightarrow> sr_pending (g_safety w)"
  proof cases
    case (command f t)
    note ok = popped_command_ok [OF assms(2) command(3)]
    from error_command_pending [OF ok(1), of "w\<lparr>g_transport := t\<rparr>" sdk] assms(3,4) command show ?thesis by simp
  next
    case (release result)
    from release_step_effect(2,3) [OF release(2)] show ?thesis by (cases result) auto
  next
    case (dispatch result)
    with dispatch_step_effect(1) [OF assms(2), of sdk result] show ?thesis by (simp add: dispatch_rel_def)
  next
    case playback
    from task_step(3) [OF this(2) assms(2)] assms(3) show ?thesis by (simp add: mode_defs)
  qed (use steps transmit_step_effect(4) [OF assms(2), of sdk] in \<open>simp_all add: poll_step_def\<close>)
  obtain rs where rs: "hid_out w' = hid_out w @ rs" "report_origin l w rs" using step_reports [OF assms(1,2)] by blast
  show "hid_out w' = hid_out w @ (if sr_pending (g_safety w) \<and> \<not> sr_pending (g_safety w') then [release_bytes] else [])"
  proof (cases "l = Release PICO_SAFETY_RELEASE_SENT")
    case True
    with assms(1) have rel: "release_step sdk w = (PICO_SAFETY_RELEASE_SENT, w')" by (auto elim: fw_stepE)
    from release_step_effect(2-4) [OF rel] show ?thesis by simp
  next
    case False
    with rs(2) assms(3) have "rs = []"
      by (auto simp: report_origin_def mode_defs split: step_label.splits)
    with rs(1) step_pending [OF assms(1,2)] False show ?thesis by auto
  qed
qed

lemma error_path:
  fixes w w' :: "'e globals"
  assumes "fw_path sdk w ls w'" "fw_inv w" "mode_state w = PICO_UART_MODE_ERROR" "\<forall>l \<in> set ls. \<not> leaves_error l"
  shows "mode_state w' = PICO_UART_MODE_ERROR
    \<and> hid_out w' = hid_out w @ (if sr_pending (g_safety w) \<and> \<not> sr_pending (g_safety w') then [release_bytes] else [])"
proof -
  define P where "P u \<longleftrightarrow> fw_inv u \<and> mode_state u = PICO_UART_MODE_ERROR \<and> (sr_pending (g_safety u) \<longrightarrow> sr_pending (g_safety w))
    \<and> hid_out u = hid_out w @ (if sr_pending (g_safety w) \<and> \<not> sr_pending (g_safety u) then [release_bytes] else [])"
    for u :: "'e globals"
  have "P w" using assms(2,3) by (simp add: P_def)
  moreover have "P v" if "fw_step sdk u l v" "P u" "\<not> leaves_error l" for u l v
    using error_step [OF that(1) _ _ that(3)] fw_step_inv [OF that(1)] that(2) by (auto simp: P_def)
  ultimately have "P w'" by (rule fw_path_induct [where P = P and Q = "\<lambda>l. \<not> leaves_error l", OF assms(1) _ assms(4)])
  then show ?thesis by (simp add: P_def)
qed

section \<open>Reachable states\<close>

text \<open>
  No key stays pressed when the keyboard is cut off: in ARMED and ERROR a release is pending, or the
  last report the PC got was the release.
\<close>

definition keys_released :: "'e globals \<Rightarrow> bool" where
  "keys_released w \<longleftrightarrow> sr_pending (g_safety w) \<or> (hid_out w \<noteq> [] \<and> last (hid_out w) = release_bytes)"

definition cut_off :: "'e globals \<Rightarrow> bool" where
  "cut_off w \<longleftrightarrow> mode_state w = PICO_UART_MODE_ARMED \<or> mode_state w = PICO_UART_MODE_ERROR"

lemma step_keys_released:
  assumes "fw_step sdk w l w'" "fw_inv w" "cut_off w \<longrightarrow> keys_released w"
  shows "cut_off w' \<longrightarrow> keys_released w'"
proof
  assume off: "cut_off w'"
  obtain rs where rs: "hid_out w' = hid_out w @ rs" "report_origin l w rs" using step_reports [OF assms(1,2)] by blast
  show "keys_released w'"
  proof (cases "mode_state w' = mode_state w")
    case False
    with step_change_pending [OF assms(1,2)] show ?thesis by (simp add: keys_released_def)
  next
    case True
    with off assms(3) have old: "cut_off w" "keys_released w" by (simp_all add: cut_off_def)
    show ?thesis
    proof (cases "l = Release PICO_SAFETY_RELEASE_SENT")
      case True
      with assms(1) have rel: "release_step sdk w = (PICO_SAFETY_RELEASE_SENT, w')" by (auto elim: fw_stepE)
      from release_step_effect(4) [OF rel] show ?thesis by (simp add: keys_released_def)
    next
      case False
      with rs(2) old(1) have "rs = []"
        by (auto simp: report_origin_def cut_off_def mode_defs split: step_label.splits)
      with rs(1) old(2) step_pending [OF assms(1,2)] False show ?thesis by (auto simp: keys_released_def)
    qed
  qed
qed

lemma reachable_laws:
  fixes w :: "'e globals"
  assumes "fw_reachable sdk w"
  shows "fw_inv w" "cut_off w \<Longrightarrow> keys_released w" "\<exists>ms. list_all pico_message ms \<and> wire_sent w = wire_stream ms"
proof -
  obtain e ls where path: "fw_path sdk (main_init e) ls w" using assms by (auto simp: fw_reachable_def)
  define P where "P u \<longleftrightarrow> fw_inv u \<and> (cut_off u \<longrightarrow> keys_released u) \<and> speaks (main_init e) u" for u :: "'e globals"
  have "P (main_init e)"
    by (simp add: P_def main_init_inv speaks_same) (simp add: main_init_def cut_off_def mode_defs)
  moreover have "P v" if "fw_step sdk u l v" "P u" "True" for u l v
    using fw_step_inv [OF that(1)] step_keys_released [OF that(1)] step_speaks [OF that(1)] that(2)
    by (auto simp: P_def intro: speaks_trans)
  ultimately have "P w" by (intro fw_path_induct [where P = P and Q = "\<lambda>_. True", OF path]) auto
  moreover have "wire_sent (main_init e) = []" by (simp add: wire_sent_def main_init_def tx_view_def pico_uart_transport_init_def)
  ultimately show "fw_inv w" "cut_off w \<Longrightarrow> keys_released w" "\<exists>ms. list_all pico_message ms \<and> wire_sent w = wire_stream ms"
    by (simp_all add: P_def speaks_def)
qed

lemma main_loop_reachable:
  assumes "main_loop n bd w = Some w'" "fw_reachable (bd_sdk bd) w"
  shows "fw_reachable (bd_sdk bd) w'"
  using assms
proof (induction n arbitrary: w)
  case (Suc n)
  from Suc.prems(1) obtain v where v: "main_iteration bd w = Some v" "main_loop n bd v = Some w'"
    by (auto simp: bind_eq_Some_conv)
  from iteration_path [OF v(1)] Suc.prems(2) have "fw_reachable (bd_sdk bd) v" by (blast intro: reachable_path)
  from Suc.IH [OF v(2) this] show ?case .
qed simp

end
