(* ===== verification/Firmware_Playing.thy ===== *)
theory Firmware_Playing
  imports Firmware_Reach
begin

text \<open>
  A run of playback in \<open>pico/src/main.c\<close> as a whole: while the mode is PLAYING, commands that stream
  further events, interrupts, USB callbacks and calls of the scheduler may come in any order, and what
  the PC gets is the queue at the beginning followed by the streamed events, in order.
\<close>

section \<open>Events of a path\<close>

definition event_report :: "step_label \<Rightarrow> u8 list list" where
  "event_report l = (case l of
     Command f \<Rightarrow> if fr_type f = PICO_UART_QUEUE_EVENT then [drop 9 (fr_payload f)] else []
   | _ \<Rightarrow> [])"

definition starts_playback :: "step_label \<Rightarrow> bool" where
  "starts_playback l \<longleftrightarrow> (\<exists>f. l = Command f \<and> fr_type f = PICO_UART_PLAY_START)"

lemma event_report_simps [simp]:
  "event_report (Usb_Host ev) = []" "event_report Uart_Irq = []" "event_report Hardware = []"
  "event_report Poll = []" "event_report Fault = []" "event_report (Release r) = []"
  "event_report (Dispatch r) = []" "event_report Playback = []" "event_report Flow_Fault = []"
  "event_report Watchdog = []" "event_report Transmit = []"
  by (simp_all add: event_report_def)

section \<open>Commands while PLAYING\<close>

lemma event_payload_length:
  assumes "command_ok f" "fr_type f = PICO_UART_QUEUE_EVENT"
  shows "length (fr_payload f) = 17"
proof -
  have "fr_payload_len f = 17" "fr_payload_len f = of_nat (length (fr_payload f))" "length (fr_payload f) \<le> 64"
    using assms by (auto simp: command_ok_def pico_uart_frame_payload_valid_def Let_def pico_constants split: if_splits)
  with of_nat_length_eq [of "fr_payload f" 17] show ?thesis by simp
qed

lemma remaining_push:
  assumes "pq_inv (w_queue w)" "length bytes = 8" "fst (pico_playback_queue_push off (Some bytes) 8 (w_queue w))"
  shows "remaining (w\<lparr>w_queue := snd (pico_playback_queue_push off (Some bytes) 8 (w_queue w))\<rparr>) = remaining w @ [bytes]"
proof -
  have "pq_count (w_queue w) < 512"
    using assms(1,3) by (auto simp: pico_playback_queue_push_def pq_inv_def split: if_splits)
  with pq_push_view [OF assms(1)] assms(2) show ?thesis
    by (simp add: remaining_def pico_playback_queue_push_def report_bytes_inverse)
qed

lemma ack_playing:
  assumes "mode_state w \<noteq> PICO_UART_MODE_PASS" "mode_state (ack_or_error sdk w) \<noteq> PICO_UART_MODE_ERROR"
  shows "remaining (ack_or_error sdk w) = remaining w" "g_safety (ack_or_error sdk w) = g_safety w"
proof -
  have "fst (send_buffer_status w)"
    using assms by (auto simp: ack_or_error_def Let_def split_beta split: if_splits)
  then show "remaining (ack_or_error sdk w) = remaining w" "g_safety (ack_or_error sdk w) = g_safety w"
    using tx_only_step_fields [OF send_buffer_status_tx [of w]]
    by (simp_all add: ack_or_error_def Let_def split_beta remaining_def)
qed

text \<open>
  A command that leaves the mode at PLAYING appends its event, if it has one, and does nothing else to
  the run: a QUEUE_EVENT that does not fit, or whose acknowledgement does not fit, ends in ERROR.
\<close>

lemma get_Some [simp]: "pico_mode_state_get (Some s) = s"
  by (simp add: pico_mode_state_get_def)

lemma not_playing [simp]: "PICO_UART_MODE_PASS \<noteq> PICO_UART_MODE_PLAYING" "PICO_UART_MODE_ERROR \<noteq> PICO_UART_MODE_PLAYING"
  by (simp_all add: mode_defs)

lemma event_playing:
  fixes w :: "'e globals" and sdk :: "'e sdk"
  assumes "pq_inv (w_queue w)" "command_ok f" "mode_state w = PICO_UART_MODE_PLAYING" "fr_type f = PICO_UART_QUEUE_EVENT"
  defines "w' \<equiv> dispatch_command sdk f w"
  assumes stay: "mode_state w' = PICO_UART_MODE_PLAYING"
  shows "remaining w' = remaining w @ [drop 9 (fr_payload f)]" "g_safety w' = g_safety w"
proof -
  let ?push = "pico_playback_queue_push (read_u64_le (fr_payload f)) (Some (drop 9 (fr_payload f))) 8 (w_queue w)"
  let ?w1 = "w\<lparr>w_queue := snd ?push\<rparr>"
  have "w' = (if fst ?push then ack_or_error sdk ?w1 else pico_mode_state_protocol_error (mode_cb sdk) ?w1)"
    using assms(3,4) by (simp add: w'_def dispatch_command_def dispatch_queue_command_def Let_def split_beta
        pico_uart_queue_command_allowed_def zero_type_defs)
  with stay have ok: "fst ?push" "w' = ack_or_error sdk ?w1" by (auto split: if_splits)
  have "remaining ?w1 = remaining w @ [drop 9 (fr_payload f)]"
    using event_payload_length [OF assms(2,4)] by (intro remaining_push [OF assms(1) _ ok(1)]) simp
  moreover have "mode_state ?w1 \<noteq> PICO_UART_MODE_PASS" "mode_state (ack_or_error sdk ?w1) \<noteq> PICO_UART_MODE_ERROR"
    using assms(3) stay ok(2) by (simp_all add: mode_defs)
  note ack = ack_playing [OF this]
  ultimately show "remaining w' = remaining w @ [drop 9 (fr_payload f)]" "g_safety w' = g_safety w"
    using ack ok(2) by simp_all
qed

text \<open>Changes of the state that a run does not see.\<close>

definition run_same :: "'e globals \<Rightarrow> 'e globals \<Rightarrow> bool" where
  "run_same w w' \<longleftrightarrow> remaining w' = remaining w \<and> sr_pending (g_safety w') = sr_pending (g_safety w)"

lemma run_same_tx: "tx_only_step w w' \<Longrightarrow> run_same w w'"
  using tx_only_step_fields [of w w'] by (simp add: run_same_def remaining_def)

lemma run_same_keep:
  assumes "fst (mode_table op (mode_state w)) = Keep"
  shows "run_same w (snd (mode_step (mode_cb sdk) op w))"
proof -
  obtain s' reason ok where t: "mode_table op (mode_state w) = (Keep, s', reason, ok)"
    using assms by (cases "mode_table op (mode_state w)") auto
  from mode_step_effect(2) [OF t, of 2 sdk] show ?thesis by (simp add: mode_effect_def run_same_def remaining_def)
qed

lemma end_playing:
  assumes "mode_state w = PICO_UART_MODE_PLAYING" "fr_type f = PICO_UART_QUEUE_END"
    "mode_state (dispatch_command sdk f w) = PICO_UART_MODE_PLAYING"
  shows "run_same w (dispatch_command sdk f w)"
proof -
  let ?w1 = "sched_update pico_playback_scheduler_mark_sequence_ended w"
  have w': "dispatch_command sdk f w = ack_or_error sdk ?w1"
    using assms(1,2) by (simp add: dispatch_command_def dispatch_queue_command_def Let_def
        pico_uart_queue_command_allowed_def pico_constants)
  have "mode_state ?w1 \<noteq> PICO_UART_MODE_PASS" "mode_state (ack_or_error sdk ?w1) \<noteq> PICO_UART_MODE_ERROR"
    using assms w' by (simp_all add: mode_defs)
  from ack_playing [OF this] show ?thesis by (simp add: w' run_same_def)
qed

lemma plain_playing:
  fixes w :: "'e globals" and sdk :: "'e sdk"
  assumes "command_ok f" "mode_state w = PICO_UART_MODE_PLAYING" "\<not> starts_playback (Command f)"
    "fr_type f \<noteq> PICO_UART_QUEUE_EVENT"
    "mode_state (dispatch_command sdk f w) = PICO_UART_MODE_PLAYING"
  shows "run_same w (dispatch_command sdk f w)"
proof -
  consider (ended) "fr_type f = PICO_UART_QUEUE_END" | (clear) "fr_type f = PICO_UART_QUEUE_CLEAR"
    | (set) "fr_type f = PICO_UART_MODE_SET" | (abort) "fr_type f = PICO_UART_PLAY_ABORT"
    | (status) "fr_type f = PICO_UART_STATUS_REQUEST" | (ping) "fr_type f = PICO_UART_PING"
    using assms(1,3,4) unfolding command_ok_def command_iff starts_playback_def by blast
  then show ?thesis
  proof cases
    case ended
    with end_playing assms(2,5) show ?thesis by blast
  next
    case clear
    then have "dispatch_command sdk f w = pico_mode_state_protocol_error (mode_cb sdk) w"
      using assms(2) by (simp add: dispatch_command_def dispatch_queue_command_def Let_def
          pico_uart_queue_command_allowed_def pico_constants)
    with assms(5) show ?thesis by (simp split: if_splits)
  next
    case set
    then have w': "dispatch_command sdk f w = snd (mode_step (mode_cb sdk) (Mode_Set (fr_payload f ! 0)) w)"
      by (simp add: dispatch_command_def)
    with mode_step_next [of sdk "Mode_Set (fr_payload f ! 0)" w] assms(2,5)
    have "fst (mode_table (Mode_Set (fr_payload f ! 0)) (mode_state w)) = Keep"
      by (auto simp: mode_defs split: if_splits)
    from run_same_keep [OF this] show ?thesis by (simp add: w')
  next
    case abort
    then have "mode_state (dispatch_command sdk f w) = fst (snd (mode_table Play_Abort (mode_state w)))"
      using mode_step_next [of sdk Play_Abort w] by (simp add: dispatch_command_def zero_type_defs)
    with assms(2,5) show ?thesis by (simp add: mode_defs)
  next
    case status
    then have "dispatch_command sdk f w = send_status w" by (simp add: dispatch_command_def zero_type_defs)
    with run_same_tx [OF send_status_tx [of w]] show ?thesis by simp
  next
    case ping
    then have "tx_only_step w (dispatch_command sdk f w)" using command_ok_ping [OF assms(1)] by (simp add: dispatch_ping)
    then show ?thesis by (rule run_same_tx)
  qed
qed

section \<open>Steps and paths while PLAYING\<close>

lemma playing_step:
  assumes "fw_step sdk w l w'" "fw_inv w" "mode_state w = PICO_UART_MODE_PLAYING" "mode_state w' = PICO_UART_MODE_PLAYING"
    "\<not> sr_pending (g_safety w)" "\<not> starts_playback l"
  shows "hid_out w' @ remaining w' = hid_out w @ remaining w @ event_report l \<and> \<not> sr_pending (g_safety w')"
  using assms(1)
proof cases
  case (command f t)
  let ?w1 = "w\<lparr>g_transport := t\<rparr>"
  note ok = popped_command_ok(1,2) [OF assms(2) command(3)]
  have w1: "pq_inv (w_queue ?w1)" "mode_state ?w1 = PICO_UART_MODE_PLAYING" "remaining ?w1 = remaining w"
    using assms(2,3) by (simp_all add: fw_inv_def fw_core_def remaining_def)
  have stay: "mode_state (dispatch_command sdk f ?w1) = PICO_UART_MODE_PLAYING" using assms(4) command by simp
  have "remaining w' = remaining w @ event_report l \<and> sr_pending (g_safety w') = sr_pending (g_safety w)"
  proof (cases "fr_type f = PICO_UART_QUEUE_EVENT")
    case True
    with event_playing [OF w1(1) ok(1) w1(2) True stay] w1(3) command show ?thesis by (simp add: event_report_def)
  next
    case False
    with plain_playing [OF ok(1) w1(2) _ False stay] w1(3) command assms(6) show ?thesis
      by (simp add: event_report_def run_same_def)
  qed
  with assms(5) command show ?thesis by (simp add: dispatch_command_hid_out)
next
  case (release result)
  from release_step_effect [OF release(2)] assms(5) release(1) show ?thesis by (cases result) (auto simp: remaining_def)
next
  case (dispatch result)
  have "dispatch_step sdk result w = w"
    by (rule dispatch_step_effect(4) [OF assms(2)]) (use assms(3) in \<open>simp_all add: mode_defs\<close>)
  with dispatch assms(5) show ?thesis by simp
next
  case playback
  from task_step(1,2) [OF this(2) assms(2)] assms(3-5) playback(1) show ?thesis by (simp add: run_rel_def)
next
  case fault
  with assms(3-5) show ?thesis
    by (auto simp: fault_step_def Let_def split_beta remaining_def mode_defs split: if_splits)
next
  case flow_fault
  with assms(3-5) show ?thesis by (auto simp: flow_fault_step_def remaining_def mode_defs split: if_splits)
next
  case watchdog
  with assms(3-5) show ?thesis
    by (auto simp: watchdog_step_def Let_def split_beta remaining_def time_us_64_def mode_defs split: if_splits)
qed (use assms(5) transmit_step_effect(2,4,7) [OF assms(2), of sdk] in \<open>simp_all add: poll_step_def remaining_def\<close>)

lemma not_playing_path:
  assumes "fw_path sdk w ls w'" "fw_inv w" "mode_state w \<noteq> PICO_UART_MODE_PLAYING" "\<forall>l \<in> set ls. \<not> starts_playback l"
  shows "mode_state w' \<noteq> PICO_UART_MODE_PLAYING"
proof -
  have step: "fw_inv v \<and> mode_state v \<noteq> PICO_UART_MODE_PLAYING"
    if "fw_step sdk u l v" "fw_inv u \<and> mode_state u \<noteq> PICO_UART_MODE_PLAYING" "\<not> starts_playback l" for u l v
    using step_takes_edge [OF that(1)] fw_step_inv [OF that(1)] that(2,3)
    by (cases l) (auto simp: starts_playback_def mode_defs split: if_splits)
  have "fw_inv w' \<and> mode_state w' \<noteq> PICO_UART_MODE_PLAYING"
    by (rule fw_path_induct [OF assms(1) _ assms(4), where P = "\<lambda>u. fw_inv u \<and> mode_state u \<noteq> PICO_UART_MODE_PLAYING"])
      (use assms(2,3) step in auto)
  then show ?thesis by simp
qed

lemma playing_path:
  assumes "fw_path sdk w ls w'" "fw_inv w" "mode_state w = PICO_UART_MODE_PLAYING" "mode_state w' = PICO_UART_MODE_PLAYING"
    "\<not> sr_pending (g_safety w)" "\<forall>l \<in> set ls. \<not> starts_playback l"
  shows "hid_out w' @ remaining w' = hid_out w @ remaining w @ concat (map event_report ls)"
  using assms
proof (induction)
  case (path_Cons u l v ls w)
  have inv: "fw_inv v" using fw_step_inv [OF path_Cons.hyps(1)] path_Cons.prems by simp
  have play: "mode_state v = PICO_UART_MODE_PLAYING"
    using not_playing_path [OF path_Cons.hyps(2) inv] path_Cons.prems by auto
  from playing_step [OF path_Cons.hyps(1)] path_Cons.prems play
  have "hid_out v @ remaining v = hid_out u @ remaining u @ event_report l \<and> \<not> sr_pending (g_safety v)" by simp
  with path_Cons.IH [OF inv play] path_Cons.prems show ?case by (auto simp flip: append_assoc)
qed simp

text \<open>A run that ends by itself has played everything.\<close>

lemma run_complete:
  assumes "fw_path sdk w ls w'" "fw_inv w" "mode_state w = PICO_UART_MODE_PLAYING" "mode_state w' = PICO_UART_MODE_PLAYING"
    "\<not> sr_pending (g_safety w)" "\<forall>l \<in> set ls. \<not> starts_playback l"
    "fw_step sdk w' Playback v" "mode_state v \<noteq> PICO_UART_MODE_PLAYING"
  shows "mode_state v = PICO_UART_MODE_ARMED \<and> hid_out v = hid_out w @ remaining w @ concat (map event_report ls)"
proof -
  have "fw_inv w'"
    using fw_path_induct [where P = fw_inv and Q = "\<lambda>_. True", OF assms(1,2)] fw_step_inv by blast
  moreover from assms(7) have "pico_playback_scheduler_task (sched_cb sdk) sdk w' = Some v" by (auto elim: fw_stepE)
  ultimately have "run_rel w' v" "hid_out v @ remaining v = hid_out w' @ remaining w'"
    using task_step(1,2) by blast+
  with assms(4,8) have "mode_state v = PICO_UART_MODE_ARMED" "hid_out v = hid_out w' @ remaining w'"
    by (auto simp: run_rel_def remaining_Nil)
  with playing_path [OF assms(1-6)] show ?thesis by simp
qed

end
