(* ===== verification/Firmware_Endpoint.thy ===== *)
theory Firmware_Endpoint
  imports Firmware_Reach
begin

text \<open>
  The USB endpoint of \<open>pico/src/hid_keyboard_device.c\<close> as TinyUSB documents it: it is free or busy, a
  free endpoint takes a report and is busy then, and it becomes free again only inside \<open>tud_task\<close>. With
  such an endpoint a pending release goes out before anything else, playback included.
\<close>

section \<open>The endpoint\<close>

text \<open>\<open>free e\<close>: the endpoint is free in the hardware state \<open>e\<close>.\<close>

definition endpoint_ok :: "'e sdk \<Rightarrow> ('e \<Rightarrow> bool) \<Rightarrow> bool" where
  "endpoint_ok sdk free \<longleftrightarrow>
     (\<forall>e. fst (sdk_tud_hid_ready sdk e) = free e \<and> free (snd (sdk_tud_hid_ready sdk e)) = free e)
     \<and> (\<forall>ident bytes e. free e \<longrightarrow> fst (sdk_tud_hid_report sdk ident bytes e) \<and> \<not> free (snd (sdk_tud_hid_report sdk ident bytes e)))
     \<and> (\<forall>e. free (snd (sdk_time_us_64 sdk e)) = free e \<and> free (snd (sdk_alarm_irq sdk e)) = free e)
     \<and> (\<forall>t e. free (snd (sdk_add_alarm_at sdk t e)) = free e)
     \<and> (\<forall>i e. free (snd (sdk_cancel_alarm sdk i e)) = free e)"

lemma send_free:
  assumes "endpoint_ok sdk free"
  shows "fst (send_pass_report sdk r w) = free (hw w)" "\<not> free (hw (snd (send_pass_report sdk r w)))"
  using assms
  by (auto simp: endpoint_ok_def send_pass_report_def pico_hid_keyboard_send_boot_report_def
      pico_hid_keyboard_send_report_def tud_hid_report_def Let_def split_beta)

lemma release_step_free:
  assumes "endpoint_ok sdk free" "release_step sdk w = (result, w')" "result \<noteq> PICO_SAFETY_RELEASE_READY"
  shows "\<not> free (hw w')" "result = PICO_SAFETY_RELEASE_SENT \<longleftrightarrow> free (hw w)"
proof -
  have send: "send_all_keys_release sdk v = send_pass_report sdk pico_hid_boot_keyboard_release_all v" for v
    by (simp add: send_all_keys_release_def send_pass_report_def pico_hid_keyboard_send_all_keys_release_def)
  show "\<not> free (hw w')" "result = PICO_SAFETY_RELEASE_SENT \<longleftrightarrow> free (hw w)"
    using assms(2,3) send_free [OF assms(1), of pico_hid_boot_keyboard_release_all w]
    by (auto simp: release_step_def pico_safety_release_service_def send Let_def split_beta split: if_splits)
qed

section \<open>A busy endpoint stops playback\<close>

lemma arm_alarm_free:
  assumes "endpoint_ok sdk free"
  shows "free (hw (arm_alarm sdk w)) = free (hw w)" "free (hw (disarm sdk w)) = free (hw w)"
  using assms by (simp_all add: arm_alarm_def disarm_def endpoint_ok_def time_us_64_def Let_def split_beta)

lemma arm_next_free:
  assumes "endpoint_ok sdk free" "fst (arm_next cb sdk w)"
  shows "free (hw (snd (arm_next cb sdk w))) = free (hw w)"
  using assms(2) by (auto simp: arm_next_def Let_def arm_alarm_free [OF assms(1)] clear_fired_def split: option.splits)

lemma event_due_free:
  assumes "endpoint_ok sdk free"
  shows "free (hw (snd (event_due sdk w))) = free (hw w)"
  using assms by (simp add: event_due_def exchange_fired_def endpoint_ok_def time_us_64_def clear_fired_def Let_def split_beta)

lemma busy_round:
  assumes "endpoint_ok sdk free" "\<not> free (hw w)"
  shows "\<not> fst (task_round (sched_cb sdk) sdk w) \<and> hid_out (snd (task_round (sched_cb sdk) sdk w)) = hid_out w"
proof -
  have hid: "hid_out (snd (round_entry (sched_cb sdk) sdk w)) = hid_out w"
    by (simp add: scheduler_callbacks_def fws.entry_hid_out)
  have start: "hid_out v = hid_out w" "go \<Longrightarrow> \<not> free (hw v)" if "round_entry (sched_cb sdk) sdk w = (go, v)" for go v
    using that assms(2) arm_next_free [OF assms(1), of "sched_cb sdk" w] hid by (auto simp: round_entry_def split: if_splits)
  have due: "hid_out v' = hid_out w" "free (hw v') = free (hw v)"
    if "round_entry (sched_cb sdk) sdk w = (go, v)" "event_due sdk v = (d, v')" for v v' d go
    using that(2) event_due_steps(2) [of sdk v] event_due_free [OF assms(1), of v] start(1) [OF that(1)] by simp_all
  show ?thesis
  proof (cases rule: program_rounds [of sdk w])
    case (entry v1)
    with start(1) [OF entry(1)] show ?thesis by simp
  next
    case (early v1 v2)
    with due(1) [OF early(1,2)] show ?thesis by simp
  next
    case (empty v1 v2)
    with due(1) [OF empty(1,2)] show ?thesis by (simp add: scheduler_callbacks_def fws.exit_hid_out)
  next
    case (refused v1 v2 e v3)
    with due(1) [OF refused(1,2)] fws.send_effect(3) [of sdk "qe_report e" v2] show ?thesis by simp
  next
    case (sent v1 v2 e v3)
    with start(2) [OF sent(1)] due(2) [OF sent(1,2)] send_free(1) [OF assms(1), of "qe_report e" v2] show ?thesis by simp
  qed
qed

lemma busy_task:
  assumes "endpoint_ok sdk free" "\<not> free (hw w)" "pico_playback_scheduler_task (sched_cb sdk) sdk w = Some w'"
  shows "hid_out w' = hid_out w"
  using assms(3) busy_round [OF assms(1,2)]
  by (subst (asm) pico_playback_scheduler_task.simps) (auto simp: Let_def split_beta split: if_splits)

lemma blocked_dispatch_hw:
  assumes "result \<noteq> PICO_SAFETY_RELEASE_READY"
  shows "hw (dispatch_step sdk result w) = hw w"
  using assms
  by (auto simp: dispatch_step_def pico_physical_report_dispatch_def dispatch_recording.simps [of False] record_head_def
      send_record_event_def Let_def split: option.split)

section \<open>The release comes first\<close>

lemma input_hid_out:
  assumes "fw_path sdk w (input_labels evs i j fs) w4" "fw_inv w"
  shows "fw_inv w4 \<and> hid_out w4 = hid_out w"
proof -
  define Q where "Q l \<longleftrightarrow> (case l of Release _ \<Rightarrow> False | Dispatch _ \<Rightarrow> False | Playback \<Rightarrow> False | _ \<Rightarrow> True)" for l
  have "\<forall>l \<in> set (input_labels evs i j fs). Q l" by (auto simp: input_labels_def Q_def)
  moreover have "fw_inv v \<and> hid_out v = hid_out w" if "fw_step sdk u l v" "fw_inv u \<and> hid_out u = hid_out w" "Q l" for u l v
    using step_reports [OF that(1)] fw_step_inv [OF that(1)] that(2,3)
    by (auto simp: report_origin_def Q_def split: step_label.splits)
  ultimately show ?thesis
    using fw_path_induct [OF assms(1), of "\<lambda>u. fw_inv u \<and> hid_out u = hid_out w" Q] assms(2) by blast
qed

lemma release_first:
  assumes "endpoint_ok (bd_sdk bd) free" "fw_inv w" "main_pass bd w = Some (result, w')" "result \<noteq> PICO_SAFETY_RELEASE_READY"
  shows "hid_out w' = hid_out w @ (if result = PICO_SAFETY_RELEASE_SENT then [release_bytes] else [])"
proof -
  let ?sdk = "bd_sdk bd"
  from assms(3) obtain evs i j fs w4 w5 w6 where input: "fw_path ?sdk w (input_labels evs i j fs) w4"
    and w5: "release_step ?sdk w4 = (result, w5)"
    and w6: "pico_playback_scheduler_task (sched_cb ?sdk) ?sdk (dispatch_step ?sdk result w5) = Some w6"
    and w': "w' = transmit_step ?sdk (watchdog_step ?sdk (flow_fault_step ?sdk w6))"
    by (rule main_pass_parts)
  have inv4: "fw_inv w4" "hid_out w4 = hid_out w" using input_hid_out [OF input assms(2)] by simp_all
  have inv5: "fw_inv w5" using release_step_ok [OF inv4(1), of ?sdk] w5 by simp
  let ?d = "dispatch_step ?sdk result w5"
  have d: "fw_inv ?d" "hid_out ?d = hid_out w5" using dispatch_step_effect(2,3) [OF inv5] assms(4) by auto
  have "\<not> free (hw ?d)" using release_step_free(1) [OF assms(1) w5 assms(4)] blocked_dispatch_hw [OF assms(4), of ?sdk w5] by simp
  from busy_task [OF assms(1) this w6] have "hid_out w6 = hid_out w5" using d(2) by simp
  moreover have "fw_inv w6" using task_ok [OF d(1), of ?sdk] w6 by auto
  then have "hid_out w' = hid_out w6"
    using flow_fault_step_quiet [of w6 ?sdk] watchdog_step_quiet [OF flow_fault_step_ok, of w6 ?sdk ?sdk]
      transmit_step_effect(2) [OF watchdog_step_ok [OF flow_fault_step_ok], of w6 ?sdk ?sdk ?sdk]
    by (simp add: w' quiet_def)
  ultimately show ?thesis using release_step_effect(4) [OF w5] inv4(2) by simp
qed

text \<open>A release that is pending before a pass is still pending when the pass comes to it.\<close>

lemma input_pending:
  assumes "fw_path sdk w (input_labels evs i j fs) w4" "fw_inv w" "sr_pending (g_safety w)"
  shows "sr_pending (g_safety w4)"
proof -
  define Q where "Q l \<longleftrightarrow> l \<noteq> Release PICO_SAFETY_RELEASE_SENT" for l
  have "\<forall>l \<in> set (input_labels evs i j fs). Q l" by (auto simp: input_labels_def Q_def)
  moreover have "fw_inv v \<and> sr_pending (g_safety v)"
    if "fw_step sdk u l v" "fw_inv u \<and> sr_pending (g_safety u)" "Q l" for u l v
    using step_pending [OF that(1)] fw_step_inv [OF that(1)] that(2,3) by (auto simp: Q_def)
  ultimately show ?thesis
    using fw_path_induct [OF assms(1), of "\<lambda>u. fw_inv u \<and> sr_pending (g_safety u)" Q] assms(2,3) by blast
qed

lemma pending_not_ready:
  assumes "fw_inv w" "sr_pending (g_safety w)" "main_pass bd w = Some (result, w')"
  shows "result \<noteq> PICO_SAFETY_RELEASE_READY"
proof -
  from assms(3) obtain evs i j fs w4 w5 where "fw_path (bd_sdk bd) w (input_labels evs i j fs) w4"
    and w5: "release_step (bd_sdk bd) w4 = (result, w5)" by (rule main_pass_parts)
  from input_pending [OF this(1) assms(1,2)] release_step_effect(2) [OF w5] show ?thesis by simp
qed

end
