(* ===== verification/Firmware_Hardware.thy ===== *)
theory Firmware_Hardware
  imports Firmware_Endpoint
begin

text \<open>
  Facts about the hardware that the main loop of \<open>pico/src/main.c\<close> keeps. A fact is a predicate on the hardware
  state and the scheduler; a locale says what the calls, the callbacks and the scheduler must keep so
  that the loop keeps it. Two uses: the USB endpoint stays free until something is sent, so that a
  pending release goes out; and an armed alarm belongs to the deadline of the head of the queue, so
  that playback is never early.
\<close>

section \<open>The calls of the first half of the loop\<close>

inductive_set input_calls :: "'e board \<Rightarrow> ('e \<Rightarrow> 'e) set" for bd :: "'e board" where
  call_time: "(\<lambda>e. snd (sdk_time_us_64 (bd_sdk bd) e)) \<in> input_calls bd"
| call_receive: "(\<lambda>e. snd (sdk_tuh_hid_receive_report (bd_sdk bd) dev ins e)) \<in> input_calls bd"
| call_protocol: "(\<lambda>e. snd (sdk_tuh_hid_interface_protocol (bd_sdk bd) dev ins e)) \<in> input_calls bd"
| call_rsr: "(\<lambda>e. snd (sdk_uart_rsr (bd_sdk bd) e)) \<in> input_calls bd"
| call_clear_rsr: "sdk_uart_clear_rsr (bd_sdk bd) \<in> input_calls bd"
| call_readable: "(\<lambda>e. snd (sdk_uart_is_readable (bd_sdk bd) e)) \<in> input_calls bd"
| call_getc: "(\<lambda>e. snd (sdk_uart_getc (bd_sdk bd) e)) \<in> input_calls bd"
| call_tuh_task: "(\<lambda>e. snd (bd_tuh_task bd e)) \<in> input_calls bd"
| call_uart_irqs: "(\<lambda>e. snd (bd_uart_irqs bd e)) \<in> input_calls bd"

text \<open>
  \<open>Q\<close> looks at the hardware and the scheduler only, and stopping the scheduler keeps it. Then so do the mode
  machine and the end of a run.
\<close>

locale mode_invariant =
  fixes sdk :: "'e sdk" and Q :: "'e globals \<Rightarrow> bool"
  assumes Q_frame: "Q w \<Longrightarrow> hw w' = hw w \<Longrightarrow> w_sched w' = w_sched w \<Longrightarrow> Q w'"
    and Q_stop: "Q w \<Longrightarrow> Q (pico_playback_scheduler_stop (scheduler_callbacks (playback_complete n sdk) sdk) sdk w)"
    and Q_reset: "Q w \<Longrightarrow> Q (sched_update pico_playback_scheduler_reset_sequence w)"
begin

lemma Q_tx [simp]: "Q w \<Longrightarrow> Q (snd (tx_frame ty payload len w))"
  by (erule Q_frame) simp_all

lemma Q_status [simp]: "Q w \<Longrightarrow> Q (snd (send_buffer_status w))" "Q w \<Longrightarrow> Q (send_status w)"
  by (simp_all add: send_buffer_status_def send_status_def Let_def)

lemma Q_clear_queue: "Q w \<Longrightarrow> Q (mode_clear_queue (playback_complete n sdk) sdk w)"
proof -
  assume "Q w"
  let ?w1 = "pico_playback_scheduler_stop (scheduler_callbacks (playback_complete n sdk) sdk) sdk w"
  let ?w2 = "?w1\<lparr>w_queue := pico_playback_queue_clear (w_queue ?w1)\<rparr>"
  have "Q ?w2" by (rule Q_frame [OF Q_stop [OF \<open>Q w\<close>]]) simp_all
  from Q_reset [OF this] show ?thesis
    unfolding mode_clear_queue_def Let_def by (rule Q_frame) simp_all
qed

lemma Q_mode_step [simp]:
  assumes "Q w"
  shows "Q (snd (mode_step (mode_callbacks_with (playback_complete n sdk) sdk) op w))"
proof -
  let ?cb = "mode_callbacks_with (playback_complete n sdk) sdk"
  obtain k m reason ok where t: "mode_table op (mode_state w) = (k, m, reason, ok)" using prod_cases4 by blast
  define w1 where "w1 = (if k = Keep then w else (apply_clearing ?cb k w)\<lparr>mode_state := m\<rparr>)"
  have drop: "Q ((mode_all_release (mode_clear_physical v))\<lparr>mode_state := m\<rparr>)" if "Q v" for v
    using that by (rule Q_frame) (simp_all add: mode_all_release_def mode_clear_physical_def)
  have "Q w1"
    using assms drop [OF assms] drop [OF Q_clear_queue [OF assms]]
    by (cases k) (simp_all add: w1_def clear_and_release_def clear_release_and_queue_def mode_callbacks_with_def all_callbacks_def)
  moreover have "snd (mode_step ?cb op w) = mode_changed (mode_state w1) reason w1"
    using mode_step_table [OF t, of ?cb] by (simp add: w1_def notify_def mode_callbacks_with_def all_callbacks_def)
  ultimately show ?thesis by (simp add: mode_changed_def)
qed

lemma Q_faults [simp]:
  assumes "Q w"
  shows "Q (pico_mode_state_protocol_error (mode_cb sdk) w)" "Q (pico_mode_state_uart_fault (mode_cb sdk) w)"
    "Q (pico_mode_state_underrun_fault (mode_cb sdk) w)"
  using Q_mode_step [OF assms, of 2 Protocol_Error] Q_mode_step [OF assms, of 2 Uart_Fault]
    Q_mode_step [OF assms, of 2 Underrun_Fault] by simp_all

lemma Q_complete [simp]: "Q w \<Longrightarrow> Q (playback_complete n sdk reason m w)"
  using Q_mode_step [of _ "n - 1" Play_Finish] by (cases n) (simp_all add: Let_def)

end

text \<open>For the first half of the loop, the calls above keep \<open>Q\<close>, and so does the start of a run.\<close>

locale input_invariant = mode_invariant "bd_sdk bd" Q for bd :: "'e board" and Q :: "'e globals \<Rightarrow> bool" +
  assumes Q_call: "g \<in> input_calls bd \<Longrightarrow> Q w \<Longrightarrow> Q (w\<lparr>hw := g (hw w)\<rparr>)"
    and Q_mark: "Q w \<Longrightarrow> Q (sched_update pico_playback_scheduler_mark_sequence_ended w)"
    and Q_start: "Q w \<Longrightarrow> Q (pico_playback_scheduler_start (sched_cb (bd_sdk bd)) (bd_sdk bd) t w)"
begin

lemma Q_time [simp]: "Q w \<Longrightarrow> Q (snd (time_us_64 (bd_sdk bd) w))"
  using Q_call [OF call_time] by (simp add: time_us_64_def)

lemma Q_queue_command: "Q w \<Longrightarrow> Q (dispatch_queue_command (bd_sdk bd) f w)"
proof -
  assume Q: "Q w"
  have ack: "Q v \<Longrightarrow> Q (ack_or_error (bd_sdk bd) v)" for v by (simp add: ack_or_error_def Let_def split_beta)
  have queue: "Q (w\<lparr>w_queue := q\<rparr>)" for q using Q by (rule Q_frame) simp_all
  show ?thesis
    unfolding dispatch_queue_command_def Let_def split_beta
    using Q queue Q_reset [OF queue] Q_mark [OF Q] by (auto intro!: ack)
qed

lemma Q_command: "Q w \<Longrightarrow> Q (dispatch_command (bd_sdk bd) f w)"
proof -
  assume Q: "Q w"
  have op: "Q (snd (mode_step (mode_cb (bd_sdk bd)) op v))" if "Q v" for op v using that by simp
  show ?thesis
    unfolding dispatch_command_def Let_def split_beta
    using Q op [OF Q, of "Mode_Set (fr_payload f ! 0)"] op [OF Q, of Play_Abort] op [OF Q_time [OF Q], of Play_Start]
    by (auto intro!: Q_start Q_queue_command)
qed

lemma Q_command_loop:
  "command_loop (bd_sdk bd) w = Some w' \<Longrightarrow> Q w \<Longrightarrow> Q w'"
proof (induction "bd_sdk bd" w w' rule: command_loop.raw_induct [rotated, consumes 1, case_names call])
  case (call loop w w')
  obtain cmd t where pop: "pico_uart_transport_pop_command (g_transport w) = (cmd, t)" by fastforce
  have Q: "Q (w\<lparr>g_transport := t\<rparr>)" using call(3) by (rule Q_frame) simp_all
  show ?case
  proof (cases cmd)
    case None
    with call(2) pop Q show ?thesis by simp
  next
    case (Some f)
    with call(1) [of "dispatch_command (bd_sdk bd) f (w\<lparr>g_transport := t\<rparr>)" w'] call(2) pop Q_command [OF Q]
    show ?thesis by simp
  qed
qed

lemma Q_call_hw: "(\<lambda>e. snd (f e)) \<in> input_calls bd \<Longrightarrow> Q w \<Longrightarrow> Q (snd (call_hw f w))"
  using Q_call [of "\<lambda>e. snd (f e)" w] by simp

lemma Q_request:
  "Q w \<Longrightarrow> Q (snd (request_next_report (bd_sdk bd) dev ins h w))"
  unfolding request_next_report_def Let_def split_beta using Q_call_hw [OF call_receive] by simp

lemma Q_host_callback: "Q w \<Longrightarrow> Q (host_callback (bd_sdk bd) ev w)"
proof -
  assume Q: "Q w"
  have host: "Q (v\<lparr>g_host := h\<rparr>)" "Q (v\<lparr>g_capture := c, g_host := h\<rparr>)" if "Q v" for v c h
    using that by (auto elim: Q_frame)
  show ?thesis
  proof (cases ev)
    case (Mounted dev ins)
    have "Q (snd (tuh_hid_mount_cb (bd_sdk bd) dev ins (g_host w) w))"
      unfolding tuh_hid_mount_cb_def Let_def split_beta
      using Q_call_hw [OF call_protocol Q] Q_request by auto
    with Mounted host show ?thesis by (simp add: split_beta)
  next
    case (Unmounted dev ins)
    with host(1) [OF Q] show ?thesis by simp
  next
    case (Report_Received dev ins rep len)
    have "Q (snd (snd (tuh_hid_report_received_cb (bd_sdk bd) dev ins rep len (g_host w) (g_capture w) w)))"
      unfolding tuh_hid_report_received_cb_def Let_def split_beta using Q_time [OF Q] Q_request by auto
    with Report_Received host show ?thesis by (simp add: split_beta)
  qed
qed

lemma Q_usb_tasks: "Q (w\<lparr>hw := bd_tud_task bd (hw w)\<rparr>) \<Longrightarrow> Q (usb_tasks bd w)"
proof -
  assume "Q (w\<lparr>hw := bd_tud_task bd (hw w)\<rparr>)"
  note Q = Q_call_hw [OF call_tuh_task this]
  have "Q v \<Longrightarrow> Q (fold (host_callback (bd_sdk bd)) evs v)" for evs v
    by (induction evs arbitrary: v) (simp_all add: Q_host_callback)
  from this [OF Q] show ?thesis by (simp add: usb_tasks_def Let_def split_beta)
qed

lemma Q_set:
  assumes "\<And>e. Q (w\<lparr>hw := e\<rparr>) \<Longrightarrow> Q (w\<lparr>hw := g e\<rparr>)" "Q w"
  shows "Q (w\<lparr>hw := g (hw w)\<rparr>)"
  using assms(1) [of "hw w"] assms(2) by simp

lemma Q_calls:
  assumes "g \<in> input_calls bd" "Q (w\<lparr>hw := e\<rparr>)"
  shows "Q (w\<lparr>hw := g e\<rparr>)"
  using Q_call [OF assms] by simp

lemma Q_drain:
  "irq_drain (bd_sdk bd) t e = Some r \<Longrightarrow> Q (w\<lparr>hw := e\<rparr>) \<Longrightarrow> Q (w\<lparr>hw := snd r\<rparr>)"
proof (induction "bd_sdk bd" t e r rule: irq_drain.raw_induct [rotated, consumes 1, case_names call])
  case (call drain t e r)
  obtain rd e1 c e2 where rd: "sdk_uart_is_readable (bd_sdk bd) e = (rd, e1)" "sdk_uart_getc (bd_sdk bd) e1 = (c, e2)" by fastforce
  have Q1: "Q (w\<lparr>hw := e1\<rparr>)" using Q_calls [OF call_readable call(3)] rd(1) by simp
  show ?case
  proof (cases rd)
    case False
    with call(2) rd Q1 show ?thesis by auto
  next
    case True
    with call(2) rd have "drain (bd_sdk bd) (pico_uart_transport_rx_push_isr c t) e2 = Some r" by simp
    from call(1) [OF this] Q_calls [OF call_getc Q1] rd(2) show ?thesis by simp
  qed
qed

lemma Q_irq:
  assumes "uart0_irq_handler (bd_sdk bd) (Some t) e = Some (Some t', e')" "Q (w\<lparr>hw := e\<rparr>)"
  shows "Q (w\<lparr>hw := e'\<rparr>)"
proof -
  let ?e1 = "snd (sdk_uart_rsr (bd_sdk bd) e)"
  have Q1: "Q (w\<lparr>hw := ?e1\<rparr>)" by (rule Q_calls [OF call_rsr assms(2)])
  obtain t1 e2 where d: "irq_drain (bd_sdk bd) t1 e2 = Some (t', e')"
    and e2: "e2 = (if fst (sdk_uart_rsr (bd_sdk bd) e) \<noteq> 0 then sdk_uart_clear_rsr (bd_sdk bd) ?e1 else ?e1)"
    using assms(1) by (auto simp: uart0_irq_handler_def Let_def split_beta split: if_splits)
  have "Q (w\<lparr>hw := e2\<rparr>)" using Q1 Q_calls [OF call_clear_rsr Q1] by (simp add: e2)
  from Q_drain [OF d this] show ?thesis by simp
qed

lemma Q_irqs: "uart_irqs (bd_sdk bd) n w = Some w' \<Longrightarrow> Q w \<Longrightarrow> Q w'"
proof (induction n arbitrary: w)
  case (Suc n)
  from Suc.prems(1) obtain t e where irq: "uart0_irq_handler (bd_sdk bd) (Some (g_transport w)) (hw w) = Some (Some t, e)"
    "uart_irqs (bd_sdk bd) n (w\<lparr>hw := e, g_transport := t\<rparr>) = Some w'"
    by (auto split: option.splits)
  have "Q (w\<lparr>hw := e\<rparr>)" using Q_irq [OF irq(1), of w] Suc.prems(2) by simp
  then have "Q (w\<lparr>hw := e, g_transport := t\<rparr>)" by (rule Q_frame) simp_all
  from Suc.IH [OF irq(2) this] show ?case .
qed simp

lemma Q_fault_step: "Q w \<Longrightarrow> Q (fault_step (bd_sdk bd) w)"
proof -
  assume "Q w"
  then have "Q (w\<lparr>g_transport := t\<rparr>)" for t by (rule Q_frame) simp_all
  then show ?thesis by (simp add: fault_step_def Let_def split_beta)
qed

text \<open>The first half of a pass, from the end of \<open>tud_task\<close> to the commands.\<close>

lemma Q_input:
  assumes "Q (w\<lparr>hw := bd_tud_task bd (hw w)\<rparr>)"
    "uart_irqs (bd_sdk bd) (fst (call_hw (bd_uart_irqs bd) (usb_tasks bd w))) (snd (call_hw (bd_uart_irqs bd) (usb_tasks bd w))) = Some w2"
    "uart_irqs (bd_sdk bd) (fst (call_hw (bd_uart_irqs bd) (poll_step w2))) (snd (call_hw (bd_uart_irqs bd) (poll_step w2))) = Some w3"
    "command_loop (bd_sdk bd) (fault_step (bd_sdk bd) w3) = Some w4"
  shows "Q w4"
proof -
  have "Q w2" by (rule Q_irqs [OF assms(2) Q_call_hw [OF call_uart_irqs Q_usb_tasks [OF assms(1)]]])
  then have "Q (poll_step w2)" by (rule Q_frame) (simp_all add: poll_step_def)
  from Q_irqs [OF assms(3) Q_call_hw [OF call_uart_irqs this]] show ?thesis
    by (intro Q_command_loop [OF assms(4)] Q_fault_step)
qed

end

section \<open>The whole loop\<close>

text \<open>The invariant of the program at the end of the first half, and of an iteration.\<close>

lemma path_inv: "fw_path sdk v ls v' \<Longrightarrow> fw_inv v \<Longrightarrow> fw_inv v'"
  by (induction rule: fw_path.induct) (auto intro: fw_step_inv)

lemma iteration_inv: "main_iteration bd w = Some w' \<Longrightarrow> fw_inv w \<Longrightarrow> fw_inv w'"
  using iteration_path path_inv by blast

inductive_set output_calls :: "'e board \<Rightarrow> ('e \<Rightarrow> 'e) set" for bd :: "'e board" where
  call_ready: "(\<lambda>e. snd (sdk_tud_hid_ready (bd_sdk bd) e)) \<in> output_calls bd"
| call_report: "(\<lambda>e. snd (sdk_tud_hid_report (bd_sdk bd) ident bytes e)) \<in> output_calls bd"
| call_writable: "(\<lambda>e. snd (sdk_uart_is_writable (bd_sdk bd) e)) \<in> output_calls bd"
| call_putc: "sdk_uart_putc_raw (bd_sdk bd) b \<in> output_calls bd"
| call_tud_task: "bd_tud_task bd \<in> output_calls bd"
| call_tight_loop: "bd_tight_loop_contents bd \<in> output_calls bd"
| call_sleep_us: "bd_sleep_us bd n \<in> output_calls bd"
| call_sleep_ms: "bd_sleep_ms bd n \<in> output_calls bd"

text \<open>The part of a pass before the playback task.\<close>

definition before_playback :: "'e board \<Rightarrow> 'e globals \<Rightarrow> 'e globals option" where
  "before_playback bd w =
     (let sdk = bd_sdk bd; (before_poll, w1) = call_hw (bd_uart_irqs bd) (usb_tasks bd w) in
      do {
        w2 \<leftarrow> uart_irqs sdk before_poll w1;
        w3 \<leftarrow> (let (after_poll, w') = call_hw (bd_uart_irqs bd) (poll_step w2) in uart_irqs sdk after_poll w');
        w4 \<leftarrow> command_loop sdk (fault_step sdk w3);
        Some (let (release_result, w5) = release_step sdk w4 in dispatch_step sdk release_result w5)
      })"

lemma main_pass_playback:
  assumes "main_pass bd w = Some (result, w8)"
  obtains v w6 where "before_playback bd w = Some v"
    "pico_playback_scheduler_task (sched_cb (bd_sdk bd)) (bd_sdk bd) v = Some w6"
    "w8 = transmit_step (bd_sdk bd) (watchdog_step (bd_sdk bd) (flow_fault_step (bd_sdk bd) w6))"
proof -
  from assms obtain w2 w3 w4 w5 w6 where run:
    "uart_irqs (bd_sdk bd) (fst (call_hw (bd_uart_irqs bd) (usb_tasks bd w))) (snd (call_hw (bd_uart_irqs bd) (usb_tasks bd w))) = Some w2"
    "uart_irqs (bd_sdk bd) (fst (call_hw (bd_uart_irqs bd) (poll_step w2))) (snd (call_hw (bd_uart_irqs bd) (poll_step w2))) = Some w3"
    "command_loop (bd_sdk bd) (fault_step (bd_sdk bd) w3) = Some w4" "release_step (bd_sdk bd) w4 = (result, w5)"
    and rest: "pico_playback_scheduler_task (sched_cb (bd_sdk bd)) (bd_sdk bd) (dispatch_step (bd_sdk bd) result w5) = Some w6"
    "w8 = transmit_step (bd_sdk bd) (watchdog_step (bd_sdk bd) (flow_fault_step (bd_sdk bd) w6))"
    by (rule main_pass_run)
  from run have "before_playback bd w = Some (dispatch_step (bd_sdk bd) result w5)"
    by (simp add: before_playback_def Let_def split_beta)
  from that [OF this rest] show ?thesis .
qed

locale loop_invariant = input_invariant bd Q for bd :: "'e board" and Q :: "'e globals \<Rightarrow> bool" +
  assumes Q_output: "g \<in> output_calls bd \<Longrightarrow> Q w \<Longrightarrow> Q (w\<lparr>hw := g (hw w)\<rparr>)"
    and Q_task: "Q w \<Longrightarrow> fw_inv w \<Longrightarrow>
      pico_playback_scheduler_task (sched_cb (bd_sdk bd)) (bd_sdk bd) w = Some w' \<Longrightarrow> Q w'"
begin

lemma Q_output_hw: "(\<lambda>e. snd (f e)) \<in> output_calls bd \<Longrightarrow> Q w \<Longrightarrow> Q (snd (call_hw f w))"
  using Q_output [of "\<lambda>e. snd (f e)" w] by simp

lemma Q_send_pass: "Q w \<Longrightarrow> Q (snd (send_pass_report (bd_sdk bd) r w))"
proof -
  assume Q: "Q w"
  have "Q (v\<lparr>hid_out := h\<rparr>)" if "Q v" for v h using that by (rule Q_frame) simp_all
  with Q_output_hw [OF call_ready Q] Q_output_hw [OF call_report Q_output_hw [OF call_ready Q]] show ?thesis
    unfolding send_pass_report_def pico_hid_keyboard_send_boot_report_def pico_hid_keyboard_send_report_def
      tud_hid_report_def Let_def split_beta by auto
qed

lemma Q_release_step: "Q w \<Longrightarrow> Q (snd (release_step (bd_sdk bd) w))"
proof -
  assume Q: "Q w"
  have send: "send_all_keys_release (bd_sdk bd) v = send_pass_report (bd_sdk bd) pico_hid_boot_keyboard_release_all v" for v
    by (simp add: send_all_keys_release_def send_pass_report_def pico_hid_keyboard_send_all_keys_release_def)
  have "Q (v\<lparr>g_safety := r\<rparr>)" if "Q v" for v r using that by (rule Q_frame) simp_all
  with Q Q_send_pass [OF Q] show ?thesis
    by (auto simp: release_step_def pico_safety_release_service_def send Let_def split_beta)
qed

lemma Q_dispatch_step:
  assumes "Q w" "fw_inv w"
  shows "Q (dispatch_step (bd_sdk bd) result w)"
proof -
  let ?r = "pico_physical_report_dispatch (Some (mode_state w)) (result = PICO_SAFETY_RELEASE_READY)
    (Some (send_pass_report (bd_sdk bd))) (Some send_record_event) (g_capture w) w"
  have "kc_inv (g_capture w)" using assms(2) by (simp add: fw_inv_def fw_core_def)
  then have "Q (snd ?r)"
    by (intro dispatch_preserves [where P = Q]) (simp_all add: Q_send_pass send_record_event_def assms(1))
  then have "Q ((snd ?r)\<lparr>g_capture := fst ?r\<rparr>)" by (rule Q_frame) simp_all
  then show ?thesis by (simp add: dispatch_step_def split_beta Let_def)
qed

lemma Q_flow_fault_step: "Q w \<Longrightarrow> Q (flow_fault_step (bd_sdk bd) w)"
proof -
  assume Q: "Q w"
  then have "Q (w\<lparr>g_flow_fault := False\<rparr>)" by (rule Q_frame) simp_all
  with Q show ?thesis by (simp add: flow_fault_step_def)
qed

lemma Q_watchdog_step: "Q w \<Longrightarrow> Q (watchdog_step (bd_sdk bd) w)"
  by (simp add: watchdog_step_def Let_def split_beta)

lemma Q_tx_loop: "Q w \<Longrightarrow> Q (snd (tx_loop (bd_sdk bd) t w))"
proof (induction "bd_sdk bd" t w rule: tx_loop.induct)
  case (1 t w)
  let ?s = "call_hw (sdk_uart_is_writable (bd_sdk bd)) w"
  have Q: "Q (snd ?s)" by (rule Q_output_hw [OF call_writable 1(2)])
  have put: "Q (uart_putc_raw (bd_sdk bd) b (snd ?s))" for b
    using Q_output [OF call_putc Q, of b] by (rule Q_frame) (simp_all add: uart_putc_raw_def)
  from 1(1) [OF refl _ _ put] Q show ?case
    by (subst tx_loop.simps) (auto simp: Let_def split: option.split)
qed

lemma Q_transmit_step: "Q w \<Longrightarrow> Q (transmit_step (bd_sdk bd) w)"
proof -
  assume "Q w"
  from Q_tx_loop [OF this] show ?thesis
    by (rule Q_frame) (simp_all add: transmit_step_def pico_uart_transport_tx_task_def split_beta)
qed

lemma Q_before:
  assumes "before_playback bd w = Some v" "fw_inv w" "Q w"
  shows "Q v \<and> fw_inv v"
proof -
  let ?sdk = "bd_sdk bd"
  from assms(1) obtain w2 w3 w4 r w5 where input:
    "uart_irqs ?sdk (fst (call_hw (bd_uart_irqs bd) (usb_tasks bd w))) (snd (call_hw (bd_uart_irqs bd) (usb_tasks bd w))) = Some w2"
    "uart_irqs ?sdk (fst (call_hw (bd_uart_irqs bd) (poll_step w2))) (snd (call_hw (bd_uart_irqs bd) (poll_step w2))) = Some w3"
    "command_loop ?sdk (fault_step ?sdk w3) = Some w4"
    and w5: "release_step ?sdk w4 = (r, w5)" and v: "v = dispatch_step ?sdk r w5"
    by (auto simp: before_playback_def Let_def split_beta bind_eq_Some_conv prod_eq_iff)
  have Q4: "Q w4" by (rule Q_input [OF Q_output [OF call_tud_task assms(3)] input])
  have inv4: "fw_inv w4" using input_run_path [OF input] path_inv assms(2) by blast
  have Q5: "Q w5" "fw_inv w5" using Q_release_step [OF Q4] release_step_ok [OF inv4, of ?sdk] w5 by simp_all
  from Q_dispatch_step [OF Q5] dispatch_step_effect(2) [OF Q5(2)] show ?thesis by (simp add: v)
qed

lemma Q_iteration:
  assumes "main_iteration bd w = Some w'" "fw_inv w" "Q w"
  shows "Q w'"
proof -
  let ?sdk = "bd_sdk bd"
  obtain r w8 where pass: "main_pass bd w = Some (r, w8)" and w': "w' = idle_step bd w8"
    using assms(1) by (auto simp: main_iteration_def bind_eq_Some_conv)
  from pass obtain v w6 where v: "before_playback bd w = Some v"
    and w6: "pico_playback_scheduler_task (sched_cb ?sdk) ?sdk v = Some w6"
    and w8: "w8 = transmit_step ?sdk (watchdog_step ?sdk (flow_fault_step ?sdk w6))" by (rule main_pass_playback)
  have "Q w6" using Q_before [OF v assms(2,3)] Q_task w6 by blast
  then have "Q w8" unfolding w8 by (intro Q_transmit_step Q_watchdog_step Q_flow_fault_step)
  then show ?thesis
    using Q_output [OF call_tight_loop] Q_output [OF call_sleep_us] Q_output [OF call_sleep_ms]
    by (simp add: w' idle_step_def Let_def)
qed

lemma Q_loop:
  assumes "main_loop n bd w = Some w'" "fw_inv w" "Q w"
  shows "Q w' \<and> fw_inv w'"
  using assms
proof (induction n arbitrary: w)
  case (Suc n)
  from Suc.prems(1) obtain v where v: "main_iteration bd w = Some v" "main_loop n bd v = Some w'"
    by (auto simp: bind_eq_Some_conv)
  from Suc.IH [OF v(2) iteration_inv [OF v(1) Suc.prems(2)] Q_iteration [OF v(1) Suc.prems(2,3)]] show ?case .
qed simp

end

section \<open>A free endpoint\<close>

text \<open>The calls of the first half of the loop leave the endpoint alone.\<close>

definition endpoint_quiet :: "'e board \<Rightarrow> ('e \<Rightarrow> bool) \<Rightarrow> bool" where
  "endpoint_quiet bd free \<longleftrightarrow> endpoint_ok (bd_sdk bd) free \<and> (\<forall>g \<in> input_calls bd. \<forall>e. free (g e) = free e)"

lemma stop_free:
  assumes "endpoint_ok sdk free"
  shows "free (hw (pico_playback_scheduler_stop (scheduler_callbacks (playback_complete n sdk) sdk) sdk w)) = free (hw w)"
proof -
  have aborted: "hw (playback_complete n sdk PICO_UART_REASON_ABORTED m v) = hw v" for m v
    using tx_only_step_fields(2) [OF playback_complete_aborted [of PICO_UART_REASON_ABORTED v n sdk m]] by (simp add: reason_defs)
  show ?thesis
    using arm_alarm_free(2) [OF assms, of w]
    by (simp add: pico_playback_scheduler_stop_def finish_def scheduler_callbacks_def Let_def aborted clear_fired_def)
qed

interpretation epm: mode_invariant sdk "\<lambda>w. endpoint_ok sdk free \<longrightarrow> free (hw w) = b" for sdk free b
  by unfold_locales (simp_all add: stop_free)

lemma arm_next_endpoint:
  assumes "endpoint_ok sdk free"
  shows "free (hw (snd (arm_next (sched_cb sdk) sdk w))) = free (hw w)"
proof -
  have cmp: "free (hw (playback_complete n sdk reason m v)) = free (hw v)" for n reason m v
    using epm.Q_complete [of sdk free v "free (hw v)" n reason m] assms by simp
  have exit: "free (hw (queue_empty_exit (sched_cb sdk) sdk v)) = free (hw v)" for v
    using assms
    by (simp add: queue_empty_exit_def finish_def begin_underrun_def scheduler_callbacks_def Let_def split_beta cmp
        playback_underrun_def endpoint_ok_def time_us_64_def del: playback_complete.simps)
  show ?thesis
    by (simp add: arm_next_def Let_def exit arm_alarm_free [OF assms] clear_fired_def split: option.split)
qed

interpretation epi: input_invariant bd "\<lambda>w. endpoint_quiet bd free \<longrightarrow> free (hw w) = b" for bd free b
proof unfold_locales
  fix w :: "'a globals" and n t
  show "endpoint_quiet bd free \<longrightarrow> free (hw (pico_playback_scheduler_stop
      (scheduler_callbacks (playback_complete n (bd_sdk bd)) (bd_sdk bd)) (bd_sdk bd) w)) = b"
    if "endpoint_quiet bd free \<longrightarrow> free (hw w) = b"
    using that by (simp add: endpoint_quiet_def stop_free)
  show "endpoint_quiet bd free \<longrightarrow> free (hw (pico_playback_scheduler_start (sched_cb (bd_sdk bd)) (bd_sdk bd) t w)) = b"
    if "endpoint_quiet bd free \<longrightarrow> free (hw w) = b"
    using that by (simp add: endpoint_quiet_def pico_playback_scheduler_start_def arm_next_endpoint)
qed (simp_all add: endpoint_quiet_def)

text \<open>
  A release that is pending goes out in the first pass in which the endpoint is free after \<open>tud_task\<close>.
\<close>

lemma release_delivered:
  assumes "endpoint_quiet bd free" "fw_inv w" "sr_pending (g_safety w)" "main_pass bd w = Some (result, w')"
  shows "result = (if free (bd_tud_task bd (hw w)) then PICO_SAFETY_RELEASE_SENT else PICO_SAFETY_RELEASE_BLOCKED)"
proof -
  have ok: "endpoint_ok (bd_sdk bd) free" using assms(1) by (simp add: endpoint_quiet_def)
  from assms(4) obtain w2 w3 w4 w5 where input:
    "uart_irqs (bd_sdk bd) (fst (call_hw (bd_uart_irqs bd) (usb_tasks bd w))) (snd (call_hw (bd_uart_irqs bd) (usb_tasks bd w))) = Some w2"
    "uart_irqs (bd_sdk bd) (fst (call_hw (bd_uart_irqs bd) (poll_step w2))) (snd (call_hw (bd_uart_irqs bd) (poll_step w2))) = Some w3"
    "command_loop (bd_sdk bd) (fault_step (bd_sdk bd) w3) = Some w4"
    and w5: "release_step (bd_sdk bd) w4 = (result, w5)" by (rule main_pass_run)
  have "free (hw w4) = free (bd_tud_task bd (hw w))"
    using epi.Q_input [OF _ input, of free "free (bd_tud_task bd (hw w))"] assms(1) by simp
  moreover have "result \<noteq> PICO_SAFETY_RELEASE_READY" by (rule pending_not_ready [OF assms(2-4)])
  ultimately show ?thesis using release_step_free(2) [OF ok w5] by (cases result) auto
qed

end
