(* ===== verification/Firmware_Alarm.thy ===== *)
theory Firmware_Alarm
  imports Firmware_Hardware
begin

text \<open>
  The alarm of \<open>pico/src/playback_scheduler.c\<close> as the SDK documents it: a clock, and at most one armed alarm
  with its time, which fires when the clock has reached that time. The main loop keeps an armed alarm
  tied to the deadline of the head of the queue, so that a fired alarm means that the head is due.
\<close>

section \<open>The contract of clock and alarm\<close>

text \<open>\<open>clock e\<close> is the time in the hardware state \<open>e\<close>, and \<open>alarm e\<close> the armed alarm: its id and its time.\<close>

definition alarm_ok :: "'e board \<Rightarrow> ('e \<Rightarrow> u64) \<Rightarrow> ('e \<Rightarrow> (i32 \<times> u64) option) \<Rightarrow> bool" where
  "alarm_ok bd clock alarm \<longleftrightarrow>
     (\<forall>e. fst (sdk_time_us_64 (bd_sdk bd) e) = clock (snd (sdk_time_us_64 (bd_sdk bd) e)))
     \<and> (\<forall>t e. alarm (snd (sdk_add_alarm_at (bd_sdk bd) t e))
          = (if fst (sdk_add_alarm_at (bd_sdk bd) t e) > 0 then Some (fst (sdk_add_alarm_at (bd_sdk bd) t e), t) else alarm e))
     \<and> (\<forall>i t e. alarm e = None \<or> alarm e = Some (i, t) \<longrightarrow> alarm (snd (sdk_cancel_alarm (bd_sdk bd) i e)) = None)
     \<and> (\<forall>e. if fst (sdk_alarm_irq (bd_sdk bd) e)
          then alarm (snd (sdk_alarm_irq (bd_sdk bd) e)) = None
             \<and> (\<exists>i t. alarm e = Some (i, t) \<and> t \<le> clock (snd (sdk_alarm_irq (bd_sdk bd) e)))
          else alarm (snd (sdk_alarm_irq (bd_sdk bd) e)) = alarm e)
     \<and> (\<forall>g \<in> input_calls bd \<union> output_calls bd. \<forall>e. alarm (g e) = alarm e)"

definition alarm_inv :: "('e \<Rightarrow> (i32 \<times> u64) option) \<Rightarrow> 'e globals \<Rightarrow> bool" where
  "alarm_inv alarm w \<longleftrightarrow> \<not> ps_alarm_fired (w_sched w)
     \<and> (alarm (hw w) = None
        \<or> ps_running (w_sched w) \<and> \<not> ps_waiting_for_event (w_sched w) \<and> ps_alarm_armed (w_sched w)
          \<and> alarm (hw w) = Some (ps_alarm_id (w_sched w), ps_next_deadline_us (w_sched w)))"

abbreviation no_alarm :: "('e \<Rightarrow> (i32 \<times> u64) option) \<Rightarrow> 'e globals \<Rightarrow> bool" where
  "no_alarm alarm w \<equiv> \<not> ps_alarm_fired (w_sched w) \<and> alarm (hw w) = None"

lemma no_alarm_inv: "no_alarm alarm w \<Longrightarrow> alarm_inv alarm w"
  by (simp add: alarm_inv_def)

lemma time_alarm:
  assumes "alarm_ok bd clock alarm"
  shows "alarm (snd (sdk_time_us_64 (bd_sdk bd) e)) = alarm e"
proof -
  have "\<forall>g \<in> input_calls bd \<union> output_calls bd. \<forall>e. alarm (g e) = alarm e" using assms unfolding alarm_ok_def by blast
  from bspec [OF this UnI1 [OF call_time]] show ?thesis by simp
qed

section \<open>The operations of the scheduler\<close>

lemma disarm_alarm:
  assumes "alarm_ok bd clock alarm" "alarm_inv alarm w" "ps_alarm_armed (w_sched w)"
  shows "no_alarm alarm (clear_fired (disarm (bd_sdk bd) w))"
  using assms by (auto simp: disarm_def clear_fired_def alarm_inv_def alarm_ok_def Let_def)

lemma unarmed: "alarm_inv alarm w \<Longrightarrow> \<not> ps_alarm_armed (w_sched w) \<Longrightarrow> no_alarm alarm w"
  by (auto simp: alarm_inv_def)

lemma stop_alarm:
  assumes "alarm_ok bd clock alarm" "alarm_inv alarm w"
  shows "alarm_inv alarm (pico_playback_scheduler_stop (scheduler_callbacks (playback_complete n (bd_sdk bd)) (bd_sdk bd)) (bd_sdk bd) w)"
proof (cases "ps_running (w_sched w)")
  case False
  with assms(2) show ?thesis by (simp add: pico_playback_scheduler_stop_def)
next
  case True
  define w1 where "w1 = clear_fired (if ps_alarm_armed (w_sched w) then disarm (bd_sdk bd) w else w)"
  have w1: "no_alarm alarm w1"
    using disarm_alarm [OF assms] unarmed [OF assms(2)] by (simp add: w1_def) (simp add: clear_fired_def)
  define w2 where "w2 = sched_update (\<lambda>s. s\<lparr>ps_running := False,
      ps_lateness_samples := sort_samples (ps_lateness_samples s) (ps_sample_count s)\<rparr>) w1"
  have w2: "no_alarm alarm w2" using w1 by (simp add: w2_def)
  have "tx_only_step w2 (playback_complete n (bd_sdk bd) PICO_UART_REASON_ABORTED (metrics_of (w_sched w2)) w2)"
    by (rule playback_complete_aborted) (simp add: reason_defs)
  note f = tx_only_step_fields(2,6) [OF this]
  have "pico_playback_scheduler_stop (scheduler_callbacks (playback_complete n (bd_sdk bd)) (bd_sdk bd)) (bd_sdk bd) w
      = playback_complete n (bd_sdk bd) PICO_UART_REASON_ABORTED (metrics_of (w_sched w2)) w2"
    using True by (simp add: pico_playback_scheduler_stop_def finish_def scheduler_callbacks_def Let_def w2_def w1_def)
  with w2 show ?thesis by (simp add: f no_alarm_inv)
qed

lemma alarm_sched_fields:
  assumes "alarm_inv alarm w" "ps_running (f (w_sched w)) = ps_running (w_sched w)"
    "ps_waiting_for_event (f (w_sched w)) = ps_waiting_for_event (w_sched w)" "ps_alarm_armed (f (w_sched w)) = ps_alarm_armed (w_sched w)" "ps_alarm_fired (f (w_sched w)) = ps_alarm_fired (w_sched w)"
    "ps_alarm_id (f (w_sched w)) = ps_alarm_id (w_sched w)" "ps_next_deadline_us (f (w_sched w)) = ps_next_deadline_us (w_sched w)"
  shows "alarm_inv alarm (sched_update f w)"
  using assms by (simp add: alarm_inv_def)

interpretation alm: mode_invariant "bd_sdk bd" "\<lambda>w. alarm_ok bd clock alarm \<longrightarrow> alarm_inv alarm w" for bd clock alarm
  by unfold_locales (auto simp: stop_alarm, auto simp: alarm_inv_def pico_playback_scheduler_reset_sequence_def)

lemma arm_next_alarm:
  assumes "alarm_ok bd clock alarm" "alarm_inv alarm w" "ps_running (w_sched w)"
  shows "alarm_inv alarm (snd (arm_next (sched_cb (bd_sdk bd)) (bd_sdk bd) w))"
proof -
  let ?sdk = "bd_sdk bd"
  define w1 where "w1 = (if ps_alarm_armed (w_sched w) then clear_fired (disarm ?sdk w) else w)"
  have w1: "no_alarm alarm w1" "ps_running (w_sched w1)" "w_queue w1 = w_queue w"
    using disarm_alarm [OF assms(1,2)] unarmed [OF assms(2)] assms(3) by (auto simp: w1_def)
  note time = time_alarm [OF assms(1)]
  have cmp: "alarm_inv alarm (playback_complete n ?sdk reason m v)" if "no_alarm alarm v" for n reason m v
    using alm.Q_complete [of bd clock alarm v n reason m] assms(1) no_alarm_inv [of v alarm] that by blast
  have und: "alarm_inv alarm (playback_underrun off room v)" if "no_alarm alarm v" for off room v
    using that by (simp add: playback_underrun_def Let_def split_beta alarm_inv_def)
  have exit: "alarm_inv alarm (queue_empty_exit (sched_cb ?sdk) ?sdk w1)"
    using w1(1) time
    by (auto simp: queue_empty_exit_def finish_def begin_underrun_def scheduler_callbacks_def Let_def split_beta
        time_us_64_def no_alarm_inv intro!: cmp und simp del: playback_complete.simps)
  have arm: "alarm_inv alarm (arm_alarm ?sdk v)" if "no_alarm alarm v" "ps_running (w_sched v)" "\<not> ps_waiting_for_event (w_sched v)" for v
    using that assms(1) time by (auto simp: arm_alarm_def Let_def split_beta alarm_inv_def time_us_64_def alarm_ok_def)
  show ?thesis
    using w1 exit by (auto simp: arm_next_def Let_def w1_def [symmetric] intro!: arm split: option.split)
qed

lemma start_alarm:
  assumes "alarm_ok bd clock alarm" "alarm_inv alarm w"
  shows "alarm_inv alarm (pico_playback_scheduler_start (sched_cb (bd_sdk bd)) (bd_sdk bd) t w)"
proof (cases "\<not> ps_queue (w_sched w) \<or> ps_running (w_sched w)")
  case True
  with assms(2) show ?thesis by (auto simp: pico_playback_scheduler_start_def)
next
  case False
  then have "alarm_inv alarm (sched_update (start_run t) w)" using assms(2) by (simp add: alarm_inv_def) (simp add: start_run_def)
  from arm_next_alarm [OF assms(1) this] False show ?thesis by (simp add: pico_playback_scheduler_start_def)
qed

section \<open>The playback task\<close>

text \<open>When an event is due, the clock has reached the deadline: the fired alarm was armed for it.\<close>

lemma event_due_alarm:
  assumes "alarm_ok bd clock alarm" "alarm_inv alarm w"
  shows "alarm_inv alarm (snd (event_due (bd_sdk bd) w))"
    "fst (event_due (bd_sdk bd) w) \<Longrightarrow> ps_next_deadline_us (w_sched w) \<le> clock (hw (snd (event_due (bd_sdk bd) w)))"
proof -
  let ?sdk = "bd_sdk bd" and ?e = "snd (sdk_alarm_irq (bd_sdk bd) (hw w))"
  have irq: "if fst (sdk_alarm_irq ?sdk (hw w))
      then alarm ?e = None \<and> (\<exists>i t. alarm (hw w) = Some (i, t) \<and> t \<le> clock ?e) else alarm ?e = alarm (hw w)"
    and clk: "fst (sdk_time_us_64 ?sdk ?e) = clock (snd (sdk_time_us_64 ?sdk ?e))"
    using assms(1) unfolding alarm_ok_def by blast+
  have fired: "\<not> ps_alarm_fired (w_sched w)" using assms(2) by (simp add: alarm_inv_def)
  show "alarm_inv alarm (snd (event_due ?sdk w))"
    using assms(2) irq time_alarm [OF assms(1)]
    by (auto simp: event_due_def exchange_fired_def Let_def split_beta alarm_isr_def time_us_64_def clear_fired_def alarm_inv_def)
  show "ps_next_deadline_us (w_sched w) \<le> clock (hw (snd (event_due ?sdk w)))" if "fst (event_due ?sdk w)"
  proof (cases "fst (sdk_alarm_irq ?sdk (hw w))")
    case True
    then have "hw (snd (event_due ?sdk w)) = ?e"
      by (simp add: event_due_def exchange_fired_def Let_def split_beta alarm_isr_def clear_fired_def)
    with True irq assms(2) show ?thesis by (auto simp: alarm_inv_def)
  next
    case False
    with fired that clk show ?thesis
      by (auto simp: event_due_def exchange_fired_def Let_def split_beta alarm_isr_def clear_fired_def time_us_64_def)
  qed
qed

lemma alarm_frame: "alarm_inv alarm w \<Longrightarrow> alarm (hw w') = alarm (hw w) \<Longrightarrow> w_sched w' = w_sched w \<Longrightarrow> alarm_inv alarm w'"
  by (simp add: alarm_inv_def)

lemma output_alarm:
  assumes "alarm_ok bd clock alarm" "g \<in> output_calls bd"
  shows "alarm (g e) = alarm e"
proof -
  have "\<forall>g \<in> input_calls bd \<union> output_calls bd. \<forall>e. alarm (g e) = alarm e" using assms(1) unfolding alarm_ok_def by blast
  from bspec [OF this UnI2 [OF assms(2)]] show ?thesis by blast
qed

lemma send_alarm:
  assumes "alarm_ok bd clock alarm"
  shows "alarm (hw (snd (send_pass_report (bd_sdk bd) r w))) = alarm (hw w)"
  using output_alarm [OF assms call_ready] output_alarm [OF assms call_report]
  by (simp add: send_pass_report_def pico_hid_keyboard_send_boot_report_def pico_hid_keyboard_send_report_def
      tud_hid_report_def Let_def split_beta)

lemma after_send_alarm:
  assumes "alarm_ok bd clock alarm" "alarm_inv alarm w" "ps_running (w_sched w)"
  shows "alarm_inv alarm (snd (after_send (sched_cb (bd_sdk bd)) (bd_sdk bd) w))"
proof -
  let ?sdk = "bd_sdk bd"
  define w1 where "w1 = w\<lparr>w_queue := snd (pico_playback_queue_pop (w_queue w))\<rparr>"
  define w2 where "w2 = (if pico_playback_queue_free_capacity (Some (w_queue w)) = 0
     \<and> \<not> ps_sequence_ended (w_sched w1) then playback_buffer_available w1 else w1)"
  define w3 where "w3 = snd (time_us_64 ?sdk w2)"
  define w4 where "w4 = sched_update (\<lambda>s. record_lateness (lateness_us (fst (time_us_64 ?sdk w2)) (ps_next_deadline_us s)) s) w3"
  have "hw w2 = hw w" "w_sched w2 = w_sched w"
    by (simp_all add: w2_def w1_def playback_buffer_available_def send_buffer_status_def Let_def split_beta)
  then have w3: "alarm (hw w3) = alarm (hw w)" "w_sched w3 = w_sched w"
    using time_alarm [OF assms(1)] by (simp_all add: w3_def time_us_64_def)
  have "alarm_inv alarm w4" "ps_running (w_sched w4)"
    using alarm_frame [OF assms(2) w3] w3(2) assms(3) unfolding w4_def
    by (intro alarm_sched_fields, simp_all add: record_lateness_def Let_def)
  moreover have "after_send (sched_cb ?sdk) ?sdk w = arm_next (sched_cb ?sdk) ?sdk w4"
    by (simp add: after_send_def w4_def w3_def w2_def w1_def Let_def split_beta scheduler_callbacks_def)
  ultimately show ?thesis using arm_next_alarm [OF assms(1)] by simp
qed

text \<open>
  A round finds the head of the queue when the event is due, so that it ends in the waiting state only
  through \<open>arm_next\<close>, with the alarm disarmed.
\<close>

lemma entry_alarm:
  assumes "alarm_ok bd clock alarm" "alarm_inv alarm w" "ps_running (w_sched w)"
    "round_entry (sched_cb (bd_sdk bd)) (bd_sdk bd) w = (go, w1)"
  shows "alarm_inv alarm w1"
  using arm_next_alarm [OF assms(1-3)] assms(2,4) by (auto simp: round_entry_def split: if_splits)

lemma round_alarm:
  fixes w :: "'e globals"
  assumes "alarm_ok bd clock alarm" "alarm_inv alarm w" "sched_ok (w_queue w) (w_sched w)" "ps_running (w_sched w)"
  shows "alarm_inv alarm (snd (task_round (sched_cb (bd_sdk bd)) (bd_sdk bd) w))"
proof -
  let ?sdk = "bd_sdk bd"
  note law = fws.due_law [OF assms(3,4), of ?sdk ?sdk, folded scheduler_callbacks_def]
  have due: "alarm_inv alarm w2" if "round_entry (sched_cb ?sdk) ?sdk w = (go, w1)" "event_due ?sdk w1 = (d, w2)" for go w1 d w2
    using event_due_alarm(1) [OF assms(1) entry_alarm [OF assms(1,2,4) that(1)]] that(2) by simp
  have send: "alarm_inv alarm w3" "w_sched w3 = w_sched w2" if "alarm_inv alarm w2" "send_pass_report ?sdk r w2 = (ok, w3)" for w2 r ok w3
    using fws.send_effect(2) [of ?sdk r w2] alarm_frame [OF that(1) send_alarm [OF assms(1)], of r] that(2) by simp_all
  show ?thesis
  proof (cases rule: program_rounds [of ?sdk w])
    case (entry w1)
    with entry_alarm [OF assms(1,2,4) entry(1)] show ?thesis by simp
  next
    case (early w1 w2)
    with due [OF early(1,2)] show ?thesis by simp
  next
    case (empty w1 w2)
    with law(5) [OF empty(1,2)] show ?thesis by simp
  next
    case (refused w1 w2 e w3)
    with send(1) [OF due [OF refused(1,2)] refused(4)] show ?thesis by simp
  next
    case (sent w1 w2 e w3)
    note w3 = send [OF due [OF sent(1,2)] sent(4)]
    from after_send_alarm [OF assms(1) w3(1)] w3(2) law(2) [OF sent(1,2)] sent(5) show ?thesis by simp
  qed
qed

lemma task_alarm:
  fixes w :: "'e globals"
  assumes "alarm_ok bd clock alarm" "alarm_inv alarm w" "sched_ok (w_queue w) (w_sched w)"
    "pico_playback_scheduler_task (sched_cb (bd_sdk bd)) (bd_sdk bd) w = Some w'"
  shows "alarm_inv alarm w'"
  using assms(2-4)
proof (induction "pq_count (w_queue w)" arbitrary: w rule: less_induct)
  case less
  let ?r = "task_round (sched_cb (bd_sdk bd)) (bd_sdk bd) w"
  have step: "pico_playback_scheduler_task (sched_cb (bd_sdk bd)) (bd_sdk bd) w
      = (if \<not> ps_running (w_sched w) then Some w
         else if fst ?r then pico_playback_scheduler_task (sched_cb (bd_sdk bd)) (bd_sdk bd) (snd ?r) else Some (snd ?r))"
    by (subst pico_playback_scheduler_task.simps) (simp add: split_beta Let_def)
  show ?case
  proof (cases "ps_running (w_sched w)")
    case False
    with step less(2,4) show ?thesis by simp
  next
    case True
    note law = fws.task_round_law [OF less(3) True, of "bd_sdk bd" "bd_sdk bd"]
    note next' = round_alarm [OF assms(1) less(2,3) True]
    show ?thesis
    proof (cases "fst ?r")
      case False
      with True step less(4) next' show ?thesis by simp
    next
      case go: True
      with True step less(4) less(1) [OF _ next'] law show ?thesis
        by (simp add: scheduler_callbacks_def sched_law_def)
    qed
  qed
qed

section \<open>The main loop\<close>

interpretation alo: loop_invariant bd "\<lambda>w. alarm_ok bd clock alarm \<longrightarrow> alarm_inv alarm w" for bd clock alarm
proof unfold_locales
  fix w :: "'a globals" and g
  show "alarm_ok bd clock alarm \<longrightarrow> alarm_inv alarm (w\<lparr>hw := g (hw w)\<rparr>)"
    if "g \<in> input_calls bd" "alarm_ok bd clock alarm \<longrightarrow> alarm_inv alarm w"
    using that unfolding alarm_ok_def by (auto intro: alarm_frame)
  show "alarm_ok bd clock alarm \<longrightarrow> alarm_inv alarm (w\<lparr>hw := g (hw w)\<rparr>)"
    if "g \<in> output_calls bd" "alarm_ok bd clock alarm \<longrightarrow> alarm_inv alarm w"
    using that output_alarm [of bd clock alarm g] by (auto intro: alarm_frame)
  show "alarm_ok bd clock alarm \<longrightarrow> alarm_inv alarm (sched_update pico_playback_scheduler_mark_sequence_ended w)"
    if "alarm_ok bd clock alarm \<longrightarrow> alarm_inv alarm w"
    using that by (auto intro!: alarm_sched_fields simp: pico_playback_scheduler_mark_sequence_ended_def)
  show "alarm_ok bd clock alarm \<longrightarrow> alarm_inv alarm (pico_playback_scheduler_start (sched_cb (bd_sdk bd)) (bd_sdk bd) t w)"
    if "alarm_ok bd clock alarm \<longrightarrow> alarm_inv alarm w" for t
    using that start_alarm by blast
  show "alarm_ok bd clock alarm \<longrightarrow> alarm_inv alarm w'"
    if "alarm_ok bd clock alarm \<longrightarrow> alarm_inv alarm w" "fw_inv w"
      "pico_playback_scheduler_task (sched_cb (bd_sdk bd)) (bd_sdk bd) w = Some w'" for w'
    using that task_alarm unfolding fw_inv_def by blast
qed

text \<open>A round that sends a report sends the head, and not before its time.\<close>

lemma round_on_time:
  fixes w :: "'e globals"
  assumes "alarm_ok bd clock alarm" "alarm_inv alarm w" "sched_ok (w_queue w) (w_sched w)" "ps_running (w_sched w)"
    "hid_out (snd (task_round (sched_cb (bd_sdk bd)) (bd_sdk bd) w)) \<noteq> hid_out w"
  defines "w1 \<equiv> snd (round_entry (sched_cb (bd_sdk bd)) (bd_sdk bd) w)"
  shows "\<exists>e. pico_playback_queue_peek (w_queue w) = Some e
    \<and> hid_out (snd (task_round (sched_cb (bd_sdk bd)) (bd_sdk bd) w)) = hid_out w @ [report_bytes (qe_report e)]
    \<and> ps_playback_start_us (w_sched w1) + qe_offset_us e \<le> clock (hw (snd (event_due (bd_sdk bd) w1)))"
proof -
  from fws.round_sends [OF assms(3,4), of "bd_sdk bd" "bd_sdk bd"] assms(5) obtain e where
    e: "pico_playback_queue_peek (w_queue w) = Some e"
    "hid_out (snd (task_round (sched_cb (bd_sdk bd)) (bd_sdk bd) w)) = hid_out w @ [report_bytes (qe_report e)]"
    "ps_next_deadline_us (w_sched w1) = ps_playback_start_us (w_sched w1) + qe_offset_us e" "fst (event_due (bd_sdk bd) w1)"
    by (auto simp: w1_def scheduler_callbacks_def)
  from event_due_alarm(2) [OF assms(1) entry_alarm [OF assms(1,2,4) prod.collapse [symmetric]]] e show ?thesis
    by (auto simp: w1_def)
qed

text \<open>
  The playback task of a pass as its rounds: the states it goes through while a round sends a report and
  the run goes on. The task ends with the round after them.
\<close>

inductive task_rounds :: "'e sdk \<Rightarrow> 'e globals \<Rightarrow> 'e globals \<Rightarrow> bool" for sdk :: "'e sdk" and w :: "'e globals" where
  rounds_start: "task_rounds sdk w w"
| rounds_next: "task_rounds sdk w v \<Longrightarrow> ps_running (w_sched v) \<Longrightarrow> task_round (sched_cb sdk) sdk v = (True, v') \<Longrightarrow>
    task_rounds sdk w v'"

lemma rounds_first:
  assumes "ps_running (w_sched w)" "task_round (sched_cb sdk) sdk w = (True, w1)" "task_rounds sdk w1 v"
  shows "task_rounds sdk w v"
  using assms(3) by induction (use rounds_next [OF rounds_start assms(1,2)] in \<open>auto intro: rounds_next\<close>)

lemma task_by_rounds:
  assumes "sched_ok (w_queue w) (w_sched w)" "pico_playback_scheduler_task (sched_cb sdk) sdk w = Some w'"
  shows "\<exists>v. task_rounds sdk w v \<and> (if ps_running (w_sched v) then task_round (sched_cb sdk) sdk v = (False, w') else w' = v)"
  using assms
proof (induction "pq_count (w_queue w)" arbitrary: w rule: less_induct)
  case less
  obtain go w1 where r: "task_round (sched_cb sdk) sdk w = (go, w1)" by fastforce
  show ?case
  proof (cases "ps_running (w_sched w) \<and> go")
    case False
    with less(3) r have "if ps_running (w_sched w) then task_round (sched_cb sdk) sdk w = (False, w') else w' = w"
      by (subst (asm) pico_playback_scheduler_task.simps) (auto split: if_splits)
    with rounds_start [of sdk w] show ?thesis by blast
  next
    case True
    with fws.task_round_law [OF less(2), of sdk sdk] r
    have w1: "sched_ok (w_queue w1) (w_sched w1)" "pq_count (w_queue w1) < pq_count (w_queue w)"
      by (simp_all add: scheduler_callbacks_def sched_law_def)
    have "pico_playback_scheduler_task (sched_cb sdk) sdk w1 = Some w'"
      using less(3) True r by (subst (asm) pico_playback_scheduler_task.simps) simp
    from less(1) [OF w1(2,1) this] obtain v where v: "task_rounds sdk w1 v"
      "if ps_running (w_sched v) then task_round (sched_cb sdk) sdk v = (False, w') else w' = v" by blast
    have "task_rounds sdk w v" using rounds_first [OF _ _ v(1)] True r by simp
    with v(2) show ?thesis by blast
  qed
qed

lemma rounds_inv:
  assumes "task_rounds (bd_sdk bd) w v" "alarm_ok bd clock alarm" "alarm_inv alarm w" "sched_ok (w_queue w) (w_sched w)"
  shows "alarm_inv alarm v \<and> sched_ok (w_queue v) (w_sched v)"
  using assms(1)
proof induction
  case rounds_start
  with assms(3,4) show ?case by simp
next
  case (rounds_next v v')
  from rounds_next.IH have v: "alarm_inv alarm v" "sched_ok (w_queue v) (w_sched v)" by simp_all
  from round_alarm [OF assms(2) v rounds_next.hyps(2)] fws.task_round_law [OF v(2) rounds_next.hyps(2), of "bd_sdk bd" "bd_sdk bd"]
    rounds_next.hyps(3) show ?case by (simp add: scheduler_callbacks_def sched_law_def)
qed

text \<open>The invariant holds in every round of every pass.\<close>

lemma pass_rounds:
  assumes "alarm_ok bd clock alarm" "alarm_inv alarm w0" "fw_inv w0" "main_loop n bd w0 = Some w"
    "before_playback bd w = Some u" "task_rounds (bd_sdk bd) u v"
  shows "alarm_inv alarm v" "sched_ok (w_queue v) (w_sched v)"
proof -
  have "alarm_inv alarm w \<and> fw_inv w" using alo.Q_loop [OF assms(4,3), of clock alarm] assms(1,2) by simp
  with alo.Q_before [OF assms(5), of clock alarm] assms(1) have "alarm_inv alarm u" "fw_inv u" by simp_all
  from rounds_inv [OF assms(6,1) this(1)] this(2) show "alarm_inv alarm v" "sched_ok (w_queue v) (w_sched v)"
    by (simp_all add: fw_inv_def)
qed

text \<open>
  In a run of the program that starts with no alarm armed, an armed alarm is set to the deadline of the
  head of the queue.
\<close>

lemma loop_alarm:
  fixes bd :: "'e board"
  assumes "alarm_ok bd clock alarm" "alarm e = None" "main_loop n bd (main_init e) = Some w"
  shows "alarm_inv alarm w" "fw_inv w"
proof -
  have "alarm_inv alarm (main_init e)"
    using assms(2) by (simp add: alarm_inv_def main_init_def pico_playback_scheduler_init_def)
  with alo.Q_loop [OF assms(3) main_init_inv, of clock alarm] assms(1)
  show "alarm_inv alarm w" "fw_inv w" by simp_all
qed

lemma armed_for_head:
  assumes "alarm_inv alarm w" "fw_inv w" "alarm (hw w) = Some (i, t)"
  shows "mode_state w = PICO_UART_MODE_PLAYING \<and> i = ps_alarm_id (w_sched w)
    \<and> (\<exists>x. pico_playback_queue_peek (w_queue w) = Some x \<and> t = ps_playback_start_us (w_sched w) + qe_offset_us x)"
proof -
  have "sched_ok (w_queue w) (w_sched w)" "ps_running (w_sched w) \<longleftrightarrow> mode_state w = PICO_UART_MODE_PLAYING"
    using assms(2) by (simp_all add: fw_inv_def fw_modes_def)
  with assms(1,3) show ?thesis by (auto simp: alarm_inv_def sched_ok_def)
qed

end
