(* ===== verification/Firmware_Recording.thy ===== *)
theory Firmware_Recording
  imports Firmware_Commands
begin

text \<open>
  What RECORD sends to the Zero: \<open>send_record_event\<close> of \<open>pico/src/main.c\<close> as the callback of the dispatch of
  captured reports. Each captured event becomes one RECORD_EVENT message, in the order of capture.
\<close>

text \<open>The message of an event, 24 bytes on the wire, and what the Zero reads from it.\<close>

definition record_message :: "capture_event \<Rightarrow> message" where
  "record_message e = (PICO_UART_RECORD_EVENT, write_u64_le (ce_timestamp_us e) @ [ce_report_len e] @ report_bytes (ce_report e))"

lemma record_message_content:
  "read_u64_le (snd (record_message e)) = ce_timestamp_us e"
  "snd (record_message e) ! 8 = ce_report_len e"
  "report_of_bytes (drop 9 (snd (record_message e))) = ce_report e"
  by (simp_all add: record_message_def nth_append)

lemma length_record_message: "length (wire_stream (map record_message es)) = 24 * length es"
  by (induction es) (simp_all add: record_message_def)

lemma send_record_event_room:
  assumes "ut_inv (g_transport w)" "length (tx_pending w) + 24 \<le> 2048"
  shows "tx_pending (send_record_event e w) = tx_pending w @ wire_stream [record_message e]"
    "ut_inv (g_transport (send_record_event e w))"
proof -
  have known: "pico_uart_type_known PICO_UART_RECORD_EVENT" by (simp add: type_known_iff pico_constants)
  have "length (snd (record_message e)) = 17" by (simp add: record_message_def)
  with tx_frame_body(2,3) [OF assms(1) _ known, of "snd (record_message e)" 17] assms(2)
  show "tx_pending (send_record_event e w) = tx_pending w @ wire_stream [record_message e]"
    "ut_inv (g_transport (send_record_event e w))"
    by (simp_all add: send_record_event_def record_message_def Let_def)
qed

text \<open>The dispatch with its trace: as long as the messages fit, the ring grows by those of the trace.\<close>

definition recording_law :: "u8 list \<Rightarrow> 'e globals traced \<Rightarrow> bool" where
  "recording_law before s \<longleftrightarrow> length before + 24 * length (snd (snd s)) \<le> 2048 \<longrightarrow>
     ut_inv (g_transport (fst s)) \<and> tx_pending (fst s) = before @ wire_stream (map record_message (snd (snd s)))"

lemma recording_law_record:
  assumes "recording_law before s"
  shows "recording_law before (traced_rec send_record_event e s)"
proof -
  have "ut_inv (g_transport (send_record_event e (fst s)))
      \<and> tx_pending (send_record_event e (fst s)) = before @ wire_stream (map record_message (snd (snd s) @ [e]))"
    if room: "length before + 24 * length (snd (snd s)) + 24 \<le> 2048"
  proof -
    have now: "ut_inv (g_transport (fst s))" "tx_pending (fst s) = before @ wire_stream (map record_message (snd (snd s)))"
      using assms room by (simp_all add: recording_law_def)
    then have "length (tx_pending (fst s)) + 24 \<le> 2048" using room by (simp add: length_record_message)
    from send_record_event_room [OF now(1) this, of e] now(2) show ?thesis by simp
  qed
  then show ?thesis by (simp add: recording_law_def)
qed

lemma recording_law_send: "recording_law before s \<Longrightarrow> recording_law before (snd (traced_send (send_pass_report sdk) r s))"
  by (simp add: recording_law_def)

lemma recording_sends_messages:
  assumes "fw_inv w" "mode_state w = PICO_UART_MODE_RECORD"
    "length (tx_pending w) + 24 * length (unrecorded (g_capture w)) \<le> 2048"
  shows "\<exists>recd. recd @ unrecorded (g_capture (dispatch_step sdk result w)) = unrecorded (g_capture w)
    \<and> (kc_view (g_capture (dispatch_step sdk result w)) = [] \<or> kc_head_recorded (g_capture (dispatch_step sdk result w)))
    \<and> tx_pending (dispatch_step sdk result w) = tx_pending w @ wire_stream (map record_message recd)"
proof -
  let ?ready = "result = PICO_SAFETY_RELEASE_READY"
  have inv: "kc_inv (g_capture w)" "ut_inv (g_transport w)" using assms(1) by (simp_all add: fw_inv_def fw_core_def)
  obtain c v fwd recd where t: "traced_dispatch (Some (mode_state w)) ?ready (send_pass_report sdk) send_record_event
      (g_capture w) w = (c, v, fwd, recd)" using prod_cases4 by blast
  have "recording_law (tx_pending w) (snd (traced_dispatch (Some (mode_state w)) ?ready (send_pass_report sdk) send_record_event (g_capture w) w))"
    by (rule dispatch_preserves [where P = "recording_law (tx_pending w)"])
      (simp_all add: recording_law_record recording_law_send inv, simp add: recording_law_def inv)
  then have law: "recording_law (tx_pending w) (v, fwd, recd)" by (simp add: t)
  have rec: "recd @ unrecorded c = unrecorded (g_capture w)" "kc_view c = [] \<or> kc_head_recorded c"
    using dispatch_conserves(2) [OF inv(1) t] assms(2) by (auto simp: pico_mode_state_is_recording_def)
  from arg_cong [OF rec(1), of length] have "length recd \<le> length (unrecorded (g_capture w))" by simp
  with law assms(3) have "tx_pending v = tx_pending w @ wire_stream (map record_message recd)"
    by (simp add: recording_law_def)
  moreover have "dispatch_step sdk result w = v\<lparr>g_capture := c\<rparr>"
    using dispatch_erase [of "Some (mode_state w)" ?ready "send_pass_report sdk" send_record_event "g_capture w" w] t
    by (simp add: dispatch_step_def)
  ultimately show ?thesis using rec by (intro exI [of _ recd]) simp
qed

end
