(* ===== verification/Firmware_Spec.thy ===== *)
theory Firmware_Spec
  imports Firmware_Steps Firmware_Recording
begin

text \<open>
  What the program of \<open>pico/src/main.c\<close> promises, as an abstract machine with the labels of
  \<open>Firmware_Steps\<close>. Its state has lists for the rings, messages for the bytes on the wire, and no hardware:
  clock readings, the figures of a run and the receive errors in a status are the choice of the environment.
  \<open>Firmware_Refinement\<close> shows that the program implements it.
\<close>

section \<open>The state and what is said to the Zero\<close>

text \<open>
  \<open>sp_keyboard\<close> is the address and interface of the mounted keyboard, \<open>sp_input\<close> and \<open>sp_queue\<close> hold times with
  reports, \<open>sp_starved\<close> says that playback has reported an underrun, \<open>sp_room\<close> is the number of bytes the
  transmit ring can still take, \<open>sp_dropped\<close> the number of messages that did not fit, and \<open>sp_fault\<close> says that a
  report of playback was one of them.
\<close>

record spec =
  sp_mode :: u8
  sp_release :: bool
  sp_keyboard :: "(u8 \<times> u8) option"
  sp_input :: "(u64 \<times> hid_report) list"
  sp_recorded :: bool
  sp_queue :: "(u64 \<times> hid_report) list"
  sp_ended :: bool
  sp_starved :: bool
  sp_pc :: "u8 list list"
  sp_zero :: "message list"
  sp_room :: nat
  sp_dropped :: nat
  sp_fault :: bool

definition spec_init :: spec where
  "spec_init = \<lparr>sp_mode = PICO_UART_MODE_PASS, sp_release = False, sp_keyboard = None, sp_input = [], sp_recorded = False, sp_queue = [],
     sp_ended = False, sp_starved = False, sp_pc = [], sp_zero = [], sp_room = 2048, sp_dropped = 0, sp_fault = False\<rparr>"

text \<open>A message is said as a whole, or it is dropped and counted; a frame has seven bytes beside its payload.\<close>

definition spec_fits :: "message \<Rightarrow> spec \<Rightarrow> bool" where
  "spec_fits m s \<longleftrightarrow> 7 + length (snd m) \<le> sp_room s"

definition spec_say :: "message \<Rightarrow> spec \<Rightarrow> spec" where
  "spec_say m s =
     (if spec_fits m s then s\<lparr>sp_zero := sp_zero s @ [m], sp_room := sp_room s - (7 + length (snd m))\<rparr>
      else s\<lparr>sp_dropped := sp_dropped s + 1\<rparr>)"

text \<open>What the environment contributes to the messages of a step.\<close>

record environment =
  en_time :: u64
  en_elapsed :: u64
  en_metrics :: "u8 list"
  en_errors :: "u8 list"

definition env_ok :: "environment \<Rightarrow> bool" where
  "env_ok env \<longleftrightarrow> length (en_metrics env) = 33 \<and> length (en_errors env) = 3"

section \<open>The mode machine\<close>

text \<open>
  A turn of the mode machine by the table: a running playback is aborted and reported, input is dropped
  and a release demanded, the queue is emptied, and the mode is reported.
\<close>

definition spec_turn :: "bool \<Rightarrow> environment \<Rightarrow> mode_op \<Rightarrow> spec \<Rightarrow> spec" where
  "spec_turn running env op s =
     (let (k, next_mode, reason, ok) = mode_table op (sp_mode s);
          s1 = (if k = Clear_All \<and> running
                then spec_say (PICO_UART_PLAY_METRICS, en_metrics env) (spec_say (PICO_UART_PLAY_ABORTED, []) s) else s);
          s2 = (if k = Clear_All then s1\<lparr>sp_queue := [], sp_ended := False, sp_starved := False, sp_fault := False\<rparr> else s1);
          s3 = (if k = Keep then s2 else s2\<lparr>sp_input := [], sp_recorded := False, sp_release := True, sp_mode := next_mode\<rparr>)
      in spec_say (PICO_UART_MODE_CHANGED, [next_mode, reason]) s3)"

definition spec_op :: "environment \<Rightarrow> mode_op \<Rightarrow> spec \<Rightarrow> spec" where
  "spec_op env op s = spec_turn (sp_mode s = PICO_UART_MODE_PLAYING) env op s"

section \<open>Playback\<close>

text \<open>A run that finds its queue empty ends when the sequence is complete, and reports an underrun otherwise.\<close>

definition spec_finish :: "environment \<Rightarrow> spec \<Rightarrow> spec" where
  "spec_finish env s = spec_turn False env Play_Finish
     (spec_say (PICO_UART_PLAY_METRICS, en_metrics env) (spec_say (PICO_UART_PLAY_FINISHED, []) s))"

definition spec_free :: "spec \<Rightarrow> u16" where
  "spec_free s = of_nat (512 - length (sp_queue s))"

definition spec_flow :: "message \<Rightarrow> spec \<Rightarrow> spec" where
  "spec_flow m s = (if spec_fits m s then spec_say m s else (spec_say m s)\<lparr>sp_fault := True\<rparr>)"

definition spec_starve :: "environment \<Rightarrow> spec \<Rightarrow> spec" where
  "spec_starve env s =
     (if sp_starved s then s
      else spec_flow (PICO_UART_PLAY_UNDERRUN, write_u64_le (en_elapsed env) @ [lo8 (spec_free s), hi8 (spec_free s)])
        (s\<lparr>sp_starved := True\<rparr>))"

definition spec_empty :: "environment \<Rightarrow> spec \<Rightarrow> spec" where
  "spec_empty env s = (if sp_ended s then spec_finish env s else spec_starve env s)"

definition spec_buffer_status :: "spec \<Rightarrow> message" where
  "spec_buffer_status s =
     (let queued = of_nat (length (sp_queue s)) :: u16
      in (PICO_UART_BUFFER_STATUS, [sp_mode s, lo8 queued, hi8 queued, lo8 (spec_free s), hi8 (spec_free s)]))"

text \<open>
  The moves of a run: its first event goes to the PC, with a credit for the Zero when the queue was full;
  an event ends an underrun; and an empty queue is dealt with as above.
\<close>

inductive play_move :: "spec \<Rightarrow> spec \<Rightarrow> bool" where
  play_event: "play_move s (if length (sp_queue s) = 512 \<and> \<not> sp_ended s then spec_flow (spec_buffer_status s1) s1 else s1)"
    if "sp_queue s = (off, r) # es" "s1 = s\<lparr>sp_queue := es, sp_pc := sp_pc s @ [report_bytes r]\<rparr>"
      "sp_mode s = PICO_UART_MODE_PLAYING" "\<not> sp_starved s"
| play_resume: "play_move s (s\<lparr>sp_starved := False\<rparr>)" if "sp_queue s \<noteq> []" "sp_mode s = PICO_UART_MODE_PLAYING"
| play_empty: "play_move s (spec_empty env s)"
    if "env_ok env" "sp_queue s = []" "sp_mode s = PICO_UART_MODE_PLAYING"

section \<open>Dispatch of captured input\<close>

text \<open>
  The moves of the dispatcher: in RECORD the first captured event is recorded once, and an event is
  forwarded when no release is pending, in RECORD only after it was recorded.
\<close>

definition record_of :: "u64 \<times> hid_report \<Rightarrow> message" where
  "record_of x = (PICO_UART_RECORD_EVENT, write_u64_le (fst x) @ [8] @ report_bytes (snd x))"

inductive input_move :: "bool \<Rightarrow> spec \<Rightarrow> spec \<Rightarrow> bool" for ready :: bool where
  input_record: "input_move ready s (spec_say (record_of x) (s\<lparr>sp_recorded := True\<rparr>))"
    if "sp_mode s = PICO_UART_MODE_RECORD" "sp_input s = x # xs" "\<not> sp_recorded s"
| input_forward: "input_move ready s (s\<lparr>sp_input := xs, sp_recorded := False, sp_pc := sp_pc s @ [report_bytes (snd x)]\<rparr>)"
    if ready "sp_mode s = PICO_UART_MODE_PASS \<or> sp_mode s = PICO_UART_MODE_RECORD \<and> sp_recorded s" "sp_input s = x # xs"

section \<open>Commands\<close>

definition spec_ack :: "environment \<Rightarrow> spec \<Rightarrow> spec" where
  "spec_ack env s = (if spec_fits (spec_buffer_status s) s then spec_say (spec_buffer_status s) s
     else spec_op env Protocol_Error (spec_say (spec_buffer_status s) s))"

text \<open>The last byte of a status says that a message was dropped; the counter behind it has 32 bits.\<close>

definition spec_status :: "environment \<Rightarrow> spec \<Rightarrow> message" where
  "spec_status env s =
     (PICO_UART_PICO_STATUS, sp_mode s # en_errors env @ [of_bool ((of_nat (sp_dropped s) :: u32) \<noteq> 0)])"

definition spec_start :: "environment \<Rightarrow> spec \<Rightarrow> spec" where
  "spec_start env s =
     (let s1 = (spec_say (PICO_UART_PLAY_STARTED, write_u64_le (en_time env)) (spec_op env Play_Start s))\<lparr>sp_starved := False\<rparr>
      in if sp_mode s \<noteq> PICO_UART_MODE_ARMED then spec_op env Play_Start s
         else if sp_queue s = [] then spec_empty env s1 else s1)"

definition spec_queue :: "environment \<Rightarrow> uart_frame \<Rightarrow> spec \<Rightarrow> spec" where
  "spec_queue env f s =
     (if \<not> pico_uart_queue_command_allowed (fr_type f) (sp_mode s) then spec_op env Protocol_Error s
      else if fr_type f = PICO_UART_QUEUE_CLEAR then
        spec_ack env (s\<lparr>sp_queue := [], sp_ended := False, sp_starved := False\<rparr>)
      else if fr_type f = PICO_UART_QUEUE_EVENT then
        (if length (sp_queue s) < 512 then
           spec_ack env (s\<lparr>sp_queue := sp_queue s @ [(read_u64_le (fr_payload f), report_of_bytes (drop 9 (fr_payload f)))]\<rparr>)
         else spec_op env Protocol_Error s)
      else
        (let s1 = s\<lparr>sp_ended := True\<rparr>
         in spec_ack env (if sp_mode s = PICO_UART_MODE_ARMED then spec_say (PICO_UART_PLAY_READY, []) s1 else s1)))"

definition spec_command :: "environment \<Rightarrow> uart_frame \<Rightarrow> spec \<Rightarrow> spec" where
  "spec_command env f s =
     (let ty = fr_type f in
      if ty = PICO_UART_MODE_SET then spec_op env (Mode_Set (fr_payload f ! 0)) s
      else if ty = PICO_UART_PLAY_START then spec_start env s
      else if ty = PICO_UART_PLAY_ABORT then spec_op env Play_Abort s
      else if ty = PICO_UART_PING then spec_say (PICO_UART_PONG, []) s
      else if ty = PICO_UART_STATUS_REQUEST then spec_say (spec_status env s) s
      else if ty = PICO_UART_QUEUE_CLEAR \<or> ty = PICO_UART_QUEUE_EVENT \<or> ty = PICO_UART_QUEUE_END then spec_queue env f s
      else spec_op env Protocol_Error s)"

section \<open>The keyboard\<close>

text \<open>A report of the mounted keyboard is captured in PASS and RECORD when the FIFO has room; any other report is not.\<close>

definition spec_report :: "environment \<Rightarrow> u8 \<times> u8 \<Rightarrow> u8 list option \<Rightarrow> u16 \<Rightarrow> spec \<Rightarrow> spec" where
  "spec_report env who rep len s =
     (if sp_keyboard s = Some who \<and> (sp_mode s = PICO_UART_MODE_PASS \<or> sp_mode s = PICO_UART_MODE_RECORD)
         \<and> rep \<noteq> None \<and> len = 8 \<and> length (sp_input s) < 16
      then s\<lparr>sp_input := sp_input s @ [(en_time env, report_of_bytes (the rep))]\<rparr> else s)"

section \<open>Steps and paths\<close>

inductive spec_step :: "spec \<Rightarrow> step_label \<Rightarrow> spec \<Rightarrow> bool" where
  spec_idle: "spec_step s l s" if "l = Uart_Irq \<or> l = Hardware \<or> l = Poll \<or> l = Fault \<or> l = Watchdog"
| spec_unsupported: "spec_step s (Usb_Host (Mounted dev ins)) s"
| spec_mounted: "spec_step s (Usb_Host (Mounted dev ins)) (s\<lparr>sp_keyboard := Some (dev, ins)\<rparr>)"
    if "sp_keyboard s = None \<or> sp_keyboard s = Some (dev, ins)"
| spec_unmounted: "spec_step s (Usb_Host (Unmounted dev ins))
      (if sp_keyboard s = Some (dev, ins) then s\<lparr>sp_keyboard := None\<rparr> else s)"
| spec_reported: "spec_step s (Usb_Host (Report_Received dev ins rep len)) (spec_report env (dev, ins) rep len s)"
| spec_fault: "spec_step s Fault (spec_op env Uart_Fault s)" if "env_ok env"
| spec_cmd: "spec_step s (Command f) (spec_command env f s)" if "env_ok env"
| spec_ready: "spec_step s (Release PICO_SAFETY_RELEASE_READY) s" if "\<not> sp_release s"
| spec_blocked: "spec_step s (Release PICO_SAFETY_RELEASE_BLOCKED) s" if "sp_release s"
| spec_sent: "spec_step s (Release PICO_SAFETY_RELEASE_SENT) (s\<lparr>sp_release := False, sp_pc := sp_pc s @ [release_bytes]\<rparr>)"
    if "sp_release s"
| spec_dispatch: "spec_step s (Dispatch result) s'"
    if "(input_move (result = PICO_SAFETY_RELEASE_READY))\<^sup>*\<^sup>* s s'" "result = PICO_SAFETY_RELEASE_READY \<longrightarrow> \<not> sp_release s"
      "sp_mode s' = PICO_UART_MODE_RECORD \<and> sp_input s' \<noteq> [] \<longrightarrow> sp_recorded s'"
| spec_playback: "spec_step s Playback s'" if "play_move\<^sup>*\<^sup>* s s'"
| spec_flow_fault: "spec_step s Flow_Fault (if sp_fault s then spec_op env Protocol_Error (s\<lparr>sp_fault := False\<rparr>) else s)"
    if "env_ok env"
| spec_watchdog: "spec_step s Watchdog (spec_op env Underrun_Fault s)"
    if "env_ok env" "sp_mode s = PICO_UART_MODE_PLAYING" "sp_starved s"
| spec_transmit: "spec_step s Transmit (s\<lparr>sp_room := n\<rparr>)" if "sp_room s \<le> n" "n \<le> 2048"

inductive spec_path :: "spec \<Rightarrow> step_label list \<Rightarrow> spec \<Rightarrow> bool" where
  spec_Nil: "spec_path s [] s"
| spec_Cons: "spec_path s (l # ls) u" if "spec_step s l t" "spec_path t ls u"

inductive_simps spec_path_simps [simp]:
  "spec_path s [] u" "spec_path s (l # ls) u"

end
