(* ===== verification/Firmware_Refinement.thy ===== *)
theory Firmware_Refinement
  imports Firmware_Spec Firmware_Reach
begin

text \<open>
  The program of \<open>pico/src/main.c\<close> implements the abstract machine of \<open>Firmware_Spec\<close>: the representation relation
  and a simulation for every step.
\<close>

section \<open>The drop counter\<close>

text \<open>Nothing but a refused frame counts as dropped.\<close>

abbreviation drops :: "uart_transport \<Rightarrow> u32" where
  "drops t \<equiv> tx_dropped (ut_stats t)"

lemma drops_receive [simp]:
  "drops (latch_fault t) = drops t" "drops (note_decode_error t r) = drops t" "drops (enqueue_command t f) = drops t"
  "drops (pico_uart_transport_rx_push_isr b t) = drops t" "drops (pico_uart_transport_hardware_error_isr t) = drops t"
  by (simp_all add: transport_step_defs pico_uart_transport_rx_push_isr_def pico_uart_transport_hardware_error_isr_def Let_def
      split: pico_uart_decode_result.split)

lemma drops_deliver [simp]: "drops (deliver bs t) = drops t"
  by (induction bs arbitrary: t) (simp_all add: deliver_def)

lemma drops_poll [simp]: "drops (pico_uart_transport_poll t) = drops t"
proof (induction t rule: pico_uart_transport_poll.induct)
  case (1 t)
  have "drops (poll_byte b u) = drops u" for b u
    by (simp add: poll_byte_def Let_def split: prod.split)
  then have "drops (poll_iteration t) = drops t" by (simp add: poll_iteration_def rx_take_def)
  with 1 show ?case by (subst pico_uart_transport_poll.simps) simp
qed

lemma drops_take [simp]:
  "drops (snd (pico_uart_transport_pop_command t)) = drops t" "drops (snd (pico_uart_transport_take_fault t)) = drops t"
  by (simp_all add: pico_uart_transport_pop_command_def pico_uart_transport_take_fault_def)

lemma drops_put [simp]: "drops (fold tx_put bs t) = drops t"
  by (induction bs arbitrary: t) (simp_all add: tx_put_def)

lemma drops_irq:
  assumes "uart0_irq_handler sdk (Some t) e = Some (Some t', e')"
  shows "drops t' = drops t"
proof -
  let ?t1 = "if fst (sdk_uart_rsr sdk e) \<noteq> 0 then pico_uart_transport_hardware_error_isr t else t"
  obtain r e2 where "irq_drain sdk ?t1 e2 = Some r" "t' = fst r"
    using assms by (auto simp: uart0_irq_handler_def Let_def split_beta split: if_splits)
  with irq_drain_deliver obtain bs where "t' = deliver bs ?t1" by metis
  then show ?thesis by simp
qed

lemma drops_tx_loop: "drops (fst (tx_loop sdk t w)) = drops t"
proof (induction sdk t w rule: tx_loop.induct)
  case (1 sdk t w)
  show ?case
    using 1 by (subst tx_loop.simps) (auto simp: Let_def pop_tx_byte_frame split: option.split)
qed

section \<open>The representation relation\<close>

definition keyboard_of :: "keyboard_host \<Rightarrow> (u8 \<times> u8) option" where
  "keyboard_of h = (if kh_mounted h then Some (kh_dev_addr h, kh_instance h) else None)"

definition implements :: "'e globals \<Rightarrow> spec \<Rightarrow> bool" where
  "implements w s \<longleftrightarrow> sp_mode s = mode_state w \<and> sp_release s = sr_pending (g_safety w)
     \<and> sp_keyboard s = keyboard_of (g_host w) \<and> of_nat (sp_dropped s) = drops (g_transport w)
     \<and> sp_input s = kc_contents (g_capture w) \<and> sp_recorded s = kc_head_recorded (g_capture w)
     \<and> sp_queue s = pq_contents (w_queue w) \<and> sp_ended s = ps_sequence_ended (w_sched w)
     \<and> sp_starved s = ps_underrun_active (w_sched w) \<and> ps_waiting_for_event (w_sched w) = ps_underrun_active (w_sched w) \<and> sp_pc s = hid_out w
     \<and> wire_stream (sp_zero s) = wire_sent w \<and> list_all pico_message (sp_zero s)
     \<and> sp_room s + length (tx_view (g_transport w)) = 2048 \<and> sp_fault s = g_flow_fault w
     \<and> ut_inv (g_transport w) \<and> kc_inv (g_capture w) \<and> pq_inv (w_queue w)"

lemma implements_init: "implements (main_init e) spec_init"
proof -
  have "drops pico_uart_transport_init = 0" by (simp add: pico_uart_transport_init_def zero_stats_def)
  moreover have "kc_contents pico_keyboard_capture_init = []" "\<not> kc_head_recorded pico_keyboard_capture_init"
    by (simp_all add: pico_keyboard_capture_init_def)
  moreover have "tx_view pico_uart_transport_init = []"
    by (simp add: tx_view_def pico_uart_transport_init_def)
  ultimately show ?thesis
    by (simp add: implements_def main_init_def spec_init_def keyboard_of_def pico_hid_keyboard_host_init_def wire_sent_def pico_safety_release_init_def
        pico_playback_scheduler_init_def del: kc_contents_eq_Nil)
qed

lemma implements_hw [simp]: "implements (w\<lparr>hw := e\<rparr>) s = implements w s"
  "implements (snd (call_hw f w)) s = implements w s" "implements (snd (time_us_64 sdk w)) s = implements w s"
  by (simp_all add: implements_def wire_sent_def time_us_64_def)

lemma implements_sched:
  "ps_sequence_ended (f (w_sched w)) = ps_sequence_ended (w_sched w) \<Longrightarrow>
   ps_underrun_active (f (w_sched w)) = ps_underrun_active (w_sched w) \<Longrightarrow>
   ps_waiting_for_event (f (w_sched w)) = ps_waiting_for_event (w_sched w) \<Longrightarrow>
   implements (sched_update f w) s = implements w s"
  by (simp add: implements_def wire_sent_def sched_update_def)

section \<open>Messages\<close>

lemma encode_sendable:
  assumes "sendable ty payload len"
  shows "pico_uart_encode_frame ty payload len True 71 = Some (wire_frame ty (message_body payload len))"
proof -
  let ?body = "message_body payload len"
  have msg: "pico_message (ty, ?body)" and len: "length ?body = unat len"
    using assms by (simp_all add: sendable_def)
  have known: "pico_uart_type_known ty"
    using msg by (auto simp: pico_message_def pico_uart_frame_payload_valid_def mk_frame_def Let_def split: if_splits)
  have "unat len \<noteq> 0 \<Longrightarrow> unat len \<le> length (the payload) \<and> payload \<noteq> None" "unat len \<le> 64"
    using len msg by (auto simp: message_body_def pico_message_def split: option.splits)
  moreover have "(if unat len = 0 then [] else take (unat len) (the payload)) = ?body"
    using len by (cases payload) (simp_all add: message_body_def)
  ultimately show ?thesis using known by (subst encode_frame_eq [OF refl]) auto
qed

lemma queue_frame_exact:
  assumes "ut_inv t" "sendable ty payload len"
  defines "body \<equiv> message_body payload len" and "r \<equiv> pico_uart_transport_queue_frame ty payload len t"
  shows "fst r \<longleftrightarrow> length (tx_view t) + (7 + length body) \<le> 2048"
    "tx_view (snd r) = tx_view t @ (if fst r then wire_frame ty body else [])" "ut_inv (snd r)"
    "drops (snd r) = drops t + of_bool (\<not> fst r)"
proof -
  have tx: "tx_inv t" using assms(1) by (simp add: ut_inv_def)
  note enc = encode_sendable [OF assms(2), folded body_def]
  have used: "length (tx_view t) = unat (ut_tx_head t - ut_tx_tail t)" by (simp add: tx_view_def ring_used_def)
  show fst: "fst r \<longleftrightarrow> length (tx_view t) + (7 + length body) \<le> 2048"
    by (simp add: r_def pico_uart_transport_queue_frame_def enc used not_less)
  show "ut_inv (snd r)" using assms(1) by (simp add: r_def)
  show "drops (snd r) = drops t + of_bool (\<not> fst r)"
    by (auto simp: r_def pico_uart_transport_queue_frame_def enc)
  show "tx_view (snd r) = tx_view t @ (if fst r then wire_frame ty body else [])"
  proof (cases "fst r")
    case True
    from queue_frame_room(2) [OF assms(1) enc] True fst show ?thesis by (simp add: r_def)
  next
    case False
    with tx show ?thesis unfolding r_def
      by (cases rule: queue_frame_cases [where ty = ty and payload = payload and plen = len]) auto
  qed
qed

text \<open>Frames of the program are messages of the specification, and both are refused together.\<close>

lemma frame_says:
  assumes "implements w s" "sendable ty payload len"
  shows "fst (tx_frame ty payload len w) = spec_fits (ty, message_body payload len) s"
    "implements (snd (tx_frame ty payload len w)) (spec_say (ty, message_body payload len) s)"
proof -
  have inv: "ut_inv (g_transport w)" using assms(1) by (simp add: implements_def)
  note q = queue_frame_exact [OF inv assms(2)]
  show fst: "fst (tx_frame ty payload len w) = spec_fits (ty, message_body payload len) s"
    using q(1) assms(1) by (simp add: tx_frame_def split_beta spec_fits_def implements_def) linarith
  have "pico_message (ty, message_body payload len)" using assms(2) by (simp add: sendable_def)
  with q(2-4) fst assms(1) show "implements (snd (tx_frame ty payload len w)) (spec_say (ty, message_body payload len) s)"
    by (auto simp: implements_def wire_sent_def tx_frame_def split_beta spec_say_def spec_fits_def)
qed

lemma frame_says_body:
  assumes "implements w s" "pico_message (ty, body)" "unat len = length body"
  shows "fst (tx_frame ty (Some body) len w) = spec_fits (ty, body) s"
    "implements (snd (tx_frame ty (Some body) len w)) (spec_say (ty, body) s)"
  using frame_says [OF assms(1), of ty "Some body" len] assms(2,3) by (simp_all add: message_body_def)

lemma frame_says_empty:
  assumes "implements w s" "pico_message (ty, [])"
  shows "fst (tx_frame ty None 0 w) = spec_fits (ty, []) s"
    "implements (snd (tx_frame ty None 0 w)) (spec_say (ty, []) s)"
  using frame_says [OF assms(1), of ty None 0] assms(2) by (simp_all add: message_body_def)

lemma spec_say_fields [simp]:
  "sp_mode (spec_say m s) = sp_mode s" "sp_release (spec_say m s) = sp_release s" "sp_keyboard (spec_say m s) = sp_keyboard s" "sp_input (spec_say m s) = sp_input s"
  "sp_recorded (spec_say m s) = sp_recorded s" "sp_queue (spec_say m s) = sp_queue s" "sp_ended (spec_say m s) = sp_ended s"
  "sp_starved (spec_say m s) = sp_starved s" "sp_pc (spec_say m s) = sp_pc s" "sp_fault (spec_say m s) = sp_fault s"
  by (simp_all add: spec_say_def)

lemma buffer_status_says:
  assumes "implements w s"
  shows "fst (send_buffer_status w) = spec_fits (spec_buffer_status s) s"
    "implements (snd (send_buffer_status w)) (spec_say (spec_buffer_status s) s)"
proof -
  have "sp_mode s = mode_state w" "length (sp_queue s) = pq_count (w_queue w)"
    using assms by (simp_all add: implements_def)
  then have eq: "send_buffer_status w = tx_frame PICO_UART_BUFFER_STATUS (Some (snd (spec_buffer_status s))) 5 w"
    by (simp add: send_buffer_status_def Let_def spec_buffer_status_def spec_free_def pico_playback_queue_count_def
        pico_playback_queue_free_capacity_def pico_mode_state_get_def)
  have ty: "spec_buffer_status s = (PICO_UART_BUFFER_STATUS, snd (spec_buffer_status s))" "length (snd (spec_buffer_status s)) = 5"
    by (simp_all add: spec_buffer_status_def Let_def)
  from ty(2) have "pico_message (PICO_UART_BUFFER_STATUS, snd (spec_buffer_status s))" by simp
  from frame_says_body [OF assms this, of 5] ty(2)
  show "fst (send_buffer_status w) = spec_fits (spec_buffer_status s) s"
    "implements (snd (send_buffer_status w)) (spec_say (spec_buffer_status s) s)"
    unfolding eq by (simp_all flip: ty(1))
qed

section \<open>The mode machine\<close>

text \<open>The two messages at the end of a run.\<close>

lemma completion_says:
  assumes "implements w s" "ty = PICO_UART_PLAY_FINISHED \<or> ty = PICO_UART_PLAY_ABORTED"
  shows "implements (snd (tx_frame PICO_UART_PLAY_METRICS (Some (metrics_payload m)) 33 (snd (tx_frame ty None 0 w))))
    (spec_say (PICO_UART_PLAY_METRICS, metrics_payload m) (spec_say (ty, []) s))"
  by (rule frame_says_body(2) [OF frame_says_empty(2) [OF assms(1)]]) (use assms(2) in auto)

abbreviation spec_abort :: "bool \<Rightarrow> environment \<Rightarrow> spec \<Rightarrow> spec" where
  "spec_abort running env s \<equiv> if running
     then spec_say (PICO_UART_PLAY_METRICS, en_metrics env) (spec_say (PICO_UART_PLAY_ABORTED, []) s) else s"

definition env_metrics :: "playback_metrics \<Rightarrow> environment" where
  "env_metrics m = \<lparr>en_time = 0, en_elapsed = 0, en_metrics = metrics_payload m, en_errors = [0, 0, 0]\<rparr>"

lemma env_metrics_simps [simp]: "env_ok (env_metrics m)" "en_metrics (env_metrics m) = metrics_payload m"
  by (simp_all add: env_metrics_def env_ok_def)

lemma stop_says:
  assumes "implements w s"
  shows "\<exists>env. env_ok env \<and> implements
    (pico_playback_scheduler_stop (scheduler_callbacks (playback_complete (Suc n) sdk) sdk) sdk w)
    (spec_abort (ps_running (w_sched w)) env s)"
proof (cases "ps_running (w_sched w)")
  case False
  with assms show ?thesis
    by (intro exI [of _ "env_metrics (metrics_of (w_sched w))"]) (simp add: pico_playback_scheduler_stop_def)
next
  case True
  define w2 where "w2 = sched_update (\<lambda>s. s\<lparr>ps_running := False,
      ps_lateness_samples := sort_samples (ps_lateness_samples s) (ps_sample_count s)\<rparr>)
      (clear_fired (if ps_alarm_armed (w_sched w) then disarm sdk w else w))"
  have "implements w2 s"
    using assms by (simp add: w2_def clear_fired_def disarm_def Let_def implements_sched)
  moreover have "pico_playback_scheduler_stop (scheduler_callbacks (playback_complete (Suc n) sdk) sdk) sdk w
      = snd (tx_frame PICO_UART_PLAY_METRICS (Some (metrics_payload (metrics_of (w_sched w2)))) 33
          (snd (tx_frame PICO_UART_PLAY_ABORTED None 0 w2)))"
    using True by (simp add: w2_def pico_playback_scheduler_stop_def finish_def scheduler_callbacks_def Let_def reason_defs)
  ultimately show ?thesis
    using True completion_says [of w2 s PICO_UART_PLAY_ABORTED "metrics_of (w_sched w2)"]
    by (intro exI [of _ "env_metrics (metrics_of (w_sched w2))"]) simp
qed

lemma clear_queue_says:
  assumes "implements w s"
  shows "\<exists>env. env_ok env \<and> implements (mode_clear_queue (playback_complete (Suc n) sdk) sdk w)
    ((spec_abort (ps_running (w_sched w)) env s)\<lparr>sp_queue := [], sp_ended := False, sp_starved := False, sp_fault := False\<rparr>)"
proof -
  define w1 where "w1 = pico_playback_scheduler_stop (scheduler_callbacks (playback_complete (Suc n) sdk) sdk) sdk w"
  obtain env where env: "env_ok env" "implements w1 (spec_abort (ps_running (w_sched w)) env s)"
    using stop_says [OF assms, of n sdk] by (auto simp: w1_def)
  have "\<not> ps_running (w_sched w1)" using stop_effect [of w "Suc n" sdk] by (simp add: w1_def stopped_like_def)
  with env(2) have "implements (mode_clear_queue (playback_complete (Suc n) sdk) sdk w)
      ((spec_abort (ps_running (w_sched w)) env s)\<lparr>sp_queue := [], sp_ended := False, sp_starved := False, sp_fault := False\<rparr>)"
    by (simp only: mode_clear_queue_def Let_def w1_def [symmetric])
      (simp add: implements_def wire_sent_def pico_playback_scheduler_reset_sequence_def del: pq_contents_eq_Nil)
  with env(1) show ?thesis by blast
qed

lemma mode_changed_says:
  assumes "implements w s"
  shows "implements (mode_changed state reason w) (spec_say (PICO_UART_MODE_CHANGED, [state, reason]) s)"
  unfolding mode_changed_def by (rule frame_says_body(2) [OF assms]) simp_all

text \<open>A turn of the machine, whether or not the scheduler runs.\<close>

lemma turn_implemented:
  assumes "implements w s"
  shows "\<exists>env. env_ok env \<and> implements
    (snd (mode_step (mode_callbacks_with (playback_complete (Suc n) sdk) sdk) op w)) (spec_turn (ps_running (w_sched w)) env op s)"
proof -
  let ?cb = "mode_callbacks_with (playback_complete (Suc n) sdk) sdk"
  have mode: "sp_mode s = mode_state w" using assms by (simp add: implements_def)
  obtain k m reason ok where t: "mode_table op (mode_state w) = (k, m, reason, ok)" using prod_cases4 by blast
  define w1 where "w1 = (if k = Keep then w else (apply_clearing ?cb k w)\<lparr>mode_state := m\<rparr>)"
  have step: "snd (mode_step ?cb op w) = mode_changed (mode_state w1) reason w1"
    using mode_step_table [OF t, of ?cb] by (simp add: w1_def notify_def mode_callbacks_with_def all_callbacks_def)
  have m: "mode_state w1 = m" using mode_table_next [OF t] by (simp add: w1_def)
  obtain env where env: "env_ok env" "implements (mode_clear_queue (playback_complete (Suc n) sdk) sdk w)
    ((spec_abort (ps_running (w_sched w)) env s)\<lparr>sp_queue := [], sp_ended := False, sp_starved := False, sp_fault := False\<rparr>)"
    using clear_queue_says [OF assms, of n sdk] by blast
  have drop: "implements ((mode_all_release (mode_clear_physical v))\<lparr>mode_state := m\<rparr>)
      (u\<lparr>sp_input := [], sp_recorded := False, sp_release := True, sp_mode := m\<rparr>)" if "implements v u" for v u
    using that by (simp add: implements_def wire_sent_def mode_all_release_def mode_clear_physical_def
        pico_safety_release_request_def del: kc_contents_eq_Nil) (simp add: pico_keyboard_capture_clear_def)
  have "implements w1 (let s1 = (if k = Clear_All \<and> ps_running (w_sched w) then spec_abort True env s else s);
       s2 = (if k = Clear_All then s1\<lparr>sp_queue := [], sp_ended := False, sp_starved := False, sp_fault := False\<rparr> else s1)
     in if k = Keep then s2 else s2\<lparr>sp_input := [], sp_recorded := False, sp_release := True, sp_mode := m\<rparr>)"
    using assms drop [OF assms] drop [OF env(2)]
    by (cases k; cases "ps_running (w_sched w)") (simp_all add: w1_def Let_def clear_and_release_def clear_release_and_queue_def mode_callbacks_with_def all_callbacks_def)
  from mode_changed_says [OF this, of m reason] env(1) show ?thesis
    unfolding step m by (intro exI [of _ env]) (cases k; simp add: spec_turn_def mode t Let_def split: if_splits)
qed

lemma op_implemented:
  assumes "implements w s" "fw_modes w"
  shows "\<exists>env. env_ok env \<and> implements (snd (mode_step (mode_cb sdk) op w)) (spec_op env op s)"
proof -
  have "ps_running (w_sched w) = (sp_mode s = PICO_UART_MODE_PLAYING)"
    using assms by (simp add: implements_def fw_modes_def)
  with turn_implemented [OF assms(1), of 1 sdk op] show ?thesis by (simp add: spec_op_def numeral_2_eq_2)
qed

lemma faults_implemented:
  assumes "implements w s" "fw_modes w"
  shows "\<exists>env. env_ok env \<and> implements (pico_mode_state_protocol_error (mode_cb sdk) w) (spec_op env Protocol_Error s)"
    "\<exists>env. env_ok env \<and> implements (pico_mode_state_uart_fault (mode_cb sdk) w) (spec_op env Uart_Fault s)"
    "\<exists>env. env_ok env \<and> implements (pico_mode_state_underrun_fault (mode_cb sdk) w) (spec_op env Underrun_Fault s)"
  using op_implemented [OF assms, of sdk Protocol_Error] op_implemented [OF assms, of sdk Uart_Fault]
    op_implemented [OF assms, of sdk Underrun_Fault] by simp_all

section \<open>Playback\<close>

lemma flow_says:
  assumes "implements w s" "fst r = spec_fits m s" "implements (snd r) (spec_say m s)"
  shows "implements (if \<not> fst r then (snd r)\<lparr>g_flow_fault := True\<rparr> else snd r) (spec_flow m s)"
proof (cases "spec_fits m s")
  case True
  with assms show ?thesis by (simp add: spec_flow_def)
next
  case False
  with assms show ?thesis by (simp add: spec_flow_def) (simp add: implements_def wire_sent_def)
qed

lemma underrun_implemented:
  assumes "implements w s"
  shows "\<exists>env. env_ok env \<and> implements (begin_underrun (sched_cb sdk) sdk w) (spec_starve env s)"
proof -
  define w1 where "w1 = sched_update (\<lambda>s. s\<lparr>ps_waiting_for_event := True\<rparr>) w"
  show ?thesis
  proof (cases "ps_underrun_active (w_sched w)")
    case True
    with assms have w1: "implements w1 s" by (simp add: w1_def implements_def wire_sent_def)
    from True assms have "begin_underrun (sched_cb sdk) sdk w = w1" "spec_starve env s = s" for env
      by (simp_all add: begin_underrun_def w1_def Let_def spec_starve_def implements_def)
    with w1 show ?thesis by (intro exI [of _ "env_metrics (metrics_of (w_sched w))"]) simp
  next
    case False
    define now where "now = fst (time_us_64 sdk w1)"
    define w3 where "w3 = sched_update (\<lambda>s. s\<lparr>ps_underrun_active := True, ps_underrun_since_us := now,
        ps_underrun_count := ps_underrun_count s + 1\<rparr>) (snd (time_us_64 sdk w1))"
    define elapsed where "elapsed = (if now \<ge> ps_playback_start_us (w_sched w3) then now - ps_playback_start_us (w_sched w3) else 0)"
    define s3 where "s3 = s\<lparr>sp_starved := True\<rparr>"
    have w3: "implements w3 s3"
      using assms by (simp add: w3_def s3_def w1_def implements_def wire_sent_def time_us_64_def)
    have "begin_underrun (sched_cb sdk) sdk w
        = playback_underrun elapsed (of_nat (pico_playback_queue_free_capacity (Some (w_queue w3)))) w3"
      using False by (simp add: begin_underrun_def w1_def w3_def now_def elapsed_def Let_def split_beta scheduler_callbacks_def)
    moreover have "of_nat (pico_playback_queue_free_capacity (Some (w_queue w3))) = spec_free s3"
      using w3 by (simp add: implements_def spec_free_def pico_playback_queue_free_capacity_def)
    ultimately have eq: "begin_underrun (sched_cb sdk) sdk w = playback_underrun elapsed (spec_free s3) w3" by simp
    let ?body = "write_u64_le elapsed @ [lo8 (spec_free s3), hi8 (spec_free s3)]"
    have "pico_message (PICO_UART_PLAY_UNDERRUN, ?body)" by simp
    note f = frame_says_body [OF w3 this, of 10]
    have "implements (playback_underrun elapsed (spec_free s3) w3) (spec_flow (PICO_UART_PLAY_UNDERRUN, ?body) s3)"
      using flow_says [OF w3 f] by (simp add: playback_underrun_def Let_def split_beta)
    moreover have "\<not> sp_starved s" using False assms by (simp add: implements_def)
    moreover have "spec_free s3 = spec_free s" by (simp add: s3_def spec_free_def)
    ultimately show ?thesis unfolding eq
      by (intro exI [of _ "(env_metrics (metrics_of (w_sched w)))\<lparr>en_elapsed := elapsed\<rparr>"])
        (simp add: spec_starve_def s3_def env_metrics_def env_ok_def)
  qed
qed

lemma finish_implemented:
  assumes "implements w s"
  shows "\<exists>env. env_ok env \<and> implements (finish (sched_cb sdk) PICO_UART_REASON_FINISHED w) (spec_finish env s)"
proof -
  define w1 where "w1 = sched_update (\<lambda>s. s\<lparr>ps_running := False,
      ps_lateness_samples := sort_samples (ps_lateness_samples s) (ps_sample_count s)\<rparr>) w"
  define m where "m = metrics_of (w_sched w1)"
  define w2 where "w2 = snd (tx_frame PICO_UART_PLAY_METRICS (Some (metrics_payload m)) 33
     (snd (tx_frame PICO_UART_PLAY_FINISHED None 0 w1)))"
  define s2 where "s2 = spec_say (PICO_UART_PLAY_METRICS, metrics_payload m) (spec_say (PICO_UART_PLAY_FINISHED, []) s)"
  have "implements w1 s" using assms by (simp add: w1_def implements_sched)
  then have w2: "implements w2 s2" unfolding w2_def s2_def by (intro completion_says) simp_all
  have "\<not> ps_running (w_sched w2)" by (simp add: w2_def w1_def)
  moreover have "finish (sched_cb sdk) PICO_UART_REASON_FINISHED w
      = snd (mode_step (mode_callbacks_with (playback_complete (Suc 0) sdk) sdk) Play_Finish w2)"
    by (simp add: finish_def Let_def scheduler_callbacks_def numeral_2_eq_2 w2_def m_def w1_def)
  moreover have "spec_turn False env Play_Finish s2 = spec_turn False (env_metrics m) Play_Finish s2" for env
    by (simp add: spec_turn_def Let_def)
  moreover obtain env where "implements (snd (mode_step (mode_callbacks_with (playback_complete (Suc 0) sdk) sdk) Play_Finish w2))
      (spec_turn (ps_running (w_sched w2)) env Play_Finish s2)"
    using turn_implemented [OF w2, of 0 sdk Play_Finish] by blast
  ultimately have "implements (finish (sched_cb sdk) PICO_UART_REASON_FINISHED w) (spec_turn False (env_metrics m) Play_Finish s2)"
    by metis
  then show ?thesis by (intro exI [of _ "env_metrics m"]) (simp add: spec_finish_def s2_def)
qed

lemma empty_implemented:
  assumes "implements w s"
  shows "\<exists>env. env_ok env \<and> implements (queue_empty_exit (sched_cb sdk) sdk w) (spec_empty env s)"
proof -
  have "sp_ended s = ps_sequence_ended (w_sched w)" using assms by (simp add: implements_def)
  with finish_implemented [OF assms, of sdk] underrun_implemented [OF assms, of sdk]
  show ?thesis by (simp add: queue_empty_exit_def spec_empty_def)
qed

text \<open>
  Arming ends an underrun when there is an event, and deals with an empty queue otherwise; \<open>spec_arm\<close> is
  the same on the abstract state.
\<close>

definition spec_arm :: "environment \<Rightarrow> spec \<Rightarrow> spec" where
  "spec_arm env s = (if sp_queue s = [] then spec_empty env s else s\<lparr>sp_starved := False\<rparr>)"

lemma arm_next_implemented:
  assumes "implements w s"
  shows "\<exists>env. env_ok env \<and> implements (snd (arm_next (sched_cb sdk) sdk w)) (spec_arm env s)"
    "fst (arm_next (sched_cb sdk) sdk w) \<longleftrightarrow> sp_queue s \<noteq> []"
proof -
  define w1 where "w1 = (if ps_alarm_armed (w_sched w) then clear_fired (disarm sdk w) else w)"
  have w1: "implements w1 s" "w_queue w1 = w_queue w"
    using assms by (simp_all add: w1_def clear_fired_def disarm_def Let_def implements_sched)
  have arm: "implements (arm_alarm sdk v) u = implements v u" for v :: "'a globals" and u
    by (simp add: arm_alarm_def Let_def split_beta implements_sched)
  have queue: "sp_queue s = [] \<longleftrightarrow> pico_playback_queue_peek (w_queue w1) = None"
    using w1 by (simp add: implements_def peek_None_iff)
  have next1: "implements (sched_update (\<lambda>s. s\<lparr>ps_waiting_for_event := False, ps_underrun_active := False,
      ps_next_deadline_us := d s\<rparr>) w1) (s\<lparr>sp_starved := False\<rparr>)" for d
    using w1(1) by (simp add: implements_def wire_sent_def sched_update_def)
  show "\<exists>env. env_ok env \<and> implements (snd (arm_next (sched_cb sdk) sdk w)) (spec_arm env s)"
  proof (cases "sp_queue s = []")
    case True
    with queue empty_implemented [OF w1(1), of sdk] show ?thesis
      by (simp add: arm_next_def Let_def w1_def [symmetric] spec_arm_def)
  next
    case False
    with queue obtain e where "pico_playback_queue_peek (w_queue w1) = Some e" by auto
    with False next1 show ?thesis
      by (intro exI [of _ "env_metrics (metrics_of (w_sched w))"])
        (simp add: arm_next_def Let_def w1_def [symmetric] spec_arm_def arm)
  qed
  show "fst (arm_next (sched_cb sdk) sdk w) \<longleftrightarrow> sp_queue s \<noteq> []"
    using queue by (simp add: arm_next_def Let_def w1_def [symmetric] split: option.split)
qed

text \<open>One round of the scheduler is a sequence of moves.\<close>

lemma spec_arm_moves:
  assumes "env_ok env" "sp_mode s = PICO_UART_MODE_PLAYING"
  shows "play_move\<^sup>*\<^sup>* s (spec_arm env s)"
  using assms by (auto simp: spec_arm_def intro: play_resume play_empty)

lemma event_due_implemented: "implements (snd (event_due sdk w)) s = implements w s"
  by (simp add: event_due_def exchange_fired_def Let_def split_beta alarm_isr_def clear_fired_def implements_sched)

lemma pop_view:
  assumes "implements w s" "pico_playback_queue_peek (w_queue w) = Some e"
  shows "sp_queue s = (qe_offset_us e, qe_report e) # pq_contents (snd (pico_playback_queue_pop (w_queue w)))"
    "pq_inv (snd (pico_playback_queue_pop (w_queue w)))"
  using assms peek_Some_view(1) [of "w_queue w" e] pq_pop_inv [of "w_queue w"]
  by (simp_all add: implements_def pq_contents_def pq_pair_def)

lemma sent_event_implemented:
  fixes w :: "'e globals" and sdk :: "'e sdk"
  assumes "implements w s" "sp_mode s = PICO_UART_MODE_PLAYING" "\<not> sp_starved s"
    "pico_playback_queue_peek (w_queue w) = Some e" "fst (send_pass_report sdk (qe_report e) w)"
  defines "r \<equiv> after_send (sched_cb sdk) sdk (snd (send_pass_report sdk (qe_report e) w))"
  shows "\<exists>s'. play_move\<^sup>*\<^sup>* s s' \<and> implements (snd r) s' \<and> (fst r \<longrightarrow> sp_mode s' = PICO_UART_MODE_PLAYING)"
proof -
  let ?q = "snd (pico_playback_queue_pop (w_queue w))"
  note pop = pop_view [OF assms(1,4)]
  define v where "v = snd (send_pass_report sdk (qe_report e) w)"
  define w1 where "w1 = v\<lparr>w_queue := ?q\<rparr>"
  define full where "full \<longleftrightarrow> length (sp_queue s) = 512 \<and> \<not> sp_ended s"
  define w2 where "w2 = (if full then playback_buffer_available w1 else w1)"
  define s1 where "s1 = s\<lparr>sp_queue := pq_contents ?q, sp_pc := sp_pc s @ [report_bytes (qe_report e)]\<rparr>"
  define s2 where "s2 = (if full then spec_flow (spec_buffer_status s1) s1 else s1)"
  obtain t where t: "v = w\<lparr>hw := t, hid_out := hid_out w @ [report_bytes (qe_report e)]\<rparr>"
    using send_pass_report_effect [of sdk "qe_report e" w] assms(5) unfolding v_def by auto
  have w1: "implements w1 s1"
    using assms(1) pop(2) unfolding w1_def t s1_def implements_def wire_sent_def by simp
  have w2: "implements w2 s2"
    using w1 flow_says [OF w1 buffer_status_says [OF w1]]
    by (simp add: w2_def s2_def playback_buffer_available_def Let_def split_beta)
  have s2: "sp_mode s2 = sp_mode s" by (simp add: s2_def s1_def spec_flow_def)
  have move: "play_move s s2"
    using play_event [OF pop(1) s1_def assms(2,3)] by (simp add: s2_def full_def)
  define w4 where "w4 = sched_update (\<lambda>s. record_lateness (lateness_us (fst (time_us_64 sdk w2)) (ps_next_deadline_us s)) s)
      (snd (time_us_64 sdk w2))"
  have rec: "ps_underrun_active (record_lateness l u) = ps_underrun_active u" for l u
    by (simp add: record_lateness_def Let_def)
  have w4: "implements w4 s2" using w2 by (simp add: w4_def implements_sched rec)
  have "length (sp_queue s) = pq_count (w_queue w)" "sp_ended s = ps_sequence_ended (w_sched w)" "pq_count (w_queue w) \<le> 512"
    using assms(1) pq_inv_bounds(4) [of "w_queue w"] by (simp_all add: implements_def)
  then have "r = arm_next (sched_cb sdk) sdk w4"
    by (simp add: r_def after_send_def Let_def split_beta scheduler_callbacks_def w4_def w2_def w1_def v_def full_def
        pico_playback_queue_free_capacity_def)
  with arm_next_implemented [OF w4, of sdk] obtain env where env: "env_ok env" "implements (snd r) (spec_arm env s2)"
    "fst r \<longleftrightarrow> sp_queue s2 \<noteq> []" by auto
  have "play_move\<^sup>*\<^sup>* s (spec_arm env s2)"
    using move spec_arm_moves [OF env(1), of s2] s2 assms(2) by (simp add: converse_rtranclp_into_rtranclp)
  moreover have "sp_mode (spec_arm env s2) = PICO_UART_MODE_PLAYING" if "fst r"
    using that env(3) s2 assms(2) by (simp add: spec_arm_def)
  ultimately show ?thesis using env(2) by blast
qed

lemma entry_implemented:
  assumes "implements w s" "sp_mode s = PICO_UART_MODE_PLAYING" "round_entry (sched_cb sdk) sdk w = (go, w1)"
  obtains s1 where "play_move\<^sup>*\<^sup>* s s1" "implements w1 s1" "go \<Longrightarrow> sp_mode s1 = PICO_UART_MODE_PLAYING \<and> \<not> sp_starved s1"
proof -
  obtain env where env: "env_ok env" "implements (snd (arm_next (sched_cb sdk) sdk w)) (spec_arm env s)"
    using arm_next_implemented(1) [OF assms(1)] by blast
  note go = arm_next_implemented(2) [OF assms(1), of sdk]
  have starved: "sp_starved s = ps_waiting_for_event (w_sched w)" using assms(1) by (simp add: implements_def)
  show ?thesis
  proof (cases "ps_waiting_for_event (w_sched w)")
    case True
    with spec_arm_moves [OF env(1) assms(2)] env(2) go assms(2,3) show ?thesis
      by (intro that [of "spec_arm env s"]) (auto simp: round_entry_def spec_arm_def)
  next
    case False
    with assms starved show ?thesis by (intro that [of s]) (auto simp: round_entry_def)
  qed
qed

lemma round_implemented:
  fixes w :: "'e globals" and sdk :: "'e sdk"
  assumes "implements w s" "sp_mode s = PICO_UART_MODE_PLAYING" "sched_ok (w_queue w) (w_sched w)" "ps_running (w_sched w)"
  defines "r \<equiv> task_round (sched_cb sdk) sdk w"
  shows "\<exists>s'. play_move\<^sup>*\<^sup>* s s' \<and> implements (snd r) s' \<and> (fst r \<longrightarrow> sp_mode s' = PICO_UART_MODE_PLAYING)"
proof -
  have due: "implements w2 s1" if "implements w1 s1" "event_due sdk w1 = (d, w2)" for w1 d w2 s1
    using event_due_implemented [of sdk w1 s1] that by simp
  show ?thesis
  proof (cases rule: program_rounds [of sdk w])
    case (entry w1)
    from entry_implemented [OF assms(1,2) entry(1)] obtain s1 where "play_move\<^sup>*\<^sup>* s s1" "implements w1 s1" by blast
    with entry(2) show ?thesis by (auto simp: r_def)
  next
    case (early w1 w2)
    from entry_implemented [OF assms(1,2) early(1)] obtain s1 where s1: "play_move\<^sup>*\<^sup>* s s1" "implements w1 s1" by blast
    from due [OF s1(2) early(2)] s1(1) early(3) show ?thesis by (auto simp: r_def)
  next
    case (empty w1 w2)
    from entry_implemented [OF assms(1,2) empty(1)] obtain s1 where s1: "play_move\<^sup>*\<^sup>* s s1" "implements w1 s1"
      "sp_mode s1 = PICO_UART_MODE_PLAYING" "\<not> sp_starved s1" by blast
    note w2 = due [OF s1(2) empty(2)]
    from empty_implemented [OF w2, of sdk] obtain env where env: "env_ok env"
      "implements (queue_empty_exit (sched_cb sdk) sdk w2) (spec_empty env s1)" by blast
    have "sp_queue s1 = []" using empty(3) w2 by (simp add: implements_def peek_None_iff)
    with s1 env(1) have "play_move\<^sup>*\<^sup>* s (spec_empty env s1)" by (auto intro: play_empty rtranclp.rtrancl_into_rtrancl)
    with env(2) empty(4) show ?thesis by (auto simp: r_def)
  next
    case (refused w1 w2 e w3)
    from entry_implemented [OF assms(1,2) refused(1)] obtain s1 where s1: "play_move\<^sup>*\<^sup>* s s1" "implements w1 s1" by blast
    obtain t where "w3 = w2\<lparr>hw := t, hid_out := hid_out w2\<rparr>"
      using send_pass_report_effect [of sdk "qe_report e" w2] refused(4) by auto
    with due [OF s1(2) refused(2)] s1(1) refused(5) show ?thesis by (auto simp: r_def)
  next
    case (sent w1 w2 e w3)
    from entry_implemented [OF assms(1,2) sent(1)] obtain s1 where s1: "play_move\<^sup>*\<^sup>* s s1" "implements w1 s1"
      "sp_mode s1 = PICO_UART_MODE_PLAYING" "\<not> sp_starved s1" by blast
    from sent_event_implemented [OF due [OF s1(2) sent(2)] s1(3,4) sent(3), of sdk] sent(4,5) obtain s' where
      "play_move\<^sup>*\<^sup>* s1 s'" "implements (snd r) s'" "fst r \<longrightarrow> sp_mode s' = PICO_UART_MODE_PLAYING"
      by (auto simp: r_def)
    with s1(1) show ?thesis by (meson rtranclp_trans)
  qed
qed

lemma task_implemented:
  assumes "pico_playback_scheduler_task (sched_cb sdk) sdk w = Some w'" "implements w s"
    "sched_ok (w_queue w) (w_sched w)" "ps_running (w_sched w) \<longrightarrow> sp_mode s = PICO_UART_MODE_PLAYING"
  shows "\<exists>s'. play_move\<^sup>*\<^sup>* s s' \<and> implements w' s'"
  using assms
proof (induction "pq_count (w_queue w)" arbitrary: w s rule: less_induct)
  case less
  let ?r = "task_round (sched_cb sdk) sdk w"
  show ?case
  proof (cases "ps_running (w_sched w)")
    case False
    with less(2,3) show ?thesis by (subst (asm) pico_playback_scheduler_task.simps) auto
  next
    case True
    from round_implemented [OF less(3) _ less(4) True, of sdk] less(5) True obtain s1 where
      s1: "play_move\<^sup>*\<^sup>* s s1" "implements (snd ?r) s1" "fst ?r \<longrightarrow> sp_mode s1 = PICO_UART_MODE_PLAYING" by auto
    have law: "sched_law w (snd ?r)" "fst ?r \<Longrightarrow> pq_count (w_queue (snd ?r)) < pq_count (w_queue w)"
      using fws.task_round_law [OF less(4) True, of sdk sdk] by (simp_all add: scheduler_callbacks_def)
    show ?thesis
    proof (cases "fst ?r")
      case False
      with less(2) True s1 show ?thesis
        by (subst (asm) pico_playback_scheduler_task.simps) (auto simp: split_beta Let_def)
    next
      case go: True
      with less(2) True have "pico_playback_scheduler_task (sched_cb sdk) sdk (snd ?r) = Some w'"
        by (subst (asm) pico_playback_scheduler_task.simps) (simp add: split_beta Let_def)
      from less(1) [OF law(2) [OF go] this s1(2)] law(1) s1(1,3) go show ?thesis
        by (auto simp: sched_law_def intro: rtranclp_trans)
    qed
  qed
qed

section \<open>Dispatch of captured input\<close>

lemma peek_input:
  assumes "implements (u\<lparr>g_capture := c\<rparr>) s" "pico_keyboard_capture_peek c = Some e"
  shows "sp_input s = kc_pair e # kc_contents (snd (pico_keyboard_capture_pop c))" "ce_report_len e = 8"
    "pico_keyboard_capture_head_recorded (Some c) = sp_recorded s"
  using assms peek_view [of c e] peek_report_len [of c e]
  by (simp_all add: implements_def kc_contents_def pico_keyboard_capture_head_recorded_def)

lemma tx_frame_capture:
  "(snd (tx_frame ty p n u))\<lparr>g_capture := c\<rparr> = snd (tx_frame ty p n (u\<lparr>g_capture := c\<rparr>))"
  by (simp add: tx_frame_def split_beta)

lemma record_implemented:
  fixes u :: "'e globals"
  assumes "implements (u\<lparr>g_capture := c\<rparr>) s" "pico_keyboard_capture_peek c = Some e" "sp_mode s = PICO_UART_MODE_RECORD"
  defines "r \<equiv> record_head (Some send_record_event) e c u"
  shows "\<exists>s'. (input_move ready)\<^sup>*\<^sup>* s s' \<and> implements ((snd r)\<lparr>g_capture := fst r\<rparr>) s' \<and> sp_mode s' = PICO_UART_MODE_RECORD
    \<and> sp_recorded s' \<and> sp_input s' = sp_input s"
proof (cases "sp_recorded s")
  case True
  with peek_input [OF assms(1,2)] assms(1,3) show ?thesis by (auto simp: r_def record_head_def)
next
  case False
  note p = peek_input [OF assms(1,2)]
  let ?c = "pico_keyboard_capture_mark_head_recorded c"
  let ?s = "s\<lparr>sp_recorded := True\<rparr>"
  have "kc_count c \<noteq> 0" using assms(2) by (rule peek_count)
  with assms(1) have "implements (u\<lparr>g_capture := ?c\<rparr>) ?s"
    by (simp add: implements_def wire_sent_def) (simp add: pico_keyboard_capture_mark_head_recorded_def)
  moreover have "pico_message (PICO_UART_RECORD_EVENT, snd (record_of (kc_pair e)))" by (simp add: record_of_def nth_append)
  moreover have "length (snd (record_of (kc_pair e))) = 17" by (simp add: record_of_def)
  ultimately have "implements (snd (tx_frame PICO_UART_RECORD_EVENT (Some (snd (record_of (kc_pair e)))) 17 (u\<lparr>g_capture := ?c\<rparr>)))
      (spec_say (PICO_UART_RECORD_EVENT, snd (record_of (kc_pair e))) ?s)"
    by (intro frame_says_body(2)) simp_all
  moreover have "send_record_event e u = snd (tx_frame PICO_UART_RECORD_EVENT (Some (snd (record_of (kc_pair e)))) 17 u)"
    using p(2) by (simp add: send_record_event_def record_of_def kc_pair_def Let_def)
  moreover have "(PICO_UART_RECORD_EVENT, snd (record_of x)) = record_of x" for x by (simp add: record_of_def)
  ultimately have "implements ((send_record_event e u)\<lparr>g_capture := ?c\<rparr>) (spec_say (record_of (kc_pair e)) ?s)"
    by (simp add: tx_frame_capture)
  moreover have "r = (?c, send_record_event e u)" using p(3) False by (simp add: r_def record_head_def)
  ultimately show ?thesis using input_record [OF assms(3) p(1) False] assms(3)
    by (intro exI [of _ "spec_say (record_of (kc_pair e)) ?s"]) auto
qed

lemma forward_implemented:
  assumes "implements (u\<lparr>g_capture := c\<rparr>) s" "pico_keyboard_capture_peek c = Some e" ready
    "sp_mode s = PICO_UART_MODE_PASS \<or> sp_mode s = PICO_UART_MODE_RECORD \<and> sp_recorded s"
    "fst (send_pass_report sdk (ce_report e) u)"
  shows "\<exists>s'. input_move ready s s' \<and> sp_mode s' = sp_mode s
    \<and> implements ((snd (send_pass_report sdk (ce_report e) u))\<lparr>g_capture := snd (pico_keyboard_capture_pop c)\<rparr>) s'"
proof -
  note p = peek_input [OF assms(1,2)]
  let ?c = "snd (pico_keyboard_capture_pop c)"
  obtain t where t: "snd (send_pass_report sdk (ce_report e) u) = u\<lparr>hw := t, hid_out := hid_out u @ [report_bytes (ce_report e)]\<rparr>"
    using send_pass_report_effect [of sdk "ce_report e" u] assms(5) by auto
  have inv: "kc_inv c" using assms(1) by (simp add: implements_def)
  have "implements ((snd (send_pass_report sdk (ce_report e) u))\<lparr>g_capture := ?c\<rparr>)
      (s\<lparr>sp_input := kc_contents ?c, sp_recorded := False, sp_pc := sp_pc s @ [report_bytes (snd (kc_pair e))]\<rparr>)"
    unfolding t using assms(1) kc_pop_inv [OF inv] kc_pop_head_recorded [OF inv]
    by (simp add: implements_def wire_sent_def kc_pair_def)
  with input_forward [OF assms(3,4) p(1)] show ?thesis by fastforce
qed

lemma send_failed:
  assumes "implements (u\<lparr>g_capture := c\<rparr>) s" "\<not> fst (send_pass_report sdk r u)"
  shows "implements ((snd (send_pass_report sdk r u))\<lparr>g_capture := c\<rparr>) s"
proof -
  obtain t where "snd (send_pass_report sdk r u) = u\<lparr>hw := t, hid_out := hid_out u\<rparr>"
    using send_pass_report_effect [of sdk r u] assms(2) by auto
  with assms(1) show ?thesis by (simp add: implements_def wire_sent_def)
qed

lemma dispatch_recording_implemented:
  assumes "implements (u\<lparr>g_capture := c\<rparr>) s" "sp_mode s = PICO_UART_MODE_RECORD"
    "dispatch_recording ready (Some (send_pass_report sdk)) (Some send_record_event) c u = (c', u')"
  shows "\<exists>s'. (input_move ready)\<^sup>*\<^sup>* s s' \<and> implements (u'\<lparr>g_capture := c'\<rparr>) s' \<and> sp_mode s' = PICO_UART_MODE_RECORD
    \<and> (sp_input s' = [] \<or> sp_recorded s')"
  using assms
proof (induction ready "Some (send_pass_report sdk)" "Some (send_record_event :: capture_event \<Rightarrow> 'a globals \<Rightarrow> 'a globals)" c u
    arbitrary: s rule: dispatch_recording.induct)
  case (1 ready c u)
  note step = 1(4) [unfolded dispatch_recording.simps [of _ _ _ c]]
  show ?case
  proof (cases "pico_keyboard_capture_peek c")
    case None
    with 1(2) have "sp_input s = []" using peek_None_view [OF None] by (simp add: implements_def kc_contents_def)
    with None 1(2,3) step show ?thesis by (intro exI [of _ s]) simp
  next
    case (Some e)
    let ?r = "record_head (Some send_record_event) e c u"
    let ?v = "send_pass_report sdk (ce_report e) (snd ?r)"
    from record_implemented [OF 1(2) Some 1(3), of ready] obtain s1 where s1: "(input_move ready)\<^sup>*\<^sup>* s s1"
      "implements ((snd ?r)\<lparr>g_capture := fst ?r\<rparr>) s1" "sp_mode s1 = PICO_UART_MODE_RECORD" "sp_recorded s1" by blast
    have peek: "pico_keyboard_capture_peek (fst ?r) = Some e"
      using Some by (simp add: record_head_def pico_keyboard_capture_mark_head_recorded_def
          pico_keyboard_capture_peek_def split: if_splits)
    show ?thesis
    proof (cases "ready \<and> fst ?v")
      case False
      with Some step have "(c', u') = (if ready then (fst ?r, snd ?v) else ?r)" by (auto simp: Let_def)
      with False s1 send_failed [OF s1(2), of sdk "ce_report e"] show ?thesis by (cases ready) (auto simp: prod_eq_iff)
    next
      case True
      then have go: ready "fst ?v" by simp_all
      from forward_implemented [OF s1(2) peek go(1) _ go(2)] s1(3,4) obtain s2 where s2: "input_move ready s1 s2"
        "sp_mode s2 = PICO_UART_MODE_RECORD" "implements ((snd ?v)\<lparr>g_capture := snd (pico_keyboard_capture_pop (fst ?r))\<rparr>) s2"
        by auto
      from True Some step have rest: "dispatch_recording ready (Some (send_pass_report sdk)) (Some send_record_event)
          (snd (pico_keyboard_capture_pop (fst ?r))) (snd ?v) = (c', u')" by (simp add: Let_def)
      from True have "\<not> (\<not> ready \<or> Some (send_pass_report sdk) = None)"
        "\<not> \<not> fst (the (Some (send_pass_report sdk)) (ce_report e) (snd ?r))" by simp_all
      from 1(1) [OF Some refl this(1) refl this(2), of s2] s2 rest obtain s3 where "(input_move ready)\<^sup>*\<^sup>* s2 s3"
        "implements (u'\<lparr>g_capture := c'\<rparr>) s3" "sp_mode s3 = PICO_UART_MODE_RECORD" "sp_input s3 = [] \<or> sp_recorded s3"
        by auto
      with s1(1) s2(1) show ?thesis by (meson rtranclp_trans r_into_rtranclp)
    qed
  qed
qed

lemma dispatch_pass_implemented:
  assumes "implements (u\<lparr>g_capture := c\<rparr>) s" "sp_mode s = PICO_UART_MODE_PASS" ready
    "dispatch_pass (send_pass_report sdk) c u = (c', u')"
  shows "\<exists>s'. (input_move ready)\<^sup>*\<^sup>* s s' \<and> implements (u'\<lparr>g_capture := c'\<rparr>) s' \<and> sp_mode s' = PICO_UART_MODE_PASS"
  using assms
proof (induction "send_pass_report sdk" c u arbitrary: s rule: dispatch_pass.induct)
  case (1 c u)
  note step = 1(5) [unfolded dispatch_pass.simps [of _ c]]
  show ?case
  proof (cases "pico_keyboard_capture_peek c")
    case None
    with 1(2,3) step show ?thesis by auto
  next
    case (Some e)
    let ?v = "send_pass_report sdk (ce_report e) u"
    show ?thesis
    proof (cases "fst ?v")
      case False
      with Some step send_failed [OF 1(2), of sdk "ce_report e"] 1(3) show ?thesis by (auto simp: Let_def)
    next
      case True
      from forward_implemented [OF 1(2) Some 1(4) _ True] 1(3) obtain s2 where s2: "input_move ready s s2"
        "sp_mode s2 = PICO_UART_MODE_PASS" "implements ((snd ?v)\<lparr>g_capture := snd (pico_keyboard_capture_pop c)\<rparr>) s2" by auto
      from True Some step have "dispatch_pass (send_pass_report sdk) (snd (pico_keyboard_capture_pop c)) (snd ?v) = (c', u')"
        by (simp add: Let_def)
      from 1(1) [OF Some refl _ s2(3,2) 1(4) this] True s2(1) show ?thesis
        by (auto intro: converse_rtranclp_into_rtranclp)
    qed
  qed
qed

lemma dispatch_implemented:
  assumes "implements w s"
  shows "\<exists>s'. (input_move (result = PICO_SAFETY_RELEASE_READY))\<^sup>*\<^sup>* s s' \<and> implements (dispatch_step sdk result w) s'
    \<and> (sp_mode s' = PICO_UART_MODE_RECORD \<and> sp_input s' \<noteq> [] \<longrightarrow> sp_recorded s')"
proof -
  let ?ready = "result = PICO_SAFETY_RELEASE_READY" and ?c = "g_capture w"
  have mode: "sp_mode s = mode_state w" and w: "implements (w\<lparr>g_capture := ?c\<rparr>) s" using assms by (simp_all add: implements_def)
  consider (recording) "mode_state w = PICO_UART_MODE_RECORD" | (pass) "mode_state w = PICO_UART_MODE_PASS" ?ready
    | (none) "mode_state w \<noteq> PICO_UART_MODE_RECORD" "mode_state w = PICO_UART_MODE_PASS \<longrightarrow> \<not> ?ready" by blast
  then show ?thesis
  proof cases
    case recording
    obtain c' u' where r: "dispatch_recording ?ready (Some (send_pass_report sdk)) (Some send_record_event) ?c w = (c', u')"
      by fastforce
    with recording have "dispatch_step sdk result w = u'\<lparr>g_capture := c'\<rparr>"
      by (simp add: dispatch_step_def pico_physical_report_dispatch_def pico_mode_state_is_recording_def)
    with dispatch_recording_implemented [OF w _ r] mode recording show ?thesis by auto
  next
    case pass
    obtain c' u' where r: "dispatch_pass (send_pass_report sdk) ?c w = (c', u')" by fastforce
    with pass have "dispatch_step sdk result w = u'\<lparr>g_capture := c'\<rparr>"
      by (simp add: dispatch_step_def pico_physical_report_dispatch_def pico_mode_state_is_recording_def
          pico_mode_state_get_def mode_defs)
    with dispatch_pass_implemented [OF w _ _ r, of ?ready] mode pass show ?thesis by (auto simp: mode_defs)
  next
    case none
    then have "dispatch_step sdk result w = w"
      by (auto simp: dispatch_step_def pico_physical_report_dispatch_def pico_mode_state_is_recording_def pico_mode_state_get_def)
    with assms none mode show ?thesis by auto
  qed
qed

section \<open>Commands\<close>

lemma ack_implemented:
  assumes "implements w s" "fw_modes w"
  shows "\<exists>env. env_ok env \<and> implements (ack_or_error sdk w) (spec_ack env s)"
proof -
  let ?r = "send_buffer_status w"
  note says = buffer_status_says [OF assms(1)]
  have "fw_modes (snd ?r)" using assms(2) tx_only_ok(2) [OF send_buffer_status_tx [of w]] by simp
  note err = faults_implemented(1) [OF says(2) this, of sdk]
  show ?thesis
  proof (cases "fst ?r")
    case True
    with says show ?thesis
      by (intro exI [of _ "env_metrics (metrics_of (w_sched w))"]) (simp add: ack_or_error_def Let_def split_beta spec_ack_def)
  next
    case False
    with err says(1) show ?thesis by (simp add: ack_or_error_def Let_def split_beta spec_ack_def)
  qed
qed

lemma push_contents:
  assumes "pq_inv q"
  shows "fst (pico_playback_queue_push off (Some bytes) 8 q) \<longleftrightarrow> pq_count q < 512"
    "pq_contents (snd (pico_playback_queue_push off (Some bytes) 8 q))
      = pq_contents q @ (if pq_count q < 512 then [(off, report_of_bytes bytes)] else [])"
proof -
  have le: "pq_count q \<le> 512" using assms by (simp add: pq_inv_def)
  then show "fst (pico_playback_queue_push off (Some bytes) 8 q) \<longleftrightarrow> pq_count q < 512"
    by (auto simp: pico_playback_queue_push_def)
  show "pq_contents (snd (pico_playback_queue_push off (Some bytes) 8 q))
      = pq_contents q @ (if pq_count q < 512 then [(off, report_of_bytes bytes)] else [])"
    using le pq_push_view [OF assms] by (auto simp: pico_playback_queue_push_def pq_contents_def pq_pair_def)
qed

lemma queue_clear_implemented:
  assumes "implements w s" "fw_inv w" "mode_state w = PICO_UART_MODE_ARMED"
  shows "implements (sched_update pico_playback_scheduler_reset_sequence (w\<lparr>w_queue := pico_playback_queue_clear (w_queue w)\<rparr>))
    (s\<lparr>sp_queue := [], sp_ended := False, sp_starved := False\<rparr>)"
proof -
  have "\<not> ps_running (w_sched w)" using assms(2,3) by (simp add: fw_inv_def fw_modes_def mode_defs)
  then show ?thesis
    using assms(1) by (simp add: implements_def wire_sent_def pico_playback_scheduler_reset_sequence_def del: pq_contents_eq_Nil)
qed

lemma queue_event_implemented:
  fixes off :: u64 and bytes :: "u8 list"
  assumes "implements w s" "fw_inv w" "mode_state w = PICO_UART_MODE_ARMED \<or> mode_state w = PICO_UART_MODE_PLAYING"
  defines "push \<equiv> pico_playback_queue_push off (Some bytes) 8 (w_queue w)"
  shows "implements (w\<lparr>w_queue := snd push\<rparr>)
      (if fst push then s\<lparr>sp_queue := sp_queue s @ [(off, report_of_bytes bytes)]\<rparr> else s)"
    "fw_modes (w\<lparr>w_queue := snd push\<rparr>)" "fst push \<longleftrightarrow> length (sp_queue s) < 512"
proof -
  have inv: "pq_inv (w_queue w)" "length (sp_queue s) = pq_count (w_queue w)" using assms(1) by (simp_all add: implements_def)
  note contents = push_contents [OF inv(1), of off bytes]
  show "implements (w\<lparr>w_queue := snd push\<rparr>)
      (if fst push then s\<lparr>sp_queue := sp_queue s @ [(off, report_of_bytes bytes)]\<rparr> else s)"
    using assms(1) contents pq_push_inv [OF inv(1)] by (auto simp: push_def implements_def wire_sent_def)
  show "fw_modes (w\<lparr>w_queue := snd push\<rparr>)" using push_ok [OF assms(2,3)] by (simp add: push_def fw_inv_def)
  show "fst push \<longleftrightarrow> length (sp_queue s) < 512" using contents(1) inv(2) by (simp add: push_def)
qed

lemma queue_end_implemented:
  assumes "implements w s" "fw_inv w" "mode_state w = PICO_UART_MODE_ARMED \<or> mode_state w = PICO_UART_MODE_PLAYING"
  defines "w1 \<equiv> sched_update pico_playback_scheduler_mark_sequence_ended w" and "s1 \<equiv> s\<lparr>sp_ended := True\<rparr>"
  defines "w2 \<equiv> if mode_state w = PICO_UART_MODE_ARMED then snd (tx_frame PICO_UART_PLAY_READY None 0 w1) else w1"
  shows "implements w2 (if mode_state w = PICO_UART_MODE_ARMED then spec_say (PICO_UART_PLAY_READY, []) s1 else s1)" "fw_modes w2"
proof -
  have w1: "implements w1 s1"
    using assms(1) by (simp add: w1_def s1_def implements_def wire_sent_def pico_playback_scheduler_mark_sequence_ended_def)
  then show "implements w2 (if mode_state w = PICO_UART_MODE_ARMED then spec_say (PICO_UART_PLAY_READY, []) s1 else s1)"
    using frame_says_empty(2) [OF w1, of PICO_UART_PLAY_READY] by (simp add: w2_def)
  have tx: "tx_only_step w1 w2" by (simp add: w2_def)
  from tx_only_ok(2) [OF tx] mark_ended_ok [OF assms(2,3)] show "fw_modes w2" by (simp add: w1_def fw_inv_def)
qed

lemma queue_command_implemented:
  assumes "implements w s" "fw_inv w" "fr_type f \<in> {PICO_UART_QUEUE_CLEAR, PICO_UART_QUEUE_EVENT, PICO_UART_QUEUE_END}"
  shows "\<exists>env. env_ok env \<and> implements (dispatch_queue_command sdk f w) (spec_queue env f s)"
proof -
  let ?allowed = "pico_uart_queue_command_allowed (fr_type f) (mode_state w)"
  have mode: "sp_mode s = mode_state w" using assms(1) by (simp add: implements_def)
  note defs = dispatch_queue_command_def spec_queue_def mode pico_mode_state_get_def Let_def
  have run: "mode_state w = PICO_UART_MODE_ARMED \<or> mode_state w = PICO_UART_MODE_PLAYING" if ?allowed
    using that assms(3) by (auto simp: pico_uart_queue_command_allowed_def split: if_splits)
  consider (refused) "\<not> ?allowed" | (clear) ?allowed "fr_type f = PICO_UART_QUEUE_CLEAR"
    | (event) ?allowed "fr_type f = PICO_UART_QUEUE_EVENT" | (end_seq) ?allowed "fr_type f = PICO_UART_QUEUE_END"
    using assms(3) by blast
  then show ?thesis
  proof cases
    case refused
    have "fw_modes w" using assms(2) by (simp add: fw_inv_def)
    from faults_implemented(1) [OF assms(1) this, of sdk] refused show ?thesis by (simp add: defs)
  next
    case clear
    then have armed: "mode_state w = PICO_UART_MODE_ARMED" by (simp add: pico_uart_queue_command_allowed_def)
    from ack_implemented [OF queue_clear_implemented [OF assms(1,2) armed], of sdk] clear_reset_ok [OF assms(2) armed] clear
    show ?thesis by (simp add: defs fw_inv_def)
  next
    case event
    note push = queue_event_implemented [OF assms(1,2) run [OF event(1)], of "read_u64_le (fr_payload f)" "drop 9 (fr_payload f)"]
    from ack_implemented [OF _ push(2), of _ sdk] faults_implemented(1) [OF _ push(2), of s sdk] push(1,3) event
    show ?thesis by (auto simp: defs split_beta zero_type_defs split: if_splits)
  next
    case end_seq
    note step = queue_end_implemented [OF assms(1,2) run [OF end_seq(1)]]
    from ack_implemented [OF step, of sdk] end_seq show ?thesis by (simp add: defs zero_type_defs)
  qed
qed

lemma spec_time_free:
  "spec_turn b (env\<lparr>en_time := t\<rparr>) op s = spec_turn b env op s" "spec_empty (env\<lparr>en_time := t\<rparr>) s = spec_empty env s"
  by (simp_all add: spec_turn_def spec_empty_def spec_finish_def spec_starve_def Let_def split: prod.split)

lemma spec_play_start_free: "spec_op env Play_Start s = spec_op env' Play_Start s"
  by (simp add: spec_op_def spec_turn_def Let_def)

lemma start_implemented:
  assumes "implements w s" "fw_inv w" "fr_type f = PICO_UART_PLAY_START"
  shows "\<exists>env. env_ok env \<and> implements (dispatch_command sdk f w) (spec_start env s)"
proof -
  define w1 where "w1 = snd (time_us_64 sdk w)"
  define t where "t = fst (time_us_64 sdk w)"
  let ?r = "pico_mode_state_play_start (mode_cb sdk) w1"
  have eq: "dispatch_command sdk f w = (if fst ?r then pico_playback_scheduler_start (sched_cb sdk) sdk t
      (snd (tx_frame PICO_UART_PLAY_STARTED (Some (write_u64_le t)) 8 (snd ?r))) else snd ?r)"
    using assms(3) by (simp add: dispatch_command_def Let_def split_beta w1_def t_def zero_type_defs)
  have w1: "implements w1 s" "fw_inv w1" "sp_mode s = mode_state w1"
    using assms(1,2) by (simp_all add: w1_def hw_ok) (simp add: implements_def time_us_64_def)
  from op_implemented [OF w1(1), of sdk Play_Start] w1(2) obtain env0 where env0: "env_ok env0"
    "implements (snd ?r) (spec_op env0 Play_Start s)" by (auto simp: fw_inv_def)
  show ?thesis
  proof (cases "mode_state w1 = PICO_UART_MODE_ARMED")
    case False
    then have "\<not> fst ?r" by (simp add: pico_mode_state_play_start_def)
    with False env0 w1(3) show ?thesis unfolding eq by (auto simp: spec_start_def Let_def)
  next
    case True
    note st = play_start_ok [OF w1(2) True, of sdk]
    define w3 where "w3 = snd (tx_frame PICO_UART_PLAY_STARTED (Some (write_u64_le t)) 8 (snd ?r))"
    define w4 where "w4 = sched_update (start_run t) w3"
    define s3 where "s3 = spec_say (PICO_UART_PLAY_STARTED, write_u64_le t) (spec_op env0 Play_Start s)"
    have w3: "implements w3 s3" unfolding w3_def s3_def by (rule frame_says_body(2) [OF env0(2)]) simp_all
    have start: "ps_underrun_active (start_run t u) = False" "ps_sequence_ended (start_run t u) = ps_sequence_ended u" for u
      by (simp_all add: start_run_def)
    have w4: "implements w4 (s3\<lparr>sp_starved := False\<rparr>)"
      using w3 by (simp add: w4_def implements_def wire_sent_def start)
    have "ps_queue (w_sched w3)" "\<not> ps_running (w_sched w3)" using st(2) w1(2) by (auto simp: w3_def fw_inv_def fw_core_def)
    then have run: "dispatch_command sdk f w = snd (arm_next (sched_cb sdk) sdk w4)"
      using st(1) unfolding eq by (simp add: w4_def w3_def [symmetric] pico_playback_scheduler_start_def)
    from arm_next_implemented(1) [OF w4, of sdk] obtain env where env: "env_ok env"
      "implements (dispatch_command sdk f w) (spec_arm env (s3\<lparr>sp_starved := False\<rparr>))" unfolding run by blast
    have queue: "sp_queue (spec_op env' Play_Start s) = sp_queue s" for env'
      by (simp add: spec_op_def spec_turn_def Let_def)
    have "spec_arm env (s3\<lparr>sp_starved := False\<rparr>) = spec_start (env\<lparr>en_time := t\<rparr>) s"
      using True w1(3) spec_play_start_free [of env0 s "env\<lparr>en_time := t\<rparr>"]
      by (simp add: spec_arm_def spec_start_def queue spec_time_free s3_def Let_def)
    with env show ?thesis by (intro exI [of _ "env\<lparr>en_time := t\<rparr>"]) (simp add: env_ok_def)
  qed
qed

lemma status_implemented:
  assumes "implements w s"
  shows "\<exists>env. env_ok env \<and> implements (send_status w) (spec_say (spec_status env s) s)"
proof -
  let ?st = "ut_stats (g_transport w)"
  let ?errs = "[of_bool (rx_overflow ?st \<noteq> 0), of_bool (hardware_errors ?st \<noteq> 0), of_bool (invalid_frames ?st \<noteq> 0)] :: u8 list"
  let ?env = "(env_metrics (metrics_of (w_sched w)))\<lparr>en_errors := ?errs\<rparr>"
  have status: "spec_status ?env s = (PICO_UART_PICO_STATUS, snd (spec_status ?env s))" "length (snd (spec_status ?env s)) = 5"
    by (simp_all add: spec_status_def)
  have "send_status w = snd (tx_frame PICO_UART_PICO_STATUS (Some (snd (spec_status ?env s))) 5 w)"
    using assms by (simp add: send_status_def Let_def pico_mode_state_get_def implements_def pico_uart_transport_get_stats_def spec_status_def)
  moreover have "implements (snd (tx_frame PICO_UART_PICO_STATUS (Some (snd (spec_status ?env s))) 5 w)) (spec_say (spec_status ?env s) s)"
    by (subst status(1)) (rule frame_says_body(2) [OF assms]; simp add: status(2))
  moreover have "env_ok ?env" by (simp add: env_ok_def env_metrics_def)
  ultimately show ?thesis by metis
qed

lemma command_implemented:
  assumes "implements w s" "fw_inv w" "command_ok f"
  shows "\<exists>env. env_ok env \<and> implements (dispatch_command sdk f w) (spec_command env f s)"
proof -
  have modes: "fw_modes w" using assms(2) by (simp add: fw_inv_def)
  note op = op_implemented [OF assms(1) modes, of sdk] and err = faults_implemented(1) [OF assms(1) modes, of sdk]
  note defs = dispatch_command_def spec_command_def Let_def zero_type_defs
  consider (start) "fr_type f = PICO_UART_PLAY_START" | (ping) "fr_type f = PICO_UART_PING"
    | (status) "fr_type f = PICO_UART_STATUS_REQUEST" | (set) "fr_type f = PICO_UART_MODE_SET"
    | (abort) "fr_type f = PICO_UART_PLAY_ABORT"
    | (queue) "fr_type f \<in> {PICO_UART_QUEUE_CLEAR, PICO_UART_QUEUE_EVENT, PICO_UART_QUEUE_END}"
    | (other) "fr_type f \<notin> {PICO_UART_PLAY_START, PICO_UART_PING, PICO_UART_STATUS_REQUEST, PICO_UART_MODE_SET,
        PICO_UART_PLAY_ABORT, PICO_UART_QUEUE_CLEAR, PICO_UART_QUEUE_EVENT, PICO_UART_QUEUE_END}" by blast
  then show ?thesis
  proof cases
    case start
    from start_implemented [OF assms(1,2) start, of sdk] start show ?thesis by (simp add: spec_command_def zero_type_defs)
  next
    case ping
    note len = command_ok_ping [OF assms(3) ping]
    have "implements (dispatch_command sdk f w) (spec_say (PICO_UART_PONG, []) s)"
      using frame_says(2) [OF assms(1), of PICO_UART_PONG "Some (fr_payload f)" 0] by (simp add: dispatch_ping [OF ping] len message_body_def)
    with ping show ?thesis
      by (intro exI [of _ "env_metrics (metrics_of (w_sched w))"]) (simp add: spec_command_def zero_type_defs)
  next
    case status
    with status_implemented [OF assms(1)] show ?thesis by (simp add: defs)
  next
    case set
    with op [of "Mode_Set (fr_payload f ! 0)"] show ?thesis by (simp add: defs)
  next
    case abort
    with op [of Play_Abort] show ?thesis by (simp add: defs)
  next
    case queue
    then have "dispatch_command sdk f w = dispatch_queue_command sdk f w" "spec_command env f s = spec_queue env f s" for env
      by (auto simp: defs)
    with queue_command_implemented [OF assms(1,2) queue, of sdk] show ?thesis by simp
  next
    case other
    with err show ?thesis by (simp add: defs)
  qed
qed

section \<open>Every step\<close>

lemma capture_push_contents:
  assumes "kc_inv c"
  shows "kc_contents (snd (pico_keyboard_capture_push t rep len c))
    = kc_contents c @ (if rep \<noteq> None \<and> len = 8 \<and> kc_count c < 16 then [(t, report_of_bytes (the rep))] else [])"
proof (cases "rep = None \<or> len \<noteq> 8 \<or> kc_count c = 16")
  case True
  then show ?thesis by (auto simp: pico_keyboard_capture_push_def Let_def kc_contents_def kc_view_def)
next
  case False
  then obtain bytes where "rep = Some bytes" by auto
  moreover have "kc_count c < 16" using assms False by (simp add: kc_inv_def)
  ultimately show ?thesis using kc_push_view [OF assms] False
    by (simp add: pico_keyboard_capture_push_def Let_def kc_contents_def kc_pair_def)
qed

lemma mounted_implemented:
  assumes "implements w s"
  shows "\<exists>s'. spec_step s (Usb_Host (Mounted dev ins)) s' \<and> implements (host_callback sdk (Mounted dev ins) w) s'"
proof -
  obtain h w1 where m: "tuh_hid_mount_cb sdk dev ins (g_host w) w = (h, w1)" by fastforce
  from mount_effect(1) [OF m] obtain e where "w1 = w\<lparr>hw := e\<rparr>" by blast
  with m have eq: "host_callback sdk (Mounted dev ins) w = w\<lparr>hw := e, g_host := h\<rparr>" by simp
  have key: "sp_keyboard s = keyboard_of (g_host w)" using assms by (simp add: implements_def)
  have "keyboard_of h = keyboard_of (g_host w)
      \<or> (sp_keyboard s = None \<or> sp_keyboard s = Some (dev, ins)) \<and> keyboard_of h = Some (dev, ins)"
    using m by (auto simp: key keyboard_of_def tuh_hid_mount_cb_def request_next_report_def Let_def split_beta split: if_splits)
  then show ?thesis
  proof
    assume "keyboard_of h = keyboard_of (g_host w)"
    with assms have "implements (host_callback sdk (Mounted dev ins) w) s" unfolding eq by (simp add: implements_def wire_sent_def)
    then show ?thesis using spec_unsupported by blast
  next
    assume h: "(sp_keyboard s = None \<or> sp_keyboard s = Some (dev, ins)) \<and> keyboard_of h = Some (dev, ins)"
    with assms have "implements (host_callback sdk (Mounted dev ins) w) (s\<lparr>sp_keyboard := Some (dev, ins)\<rparr>)"
      unfolding eq by (simp add: implements_def wire_sent_def)
    with h show ?thesis using spec_mounted by blast
  qed
qed

lemma unmounted_implemented:
  assumes "implements w s"
  shows "implements (host_callback sdk (Unmounted dev ins) w) (if sp_keyboard s = Some (dev, ins) then s\<lparr>sp_keyboard := None\<rparr> else s)"
proof -
  have "sp_keyboard s = keyboard_of (g_host w)" using assms by (simp add: implements_def)
  with assms show ?thesis
    by (auto simp: implements_def wire_sent_def keyboard_of_def tuh_hid_umount_cb_def is_keyboard_def split: if_splits)
qed

lemma report_implemented:
  assumes "implements w s" "fw_inv w"
  shows "\<exists>env. implements (host_callback sdk (Report_Received dev ins rep len) w) (spec_report env (dev, ins) rep len s)"
proof -
  obtain h c w1 where r: "tuh_hid_report_received_cb sdk dev ins rep len (g_host w) (g_capture w) w = (h, c, w1)"
    using prod_cases3 by blast
  have "kh_mode (g_host w)" "kh_capture (g_host w)" using assms(2) by (simp_all add: fw_inv_def fw_core_def)
  note eff = report_received_effect [OF r this]
  from eff(3) obtain e where "w1 = w\<lparr>hw := e\<rparr>" by blast
  with r have eq: "host_callback sdk (Report_Received dev ins rep len) w = w\<lparr>hw := e, g_capture := c, g_host := h\<rparr>" by simp
  have host: "keyboard_of h = keyboard_of (g_host w)"
    using r by (auto simp: keyboard_of_def tuh_hid_report_received_cb_def request_next_report_def Let_def split_beta split: if_splits)
  have inv: "kc_inv (g_capture w)" and key: "sp_keyboard s = keyboard_of (g_host w)" using assms(1) by (simp_all add: implements_def)
  have is_key: "is_keyboard dev ins (g_host w) \<longleftrightarrow> sp_keyboard s = Some (dev, ins)"
    by (auto simp: key keyboard_of_def is_keyboard_def)
  have len8: "unat len = 8 \<longleftrightarrow> len = 8" by (simp add: word_unat_eq_iff)
  let ?env = "(env_metrics (metrics_of (w_sched w)))\<lparr>en_time := fst (sdk_time_us_64 sdk (hw w))\<rparr>"
  have c: "kc_contents c = sp_input (spec_report ?env (dev, ins) rep len s)" "kc_inv c" "kc_head_recorded c = kc_head_recorded (g_capture w)"
    using assms(1) capture_push_contents [OF inv, of "fst (sdk_time_us_64 sdk (hw w))" rep "unat len"] kc_push_inv [OF inv]
    by (auto simp: eff(1) is_key spec_report_def implements_def mode_defs len8)
  have "implements (host_callback sdk (Report_Received dev ins rep len) w) (spec_report ?env (dev, ins) rep len s)"
    unfolding eq using assms(1) c host by (simp add: implements_def wire_sent_def spec_report_def)
  then show ?thesis by blast
qed

lemma host_implemented:
  assumes "implements w s" "fw_inv w"
  shows "\<exists>s'. spec_step s (Usb_Host ev) s' \<and> implements (host_callback sdk ev w) s'"
proof (cases ev)
  case (Mounted dev ins)
  with mounted_implemented [OF assms(1)] show ?thesis by blast
next
  case (Unmounted dev ins)
  with unmounted_implemented [OF assms(1)] spec_unmounted show ?thesis by blast
next
  case (Report_Received dev ins rep len)
  with report_implemented [OF assms] spec_reported show ?thesis by blast
qed

lemma transport_implemented:
  assumes "implements w s" "ut_inv t" "tx_view t = tx_view (g_transport w)" "drops t = drops (g_transport w)"
  shows "implements (w\<lparr>g_transport := t\<rparr>) s"
  using assms by (simp add: implements_def wire_sent_def)

lemma pop_implemented:
  assumes "implements w s" "fw_inv w" "pico_uart_transport_pop_command (g_transport w) = (Some f, t)"
  shows "implements (w\<lparr>g_transport := t\<rparr>) s"
proof -
  have "t = snd (pico_uart_transport_pop_command (g_transport w))" using assms(3) by simp
  then show ?thesis
    using popped_command_ok(2) [OF assms(2,3)]
    by (intro transport_implemented [OF assms(1)]) (simp_all add: fw_inv_def fw_core_def)
qed

lemma release_implemented:
  assumes "implements w s" "release_step sdk w = (result, w')"
  shows "\<exists>s'. spec_step s (Release result) s' \<and> implements w' s'"
proof -
  note eff = release_step_effect [OF assms(2)]
  have pend: "sp_release s = sr_pending (g_safety w)" using assms(1) by (simp add: implements_def)
  let ?s = "case result of PICO_SAFETY_RELEASE_SENT \<Rightarrow> s\<lparr>sp_release := False, sp_pc := sp_pc s @ [release_bytes]\<rparr> | _ \<Rightarrow> s"
  have "implements w' ?s"
    using assms(1) eff by (cases result) (simp_all add: implements_def wire_sent_def)
  moreover have "spec_step s (Release result) ?s"
    using eff(2,3) pend by (cases result) (auto intro: spec_ready spec_blocked spec_sent)
  ultimately show ?thesis by blast
qed

lemma fault_implemented:
  assumes "implements w s" "fw_inv w"
  shows "\<exists>s'. spec_step s Fault s' \<and> implements (fault_step sdk w) s'"
proof -
  let ?t = "snd (pico_uart_transport_take_fault (g_transport w))"
  have inv: "ut_inv ?t" using assms(1) take_fault_inv by (simp add: implements_def)
  have "tx_view ?t = tx_view (g_transport w)" by (simp add: pico_uart_transport_take_fault_def)
  note w1 = transport_implemented [OF assms(1) inv this drops_take(2)]
  have "fw_inv (w\<lparr>g_transport := ?t\<rparr>)" using assms(2) inv by (intro set_transport_ok)
  then have "fw_modes (w\<lparr>g_transport := ?t\<rparr>)" by (simp add: fw_inv_def)
  from faults_implemented(2) [OF w1 this, of sdk] obtain env where
    "env_ok env" "implements (pico_mode_state_uart_fault (mode_cb sdk) (w\<lparr>g_transport := ?t\<rparr>)) (spec_op env Uart_Fault s)" by blast
  with w1 spec_idle [of Fault s] spec_fault [of env s] show ?thesis
    by (auto simp: fault_step_def Let_def split_beta)
qed

lemma flow_fault_implemented:
  assumes "implements w s" "fw_inv w"
  shows "\<exists>s'. spec_step s Flow_Fault s' \<and> implements (flow_fault_step sdk w) s'"
proof -
  let ?w1 = "w\<lparr>g_flow_fault := False\<rparr>" and ?s1 = "s\<lparr>sp_fault := False\<rparr>"
  have w1: "implements ?w1 ?s1" "fw_modes ?w1"
    using assms by (simp_all add: implements_def wire_sent_def fw_inv_def fw_modes_def)
  from faults_implemented(1) [OF w1, of sdk] obtain env where
    env: "env_ok env" "implements (pico_mode_state_protocol_error (mode_cb sdk) ?w1) (spec_op env Protocol_Error ?s1)" by blast
  have fault: "sp_fault s = g_flow_fault w" using assms(1) by (simp add: implements_def)
  with env(2) assms(1) have "implements (flow_fault_step sdk w) (if sp_fault s then spec_op env Protocol_Error ?s1 else s)"
    by (simp add: flow_fault_step_def)
  with spec_flow_fault [OF env(1), of s] show ?thesis by blast
qed

lemma watchdog_implemented:
  assumes "implements w s" "fw_inv w"
  shows "\<exists>s'. spec_step s Watchdog s' \<and> implements (watchdog_step sdk w) s'"
proof (cases "mode_state w = PICO_UART_MODE_PLAYING \<and> pico_playback_scheduler_watchdog_expired (Some (w_sched (snd (time_us_64 sdk w))))
    (fst (time_us_64 sdk w))")
  case False
  then have "implements (watchdog_step sdk w) s"
    using assms(1) by (auto simp: watchdog_step_def Let_def split_beta pico_mode_state_get_def)
  with spec_idle [of Watchdog s] show ?thesis by blast
next
  case True
  let ?w1 = "snd (time_us_64 sdk w)"
  have "fw_inv ?w1" using assms(2) by (simp add: hw_ok)
  then have w1: "implements ?w1 s" "fw_modes ?w1" using assms(1) by (simp_all add: fw_inv_def)
  from faults_implemented(3) [OF w1, of sdk] obtain env where
    env: "env_ok env" "implements (pico_mode_state_underrun_fault (mode_cb sdk) ?w1) (spec_op env Underrun_Fault s)" by blast
  have "watchdog_step sdk w = pico_mode_state_underrun_fault (mode_cb sdk) ?w1"
    using True by (simp add: watchdog_step_def Let_def split_beta pico_mode_state_get_def)
  moreover have "sp_mode s = PICO_UART_MODE_PLAYING" "sp_starved s"
    using True assms(1) by (auto simp: implements_def pico_playback_scheduler_watchdog_expired_def)
  ultimately show ?thesis using env spec_watchdog [OF env(1)] by metis
qed

lemma transmit_implemented:
  assumes "implements w s" "fw_inv w"
  shows "\<exists>s'. spec_step s Transmit s' \<and> implements (transmit_step sdk w) s'"
proof -
  let ?w = "transmit_step sdk w"
  note eff = transmit_step_effect [OF assms(2), of sdk]
  obtain t v where tx: "tx_loop sdk (g_transport w) w = (t, v)" by fastforce
  have inv: "ut_inv (g_transport w)" using assms(1) by (simp add: implements_def)
  have step: "?w = v\<lparr>g_transport := t\<rparr>" by (simp add: transmit_step_def pico_uart_transport_tx_task_def tx)
  obtain e out where v: "v = w\<lparr>hw := e, uart_out := out\<rparr>" using tx_loop_conserves [OF inv tx] by blast
  have fault: "g_flow_fault ?w = g_flow_fault w" "g_host ?w = g_host w" "drops (g_transport ?w) = drops (g_transport w)"
    using drops_tx_loop [of sdk "g_transport w" w] by (simp_all add: step v tx)
  have shrink: "length (tx_pending ?w) \<le> length (tx_pending w)"
    using tx_loop_conserves [OF inv tx] by (simp add: step)
  let ?s = "s\<lparr>sp_room := 2048 - length (tx_pending ?w)\<rparr>"
  have "ut_inv (g_transport ?w)" using eff(1) by (simp add: fw_inv_def fw_core_def)
  then have "implements ?w ?s"
    using assms(1) eff fault shrink by (simp add: implements_def wire_sent_def)
  moreover have "spec_step s Transmit ?s"
    using assms(1) shrink by (intro spec_transmit) (auto simp: implements_def)
  ultimately show ?thesis by blast
qed

lemma irq_implemented:
  assumes "uart0_irq_handler sdk (Some (g_transport w)) (hw w) = Some (Some t, e)" "implements w s"
  shows "implements (w\<lparr>hw := e, g_transport := t\<rparr>) s"
proof -
  have "ut_inv (g_transport w)" using assms(2) by (simp add: implements_def)
  from irq_handler_keeps(1) [OF assms(1) this] irq_handler_keeps(2) [OF assms(1)] drops_irq [OF assms(1)] assms(2)
  show ?thesis by (simp add: implements_def wire_sent_def)
qed

lemma poll_implemented:
  assumes "implements w s"
  shows "implements (poll_step w) s"
proof -
  have "ut_inv (g_transport w)" using assms by (simp add: implements_def)
  then show ?thesis
    unfolding poll_step_def using tx_view_poll poll_inv by (intro transport_implemented [OF assms]) auto
qed

lemma dispatch_step_implemented:
  assumes "implements w s" "result = PICO_SAFETY_RELEASE_READY \<longrightarrow> \<not> sr_pending (g_safety w)"
  shows "\<exists>s'. spec_step s (Dispatch result) s' \<and> implements (dispatch_step sdk result w) s'"
proof -
  from dispatch_implemented [OF assms(1), of result sdk] obtain s' where s':
    "(input_move (result = PICO_SAFETY_RELEASE_READY))\<^sup>*\<^sup>* s s'" "implements (dispatch_step sdk result w) s'"
    "sp_mode s' = PICO_UART_MODE_RECORD \<and> sp_input s' \<noteq> [] \<longrightarrow> sp_recorded s'" by blast
  have "sp_release s = sr_pending (g_safety w)" using assms(1) by (simp add: implements_def)
  with assms(2) s' have "spec_step s (Dispatch result) s'" by (intro spec_dispatch) auto
  with s'(2) show ?thesis by blast
qed

lemma step_implemented:
  assumes "fw_step sdk w l w'" "fw_inv w" "implements w s"
  shows "\<exists>s'. spec_step s l s' \<and> implements w' s'"
  using assms(1)
proof cases
  case (usb_host ev)
  with host_implemented [OF assms(3,2)] show ?thesis by simp
next
  case (uart_irq t e)
  with irq_implemented [OF uart_irq(3) assms(3)] spec_idle [of Uart_Irq s] show ?thesis by blast
next
  case (hardware e)
  with assms(3) spec_idle [of Hardware s] show ?thesis by auto
next
  case poll
  with poll_implemented [OF assms(3)] spec_idle [of Poll s] show ?thesis by blast
next
  case fault
  with fault_implemented [OF assms(3,2)] show ?thesis by simp
next
  case (command f t)
  note ok = popped_command_ok [OF assms(2) command(3)]
  from command_implemented [OF pop_implemented [OF assms(3,2) command(3)] ok(2,1), of sdk] command show ?thesis by (auto intro: spec_cmd)
next
  case (release result)
  with release_implemented [OF assms(3)] show ?thesis by simp
next
  case (dispatch result)
  with dispatch_step_implemented [OF assms(3), of result sdk] show ?thesis by simp
next
  case playback
  have "ps_running (w_sched w) \<longrightarrow> sp_mode s = PICO_UART_MODE_PLAYING"
    using assms(2,3) by (simp add: implements_def fw_inv_def fw_modes_def)
  from task_implemented [OF playback(2) assms(3) _ this] assms(2) playback(1) show ?thesis
    by (auto simp: fw_inv_def intro: spec_playback)
next
  case flow_fault
  with flow_fault_implemented [OF assms(3,2)] show ?thesis by simp
next
  case watchdog
  with watchdog_implemented [OF assms(3,2)] show ?thesis by simp
next
  case transmit
  with transmit_implemented [OF assms(3,2)] show ?thesis by simp
qed

lemma path_implemented:
  assumes "fw_path sdk w ls w'" "fw_inv w" "implements w s"
  shows "\<exists>s'. spec_path s ls s' \<and> implements w' s'"
  using assms
proof (induction arbitrary: s)
  case (path_Cons u l v ls w)
  from step_implemented [OF path_Cons.hyps(1) path_Cons.prems] obtain t where "spec_step s l t" "implements v t" by blast
  with path_Cons.IH [OF fw_step_inv [OF path_Cons.hyps(1) path_Cons.prems(1)]] show ?case by (meson spec_Cons)
qed auto

section \<open>Runs of the program\<close>

text \<open>A run of the main loop is a path of passes, and every reachable state implements a state of the machine.\<close>

definition pass_labels ::
    "host_event list \<times> nat \<times> nat \<times> uart_frame list \<times> pico_safety_release_result \<Rightarrow> step_label list" where
  "pass_labels = (\<lambda>(evs, i, j, fs, result). iteration_labels evs i j fs result)"

lemma loop_path:
  assumes "main_loop n bd w = Some w'"
  shows "\<exists>passes. length passes = n \<and> fw_path (bd_sdk bd) w (concat (map pass_labels passes)) w'"
  using assms
proof (induction n arbitrary: w)
  case (Suc n)
  from Suc.prems obtain v where v: "main_iteration bd w = Some v" "main_loop n bd v = Some w'"
    by (auto simp: bind_eq_Some_conv)
  from Suc.IH [OF v(2)] obtain passes where
    rest: "length passes = n" "fw_path (bd_sdk bd) v (concat (map pass_labels passes)) w'" by blast
  from iteration_path [OF v(1)] obtain evs i j fs result where
    first: "fw_path (bd_sdk bd) w (iteration_labels evs i j fs result) v" by blast
  from rest fw_path_trans [OF first rest(2)] show ?case
    by (intro exI [of _ "(evs, i, j, fs, result) # passes"]) (simp add: pass_labels_def)
qed simp

lemma loop_implemented:
  assumes "main_loop n bd (main_init e) = Some w"
  shows "\<exists>passes s. length passes = n \<and> spec_path spec_init (concat (map pass_labels passes)) s \<and> implements w s"
proof -
  from loop_path [OF assms] obtain passes where
    passes: "length passes = n" "fw_path (bd_sdk bd) (main_init e) (concat (map pass_labels passes)) w" by blast
  from path_implemented [OF passes(2) main_init_inv implements_init] passes(1) show ?thesis by blast
qed

lemma reachable_implements:
  assumes "fw_reachable sdk w"
  shows "\<exists>s. implements w s"
proof -
  from assms obtain e ls where "fw_path sdk (main_init e) ls w" unfolding fw_reachable_def by blast
  from path_implemented [OF this main_init_inv implements_init] show ?thesis by blast
qed

lemma implements_outputs: "implements w s \<Longrightarrow> hid_out w = sp_pc s \<and> wire_sent w = wire_stream (sp_zero s)"
  by (simp add: implements_def)

end
