(* ===== verification/Firmware_Answers.thy ===== *)
theory Firmware_Answers
  imports Firmware_Refinement
begin

text \<open>
  What the Zero hears of its commands: the messages that answer a command, read off the abstract machine,
  and the credit of the playback queue. By the simulation the program of \<open>pico/src/main.c\<close> sends exactly
  these messages when they fit in the transmit ring.
\<close>

section \<open>Answers\<close>

text \<open>The messages of a turn of the mode machine, of an empty queue, and of a command.\<close>

definition turn_messages :: "bool \<Rightarrow> environment \<Rightarrow> mode_op \<Rightarrow> u8 \<Rightarrow> message list" where
  "turn_messages running env op m =
     (let (k, next_mode, reason, ok) = mode_table op m
      in (if k = Clear_All \<and> running then [(PICO_UART_PLAY_ABORTED, []), (PICO_UART_PLAY_METRICS, en_metrics env)] else [])
         @ [(PICO_UART_MODE_CHANGED, [next_mode, reason])])"

definition op_messages :: "environment \<Rightarrow> mode_op \<Rightarrow> u8 \<Rightarrow> message list" where
  "op_messages env op m = turn_messages (m = PICO_UART_MODE_PLAYING) env op m"

definition start_messages :: "environment \<Rightarrow> spec \<Rightarrow> message list" where
  "start_messages env s =
     (if sp_mode s \<noteq> PICO_UART_MODE_ARMED then [(PICO_UART_MODE_CHANGED, [sp_mode s, PICO_UART_REASON_INVALID_TRANSITION])]
      else [(PICO_UART_MODE_CHANGED, [PICO_UART_MODE_PLAYING, PICO_UART_REASON_OK]), (PICO_UART_PLAY_STARTED, write_u64_le (en_time env))]
        @ (if sp_queue s \<noteq> [] then []
           else if sp_ended s then [(PICO_UART_PLAY_FINISHED, []), (PICO_UART_PLAY_METRICS, en_metrics env),
             (PICO_UART_MODE_CHANGED, [PICO_UART_MODE_ARMED, PICO_UART_REASON_FINISHED])]
           else [(PICO_UART_PLAY_UNDERRUN, write_u64_le (en_elapsed env) @ [lo8 (512 :: u16), hi8 (512 :: u16)])]))"

definition queue_messages :: "environment \<Rightarrow> uart_frame \<Rightarrow> spec \<Rightarrow> message list" where
  "queue_messages env f s =
     (let status = \<lambda>es. [spec_buffer_status (s\<lparr>sp_queue := es\<rparr>)] in
      if \<not> pico_uart_queue_command_allowed (fr_type f) (sp_mode s) then op_messages env Protocol_Error (sp_mode s)
      else if fr_type f = PICO_UART_QUEUE_CLEAR then status []
      else if fr_type f = PICO_UART_QUEUE_EVENT then
        (if length (sp_queue s) < 512
         then status (sp_queue s @ [(read_u64_le (fr_payload f), report_of_bytes (drop 9 (fr_payload f)))])
         else op_messages env Protocol_Error (sp_mode s))
      else (if sp_mode s = PICO_UART_MODE_ARMED then [(PICO_UART_PLAY_READY, [])] else []) @ status (sp_queue s))"

definition command_messages :: "environment \<Rightarrow> uart_frame \<Rightarrow> spec \<Rightarrow> message list" where
  "command_messages env f s =
     (let ty = fr_type f in
      if ty = PICO_UART_MODE_SET then op_messages env (Mode_Set (fr_payload f ! 0)) (sp_mode s)
      else if ty = PICO_UART_PLAY_START then start_messages env s
      else if ty = PICO_UART_PLAY_ABORT then op_messages env Play_Abort (sp_mode s)
      else if ty = PICO_UART_PING then [(PICO_UART_PONG, [])]
      else if ty = PICO_UART_STATUS_REQUEST then [spec_status env s]
      else if ty = PICO_UART_QUEUE_CLEAR \<or> ty = PICO_UART_QUEUE_EVENT \<or> ty = PICO_UART_QUEUE_END then queue_messages env f s
      else op_messages env Protocol_Error (sp_mode s))"

text \<open>\<open>spec_adds n ms s s'\<close>: the messages were said, and at most \<open>n\<close> bytes of room used.\<close>

definition spec_adds :: "nat \<Rightarrow> message list \<Rightarrow> spec \<Rightarrow> spec \<Rightarrow> bool" where
  "spec_adds n ms s s' \<longleftrightarrow> sp_zero s' = sp_zero s @ ms \<and> sp_room s \<le> sp_room s' + n"

lemma adds_say: "7 + length body \<le> n \<Longrightarrow> n \<le> sp_room s \<Longrightarrow> spec_adds n [(ty, body)] s (spec_say (ty, body) s)"
  by (simp add: spec_adds_def spec_say_def spec_fits_def)

lemma adds_trans: "spec_adds n ms s t \<Longrightarrow> spec_adds k ns t u \<Longrightarrow> spec_adds (n + k) (ms @ ns) s u"
  by (simp add: spec_adds_def)

lemma turn_adds:
  assumes "env_ok env" "56 \<le> sp_room s"
  shows "spec_adds 56 (turn_messages running env op (sp_mode s)) s (spec_turn running env op s)"
proof -
  obtain k m reason ok where t: "mode_table op (sp_mode s) = (k, m, reason, ok)" using prod_cases4 by blast
  show ?thesis
    using assms by (cases k; cases running)
      (auto simp: turn_messages_def spec_turn_def t Let_def spec_adds_def spec_say_def spec_fits_def env_ok_def)
qed

lemma op_adds:
  "env_ok env \<Longrightarrow> 56 \<le> sp_room s \<Longrightarrow> spec_adds 56 (op_messages env op (sp_mode s)) s (spec_op env op s)"
  unfolding op_messages_def spec_op_def by (rule turn_adds)

lemma status_adds:
  assumes "12 \<le> sp_room s"
  shows "spec_adds 12 [spec_buffer_status s] s (spec_ack env s)"
  using assms by (auto simp: spec_ack_def spec_adds_def spec_say_def spec_fits_def spec_buffer_status_def Let_def)

lemma finish_adds:
  assumes "env_ok env" "56 \<le> sp_room s" "sp_mode s = PICO_UART_MODE_PLAYING"
  shows "spec_adds 56 [(PICO_UART_PLAY_FINISHED, []), (PICO_UART_PLAY_METRICS, en_metrics env),
    (PICO_UART_MODE_CHANGED, [PICO_UART_MODE_ARMED, PICO_UART_REASON_FINISHED])] s (spec_finish env s)"
  using assms by (auto simp: spec_finish_def spec_turn_def mode_defs Let_def spec_adds_def spec_say_def spec_fits_def env_ok_def)

lemma starve_adds:
  assumes "17 \<le> sp_room s" "\<not> sp_starved s" "sp_queue s = []"
  shows "spec_adds 17 [(PICO_UART_PLAY_UNDERRUN, write_u64_le (en_elapsed env) @ [lo8 (512 :: u16), hi8 (512 :: u16)])] s (spec_starve env s)"
  using assms by (auto simp: spec_starve_def spec_flow_def spec_free_def spec_adds_def spec_say_def spec_fits_def)

lemma start_adds:
  assumes "env_ok env" "80 \<le> sp_room s"
  shows "spec_adds 80 (start_messages env s) s (spec_start env s)"
proof (cases "sp_mode s = PICO_UART_MODE_ARMED")
  case False
  then show ?thesis
    using op_adds [OF assms(1), of s Play_Start] assms(2)
    by (simp add: start_messages_def spec_start_def Let_def op_messages_def turn_messages_def spec_adds_def mode_defs)
next
  case True
  define s1 where "s1 = (spec_say (PICO_UART_PLAY_STARTED, write_u64_le (en_time env)) (spec_op env Play_Start s))\<lparr>sp_starved := False\<rparr>"
  have s1: "spec_adds 24 [(PICO_UART_MODE_CHANGED, [PICO_UART_MODE_PLAYING, PICO_UART_REASON_OK]),
      (PICO_UART_PLAY_STARTED, write_u64_le (en_time env))] s s1"
    using True assms(2) by (auto simp: s1_def spec_op_def spec_turn_def mode_defs Let_def spec_adds_def spec_say_def spec_fits_def)
  have f: "sp_mode s1 = PICO_UART_MODE_PLAYING" "\<not> sp_starved s1" "sp_queue s1 = sp_queue s" "sp_ended s1 = sp_ended s"
    using True by (simp_all add: s1_def spec_op_def spec_turn_def mode_defs Let_def)
  have room: "56 \<le> sp_room s1" using s1 assms(2) by (simp add: spec_adds_def)
  show ?thesis
    using True s1 adds_trans [OF s1 finish_adds [OF assms(1) room f(1)]] starve_adds [of s1 env] f room
    by (auto simp: start_messages_def spec_start_def s1_def [symmetric] spec_empty_def spec_adds_def)
qed

lemma queue_adds:
  assumes "env_ok env" "80 \<le> sp_room s"
  shows "spec_adds 80 (queue_messages env f s) s (spec_queue env f s)"
proof -
  let ?es = "sp_queue s @ [(read_u64_le (fr_payload f), report_of_bytes (drop 9 (fr_payload f)))]"
  let ?s1 = "s\<lparr>sp_ended := True\<rparr>"
  let ?s2 = "if sp_mode s = PICO_UART_MODE_ARMED then spec_say (PICO_UART_PLAY_READY, []) ?s1 else ?s1"
  have "spec_adds 56 (op_messages env Protocol_Error (sp_mode s)) s (spec_op env Protocol_Error s)"
    using assms by (intro op_adds) simp_all
  moreover have "spec_adds 12 [spec_buffer_status (s\<lparr>sp_queue := []\<rparr>)] s
      (spec_ack env (s\<lparr>sp_queue := [], sp_ended := False, sp_starved := False\<rparr>))"
    using status_adds [of "s\<lparr>sp_queue := [], sp_ended := False, sp_starved := False\<rparr>" env] assms(2)
    by (simp add: spec_adds_def spec_buffer_status_def spec_free_def)
  moreover have "spec_adds 12 [spec_buffer_status (s\<lparr>sp_queue := ?es\<rparr>)] s (spec_ack env (s\<lparr>sp_queue := ?es\<rparr>))"
    using status_adds [of "s\<lparr>sp_queue := ?es\<rparr>" env] assms(2) by (simp add: spec_adds_def)
  moreover have "spec_adds 19 ((if sp_mode s = PICO_UART_MODE_ARMED then [(PICO_UART_PLAY_READY, [])] else []) @ [spec_buffer_status s])
      s (spec_ack env ?s2)"
  proof -
    have "spec_adds 7 (if sp_mode s = PICO_UART_MODE_ARMED then [(PICO_UART_PLAY_READY, [])] else []) s ?s2"
      using assms(2) by (simp add: spec_adds_def spec_say_def spec_fits_def)
    moreover have "spec_buffer_status ?s2 = spec_buffer_status s" by (simp add: spec_buffer_status_def spec_free_def)
    ultimately show ?thesis
      using adds_trans [of 7 _ s ?s2 12 "[spec_buffer_status s]" "spec_ack env ?s2"] status_adds [of ?s2 env] assms(2)
      by (simp add: spec_adds_def split: if_splits)
  qed
  ultimately show ?thesis
    by (auto simp: queue_messages_def spec_queue_def spec_adds_def Let_def)
qed

lemma command_adds:
  assumes "env_ok env" "80 \<le> sp_room s"
  shows "spec_adds 80 (command_messages env f s) s (spec_command env f s)"
proof -
  have op: "spec_adds 80 (op_messages env op (sp_mode s)) s (spec_op env op s)" for op
    using op_adds [OF assms(1), of s op] assms(2) by (simp add: spec_adds_def)
  have "spec_adds 80 [(PICO_UART_PONG, [])] s (spec_say (PICO_UART_PONG, []) s)"
    "spec_adds 80 [spec_status env s] s (spec_say (spec_status env s) s)"
    unfolding spec_status_def using assms by (intro adds_say; simp add: env_ok_def)+
  with op start_adds [OF assms] queue_adds [OF assms] show ?thesis
    by (simp add: command_messages_def spec_command_def Let_def)
qed

text \<open>The program sends the messages of the abstract machine.\<close>

lemma implements_wire: "implements w s \<Longrightarrow> wire_sent w = wire_stream (sp_zero s)"
  by (simp add: implements_def)

lemma command_answers:
  assumes "fw_inv w" "command_ok f" "implements w s" "length (tx_pending w) + 80 \<le> 2048"
  shows "\<exists>env. env_ok env \<and> implements (dispatch_command sdk f w) (spec_command env f s)
    \<and> wire_sent (dispatch_command sdk f w) = wire_sent w @ wire_stream (command_messages env f s)"
proof -
  from command_implemented [OF assms(3,1,2), of sdk] obtain env where
    env: "env_ok env" "implements (dispatch_command sdk f w) (spec_command env f s)" by blast
  have "80 \<le> sp_room s" using assms(3,4) by (simp add: implements_def)
  from command_adds [OF env(1) this, of f] implements_wire [OF env(2)] implements_wire [OF assms(3)]
  have "wire_sent (dispatch_command sdk f w) = wire_sent w @ wire_stream (command_messages env f s)"
    by (simp add: spec_adds_def)
  with env show ?thesis by blast
qed

text \<open>The commands that the program takes from its ring, in a reachable state.\<close>

lemma popped_answers:
  assumes "fw_reachable sdk w" "pico_uart_transport_pop_command (g_transport w) = (Some f, t)"
    "length (tx_pending w) + 80 \<le> 2048"
  shows "\<exists>env s. env_ok env \<and> implements w s \<and> implements (dispatch_command sdk f (w\<lparr>g_transport := t\<rparr>)) (spec_command env f s)
    \<and> wire_sent (dispatch_command sdk f (w\<lparr>g_transport := t\<rparr>)) = wire_sent w @ wire_stream (command_messages env f s)"
proof -
  from reachable_implements [OF assms(1)] obtain s where s: "implements w s" by blast
  note inv = reachable_laws(1) [OF assms(1)]
  note ok = popped_command_ok [OF inv assms(2)] and s' = pop_implemented [OF s inv assms(2)]
  have "wire_sent (w\<lparr>g_transport := t\<rparr>) = wire_sent w" using implements_wire [OF s] implements_wire [OF s'] by simp
  moreover have "tx_pending (w\<lparr>g_transport := t\<rparr>) = tx_pending w" using tx_view_pop_command [of "g_transport w"] assms(2) by simp
  ultimately show ?thesis
    using command_answers [OF ok(2,1) s', of sdk] assms(3) s by auto
qed

section \<open>Credit\<close>

text \<open>
  The queue grows by an event at most with each QUEUE_EVENT, and by nothing else. So the free capacity
  that a BUFFER_STATUS reports is a credit: that many events will find room.
\<close>

definition is_event :: "step_label \<Rightarrow> bool" where
  "is_event l \<longleftrightarrow> (case l of Command f \<Rightarrow> fr_type f = PICO_UART_QUEUE_EVENT | _ \<Rightarrow> False)"

definition event_count :: "step_label list \<Rightarrow> nat" where
  "event_count ls = length (filter is_event ls)"

lemma event_count_simps [simp]:
  "event_count [] = 0" "event_count (l # ls) = (if is_event l then 1 else 0) + event_count ls"
  by (simp_all add: event_count_def)

lemma op_queue_length: "length (sp_queue (spec_op env op s)) \<le> length (sp_queue s)"
  by (simp add: spec_op_def spec_turn_def Let_def split: prod.split)

lemma empty_queue_length: "sp_queue s = [] \<Longrightarrow> sp_queue (spec_empty env s) = []"
  by (simp add: spec_empty_def spec_finish_def spec_turn_def spec_starve_def spec_flow_def Let_def split: prod.split)

lemma play_queue_length: "play_move\<^sup>*\<^sup>* s s' \<Longrightarrow> length (sp_queue s') \<le> length (sp_queue s)"
proof (induction rule: rtranclp_induct)
  case (step t u)
  from step(2) have "length (sp_queue u) \<le> length (sp_queue t)"
    by cases (auto simp: spec_flow_def empty_queue_length)
  with step(3) show ?case by simp
qed simp

lemma input_queue_length: "(input_move ready)\<^sup>*\<^sup>* s s' \<Longrightarrow> sp_queue s' = sp_queue s"
proof (induction rule: rtranclp_induct)
  case (step t u)
  from step(2) have "sp_queue u = sp_queue t" by cases auto
  with step(3) show ?case by simp
qed simp

lemma ack_queue_length: "length (sp_queue (spec_ack env s)) \<le> length (sp_queue s)"
  using op_queue_length [of env Protocol_Error "spec_say (spec_buffer_status s) s"] by (simp add: spec_ack_def)

lemma queue_queue_length:
  "length (sp_queue (spec_queue env f s)) \<le> length (sp_queue s) + (if fr_type f = PICO_UART_QUEUE_EVENT then 1 else 0)"
proof -
  let ?s1 = "s\<lparr>sp_ended := True\<rparr>"
  let ?s2 = "if sp_mode s = PICO_UART_MODE_ARMED then spec_say (PICO_UART_PLAY_READY, []) ?s1 else ?s1"
  have "length (sp_queue (spec_ack env ?s2)) \<le> length (sp_queue s)"
    using ack_queue_length [of env ?s2] by (simp split: if_splits)
  moreover have "length (sp_queue (spec_ack env (s\<lparr>sp_queue := sp_queue s @ [x]\<rparr>))) \<le> length (sp_queue s) + 1" for x
    using ack_queue_length [of env "s\<lparr>sp_queue := sp_queue s @ [x]\<rparr>"] by simp
  moreover have "length (sp_queue (spec_ack env (s\<lparr>sp_queue := [], sp_ended := False, sp_starved := False\<rparr>))) \<le> length (sp_queue s)"
    using ack_queue_length [of env "s\<lparr>sp_queue := [], sp_ended := False, sp_starved := False\<rparr>"] by simp
  moreover note op_queue_length [of env Protocol_Error s]
  ultimately show ?thesis by (simp add: spec_queue_def Let_def trans_le_add1)
qed

lemma command_queue_length:
  "length (sp_queue (spec_command env f s)) \<le> length (sp_queue s) + (if fr_type f = PICO_UART_QUEUE_EVENT then 1 else 0)"
proof -
  have start: "length (sp_queue (spec_start env s)) \<le> length (sp_queue s)"
    using op_queue_length [of env Play_Start s] empty_queue_length
    by (cases "sp_queue s = []") (auto simp: spec_start_def Let_def)
  show ?thesis
    using start queue_queue_length [of env f s] op_queue_length [of env "Mode_Set (fr_payload f ! 0)" s]
      op_queue_length [of env Play_Abort s] op_queue_length [of env Protocol_Error s]
    by (auto simp: spec_command_def Let_def zero_type_defs)
qed

lemma step_queue_length:
  assumes "spec_step s l s'"
  shows "length (sp_queue s') \<le> length (sp_queue s) + event_count [l]"
  using assms
proof cases
  case (spec_flow_fault env)
  with op_queue_length [of env Protocol_Error "s\<lparr>sp_fault := False\<rparr>"] show ?thesis by simp
next
  case (spec_fault env)
  with op_queue_length [of env Uart_Fault s] show ?thesis by simp
next
  case (spec_cmd env f)
  with command_queue_length [of env f s] show ?thesis by (simp add: is_event_def)
next
  case (spec_dispatch result)
  with input_queue_length show ?thesis by simp
next
  case spec_playback
  with play_queue_length [of s s'] show ?thesis by simp
next
  case (spec_watchdog env)
  with op_queue_length [of env Underrun_Fault s] show ?thesis by simp
qed (auto simp: spec_report_def)

lemma path_queue_length:
  assumes "spec_path s ls s'"
  shows "length (sp_queue s') \<le> length (sp_queue s) + event_count ls"
  using assms
proof induction
  case (spec_Cons s l t ls u)
  from step_queue_length [OF spec_Cons(1)] spec_Cons(3) show ?case by simp
qed simp

lemma queue_credit:
  assumes "fw_path sdk w ls w'" "fw_inv w" "implements w s"
  shows "pq_count (w_queue w') \<le> pq_count (w_queue w) + event_count ls"
proof -
  from path_implemented [OF assms] obtain s' where "spec_path s ls s'" "implements w' s'" by blast
  with path_queue_length [of s ls s'] assms(3) show ?thesis by (simp add: implements_def)
qed

lemma queue_event_accepted:
  fixes w :: "'e globals" and sdk :: "'e sdk" and off :: u64 and r :: hid_report
  assumes "fw_inv w" "mode_state w = PICO_UART_MODE_ARMED \<or> mode_state w = PICO_UART_MODE_PLAYING"
    "pq_count (w_queue w) < 512" "length (tx_pending w) + 12 \<le> 2048"
  defines "w' \<equiv> dispatch_command sdk (mk_frame PICO_UART_QUEUE_EVENT (event_payload off r)) w"
  shows "pq_contents (w_queue w') = pq_contents (w_queue w) @ [(off, r)]" "mode_state w' = mode_state w"
    "w_sched w' = w_sched w" "hid_out w' = hid_out w"
proof -
  have inv: "pq_inv (w_queue w)" "ut_inv (g_transport w)" using assms(1) by (simp_all add: fw_inv_def fw_core_def)
  let ?w1 = "w\<lparr>w_queue := snd (pq_enqueue (off, r) (w_queue w))\<rparr>"
  have "w' = ack_or_error sdk ?w1"
    using assms(2,3) queue_event_push [OF inv(1), of sdk off r] by (simp add: w'_def dispatch_command_def zero_type_defs)
  moreover have "tx_only_step ?w1 (ack_or_error sdk ?w1)" using inv(2) assms(4) by (intro ack_room) simp_all
  note f = tx_only_step_fields [OF this]
  moreover have "pq_contents (snd (pq_enqueue (off, r) (w_queue w))) = pq_contents (w_queue w) @ [(off, r)]"
    using pqf.push_room [OF inv(1), of "(off, r)"] assms(3) by simp
  ultimately show "pq_contents (w_queue w') = pq_contents (w_queue w) @ [(off, r)]" "mode_state w' = mode_state w"
    "w_sched w' = w_sched w" "hid_out w' = hid_out w" by simp_all
qed

text \<open>Without room for the acknowledgement the event is not kept: the program enters a safe ERROR.\<close>

lemma send_buffer_status_no_room:
  assumes "2048 < length (tx_pending w) + 12"
  shows "\<not> fst (send_buffer_status w)"
proof -
  have "pico_uart_encode_frame PICO_UART_BUFFER_STATUS (Some body) 5 True 71 = Some (wire_frame PICO_UART_BUFFER_STATUS body)"
    if "length body = 5" for body
    using encode_frame_Some [of body PICO_UART_BUFFER_STATUS 71] known_types(5) that by simp
  with assms show ?thesis
    by (simp add: send_buffer_status_def Let_def tx_frame_def split_beta pico_uart_transport_queue_frame_def tx_view_def ring_used_def)
qed

lemma queue_event_not_acknowledged:
  fixes w :: "'e globals" and sdk :: "'e sdk" and off :: u64 and r :: hid_report
  assumes "fw_inv w" "mode_state w = PICO_UART_MODE_ARMED \<or> mode_state w = PICO_UART_MODE_PLAYING"
    "pq_count (w_queue w) < 512" "2048 < length (tx_pending w) + 12"
  shows "safe_error (dispatch_command sdk (mk_frame PICO_UART_QUEUE_EVENT (event_payload off r)) w)"
proof -
  have inv: "pq_inv (w_queue w)" using assms(1) by (simp add: fw_inv_def fw_core_def)
  let ?w1 = "w\<lparr>w_queue := snd (pq_enqueue (off, r) (w_queue w))\<rparr>"
  let ?w2 = "snd (send_buffer_status ?w1)"
  have "dispatch_command sdk (mk_frame PICO_UART_QUEUE_EVENT (event_payload off r)) w = ack_or_error sdk ?w1"
    using assms(2,3) queue_event_push [OF inv, of sdk off r] by (simp add: dispatch_command_def zero_type_defs)
  moreover have "\<not> fst (send_buffer_status ?w1)" using assms(4) by (intro send_buffer_status_no_room) simp
  ultimately have "dispatch_command sdk (mk_frame PICO_UART_QUEUE_EVENT (event_payload off r)) w = pico_mode_state_protocol_error (mode_cb sdk) ?w2"
    by (simp add: ack_or_error_def Let_def split_beta)
  moreover have "mode_state ?w2 = mode_state w" by simp
  then have "safe_error (pico_mode_state_protocol_error (mode_cb sdk) ?w2)"
    using assms(2) by (intro error_is_safe [of ?w2] protocol_error_effect(1)) (auto simp: mode_defs)
  ultimately show ?thesis by simp
qed

lemma credited_event:
  fixes w :: "'e globals" and sdk :: "'e sdk"
  assumes "fw_reachable sdk w" "fw_path sdk w ls w1" "pq_count (w_queue w) + event_count ls < 512"
  shows "fw_inv w1" "pq_count (w_queue w1) < 512"
proof -
  from reachable_implements [OF assms(1)] obtain s where s: "implements w s" by blast
  show "fw_inv w1" using reachable_laws(1) [OF reachable_path [OF assms(1,2)]] .
  show "pq_count (w_queue w1) < 512"
    using queue_credit [OF assms(2) reachable_laws(1) [OF assms(1)] s] assms(3) by simp
qed

end
