(* ===== verification/Firmware_Typing.thy ===== *)
theory Firmware_Typing
  imports Firmware_Refinement
begin

text \<open>
  What is typed in PASS and RECORD, from the USB callback of the keyboard to the PC and the Zero, over
  whole paths of the program. The argument is about the abstract machine of \<open>Firmware_Spec\<close>; the
  refinement carries it to the program.
\<close>

section \<open>What is typed\<close>

definition typed :: "step_label \<Rightarrow> hid_report list" where
  "typed l = (case l of Usb_Host (Report_Received dev ins (Some bytes) len) \<Rightarrow> if len = 8 then [report_of_bytes bytes] else []
     | _ \<Rightarrow> [])"

text \<open>All reports come from the keyboard \<open>who\<close>, and it stays plugged in.\<close>

definition from_keyboard :: "u8 \<times> u8 \<Rightarrow> step_label \<Rightarrow> bool" where
  "from_keyboard who l = (case l of Usb_Host (Report_Received dev ins bytes len) \<Rightarrow> (dev, ins) = who
     | Usb_Host (Unmounted dev ins) \<Rightarrow> (dev, ins) \<noteq> who | _ \<Rightarrow> True)"

definition sets_mode :: "step_label \<Rightarrow> bool" where
  "sets_mode l \<longleftrightarrow> (\<exists>f. l = Command f \<and> fr_type f = PICO_UART_MODE_SET)"

abbreviation typing :: "u8 \<Rightarrow> bool" where
  "typing mode \<equiv> mode = PICO_UART_MODE_PASS \<or> mode = PICO_UART_MODE_RECORD"

section \<open>The law of a path\<close>

definition reports_of :: "(u64 \<times> hid_report) list \<Rightarrow> u8 list list" where
  "reports_of = map (\<lambda>x. report_bytes (snd x))"

definition record_events :: "message list \<Rightarrow> message list" where
  "record_events = filter (\<lambda>m. fst m = PICO_UART_RECORD_EVENT)"

definition to_record :: "bool \<Rightarrow> 'a list \<Rightarrow> 'a list" where
  "to_record head_done xs = (if head_done then tl xs else xs)"

lemma list_simps [simp]:
  "reports_of [] = []" "reports_of (x # xs) = report_bytes (snd x) # reports_of xs"
  "reports_of (xs @ ys) = reports_of xs @ reports_of ys" "record_events [] = []"
  "record_events (ms @ ms') = record_events ms @ record_events ms'"
  "record_events (m # ms) = (if fst m = PICO_UART_RECORD_EVENT then m # record_events ms else record_events ms)"
  by (simp_all add: reports_of_def record_events_def)

text \<open>
  \<open>typed_law cap s s'\<close>: between the two states the events \<open>cap\<close> were captured. What the PC got followed by
  what it will get grew by their reports; in RECORD the events dealt with were recorded in order, all of
  them if no message was dropped.
\<close>

definition typed_law :: "(u64 \<times> hid_report) list \<Rightarrow> spec \<Rightarrow> spec \<Rightarrow> bool" where
  "typed_law cap s s' \<longleftrightarrow> sp_mode s' = sp_mode s \<and> sp_release s' = sp_release s \<and> sp_keyboard s' = sp_keyboard s
     \<and> sp_pc s' @ reports_of (sp_input s') = sp_pc s @ reports_of (sp_input s @ cap)
     \<and> sp_dropped s \<le> sp_dropped s' \<and> length (sp_input s') \<le> length (sp_input s) + length cap
     \<and> (sp_mode s = PICO_UART_MODE_RECORD \<longrightarrow>
          (\<exists>seen recd. seen @ to_record (sp_recorded s') (sp_input s') = to_record (sp_recorded s) (sp_input s) @ cap
             \<and> record_events (sp_zero s') = record_events (sp_zero s) @ map record_of recd
             \<and> subseq recd seen \<and> (sp_dropped s' = sp_dropped s \<longrightarrow> recd = seen)))"

lemma typed_law_refl [simp]: "typed_law [] s s"
  by (simp add: typed_law_def)

lemma typed_law_trans:
  assumes "typed_law cap s t" "typed_law cap' t u"
  shows "typed_law (cap @ cap') s u"
proof -
  have "\<exists>seen recd. seen @ to_record (sp_recorded u) (sp_input u) = to_record (sp_recorded s) (sp_input s) @ cap @ cap'
      \<and> record_events (sp_zero u) = record_events (sp_zero s) @ map record_of recd
      \<and> subseq recd seen \<and> (sp_dropped u = sp_dropped s \<longrightarrow> recd = seen)" if mode: "sp_mode s = PICO_UART_MODE_RECORD"
  proof -
    from assms(1) mode obtain seen recd where 1: "seen @ to_record (sp_recorded t) (sp_input t) = to_record (sp_recorded s) (sp_input s) @ cap"
      "record_events (sp_zero t) = record_events (sp_zero s) @ map record_of recd"
      "subseq recd seen" "sp_dropped t = sp_dropped s \<longrightarrow> recd = seen" unfolding typed_law_def by blast
    from assms mode obtain seen' recd' where 2: "seen' @ to_record (sp_recorded u) (sp_input u) = to_record (sp_recorded t) (sp_input t) @ cap'"
      "record_events (sp_zero u) = record_events (sp_zero t) @ map record_of recd'"
      "subseq recd' seen'" "sp_dropped u = sp_dropped t \<longrightarrow> recd' = seen'" unfolding typed_law_def by metis
    have "sp_dropped s \<le> sp_dropped t" "sp_dropped t \<le> sp_dropped u" using assms by (simp_all add: typed_law_def)
    moreover have "(seen @ seen') @ to_record (sp_recorded u) (sp_input u) = to_record (sp_recorded s) (sp_input s) @ cap @ cap'"
      using 1(1) 2(1) by (metis append.assoc)
    moreover have "record_events (sp_zero u) = record_events (sp_zero s) @ map record_of (recd @ recd')" using 1(2) 2(2) by simp
    moreover have "subseq (recd @ recd') (seen @ seen')" using 1(3) 2(3) by (rule list_emb_append_mono)
    ultimately show ?thesis using 1(4) 2(4) by (intro exI [of _ "seen @ seen'"] exI [of _ "recd @ recd'"]) auto
  qed
  with assms show ?thesis unfolding typed_law_def by auto
qed

text \<open>Steps that are not about input.\<close>

definition same_input :: "spec \<Rightarrow> spec \<Rightarrow> bool" where
  "same_input s s' \<longleftrightarrow> sp_release s' = sp_release s \<and> sp_keyboard s' = sp_keyboard s
     \<and> sp_pc s' = sp_pc s \<and> sp_input s' = sp_input s \<and> sp_recorded s' = sp_recorded s
     \<and> record_events (sp_zero s') = record_events (sp_zero s) \<and> sp_dropped s \<le> sp_dropped s'"

lemma same_input_law: "same_input s s' \<Longrightarrow> sp_mode s' = sp_mode s \<Longrightarrow> typed_law [] s s'"
  by (auto simp: same_input_def typed_law_def intro!: exI [of _ "[]"])

lemma say_same: "fst m \<noteq> PICO_UART_RECORD_EVENT \<Longrightarrow> same_input s (spec_say m s)"
  by (simp add: same_input_def spec_say_def)

lemma op_same:
  assumes "typing (sp_mode s)" "\<And>m. op \<noteq> Mode_Set m" "sp_mode (spec_op env op s) = sp_mode s"
  shows "same_input s (spec_op env op s)"
proof -
  obtain k m reason ok where t: "mode_table op (sp_mode s) = (k, m, reason, ok)" using prod_cases4 by blast
  have run: "sp_mode s \<noteq> PICO_UART_MODE_PLAYING" using assms(1) by (auto simp: mode_defs)
  have "k = Keep"
  proof (rule ccontr)
    assume k: "k \<noteq> Keep"
    with assms(3) run have "m = sp_mode s" by (simp add: spec_op_def spec_turn_def t Let_def)
    with t k assms(1,2) show False by (cases op) (auto simp: mode_defs split: if_splits)
  qed
  moreover have "same_input s (spec_say (PICO_UART_MODE_CHANGED, [m, reason]) s)"
    by (intro say_same) (simp add: pico_constants)
  ultimately show ?thesis using run by (simp add: spec_op_def spec_turn_def t Let_def)
qed

lemma command_same:
  assumes "typing (sp_mode s)" "fr_type f \<noteq> PICO_UART_MODE_SET" "sp_mode (spec_command env f s) = sp_mode s"
  shows "same_input s (spec_command env f s)"
proof -
  have mode: "sp_mode s \<noteq> PICO_UART_MODE_ARMED" "sp_mode s \<noteq> PICO_UART_MODE_PLAYING" using assms(1) by (auto simp: mode_defs)
  then have queue: "spec_queue env f s = spec_op env Protocol_Error s"
    by (simp add: spec_queue_def pico_uart_queue_command_allowed_def)
  have op: "same_input s (spec_command env f s)" if "spec_command env f s = spec_op env op s" "\<And>m. op \<noteq> Mode_Set m" for op
    using op_same [OF assms(1) that(2), of env] that(1) assms(3) by simp
  consider (start) "fr_type f = PICO_UART_PLAY_START" | (abort) "fr_type f = PICO_UART_PLAY_ABORT"
    | (ping) "fr_type f = PICO_UART_PING" | (status) "fr_type f = PICO_UART_STATUS_REQUEST"
    | (other) "fr_type f \<noteq> PICO_UART_PLAY_START" "fr_type f \<noteq> PICO_UART_PLAY_ABORT" "fr_type f \<noteq> PICO_UART_PING"
        "fr_type f \<noteq> PICO_UART_STATUS_REQUEST" by blast
  then show ?thesis
  proof cases
    case start
    then have "spec_command env f s = spec_op env Play_Start s"
      using mode(1) by (simp add: spec_command_def spec_start_def Let_def zero_type_defs)
    from op [OF this] show ?thesis by simp
  next
    case abort
    then have "spec_command env f s = spec_op env Play_Abort s" by (simp add: spec_command_def zero_type_defs)
    from op [OF this] show ?thesis by simp
  next
    case ping
    then have "spec_command env f s = spec_say (PICO_UART_PONG, []) s" by (simp add: spec_command_def zero_type_defs)
    then show ?thesis by (simp add: say_same pico_constants)
  next
    case status
    then have "spec_command env f s = spec_say (spec_status env s) s" by (simp add: spec_command_def zero_type_defs)
    then show ?thesis by (simp add: say_same spec_status_def pico_constants)
  next
    case other
    with assms(2) queue have "spec_command env f s = spec_op env Protocol_Error s" by (simp add: spec_command_def Let_def)
    from op [OF this] show ?thesis by simp
  qed
qed

section \<open>Steps\<close>

lemma input_move_law:
  assumes "input_move ready s s'" "sp_recorded s \<longrightarrow> sp_input s \<noteq> []"
  shows "typed_law [] s s' \<and> (sp_recorded s' \<longrightarrow> sp_input s' \<noteq> [])"
  using assms
proof cases
  case (input_record x xs)
  then have "typed_law [] s s'"
    by (auto simp: typed_law_def spec_say_def record_of_def to_record_def pico_constants intro!: exI [of _ "[x]"])
  with input_record show ?thesis by simp
next
  case (input_forward x xs)
  then show ?thesis by (auto simp: typed_law_def to_record_def mode_defs)
qed

lemma input_moves_law:
  assumes "(input_move ready)\<^sup>*\<^sup>* s s'" "sp_recorded s \<longrightarrow> sp_input s \<noteq> []"
  shows "typed_law [] s s' \<and> (sp_recorded s' \<longrightarrow> sp_input s' \<noteq> [])"
  using assms
proof (induction rule: rtranclp_induct)
  case (step t u)
  from input_move_law [OF step(2)] step(3) [OF step(4)] typed_law_trans [of "[]" s t "[]" u] show ?case by simp
qed simp

lemma report_law:
  assumes "typing (sp_mode s)" "sp_keyboard s = Some who" "sp_recorded s \<longrightarrow> sp_input s \<noteq> []"
  shows "\<exists>cap. typed_law cap s (spec_report env who bytes len s)
    \<and> map snd cap = (if length (sp_input s) < 16 \<and> bytes \<noteq> None \<and> len = 8 then [report_of_bytes (the bytes)] else [])"
proof (cases "length (sp_input s) < 16 \<and> bytes \<noteq> None \<and> len = 8")
  case True
  let ?x = "(en_time env, report_of_bytes (the bytes))"
  from assms True have "spec_report env who bytes len s = s\<lparr>sp_input := sp_input s @ [?x]\<rparr>" by (simp add: spec_report_def)
  moreover have "typed_law [?x] s (s\<lparr>sp_input := sp_input s @ [?x]\<rparr>)"
    using assms(3) by (auto simp: typed_law_def to_record_def intro!: exI [of _ "[]"])
  ultimately show ?thesis using True by (intro exI [of _ "[?x]"]) simp
next
  case False
  then have "spec_report env who bytes len s = s" by (auto simp: spec_report_def)
  with False show ?thesis by (intro exI [of _ "[]"]) auto
qed

lemma typing_host_step:
  assumes "spec_step s (Usb_Host ev) s'" "typing (sp_mode s)" "sp_keyboard s = Some who" "from_keyboard who (Usb_Host ev)"
    "sp_recorded s \<longrightarrow> sp_input s \<noteq> []"
  shows "\<exists>cap. typed_law cap s s' \<and> map snd cap = (if length (sp_input s) < 16 then typed (Usb_Host ev) else [])"
  using assms(1)
proof cases
  case (spec_unsupported dev ins)
  then show ?thesis by (intro exI [of _ "[]"]) (simp add: typed_def)
next
  case (spec_mounted dev ins)
  with assms(3) have "s' = s" by auto
  with spec_mounted show ?thesis by (intro exI [of _ "[]"]) (simp add: typed_def)
next
  case (spec_unmounted dev ins)
  with assms(3,4) have "s' = s" by (auto simp: from_keyboard_def)
  with spec_unmounted show ?thesis by (intro exI [of _ "[]"]) (simp add: typed_def)
next
  case (spec_reported dev ins rep len env)
  with assms(4) have "who = (dev, ins)" by (simp add: from_keyboard_def)
  with report_law [OF assms(2,3,5), of env rep len] spec_reported show ?thesis
    by (cases rep) (auto simp: typed_def)
qed auto

text \<open>Outside PLAYING the playback task does nothing; a flow fault turns the mode, which is excluded here.\<close>

lemma not_playing_stays:
  assumes "play_move\<^sup>*\<^sup>* s s'" "sp_mode s \<noteq> PICO_UART_MODE_PLAYING"
  shows "s' = s"
  using assms(1)
proof (cases rule: converse_rtranclpE)
  case (step t)
  from step(1) assms(2) show ?thesis by cases auto
qed simp

lemma flow_fault_same:
  assumes "spec_step s Flow_Fault s'" "typing (sp_mode s)" "sp_mode s' = sp_mode s"
  shows "same_input s s'"
  using assms(1)
proof cases
  case (spec_flow_fault env)
  show ?thesis
  proof (cases "sp_fault s")
    case True
    then have "same_input (s\<lparr>sp_fault := False\<rparr>) s'"
      using spec_flow_fault assms(2,3) op_same [of "s\<lparr>sp_fault := False\<rparr>" Protocol_Error env] by simp
    then show ?thesis by (simp add: same_input_def)
  qed (use spec_flow_fault in \<open>simp add: same_input_def\<close>)
qed (simp add: same_input_def)

lemma typing_step:
  assumes "spec_step s l s'" "typing (sp_mode s)" "sp_mode s' = sp_mode s" "\<not> sets_mode l" "\<not> sp_release s"
    "sp_keyboard s = Some who" "from_keyboard who l" "sp_recorded s \<longrightarrow> sp_input s \<noteq> []"
  shows "\<exists>cap. typed_law cap s s' \<and> map snd cap = (if length (sp_input s) < 16 then typed l else [])"
proof -
  have mode: "sp_mode s \<noteq> PICO_UART_MODE_PLAYING" using assms(2) by (auto simp: mode_defs)
  have none: ?thesis if "typed_law [] s s'" "typed l = []" using that by (intro exI [of _ "[]"]) simp
  note same = same_input_law [OF _ assms(3)]
  have host: ?thesis if "l = Usb_Host ev" for ev
    using typing_host_step [of s ev s' who] assms(1,2,6-8) unfolding that by blast
  show ?thesis
    using assms(1)
  proof cases
    case spec_idle
    then show ?thesis by (intro none) (auto simp: typed_def)
  next
    case (spec_fault env)
    with op_same [OF assms(2), of Uart_Fault env] assms(3) show ?thesis by (intro none same) (auto simp: typed_def)
  next
    case (spec_cmd env f)
    with command_same [OF assms(2), of f env] assms(3,4) show ?thesis
      by (intro none same) (auto simp: typed_def sets_mode_def)
  next
    case (spec_dispatch result)
    with input_moves_law [OF spec_dispatch(2) assms(8)] show ?thesis by (intro none) (auto simp: typed_def)
  next
    case spec_playback
    with not_playing_stays [OF spec_playback(2) mode] show ?thesis by (intro none) (auto simp: typed_def)
  next
    case (spec_flow_fault env)
    with flow_fault_same assms(1-3) show ?thesis by (intro none same) (auto simp: typed_def)
  next
    case (spec_transmit n)
    then show ?thesis by (intro none same) (auto simp: typed_def same_input_def)
  next
    case spec_ready
    then show ?thesis by (intro none) (auto simp: typed_def)
  qed (use assms(5) mode host in blast)+
qed

section \<open>Paths\<close>

lemma not_typing_path:
  assumes "fw_path sdk w ls w'" "fw_inv w" "\<forall>l \<in> set ls. \<not> sets_mode l" "mode_state w \<noteq> m" "typing m"
  shows "mode_state w' \<noteq> m"
proof -
  have step: "fw_inv v \<and> mode_state v \<noteq> m"
    if "fw_step sdk u l v" "fw_inv u \<and> mode_state u \<noteq> m" "\<not> sets_mode l" for u l v
    using step_takes_edge [OF that(1)] fw_step_inv [OF that(1)] that(2,3) assms(5)
    by (cases l) (auto simp: sets_mode_def mode_defs split: if_splits)
  have "fw_inv w' \<and> mode_state w' \<noteq> m"
    by (rule fw_path_induct [OF assms(1) _ assms(3), where P = "\<lambda>u. fw_inv u \<and> mode_state u \<noteq> m"])
      (use assms(2,4) step in auto)
  then show ?thesis by simp
qed

lemma implements_recorded: "implements w s \<Longrightarrow> sp_recorded s \<longrightarrow> sp_input s \<noteq> []"
  by (auto simp: implements_def kc_inv_def)

lemma typing_path:
  assumes "fw_path sdk w ls w'" "fw_inv w" "implements w s" "typing (mode_state w)" "mode_state w' = mode_state w"
    "\<forall>l \<in> set ls. \<not> sets_mode l" "\<not> sr_pending (g_safety w)" "sp_keyboard s = Some who" "\<forall>l \<in> set ls. from_keyboard who l"
  shows "\<exists>s' cap. implements w' s' \<and> typed_law cap s s' \<and> subseq (map snd cap) (concat (map typed ls))
    \<and> (length (sp_input s) + length (concat (map typed ls)) \<le> 16 \<longrightarrow> map snd cap = concat (map typed ls))"
  using assms
proof (induction arbitrary: s)
  case (path_Nil w)
  then show ?case by (intro exI [of _ s] exI [of _ "[]"]) simp
next
  case (path_Cons u l v ls w)
  note prems = path_Cons.prems
  have inv: "fw_inv v" using fw_step_inv [OF path_Cons.hyps(1) prems(1)] .
  have mode: "mode_state v = mode_state u"
    using not_typing_path [OF path_Cons.hyps(2) inv, of "mode_state u"] prems by auto
  from step_implemented [OF path_Cons.hyps(1) prems(1,2)] obtain t where t: "spec_step s l t" "implements v t" by blast
  have modes: "sp_mode s = mode_state u" "sp_mode t = mode_state v" "sp_release s = sr_pending (g_safety u)"
    "sp_release t = sr_pending (g_safety v)" using prems(2) t(2) by (simp_all add: implements_def)
  obtain cap where cap: "typed_law cap s t" "map snd cap = (if length (sp_input s) < 16 then typed l else [])"
    using typing_step [OF t(1), of who] prems mode modes implements_recorded [OF prems(2)] by auto
  have t': "\<not> sr_pending (g_safety v)" "sp_keyboard t = Some who" "length (sp_input t) \<le> length (sp_input s) + length cap"
    using cap(1) modes prems(6,7) by (simp_all add: typed_law_def)
  have rest: "typing (mode_state v)" "mode_state w = mode_state v" "\<forall>l \<in> set ls. \<not> sets_mode l" "\<forall>l \<in> set ls. from_keyboard who l"
    using prems mode by auto
  from path_Cons.IH [OF inv t(2) rest(1,2,3) t'(1,2) rest(4)] obtain s' cap' where
    next': "implements w s'" "typed_law cap' t s'" "subseq (map snd cap') (concat (map typed ls))"
      "length (sp_input t) + length (concat (map typed ls)) \<le> 16 \<longrightarrow> map snd cap' = concat (map typed ls)" by blast
  have "subseq (map snd cap) (typed l)" using cap(2) by simp
  then have sub: "subseq (map snd (cap @ cap')) (concat (map typed (l # ls)))"
    using next'(3) by (simp add: list_emb_append_mono)
  have "length cap \<le> length (typed l)" using arg_cong [OF cap(2), of length] by (simp split: if_splits)
  moreover have "typed l = [] \<or> length (typed l) = 1"
    by (auto simp: typed_def split: step_label.split host_event.split option.split)
  ultimately have "length (sp_input s) + length (concat (map typed (l # ls))) \<le> 16 \<longrightarrow> map snd (cap @ cap') = concat (map typed (l # ls))"
    using cap(2) next'(4) t'(3) by auto
  with sub next'(1) typed_law_trans [OF cap(1) next'(2)] show ?case by blast
qed

text \<open>The same of the program.\<close>

lemma reachable_typing:
  assumes "fw_reachable sdk w" "fw_path sdk w ls w'" "typing (mode_state w)" "mode_state w' = mode_state w"
    "\<forall>l \<in> set ls. \<not> sets_mode l" "\<not> sr_pending (g_safety w)" "is_keyboard dev ins (g_host w)"
    "\<forall>l \<in> set ls. from_keyboard (dev, ins) l"
  obtains s s' cap where "implements w s" "implements w' s'" "typed_law cap s s'" "subseq (map snd cap) (concat (map typed ls))"
    "kc_count (g_capture w) + length (concat (map typed ls)) \<le> 16 \<longrightarrow> map snd cap = concat (map typed ls)"
proof -
  from reachable_implements [OF assms(1)] obtain s where s: "implements w s" by blast
  then have "sp_keyboard s = Some (dev, ins)" "length (sp_input s) = kc_count (g_capture w)"
    using assms(7) by (auto simp: implements_def keyboard_of_def is_keyboard_def)
  with typing_path [OF assms(2) reachable_laws(1) [OF assms(1)] s assms(3-6) _ assms(8)] s that show thesis by metis
qed

lemma typed_conserved:
  assumes "implements w s" "implements w' s'" "typed_law cap s s'"
  shows "hid_out w' @ reports_of (kc_contents (g_capture w'))
    = hid_out w @ reports_of (kc_contents (g_capture w)) @ map report_bytes (map snd cap)"
  using assms unfolding implements_def typed_law_def by (simp add: reports_of_def comp_def)

lemma recorded_or_dropped:
  assumes "implements w s" "implements w' s'" "typed_law cap s s'" "mode_state w = PICO_UART_MODE_RECORD"
  shows "\<exists>ms ms' seen recd n. list_all pico_message ms' \<and> wire_sent w = wire_stream ms \<and> wire_sent w' = wire_stream ms'
    \<and> record_events ms' = record_events ms @ map record_of recd
    \<and> seen @ to_record (kc_head_recorded (g_capture w')) (kc_contents (g_capture w'))
        = to_record (kc_head_recorded (g_capture w)) (kc_contents (g_capture w)) @ cap
    \<and> subseq recd seen \<and> drops (g_transport w') = drops (g_transport w) + of_nat n \<and> (n = 0 \<longrightarrow> recd = seen)"
proof -
  have "sp_mode s = PICO_UART_MODE_RECORD" using assms(1,4) by (simp add: implements_def)
  with assms(3) obtain seen recd where law: "seen @ to_record (sp_recorded s') (sp_input s') = to_record (sp_recorded s) (sp_input s) @ cap"
    "record_events (sp_zero s') = record_events (sp_zero s) @ map record_of recd" "subseq recd seen"
    "sp_dropped s' = sp_dropped s \<longrightarrow> recd = seen" "sp_dropped s \<le> sp_dropped s'" unfolding typed_law_def by blast
  define n where "n = sp_dropped s' - sp_dropped s"
  have "sp_dropped s' = sp_dropped s + n" using law(5) by (simp add: n_def)
  moreover have "of_nat (sp_dropped s) = drops (g_transport w)" "of_nat (sp_dropped s') = drops (g_transport w')"
    using assms(1,2) by (simp_all add: implements_def)
  ultimately have "drops (g_transport w') = drops (g_transport w) + of_nat n" "n = 0 \<longrightarrow> recd = seen"
    using law(4) by (metis of_nat_add, simp)
  moreover have "wire_sent w = wire_stream (sp_zero s)" "wire_sent w' = wire_stream (sp_zero s')" "list_all pico_message (sp_zero s')"
    "sp_recorded s = kc_head_recorded (g_capture w)" "sp_input s = kc_contents (g_capture w)"
    "sp_recorded s' = kc_head_recorded (g_capture w')" "sp_input s' = kc_contents (g_capture w')"
    using assms(1,2) unfolding implements_def by simp_all
  ultimately show ?thesis using law(1-3)
    by (intro exI [of _ "sp_zero s"] exI [of _ "sp_zero s'"] exI [of _ seen] exI [of _ recd] exI [of _ n]) simp
qed

end
