(* ===== verification/Firmware_Startup.thy ===== *)
theory Firmware_Startup
  imports Firmware_Reach
begin

text \<open>
  The start of the program: \<open>pico/include/hardware_config.h\<close>, \<open>pico_uart_transport_hw_init\<close> of
  \<open>pico/src/uart_transport_pico.c\<close> and the part of \<open>main\<close> in \<open>pico/src/main.c\<close> before its loop. The calls
  that set up hardware are data (\<open>boot_call\<close>), and what the hardware makes of them is a parameter, so
  the order of the calls can be stated. A failed start is a value: the message of the panic and the
  hardware state it left.
\<close>

section \<open>The hardware contract\<close>

definition PICO_KEYBOARD_UART_TX_GPIO :: nat where "PICO_KEYBOARD_UART_TX_GPIO = 0"
definition PICO_KEYBOARD_UART_RX_GPIO :: nat where "PICO_KEYBOARD_UART_RX_GPIO = 1"
definition PICO_KEYBOARD_PIO_USB_DP_GPIO :: nat where "PICO_KEYBOARD_PIO_USB_DP_GPIO = 12"
definition PICO_KEYBOARD_PIO_USB_DM_GPIO :: nat where "PICO_KEYBOARD_PIO_USB_DM_GPIO = 13"
definition PICO_KEYBOARD_NATIVE_DEVICE_RHPORT :: nat where "PICO_KEYBOARD_NATIVE_DEVICE_RHPORT = 0"
definition PICO_KEYBOARD_PIO_HOST_RHPORT :: nat where "PICO_KEYBOARD_PIO_HOST_RHPORT = 1"
definition PICO_KEYBOARD_RP2350A_GPIO_COUNT :: nat where "PICO_KEYBOARD_RP2350A_GPIO_COUNT = 30"
definition PICO_KEYBOARD_UART_BAUD :: nat where "PICO_KEYBOARD_UART_BAUD = 921600"

lemmas hardware_defs = PICO_KEYBOARD_UART_TX_GPIO_def PICO_KEYBOARD_UART_RX_GPIO_def
  PICO_KEYBOARD_PIO_USB_DP_GPIO_def PICO_KEYBOARD_PIO_USB_DM_GPIO_def PICO_KEYBOARD_NATIVE_DEVICE_RHPORT_def
  PICO_KEYBOARD_PIO_HOST_RHPORT_def PICO_KEYBOARD_RP2350A_GPIO_COUNT_def PICO_KEYBOARD_UART_BAUD_def

text \<open>The static assertions that depend on nothing outside the repository.\<close>

definition static_assertions :: "bool list" where
  "static_assertions =
     [PICO_KEYBOARD_PIO_USB_DM_GPIO = PICO_KEYBOARD_PIO_USB_DP_GPIO + 1,
      PICO_KEYBOARD_UART_TX_GPIO < PICO_KEYBOARD_RP2350A_GPIO_COUNT
        \<and> PICO_KEYBOARD_UART_RX_GPIO < PICO_KEYBOARD_RP2350A_GPIO_COUNT,
      PICO_KEYBOARD_PIO_USB_DP_GPIO < PICO_KEYBOARD_RP2350A_GPIO_COUNT,
      PICO_KEYBOARD_PIO_USB_DM_GPIO < PICO_KEYBOARD_RP2350A_GPIO_COUNT,
      PICO_KEYBOARD_UART_TX_GPIO \<noteq> PICO_KEYBOARD_UART_RX_GPIO,
      2 * PICO_KEYBOARD_UART_BAUD \<le> PICO_UART_RX_RING_CAPACITY * 10000,
      PICO_KEYBOARD_PIO_USB_DP_GPIO \<noteq> PICO_KEYBOARD_UART_TX_GPIO
        \<and> PICO_KEYBOARD_PIO_USB_DP_GPIO \<noteq> PICO_KEYBOARD_UART_RX_GPIO
        \<and> PICO_KEYBOARD_PIO_USB_DM_GPIO \<noteq> PICO_KEYBOARD_UART_TX_GPIO
        \<and> PICO_KEYBOARD_PIO_USB_DM_GPIO \<noteq> PICO_KEYBOARD_UART_RX_GPIO]"

lemma static_assertions_hold: "list_all (\<lambda>a. a) static_assertions"
  by (simp add: static_assertions_def hardware_defs)

section \<open>Setting up the UART and starting\<close>

datatype gpio_function = GPIO_FUNC_UART
datatype uart_parity = UART_PARITY_NONE
datatype hid_protocol = HID_PROTOCOL_BOOT
datatype tusb_role = TUSB_ROLE_DEVICE | TUSB_ROLE_HOST
datatype tusb_speed = TUSB_SPEED_FULL

record tusb_rhport_init =
  rh_role :: tusb_role
  rh_speed :: tusb_speed

datatype boot_call = Board_Init
  | Tuh_Hid_Set_Default_Protocol hid_protocol
  | Gpio_Set_Function nat gpio_function
  | Uart_Init nat
  | Uart_Set_Format nat nat uart_parity
  | Uart_Set_Hw_Flow bool bool
  | Irq_Set_Exclusive_Handler
  | Irq_Set_Enabled bool
  | Uart_Set_Irq_Enables bool bool

text \<open>The UART calls are all for \<open>uart0\<close> and its interrupt, whose handler is \<open>uart0_irq_handler\<close>.\<close>

record 'e boot =
  bt_call :: "boot_call \<Rightarrow> 'e \<Rightarrow> 'e"
  bt_tusb_init :: "nat \<Rightarrow> tusb_rhport_init \<Rightarrow> 'e \<Rightarrow> bool \<times> 'e"

text \<open>The first component of the result is the static pointer \<open>active_transport\<close> that the interrupt reads.\<close>

definition pico_uart_transport_hw_init :: "'e boot \<Rightarrow> 't option \<Rightarrow> 'e \<Rightarrow> 't option \<times> 'e" where
  "pico_uart_transport_hw_init bt transport e =
     (transport, fold (bt_call bt)
        [Gpio_Set_Function PICO_KEYBOARD_UART_TX_GPIO GPIO_FUNC_UART,
         Gpio_Set_Function PICO_KEYBOARD_UART_RX_GPIO GPIO_FUNC_UART,
         Uart_Init PICO_KEYBOARD_UART_BAUD,
         Uart_Set_Format 8 1 UART_PARITY_NONE,
         Uart_Set_Hw_Flow False False,
         Irq_Set_Exclusive_Handler,
         Irq_Set_Enabled True,
         Uart_Set_Irq_Enables True False] e)"

text \<open>
  \<open>main\<close> up to its loop. \<open>main_init\<close> holds the objects that the initialisers of the components leave. The
  interrupt is enabled at the end of \<open>pico_uart_transport_hw_init\<close>; from there to the first \<open>poll\<close> nothing
  else touches the transport, so that the interrupts of that time are those the first iteration takes
  before its \<open>poll\<close>.
\<close>

definition host_init_calls :: "'e boot \<Rightarrow> 'e globals \<Rightarrow> 'e globals" where
  "host_init_calls bt w =
     w\<lparr>g_host := pico_hid_keyboard_host_init True True,
       hw := bt_call bt (Tuh_Hid_Set_Default_Protocol HID_PROTOCOL_BOOT) (hw w)\<rparr>"

definition main_start :: "'e boot \<Rightarrow> 'e \<Rightarrow> string \<times> 'e + uart_transport option \<times> 'e globals" where
  "main_start bt e =
     (let w1 = host_init_calls bt (main_init (bt_call bt Board_Init e));
          (active_transport, e2) = pico_uart_transport_hw_init bt (Some (g_transport w1)) (hw w1);
          device_init = \<lparr>rh_role = TUSB_ROLE_DEVICE, rh_speed = TUSB_SPEED_FULL\<rparr>;
          host_init = \<lparr>rh_role = TUSB_ROLE_HOST, rh_speed = TUSB_SPEED_FULL\<rparr>;
          (device_ok, e3) = bt_tusb_init bt PICO_KEYBOARD_NATIVE_DEVICE_RHPORT device_init e2
      in if \<not> device_ok then Inl (''TinyUSB native device initialization failed'', e3)
         else
           (let (host_ok, e4) = bt_tusb_init bt PICO_KEYBOARD_PIO_HOST_RHPORT host_init e3
            in if \<not> host_ok then Inl (''TinyUSB PIO host initialization failed'', e4)
               else Inr (active_transport, w1\<lparr>hw := e4\<rparr>)))"

text \<open>\<open>main\<close> with \<open>n\<close> iterations of its loop; the outer \<open>None\<close> would be an iteration that does not return.\<close>

definition main_program :: "nat \<Rightarrow> 'e boot \<Rightarrow> 'e board \<Rightarrow> 'e \<Rightarrow> (string \<times> 'e + 'e globals) option" where
  "main_program n bt bd e =
     (case main_start bt e of Inl panic \<Rightarrow> Some (Inl panic) | Inr (_, w) \<Rightarrow> map_option Inr (main_loop n bd w))"

lemma main_init_hw [simp]:
  "(main_init e)\<lparr>hw := e'\<rparr> = main_init e'" "hw (main_init e) = e"
  "(main_init e)\<lparr>g_host := pico_hid_keyboard_host_init True True\<rparr> = main_init e"
  by (simp_all add: main_init_def)

lemma host_init_calls_main [simp]:
  "host_init_calls bt (main_init e) = main_init (bt_call bt (Tuh_Hid_Set_Default_Protocol HID_PROTOCOL_BOOT) e)"
  by (simp add: host_init_calls_def)

text \<open>The hardware when the USB stacks are initialised, and the outcomes of the start.\<close>

definition booted :: "'e boot \<Rightarrow> 'e \<Rightarrow> 'e" where
  "booted bt e = snd (pico_uart_transport_hw_init bt (None :: uart_transport option)
     (bt_call bt (Tuh_Hid_Set_Default_Protocol HID_PROTOCOL_BOOT) (bt_call bt Board_Init e)))"

lemma main_start_eq:
  "main_start bt e =
     (let (device_ok, e3) = bt_tusb_init bt 0 \<lparr>rh_role = TUSB_ROLE_DEVICE, rh_speed = TUSB_SPEED_FULL\<rparr> (booted bt e);
          (host_ok, e4) = bt_tusb_init bt 1 \<lparr>rh_role = TUSB_ROLE_HOST, rh_speed = TUSB_SPEED_FULL\<rparr> e3
      in if \<not> device_ok then Inl (''TinyUSB native device initialization failed'', e3)
         else if \<not> host_ok then Inl (''TinyUSB PIO host initialization failed'', e4)
         else Inr (Some pico_uart_transport_init, main_init e4))"
proof -
  have tr: "g_transport (main_init e1) = pico_uart_transport_init" for e1 :: 'a by (simp add: main_init_def)
  have boot: "pico_uart_transport_hw_init bt (Some pico_uart_transport_init)
      (bt_call bt (Tuh_Hid_Set_Default_Protocol HID_PROTOCOL_BOOT) (bt_call bt Board_Init e))
    = (Some pico_uart_transport_init, booted bt e)"
    by (simp add: booted_def pico_uart_transport_hw_init_def)
  show ?thesis
    by (simp add: main_start_def boot tr PICO_KEYBOARD_NATIVE_DEVICE_RHPORT_def
        PICO_KEYBOARD_PIO_HOST_RHPORT_def split_beta Let_def)
qed

lemma main_start_cases:
  obtains (device) e' where "main_start bt e = Inl (''TinyUSB native device initialization failed'', e')"
  | (host) e' where "main_start bt e = Inl (''TinyUSB PIO host initialization failed'', e')"
  | (started) e' where "main_start bt e = Inr (Some pico_uart_transport_init, main_init e')"
  by (cases "main_start bt e") (auto simp: main_start_eq split_beta Let_def split: if_splits)

text \<open>Both USB stacks come up; otherwise the start panics.\<close>

definition usb_starts :: "'e boot \<Rightarrow> 'e \<Rightarrow> bool" where
  "usb_starts bt e =
     (let (device_ok, e3) = bt_tusb_init bt 0 \<lparr>rh_role = TUSB_ROLE_DEVICE, rh_speed = TUSB_SPEED_FULL\<rparr> (booted bt e)
      in device_ok \<and> fst (bt_tusb_init bt 1 \<lparr>rh_role = TUSB_ROLE_HOST, rh_speed = TUSB_SPEED_FULL\<rparr> e3))"

lemma usb_starts_iff: "usb_starts bt e \<longleftrightarrow> (\<exists>r. main_start bt e = Inr r)"
  by (auto simp: usb_starts_def main_start_eq split_beta Let_def)

lemma main_program_ok:
  assumes "uart_fifo_ok (bd_sdk bd) pend"
  shows "\<exists>r. main_program n bt bd e = Some r
    \<and> (case r of Inl _ \<Rightarrow> \<not> usb_starts bt e
       | Inr w \<Rightarrow> usb_starts bt e \<and> fw_reachable (bd_sdk bd) w \<and> fw_inv w)"
proof (cases rule: main_start_cases [of bt e])
  case (started e')
  from main_loop_ok [OF assms main_init_inv] obtain w where w: "main_loop n bd (main_init e') = Some w" "fw_inv w" by blast
  with main_loop_reachable [OF w(1) reachable_init] started show ?thesis by (simp add: main_program_def usb_starts_iff)
qed (simp_all add: main_program_def usb_starts_iff)

lemma main_program_run:
  assumes "main_program n bt bd e = Some (Inr w)"
  obtains e' where "main_loop n bd (main_init e') = Some w"
  using assms by (cases rule: main_start_cases [of bt e]) (auto simp: main_program_def)

section \<open>The order of the start\<close>

text \<open>
  A hardware that writes down the calls, \<open>tusb_init\<close> by its port. The default protocol is set before
  the host stack starts, and the interrupt is enabled after pins, baud rate and handler are set.
\<close>

definition trace_boot :: "(boot_call + nat) list boot" where
  "trace_boot = \<lparr>bt_call = (\<lambda>c e. e @ [Inl c]), bt_tusb_init = (\<lambda>port init e. (True, e @ [Inr port]))\<rparr>"

lemma startup_order:
  "main_start trace_boot [] = Inr (Some pico_uart_transport_init, main_init
     [Inl Board_Init, Inl (Tuh_Hid_Set_Default_Protocol HID_PROTOCOL_BOOT),
      Inl (Gpio_Set_Function 0 GPIO_FUNC_UART), Inl (Gpio_Set_Function 1 GPIO_FUNC_UART),
      Inl (Uart_Init 921600), Inl (Uart_Set_Format 8 1 UART_PARITY_NONE), Inl (Uart_Set_Hw_Flow False False),
      Inl Irq_Set_Exclusive_Handler, Inl (Irq_Set_Enabled True), Inl (Uart_Set_Irq_Enables True False),
      Inr 0, Inr 1])"
  by (simp add: main_start_eq booted_def pico_uart_transport_hw_init_def trace_boot_def hardware_defs)

end
