(* ===== verification/Sample_Runs.thy ===== *)
theory Sample_Runs
  imports Samples Firmware_Playing Firmware_Alarm Firmware_Answers Firmware_Typing Firmware_Startup
begin

text \<open>
  Sample runs of the program for the witnesses: a run that receives MODE_SET(ARMED) over the UART, an
  ERROR, a captured event, a start of the hardware, a hardware whose USB endpoint is busy until \<open>tud_task\<close> frees it,
  and one with a clock and an alarm.
\<close>

section \<open>A run from the start to ARMED\<close>

text \<open>The transport when a MODE_SET has been received and polled, and the path there.\<close>

definition polled_mode :: "u8 \<Rightarrow> uart_transport" where
  "polled_mode m = pico_uart_transport_poll (deliver (wire_frame 0x87 [m]) pico_uart_transport_init)"

abbreviation sample_polled :: uart_transport where
  "sample_polled \<equiv> polled_mode 2"

lemma polled_mode_command:
  assumes "pico_uart_frame_payload_valid (Some (mk_frame 0x87 [m]))"
  shows "\<exists>t. pico_uart_transport_pop_command (polled_mode m) = (Some (mk_frame 0x87 [m]), t)"
proof -
  have v: "cmd_inv (polled_mode m)" "cmd_view (polled_mode m) = [mk_frame 0x87 [m]]"
    using poll_command_frame [OF ut_init_inv init_idle(1), of "[m]" "0x87"] poll_wire_frame [OF ut_init_inv init_idle(1), of "[m]" "0x87"] assms
    by (simp_all add: polled_mode_def init_idle sample_command ut_inv_def)
  then have "ut_command_tail (polled_mode m) \<noteq> ut_command_head (polled_mode m)" using cmd_view_Nil [of "polled_mode m"] by auto
  with pop_command_Some(1) [OF v(1) this] v(2) show ?thesis by (auto simp: pico_uart_transport_pop_command_def)
qed

lemma polled_mode_path:
  fixes w :: "u8 list globals"
  assumes "g_transport w = pico_uart_transport_init"
  shows "fw_path fifo_sdk (w\<lparr>hw := wire_frame 0x87 [m]\<rparr>) [Uart_Irq, Poll] (w\<lparr>hw := [], g_transport := polled_mode m\<rparr>)"
proof -
  let ?bytes = "wire_frame 0x87 [m]"
  let ?w1 = "w\<lparr>hw := [], g_transport := deliver ?bytes pico_uart_transport_init\<rparr>"
  from irq_handler_delivers [OF fifo_sdk_ok, of pico_uart_transport_init ?bytes]
  have irq: "uart0_irq_handler fifo_sdk (Some pico_uart_transport_init) ?bytes
      = Some (Some (deliver ?bytes pico_uart_transport_init), [])"
    by (auto simp: fifo_sdk_def)
  have "fw_step fifo_sdk (w\<lparr>hw := ?bytes\<rparr>) Uart_Irq ((w\<lparr>hw := ?bytes\<rparr>)\<lparr>hw := [], g_transport := deliver ?bytes pico_uart_transport_init\<rparr>)"
    by (rule uart_irq) (simp add: irq assms)
  then have s1: "fw_step fifo_sdk (w\<lparr>hw := ?bytes\<rparr>) Uart_Irq ?w1" by simp
  have "poll_step ?w1 = w\<lparr>hw := [], g_transport := polled_mode m\<rparr>"
    by (simp add: poll_step_def polled_mode_def)
  then have "fw_step fifo_sdk ?w1 Poll (w\<lparr>hw := [], g_transport := polled_mode m\<rparr>)" by (metis fw_step.poll)
  with s1 show ?thesis by auto
qed

lemma polled_mode_step:
  assumes "pico_uart_frame_payload_valid (Some (mk_frame 0x87 [m]))"
  shows "fw_step fifo_sdk (w\<lparr>g_transport := polled_mode m\<rparr>) (Command (mk_frame 0x87 [m]))
    (dispatch_command fifo_sdk (mk_frame 0x87 [m]) (w\<lparr>g_transport := snd (pico_uart_transport_pop_command (polled_mode m))\<rparr>))"
proof -
  obtain t where "pico_uart_transport_pop_command (polled_mode m) = (Some (mk_frame 0x87 [m]), t)"
    using polled_mode_command [OF assms] by blast
  then show ?thesis
    using command [of "w\<lparr>g_transport := polled_mode m\<rparr>" "mk_frame 0x87 [m]" t fifo_sdk] by simp
qed

definition sample_reached :: "u8 list globals" where
  "sample_reached = dispatch_command fifo_sdk (mk_frame 0x87 [2])
     (sample_init\<lparr>g_transport := snd (pico_uart_transport_pop_command sample_polled)\<rparr>)"

lemma sample_command_step:
  "fw_step fifo_sdk (sample_init\<lparr>g_transport := sample_polled\<rparr>) (Command (mk_frame 0x87 [2])) sample_reached"
  using polled_mode_step [of 2 sample_init] by (simp add: sample_reached_def sample_command)

lemma sample_reached_path:
  "\<exists>e. fw_path fifo_sdk (main_init e) [Uart_Irq, Poll] (sample_init\<lparr>g_transport := sample_polled\<rparr>)
    \<and> fw_path fifo_sdk (main_init e) [Uart_Irq, Poll, Command (mk_frame 0x87 [2])] sample_reached"
proof -
  have "sample_init\<lparr>hw := e\<rparr> = main_init e" "sample_init\<lparr>hw := [], g_transport := t\<rparr> = sample_init\<lparr>g_transport := t\<rparr>" for e t
    by (simp_all add: main_init_def)
  with polled_mode_path [of sample_init 2] have path: "fw_path fifo_sdk (main_init (wire_frame 0x87 [2])) [Uart_Irq, Poll] (sample_init\<lparr>g_transport := sample_polled\<rparr>)"
    by (metis main_init_fields(1))
  with sample_command_step have "fw_path fifo_sdk (main_init (wire_frame 0x87 [2])) ([Uart_Irq, Poll] @ [Command (mk_frame 0x87 [2])]) sample_reached"
    by (intro fw_path_trans) auto
  with path show ?thesis by auto
qed

lemma sample_reached_facts: "fw_reachable fifo_sdk sample_reached" "mode_state sample_reached = 2"
proof -
  show "fw_reachable fifo_sdk sample_reached" using sample_reached_path unfolding fw_reachable_def by blast
  have t: "mode_table (Mode_Set 2) (mode_state (sample_init\<lparr>g_transport := snd (pico_uart_transport_pop_command sample_polled)\<rparr>))
      = (Clear_All, 2, PICO_UART_REASON_OK, True)"
    by simp
  show "mode_state sample_reached = 2"
    using mode_step_effect(2) [OF t, of 2 fifo_sdk]
    by (simp add: sample_reached_def dispatch_command_def zero_type_defs mode_effect_def)
qed

lemma sample_polled_facts:
  "fw_reachable fifo_sdk (sample_init\<lparr>g_transport := sample_polled\<rparr>)" "tx_view sample_polled = []"
  "wire_sent (sample_init\<lparr>g_transport := sample_polled\<rparr>) = []"
proof -
  from sample_reached_path obtain e v where "fw_path fifo_sdk (main_init e) [Uart_Irq, Poll] v" "v = sample_init\<lparr>g_transport := sample_polled\<rparr>"
    by blast
  then show "fw_reachable fifo_sdk (sample_init\<lparr>g_transport := sample_polled\<rparr>)" unfolding fw_reachable_def by blast
  show tx: "tx_view sample_polled = []"
    using tx_view_poll [of "deliver (wire_frame 0x87 [2]) pico_uart_transport_init"]
    by (simp add: polled_mode_def init_idle deliver_inv)
  then show "wire_sent (sample_init\<lparr>g_transport := sample_polled\<rparr>) = []" by (simp add: wire_sent_def) (simp add: main_init_def)
qed

text \<open>Afterwards the queue is empty, and one message is on its way to the Zero.\<close>

lemma sample_reached_credit: "pq_count (w_queue sample_reached) = 0" "length (tx_pending sample_reached) + 12 \<le> 2048"
proof -
  let ?w = "sample_init\<lparr>g_transport := sample_polled\<rparr>" and ?f = "mk_frame 0x87 [2]"
  obtain t where t: "pico_uart_transport_pop_command sample_polled = (Some ?f, t)" using polled_mode_command [of 2] sample_command(2) by blast
  have "length (tx_pending ?w) + 80 \<le> 2048" by (simp add: sample_polled_facts(2))
  from popped_answers [OF sample_polled_facts(1) _ this, of ?f t] t obtain env s where
    s: "implements ?w s" "implements sample_reached (spec_command env ?f s)"
    "wire_sent sample_reached = wire_stream (command_messages env ?f s)"
    by (auto simp: sample_reached_def sample_polled_facts(3))
  have m: "sp_mode s = 0" using s(1) by (simp add: implements_def)
  then have "sp_queue (spec_command env ?f s) = []"
    by (simp add: spec_command_def zero_type_defs spec_op_def spec_turn_def spec_say_def mode_defs Let_def)
  moreover have "pq_inv (w_queue sample_reached)" "sp_queue (spec_command env ?f s) = pq_contents (w_queue sample_reached)"
    using s(2) unfolding implements_def by blast+
  ultimately show "pq_count (w_queue sample_reached) = 0" by simp
  have "length (wire_sent sample_reached) \<le> 9"
    using m by (simp add: s(3) command_messages_def zero_type_defs op_messages_def turn_messages_def mode_defs)
  then show "length (tx_pending sample_reached) + 12 \<le> 2048" by (simp add: wire_sent_def)
qed

section \<open>An ERROR\<close>

definition sample_faulty :: "u8 list globals" where
  "sample_faulty = sample_armed\<lparr>g_transport := latch_fault (g_transport sample_armed)\<rparr>"

lemma sample_faulty_inv: "fw_inv sample_faulty" "mode_state sample_faulty = 2"
  using sample_armed_facts
  by (simp_all add: sample_faulty_def fw_inv_def fw_core_def fw_modes_def latch_fault_def)

definition sample_error :: "u8 list globals" where
  "sample_error = fault_step fifo_sdk sample_faulty"

lemma sample_error_facts: "fw_inv sample_error" "mode_state sample_error = 4" "sr_pending (g_safety sample_error)"
proof -
  show "fw_inv sample_error" using fault_step_ok [OF sample_faulty_inv(1)] by (simp add: sample_error_def)
  have f: "fst (pico_uart_transport_take_fault (g_transport sample_faulty))"
    by (simp add: sample_faulty_def latch_fault_def pico_uart_transport_take_fault_def)
  show "mode_state sample_error = 4" "sr_pending (g_safety sample_error)"
    using f sample_faulty_inv(2) by (simp_all add: sample_error_def fault_step_def Let_def split_beta mode_defs)
qed

section \<open>A captured event in RECORD\<close>

definition sample_recording :: "u8 list globals" where
  "sample_recording = sample_init\<lparr>mode_state := 1, g_capture := sample_capture\<rparr>"

lemma sample_recording_capture: "g_capture sample_recording = sample_capture" "tx_pending sample_recording = []"
  by (simp_all add: sample_recording_def init_idle)

lemma sample_recording_facts:
  "fw_inv sample_recording" "mode_state sample_recording = PICO_UART_MODE_RECORD"
  "length (tx_pending sample_recording) + 24 * length (unrecorded (g_capture sample_recording)) \<le> 2048"
proof -
  show "fw_inv sample_recording"
    using main_init_inv [of "[] :: u8 list"] sample_capture_inv
    by (simp add: sample_recording_def fw_inv_def fw_core_def fw_modes_def mode_defs sched_ok_def)
  have "length (unrecorded sample_capture) \<le> length (kc_view sample_capture)" by (simp add: unrecorded_def)
  also have "\<dots> \<le> 16" using kc_inv_bounds(4) [OF sample_capture_inv] by (simp add: kc_view_def)
  finally show "length (tx_pending sample_recording) + 24 * length (unrecorded (g_capture sample_recording)) \<le> 2048"
    by (simp add: sample_recording_capture)
qed (simp add: sample_recording_def mode_defs)

section \<open>A keyboard, and RECORD\<close>

text \<open>A keyboard is mounted; then MODE_SET(RECORD) arrives, and the release it demands goes out.\<close>

definition key_host :: keyboard_host where
  "key_host = fst (tuh_hid_mount_cb fifo_sdk 1 0 (pico_hid_keyboard_host_init True True) sample_init)"

definition key_mounted :: "u8 list \<Rightarrow> u8 list globals" where
  "key_mounted e = (main_init e)\<lparr>g_host := key_host\<rparr>"

lemma key_host_keyboard: "is_keyboard 1 0 key_host" "kh_mode key_host" "kh_capture key_host"
  by (simp_all add: key_host_def tuh_hid_mount_cb_def fifo_sdk_def HID_ITF_PROTOCOL_KEYBOARD_def
      pico_hid_keyboard_host_init_def request_next_report_def is_keyboard_def Let_def split_beta)

lemma key_mounted_step: "fw_step fifo_sdk (main_init e) (Usb_Host (Mounted 1 0)) (key_mounted e)"
proof -
  have "host_callback fifo_sdk (Mounted 1 0) (main_init e) = key_mounted e"
    by (simp add: key_mounted_def key_host_def tuh_hid_mount_cb_def fifo_sdk_def HID_ITF_PROTOCOL_KEYBOARD_def
        pico_hid_keyboard_host_init_def request_next_report_def main_init_def Let_def split_beta call_hw_def)
  then show ?thesis by (metis usb_host)
qed

lemma key_mounted_facts: "fw_reachable fifo_sdk (key_mounted e)" "mode_state (key_mounted e) = 0"
  "\<not> sr_pending (g_safety (key_mounted e))" "is_keyboard 1 0 (g_host (key_mounted e))"
proof -
  have "fw_path fifo_sdk (main_init e) [Usb_Host (Mounted 1 0)] (key_mounted e)" using key_mounted_step by auto
  from reachable_path [OF reachable_init this] show "fw_reachable fifo_sdk (key_mounted e)" .
qed (simp_all add: key_mounted_def key_host_keyboard)

definition key_commanded :: "u8 list globals" where
  "key_commanded = dispatch_command fifo_sdk (mk_frame 0x87 [1])
     ((key_mounted [])\<lparr>g_transport := snd (pico_uart_transport_pop_command (polled_mode 1))\<rparr>)"

definition key_recording :: "u8 list globals" where
  "key_recording = snd (release_step fifo_sdk key_commanded)"

lemma fifo_sends: "fst (send_pass_report fifo_sdk r w)"
  by (simp add: send_pass_report_def pico_hid_keyboard_send_boot_report_def pico_hid_keyboard_send_report_def
      tud_hid_report_def Let_def split_beta) (simp add: fifo_sdk_def)

lemma key_commanded_facts: "mode_state key_commanded = 1" "sr_pending (g_safety key_commanded)" "g_host key_commanded = key_host"
proof -
  let ?w = "(key_mounted [])\<lparr>g_transport := snd (pico_uart_transport_pop_command (polled_mode 1))\<rparr>"
  have t: "mode_table (Mode_Set 1) (mode_state ?w) = (Clear_All, 1, PICO_UART_REASON_OK, True)" by (simp add: key_mounted_def)
  have "key_commanded = snd (mode_step (mode_cb fifo_sdk) (Mode_Set 1) ?w)"
    by (simp add: key_commanded_def dispatch_command_def zero_type_defs)
  with mode_step_effect(2) [OF t, of 2 fifo_sdk]
  show "mode_state key_commanded = 1" "sr_pending (g_safety key_commanded)" "g_host key_commanded = key_host"
    by (simp_all add: mode_effect_def same_rest_def) (simp add: key_mounted_def)
qed

lemma key_recording_facts: "fw_reachable fifo_sdk key_recording" "mode_state key_recording = 1"
  "\<not> sr_pending (g_safety key_recording)" "is_keyboard 1 0 (g_host key_recording)"
proof -
  have send: "send_all_keys_release fifo_sdk v = send_pass_report fifo_sdk pico_hid_boot_keyboard_release_all v" for v
    by (simp add: send_all_keys_release_def send_pass_report_def pico_hid_keyboard_send_all_keys_release_def)
  obtain result where r: "release_step fifo_sdk key_commanded = (result, key_recording)" by (metis key_recording_def prod.collapse)
  have "result = PICO_SAFETY_RELEASE_SENT"
    using r key_commanded_facts(2) fifo_sends [of pico_hid_boot_keyboard_release_all key_commanded]
    by (auto simp: release_step_def pico_safety_release_service_def send Let_def split_beta split: if_splits)
  with release_step_effect [OF r] key_commanded_facts show "mode_state key_recording = 1"
    "\<not> sr_pending (g_safety key_recording)" "is_keyboard 1 0 (g_host key_recording)"
    by (simp_all add: key_host_keyboard)
  have valid: "pico_uart_frame_payload_valid (Some (mk_frame 0x87 [1]))"
    by (simp add: pico_uart_frame_payload_valid_def pico_constants pico_uart_type_known_def)
  have "(key_mounted [])\<lparr>hw := e\<rparr> = key_mounted e" "(key_mounted [])\<lparr>hw := [], g_transport := t\<rparr> = (key_mounted [])\<lparr>g_transport := t\<rparr>" for e t
    by (simp_all add: key_mounted_def main_init_def)
  with polled_mode_path [of "key_mounted []" 1]
  have "fw_path fifo_sdk (key_mounted (wire_frame 0x87 [1])) [Uart_Irq, Poll] ((key_mounted [])\<lparr>g_transport := polled_mode 1\<rparr>)"
    by (simp add: key_mounted_def)
  from reachable_path [OF key_mounted_facts(1) this]
  have "fw_reachable fifo_sdk ((key_mounted [])\<lparr>g_transport := polled_mode 1\<rparr>)" .
  moreover have "fw_path fifo_sdk ((key_mounted [])\<lparr>g_transport := polled_mode 1\<rparr>) [Command (mk_frame 0x87 [1]), Release result] key_recording"
    using polled_mode_step [OF valid, of "key_mounted []"] fw_step.release [OF r] by (auto simp: key_commanded_def)
  ultimately show "fw_reachable fifo_sdk key_recording" by (rule reachable_path)
qed

text \<open>A key is pressed.\<close>

abbreviation key_report :: "u8 list" where
  "key_report \<equiv> [0, 0, 4, 0, 0, 0, 0, 0]"

abbreviation key_press :: step_label where
  "key_press \<equiv> Usb_Host (Report_Received 1 0 (Some key_report) 8)"

lemma key_press_labels: "typed key_press = [report_of_bytes key_report]" "from_keyboard (1, 0) key_press" "\<not> sets_mode key_press"
  "typed (Dispatch r) = []" "from_keyboard (1, 0) (Dispatch r)" "\<not> sets_mode (Dispatch r)"
  by (simp_all add: typed_def from_keyboard_def sets_mode_def)

definition pressed :: "u8 list globals \<Rightarrow> u8 list globals" where
  "pressed w = dispatch_step fifo_sdk PICO_SAFETY_RELEASE_READY (host_callback fifo_sdk (Report_Received 1 0 (Some key_report) 8) w)"

lemma key_press_path:
  assumes "fw_reachable fifo_sdk w" "\<not> sr_pending (g_safety w)"
  shows "fw_path fifo_sdk w [key_press, Dispatch PICO_SAFETY_RELEASE_READY] (pressed w)" "mode_state (pressed w) = mode_state w"
proof -
  let ?w1 = "host_callback fifo_sdk (Report_Received 1 0 (Some key_report) 8) w"
  have "fw_step fifo_sdk w key_press ?w1" by (rule usb_host)
  moreover have "fw_step fifo_sdk ?w1 (Dispatch PICO_SAFETY_RELEASE_READY) (pressed w)"
    unfolding pressed_def using assms(2) by (intro dispatch) (simp only: host_callback_fields, blast)
  ultimately show "fw_path fifo_sdk w [key_press, Dispatch PICO_SAFETY_RELEASE_READY] (pressed w)" by auto
  have "fw_inv ?w1" by (rule fw_step_inv [OF usb_host reachable_laws(1) [OF assms(1)]])
  then show "mode_state (pressed w) = mode_state w"
    using dispatch_step_effect(1) [of ?w1 fifo_sdk PICO_SAFETY_RELEASE_READY]
    by (simp only: pressed_def dispatch_rel_def host_callback_fields)
qed

section \<open>A start\<close>

definition sample_boot :: "u8 list boot" where
  "sample_boot = \<lparr>bt_call = (\<lambda>c e. e), bt_tusb_init = (\<lambda>port init e. (True, e))\<rparr>"

lemma sample_boot_starts: "usb_starts sample_boot e"
  by (simp add: usb_starts_def sample_boot_def)

lemma sample_program: "\<exists>w. main_program n sample_boot fifo_board e = Some (Inr w) \<and> fw_inv w"
proof -
  have "uart_fifo_ok (bd_sdk fifo_board) (\<lambda>e. e)" by (simp add: fifo_board_def fifo_sdk_ok)
  from main_program_ok [OF this, of n sample_boot e] obtain r where
    "main_program n sample_boot fifo_board e = Some r"
    "case r of Inl _ \<Rightarrow> \<not> usb_starts sample_boot e | Inr w \<Rightarrow> usb_starts sample_boot e \<and> fw_reachable (bd_sdk fifo_board) w \<and> fw_inv w" by blast
  then show ?thesis using sample_boot_starts by (cases r) auto
qed

section \<open>A hardware with a busy endpoint\<close>

text \<open>The hardware state says whether the endpoint is free; a report makes it busy, \<open>tud_task\<close> frees it.\<close>

definition usb_sdk :: "bool sdk" where
  "usb_sdk = \<lparr>sdk_time_us_64 = (\<lambda>e. (0, e)), sdk_add_alarm_at = (\<lambda>d e. (I32 1, e)),
     sdk_cancel_alarm = (\<lambda>i e. (True, e)), sdk_alarm_irq = (\<lambda>e. (False, e)),
     sdk_tud_hid_ready = (\<lambda>e. (e, e)), sdk_tud_hid_report = (\<lambda>i r e. (e, False)),
     sdk_tuh_hid_receive_report = (\<lambda>d i e. (True, e)), sdk_tuh_hid_interface_protocol = (\<lambda>d i e. (1, e)),
     sdk_uart_is_writable = (\<lambda>e. (True, e)), sdk_uart_putc_raw = (\<lambda>b e. e),
     sdk_uart_rsr = (\<lambda>e. (0, e)), sdk_uart_clear_rsr = (\<lambda>e. e),
     sdk_uart_is_readable = (\<lambda>e. (False, e)), sdk_uart_getc = (\<lambda>e. (0, e))\<rparr>"

definition usb_board :: "bool board" where
  "usb_board = \<lparr>bd_sdk = usb_sdk, bd_tud_task = (\<lambda>e. True), bd_tuh_task = (\<lambda>e. ([], e)),
     bd_uart_irqs = (\<lambda>e. (0, e)), bd_tight_loop_contents = (\<lambda>e. e), bd_sleep_us = (\<lambda>n e. e),
     bd_sleep_ms = (\<lambda>n e. e)\<rparr>"

lemma usb_board_ok: "uart_fifo_ok (bd_sdk usb_board) (\<lambda>e. [])" "endpoint_ok (bd_sdk usb_board) (\<lambda>e. e)"
  by (simp_all add: usb_board_def usb_sdk_def uart_fifo_ok_def endpoint_ok_def)

definition usb_pending :: "bool globals" where
  "usb_pending = mode_all_release (main_init False)"

lemma usb_pending_facts: "fw_inv usb_pending" "sr_pending (g_safety usb_pending)"
  using main_init_inv [of False]
  by (simp_all add: usb_pending_def mode_all_release_def pico_safety_release_request_def fw_inv_def fw_core_def fw_modes_def)

lemma usb_board_quiet: "endpoint_quiet usb_board (\<lambda>e. e)"
proof -
  have "g e = e" if "g \<in> input_calls usb_board" for g e
    using that by cases (simp_all add: usb_board_def usb_sdk_def)
  with usb_board_ok(2) show ?thesis by (simp add: endpoint_quiet_def)
qed

section \<open>A hardware with a clock and an alarm\<close>

text \<open>The hardware state is the time, which advances with every reading, and the armed alarm.\<close>

type_synonym clock_hw = "u64 \<times> (i32 \<times> u64) option"

definition clock_sdk :: "clock_hw sdk" where
  "clock_sdk = \<lparr>sdk_time_us_64 = (\<lambda>(t, a). (t + 1, (t + 1, a))), sdk_add_alarm_at = (\<lambda>d (t, a). (I32 1, (t, Some (I32 1, d)))),
     sdk_cancel_alarm = (\<lambda>i (t, a). (True, (t, None))),
     sdk_alarm_irq = (\<lambda>(t, a). case a of Some (i, d) \<Rightarrow> if d \<le> t then (True, (t, None)) else (False, (t, a)) | None \<Rightarrow> (False, (t, a))),
     sdk_tud_hid_ready = (\<lambda>e. (True, e)), sdk_tud_hid_report = (\<lambda>i r e. (True, e)),
     sdk_tuh_hid_receive_report = (\<lambda>d i e. (True, e)), sdk_tuh_hid_interface_protocol = (\<lambda>d i e. (1, e)),
     sdk_uart_is_writable = (\<lambda>e. (True, e)), sdk_uart_putc_raw = (\<lambda>b e. e),
     sdk_uart_rsr = (\<lambda>e. (0, e)), sdk_uart_clear_rsr = (\<lambda>e. e),
     sdk_uart_is_readable = (\<lambda>e. (False, e)), sdk_uart_getc = (\<lambda>e. (0, e))\<rparr>"

definition clock_board :: "clock_hw board" where
  "clock_board = \<lparr>bd_sdk = clock_sdk, bd_tud_task = (\<lambda>e. e), bd_tuh_task = (\<lambda>e. ([], e)),
     bd_uart_irqs = (\<lambda>e. (0, e)), bd_tight_loop_contents = (\<lambda>e. e), bd_sleep_us = (\<lambda>n e. e),
     bd_sleep_ms = (\<lambda>n e. e)\<rparr>"

lemma clock_board_ok: "alarm_ok clock_board fst snd" "uart_fifo_ok (bd_sdk clock_board) (\<lambda>e. [])"
proof -
  have "snd (g e) = snd e" if "g \<in> input_calls clock_board" for g e
    using that by cases (simp_all add: clock_board_def clock_sdk_def split_beta)
  moreover have "snd (g e) = snd e" if "g \<in> output_calls clock_board" for g e
    using that by cases (simp_all add: clock_board_def clock_sdk_def)
  ultimately have calls: "\<forall>g \<in> input_calls clock_board \<union> output_calls clock_board. \<forall>e. snd (g e) = snd e" by blast
  show "alarm_ok clock_board fst snd"
    unfolding alarm_ok_def
  proof (intro conjI)
    show "\<forall>g \<in> input_calls clock_board \<union> output_calls clock_board. \<forall>e. snd (g e) = snd e" by (rule calls)
  qed (simp_all add: clock_board_def clock_sdk_def less_i32_def zero_i32_def i32_int_def split: option.split)
  show "uart_fifo_ok (bd_sdk clock_board) (\<lambda>e. [])"
    by (simp add: clock_board_def clock_sdk_def uart_fifo_ok_def)
qed

text \<open>A run in PLAYING with one event at the offset ten, seen at time \<open>t\<close>.\<close>

definition timed_playing :: "u64 \<Rightarrow> clock_hw globals" where
  "timed_playing t = (main_init (t, Some (I32 1, 10)))\<lparr>mode_state := 3,
     w_queue := snd (pico_playback_queue_push 10 (Some (replicate 8 0)) 8 pico_playback_queue_init),
     w_sched := (start_run 0 (pico_playback_scheduler_init True))
       \<lparr>ps_next_deadline_us := 10, ps_alarm_armed := True, ps_alarm_id := I32 1\<rparr>\<rparr>"

lemma timed_playing_queue:
  "pico_playback_queue_peek (w_queue (timed_playing t))
     = Some \<lparr>qe_offset_us = 10, qe_report_len = 8, qe_report = report_of_bytes (replicate 8 0)\<rparr>"
  "pq_inv (w_queue (timed_playing t))" "pq_count (w_queue (timed_playing t)) = 1"
proof -
  show "pq_inv (w_queue (timed_playing t))" by (simp add: timed_playing_def pq_push_inv)
qed (simp_all add: timed_playing_def pico_playback_queue_push_def pico_playback_queue_init_def
      pico_playback_queue_peek_def)

lemma timed_playing_sched:
  "ps_running (w_sched (timed_playing t))" "\<not> ps_waiting_for_event (w_sched (timed_playing t))"
  "ps_playback_start_us (w_sched (timed_playing t)) = 0" "ps_next_deadline_us (w_sched (timed_playing t)) = 10"
  "\<not> ps_alarm_fired (w_sched (timed_playing t))" "hw (timed_playing t) = (t, Some (I32 1, 10))"
  by (simp_all add: timed_playing_def) (simp_all add: start_run_def main_init_def)

lemma timed_playing_inv: "fw_inv (timed_playing t)" "alarm_inv snd (timed_playing t)" "mode_state (timed_playing t) = 3"
  using timed_playing_queue [of t] timed_playing_sched [of t] main_init_inv [of "(t, Some (I32 1, 10))"]
  by (simp_all add: fw_inv_def fw_core_def fw_modes_def sched_ok_def alarm_inv_def)
    (simp_all add: timed_playing_def mode_defs start_run_def samples_inv_def pico_playback_scheduler_init_def
      main_init_def pico_keyboard_capture_init_def)

text \<open>Before time ten the run waits, at time twenty it sends.\<close>

lemma timed_waits:
  "\<exists>w'. pico_playback_scheduler_task (sched_cb clock_sdk) clock_sdk (timed_playing 0) = Some w'
    \<and> mode_state w' = 3 \<and> w_queue w' = w_queue (timed_playing 0) \<and> hid_out w' = []"
proof -
  have "\<not> fst (event_due clock_sdk (timed_playing 0))"
    by (simp add: event_due_iff timed_playing_sched clock_sdk_def) (simp add: word_le_nat_alt)
  then have "task_round (sched_cb clock_sdk) clock_sdk (timed_playing 0) = (False, snd (event_due clock_sdk (timed_playing 0)))"
    by (simp add: task_round_def timed_playing_sched split_beta)
  moreover have "mode_state (snd (event_due clock_sdk (timed_playing 0))) = 3" "hid_out (timed_playing 0) = []"
    using timed_playing_inv(3) [of 0]
    by (simp_all add: event_due_def exchange_fired_def alarm_isr_def time_us_64_def clear_fired_def Let_def split_beta)
      (simp add: timed_playing_def)
  ultimately show ?thesis by (subst pico_playback_scheduler_task.simps) (simp add: timed_playing_sched)
qed

lemma timed_sends: "hid_out (snd (task_round (sched_cb clock_sdk) clock_sdk (timed_playing 20))) \<noteq> hid_out (timed_playing 20)"
proof -
  have due: "fst (event_due clock_sdk (timed_playing 20))"
    by (simp add: event_due_iff timed_playing_sched clock_sdk_def)
  have send: "fst (send_pass_report clock_sdk r w)" for r and w :: "clock_hw globals"
    by (simp add: send_pass_report_def pico_hid_keyboard_send_boot_report_def pico_hid_keyboard_send_report_def
        tud_hid_report_def Let_def split_beta) (simp add: clock_sdk_def)
  show ?thesis
    by (simp add: task_round_def Let_def split_beta due timed_playing_sched timed_playing_queue send scheduler_callbacks_def)
qed

text \<open>With nothing pending the first part of a pass leaves the state as it is.\<close>

lemma timed_before: "before_playback clock_board (timed_playing t) = Some (timed_playing t)"
proof -
  have calls: "usb_tasks clock_board w = w" "call_hw (bd_uart_irqs clock_board) w = (0, w)" for w
    by (simp_all add: usb_tasks_def clock_board_def call_hw_def)
  have rings: "ut_rx_tail pico_uart_transport_init = ut_rx_head pico_uart_transport_init"
      "ut_command_tail pico_uart_transport_init = ut_command_head pico_uart_transport_init"
      "pico_uart_transport_init\<lparr>ut_fault_pending := False\<rparr> = pico_uart_transport_init"
    by (simp_all add: pico_uart_transport_init_def)
  have w: "g_transport (timed_playing t) = pico_uart_transport_init" "g_safety (timed_playing t) = \<lparr>sr_pending = False\<rparr>"
    by (simp_all add: timed_playing_def main_init_def pico_safety_release_init_def)
  have same: "(timed_playing t)\<lparr>g_transport := pico_uart_transport_init\<rparr> = timed_playing t"
    "(timed_playing t)\<lparr>g_safety := \<lparr>sr_pending = False\<rparr>\<rparr> = timed_playing t"
    "(timed_playing t)\<lparr>g_capture := g_capture (timed_playing t)\<rparr> = timed_playing t"
    using w by simp_all
  have poll: "poll_step (timed_playing t) = timed_playing t"
    unfolding poll_step_def w by (subst pico_uart_transport_poll.simps) (simp add: rings same)
  have fault: "fault_step sdk (timed_playing t) = timed_playing t" for sdk
    by (simp add: fault_step_def w pico_uart_transport_take_fault_def init_idle rings same)
  have cmds: "command_loop sdk (timed_playing t) = Some (timed_playing t)" for sdk
    by (subst command_loop.simps) (simp add: w pico_uart_transport_pop_command_def rings same)
  have rel: "release_step sdk (timed_playing t) = (PICO_SAFETY_RELEASE_READY, timed_playing t)" for sdk
    by (simp add: release_step_def pico_safety_release_service_def w same)
  have disp: "dispatch_step sdk r (timed_playing t) = timed_playing t" for sdk r
    by (simp add: dispatch_step_def pico_physical_report_dispatch_def timed_playing_inv(3) pico_mode_state_is_recording_def
        pico_mode_state_get_def mode_defs same)
  show ?thesis by (simp add: before_playback_def calls poll fault cmds rel disp)
qed

end
