(* ===== verification/Zero_Floats.thy ===== *)
theory Zero_Floats
  imports Complex_Main "HOL-Library.Log_Nat"
begin

text \<open>
  The floats of the Python service under \<open>zero/app/\<close>. A finite float is its rational value, and arithmetic
  rounds to the nearest 64-bit float, ties to even, as IEEE 754 demands; signed zeros are one value, and a
  result beyond the range of a float is left as it is where the service cannot reach it.
\<close>

text \<open>Python's \<open>round\<close> of a float, and the float nearest to a number, for both signs.\<close>

definition round_half_even :: "rat \<Rightarrow> int" where
  "round_half_even x =
     (let n = \<lfloor>x\<rfloor>; d = x - of_int n
      in if d < 1/2 then n else if 1/2 < d then n + 1 else if even n then n else n + 1)"

definition binade :: "rat \<Rightarrow> int" where
  "binade x = (let (p, q) = quotient_of x; e = bitlen p - bitlen q in if x < 2 powi e then e - 1 else e)"

definition to_double :: "rat \<Rightarrow> rat" where
  "to_double x =
     (if x = 0 then 0
      else (let ulp = 2 powi (max (binade \<bar>x\<bar> - 52) (-1074)) in ulp * of_int (round_half_even (x / ulp))))"

text \<open>Sum, difference, product and quotient of two floats.\<close>

definition fadd :: "rat \<Rightarrow> rat \<Rightarrow> rat" where "fadd x y = to_double (x + y)"
definition fsub :: "rat \<Rightarrow> rat \<Rightarrow> rat" where "fsub x y = to_double (x - y)"
definition fmul :: "rat \<Rightarrow> rat \<Rightarrow> rat" where "fmul x y = to_double (x * y)"
definition fdiv :: "rat \<Rightarrow> rat \<Rightarrow> rat" where "fdiv x y = to_double (x / y)"

lemma round_half_even_int [simp]: "round_half_even (of_int n) = n"
  by (simp add: round_half_even_def)

lemma to_double_int:
  assumes "0 \<le> n" "n < 2 ^ 53"
  shows "to_double (of_int n) = of_int n"
proof (cases "n = 0")
  case True
  then show ?thesis by (simp add: to_double_def)
next
  case False
  define k where "k = nat (- max (binade (of_int n) - 52) (-1074))"
  have "bitlen n \<le> 53" using assms by (simp add: bitlen_le_iff_power)
  moreover have "bitlen 1 = 1" by (subst compute_bitlen) simp
  ultimately have "binade (of_int n) \<le> 52" by (simp add: binade_def Let_def)
  then have k: "max (binade (of_int n) - 52) (-1074) = - int k" by (simp add: k_def)
  have "of_int n / (2 powi (- int k)) = (of_int (n * 2 ^ k) :: rat)"
    by (simp add: power_int_minus divide_inverse)
  then have "round_half_even (of_int n / (2 powi (- int k))) = n * 2 ^ k" by (simp only: round_half_even_int)
  moreover have "\<bar>of_int n :: rat\<bar> = of_int n" using assms(1) by simp
  ultimately show ?thesis using False by (simp add: to_double_def Let_def k power_int_minus)
qed

end
