(* ===== verification/Zero_Protocol.thy ===== *)
theory Zero_Protocol
  imports Uart_Messages
begin

text \<open>
  The other end of the UART: \<open>zero/app/uart_protocol.py\<close> and the exceptions of \<open>zero/app/errors.py\<close>. Python's
  integers are \<^typ>\<open>int\<close>, \<open>bytes\<close> and \<open>bytearray\<close> are lists of \<^typ>\<open>u8\<close>, a \<open>raise\<close> is the left side of a
  sum, and \<open>struct.pack\<close> and \<open>struct.unpack\<close> are little-endian conversions. The texts of exceptions are left
  out. The constants are those of the Python module, which a lemma compares with those of the C header.
\<close>

section \<open>Errors and constants\<close>

datatype zero_error =
    ProtocolError
  | TransportTimeout
  | ModeRejected
  | PicoError
  | RecordingValidationError
  | StorageError
  | RecorderError

type_synonym 'a zero_result = "zero_error + 'a"

named_theorems zero_constants \<open>values of the constants of the Python module\<close>

definition MAGIC :: u8 where [zero_constants]: "MAGIC = 0xA5"
definition VERSION :: u8 where [zero_constants]: "VERSION = 0x02"
definition MAX_PAYLOAD :: nat where [zero_constants]: "MAX_PAYLOAD = 64"

definition RECORD_EVENT :: u8 where [zero_constants]: "RECORD_EVENT = 0x01"
definition PICO_STATUS :: u8 where [zero_constants]: "PICO_STATUS = 0x02"
definition BUFFER_STATUS :: u8 where [zero_constants]: "BUFFER_STATUS = 0x03"
definition PLAY_READY :: u8 where [zero_constants]: "PLAY_READY = 0x04"
definition PLAY_STARTED :: u8 where [zero_constants]: "PLAY_STARTED = 0x05"
definition PLAY_FINISHED :: u8 where [zero_constants]: "PLAY_FINISHED = 0x06"
definition PLAY_ABORTED :: u8 where [zero_constants]: "PLAY_ABORTED = 0x07"
definition PLAY_UNDERRUN :: u8 where [zero_constants]: "PLAY_UNDERRUN = 0x08"
definition ERROR :: u8 where [zero_constants]: "ERROR = 0x09"
definition PONG :: u8 where [zero_constants]: "PONG = 0x0A"
definition MODE_CHANGED :: u8 where [zero_constants]: "MODE_CHANGED = 0x0B"
definition PLAY_METRICS :: u8 where [zero_constants]: "PLAY_METRICS = 0x0C"

definition QUEUE_CLEAR :: u8 where [zero_constants]: "QUEUE_CLEAR = 0x80"
definition QUEUE_EVENT :: u8 where [zero_constants]: "QUEUE_EVENT = 0x81"
definition QUEUE_END :: u8 where [zero_constants]: "QUEUE_END = 0x82"
definition PLAY_START :: u8 where [zero_constants]: "PLAY_START = 0x83"
definition PLAY_ABORT :: u8 where [zero_constants]: "PLAY_ABORT = 0x84"
definition STATUS_REQUEST :: u8 where [zero_constants]: "STATUS_REQUEST = 0x85"
definition PING :: u8 where [zero_constants]: "PING = 0x86"
definition MODE_SET :: u8 where [zero_constants]: "MODE_SET = 0x87"

definition PICO_TO_ZERO_TYPES :: "u8 set" where
  [zero_constants]: "PICO_TO_ZERO_TYPES = {RECORD_EVENT..PLAY_METRICS}"
definition ZERO_TO_PICO_TYPES :: "u8 set" where
  [zero_constants]: "ZERO_TO_PICO_TYPES = {QUEUE_CLEAR..MODE_SET}"

definition MODE_PASS :: u8 where [zero_constants]: "MODE_PASS = 0"
definition MODE_RECORD :: u8 where [zero_constants]: "MODE_RECORD = 1"
definition MODE_ARMED :: u8 where [zero_constants]: "MODE_ARMED = 2"
definition MODE_PLAYING :: u8 where [zero_constants]: "MODE_PLAYING = 3"
definition MODE_ERROR :: u8 where [zero_constants]: "MODE_ERROR = 4"
definition VALID_MODES :: "u8 set" where
  [zero_constants]: "VALID_MODES = {MODE_PASS, MODE_RECORD, MODE_ARMED, MODE_PLAYING, MODE_ERROR}"

definition REASON_OK :: u8 where [zero_constants]: "REASON_OK = 0"
definition REASON_ABORTED :: u8 where [zero_constants]: "REASON_ABORTED = 5"
definition REASON_UNDERRUN :: u8 where [zero_constants]: "REASON_UNDERRUN = 6"
definition REASON_FINISHED :: u8 where [zero_constants]: "REASON_FINISHED = 7"
definition VALID_REASONS :: "u8 set" where [zero_constants]: "VALID_REASONS = {0..<8}"

lemma constants_agree:
  "MAGIC = PICO_UART_PROTOCOL_MAGIC" "VERSION = PICO_UART_PROTOCOL_VERSION" "MAX_PAYLOAD = PICO_UART_PROTOCOL_MAX_PAYLOAD"
  "RECORD_EVENT = PICO_UART_RECORD_EVENT" "PICO_STATUS = PICO_UART_PICO_STATUS" "BUFFER_STATUS = PICO_UART_BUFFER_STATUS"
  "PLAY_READY = PICO_UART_PLAY_READY" "PLAY_STARTED = PICO_UART_PLAY_STARTED" "PLAY_FINISHED = PICO_UART_PLAY_FINISHED"
  "PLAY_ABORTED = PICO_UART_PLAY_ABORTED" "PLAY_UNDERRUN = PICO_UART_PLAY_UNDERRUN" "ERROR = PICO_UART_ERROR"
  "PONG = PICO_UART_PONG" "MODE_CHANGED = PICO_UART_MODE_CHANGED" "PLAY_METRICS = PICO_UART_PLAY_METRICS"
  "QUEUE_CLEAR = PICO_UART_QUEUE_CLEAR" "QUEUE_EVENT = PICO_UART_QUEUE_EVENT" "QUEUE_END = PICO_UART_QUEUE_END"
  "PLAY_START = PICO_UART_PLAY_START" "PLAY_ABORT = PICO_UART_PLAY_ABORT" "STATUS_REQUEST = PICO_UART_STATUS_REQUEST"
  "PING = PICO_UART_PING" "MODE_SET = PICO_UART_MODE_SET"
  "MODE_PASS = PICO_UART_MODE_PASS" "MODE_RECORD = PICO_UART_MODE_RECORD" "MODE_ARMED = PICO_UART_MODE_ARMED"
  "MODE_PLAYING = PICO_UART_MODE_PLAYING" "MODE_ERROR = PICO_UART_MODE_ERROR"
  "REASON_OK = PICO_UART_REASON_OK" "REASON_ABORTED = PICO_UART_REASON_ABORTED"
  "REASON_UNDERRUN = PICO_UART_REASON_UNDERRUN" "REASON_FINISHED = PICO_UART_REASON_FINISHED"
  by (simp_all add: zero_constants pico_constants)

section \<open>The \<open>struct\<close> module\<close>

text \<open>\<open>pack_le n v\<close> are the \<open>n\<close> little-endian bytes of an integer; the other two read such bytes, unsigned and signed.\<close>

primrec pack_le :: "nat \<Rightarrow> int \<Rightarrow> u8 list" where
  "pack_le 0 v = []"
| "pack_le (Suc n) v = word_of_int v # pack_le n (drop_bit 8 v)"

definition unpack_le :: "u8 list \<Rightarrow> int" where
  "unpack_le bytes = horner_sum uint 256 bytes"

definition unpack_signed_le :: "u8 list \<Rightarrow> int" where
  "unpack_signed_le bytes = signed_take_bit (8 * length bytes - 1) (unpack_le bytes)"

lemma length_pack_le [simp]: "length (pack_le n v) = n"
  by (induction n arbitrary: v) simp_all

lemma unpack_le_simps [simp]: "unpack_le [] = 0" "unpack_le (b # bs) = uint b + 256 * unpack_le bs"
  by (simp_all add: unpack_le_def)

lemma ucast_byte: "word_of_int (uint w) = (ucast (w AND 0xFF) :: u8)" for w :: "'w::len word"
  by (rule bit_word_eqI) (auto simp: and_0xFF bit_simps)

lemma uint_drop_bit: "uint (drop_bit n w) = drop_bit n (uint w)" for w :: "'w::len word"
  by (rule bit_eqI) (auto simp: bit_uint_iff bit_drop_bit_eq dest: bit_imp_le_length)

lemma pack_le_uint: "pack_le n (uint w) = write_le n w" for w :: "'w::len word"
proof (induction n arbitrary: w)
  case (Suc n)
  from Suc [of "drop_bit 8 w"] show ?case by (simp only: pack_le.simps write_le.simps ucast_byte uint_drop_bit)
qed simp

lemma pack_u16: "pack_le 2 (uint v) = [lo8 v, hi8 v]" for v :: u16
proof -
  have "drop_bit 8 v AND 0xFF = drop_bit 8 v" by (rule bit_word_eqI) (auto simp: and_0xFF bit_simps dest: bit_imp_le_length)
  then show ?thesis unfolding pack_le_uint by (simp add: numeral_2_eq_2 lo8_def hi8_def)
qed

lemma pack_u64: "0 \<le> v \<Longrightarrow> v < 2 ^ 64 \<Longrightarrow> pack_le 8 v = write_u64_le (word_of_int v)"
  using pack_le_uint [of 8 "word_of_int v :: u64"] by (simp add: write_u64_le_def uint_word_of_int take_bit_int_eq_self)

lemma unpack_write_le: "unpack_le (write_le n w) = take_bit (8 * n) (uint w)" for w :: "'w::len word"
proof (induction n arbitrary: w)
  case (Suc n)
  have "uint (ucast (w AND 0xFF) :: u8) = uint w mod 256"
    by (simp add: and_0xFF unsigned_ucast_eq unsigned_take_bit_eq) (simp add: take_bit_eq_mod)
  moreover have "take_bit (8 * n) (uint (drop_bit 8 w)) = uint w div 256 mod 2 ^ (8 * n)"
    unfolding uint_drop_bit by (simp add: take_bit_eq_mod drop_bit_eq_div)
  ultimately have "unpack_le (write_le (Suc n) w) = uint w mod (256 * 2 ^ (8 * n))"
    using Suc [of "drop_bit 8 w"] by (simp add: zmod_zmult2_eq)
  then show ?case by (simp add: take_bit_eq_mod power_add)
qed simp

lemma unpack_write_u64_le [simp]: "unpack_le (write_u64_le v) = uint v"
  using unpack_write_le [of 8 v] by (simp add: write_u64_le_def take_bit_int_eq_self uint_lt2p [where 'a = 64, simplified])

lemma unpack_u16 [simp]: "unpack_le [lo8 v, hi8 v] = uint v" for v :: u16
proof -
  have "[lo8 v, hi8 v] = write_le 2 v" using pack_u16 [of v] pack_le_uint [of 2 v] by simp
  then show ?thesis using unpack_write_le [of 2 v] by (simp add: take_bit_int_eq_self uint_lt2p [where 'a = 16, simplified])
qed

section \<open>The checksum\<close>

definition zero_crc_bit :: "int \<Rightarrow> int" where
  "zero_crc_bit crc = (if crc AND 0x8000 \<noteq> 0 then (push_bit 1 crc XOR 0x1021) AND 0xFFFF else push_bit 1 crc AND 0xFFFF)"

definition crc16_ccitt_false :: "u8 list \<Rightarrow> int" where
  "crc16_ccitt_false data = foldl (\<lambda>crc byte. (zero_crc_bit ^^ 8) (crc XOR push_bit 8 (uint byte))) 0xFFFF data"

lemma zero_crc_bit_word: "zero_crc_bit (uint c) = uint (crc_bit c)"
proof -
  have test: "uint c AND 0x8000 \<noteq> 0 \<longleftrightarrow> bit c 15"
    using and_exp_eq_0_iff_not_bit [of "uint c" 15] by (simp add: bit_uint_iff)
  have mask: "v AND 0xFFFF = take_bit 16 v" for v :: int by (simp add: take_bit_eq_mask mask_eq_exp_minus_1)
  have shift: "uint (push_bit 1 c) = take_bit 16 (push_bit 1 (uint c))" by (simp only: unsigned_push_bit_eq) simp
  have poly: "take_bit 16 (0x1021 :: int) = 0x1021" by (simp add: take_bit_eq_mod)
  show ?thesis
    unfolding zero_crc_bit_def crc_bit_alt mask test
    by (simp only: take_bit_xor poly shift unsigned_xor_eq if_distrib [of uint] if_True if_False cong: if_cong) simp
qed

lemma crc16_word: "crc16_ccitt_false data = uint (foldl crc_byte 0xFFFF data)"
proof -
  have bits: "(zero_crc_bit ^^ n) (uint c) = uint ((crc_bit ^^ n) c)" for n c
    by (induction n) (simp_all add: zero_crc_bit_word)
  have byte: "uint c XOR push_bit 8 (uint b) = uint (c XOR push_bit 8 (ucast b :: u16))" for c and b :: u8
    by (rule bit_eqI) (auto simp: bit_simps dest: bit_imp_le_length)
  have "foldl (\<lambda>crc byte. (zero_crc_bit ^^ 8) (crc XOR push_bit 8 (uint byte))) (uint c) data = uint (foldl crc_byte c data)" for c
    by (induction data arbitrary: c) (simp_all add: crc_byte_def byte bits)
  from this [of "0xFFFF"] show ?thesis by (simp add: crc16_ccitt_false_def)
qed

section \<open>Frames and the encoder\<close>

record protocol_frame =
  zf_type :: u8
  zf_payload :: "u8 list"

record play_metrics =
  dispatched_count :: int
  underrun_count :: int
  min_lateness_us :: int
  max_lateness_us :: int
  sum_lateness_us :: int
  p95_lateness_us :: int
  p99_lateness_us :: int
  samples_truncated :: bool

definition encode_frame :: "u8 \<Rightarrow> u8 list \<Rightarrow> u8 list zero_result" where
  "encode_frame message_type payload =
     (if message_type \<notin> ZERO_TO_PICO_TYPES then Inl ProtocolError
      else if length payload > MAX_PAYLOAD then Inl ProtocolError
      else
        (let covered = [VERSION, message_type] @ pack_le 2 (int (length payload)) @ payload
         in Inr ([MAGIC] @ covered @ pack_le 2 (crc16_ccitt_false covered))))"

definition encode_queue_clear :: "u8 list zero_result" where
  "encode_queue_clear = encode_frame QUEUE_CLEAR []"

definition encode_queue_event :: "int \<Rightarrow> u8 list \<Rightarrow> u8 list zero_result" where
  "encode_queue_event offset_us report =
     (if \<not> (0 \<le> offset_us \<and> offset_us \<le> 0xFFFFFFFFFFFFFFFF) then Inl ProtocolError
      else if length report \<noteq> 8 then Inl ProtocolError
      else encode_frame QUEUE_EVENT (pack_le 8 offset_us @ [8] @ report))"

definition encode_queue_end :: "u8 list zero_result" where
  "encode_queue_end = encode_frame QUEUE_END []"

definition encode_play_start :: "u8 list zero_result" where
  "encode_play_start = encode_frame PLAY_START []"

definition encode_play_abort :: "u8 list zero_result" where
  "encode_play_abort = encode_frame PLAY_ABORT []"

section \<open>The decoder\<close>

definition pico_payload_is_valid :: "u8 \<Rightarrow> u8 list \<Rightarrow> bool" where
  "pico_payload_is_valid message_type payload =
     (if message_type = RECORD_EVENT then length payload = 17 \<and> payload ! 8 = 8
      else if message_type \<in> {PICO_STATUS, BUFFER_STATUS} then length payload = 5
      else if message_type = PLAY_STARTED then length payload = 8
      else if message_type = PLAY_UNDERRUN then length payload = 10
      else if message_type = MODE_CHANGED then length payload = 2
      else if message_type = PLAY_METRICS then length payload = 33
      else length payload = 0)"

datatype decode_error = Unsupported_Version | Unexpected_Type | Payload_Too_Long | Crc_Mismatch | Invalid_Payload

record incremental_decoder =
  zd_max_payload :: nat
  zd_accepted_types :: "u8 set"
  zd_buffer :: "u8 list"
  zd_errors :: "decode_error list"

definition incremental_decoder_init :: incremental_decoder where
  "incremental_decoder_init = \<lparr>zd_max_payload = MAX_PAYLOAD, zd_accepted_types = PICO_TO_ZERO_TYPES, zd_buffer = [], zd_errors = []\<rparr>"

text \<open>
  The body of the \<open>while\<close> loop of \<open>feed\<close> on a buffer whose bytes before the first magic byte are gone:
  it leaves the loop and waits for more bytes, rejects the candidate, or takes a frame of so many bytes.
\<close>

datatype decode_step = Await | Discard decode_error | Take nat protocol_frame

definition decode_candidate :: "nat \<Rightarrow> u8 set \<Rightarrow> u8 list \<Rightarrow> decode_step" where
  "decode_candidate max_payload accepted_types buf =
     (if length buf < 5 then Await
      else
       (let version = buf ! 1; message_type = buf ! 2; payload_len = nat (uint (buf ! 3) OR push_bit 8 (uint (buf ! 4)))
        in if version \<noteq> VERSION then Discard Unsupported_Version
           else if message_type \<notin> accepted_types then Discard Unexpected_Type
           else if payload_len > max_payload then Discard Payload_Too_Long
           else
            (let frame_len = 7 + payload_len in
             if length buf < frame_len then Await
             else
              (let covered = take (4 + payload_len) (drop 1 buf);
                   received_crc = uint (buf ! (5 + payload_len)) OR push_bit 8 (uint (buf ! (6 + payload_len)))
               in if received_crc \<noteq> crc16_ccitt_false covered then Discard Crc_Mismatch
                  else
                   (let payload = take payload_len (drop 5 buf)
                    in if \<not> pico_payload_is_valid message_type payload then Discard Invalid_Payload
                       else Take frame_len \<lparr>zf_type = message_type, zf_payload = payload\<rparr>)))))"

lemma decode_candidate_Take: "decode_candidate m ts buf = Take n f \<Longrightarrow> 7 \<le> n \<and> n \<le> length buf"
  by (auto simp: decode_candidate_def Let_def split: if_splits)

lemma decode_candidate_Discard: "decode_candidate m ts buf = Discard e \<Longrightarrow> buf \<noteq> []"
  by (auto simp: decode_candidate_def)

text \<open>The loop returns the buffer that it keeps, the errors and the frames, both in order.\<close>

function decode_loop :: "nat \<Rightarrow> u8 set \<Rightarrow> u8 list \<Rightarrow> u8 list \<times> decode_error list \<times> protocol_frame list" where
  "decode_loop m ts data =
     (let buf = dropWhile (\<lambda>b. b \<noteq> MAGIC) data in
      if buf = [] then ([], [], [])
      else
       (case decode_candidate m ts buf of
          Await \<Rightarrow> (buf, [], [])
        | Discard e \<Rightarrow> (let (rest, errors, frames) = decode_loop m ts (drop 1 buf) in (rest, e # errors, frames))
        | Take n f \<Rightarrow> (let (rest, errors, frames) = decode_loop m ts (drop n buf) in (rest, errors, f # frames))))"
  by pat_completeness auto
termination
proof (relation "measure (\<lambda>(m, ts, data). length data)")
  fix m :: nat and ts :: "u8 set" and data buf :: "u8 list" and n f
  assume buf: "buf = dropWhile (\<lambda>b. b \<noteq> MAGIC) data" "buf \<noteq> []"
  have le: "length buf \<le> length data" unfolding buf(1) by (rule length_dropWhile_le)
  from le buf(2) show "((m, ts, drop 1 buf), (m, ts, data)) \<in> measure (\<lambda>(m, ts, data). length data)" by (cases buf) auto
  show "decode_candidate m ts buf = Take n f \<Longrightarrow> ((m, ts, drop n buf), (m, ts, data)) \<in> measure (\<lambda>(m, ts, data). length data)"
    using le decode_candidate_Take [of m ts buf n f] by auto
qed simp

declare decode_loop.simps [simp del]

lemma decode_loop_Nil: "MAGIC \<notin> set data \<Longrightarrow> decode_loop m ts data = ([], [], [])"
  by (subst decode_loop.simps) (auto simp: Let_def)

lemma decode_loop_magic:
  "decode_loop m ts (MAGIC # xs) =
     (case decode_candidate m ts (MAGIC # xs) of
        Await \<Rightarrow> (MAGIC # xs, [], [])
      | Discard e \<Rightarrow> (let (rest, errors, frames) = decode_loop m ts xs in (rest, e # errors, frames))
      | Take n f \<Rightarrow> (let (rest, errors, frames) = decode_loop m ts (drop n (MAGIC # xs)) in (rest, errors, f # frames)))"
  by (subst decode_loop.simps) (simp add: Let_def split: decode_step.split)

lemma decode_loop_other: "b \<noteq> MAGIC \<Longrightarrow> decode_loop m ts (b # xs) = decode_loop m ts xs"
  by (subst (1 2) decode_loop.simps) simp

definition decoder_feed :: "u8 list \<Rightarrow> incremental_decoder \<Rightarrow> protocol_frame list \<times> incremental_decoder" where
  "decoder_feed data d =
     (let (rest, errors, frames) = decode_loop (zd_max_payload d) (zd_accepted_types d) (zd_buffer d @ data)
      in (frames, d\<lparr>zd_buffer := rest, zd_errors := zd_errors d @ errors\<rparr>))"

definition decoder_pop_errors :: "incremental_decoder \<Rightarrow> decode_error list \<times> incremental_decoder" where
  "decoder_pop_errors d = (zd_errors d, d\<lparr>zd_errors := []\<rparr>)"

section \<open>Validation of payloads\<close>

definition validate_boot_report :: "int list \<Rightarrow> int list zero_result" where
  "validate_boot_report report =
     (if length report \<noteq> 8 then Inl RecordingValidationError
      else if \<exists>value \<in> set report. \<not> (0 \<le> value \<and> value \<le> 0xFF) then Inl RecordingValidationError
      else Inr report)"

definition validate_record_event :: "protocol_frame \<Rightarrow> (int \<times> int list) zero_result" where
  "validate_record_event frame =
     (if zf_type frame \<noteq> RECORD_EVENT then Inl ProtocolError
      else if length (zf_payload frame) \<noteq> 17 then Inl ProtocolError
      else
       (let timestamp_us = unpack_le (take 8 (zf_payload frame)); report_len = zf_payload frame ! 8 in
        if report_len \<noteq> 8 then Inl ProtocolError
        else
         (let report = map uint (drop 9 (zf_payload frame)) in
          case validate_boot_report report of Inl _ \<Rightarrow> Inl ProtocolError | Inr _ \<Rightarrow> Inr (timestamp_us, report))))"

definition validate_mode_changed :: "protocol_frame \<Rightarrow> (u8 \<times> u8) zero_result" where
  "validate_mode_changed frame =
     (if zf_type frame \<noteq> MODE_CHANGED then Inl ProtocolError
      else if length (zf_payload frame) \<noteq> 2 then Inl ProtocolError
      else
       (let state = zf_payload frame ! 0; reason = zf_payload frame ! 1 in
        if state \<notin> VALID_MODES then Inl ProtocolError
        else if reason \<notin> VALID_REASONS then Inl ProtocolError
        else Inr (state, reason)))"

definition validate_pico_status :: "protocol_frame \<Rightarrow> (u8 \<times> bool list) zero_result" where
  "validate_pico_status frame =
     (if zf_type frame \<noteq> PICO_STATUS then Inl ProtocolError
      else if length (zf_payload frame) \<noteq> 5 then Inl ProtocolError
      else
       (let state = zf_payload frame ! 0; flags = drop 1 (zf_payload frame) in
        if state \<notin> VALID_MODES then Inl ProtocolError
        else if \<exists>flag \<in> set flags. flag \<notin> {0, 1} then Inl ProtocolError
        else Inr (state, map (\<lambda>flag. flag \<noteq> 0) flags)))"

definition validate_buffer_status :: "protocol_frame \<Rightarrow> (u8 \<times> int \<times> int) zero_result" where
  "validate_buffer_status frame =
     (if zf_type frame \<noteq> BUFFER_STATUS then Inl ProtocolError
      else if length (zf_payload frame) \<noteq> 5 then Inl ProtocolError
      else
       (let state = zf_payload frame ! 0;
            queued_count = unpack_le (take 2 (drop 1 (zf_payload frame)));
            free_capacity = unpack_le (drop 3 (zf_payload frame))
        in if state \<notin> VALID_MODES then Inl ProtocolError else Inr (state, queued_count, free_capacity)))"

definition validate_play_started :: "protocol_frame \<Rightarrow> int zero_result" where
  "validate_play_started frame =
     (if zf_type frame \<noteq> PLAY_STARTED then Inl ProtocolError
      else if length (zf_payload frame) \<noteq> 8 then Inl ProtocolError
      else Inr (unpack_le (zf_payload frame)))"

definition validate_play_underrun :: "protocol_frame \<Rightarrow> (int \<times> int) zero_result" where
  "validate_play_underrun frame =
     (if zf_type frame \<noteq> PLAY_UNDERRUN then Inl ProtocolError
      else if length (zf_payload frame) \<noteq> 10 then Inl ProtocolError
      else Inr (unpack_le (take 8 (zf_payload frame)), unpack_le (drop 8 (zf_payload frame))))"

definition validate_play_metrics :: "protocol_frame \<Rightarrow> play_metrics zero_result" where
  "validate_play_metrics frame =
     (if zf_type frame \<noteq> PLAY_METRICS then Inl ProtocolError
      else if length (zf_payload frame) \<noteq> 33 then Inl ProtocolError
      else
       (let b = zf_payload frame; field = (\<lambda>n k. take n (drop k b)) in
        if b ! 32 \<notin> {0, 1} then Inl ProtocolError
        else Inr \<lparr>dispatched_count = unpack_le (field 4 0), underrun_count = unpack_le (field 4 4),
               min_lateness_us = unpack_signed_le (field 4 8), max_lateness_us = unpack_signed_le (field 4 12),
               sum_lateness_us = unpack_signed_le (field 8 16), p95_lateness_us = unpack_signed_le (field 4 24),
               p99_lateness_us = unpack_signed_le (field 4 28), samples_truncated = b ! 32 \<noteq> 0\<rparr>))"

end
