(* ===== verification/Zero_Decoder.thy ===== *)
theory Zero_Decoder
  imports Zero_Protocol
begin

text \<open>
  What the decoder of \<open>zero/app/uart_protocol.py\<close> computes: it does not matter how the bytes are cut into chunks,
  it keeps less than one frame, and from what the Pico sends it takes exactly the Pico's messages.
\<close>

section \<open>Chunks\<close>

lemma decode_candidate_append:
  assumes "decode_candidate m ts buf \<noteq> Await"
  shows "decode_candidate m ts (buf @ ys) = decode_candidate m ts buf"
proof -
  have len: "5 \<le> length buf" using assms by (auto simp: decode_candidate_def split: if_splits)
  then have nth: "(buf @ ys) ! i = buf ! i" if "i < 5" for i using that by (simp add: nth_append)
  define n where "n = nat (uint (buf ! 3) OR push_bit 8 (uint (buf ! 4)))"
  show ?thesis
  proof (cases "7 + n \<le> length buf")
    case True
    then have "take (4 + n) (drop 1 (buf @ ys)) = take (4 + n) (drop 1 buf)" "(buf @ ys) ! (5 + n) = buf ! (5 + n)"
      "(buf @ ys) ! (6 + n) = buf ! (6 + n)" "take n (drop 5 (buf @ ys)) = take n (drop 5 buf)"
      by (simp_all add: nth_append)
    with True show ?thesis
      using len by (simp add: decode_candidate_def Let_def nth n_def [symmetric])
  next
    case False
    with assms len show ?thesis
      by (simp add: decode_candidate_def Let_def nth n_def [symmetric] split: if_splits)
  qed
qed

lemma decode_induct [case_names Nil other magic]:
  assumes "P []" "\<And>b xs. b \<noteq> MAGIC \<Longrightarrow> P xs \<Longrightarrow> P (b # xs)"
    "\<And>xs. (\<And>ys. length ys \<le> length xs \<Longrightarrow> P ys) \<Longrightarrow> P (MAGIC # xs)"
  shows "P data"
proof (induction data rule: length_induct)
  case (1 data)
  show ?case
  proof (cases data)
    case (Cons b xs)
    with 1 have "P ys" if "length ys \<le> length xs" for ys using that by (auto simp: less_Suc_eq_le)
    with assms(2,3) Cons show ?thesis by (cases "b = MAGIC") simp_all
  qed (use assms(1) in simp)
qed

lemma decode_loop_append:
  "decode_loop m ts (xs @ ys) =
     (let (rest, errors, frames) = decode_loop m ts xs; (rest', errors', frames') = decode_loop m ts (rest @ ys)
      in (rest', errors @ errors', frames @ frames'))"
proof (induction xs rule: decode_induct)
  case Nil
  then show ?case by (simp add: decode_loop_Nil split: prod.split)
next
  case (other b xs)
  then show ?case by (simp add: decode_loop_other)
next
  case (magic xs)
  show ?case
  proof (cases "decode_candidate m ts (MAGIC # xs)")
    case Await
    then show ?thesis by (simp add: decode_loop_magic [of m ts xs] split: prod.split)
  next
    case (Discard e)
    then have "decode_candidate m ts (MAGIC # xs @ ys) = Discard e" using decode_candidate_append [of m ts "MAGIC # xs" ys] by simp
    with Discard magic [of xs] show ?thesis by (simp add: decode_loop_magic split: prod.splits)
  next
    case (Take n f)
    then have "decode_candidate m ts (MAGIC # xs @ ys) = Take n f" using decode_candidate_append [of m ts "MAGIC # xs" ys] by simp
    moreover have "drop n (MAGIC # xs @ ys) = drop n (MAGIC # xs) @ ys" "length (drop n (MAGIC # xs)) \<le> length xs"
      using decode_candidate_Take [OF Take] by (cases n; simp)+
    ultimately show ?thesis using Take magic [of "drop n (MAGIC # xs)"] by (simp add: decode_loop_magic split: prod.splits)
  qed
qed

lemma feed_chunks:
  "decoder_feed (xs @ ys) d =
     (let (frames, d1) = decoder_feed xs d; (frames', d2) = decoder_feed ys d1 in (frames @ frames', d2))"
  by (simp add: decoder_feed_def decode_loop_append [of _ _ "zd_buffer d @ xs" ys, simplified] split: prod.split)

lemma Take_shorter: "decode_candidate m ts (b # xs) = Take n f \<Longrightarrow> length (drop n (b # xs)) \<le> length xs"
  using decode_candidate_Take [of m ts "b # xs" n f] by (cases n) simp_all

text \<open>The decoder keeps the beginning of one candidate, which is less than a frame.\<close>

lemma decode_loop_rest:
  "length (fst (decode_loop m ts data)) < 7 + m"
proof (induction data rule: decode_induct)
  case Nil
  then show ?case by (simp add: decode_loop_Nil)
next
  case (other b xs)
  then show ?case by (simp add: decode_loop_other)
next
  case (magic xs)
  show ?case
  proof (cases "decode_candidate m ts (MAGIC # xs)")
    case Await
    then have "length (MAGIC # xs) < 7 + m" by (auto simp: decode_candidate_def Let_def simp del: length_Cons split: if_splits)
    with Await show ?thesis by (simp add: decode_loop_magic)
  next
    case (Discard e)
    with magic [of xs] show ?thesis by (simp add: decode_loop_magic split_beta Let_def)
  next
    case (Take n f)
    moreover have "length (drop n (MAGIC # xs)) \<le> length xs" by (rule Take_shorter [OF Take])
    ultimately show ?thesis using magic [of "drop n (MAGIC # xs)"] by (simp add: decode_loop_magic split_beta Let_def)
  qed
qed

lemma decode_loop_settled: "decode_loop m ts (fst (decode_loop m ts data)) = (fst (decode_loop m ts data), [], [])"
proof (induction data rule: decode_induct)
  case Nil
  then show ?case by (simp add: decode_loop_Nil)
next
  case (other b xs)
  then show ?case by (simp add: decode_loop_other)
next
  case (magic xs)
  show ?case
  proof (cases "decode_candidate m ts (MAGIC # xs)")
    case (Take n f)
    moreover have "length (drop n (MAGIC # xs)) \<le> length xs" by (rule Take_shorter [OF Take])
    ultimately show ?thesis using magic [of "drop n (MAGIC # xs)"] by (simp add: decode_loop_magic split_beta Let_def)
  qed (use magic [of xs] in \<open>simp_all add: decode_loop_magic split_beta Let_def\<close>)
qed

text \<open>\<open>decoder_feed_all\<close>: the calls of \<open>feed\<close> for a list of chunks.\<close>

primrec decoder_feed_all :: "u8 list list \<Rightarrow> incremental_decoder \<Rightarrow> protocol_frame list \<times> incremental_decoder" where
  "decoder_feed_all [] d = ([], d)"
| "decoder_feed_all (chunk # chunks) d =
     (let (frames, d1) = decoder_feed chunk d; (frames', d2) = decoder_feed_all chunks d1 in (frames @ frames', d2))"

definition decoder_settled :: "incremental_decoder \<Rightarrow> bool" where
  "decoder_settled d \<longleftrightarrow> decode_loop (zd_max_payload d) (zd_accepted_types d) (zd_buffer d) = (zd_buffer d, [], [])"

lemma decoder_init_settled: "decoder_settled incremental_decoder_init"
  by (simp add: decoder_settled_def incremental_decoder_init_def decode_loop_Nil)

lemma feed_settled: "decoder_settled (snd (decoder_feed data d))"
  using decode_loop_settled [of "zd_max_payload d" "zd_accepted_types d" "zd_buffer d @ data"]
  by (simp add: decoder_settled_def decoder_feed_def split_beta Let_def)

lemma feed_all: "decoder_settled d \<Longrightarrow> decoder_feed_all chunks d = decoder_feed (concat chunks) d"
proof (induction chunks arbitrary: d)
  case Nil
  then show ?case by (simp add: decoder_settled_def decoder_feed_def)
next
  case (Cons c cs)
  from Cons.IH [OF feed_settled [of c d]] show ?case by (simp add: feed_chunks split_beta Let_def)
qed

section \<open>The messages of the Pico\<close>

text \<open>The payload rules of the two sides agree on what the Pico may send.\<close>

lemma message_type_iff: "ty \<in> PICO_TO_ZERO_TYPES \<longleftrightarrow> pico_uart_type_known ty \<and> \<not> pico_uart_type_is_command ty"
  unfolding type_known_iff pico_uart_type_is_command_def
  by (auto simp: zero_constants zero_type_defs word_le_nat_alt)

lemma message_types: "PICO_TO_ZERO_TYPES = {RECORD_EVENT, PICO_STATUS, BUFFER_STATUS, PLAY_READY, PLAY_STARTED, PLAY_FINISHED,
    PLAY_ABORTED, PLAY_UNDERRUN, ERROR, PONG, MODE_CHANGED, PLAY_METRICS}"
proof (rule set_eqI)
  fix ty :: u8
  have "ty \<in> PICO_TO_ZERO_TYPES \<longleftrightarrow> 1 \<le> ty \<and> ty \<le> 12" by (simp add: zero_constants)
  then show "ty \<in> PICO_TO_ZERO_TYPES \<longleftrightarrow> ty \<in> {RECORD_EVENT, PICO_STATUS, BUFFER_STATUS, PLAY_READY, PLAY_STARTED, PLAY_FINISHED,
      PLAY_ABORTED, PLAY_UNDERRUN, ERROR, PONG, MODE_CHANGED, PLAY_METRICS}"
    unfolding word_range_simps(1) by (simp add: zero_constants)
qed

lemma pico_message_ERROR: "pico_message (PICO_UART_ERROR, body) \<longleftrightarrow> body = []"
  using of_nat_length_eq [of body 0]
  by (auto simp: pico_message_def pico_uart_frame_payload_valid_def type_known_iff command_iff pico_constants Let_def)

lemma payload_rules_agree:
  assumes "length body \<le> 64"
  shows "pico_message (ty, body) \<longleftrightarrow> ty \<in> PICO_TO_ZERO_TYPES \<and> pico_payload_is_valid ty body"
proof (cases "ty \<in> PICO_TO_ZERO_TYPES")
  case True
  then have "pico_message (ty, body) \<longleftrightarrow> pico_payload_is_valid ty body"
    unfolding message_types constants_agree
    by (elim insertE emptyE; simp add: pico_message_ERROR pico_payload_is_valid_def constants_agree)
      (simp_all add: pico_type_defs)
  with True show ?thesis by simp
next
  case False
  then show ?thesis by (auto simp: message_type_iff pico_message_def pico_uart_frame_payload_valid_def Let_def)
qed

lemma uint_u16_le: "uint lo OR push_bit 8 (uint hi) = uint (u16_le lo hi)"
  by (rule bit_eqI) (auto simp: u16_le_def bit_simps dest: bit_imp_le_length)

lemma candidate_wire_frame:
  assumes "pico_message (ty, body)"
  shows "decode_candidate MAX_PAYLOAD PICO_TO_ZERO_TYPES (wire_frame ty body @ rest)
    = Take (7 + length body) \<lparr>zf_type = ty, zf_payload = body\<rparr>"
proof -
  have len: "length body \<le> 64" using assms by (simp add: pico_message_def)
  have ok: "ty \<in> PICO_TO_ZERO_TYPES" "pico_payload_is_valid ty body" using assms payload_rules_agree [OF len] by simp_all
  let ?l = "of_nat (length body) :: u16" and ?crc = "foldl crc_byte 0xFFFF (wire_covered ty body)"
  have n: "uint ?l = int (length body)" using len by (simp add: uint_nat unat_of_nat_le_64)
  define buf where "buf = wire_frame ty body @ rest"
  have buf: "buf = 0xA5 # 2 # ty # lo8 ?l # hi8 ?l # body @ [lo8 ?crc, hi8 ?crc] @ rest"
    by (simp add: buf_def wire_frame_def wire_covered_def Let_def)
  have "buf ! 1 = 2" "buf ! 2 = ty" "buf ! 3 = lo8 ?l" "buf ! 4 = hi8 ?l"
    "buf ! (5 + length body) = lo8 ?crc" "buf ! (6 + length body) = hi8 ?crc"
    "take (length body) (drop 5 buf) = body" "take (4 + length body) (drop 1 buf) = wire_covered ty body"
    "7 + length body \<le> length buf"
    unfolding buf by (simp_all add: nth_append wire_covered_def)
  note fields = this
  show ?thesis
    unfolding buf_def [symmetric]
    using ok len fields(9)
    by (simp add: decode_candidate_def Let_def fields(1-8) uint_u16_le n crc16_word VERSION_def MAX_PAYLOAD_def del: One_nat_def)
qed

definition frame_of :: "message \<Rightarrow> protocol_frame" where
  "frame_of x = \<lparr>zf_type = fst x, zf_payload = snd x\<rparr>"

lemma decode_wire_stream:
  assumes "list_all pico_message ms"
  shows "decode_loop MAX_PAYLOAD PICO_TO_ZERO_TYPES (wire_stream ms) = ([], [], map frame_of ms)"
  using assms
proof (induction ms)
  case Nil
  then show ?case by (simp add: decode_loop_Nil)
next
  case (Cons x ms)
  obtain ty body where x: "x = (ty, body)" by fastforce
  obtain xs where xs: "wire_frame ty body @ wire_stream ms = MAGIC # xs"
    by (simp add: wire_frame_def Let_def MAGIC_def)
  then have "drop (7 + length body) (MAGIC # xs) = wire_stream ms" by (metis append_eq_conv_conj length_wire_frame)
  then show ?case
    using candidate_wire_frame [of ty body "wire_stream ms"] Cons by (simp add: x xs decode_loop_magic frame_of_def)
qed

text \<open>A beginning of the stream, in any chunks, yields a beginning of the messages and no error.\<close>

lemma decode_prefix_stream:
  assumes "list_all pico_message ms" "wire_stream ms = xs @ ys"
  shows "\<exists>n rest. decode_loop MAX_PAYLOAD PICO_TO_ZERO_TYPES xs = (rest, [], map frame_of (take n ms))"
proof -
  obtain rest errors frames where d: "decode_loop MAX_PAYLOAD PICO_TO_ZERO_TYPES xs = (rest, errors, frames)" using prod_cases3 by blast
  obtain rest' errors' frames' where d': "decode_loop MAX_PAYLOAD PICO_TO_ZERO_TYPES (rest @ ys) = (rest', errors', frames')"
    using prod_cases3 by blast
  have "([], [], map frame_of ms) = (rest', errors @ errors', frames @ frames')"
    using decode_wire_stream [OF assms(1)] decode_loop_append [of MAX_PAYLOAD PICO_TO_ZERO_TYPES xs ys] by (simp add: assms(2) d d')
  then have "errors = []" "map frame_of ms = frames @ frames'" by simp_all
  moreover from this(2) have "frames = map frame_of (take (length frames) ms)" by (metis append_eq_conv_conj take_map)
  ultimately have "decode_loop MAX_PAYLOAD PICO_TO_ZERO_TYPES xs = (rest, [], map frame_of (take (length frames) ms))"
    using d by simp
  then show ?thesis by blast
qed

lemma feed_stream:
  assumes "list_all pico_message ms" "wire_stream ms = concat chunks @ ys"
  shows "\<exists>n. fst (decoder_feed_all chunks incremental_decoder_init) = map frame_of (take n ms)
    \<and> zd_errors (snd (decoder_feed_all chunks incremental_decoder_init)) = []"
  using decode_prefix_stream [OF assms]
  by (auto simp: feed_all [OF decoder_init_settled]) (auto simp: decoder_feed_def incremental_decoder_init_def)

end
