(* ===== verification/Zero_Recording.thy ===== *)
theory Zero_Recording
  imports Zero_Floats Zero_Decoder
begin

text \<open>
  \<open>zero/app/recording.py\<close>, the consumption of frames in \<open>zero/app/service.py\<close> and \<open>expand_offsets\<close> of
  \<open>zero/app/playback.py\<close>: captured times become deltas, deltas become offsets for the playback queue. A
  directory of recordings maps names to JSON values; failures of the operating system are left out.
\<close>

section \<open>Recordings\<close>

definition FORMAT_VERSION :: int where [zero_constants]: "FORMAT_VERSION = 1"
definition MAX_U64 :: int where [zero_constants]: "MAX_U64 = push_bit 64 1 - 1"

record recording_event =
  re_dt_us :: int
  re_report :: "int list"

record recording =
  rc_name :: string
  rc_duration_us :: int
  rc_events :: "recording_event list"
  rc_version :: int

definition name_start :: "char \<Rightarrow> bool" where
  "name_start c \<longleftrightarrow> of_char c \<in> {0x41..0x5A::nat} \<union> {0x61..0x7A} \<union> {0x30..0x39}"

definition name_char :: "char \<Rightarrow> bool" where
  "name_char c \<longleftrightarrow> name_start c \<or> c = CHR ''_'' \<or> c = CHR ''.'' \<or> c = CHR ''-''"

definition validate_name :: "string \<Rightarrow> string zero_result" where
  "validate_name name =
     (case name of
        [] \<Rightarrow> Inl RecordingValidationError
      | c # cs \<Rightarrow> if name_start c \<and> list_all name_char cs \<and> length cs \<le> 63 then Inr name else Inl RecordingValidationError)"

definition validate_u64 :: "int \<Rightarrow> int zero_result" where
  "validate_u64 value = (if \<not> (0 \<le> value \<and> value \<le> MAX_U64) then Inl RecordingValidationError else Inr value)"

text \<open>The constructors, with the checks of \<open>__post_init__\<close>.\<close>

definition make_recording_event :: "int \<Rightarrow> int list \<Rightarrow> recording_event zero_result" where
  "make_recording_event dt_us report =
     (case validate_u64 dt_us of
        Inl e \<Rightarrow> Inl e
      | Inr _ \<Rightarrow>
         (case validate_boot_report report of
            Inl e \<Rightarrow> Inl e
          | Inr values \<Rightarrow> Inr \<lparr>re_dt_us = dt_us, re_report = values\<rparr>))"

definition make_recording :: "string \<Rightarrow> int \<Rightarrow> recording_event list \<Rightarrow> int \<Rightarrow> recording zero_result" where
  "make_recording name duration_us evs version =
     (case validate_name name of
        Inl e \<Rightarrow> Inl e
      | Inr _ \<Rightarrow>
         if version \<noteq> FORMAT_VERSION then Inl RecordingValidationError
         else
          (case validate_u64 duration_us of
             Inl e \<Rightarrow> Inl e
           | Inr _ \<Rightarrow>
              if evs \<noteq> [] \<and> re_dt_us (hd evs) \<noteq> 0 then Inl RecordingValidationError
              else if sum_list (map re_dt_us evs) \<noteq> duration_us then Inl RecordingValidationError
              else Inr \<lparr>rc_name = name, rc_duration_us = duration_us, rc_events = evs, rc_version = version\<rparr>))"

section \<open>The builder\<close>

record recording_builder =
  rb_name :: string
  rb_epoch :: "int option"
  rb_last_timestamp :: "int option"
  rb_events :: "recording_event list"

definition recording_builder_init :: "string \<Rightarrow> recording_builder zero_result" where
  "recording_builder_init name =
     (case validate_name name of
        Inl e \<Rightarrow> Inl e
      | Inr n \<Rightarrow> Inr \<lparr>rb_name = n, rb_epoch = None, rb_last_timestamp = None, rb_events = []\<rparr>)"

definition recording_builder_add :: "int \<Rightarrow> int list \<Rightarrow> recording_builder \<Rightarrow> recording_builder zero_result" where
  "recording_builder_add timestamp_us report b =
     (case validate_u64 timestamp_us of
        Inl e \<Rightarrow> Inl e
      | Inr _ \<Rightarrow>
         (case validate_boot_report report of
            Inl e \<Rightarrow> Inl e
          | Inr validated_report \<Rightarrow>
             if rb_last_timestamp b \<noteq> None \<and> timestamp_us < the (rb_last_timestamp b) then Inl RecordingValidationError
             else
              (let (epoch, dt_us) = (case rb_epoch b of
                     None \<Rightarrow> (Some timestamp_us, 0)
                   | Some t \<Rightarrow> (Some t, timestamp_us - the (rb_last_timestamp b)))
               in case make_recording_event dt_us validated_report of
                    Inl e \<Rightarrow> Inl e
                  | Inr event \<Rightarrow> Inr (b\<lparr>rb_epoch := epoch, rb_last_timestamp := Some timestamp_us,
                      rb_events := rb_events b @ [event]\<rparr>))))"

definition recording_builder_build :: "recording_builder \<Rightarrow> recording zero_result" where
  "recording_builder_build b =
     (let duration_us = (if rb_epoch b = None \<or> rb_last_timestamp b = None then 0
            else the (rb_last_timestamp b) - the (rb_epoch b))
      in make_recording (rb_name b) duration_us (rb_events b) FORMAT_VERSION)"

section \<open>JSON\<close>

text \<open>
  The values of the module \<open>json\<close>: \<open>type(value) is int\<close> holds of \<open>J_Int\<close> only. A \<open>dict\<close> is the list of its
  items, with distinct keys.
\<close>

datatype json =
    J_Null
  | J_Bool bool
  | J_Int int
  | J_Float rat
  | J_Str string
  | J_List "json list"
  | J_Dict "(string \<times> json) list"

definition event_to_dict :: "recording_event \<Rightarrow> json" where
  "event_to_dict e = J_Dict [(''dt_us'', J_Int (re_dt_us e)), (''report'', J_List (map J_Int (re_report e)))]"

definition recording_to_dict :: "recording \<Rightarrow> json" where
  "recording_to_dict r =
     J_Dict [(''version'', J_Int FORMAT_VERSION), (''name'', J_Str (rc_name r)), (''duration_us'', J_Int (rc_duration_us r)),
       (''events'', J_List (map event_to_dict (rc_events r)))]"

primrec json_ints :: "json list \<Rightarrow> int list option" where
  "json_ints [] = Some []"
| "json_ints (v # vs) =
     (case v of J_Int n \<Rightarrow> (case json_ints vs of None \<Rightarrow> None | Some ns \<Rightarrow> Some (n # ns)) | _ \<Rightarrow> None)"

definition parse_event :: "json \<Rightarrow> recording_event zero_result" where
  "parse_event event =
     (case event of
        J_Dict items \<Rightarrow>
          if set (map fst items) \<noteq> {''dt_us'', ''report''} then Inl RecordingValidationError
          else
           (case (map_of items ''dt_us'', map_of items ''report'') of
              (Some (J_Int dt_us), Some (J_List report)) \<Rightarrow>
                (case json_ints report of
                   None \<Rightarrow> Inl RecordingValidationError
                 | Some bytes \<Rightarrow> make_recording_event dt_us bytes)
            | _ \<Rightarrow> Inl RecordingValidationError)
      | _ \<Rightarrow> Inl RecordingValidationError)"

primrec parse_events :: "json list \<Rightarrow> recording_event list zero_result" where
  "parse_events [] = Inr []"
| "parse_events (v # vs) =
     (case parse_event v of
        Inl e \<Rightarrow> Inl e
      | Inr event \<Rightarrow> (case parse_events vs of Inl e \<Rightarrow> Inl e | Inr evs \<Rightarrow> Inr (event # evs)))"

definition parse_recording :: "json \<Rightarrow> string option \<Rightarrow> recording zero_result" where
  "parse_recording value expected_name =
     (case value of
        J_Dict items \<Rightarrow>
          if set (map fst items) \<noteq> {''version'', ''name'', ''duration_us'', ''events''} then Inl RecordingValidationError
          else
           (case map_of items ''name'' of
              Some (J_Str n) \<Rightarrow>
               (case validate_name n of
                  Inl e \<Rightarrow> Inl e
                | Inr name \<Rightarrow>
                   if expected_name \<noteq> None \<and> validate_name (the expected_name) \<noteq> Inr name then Inl RecordingValidationError
                   else
                    (case (map_of items ''version'', map_of items ''events'', map_of items ''duration_us'') of
                       (Some (J_Int version), Some (J_List evs), Some (J_Int duration_us)) \<Rightarrow>
                         if version \<noteq> FORMAT_VERSION then Inl RecordingValidationError
                         else (case parse_events evs of Inl e \<Rightarrow> Inl e | Inr parsed \<Rightarrow> make_recording name duration_us parsed version)
                     | _ \<Rightarrow> Inl RecordingValidationError))
            | _ \<Rightarrow> Inl RecordingValidationError)
      | _ \<Rightarrow> Inl RecordingValidationError)"

section \<open>The store\<close>

text \<open>The files of the directory by the stem of their names; \<^const>\<open>None\<close> stands for a text that is not JSON.\<close>

type_synonym directory = "string \<rightharpoonup> json option"

definition store_exists :: "string \<Rightarrow> directory \<Rightarrow> bool zero_result" where
  "store_exists name dir = (case validate_name name of Inl e \<Rightarrow> Inl e | Inr n \<Rightarrow> Inr (dir n \<noteq> None))"

definition store_save :: "recording \<Rightarrow> directory \<Rightarrow> directory zero_result" where
  "store_save r dir =
     (case validate_name (rc_name r) of
        Inl e \<Rightarrow> Inl e
      | Inr n \<Rightarrow> if dir n \<noteq> None then Inl StorageError else Inr (dir(n \<mapsto> Some (recording_to_dict r))))"

definition store_load :: "string \<Rightarrow> directory \<Rightarrow> recording zero_result" where
  "store_load name dir =
     (case validate_name name of
        Inl e \<Rightarrow> Inl e
      | Inr n \<Rightarrow>
         (case dir n of
            None \<Rightarrow> Inl StorageError
          | Some None \<Rightarrow> Inl StorageError
          | Some (Some value) \<Rightarrow> (case parse_recording value (Some name) of Inl e \<Rightarrow> Inl StorageError | Inr r \<Rightarrow> Inr r)))"

definition store_delete :: "string \<Rightarrow> directory \<Rightarrow> directory zero_result" where
  "store_delete name dir =
     (case validate_name name of
        Inl e \<Rightarrow> Inl e
      | Inr n \<Rightarrow> if dir n = None then Inl StorageError else Inr (dir(n := None)))"

definition store_rename :: "string \<Rightarrow> string \<Rightarrow> directory \<Rightarrow> directory zero_result" where
  "store_rename old new dir =
     (case validate_name new of
        Inl e \<Rightarrow> Inl e
      | Inr _ \<Rightarrow>
         if old = new then Inl StorageError
         else
          (case store_load old dir of
             Inl e \<Rightarrow> Inl e
           | Inr r \<Rightarrow>
              (case make_recording new (rc_duration_us r) (rc_events r) FORMAT_VERSION of
                 Inl e \<Rightarrow> Inl e
               | Inr renamed \<Rightarrow>
                  (case store_save renamed dir of Inl e \<Rightarrow> Inl e | Inr dir' \<Rightarrow> store_delete old dir'))))"

section \<open>The recording session\<close>

text \<open>\<open>RecordingSession.consume\<close> on the builder and the count of events.\<close>

definition session_consume :: "protocol_frame \<Rightarrow> recording_builder \<times> nat \<Rightarrow> (recording_builder \<times> nat) zero_result" where
  "session_consume frame s =
     (if zf_type frame = RECORD_EVENT then
        (case validate_record_event frame of
           Inl e \<Rightarrow> Inl e
         | Inr (timestamp_us, report) \<Rightarrow>
            (case recording_builder_add timestamp_us report (fst s) of
               Inl e \<Rightarrow> Inl e
             | Inr b \<Rightarrow> Inr (b, snd s + 1)))
      else if zf_type frame = MODE_CHANGED then Inl ProtocolError
      else Inr s)"

primrec session_consume_all :: "protocol_frame list \<Rightarrow> recording_builder \<times> nat \<Rightarrow> (recording_builder \<times> nat) zero_result" where
  "session_consume_all [] s = Inr s"
| "session_consume_all (frame # frames) s =
     (case session_consume frame s of Inl e \<Rightarrow> Inl e | Inr s' \<Rightarrow> session_consume_all frames s')"

section \<open>Offsets for playback\<close>

text \<open>\<open>round(cumulative_us / speed)\<close>; a quotient beyond the range of a float is infinite, and rounding it fails.\<close>

definition scaled_offset :: "rat \<Rightarrow> int \<Rightarrow> int option" where
  "scaled_offset speed cumulative_us =
     (let d = fdiv (to_double (of_int cumulative_us)) speed
      in if 2 ^ 1024 \<le> d then None else Some (round_half_even d))"

lemma scaled_offset_1:
  assumes "0 \<le> n" "n < 2 ^ 53"
  shows "scaled_offset 1 n = Some n"
proof -
  have "(of_int n :: rat) < of_int (2 ^ 53)" using assms(2) by (simp only: of_int_less_iff)
  then have "\<not> (2 ^ 1024 :: rat) \<le> of_int n" by simp
  then show ?thesis by (simp add: scaled_offset_def fdiv_def to_double_int [OF assms] Let_def)
qed

text \<open>
  \<open>speed\<close> is \<^const>\<open>None\<close> for what is not a finite number. The loop keeps the sum of the deltas; the bytes of a
  report are 0 to 255 in every \<^typ>\<open>recording_event\<close> that the constructor makes.
\<close>

primrec expand_events :: "rat \<Rightarrow> int \<Rightarrow> recording_event list \<Rightarrow> (int \<times> u8 list) list zero_result" where
  "expand_events speed cumulative_us [] = Inr []"
| "expand_events speed cumulative_us (event # evs) =
     (let cumulative_us = cumulative_us + re_dt_us event in
      if cumulative_us > MAX_U64 then Inl RecorderError
      else
       (case scaled_offset speed cumulative_us of
          None \<Rightarrow> Inl RecorderError
        | Some offset_us \<Rightarrow>
           if \<not> (0 \<le> offset_us \<and> offset_us \<le> MAX_U64) then Inl RecorderError
           else
            (case expand_events speed cumulative_us evs of
               Inl e \<Rightarrow> Inl e
             | Inr expanded \<Rightarrow> Inr ((offset_us, map of_int (re_report event)) # expanded))))"

definition expand_offsets :: "recording_event list \<Rightarrow> rat option \<Rightarrow> (int \<times> u8 list) list zero_result" where
  "expand_offsets evs speed =
     (case speed of
        None \<Rightarrow> Inl RecorderError
      | Some v \<Rightarrow> if v \<le> 0 then Inl RecorderError else expand_events v 0 evs)"

section \<open>Round trip through JSON\<close>

definition event_ok :: "recording_event \<Rightarrow> bool" where
  "event_ok e \<longleftrightarrow> 0 \<le> re_dt_us e \<and> re_dt_us e \<le> MAX_U64 \<and> length (re_report e) = 8 \<and> (\<forall>b \<in> set (re_report e). 0 \<le> b \<and> b \<le> 0xFF)"

definition recording_ok :: "recording \<Rightarrow> bool" where
  "recording_ok r \<longleftrightarrow> make_recording (rc_name r) (rc_duration_us r) (rc_events r) (rc_version r) = Inr r \<and> list_all event_ok (rc_events r)"

lemma make_recording_event_ok: "event_ok e \<Longrightarrow> make_recording_event (re_dt_us e) (re_report e) = Inr e"
  by (cases e) (auto simp: event_ok_def make_recording_event_def validate_u64_def validate_boot_report_def)

lemma make_recording_event_Inr: "make_recording_event dt report = Inr e \<Longrightarrow> event_ok e \<and> e = \<lparr>re_dt_us = dt, re_report = report\<rparr>"
  by (auto simp: event_ok_def make_recording_event_def validate_u64_def validate_boot_report_def split: if_splits)

lemma validate_name_same: "validate_name n = Inr m \<Longrightarrow> m = n"
  by (auto simp: validate_name_def split: list.splits if_splits)

lemma make_recording_Inr:
  "make_recording name d evs v = Inr r \<Longrightarrow> r = \<lparr>rc_name = name, rc_duration_us = d, rc_events = evs, rc_version = v\<rparr>
    \<and> validate_name name = Inr name \<and> v = FORMAT_VERSION"
  by (auto simp: make_recording_def dest: validate_name_same split: sum.splits if_splits)

lemma json_ints_map [simp]: "json_ints (map J_Int ns) = Some ns"
  by (induction ns) simp_all

lemma parse_event_dict: "event_ok e \<Longrightarrow> parse_event (event_to_dict e) = Inr e"
  using make_recording_event_ok by (auto simp: parse_event_def event_to_dict_def)

lemma parse_events_dict: "list_all event_ok evs \<Longrightarrow> parse_events (map event_to_dict evs) = Inr evs"
  by (induction evs) (simp_all add: parse_event_dict)

lemma parse_recording_dict:
  assumes "recording_ok r" "expected = None \<or> expected = Some (rc_name r)"
  shows "parse_recording (recording_to_dict r) expected = Inr r"
proof -
  have made: "make_recording (rc_name r) (rc_duration_us r) (rc_events r) (rc_version r) = Inr r" "list_all event_ok (rc_events r)"
    using assms(1) by (simp_all add: recording_ok_def)
  note fields = make_recording_Inr [OF made(1)]
  have "map_of [(''version'', J_Int FORMAT_VERSION), (''name'', J_Str (rc_name r)), (''duration_us'', J_Int (rc_duration_us r)),
       (''events'', J_List (map event_to_dict (rc_events r)))] k
    = (if k = ''version'' then Some (J_Int FORMAT_VERSION) else if k = ''name'' then Some (J_Str (rc_name r))
       else if k = ''duration_us'' then Some (J_Int (rc_duration_us r))
       else if k = ''events'' then Some (J_List (map event_to_dict (rc_events r))) else None)" for k by simp
  moreover have "set (map fst [(''version'', J_Int FORMAT_VERSION), (''name'', J_Str (rc_name r)), (''duration_us'', J_Int (rc_duration_us r)),
       (''events'', J_List (map event_to_dict (rc_events r)))]) = {''version'', ''name'', ''duration_us'', ''events''}" by auto
  ultimately show ?thesis
    using fields made parse_events_dict [OF made(2)] assms(2)
    by (auto simp: parse_recording_def recording_to_dict_def)
qed

lemma saved_is_loaded:
  assumes "recording_ok r" "store_save r dir = Inr dir'"
  shows "store_load (rc_name r) dir' = Inr r" "dir (rc_name r) = None" "n \<noteq> rc_name r \<Longrightarrow> dir' n = dir n"
  using assms parse_recording_dict [OF assms(1), of "Some (rc_name r)"]
  by (auto simp: store_save_def store_load_def dest: validate_name_same split: sum.splits if_splits)

lemma parse_events_ok: "parse_events vs = Inr evs \<Longrightarrow> list_all event_ok evs"
proof (induction vs arbitrary: evs)
  case (Cons v vs)
  then obtain e es where "parse_event v = Inr e" "parse_events vs = Inr es" "evs = e # es" by (auto split: sum.splits)
  with Cons.IH make_recording_event_Inr show ?case
    by (auto simp: parse_event_def split: json.splits if_splits option.splits sum.splits)
qed simp

lemma parse_recording_Inr:
  assumes "parse_recording v expected = Inr r"
  shows "recording_ok r \<and> (expected = None \<or> expected = Some (rc_name r))"
proof -
  from assms obtain name duration evs where made: "make_recording name duration evs FORMAT_VERSION = Inr r" "list_all event_ok evs"
    "expected = None \<or> validate_name (the expected) = Inr name"
    by (auto simp: parse_recording_def dest: parse_events_ok split: json.splits if_splits option.splits sum.splits)
  with make_recording_Inr [OF made(1)] show ?thesis by (cases expected) (auto simp: recording_ok_def dest: validate_name_same)
qed

text \<open>A rename keeps the events, moves them to the new name, and clobbers nothing.\<close>

lemma renamed_recording:
  assumes "store_rename old new dir = Inr dir'"
  shows "\<exists>r. store_load old dir = Inr r \<and> store_load new dir' = Inr (r\<lparr>rc_name := new\<rparr>) \<and> dir new = None \<and> dir' old = None
    \<and> (\<forall>n. n \<noteq> old \<and> n \<noteq> new \<longrightarrow> dir' n = dir n)"
proof -
  from assms obtain r renamed dir1 where r: "old \<noteq> new" "store_load old dir = Inr r"
    "make_recording new (rc_duration_us r) (rc_events r) FORMAT_VERSION = Inr renamed" "store_save renamed dir = Inr dir1"
    "store_delete old dir1 = Inr dir'"
    by (auto simp: store_rename_def split: sum.splits if_splits)
  from r(2) have "recording_ok r" by (auto simp: store_load_def dest: parse_recording_Inr split: sum.splits option.splits)
  note old_fields = make_recording_Inr [of "rc_name r" "rc_duration_us r" "rc_events r" "rc_version r" r]
  note fields = make_recording_Inr [OF r(3)]
  from fields \<open>recording_ok r\<close> old_fields r(3) have ok: "recording_ok renamed" "renamed = r\<lparr>rc_name := new\<rparr>"
    by (cases r; auto simp: recording_ok_def)+
  note saved = saved_is_loaded [OF ok(1) r(4)]
  have gone: "dir' = dir1(old := None)" using r(5) by (auto simp: store_delete_def dest: validate_name_same split: sum.splits if_splits)
  with saved(1) r(1) fields have "store_load new dir' = Inr renamed"
    by (auto simp: store_load_def dest: validate_name_same split: sum.splits)
  with gone saved(2,3) r(1,2) fields ok(2) show ?thesis by auto
qed

end
