(* ===== verification/Zero_Capture.thy ===== *)
theory Zero_Capture
  imports Zero_Recording
begin

text \<open>
  What a recording of \<open>zero/app/recording.py\<close> holds: the builder accepts times that never go back and makes one
  event of each report; its deltas add up to the duration; and \<open>expand_offsets\<close> at normal speed gives back the
  times of capture, counted from the first.
\<close>

section \<open>The builder\<close>

text \<open>\<open>event_deltas\<close> and \<open>builder_of\<close>: the recording of a list of times with reports, all at once.\<close>

primrec event_deltas :: "int \<Rightarrow> (int \<times> int list) list \<Rightarrow> recording_event list" where
  "event_deltas t [] = []"
| "event_deltas t (x # xs) = \<lparr>re_dt_us = fst x - t, re_report = snd x\<rparr> # event_deltas (fst x) xs"

definition recorded_events :: "(int \<times> int list) list \<Rightarrow> recording_event list" where
  "recorded_events xs = (case xs of [] \<Rightarrow> [] | x # _ \<Rightarrow> event_deltas (fst x) xs)"

definition recorded_duration :: "(int \<times> int list) list \<Rightarrow> int" where
  "recorded_duration xs = (if xs = [] then 0 else fst (last xs) - fst (hd xs))"

definition builder_of :: "string \<Rightarrow> (int \<times> int list) list \<Rightarrow> recording_builder" where
  "builder_of name xs =
     \<lparr>rb_name = name, rb_epoch = (if xs = [] then None else Some (fst (hd xs))),
      rb_last_timestamp = (if xs = [] then None else Some (fst (last xs))), rb_events = recorded_events xs\<rparr>"

definition report_ok :: "int list \<Rightarrow> bool" where
  "report_ok report \<longleftrightarrow> length report = 8 \<and> (\<forall>b \<in> set report. 0 \<le> b \<and> b \<le> 0xFF)"

definition captures_ok :: "(int \<times> int list) list \<Rightarrow> bool" where
  "captures_ok xs \<longleftrightarrow> sorted (map fst xs) \<and> (\<forall>x \<in> set xs. 0 \<le> fst x \<and> fst x \<le> MAX_U64 \<and> report_ok (snd x))"

lemma validate_report_iff: "validate_boot_report report = Inr r \<longleftrightarrow> report_ok report \<and> r = report"
  by (auto simp: validate_boot_report_def report_ok_def)

lemma validate_u64_iff: "validate_u64 v = Inr w \<longleftrightarrow> 0 \<le> v \<and> v \<le> MAX_U64 \<and> w = v"
  by (auto simp: validate_u64_def)

lemma event_deltas_append:
  "event_deltas t (xs @ [x]) = event_deltas t xs @ [\<lparr>re_dt_us = fst x - (if xs = [] then t else fst (last xs)), re_report = snd x\<rparr>]"
  by (induction xs arbitrary: t) auto

lemma recorded_events_append:
  "recorded_events (xs @ [x]) = recorded_events xs @ [\<lparr>re_dt_us = (if xs = [] then 0 else fst x - fst (last xs)), re_report = snd x\<rparr>]"
  by (cases xs) (auto simp: recorded_events_def event_deltas_append)

lemma captures_ok_append:
  "captures_ok (xs @ [x]) \<longleftrightarrow> captures_ok xs \<and> 0 \<le> fst x \<and> fst x \<le> MAX_U64 \<and> report_ok (snd x) \<and> (xs = [] \<or> fst (last xs) \<le> fst x)"
proof -
  have "(\<forall>y \<in> set xs. fst y \<le> fst x) \<longleftrightarrow> xs = [] \<or> fst (last xs) \<le> fst x" if "sorted (map fst xs)"
  proof (cases xs rule: rev_cases)
    case (snoc ys y)
    with that show ?thesis by (auto simp: sorted_append)
  qed simp
  then show ?thesis by (auto simp: captures_ok_def sorted_append)
qed

lemma builder_add:
  assumes "captures_ok xs"
  shows "recording_builder_add t report (builder_of name xs) = Inr b
    \<longleftrightarrow> captures_ok (xs @ [(t, report)]) \<and> b = builder_of name (xs @ [(t, report)])"
proof (cases "0 \<le> t \<and> t \<le> MAX_U64 \<and> report_ok report")
  case True
  then have ok: "validate_u64 t = Inr t" "validate_boot_report report = Inr report"
    by (simp_all add: validate_u64_iff validate_report_iff)
  have low: "0 \<le> fst (last xs)" if "xs \<noteq> []" using assms that last_in_set [of xs] by (auto simp: captures_ok_def)
  have "make_recording_event (if xs = [] then 0 else t - fst (last xs)) report
      = Inr \<lparr>re_dt_us = (if xs = [] then 0 else t - fst (last xs)), re_report = report\<rparr>" if "xs = [] \<or> fst (last xs) \<le> t"
    using that low True by (auto simp: make_recording_event_def validate_u64_def ok MAX_U64_def)
  with True assms show ?thesis
    by (auto simp: recording_builder_add_def ok builder_of_def captures_ok_append recorded_events_append split: if_splits)
next
  case False
  then show ?thesis
    by (auto simp: recording_builder_add_def captures_ok_append validate_u64_def validate_boot_report_def report_ok_def)
qed

lemma sum_deltas: "xs \<noteq> [] \<Longrightarrow> sum_list (map re_dt_us (event_deltas t xs)) = fst (last xs) - t"
  by (induction xs arbitrary: t) (auto split: if_splits)

lemma deltas_ok: "captures_ok xs \<Longrightarrow> 0 \<le> t \<Longrightarrow> xs = [] \<or> t \<le> fst (hd xs) \<Longrightarrow> list_all event_ok (event_deltas t xs)"
proof (induction xs arbitrary: t)
  case (Cons x xs)
  then have "captures_ok xs" "0 \<le> fst x" "xs = [] \<or> fst x \<le> fst (hd xs)" by (cases xs; auto simp: captures_ok_def)+
  with Cons show ?case by (auto simp: captures_ok_def event_ok_def report_ok_def)
qed simp

lemma build_recording:
  assumes "captures_ok xs" "validate_name name = Inr name"
  defines "r \<equiv> \<lparr>rc_name = name, rc_duration_us = recorded_duration xs, rc_events = recorded_events xs, rc_version = FORMAT_VERSION\<rparr>"
  shows "recording_builder_build (builder_of name xs) = Inr r" "recording_ok r"
proof -
  have "0 \<le> recorded_duration xs \<and> recorded_duration xs \<le> MAX_U64 \<and> sum_list (map re_dt_us (recorded_events xs)) = recorded_duration xs
      \<and> (recorded_events xs = [] \<or> re_dt_us (hd (recorded_events xs)) = 0) \<and> list_all event_ok (recorded_events xs)"
  proof (cases xs)
    case (Cons x ys)
    have "fst x \<le> fst (last xs)" "0 \<le> fst x" "fst (last xs) \<le> MAX_U64"
      using assms(1) last_in_set [of xs] Cons by (auto simp: captures_ok_def split: if_splits)
    with Cons assms(1) deltas_ok [OF assms(1), of "fst x"] sum_deltas [of xs "fst x"] show ?thesis
      by (auto simp: recorded_duration_def recorded_events_def)
  qed (simp add: recorded_duration_def recorded_events_def MAX_U64_def)
  then have "make_recording name (recorded_duration xs) (recorded_events xs) FORMAT_VERSION = Inr r \<and> list_all event_ok (recorded_events xs)"
    using assms(2) by (auto simp: make_recording_def validate_u64_def r_def)
  moreover have "recording_builder_build (builder_of name xs) = make_recording name (recorded_duration xs) (recorded_events xs) FORMAT_VERSION"
    by (simp add: recording_builder_build_def builder_of_def recorded_duration_def)
  ultimately show "recording_builder_build (builder_of name xs) = Inr r" "recording_ok r"
    by (simp_all add: recording_ok_def r_def)
qed

section \<open>Consuming frames\<close>

text \<open>\<open>captures_in\<close>: the times and reports of the RECORD_EVENT frames among frames.\<close>

definition captures_in :: "protocol_frame list \<Rightarrow> (int \<times> int list) list" where
  "captures_in fs = map (\<lambda>f. (unpack_le (take 8 (zf_payload f)), map uint (drop 9 (zf_payload f)))) (filter (\<lambda>f. zf_type f = RECORD_EVENT) fs)"

lemma captures_in_simps [simp]:
  "captures_in [] = []" "captures_in (fs @ gs) = captures_in fs @ captures_in gs"
  by (simp_all add: captures_in_def)

lemma consume_frame:
  assumes "captures_ok xs" "session_consume f (builder_of name xs, n) = Inr s"
  shows "captures_ok (xs @ captures_in [f]) \<and> s = (builder_of name (xs @ captures_in [f]), n + length (captures_in [f]))
    \<and> zf_type f \<noteq> MODE_CHANGED"
proof (cases "zf_type f = RECORD_EVENT")
  case True
  with assms(2) obtain t report b where b: "validate_record_event f = Inr (t, report)"
    "recording_builder_add t report (builder_of name xs) = Inr b" "s = (b, n + 1)"
    by (auto simp: session_consume_def split: sum.splits)
  from b(1) True have "captures_in [f] = [(t, report)]"
    by (auto simp: validate_record_event_def captures_in_def Let_def split: if_splits sum.splits)
  with b(2,3) True show ?thesis unfolding builder_add [OF assms(1)] by (simp add: zero_constants)
next
  case False
  with assms show ?thesis by (auto simp: session_consume_def captures_in_def split: if_splits)
qed

lemma consume_frames:
  "captures_ok xs \<Longrightarrow> session_consume_all fs (builder_of name xs, n) = Inr s \<Longrightarrow>
    captures_ok (xs @ captures_in fs) \<and> s = (builder_of name (xs @ captures_in fs), n + length (captures_in fs))
    \<and> MODE_CHANGED \<notin> zf_type ` set fs"
proof (induction fs arbitrary: xs n)
  case (Cons f fs)
  then obtain s1 where s1: "session_consume f (builder_of name xs, n) = Inr s1" "session_consume_all fs s1 = Inr s" by (auto split: sum.splits)
  note one = consume_frame [OF Cons.prems(1) s1(1)]
  have split: "captures_in (f # fs) = captures_in [f] @ captures_in fs" using captures_in_simps(2) [of "[f]" fs] by simp
  from Cons.IH [of "xs @ captures_in [f]" "n + length (captures_in [f])"] one s1(2) show ?case by (auto simp: split)
qed simp

section \<open>Offsets at normal speed\<close>

lemma expand_deltas:
  "captures_ok xs \<Longrightarrow> 0 \<le> c \<Longrightarrow> \<forall>x \<in> set xs. t \<le> fst x \<and> c + fst x - t < 2 ^ 53 \<Longrightarrow>
    expand_events 1 c (event_deltas t xs) = Inr (map (\<lambda>x. (c + fst x - t, map of_int (snd x))) xs)"
proof (induction xs arbitrary: c t)
  case (Cons x xs)
  define d where "d = c + (fst x - t)"
  have d: "0 \<le> d" "d < 2 ^ 53" using Cons.prems by (auto simp: d_def)
  have "captures_ok xs" "\<forall>y \<in> set xs. fst x \<le> fst y" using Cons.prems(1) by (auto simp: captures_ok_def)
  with Cons.prems d have "expand_events 1 d (event_deltas (fst x) xs) = Inr (map (\<lambda>y. (d + fst y - fst x, map of_int (snd y))) xs)"
    by (intro Cons.IH) (auto simp: d_def algebra_simps)
  moreover have "\<not> MAX_U64 < d" using d by (simp add: MAX_U64_def)
  ultimately show ?case
    using scaled_offset_1 [OF d] d(1) by (simp add: d_def [symmetric] Let_def) (simp add: d_def algebra_simps)
qed simp

lemma expand_recorded:
  assumes "captures_ok xs" "recorded_duration xs < 2 ^ 53"
  shows "expand_offsets (recorded_events xs) (Some 1) = Inr (map (\<lambda>x. (fst x - fst (hd xs), map of_int (snd x))) xs)"
proof (cases xs)
  case (Cons y ys)
  have "\<forall>x \<in> set xs. fst y \<le> fst x \<and> fst x \<le> fst (last xs)"
  proof
    fix x assume x: "x \<in> set xs"
    then obtain i where i: "i < length xs" "x = xs ! i" by (auto simp: in_set_conv_nth)
    have "map fst xs ! i \<le> map fst xs ! (length xs - 1)" using assms(1) i by (intro sorted_nth_mono) (auto simp: captures_ok_def)
    moreover have "last xs = xs ! (length xs - 1)" using Cons by (simp add: last_conv_nth)
    ultimately have "fst x \<le> fst (last xs)" using i by (metis Cons diff_less length_greater_0_conv less_numeral_extra(1) list.discI nth_map)
    with Cons assms(1) x show "fst y \<le> fst x \<and> fst x \<le> fst (last xs)" by (auto simp: captures_ok_def)
  qed
  with assms Cons expand_deltas [OF assms(1), of 0 "fst y"] show ?thesis
    by (force simp: expand_offsets_def recorded_events_def recorded_duration_def)
qed (simp add: expand_offsets_def recorded_events_def)

end
