(* ===== verification/Zero_Transport.thy ===== *)
theory Zero_Transport
  imports Zero_Floats Zero_Decoder
begin

text \<open>
  \<open>zero/app/transport.py\<close>: the serial transport of the Pi Zero and the handshake of a mode change. The stream, the
  clock and the cancellation hook are not code of the repository: they are a record of operations on a world
  of any type. An action takes the state to what it returns or raises and the state it leaves, or to
  \<^const>\<open>None\<close> when it never returns.
\<close>

section \<open>Actions\<close>

type_synonym ('a, 's) action = "'s \<Rightarrow> ('a zero_result \<times> 's) option"

definition returns :: "'a \<Rightarrow> ('a, 's) action" where
  "returns x s = Some (Inr x, s)"

definition raises :: "zero_error \<Rightarrow> ('a, 's) action" where
  "raises e s = Some (Inl e, s)"

definition and_then :: "('a, 's) action \<Rightarrow> ('a \<Rightarrow> ('b, 's) action) \<Rightarrow> ('b, 's) action" where
  "and_then m f s =
     (case m s of
        None \<Rightarrow> None
      | Some (Inl e, s') \<Rightarrow> Some (Inl e, s')
      | Some (Inr x, s') \<Rightarrow> f x s')"

text \<open>A checked value.\<close>

definition lift_result :: "'a zero_result \<Rightarrow> ('a, 's) action" where
  "lift_result r s = Some (r, s)"

section \<open>The stream and the transport\<close>

text \<open>
  \<open>io_read\<close> is \<^const>\<open>None\<close> for an \<open>OSError\<close>. So is \<open>io_write\<close>, which otherwise gives what \<open>write\<close> returns,
  \<open>None\<close> or a number. \<open>io_cancelled\<close> says that there is a cancellation hook and that it is set.
\<close>

record 'z zero_io =
  io_read :: "nat \<Rightarrow> 'z \<Rightarrow> u8 list option \<times> 'z"
  io_write :: "u8 list \<Rightarrow> 'z \<Rightarrow> nat option option \<times> 'z"
  io_clock :: "'z \<Rightarrow> rat \<times> 'z"
  io_cancelled :: "'z \<Rightarrow> bool \<times> 'z"

record 'z pico_transport =
  pt_stream :: 'z
  pt_read_size :: nat
  pt_decoder :: incremental_decoder
  pt_pending :: "protocol_frame list"

definition pico_transport_init :: "'z \<Rightarrow> 'z pico_transport" where
  "pico_transport_init z = \<lparr>pt_stream = z, pt_read_size = 256, pt_decoder = incremental_decoder_init, pt_pending = []\<rparr>"

definition now :: "'z zero_io \<Rightarrow> ('z, 'm) pico_transport_scheme \<Rightarrow> rat \<times> ('z, 'm) pico_transport_scheme" where
  "now io t = (let (c, z) = io_clock io (pt_stream t) in (c, t\<lparr>pt_stream := z\<rparr>))"

definition write_bytes :: "'z zero_io \<Rightarrow> u8 list \<Rightarrow> (unit, ('z, 'm) pico_transport_scheme) action" where
  "write_bytes io data t =
     (let (written, z) = io_write io data (pt_stream t); t = t\<lparr>pt_stream := z\<rparr> in
      case written of
        None \<Rightarrow> raises ProtocolError t
      | Some None \<Rightarrow> returns () t
      | Some (Some n) \<Rightarrow> if n \<noteq> length data then raises ProtocolError t else returns () t)"

definition send_encoded :: "'z zero_io \<Rightarrow> u8 list zero_result \<Rightarrow> (unit, ('z, 'm) pico_transport_scheme) action" where
  "send_encoded io encoded = and_then (lift_result encoded) (write_bytes io)"

definition send_queue_clear :: "'z zero_io \<Rightarrow> (unit, ('z, 'm) pico_transport_scheme) action" where
  "send_queue_clear io = send_encoded io encode_queue_clear"

definition send_queue_event :: "'z zero_io \<Rightarrow> int \<Rightarrow> u8 list \<Rightarrow> (unit, ('z, 'm) pico_transport_scheme) action" where
  "send_queue_event io offset_us report = send_encoded io (encode_queue_event offset_us report)"

definition send_queue_end :: "'z zero_io \<Rightarrow> (unit, ('z, 'm) pico_transport_scheme) action" where
  "send_queue_end io = send_encoded io encode_queue_end"

definition send_play_start :: "'z zero_io \<Rightarrow> (unit, ('z, 'm) pico_transport_scheme) action" where
  "send_play_start io = send_encoded io encode_play_start"

definition send_play_abort :: "'z zero_io \<Rightarrow> (unit, ('z, 'm) pico_transport_scheme) action" where
  "send_play_abort io = send_encoded io encode_play_abort"

section \<open>Receiving\<close>

text \<open>
  The body of the loop of \<open>receive_frame\<close> up to the test of the deadline: it raises, or it has a frame, or it
  has none yet.
\<close>

definition receive_round :: "'z zero_io \<Rightarrow> ('z, 'm) pico_transport_scheme \<Rightarrow>
    protocol_frame option zero_result \<times> ('z, 'm) pico_transport_scheme" where
  "receive_round io t =
     (let (cancelled, z) = io_cancelled io (pt_stream t); t = t\<lparr>pt_stream := z\<rparr> in
      if cancelled then (Inl TransportTimeout, t)
      else
       (let (data, z) = io_read io (pt_read_size t) (pt_stream t); t = t\<lparr>pt_stream := z\<rparr> in
        case data of
          None \<Rightarrow> (Inl ProtocolError, t)
        | Some data \<Rightarrow>
           if data = [] then (Inr None, t)
           else
            (let (frames, d) = decoder_feed data (pt_decoder t); (errors, d) = decoder_pop_errors d; t = t\<lparr>pt_decoder := d\<rparr> in
             if errors \<noteq> [] then (Inl ProtocolError, t)
             else
              (case pt_pending t @ frames of
                 [] \<Rightarrow> (Inr None, t)
               | frame # rest \<Rightarrow> (Inr (Some frame), t\<lparr>pt_pending := rest\<rparr>)))))"

partial_function (option) receive_loop :: "'z zero_io \<Rightarrow> rat \<Rightarrow> (protocol_frame, ('z, 'm) pico_transport_scheme) action" where
  "receive_loop io deadline t =
     (case receive_round io t of
        (Inl e, t) \<Rightarrow> raises e t
      | (Inr (Some frame), t) \<Rightarrow> returns frame t
      | (Inr None, t) \<Rightarrow>
          (let (c, t) = now io t in if deadline \<le> c then raises TransportTimeout t else receive_loop io deadline t))"

definition receive_frame :: "'z zero_io \<Rightarrow> rat \<Rightarrow> (protocol_frame, ('z, 'm) pico_transport_scheme) action" where
  "receive_frame io timeout t =
     (case pt_pending t of
        frame # rest \<Rightarrow> returns frame (t\<lparr>pt_pending := rest\<rparr>)
      | [] \<Rightarrow> (let (c, t) = now io t in receive_loop io (fadd c timeout) t))"

definition drain_pending_frames :: "('z, 'm) pico_transport_scheme \<Rightarrow> protocol_frame list \<times> ('z, 'm) pico_transport_scheme" where
  "drain_pending_frames t = (pt_pending t, t\<lparr>pt_pending := []\<rparr>)"

definition preserve_frames :: "protocol_frame list \<Rightarrow> ('z, 'm) pico_transport_scheme \<Rightarrow> ('z, 'm) pico_transport_scheme" where
  "preserve_frames frames t = t\<lparr>pt_pending := frames @ pt_pending t\<rparr>"

definition require_not_error :: "protocol_frame \<Rightarrow> protocol_frame zero_result" where
  "require_not_error frame =
     (if zf_type frame = ERROR then Inl PicoError
      else if zf_type frame = PICO_STATUS then
        (case validate_pico_status frame of
           Inl e \<Rightarrow> Inl e
         | Inr (state, faults) \<Rightarrow> if state = MODE_ERROR \<or> (\<exists>fault \<in> set faults. fault) then Inl PicoError else Inr frame)
      else if zf_type frame = MODE_CHANGED then
        (case validate_mode_changed frame of
           Inl e \<Rightarrow> Inl e
         | Inr (state, reason) \<Rightarrow> if state = MODE_ERROR then Inl PicoError else Inr frame)
      else Inr frame)"

text \<open>
  \<open>_await\<close>: the body of the loop waits for one frame within the time that remains; frames of other types are
  kept in order, also when an exception ends the wait.
\<close>

definition await_round :: "'z zero_io \<Rightarrow> rat \<Rightarrow> (protocol_frame, ('z, 'm) pico_transport_scheme) action" where
  "await_round io deadline t =
     (let (c, t) = now io t; remaining = fsub deadline c in
      if remaining \<le> 0 then raises TransportTimeout t
      else and_then (receive_frame io remaining) (\<lambda>frame. lift_result (require_not_error frame)) t)"

partial_function (option) await_loop ::
  "'z zero_io \<Rightarrow> u8 \<Rightarrow> rat \<Rightarrow> protocol_frame list \<Rightarrow> (protocol_frame, ('z, 'm) pico_transport_scheme) action" where
  "await_loop io message_type deadline deferred t =
     (case await_round io deadline t of
        None \<Rightarrow> None
      | Some (Inl e, t) \<Rightarrow> raises e (preserve_frames deferred t)
      | Some (Inr frame, t) \<Rightarrow>
          if zf_type frame \<noteq> message_type then await_loop io message_type deadline (deferred @ [frame]) t
          else returns frame (preserve_frames deferred t))"

definition await_frame :: "'z zero_io \<Rightarrow> u8 \<Rightarrow> rat \<Rightarrow> (protocol_frame, ('z, 'm) pico_transport_scheme) action" where
  "await_frame io message_type timeout t =
     (let (c, t) = now io t in await_loop io message_type (fadd c timeout) [] t)"

section \<open>The handshake of a mode change\<close>

text \<open>The attempts of \<open>set_mode\<close>, the last one when no retry is left.\<close>

primrec set_mode_attempts :: "'z zero_io \<Rightarrow> u8 \<Rightarrow> rat \<Rightarrow> nat \<Rightarrow> (unit, ('z, 'm) pico_transport_scheme) action" where
  "set_mode_attempts io target_mode timeout 0 = raises TransportTimeout"
| "set_mode_attempts io target_mode timeout (Suc n) =
     and_then (send_encoded io (encode_frame MODE_SET [target_mode])) (\<lambda>_ t.
       case await_frame io MODE_CHANGED timeout t of
         None \<Rightarrow> None
       | Some (Inl e, t) \<Rightarrow>
           if e = TransportTimeout \<and> n \<noteq> 0 then set_mode_attempts io target_mode timeout n t else raises e t
       | Some (Inr frame, t) \<Rightarrow>
          (case validate_mode_changed frame of
             Inl e \<Rightarrow> raises e t
           | Inr (state, reason) \<Rightarrow>
               if state = target_mode \<and> reason = REASON_OK then returns () t else raises ModeRejected t))"

definition set_mode :: "'z zero_io \<Rightarrow> u8 \<Rightarrow> rat \<Rightarrow> int \<Rightarrow> (unit, ('z, 'm) pico_transport_scheme) action" where
  "set_mode io target_mode timeout retries t =
     (if target_mode \<notin> {0, 1, 2} then raises ProtocolError t
      else if retries < 0 then raises ProtocolError t
      else set_mode_attempts io target_mode timeout (nat (retries + 1)) t)"

section \<open>Loading a queue\<close>

text \<open>\<open>queue_events\<close> with its deadline for the whole call.\<close>

definition queue_await :: "'z zero_io \<Rightarrow> rat \<Rightarrow> u8 \<Rightarrow> (protocol_frame, ('z, 'm) pico_transport_scheme) action" where
  "queue_await io deadline message_type t =
     (let (c, t) = now io t; left = fsub deadline c in
      if left \<le> 0 then raises TransportTimeout t else await_frame io message_type left t)"

definition queue_credit_of :: "'z zero_io \<Rightarrow> rat \<Rightarrow> (int, ('z, 'm) pico_transport_scheme) action" where
  "queue_credit_of io deadline =
     and_then (queue_await io deadline BUFFER_STATUS) (\<lambda>frame.
     and_then (lift_result (validate_buffer_status frame)) (\<lambda>(_, _, free_capacity). returns free_capacity))"

primrec queue_events_loop :: "'z zero_io \<Rightarrow> rat \<Rightarrow> (int \<times> u8 list) list \<Rightarrow> int \<Rightarrow> (unit, ('z, 'm) pico_transport_scheme) action" where
  "queue_events_loop io deadline [] free_capacity = returns ()"
| "queue_events_loop io deadline (event # evs) free_capacity =
     (if free_capacity \<le> 0 then raises ProtocolError
      else
        and_then (send_queue_event io (fst event) (snd event)) (\<lambda>_.
        and_then (queue_credit_of io deadline) (queue_events_loop io deadline evs)))"

definition queue_events :: "'z zero_io \<Rightarrow> (int \<times> u8 list) list \<Rightarrow> rat \<Rightarrow> (unit, ('z, 'm) pico_transport_scheme) action" where
  "queue_events io evs timeout t =
     (let (c, t) = now io t; deadline = fadd c timeout in
      and_then (send_queue_clear io) (\<lambda>_.
      and_then (queue_credit_of io deadline) (\<lambda>free_capacity.
      and_then (queue_events_loop io deadline evs free_capacity) (\<lambda>_.
      and_then (send_queue_end io) (\<lambda>_.
      and_then (queue_await io deadline PLAY_READY) (\<lambda>_.
      and_then (queue_credit_of io deadline) (\<lambda>_. returns ())))))) t)"

end
