(* ===== verification/Zero_Handshake.thy ===== *)
theory Zero_Handshake
  imports Zero_Transport
begin

text \<open>
  What the transport of \<open>zero/app/transport.py\<close> keeps: frames are taken in the order of the wire and none is lost
  or made up, also when a wait skips frames of other types or ends with an exception.
\<close>

section \<open>The stream\<close>

text \<open>
  \<open>inp\<close> and \<open>out\<close> read off a world what the stream delivered and accepted so far. \<open>io_ok\<close> is what Python documents of
  \<open>read\<close> and \<open>write\<close>: bytes are delivered once, in order; what \<open>write\<close> reports as written was accepted; and the
  clock and the cancellation hook touch neither. \<open>pico_peer\<close>: at the other end is a sender of valid messages.
\<close>

definition io_ok :: "'z zero_io \<Rightarrow> ('z \<Rightarrow> u8 list) \<Rightarrow> ('z \<Rightarrow> u8 list) \<Rightarrow> bool" where
  "io_ok io inp out \<longleftrightarrow>
     (\<forall>n z. inp (snd (io_read io n z)) = inp z @ concat (case fst (io_read io n z) of None \<Rightarrow> [] | Some data \<Rightarrow> [data])
        \<and> out (snd (io_read io n z)) = out z)
     \<and> (\<forall>data z. inp (snd (io_write io data z)) = inp z
        \<and> (fst (io_write io data z) \<in> {Some None, Some (Some (length data))} \<longrightarrow> out (snd (io_write io data z)) = out z @ data))
     \<and> (\<forall>z. inp (snd (io_clock io z)) = inp z \<and> out (snd (io_clock io z)) = out z)
     \<and> (\<forall>z. inp (snd (io_cancelled io z)) = inp z \<and> out (snd (io_cancelled io z)) = out z)"

locale byte_stream =
  fixes io :: "'z zero_io" and inp out :: "'z \<Rightarrow> u8 list"
  assumes stream: "io_ok io inp out"

definition pico_peer :: "('z \<Rightarrow> u8 list) \<Rightarrow> bool" where
  "pico_peer inp \<longleftrightarrow> (\<forall>z. \<exists>ms ys. list_all pico_message ms \<and> wire_stream ms = inp z @ ys)"

definition frames_in :: "('z \<Rightarrow> u8 list) \<Rightarrow> ('z, 'm) pico_transport_scheme \<Rightarrow> protocol_frame list" where
  "frames_in inp t = snd (snd (decode_loop MAX_PAYLOAD PICO_TO_ZERO_TYPES (inp (pt_stream t))))"

definition link_inv :: "('z \<Rightarrow> u8 list) \<Rightarrow> ('z, 'm) pico_transport_scheme \<Rightarrow> bool" where
  "link_inv inp t \<longleftrightarrow> pt_decoder t
     = incremental_decoder_init\<lparr>zd_buffer := fst (decode_loop MAX_PAYLOAD PICO_TO_ZERO_TYPES (inp (pt_stream t)))\<rparr>"

text \<open>From one state to another, the frames \<open>fs\<close> were taken from the front of what was pending or arrived.\<close>

definition took :: "('z \<Rightarrow> u8 list) \<Rightarrow> ('z, 'm) pico_transport_scheme \<Rightarrow> protocol_frame list \<Rightarrow>
    ('z, 'm) pico_transport_scheme \<Rightarrow> bool" where
  "took inp t fs t' \<longleftrightarrow> link_inv inp t'
     \<and> (\<exists>new. frames_in inp t' = frames_in inp t @ new \<and> pt_pending t @ new = fs @ pt_pending t')"

lemma io_ok_simps:
  assumes "io_ok io inp out"
  shows "inp (snd (io_read io n z)) = inp z @ concat (case fst (io_read io n z) of None \<Rightarrow> [] | Some data \<Rightarrow> [data])"
    "out (snd (io_read io n z)) = out z" "inp (snd (io_write io data z)) = inp z"
    "fst (io_write io data z) = Some None \<or> fst (io_write io data z) = Some (Some (length data))
      \<Longrightarrow> out (snd (io_write io data z)) = out z @ data"
    "inp (snd (io_clock io z)) = inp z" "out (snd (io_clock io z)) = out z"
    "inp (snd (io_cancelled io z)) = inp z" "out (snd (io_cancelled io z)) = out z"
  using assms unfolding io_ok_def by blast+

lemma pico_peer_clean: "pico_peer inp \<Longrightarrow> fst (snd (decode_loop MAX_PAYLOAD PICO_TO_ZERO_TYPES (inp z))) = []"
  unfolding pico_peer_def using decode_prefix_stream by (metis fst_conv snd_conv)

lemma took_refl: "link_inv inp t \<Longrightarrow> took inp t [] t"
  by (simp add: took_def)

lemma took_trans: "took inp t fs u \<Longrightarrow> took inp u gs v \<Longrightarrow> took inp t (fs @ gs) v"
proof -
  assume "took inp t fs u" "took inp u gs v"
  then obtain n m where n: "frames_in inp u = frames_in inp t @ n" "pt_pending t @ n = fs @ pt_pending u"
    and m: "frames_in inp v = frames_in inp u @ m" "pt_pending u @ m = gs @ pt_pending v" and inv: "link_inv inp v"
    unfolding took_def by blast
  have "pt_pending t @ n @ m = (pt_pending t @ n) @ m" by simp
  also have "\<dots> = (fs @ gs) @ pt_pending v" unfolding n(2) using m(2) by simp
  finally show ?thesis using inv n(1) m(1) unfolding took_def by (intro conjI exI [of _ "n @ m"]) simp_all
qed

text \<open>Changes of the world that deliver nothing.\<close>

lemma took_quiet:
  assumes "link_inv inp t" "inp z = inp (pt_stream t)"
  shows "took inp t [] (t\<lparr>pt_stream := z\<rparr>)"
  using assms by (simp add: took_def link_inv_def frames_in_def)

lemma took_now: "io_ok io inp out \<Longrightarrow> link_inv inp t \<Longrightarrow> took inp t [] (snd (now io t))"
  by (simp add: now_def split_beta took_quiet io_ok_simps)

lemma now_fields [simp]: "pt_pending (snd (now io t)) = pt_pending t"
  by (simp add: now_def split_beta)

lemma took_inv: "took inp t fs u \<Longrightarrow> link_inv inp u"
  by (simp add: took_def)

section \<open>Receiving a frame\<close>

lemma took_data:
  assumes "pico_peer inp" "link_inv inp t" "inp z = inp (pt_stream t) @ data" "decoder_feed data (pt_decoder t) = (frames, d)"
  shows "zd_errors d = []" "took inp t [] (t\<lparr>pt_stream := z, pt_decoder := d, pt_pending := pt_pending t @ frames\<rparr>)"
proof -
  obtain rest errors old where old: "decode_loop MAX_PAYLOAD PICO_TO_ZERO_TYPES (inp (pt_stream t)) = (rest, errors, old)"
    using prod_cases3 by blast
  obtain rest' errors' new where new: "decode_loop MAX_PAYLOAD PICO_TO_ZERO_TYPES (rest @ data) = (rest', errors', new)"
    using prod_cases3 by blast
  have all: "decode_loop MAX_PAYLOAD PICO_TO_ZERO_TYPES (inp z) = (rest', errors @ errors', old @ new)"
    unfolding assms(3) by (subst decode_loop_append) (simp add: old new)
  with pico_peer_clean [OF assms(1), of z] have "errors' = []" by simp
  moreover have "pt_decoder t = incremental_decoder_init\<lparr>zd_buffer := rest\<rparr>" using assms(2) by (simp add: link_inv_def old)
  ultimately have "frames = new \<and> d = incremental_decoder_init\<lparr>zd_buffer := rest'\<rparr>"
    using assms(4) by (auto simp: decoder_feed_def incremental_decoder_init_def new)
  then show "zd_errors d = []" "took inp t [] (t\<lparr>pt_stream := z, pt_decoder := d, pt_pending := pt_pending t @ frames\<rparr>)"
    by (simp_all add: incremental_decoder_init_def took_def link_inv_def frames_in_def all old)
qed

lemma took_pop: "took inp t [] (u\<lparr>pt_pending := frame # rest\<rparr>) \<Longrightarrow> took inp t [frame] (u\<lparr>pt_pending := rest\<rparr>)"
  by (simp add: took_def link_inv_def frames_in_def)

lemma round_took:
  assumes "io_ok io inp out" "pico_peer inp" "link_inv inp t" "receive_round io t = (r, u)"
  shows "took inp t (case r of Inr (Some frame) \<Rightarrow> [frame] | _ \<Rightarrow> []) u"
proof -
  define v where "v = t\<lparr>pt_stream := snd (io_cancelled io (pt_stream t))\<rparr>"
  define z where "z = snd (io_read io (pt_read_size v) (pt_stream v))"
  have v: "took inp t [] v" unfolding v_def using assms(1,3) by (intro took_quiet) (simp_all add: io_ok_simps)
  note inv = took_inv [OF v]
  have z: "inp z = inp (pt_stream v) @ concat (case fst (io_read io (pt_read_size v) (pt_stream v)) of None \<Rightarrow> [] | Some data \<Rightarrow> [data])"
    unfolding z_def by (rule io_ok_simps(1) [OF assms(1)])
  note round = assms(4) [unfolded receive_round_def Let_def split_beta, folded v_def, folded z_def]
  have "took inp v (case r of Inr (Some frame) \<Rightarrow> [frame] | _ \<Rightarrow> []) u"
  proof (cases "fst (io_cancelled io (pt_stream t)) \<or> fst (io_read io (pt_read_size v) (pt_stream v)) \<in> {None, Some []}")
    case True
    show ?thesis
    proof (cases "fst (io_cancelled io (pt_stream t))")
      case True
      with round took_refl [OF inv] show ?thesis by auto
    next
      case False
      with True z have "inp z = inp (pt_stream v)" by auto
      from took_quiet [OF inv this] False True round show ?thesis by auto
    qed
  next
    case False
    then obtain data where data: "fst (io_read io (pt_read_size v) (pt_stream v)) = Some data" "data \<noteq> []" by auto
    obtain frames d where feed: "decoder_feed data (pt_decoder v) = (frames, d)" by fastforce
    have more_data: "inp z = inp (pt_stream v) @ data" using z data by simp
    note took = took_data [OF assms(2) inv more_data feed]
    then have pop: "decoder_pop_errors d = ([], d)" by (cases d) (simp add: decoder_pop_errors_def)
    show ?thesis
    proof (cases "pt_pending v @ frames")
      case Nil
      with took(2) have "took inp v [] (v\<lparr>pt_stream := z, pt_decoder := d\<rparr>)"
        by (simp add: took_def link_inv_def frames_in_def)
      with round False data feed pop took(1) Nil show ?thesis by auto
    next
      case (Cons frame rest)
      with round False data feed pop took_pop [of inp v frame rest "v\<lparr>pt_stream := z, pt_decoder := d\<rparr>"] took(2)
      show ?thesis by auto
    qed
  qed
  from took_trans [OF v this] show ?thesis by simp
qed

lemma loop_took:
  assumes "io_ok io inp out" "pico_peer inp" "receive_loop io deadline t = Some y" "link_inv inp t"
  shows "took inp t (case fst y of Inr frame \<Rightarrow> [frame] | _ \<Rightarrow> []) (snd y)"
proof -
  have "io_ok io inp out \<longrightarrow> link_inv inp t \<longrightarrow> took inp t (case fst y of Inr frame \<Rightarrow> [frame] | _ \<Rightarrow> []) (snd y)"
  proof (rule receive_loop.raw_induct [OF _ assms(3)], intro impI)
    fix loop and io :: "'a zero_io" and deadline t y
    assume IH: "\<And>io deadline t y. loop io deadline t = Some y \<Longrightarrow> io_ok io inp out \<longrightarrow> link_inv inp t \<longrightarrow>
        took inp t (case fst y of Inr frame \<Rightarrow> [frame] | _ \<Rightarrow> []) (snd y)"
      and body: "(case receive_round io t of (Inl e, t) \<Rightarrow> raises e t | (Inr (Some frame), t) \<Rightarrow> returns frame t
        | (Inr None, t) \<Rightarrow> (let (c, t) = now io t in if deadline \<le> c then raises TransportTimeout t else loop io deadline t)) = Some y"
      and io: "io_ok io inp out" and inv: "link_inv inp t"
    obtain r u where round: "receive_round io t = (r, u)" by fastforce
    note took = round_took [OF io assms(2) inv round]
    note clock = took_now [OF io took_inv [OF took]]
    show "took inp t (case fst y of Inr frame \<Rightarrow> [frame] | _ \<Rightarrow> []) (snd y)"
    proof (cases "r = Inr None \<and> \<not> deadline \<le> fst (now io u)")
      case True
      with body round have "loop io deadline (snd (now io u)) = Some y" by (simp add: split_beta Let_def)
      with IH io took_inv [OF clock] took_trans [OF took_trans [OF took clock]] True show ?thesis by fastforce
    next
      case False
      with body round took took_trans [OF took clock] show ?thesis
        by (auto simp: raises_def returns_def split_beta Let_def split: sum.splits option.splits if_splits)
    qed
  qed
  with assms(1,4) show ?thesis by blast
qed

lemma receive_took:
  assumes "io_ok io inp out" "pico_peer inp" "receive_frame io timeout t = Some y" "link_inv inp t"
  shows "took inp t (case fst y of Inr frame \<Rightarrow> [frame] | _ \<Rightarrow> []) (snd y)"
proof (cases "pt_pending t")
  case Nil
  note clock = took_now [OF assms(1,4)]
  from assms(3) Nil have "receive_loop io (fadd (fst (now io t)) timeout) (snd (now io t)) = Some y"
    by (simp add: receive_frame_def split_beta Let_def)
  from took_trans [OF clock loop_took [OF assms(1,2) this took_inv [OF clock]]] show ?thesis by simp
next
  case (Cons frame rest)
  with assms(3,4) show ?thesis by (auto simp: receive_frame_def returns_def took_def link_inv_def frames_in_def)
qed

section \<open>Waiting for a frame\<close>

text \<open>
  A wait that starts in \<open>t\<close> and ends in \<open>u\<close> skips frames that are neither wanted nor errors and leaves them
  pending in front of the later ones; it takes the first wanted frame, or none, or a frame that makes it raise.
\<close>

definition skipped_ok :: "u8 \<Rightarrow> protocol_frame list \<Rightarrow> bool" where
  "skipped_ok message_type fs \<longleftrightarrow> (\<forall>f \<in> set fs. zf_type f \<noteq> message_type \<and> require_not_error f = Inr f)"

definition wait_taken :: "u8 \<Rightarrow> protocol_frame zero_result \<Rightarrow> protocol_frame list \<Rightarrow> bool" where
  "wait_taken message_type r fs \<longleftrightarrow>
     (case r of
        Inr f \<Rightarrow> fs = [f] \<and> zf_type f = message_type \<and> require_not_error f = Inr f
      | Inl e \<Rightarrow> fs = [] \<or> (\<exists>f. fs = [f] \<and> require_not_error f = Inl e))"

definition wait_law :: "('z \<Rightarrow> u8 list) \<Rightarrow> u8 \<Rightarrow> protocol_frame list \<Rightarrow> ('z, 'm) pico_transport_scheme \<Rightarrow>
    protocol_frame zero_result \<times> ('z, 'm) pico_transport_scheme \<Rightarrow> bool" where
  "wait_law inp message_type deferred t y \<longleftrightarrow>
     (\<exists>v skipped taken. took inp t (skipped @ taken) v \<and> snd y = preserve_frames (deferred @ skipped) v
        \<and> skipped_ok message_type skipped \<and> wait_taken message_type (fst y) taken)"

lemma require_same: "require_not_error f = Inr g \<Longrightarrow> g = f"
  by (auto simp: require_not_error_def split: if_splits sum.splits)

lemma wait_stop:
  "took inp t taken v \<Longrightarrow> wait_taken message_type r taken \<Longrightarrow> wait_law inp message_type deferred t (r, preserve_frames deferred v)"
  unfolding wait_law_def by (intro exI [of _ v] exI [of _ "[]"] exI [of _ taken]) (simp add: skipped_ok_def)

lemma wait_skip:
  assumes "took inp t [f] v" "wait_law inp message_type (deferred @ [f]) v y" "zf_type f \<noteq> message_type" "require_not_error f = Inr f"
  shows "wait_law inp message_type deferred t y"
proof -
  from assms(2) obtain w skipped taken where w: "took inp v (skipped @ taken) w" "snd y = preserve_frames (deferred @ [f] @ skipped) w"
    "skipped_ok message_type skipped" "wait_taken message_type (fst y) taken"
    unfolding wait_law_def by auto
  have "took inp t ((f # skipped) @ taken) w" using took_trans [OF assms(1) w(1)] by simp
  moreover have "skipped_ok message_type (f # skipped)" using w(3) assms(3,4) by (simp add: skipped_ok_def)
  ultimately show ?thesis using w(2,4) unfolding wait_law_def
    by (intro exI [of _ w] exI [of _ "f # skipped"] exI [of _ taken]) simp
qed

lemma wait_later: "took inp t [] u \<Longrightarrow> wait_law inp message_type deferred u y \<Longrightarrow> wait_law inp message_type deferred t y"
  unfolding wait_law_def using took_trans by (metis append_Nil)

text \<open>One round takes no frame, or one frame that is no error, or raises because of the frame it took.\<close>

lemma await_round_law:
  assumes "io_ok io inp out" "pico_peer inp" "await_round io deadline t = Some (r, u)" "link_inv inp t"
  shows "\<exists>fs. took inp t fs u \<and> (case r of
      Inr f \<Rightarrow> fs = [f] \<and> require_not_error f = Inr f
    | Inl e \<Rightarrow> fs = [] \<or> (\<exists>f. fs = [f] \<and> require_not_error f = Inl e))"
proof (cases "fsub deadline (fst (now io t)) \<le> 0")
  case True
  with assms(3) took_now [OF assms(1,4)] show ?thesis by (auto simp: await_round_def split_beta raises_def)
next
  case False
  with assms(3) obtain r' where r: "receive_frame io (fsub deadline (fst (now io t))) (snd (now io t)) = Some (r', u)"
    "r = (case r' of Inl e \<Rightarrow> Inl e | Inr f \<Rightarrow> require_not_error f)"
    by (auto simp: await_round_def split_beta Let_def and_then_def lift_result_def split: option.splits sum.splits)
  have "took inp t (case r' of Inr frame \<Rightarrow> [frame] | _ \<Rightarrow> []) u"
    using took_trans [OF took_now [OF assms(1,4)] receive_took [OF assms(1,2) r(1) took_inv [OF took_now [OF assms(1,4)]]]]
    by simp
  with r(2) require_same show ?thesis by (fastforce split: sum.splits)
qed

lemma await_loop_law:
  assumes "io_ok io inp out" "pico_peer inp" "await_loop io message_type deadline deferred t = Some y" "link_inv inp t"
  shows "wait_law inp message_type deferred t y"
proof -
  have "io_ok io inp out \<longrightarrow> link_inv inp t \<longrightarrow> wait_law inp message_type deferred t y"
  proof (rule await_loop.raw_induct [OF _ assms(3)], intro impI)
    fix loop and io :: "'a zero_io" and message_type deadline deferred t y
    assume IH: "\<And>io message_type deadline deferred t y. loop io message_type deadline deferred t = Some y \<Longrightarrow>
        io_ok io inp out \<longrightarrow> link_inv inp t \<longrightarrow> wait_law inp message_type deferred t y"
      and body: "(case await_round io deadline t of None \<Rightarrow> None | Some (Inl e, t) \<Rightarrow> raises e (preserve_frames deferred t)
        | Some (Inr frame, t) \<Rightarrow> if zf_type frame \<noteq> message_type then loop io message_type deadline (deferred @ [frame]) t
            else returns frame (preserve_frames deferred t)) = Some y"
      and io: "io_ok io inp out" and inv: "link_inv inp t"
    from body obtain r u where r: "await_round io deadline t = Some (r, u)" by (auto split: option.splits)
    from await_round_law [OF io assms(2) r inv] obtain fs where fs: "took inp t fs u"
      "case r of Inr f \<Rightarrow> fs = [f] \<and> require_not_error f = Inr f | Inl e \<Rightarrow> fs = [] \<or> (\<exists>f. fs = [f] \<and> require_not_error f = Inl e)"
      by blast
    show "wait_law inp message_type deferred t y"
    proof (cases r)
      case (Inl e)
      with body r fs wait_stop [OF fs(1), of message_type r deferred] show ?thesis by (simp add: raises_def wait_taken_def)
    next
      case (Inr f)
      with fs(2) have f: "fs = [f]" "require_not_error f = Inr f" by simp_all
      with body r Inr fs(1) wait_stop [OF fs(1), of message_type "Inr f" deferred]
        IH [of io message_type deadline "deferred @ [f]" u y] io took_inv [OF fs(1)] wait_skip [of inp t f u message_type deferred y]
      show ?thesis by (auto simp: returns_def wait_taken_def split: if_splits)
    qed
  qed
  with assms(1,4) show ?thesis by blast
qed

lemma await_law:
  assumes "io_ok io inp out" "pico_peer inp" "await_frame io message_type timeout t = Some y" "link_inv inp t"
  shows "wait_law inp message_type [] t y"
proof -
  note clock = took_now [OF assms(1,4)]
  from assms(3) have "await_loop io message_type (fadd (fst (now io t)) timeout) [] (snd (now io t)) = Some y"
    by (simp add: await_frame_def split_beta)
  from wait_later [OF clock await_loop_law [OF assms(1,2) this took_inv [OF clock]]] show ?thesis .
qed

section \<open>What is written\<close>

text \<open>An action that writes nothing, and one that writes so many bytes; neither touches the fields beyond the transport.\<close>

definition wrote :: "('z \<Rightarrow> u8 list) \<Rightarrow> ('z, 'm) pico_transport_scheme \<Rightarrow> u8 list \<Rightarrow> ('z, 'm) pico_transport_scheme \<Rightarrow> bool" where
  "wrote out t bytes u \<longleftrightarrow> out (pt_stream u) = out (pt_stream t) @ bytes \<and> pico_transport.more u = pico_transport.more t"

lemma wrote_refl: "wrote out t [] t"
  by (simp add: wrote_def)

lemma wrote_trans: "wrote out t xs u \<Longrightarrow> wrote out u ys v \<Longrightarrow> wrote out t (xs @ ys) v"
  by (simp add: wrote_def)

lemma wrote_later: "wrote out t [] u \<Longrightarrow> wrote out u ys v \<Longrightarrow> wrote out t ys v"
  by (simp add: wrote_def)

lemma wrote_preserve [simp]: "wrote out t bytes (preserve_frames fs u) \<longleftrightarrow> wrote out t bytes u"
  by (simp add: wrote_def preserve_frames_def)

lemma wrote_now: "io_ok io inp out \<Longrightarrow> wrote out t [] (snd (now io t))"
  by (simp add: wrote_def now_def split_beta io_ok_simps)

lemma wrote_round: "io_ok io inp out \<Longrightarrow> wrote out t [] (snd (receive_round io t))"
  by (auto simp: wrote_def receive_round_def Let_def split_beta io_ok_simps split: option.split list.split)

lemma loop_wrote:
  assumes "io_ok io inp out" "receive_loop io deadline t = Some y"
  shows "wrote out t [] (snd y)"
proof -
  have "io_ok io inp out \<longrightarrow> wrote out t [] (snd y)"
  proof (rule receive_loop.raw_induct [OF _ assms(2)], intro impI)
    fix loop and io :: "'a zero_io" and deadline t y
    assume IH: "\<And>io deadline t y. loop io deadline t = Some y \<Longrightarrow> io_ok io inp out \<longrightarrow> wrote out t [] (snd y)"
      and body: "(case receive_round io t of (Inl e, t) \<Rightarrow> raises e t | (Inr (Some frame), t) \<Rightarrow> returns frame t
        | (Inr None, t) \<Rightarrow> (let (c, t) = now io t in if deadline \<le> c then raises TransportTimeout t else loop io deadline t)) = Some y"
      and io: "io_ok io inp out"
    obtain r u where round: "receive_round io t = (r, u)" by fastforce
    have u: "wrote out t [] u" using wrote_round [OF io, of t] by (simp add: round)
    note clock = wrote_later [OF u wrote_now [OF io]]
    show "wrote out t [] (snd y)"
      using body round u clock IH [of io deadline "snd (now io u)" y] io wrote_later [OF clock]
      by (auto simp: raises_def returns_def split_beta Let_def split: sum.splits option.splits if_splits)
  qed
  with assms(1) show ?thesis by blast
qed

lemma receive_wrote:
  assumes "io_ok io inp out" "receive_frame io timeout t = Some y"
  shows "wrote out t [] (snd y)"
proof (cases "pt_pending t")
  case Nil
  with assms(2) have "receive_loop io (fadd (fst (now io t)) timeout) (snd (now io t)) = Some y"
    by (simp add: receive_frame_def split_beta Let_def)
  from wrote_later [OF wrote_now [OF assms(1)] loop_wrote [OF assms(1) this]] show ?thesis .
next
  case (Cons frame rest)
  with assms(2) show ?thesis by (auto simp: receive_frame_def returns_def wrote_def)
qed

lemma await_round_wrote:
  assumes "io_ok io inp out" "await_round io deadline t = Some (r, u)"
  shows "wrote out t [] u"
  using assms(2) wrote_later [OF wrote_now [OF assms(1)] receive_wrote [OF assms(1)]] wrote_now [OF assms(1), of t]
  by (fastforce simp: await_round_def split_beta Let_def and_then_def lift_result_def raises_def
      split: if_splits option.splits sum.splits prod.splits)

lemma await_loop_wrote:
  assumes "io_ok io inp out" "await_loop io message_type deadline deferred t = Some y"
  shows "wrote out t [] (snd y)"
proof -
  have "io_ok io inp out \<longrightarrow> wrote out t [] (snd y)"
  proof (rule await_loop.raw_induct [OF _ assms(2)], intro impI)
    fix loop and io :: "'a zero_io" and message_type deadline deferred t y
    assume IH: "\<And>io message_type deadline deferred t y. loop io message_type deadline deferred t = Some y \<Longrightarrow>
        io_ok io inp out \<longrightarrow> wrote out t [] (snd y)"
      and body: "(case await_round io deadline t of None \<Rightarrow> None | Some (Inl e, t) \<Rightarrow> raises e (preserve_frames deferred t)
        | Some (Inr frame, t) \<Rightarrow> if zf_type frame \<noteq> message_type then loop io message_type deadline (deferred @ [frame]) t
            else returns frame (preserve_frames deferred t)) = Some y"
      and io: "io_ok io inp out"
    from body obtain r u where r: "await_round io deadline t = Some (r, u)" by (auto split: option.splits)
    note u = await_round_wrote [OF io r]
    show "wrote out t [] (snd y)"
    proof (cases r)
      case (Inr f)
      with body r u io IH [of io message_type deadline "deferred @ [f]" u y] wrote_later [OF u] show ?thesis
        by (auto simp: returns_def split: if_splits)
    qed (use body r u in \<open>auto simp: raises_def\<close>)
  qed
  with assms(1) show ?thesis by blast
qed

lemma await_wrote:
  assumes "io_ok io inp out" "await_frame io message_type timeout t = Some y"
  shows "wrote out t [] (snd y)"
proof -
  from assms(2) have "await_loop io message_type (fadd (fst (now io t)) timeout) [] (snd (now io t)) = Some y"
    by (simp add: await_frame_def split_beta)
  from wrote_later [OF wrote_now [OF assms(1)] await_loop_wrote [OF assms(1) this]] show ?thesis .
qed

text \<open>A frame that is sent without an exception was written as a whole; nothing is received or taken meanwhile.\<close>

lemma send_encoded_law:
  assumes "io_ok io inp out" "send_encoded io encoded t = Some (Inr x, u)"
  shows "\<exists>bytes. encoded = Inr bytes \<and> wrote out t bytes u \<and> inp (pt_stream u) = inp (pt_stream t)
    \<and> pt_pending u = pt_pending t \<and> pt_decoder u = pt_decoder t"
  using assms(2)
  by (auto simp: send_encoded_def and_then_def lift_result_def write_bytes_def raises_def returns_def wrote_def split_beta Let_def
      io_ok_simps [OF assms(1)] split: sum.splits option.splits if_splits)

section \<open>The handshake\<close>

lemma encode_frame_wire:
  assumes "ty \<in> ZERO_TO_PICO_TYPES" "length body \<le> 64"
  shows "encode_frame ty body = Inr (wire_frame ty body)"
proof -
  let ?l = "of_nat (length body) :: u16"
  have "int (length body) = uint ?l" using assms(2) by (simp add: uint_nat unat_of_nat_le_64)
  then have "[VERSION, ty] @ pack_le 2 (int (length body)) @ body = wire_covered ty body"
    using pack_u16 [of ?l] by (simp only: wire_covered_def VERSION_def Let_def append.simps)
  with assms pack_u16 [of "foldl crc_byte 0xFFFF (wire_covered ty body)"] show ?thesis
    by (simp only: encode_frame_def Let_def crc16_word wire_frame_def MAX_PAYLOAD_def MAGIC_def append.simps if_False not_True_eq_False
        not_less [symmetric] not_not if_True)
qed

lemma took_sent:
  "link_inv inp t \<Longrightarrow> inp (pt_stream u) = inp (pt_stream t) \<Longrightarrow> pt_pending u = pt_pending t \<Longrightarrow> pt_decoder u = pt_decoder t
    \<Longrightarrow> took inp t [] u"
  by (simp add: took_def link_inv_def frames_in_def)

lemma require_not_timeout: "require_not_error f \<noteq> Inl TransportTimeout"
  by (auto simp: require_not_error_def validate_pico_status_def validate_mode_changed_def Let_def split: sum.splits if_splits)

text \<open>
  \<open>set_mode\<close> returns only after the Pico's MODE_CHANGED with the mode that was asked for and no complaint. It
  wrote MODE_SET once or as often as it tried, and left all other frames pending, in order.
\<close>

lemma validate_mode_changed_Inr: "validate_mode_changed f = Inr (state, reason) \<Longrightarrow> f = \<lparr>zf_type = MODE_CHANGED, zf_payload = [state, reason]\<rparr>"
proof -
  assume "validate_mode_changed f = Inr (state, reason)"
  then have f: "zf_type f = MODE_CHANGED" "length (zf_payload f) = 2" "zf_payload f ! 0 = state" "zf_payload f ! 1 = reason"
    by (simp_all add: validate_mode_changed_def Let_def split: if_splits)
  from f(2) have "zf_payload f = [zf_payload f ! 0, zf_payload f ! 1]" by (intro nth_equalityI) (auto simp: less_2_cases_iff)
  with f show ?thesis by (cases f) simp
qed

definition mode_confirmed :: "('z \<Rightarrow> u8 list) \<Rightarrow> u8 \<Rightarrow> ('z, 'm) pico_transport_scheme \<Rightarrow> ('z, 'm) pico_transport_scheme \<Rightarrow> bool" where
  "mode_confirmed inp target_mode t u \<longleftrightarrow>
     (\<exists>v skipped. took inp t (skipped @ [\<lparr>zf_type = MODE_CHANGED, zf_payload = [target_mode, REASON_OK]\<rparr>]) v
        \<and> u = preserve_frames skipped v \<and> skipped_ok MODE_CHANGED skipped)"

lemma mode_confirmed_later: "took inp t [] u \<Longrightarrow> mode_confirmed inp m u v \<Longrightarrow> mode_confirmed inp m t v"
  unfolding mode_confirmed_def using took_trans by (metis append_Nil)

lemma attempts_law:
  assumes "io_ok io inp out" "pico_peer inp" "MODE_SET \<in> ZERO_TO_PICO_TYPES"
  shows "set_mode_attempts io m timeout n t = Some (Inr (), u) \<Longrightarrow> link_inv inp t \<Longrightarrow>
    mode_confirmed inp m t u \<and> (\<exists>k. 1 \<le> k \<and> k \<le> n \<and> wrote out t (concat (replicate k (wire_frame MODE_SET [m]))) u)"
proof (induction n arbitrary: t)
  case (Suc n)
  from Suc.prems(1) obtain v where send: "send_encoded io (encode_frame MODE_SET [m]) t = Some (Inr (), v)"
    by (auto simp: and_then_def split: option.splits sum.splits prod.splits)
  from send_encoded_law [OF assms(1) send] assms(3)
  have v: "wrote out t (wire_frame MODE_SET [m]) v" "took inp t [] v"
    using took_sent [OF Suc.prems(2), of v] by (auto simp: encode_frame_wire)
  note body = Suc.prems(1) [unfolded set_mode_attempts.simps and_then_def send, simplified]
  from body obtain r w where w: "await_frame io MODE_CHANGED timeout v = Some (r, w)" by (auto split: option.splits)
  note wait = await_law [OF assms(1,2) w took_inv [OF v(2)]] and quiet = await_wrote [OF assms(1) w]
  show ?case
  proof (cases r)
    case (Inl e)
    with body w have e: "e = TransportTimeout" "set_mode_attempts io m timeout n w = Some (Inr (), u)"
      by (auto simp: raises_def split: if_splits)
    from wait Inl e(1) obtain x skipped where "took inp v skipped x" "w = preserve_frames skipped x"
      unfolding wait_law_def wait_taken_def using require_not_timeout by force
    then have "took inp v [] w" by (auto simp: took_def preserve_frames_def link_inv_def frames_in_def)
    with v(2) have tw: "took inp t [] w" using took_trans by fastforce
    from Suc.IH [OF e(2) took_inv [OF tw]] mode_confirmed_later [OF tw] obtain k where k: "mode_confirmed inp m t u" "1 \<le> k" "k \<le> n"
      "wrote out w (concat (replicate k (wire_frame MODE_SET [m]))) u" by blast
    from wrote_trans [OF v(1) wrote_later [OF quiet]] k show ?thesis by (intro conjI exI [of _ "Suc k"]) simp_all
  next
    case (Inr f)
    with body w have f: "validate_mode_changed f = Inr (m, REASON_OK)" "u = w"
      by (auto simp: raises_def returns_def split: sum.splits if_splits)
    from wait Inr validate_mode_changed_Inr [OF f(1)] have "mode_confirmed inp m v u"
      by (auto simp: wait_law_def wait_taken_def mode_confirmed_def f(2))
    with v quiet f(2) mode_confirmed_later wrote_trans [OF v(1) quiet] show ?thesis
      by (intro conjI exI [of _ "Suc 0"]) auto
  qed
qed (simp add: raises_def)

lemma zero_types: "{QUEUE_CLEAR, QUEUE_EVENT, QUEUE_END, PLAY_START, PLAY_ABORT, MODE_SET} \<subseteq> ZERO_TO_PICO_TYPES"
  by (simp add: zero_constants)

lemma set_mode_law:
  assumes "io_ok io inp out" "pico_peer inp" "link_inv inp t" "set_mode io m timeout retries t = Some (Inr (), u)"
  shows "mode_confirmed inp m t u"
    "\<exists>k. 1 \<le> k \<and> k \<le> nat (retries + 1) \<and> wrote out t (concat (replicate k (wire_frame MODE_SET [m]))) u"
  using attempts_law [OF assms(1,2), of m timeout "nat (retries + 1)" t u] assms(3,4) zero_types
  by (auto simp: set_mode_def raises_def split: if_splits)

end
