(* ===== verification/Zero_Service.thy ===== *)
theory Zero_Service
  imports Zero_Capture Zero_Handshake
begin

text \<open>
  \<open>zero/app/service.py\<close>: the life of a recording session, from the request for RECORD to the recording that is
  published after the Pico confirmed PASS. The session is the transport with its own fields; the directory of
  the store is among them.
\<close>

section \<open>The session\<close>

record 'z recording_session = "'z pico_transport" +
  rs_name :: string
  rs_mode_timeout :: rat
  rs_builder :: recording_builder
  rs_started :: bool
  rs_finished :: bool
  rs_event_count :: nat
  rs_store :: directory

definition recording_session_init :: "'z pico_transport \<Rightarrow> directory \<Rightarrow> string \<Rightarrow> rat \<Rightarrow> 'z recording_session zero_result" where
  "recording_session_init t store name mode_timeout =
     (case validate_name name of
        Inl e \<Rightarrow> Inl e
      | Inr n \<Rightarrow>
         (case recording_builder_init name of
            Inl e \<Rightarrow> Inl e
          | Inr builder \<Rightarrow>
             Inr (pico_transport.extend t (recording_session.fields n mode_timeout builder False False 0 store))))"

definition recording_session_start :: "'z zero_io \<Rightarrow> (unit, 'z recording_session) action" where
  "recording_session_start io s =
     (case store_exists (rs_name s) (rs_store s) of
        Inl e \<Rightarrow> raises e s
      | Inr there \<Rightarrow>
         if there then raises StorageError s
         else and_then (set_mode io MODE_RECORD (rs_mode_timeout s) 1) (\<lambda>_ s. returns () (s\<lparr>rs_started := True\<rparr>)) s)"

definition consume :: "protocol_frame \<Rightarrow> (unit, 'z recording_session) action" where
  "consume frame s =
     (case session_consume frame (rs_builder s, rs_event_count s) of
        Inl e \<Rightarrow> raises e s
      | Inr (builder, n) \<Rightarrow> returns () (s\<lparr>rs_builder := builder, rs_event_count := n\<rparr>))"

definition consume_checked :: "protocol_frame \<Rightarrow> (unit, 'z recording_session) action" where
  "consume_checked frame = and_then (lift_result (require_not_error frame)) consume"

definition receive_and_consume :: "'z zero_io \<Rightarrow> rat \<Rightarrow> (unit, 'z recording_session) action" where
  "receive_and_consume io timeout = and_then (receive_frame io timeout) consume_checked"

primrec consume_pending :: "protocol_frame list \<Rightarrow> (unit, 'z recording_session) action" where
  "consume_pending [] = returns ()"
| "consume_pending (frame # frames) = and_then (consume_checked frame) (\<lambda>_. consume_pending frames)"

text \<open>
  All exceptions of the service are \<open>RecorderError\<close>s, so that the handler of \<open>stop\<close> sees each of them; the
  recording is built and saved when the session is over.
\<close>

definition recording_session_stop :: "'z zero_io \<Rightarrow> (recording, 'z recording_session) action" where
  "recording_session_stop io s =
     (if rs_finished s then raises RecorderError s
      else if \<not> rs_started s then raises RecorderError s
      else
       (case and_then (set_mode io MODE_PASS (rs_mode_timeout s) 1)
               (\<lambda>_ s. let (frames, s) = drain_pending_frames s in consume_pending frames s) s of
          None \<Rightarrow> None
        | Some (Inl e, s) \<Rightarrow> raises e (s\<lparr>rs_finished := True\<rparr>)
        | Some (Inr _, s) \<Rightarrow>
            (let s = s\<lparr>rs_finished := True\<rparr> in
             case recording_builder_build (rs_builder s) of
               Inl e \<Rightarrow> raises e s
             | Inr recording \<Rightarrow>
                (case store_save recording (rs_store s) of
                   Inl e \<Rightarrow> raises e s
                 | Inr store \<Rightarrow> returns recording (s\<lparr>rs_store := store\<rparr>)))))"

definition recording_session_abort :: "'z zero_io \<Rightarrow> (zero_error option, 'z recording_session) action" where
  "recording_session_abort io s =
     (if rs_finished s then returns None s
      else
       (let s = s\<lparr>rs_finished := True\<rparr> in
        case set_mode io MODE_PASS (rs_mode_timeout s) 1 s of
          None \<Rightarrow> None
        | Some (Inl e, s) \<Rightarrow> returns (Some e) s
        | Some (Inr _, s) \<Rightarrow> returns None s))"

definition stop_pico :: "'z zero_io \<Rightarrow> rat \<Rightarrow> (unit, ('z, 'm) pico_transport_scheme) action" where
  "stop_pico io mode_timeout = set_mode io MODE_PASS mode_timeout 1"

section \<open>The worker\<close>

text \<open>
  \<open>_run_recording\<close> of \<open>zero/app/controller.py\<close>: rounds of \<open>receive_and_consume\<close>, of which a timeout is none, until the
  stop event is set, here after \<open>n\<close> rounds; then \<open>stop\<close>, and after any other exception \<open>abort\<close>. The value is what is
  reported at the end: a recording, or the exception with that of the cleanup.
\<close>

primrec record_rounds :: "'z zero_io \<Rightarrow> rat \<Rightarrow> nat \<Rightarrow> (unit, 'z recording_session) action" where
  "record_rounds io record_poll_interval 0 s = returns () s"
| "record_rounds io record_poll_interval (Suc n) s =
     (case receive_and_consume io record_poll_interval s of
        None \<Rightarrow> None
      | Some (Inl e, s) \<Rightarrow> if e = TransportTimeout then record_rounds io record_poll_interval n s else raises e s
      | Some (Inr _, s) \<Rightarrow> record_rounds io record_poll_interval n s)"

definition run_recording :: "'z zero_io \<Rightarrow> rat \<Rightarrow> nat \<Rightarrow> 'z recording_session \<Rightarrow>
    ((recording + zero_error \<times> zero_error option) \<times> 'z recording_session) option" where
  "run_recording io record_poll_interval n s =
     (case and_then (record_rounds io record_poll_interval n) (\<lambda>_. recording_session_stop io) s of
        None \<Rightarrow> None
      | Some (Inr recording, s) \<Rightarrow> Some (Inl recording, s)
      | Some (Inl e, s) \<Rightarrow>
         (case recording_session_abort io s of
            None \<Rightarrow> None
          | Some (Inl e', s) \<Rightarrow> Some (Inr (e, Some e'), s)
          | Some (Inr cleanup, s) \<Rightarrow> Some (Inr (e, cleanup), s)))"

section \<open>What a session records\<close>

text \<open>
  Since \<open>s0\<close> the session took the frames \<open>taken\<close> from the link, and its builder holds the captures of the frames
  \<open>consumed\<close>; its name and its store are the same.
\<close>

definition session_law :: "('z \<Rightarrow> u8 list) \<Rightarrow> 'z recording_session \<Rightarrow> protocol_frame list \<Rightarrow> protocol_frame list \<Rightarrow>
    'z recording_session \<Rightarrow> bool" where
  "session_law inp s0 taken consumed s \<longleftrightarrow> took inp s0 taken s \<and> captures_ok (captures_in consumed) \<and> MODE_CHANGED \<notin> zf_type ` set consumed
     \<and> rs_builder s = builder_of (rs_name s0) (captures_in consumed) \<and> rs_name s = rs_name s0 \<and> rs_store s = rs_store s0"

lemma session_moved:
  assumes "session_law inp s0 taken consumed s" "took inp s fs u" "wrote out s bytes u"
  shows "session_law inp s0 (taken @ fs) consumed u"
proof -
  have "rs_builder u = rs_builder s" "rs_name u = rs_name s" "rs_store u = rs_store s"
    using assms(3) by (cases s; cases u; simp add: wrote_def)+
  with assms(1) took_trans [OF _ assms(2)] show ?thesis by (auto simp: session_law_def)
qed

lemma session_inv: "session_law inp s0 taken consumed s \<Longrightarrow> link_inv inp s"
  by (simp add: session_law_def took_def)

lemma consume_law:
  assumes "session_law inp s0 taken consumed s" "consume_checked f s = Some (Inr x, u)"
  shows "session_law inp s0 taken (consumed @ [f]) u \<and> pt_pending u = pt_pending s"
proof -
  from assms(2) obtain b n where b: "session_consume f (rs_builder s, rs_event_count s) = Inr (b, n)"
    "u = s\<lparr>rs_builder := b, rs_event_count := n\<rparr>"
    by (auto simp: consume_checked_def consume_def and_then_def lift_result_def returns_def raises_def
        dest!: require_same split: sum.splits)
  have "captures_ok (captures_in consumed)" "rs_builder s = builder_of (rs_name s0) (captures_in consumed)"
    using assms(1) by (simp_all add: session_law_def)
  from consume_frame [OF this(1), of f "rs_name s0" "rs_event_count s" "(b, n)"] b(1) this(2)
  show ?thesis using assms(1) b(2) by (auto simp: session_law_def took_def link_inv_def frames_in_def)
qed

lemma receive_and_consume_law:
  assumes "io_ok io inp out" "pico_peer inp" "session_law inp s0 fs fs s" "receive_and_consume io timeout s = Some (r, u)"
    "r = Inr x \<or> r = Inl TransportTimeout"
  shows "\<exists>gs. session_law inp s0 (fs @ gs) (fs @ gs) u"
proof -
  from assms(4) obtain q v where q: "receive_frame io timeout s = Some (q, v)"
    by (auto simp: receive_and_consume_def and_then_def split: option.splits)
  note moved = session_moved [OF assms(3) receive_took [OF assms(1,2) q session_inv [OF assms(3)], unfolded fst_conv snd_conv]
      receive_wrote [OF assms(1) q, unfolded snd_conv]]
  show ?thesis
  proof (cases q)
    case (Inl e)
    with assms(4) q moved show ?thesis by (auto simp: receive_and_consume_def and_then_def intro: exI [of _ "[]"])
  next
    case (Inr f)
    with assms(4) q have c: "consume_checked f v = Some (r, u)" by (simp add: receive_and_consume_def and_then_def)
    have "session_consume g s' \<noteq> Inl TransportTimeout" for g s'
      by (auto simp: session_consume_def recording_builder_add_def validate_record_event_def validate_u64_def validate_boot_report_def
          make_recording_event_def Let_def split: sum.splits prod.splits if_splits option.splits)
    with c require_not_timeout [of f] have "r \<noteq> Inl TransportTimeout"
      by (auto simp: consume_checked_def consume_def and_then_def lift_result_def returns_def raises_def split: sum.splits)
    with assms(5) c consume_law [of inp s0 "fs @ [f]" fs v f x u] moved Inr show ?thesis by auto
  qed
qed

lemma record_rounds_law:
  assumes "io_ok io inp out" "pico_peer inp"
  shows "record_rounds io interval n s = Some (Inr x, u) \<Longrightarrow> session_law inp s0 fs fs s \<Longrightarrow> \<exists>gs. session_law inp s0 (fs @ gs) (fs @ gs) u"
proof (induction n arbitrary: s fs)
  case (Suc n)
  from Suc.prems(1) obtain r v where r: "receive_and_consume io interval s = Some (r, v)" "r = Inr () \<or> r = Inl TransportTimeout"
    "record_rounds io interval n v = Some (Inr x, u)"
    by (auto simp: raises_def split: option.splits sum.splits if_splits)
  from receive_and_consume_law [OF assms Suc.prems(2) r(1,2)] obtain gs where gs: "session_law inp s0 (fs @ gs) (fs @ gs) v" by blast
  from Suc.IH [OF r(3) gs] show ?case by (metis append_assoc)
qed (auto simp: returns_def intro: exI [of _ "[]"])

lemma consume_pending_law:
  "consume_pending fs s = Some (Inr x, u) \<Longrightarrow> session_law inp s0 taken consumed s
    \<Longrightarrow> session_law inp s0 taken (consumed @ fs) u \<and> pt_pending u = pt_pending s"
proof (induction fs arbitrary: s consumed)
  case (Cons f fs)
  from Cons.prems(1) obtain v where v: "consume_checked f s = Some (Inr (), v)" "consume_pending fs v = Some (Inr x, u)"
    by (auto simp: and_then_def split: option.splits sum.splits)
  from consume_law [OF Cons.prems(2) v(1)] Cons.IH [OF v(2), of "consumed @ [f]"] show ?case by simp
qed (simp add: returns_def)

text \<open>A stop that publishes: the Pico confirmed PASS, and every frame but the confirmation was consumed.\<close>

definition pass_confirmed :: protocol_frame where
  "pass_confirmed = \<lparr>zf_type = MODE_CHANGED, zf_payload = [MODE_PASS, REASON_OK]\<rparr>"

lemma stop_law:
  assumes "io_ok io inp out" "pico_peer inp" "session_law inp s0 fs fs s" "recording_session_stop io s = Some (Inr r, u)"
  shows "\<exists>skipped rest. took inp s0 (fs @ skipped @ [pass_confirmed] @ rest) u \<and> pt_pending u = []
    \<and> captures_ok (captures_in (fs @ skipped @ rest)) \<and> MODE_CHANGED \<notin> zf_type ` set (fs @ skipped @ rest)
    \<and> recording_builder_build (builder_of (rs_name s0) (captures_in (fs @ skipped @ rest))) = Inr r
    \<and> store_save r (rs_store s0) = Inr (rs_store u)"
proof -
  from assms(4) obtain v w where m: "set_mode io MODE_PASS (rs_mode_timeout s) 1 s = Some (Inr (), v)"
    and p: "consume_pending (pt_pending v) (v\<lparr>pt_pending := []\<rparr>) = Some (Inr (), w)"
    and b: "recording_builder_build (rs_builder w) = Inr r" "store_save r (rs_store w) = Inr (rs_store u)"
      "u = w\<lparr>rs_finished := True, rs_store := rs_store u\<rparr>"
    by (auto simp: recording_session_stop_def and_then_def drain_pending_frames_def raises_def returns_def Let_def
        split: if_splits option.splits sum.splits)
  from set_mode_law [OF assms(1,2) session_inv [OF assms(3)] m] obtain x skipped bytes where
    x: "took inp s (skipped @ [pass_confirmed]) x" "v = preserve_frames skipped x" and bytes: "wrote out s bytes v"
    unfolding mode_confirmed_def pass_confirmed_def by blast
  from bytes x(2) have "wrote out s bytes x" by simp
  note moved = session_moved [OF assms(3) x(1) this]
  have "took inp s0 ((fs @ skipped @ [pass_confirmed]) @ pt_pending x) (v\<lparr>pt_pending := []\<rparr>)"
    using moved x(2) by (simp add: session_law_def took_def link_inv_def frames_in_def preserve_frames_def)
  moreover have "rs_builder (v\<lparr>pt_pending := []\<rparr>) = rs_builder x" "rs_name v = rs_name x" "rs_store v = rs_store x"
    by (simp_all add: x(2) preserve_frames_def)
  ultimately have law: "session_law inp s0 ((fs @ skipped @ [pass_confirmed]) @ pt_pending x) fs (v\<lparr>pt_pending := []\<rparr>)"
    using moved by (simp add: session_law_def)
  note ended = consume_pending_law [OF p law]
  have "pt_pending v = skipped @ pt_pending x" by (simp add: x(2) preserve_frames_def)
  with ended b have "took inp s0 (fs @ skipped @ [pass_confirmed] @ pt_pending x) w \<and> pt_pending w = []
    \<and> captures_ok (captures_in (fs @ skipped @ pt_pending x)) \<and> MODE_CHANGED \<notin> zf_type ` set (fs @ skipped @ pt_pending x)
    \<and> recording_builder_build (builder_of (rs_name s0) (captures_in (fs @ skipped @ pt_pending x))) = Inr r
    \<and> store_save r (rs_store s0) = Inr (rs_store u)" by (simp add: session_law_def)
  moreover have "took inp s0 ys w = took inp s0 ys u \<and> pt_pending w = pt_pending u" for ys
    by (subst (1 2) b(3)) (simp add: took_def link_inv_def frames_in_def)
  ultimately show ?thesis by metis
qed

end
