(* ===== verification/Zero_Playback.thy ===== *)
theory Zero_Playback
  imports Zero_Capture Zero_Handshake
begin

text \<open>
  \<open>zero/app/playback.py\<close>: the feeder of a playback run. It loads the beginning of a recording while the Pico is in
  ARMED, starts the run, and feeds the rest by the credit that the Pico reports. The session is the transport
  with its own fields; the lock that guards the figures of \<open>progress\<close> is left out.
\<close>

section \<open>The session\<close>

definition PIPELINE_WINDOW :: nat where [zero_constants]: "PIPELINE_WINDOW = 4"

text \<open>A notice of an underrun is its offset and the free capacity; \<open>pb_underruns\<close> has them in order.\<close>

record 'z playback_session = "'z pico_transport" +
  pb_events :: "(int \<times> u8 list) list"
  pb_prebuffer_us :: int
  pb_mode_timeout :: rat
  pb_playback_timeout :: "rat option"
  pb_started :: bool
  pb_playing :: bool
  pb_finished :: bool
  pb_armed :: bool
  pb_next_event :: nat
  pb_free_capacity :: int
  pb_deadline :: rat
  pb_playback_start_us :: int
  pb_underruns :: "(int \<times> int) list"
  pb_queued_count :: int
  pb_reported_next_event :: nat
  pb_underrun_count :: nat
  pb_start_wallclock :: "rat option"

record playback_result =
  pr_outcome :: string
  pr_playback_start_us :: int
  pr_metrics :: play_metrics
  pr_underruns :: "(int \<times> int) list"

text \<open>
  The constructor. A number that is not finite, or no number at all, is \<^const>\<open>None\<close>; the outer option of
  \<open>playback_timeout\<close> is Python's default \<open>None\<close>.
\<close>

definition playback_session_init :: "'z pico_transport \<Rightarrow> recording \<Rightarrow> rat option \<Rightarrow> rat option \<Rightarrow> rat option \<Rightarrow>
    rat option option \<Rightarrow> 'z playback_session zero_result" where
  "playback_session_init t recording speed prebuffer_ms mode_timeout playback_timeout =
     (if prebuffer_ms = None \<or> the prebuffer_ms < 500 then Inl RecorderError
      else if mode_timeout = None \<or> the mode_timeout \<le> 0 then Inl RecorderError
      else if playback_timeout \<noteq> None \<and> (the playback_timeout = None \<or> the (the playback_timeout) \<le> 0) then Inl RecorderError
      else
       (case expand_offsets (rc_events recording) speed of
          Inl e \<Rightarrow> Inl e
        | Inr evs \<Rightarrow>
           Inr (pico_transport.extend t (playback_session.fields evs (round_half_even (fmul (the prebuffer_ms) 1000))
             (the mode_timeout) (case playback_timeout of None \<Rightarrow> None | Some v \<Rightarrow> v)
             False False False False 0 0 0 0 [] 0 0 0 None))))"

definition effective_playback_timeout :: "'z playback_session \<Rightarrow> rat" where
  "effective_playback_timeout s =
     (case pb_playback_timeout s of
        Some v \<Rightarrow> v
      | None \<Rightarrow>
         (let scaled_duration_seconds = (if pb_events s = [] then 0 else fdiv (to_double (of_int (fst (last (pb_events s))))) 1000000)
          in max 5 (fadd (fadd scaled_duration_seconds (pb_mode_timeout s)) 3)))"

text \<open>\<open>_remaining\<close>, and a wait for that long.\<close>

definition session_remaining :: "'z zero_io \<Rightarrow> rat option \<Rightarrow> (rat, 'z playback_session) action" where
  "session_remaining io timeout s =
     (case timeout of
        Some v \<Rightarrow> returns v s
      | None \<Rightarrow>
         (let (c, s) = now io s; left = fsub (pb_deadline s) c in
          if left \<le> 0 then raises TransportTimeout s else returns left s))"

definition session_await :: "'z zero_io \<Rightarrow> u8 \<Rightarrow> rat option \<Rightarrow> (protocol_frame, 'z playback_session) action" where
  "session_await io message_type timeout = and_then (session_remaining io timeout) (await_frame io message_type)"

primrec prebuffer_count :: "int \<Rightarrow> (int \<times> u8 list) list \<Rightarrow> nat" where
  "prebuffer_count prebuffer_us [] = 0"
| "prebuffer_count prebuffer_us (event # evs) =
     (if prebuffer_us \<le> fst event then 1 else Suc (prebuffer_count prebuffer_us evs))"

section \<open>Feeding\<close>

text \<open>A BUFFER_STATUS that acknowledges a command in the expected state.\<close>

definition await_status :: "'z zero_io \<Rightarrow> u8 \<Rightarrow> (unit, 'z playback_session) action" where
  "await_status io expected_state =
     and_then (session_await io BUFFER_STATUS None) (\<lambda>frame.
     and_then (lift_result (validate_buffer_status frame)) (\<lambda>(state, queued_count, free_capacity) s.
       if state \<noteq> expected_state then raises ProtocolError s
       else returns () (s\<lparr>pb_queued_count := queued_count, pb_free_capacity := free_capacity\<rparr>)))"

text \<open>
  \<open>_await_credit\<close>: what a frame means to the wait for credit, and the wait. The frames it defers are put back in
  front, also when it raises.
\<close>

datatype credit = Credit int | No_Credit | Deferred

definition credit_frame :: "u8 \<Rightarrow> protocol_frame \<Rightarrow> (credit, 'z playback_session) action" where
  "credit_frame expected_state frame s =
     (if zf_type frame = BUFFER_STATUS then
        (case validate_buffer_status frame of
           Inl e \<Rightarrow> raises e s
         | Inr (state, queued_count, free_capacity) \<Rightarrow>
             if state \<noteq> expected_state then raises ProtocolError s
             else returns (if 0 < free_capacity then Credit free_capacity else No_Credit) (s\<lparr>pb_queued_count := queued_count\<rparr>))
      else if zf_type frame = PLAY_UNDERRUN then
        (case validate_play_underrun frame of
           Inl e \<Rightarrow> raises e s
         | Inr (elapsed, free_capacity) \<Rightarrow>
             returns (if 0 < free_capacity then Credit free_capacity else No_Credit)
               (s\<lparr>pb_underruns := pb_underruns s @ [(elapsed, free_capacity)], pb_underrun_count := Suc (length (pb_underruns s))\<rparr>))
      else returns Deferred s)"

definition credit_round :: "'z zero_io \<Rightarrow> u8 \<Rightarrow> (credit \<times> protocol_frame, 'z playback_session) action" where
  "credit_round io expected_state =
     and_then (session_remaining io None) (\<lambda>timeout.
     and_then (receive_frame io timeout) (\<lambda>received.
     and_then (lift_result (require_not_error received)) (\<lambda>frame.
     and_then (credit_frame expected_state frame) (\<lambda>credit. returns (credit, frame)))))"

partial_function (option) credit_loop :: "'z zero_io \<Rightarrow> u8 \<Rightarrow> protocol_frame list \<Rightarrow> (int, 'z playback_session) action" where
  "credit_loop io expected_state deferred s =
     (case credit_round io expected_state s of
        None \<Rightarrow> None
      | Some (Inl e, s) \<Rightarrow> raises e (preserve_frames deferred s)
      | Some (Inr (credit, frame), s) \<Rightarrow>
          (case credit of
             Credit free_capacity \<Rightarrow> returns free_capacity (preserve_frames deferred s)
           | No_Credit \<Rightarrow> credit_loop io expected_state deferred s
           | Deferred \<Rightarrow> credit_loop io expected_state (deferred @ [frame]) s))"

definition await_credit :: "'z zero_io \<Rightarrow> u8 \<Rightarrow> (int, 'z playback_session) action" where
  "await_credit io expected_state = credit_loop io expected_state []"

text \<open>
  The body of the loop of \<open>_send_through\<close>: credit when there is none, a batch of at most \<open>PIPELINE_WINDOW\<close>
  events, and one acknowledgement for each.
\<close>

primrec send_batch :: "'z zero_io \<Rightarrow> (int \<times> u8 list) list \<Rightarrow> (unit, 'z playback_session) action" where
  "send_batch io [] = returns ()"
| "send_batch io (event # evs) = and_then (send_queue_event io (fst event) (snd event)) (\<lambda>_. send_batch io evs)"

primrec await_acks :: "'z zero_io \<Rightarrow> u8 \<Rightarrow> nat \<Rightarrow> (unit, 'z playback_session) action" where
  "await_acks io expected_state 0 = returns ()"
| "await_acks io expected_state (Suc n) = and_then (await_status io expected_state) (\<lambda>_. await_acks io expected_state n)"

definition batch_count :: "nat \<Rightarrow> 'z playback_session \<Rightarrow> nat" where
  "batch_count stop s = min PIPELINE_WINDOW (min (nat (pb_free_capacity s)) (stop - pb_next_event s))"

definition take_credit :: "'z zero_io \<Rightarrow> u8 \<Rightarrow> (unit, 'z playback_session) action" where
  "take_credit io expected_state s =
     (if pb_free_capacity s = 0
      then and_then (await_credit io expected_state) (\<lambda>free_capacity s. returns () (s\<lparr>pb_free_capacity := free_capacity\<rparr>)) s
      else returns () s)"

definition send_round :: "'z zero_io \<Rightarrow> nat \<Rightarrow> u8 \<Rightarrow> (unit, 'z playback_session) action" where
  "send_round io stop expected_state =
     and_then (take_credit io expected_state) (\<lambda>_ s.
       let n = batch_count stop s in
       and_then (send_batch io (take n (drop (pb_next_event s) (pb_events s)))) (\<lambda>_.
       and_then (await_acks io expected_state n) (\<lambda>_ s.
         returns () (s\<lparr>pb_next_event := pb_next_event s + n, pb_reported_next_event := pb_next_event s + n\<rparr>))) s)"

partial_function (option) send_through :: "'z zero_io \<Rightarrow> nat \<Rightarrow> u8 \<Rightarrow> (unit, 'z playback_session) action" where
  "send_through io stop expected_state s =
     (if pb_next_event s < stop then
        (case send_round io stop expected_state s of
           None \<Rightarrow> None
         | Some (Inl e, s) \<Rightarrow> raises e s
         | Some (Inr _, s) \<Rightarrow> send_through io stop expected_state s)
      else returns () s)"

section \<open>The start\<close>

text \<open>The acknowledged clear of the queue, the events before the start, and the end of a sequence that is loaded as a whole.\<close>

definition prepare_queue :: "'z zero_io \<Rightarrow> (unit, 'z playback_session) action" where
  "prepare_queue io =
     and_then (send_queue_clear io) (\<lambda>_.
     and_then (await_status io MODE_ARMED) (\<lambda>_ s.
       let n = prebuffer_count (pb_prebuffer_us s) (pb_events s) in
       if pb_free_capacity s < int n then raises RecorderError s
       else
         and_then (send_through io n MODE_ARMED) (\<lambda>_ s.
           if pb_next_event s = length (pb_events s) then
             and_then (send_queue_end io) (\<lambda>_.
             and_then (session_await io PLAY_READY None) (\<lambda>_. await_status io MODE_ARMED)) s
           else returns () s) s))"

definition start_run_of :: "'z zero_io \<Rightarrow> (int, 'z playback_session) action" where
  "start_run_of io =
     and_then (send_play_start io) (\<lambda>_.
     and_then (session_await io MODE_CHANGED None) (\<lambda>frame.
     and_then (lift_result (validate_mode_changed frame)) (\<lambda>(state, reason).
       if state \<noteq> MODE_PLAYING \<or> reason \<noteq> REASON_OK then raises ProtocolError
       else
         and_then (session_await io PLAY_STARTED None) (\<lambda>frame.
         and_then (lift_result (validate_play_started frame)) (\<lambda>playback_start_us s.
           let s = s\<lparr>pb_playback_start_us := playback_start_us\<rparr>; (c, s) = now io s
           in returns playback_start_us (s\<lparr>pb_start_wallclock := Some c, pb_started := True, pb_playing := True\<rparr>))))))"

definition session_start :: "'z zero_io \<Rightarrow> (int, 'z playback_session) action" where
  "session_start io s =
     (if pb_started s \<or> pb_finished s then raises RecorderError s
      else
        and_then (set_mode io MODE_ARMED (pb_mode_timeout s) 1) (\<lambda>_ s.
          let s = s\<lparr>pb_armed := True\<rparr>; (c, s) = now io s; s = s\<lparr>pb_deadline := fadd c (effective_playback_timeout s)\<rparr>
          in and_then (prepare_queue io) (\<lambda>_. start_run_of io) s) s)"

section \<open>The end\<close>

definition collect_frame :: "protocol_frame \<Rightarrow> (unit, 'z playback_session) action" where
  "collect_frame received =
     and_then (lift_result (require_not_error received)) (\<lambda>frame s.
       if zf_type frame = PLAY_UNDERRUN then
        (case validate_play_underrun frame of
           Inl e \<Rightarrow> raises e s
         | Inr notice \<Rightarrow> returns () (s\<lparr>pb_underruns := pb_underruns s @ [notice], pb_underrun_count := Suc (length (pb_underruns s))\<rparr>))
       else if zf_type frame = BUFFER_STATUS then
        (case validate_buffer_status frame of Inl e \<Rightarrow> raises e s | Inr _ \<Rightarrow> returns () s)
       else returns () s)"

primrec collect_frames :: "protocol_frame list \<Rightarrow> (unit, 'z playback_session) action" where
  "collect_frames [] = returns ()"
| "collect_frames (frame # frames) = and_then (collect_frame frame) (\<lambda>_. collect_frames frames)"

definition collect_diagnostics :: "(unit, 'z playback_session) action" where
  "collect_diagnostics s = (let (frames, s) = drain_pending_frames s in collect_frames frames s)"

definition await_outcome :: "'z zero_io \<Rightarrow> u8 \<Rightarrow> u8 \<Rightarrow> string \<Rightarrow> rat option \<Rightarrow> (playback_result, 'z playback_session) action" where
  "await_outcome io outcome_type expected_reason outcome timeout =
     and_then (session_await io outcome_type timeout) (\<lambda>_.
     and_then (session_await io PLAY_METRICS timeout) (\<lambda>frame.
     and_then (lift_result (validate_play_metrics frame)) (\<lambda>metrics.
     and_then (session_await io MODE_CHANGED timeout) (\<lambda>frame.
     and_then (lift_result (validate_mode_changed frame)) (\<lambda>(state, reason).
       if state \<noteq> MODE_ARMED \<or> reason \<noteq> expected_reason then raises ProtocolError
       else
         and_then collect_diagnostics (\<lambda>_ s.
           returns \<lparr>pr_outcome = outcome, pr_playback_start_us = pb_playback_start_us s, pr_metrics = metrics,
             pr_underruns = pb_underruns s\<rparr> s))))))"

definition return_to_pass :: "'z zero_io \<Rightarrow> (unit, 'z playback_session) action" where
  "return_to_pass io s =
     and_then (set_mode io MODE_PASS (pb_mode_timeout s) 1) (\<lambda>_ s. returns () (s\<lparr>pb_armed := False\<rparr>)) s"

definition feed_rest :: "'z zero_io \<Rightarrow> (unit, 'z playback_session) action" where
  "feed_rest io s =
     (if pb_next_event s < length (pb_events s)
      then and_then (send_through io (length (pb_events s)) MODE_PLAYING) (\<lambda>_. send_queue_end io) s
      else returns () s)"

definition session_finish :: "'z zero_io \<Rightarrow> bool \<Rightarrow> (playback_result, 'z playback_session) action" where
  "session_finish io to_pass s =
     (if \<not> pb_started s then raises RecorderError s
      else if pb_finished s then raises RecorderError s
      else
        and_then (feed_rest io) (\<lambda>_.
        and_then (await_outcome io PLAY_FINISHED REASON_FINISHED ''finished'' None) (\<lambda>result s.
          let s = s\<lparr>pb_playing := False, pb_armed := True\<rparr> in
          and_then (if to_pass then return_to_pass io else returns ()) (\<lambda>_ s. returns result (s\<lparr>pb_finished := True\<rparr>)) s)) s)"

definition session_play :: "'z zero_io \<Rightarrow> bool \<Rightarrow> (playback_result, 'z playback_session) action" where
  "session_play io to_pass = and_then (session_start io) (\<lambda>_. session_finish io to_pass)"

text \<open>
  \<open>abort\<close>: the outcome of a run that plays, with the exception that its wait ended with; then the return to
  PASS, before which the stale frames are dropped if there was an exception; an exception of it is the one that
  is raised, or comes on top of the first as a \<open>RecorderError\<close>.
\<close>

definition abort_run :: "'z zero_io \<Rightarrow> 'z playback_session \<Rightarrow>
    ((playback_result option \<times> zero_error option) \<times> 'z playback_session) option" where
  "abort_run io s =
     (if pb_playing s then
       (case and_then (send_play_abort io)
               (\<lambda>_. await_outcome io PLAY_ABORTED REASON_ABORTED ''aborted'' (Some (pb_mode_timeout s))) s of
          None \<Rightarrow> None
        | Some (Inl e, s) \<Rightarrow> Some ((None, Some e), s\<lparr>pb_playing := False, pb_armed := True\<rparr>)
        | Some (Inr result, s) \<Rightarrow> Some ((Some result, None), s\<lparr>pb_playing := False, pb_armed := True\<rparr>))
      else Some ((None, None), s))"

definition abort_to_pass :: "'z zero_io \<Rightarrow> zero_error option \<Rightarrow> 'z playback_session \<Rightarrow>
    (zero_error option \<times> 'z playback_session) option" where
  "abort_to_pass io outcome_error s =
     (let s = (if outcome_error \<noteq> None then snd (drain_pending_frames s) else s) in
      case return_to_pass io s of
        None \<Rightarrow> None
      | Some (Inl e, s) \<Rightarrow> Some (Some (if outcome_error = None then e else RecorderError), s)
      | Some (Inr _, s) \<Rightarrow> Some (outcome_error, s))"

definition session_abort :: "'z zero_io \<Rightarrow> bool \<Rightarrow> (playback_result option, 'z playback_session) action" where
  "session_abort io to_pass s =
     (if pb_finished s then returns None s
      else
       (case abort_run io s of
          None \<Rightarrow> None
        | Some ((result, outcome_error), s) \<Rightarrow>
           (case if to_pass \<and> pb_armed s then abort_to_pass io outcome_error s else Some (outcome_error, s) of
              None \<Rightarrow> None
            | Some (outcome_error, s) \<Rightarrow>
                (let s = s\<lparr>pb_finished := True\<rparr> in
                 case outcome_error of None \<Rightarrow> returns result s | Some e \<Rightarrow> raises e s))))"

definition abort_best_effort :: "'z zero_io \<Rightarrow> (zero_error option, 'z playback_session) action" where
  "abort_best_effort io s =
     (case session_abort io True s of
        None \<Rightarrow> None
      | Some (Inl e, s) \<Rightarrow> returns (Some e) s
      | Some (Inr _, s) \<Rightarrow> returns None s)"

section \<open>Progress\<close>

record playback_progress =
  pg_queued_count :: int
  pg_free_capacity :: int
  pg_queued_events :: nat
  pg_total_events :: nat
  pg_underrun_count :: nat
  pg_elapsed_us_estimate :: int
  pg_duration_us :: int

definition session_progress :: "'z zero_io \<Rightarrow> 'z playback_session \<Rightarrow> playback_progress \<times> 'z playback_session" where
  "session_progress io s =
     (let duration_us = (if pb_events s = [] then 0 else fst (last (pb_events s)));
          (elapsed, s) = (case pb_start_wallclock s of
              None \<Rightarrow> (0, s)
            | Some start \<Rightarrow>
                (let (c, s) = now io s
                 in (max 0 (min (round_half_even (fmul (fsub c start) 1000000)) duration_us), s)))
      in (\<lparr>pg_queued_count = pb_queued_count s, pg_free_capacity = pb_free_capacity s, pg_queued_events = pb_reported_next_event s,
           pg_total_events = length (pb_events s), pg_underrun_count = pb_underrun_count s, pg_elapsed_us_estimate = elapsed,
           pg_duration_us = duration_us\<rparr>, s))"

end
