(* ===== verification/Zero_Feeding.thy ===== *)
theory Zero_Feeding
  imports Zero_Playback
begin

text \<open>
  What a playback session of \<open>zero/app/playback.py\<close> writes: when it returns, it wrote the commands of one run, with
  every event of the recording once and in order, and the end of the sequence once.
\<close>

section \<open>Writing\<close>

text \<open>Between two states of a session so many bytes were written, and so many events were fed; the events are the same.\<close>

definition fed :: "('z \<Rightarrow> u8 list) \<Rightarrow> 'z playback_session \<Rightarrow> u8 list \<Rightarrow> nat \<Rightarrow> 'z playback_session \<Rightarrow> bool" where
  "fed out s bytes n u \<longleftrightarrow> out (pt_stream u) = out (pt_stream s) @ bytes \<and> pb_next_event u = pb_next_event s + n
     \<and> pb_events u = pb_events s \<and> pb_prebuffer_us u = pb_prebuffer_us s"

lemma fed_trans: "fed out s xs n u \<Longrightarrow> fed out u ys m v \<Longrightarrow> fed out s (xs @ ys) (n + m) v"
  by (simp add: fed_def)

lemma fed_quiet: "fed out s [] 0 u \<Longrightarrow> fed out u ys m v \<Longrightarrow> fed out s ys m v"
  by (simp add: fed_def)

lemma fed_refl: "fed out s [] 0 s"
  by (simp add: fed_def)

lemma wrote_fed: "wrote out s bytes u \<Longrightarrow> fed out s bytes 0 u"
  by (cases s; cases u) (simp add: wrote_def fed_def)

lemma and_then_Inr:
  "and_then m f s = Some (Inr y, u) \<longleftrightarrow> (\<exists>x v. m s = Some (Inr x, v) \<and> f x v = Some (Inr y, u))"
  by (auto simp: and_then_def split: option.splits sum.splits)

lemma action_simps [simp]:
  "returns x s = Some (Inr y, u) \<longleftrightarrow> y = x \<and> u = s" "raises e s = Some (Inr y, u) \<longleftrightarrow> False"
  "lift_result r s = Some (Inr y, u) \<longleftrightarrow> r = Inr y \<and> u = s"
  by (auto simp: returns_def raises_def lift_result_def)

definition event_frame :: "int \<times> u8 list \<Rightarrow> u8 list" where
  "event_frame e = wire_frame QUEUE_EVENT (pack_le 8 (fst e) @ [8] @ snd e)"

definition event_frames :: "(int \<times> u8 list) list \<Rightarrow> u8 list" where
  "event_frames evs = concat (map event_frame evs)"

lemma event_frames_simps [simp]:
  "event_frames [] = []" "event_frames (e # evs) = event_frame e @ event_frames evs"
  "event_frames (xs @ ys) = event_frames xs @ event_frames ys"
  by (simp_all add: event_frames_def)

lemma encode_event_wire: "encode_queue_event offset_us report = Inr bytes \<Longrightarrow> bytes = event_frame (offset_us, report)"
  using zero_types by (auto simp: encode_queue_event_def event_frame_def encode_frame_wire split: if_splits)

lemma encode_plain_wire:
  "encode_queue_clear = Inr (wire_frame QUEUE_CLEAR [])" "encode_queue_end = Inr (wire_frame QUEUE_END [])"
  "encode_play_start = Inr (wire_frame PLAY_START [])" "encode_play_abort = Inr (wire_frame PLAY_ABORT [])"
  using zero_types
  by (simp_all add: encode_queue_clear_def encode_queue_end_def encode_play_start_def encode_play_abort_def encode_frame_wire)

text \<open>
  \<open>load_messages\<close> and \<open>feed_messages\<close>: the commands of one run, with \<open>i\<close> and \<open>j\<close> attempts for the two changes of
  the mode and \<open>n\<close> events loaded before the start.
\<close>

definition event_message :: "int \<times> u8 list \<Rightarrow> message" where
  "event_message e = (QUEUE_EVENT, pack_le 8 (fst e) @ [8] @ snd e)"

definition load_messages :: "nat \<Rightarrow> nat \<Rightarrow> (int \<times> u8 list) list \<Rightarrow> message list" where
  "load_messages i n evs = replicate i (MODE_SET, [MODE_ARMED]) @ [(QUEUE_CLEAR, [])] @ map event_message (take n evs)
     @ (if n = length evs then [(QUEUE_END, [])] else []) @ [(PLAY_START, [])]"

definition feed_messages :: "nat \<Rightarrow> nat \<Rightarrow> (int \<times> u8 list) list \<Rightarrow> message list" where
  "feed_messages j n evs = map event_message (drop n evs) @ (if n < length evs then [(QUEUE_END, [])] else [])
     @ replicate j (MODE_SET, [MODE_PASS])"

lemma event_frames_stream: "event_frames evs = wire_stream (map event_message evs)"
  by (induction evs) (simp_all add: event_frame_def event_message_def)

lemma prebuffer_count_le: "prebuffer_count p evs \<le> length evs"
  by (induction evs) auto

section \<open>The steps of a session\<close>

context byte_stream
begin

lemma send_fed: "send_encoded io (Inr bytes) s = Some (Inr x, u) \<Longrightarrow> fed out s bytes 0 u"
  using send_encoded_law [OF stream] wrote_fed by fastforce

lemma remaining_fed: "session_remaining io timeout s = Some (Inr x, u) \<Longrightarrow> fed out s [] 0 u"
  using wrote_fed [OF wrote_now [OF stream, of s]] fed_refl
  by (auto simp: session_remaining_def split_beta Let_def split: option.splits if_splits)

lemma session_await_fed: "session_await io message_type timeout s = Some (Inr f, u) \<Longrightarrow> fed out s [] 0 u"
  unfolding session_await_def and_then_Inr using remaining_fed wrote_fed await_wrote [OF stream] fed_quiet by fastforce

lemma await_status_fed: "await_status io state s = Some (Inr x, u) \<Longrightarrow> fed out s [] 0 u"
  unfolding await_status_def and_then_Inr using session_await_fed by (fastforce simp: fed_def split: if_splits prod.splits)

lemma await_acks_fed: "await_acks io state n s = Some (Inr x, u) \<Longrightarrow> fed out s [] 0 u"
proof (induction n arbitrary: s)
  case (Suc n)
  then show ?case using await_status_fed fed_quiet by (fastforce simp: and_then_Inr)
qed (simp add: fed_def)

lemma send_batch_fed: "send_batch io evs s = Some (Inr x, u) \<Longrightarrow> fed out s (event_frames evs) 0 u"
proof (induction evs arbitrary: s)
  case (Cons e evs)
  then obtain v where v: "send_queue_event io (fst e) (snd e) s = Some (Inr (), v)" "send_batch io evs v = Some (Inr x, u)"
    by (auto simp: and_then_Inr)
  from v(1) have "fed out s (event_frame e) 0 v"
    using send_encoded_law [OF stream, of "encode_queue_event (fst e) (snd e)"] encode_event_wire [of "fst e" "snd e"] wrote_fed
    by (fastforce simp: send_queue_event_def)
  from fed_trans [OF this Cons.IH [OF v(2)]] show ?case by simp
qed (simp add: fed_def)

lemma credit_frame_fed: "credit_frame state frame s = Some (r, u) \<Longrightarrow> fed out s [] 0 u"
  by (auto simp: credit_frame_def returns_def raises_def fed_def split: if_splits sum.splits)

lemma credit_round_fed: "credit_round io state s = Some (Inr y, u) \<Longrightarrow> fed out s [] 0 u"
proof -
  assume "credit_round io state s = Some (Inr y, u)"
  then obtain t v f w g where "session_remaining io None s = Some (Inr t, v)" "receive_frame io t v = Some (Inr f, w)"
    "credit_frame state g w = Some (Inr (fst y), u)"
    by (auto simp: credit_round_def and_then_Inr)
  then show ?thesis
    using fed_quiet [OF remaining_fed fed_quiet [OF wrote_fed [OF receive_wrote [OF stream]] credit_frame_fed]] by fastforce
qed

lemma preserve_fed [simp]: "fed out s bytes n (preserve_frames fs u) \<longleftrightarrow> fed out s bytes n u"
  by (simp add: fed_def preserve_frames_def)

lemma credit_loop_fed:
  assumes "credit_loop io state deferred s = Some (Inr free, u)"
  shows "fed out s [] 0 u"
proof -
  define good where "good s y \<longleftrightarrow> (fst y = Inr free \<longrightarrow> fed out s [] 0 (snd y))" for s and y :: "int zero_result \<times> 'z playback_session"
  have "io = io \<longrightarrow> good s (Inr free, u)"
  proof (rule credit_loop.raw_induct [where P = "\<lambda>io' state deferred s y. io' = io \<longrightarrow> good s y", OF _ assms], intro impI)
    fix loop and io' :: "'z zero_io" and state deferred s y
    assume IH: "\<And>io' state deferred s y. loop io' state deferred s = Some y \<Longrightarrow>
        io' = io \<longrightarrow> good s y"
      and body: "(case credit_round io' state s of None \<Rightarrow> None | Some (Inl e, s) \<Rightarrow> raises e (preserve_frames deferred s)
        | Some (Inr (credit, frame), s) \<Rightarrow> (case credit of Credit free \<Rightarrow> returns free (preserve_frames deferred s)
            | No_Credit \<Rightarrow> loop io' state deferred s | Deferred \<Rightarrow> loop io' state (deferred @ [frame]) s)) = Some y"
      and same: "io' = io"
    show "good s y"
    proof (cases "fst y = Inr free")
      case True
      with body obtain credit frame v where v: "credit_round io state s = Some (Inr (credit, frame), v)"
        by (auto simp: raises_def same split: option.splits sum.splits)
      note quiet = credit_round_fed [OF v]
      with body v same True IH [of io state deferred v y] IH [of io state "deferred @ [frame]" v y] fed_quiet [OF quiet]
      show ?thesis by (auto simp: good_def returns_def split: credit.splits)
    qed (simp add: good_def)
  qed
  then show ?thesis by (simp add: good_def)
qed

lemma take_credit_fed: "take_credit io state s = Some (Inr x, u) \<Longrightarrow> fed out s [] 0 u"
  using credit_loop_fed fed_refl by (fastforce simp: take_credit_def await_credit_def and_then_Inr fed_def split: if_splits)

text \<open>A round feeds the next events, as many as its batch has; the loop feeds all up to where it stops.\<close>

lemma send_round_feeds:
  assumes "send_round io stop state s = Some (Inr x, u)" "pb_next_event s < stop"
  shows "\<exists>n. n \<le> stop - pb_next_event s \<and> fed out s (event_frames (take n (drop (pb_next_event s) (pb_events s)))) n u"
proof -
  from assms(1) obtain a b c where abc: "take_credit io state s = Some (Inr (), a)"
    "send_batch io (take (batch_count stop a) (drop (pb_next_event a) (pb_events a))) a = Some (Inr (), b)"
    "await_acks io state (batch_count stop a) b = Some (Inr (), c)"
    "u = c\<lparr>pb_next_event := pb_next_event c + batch_count stop a, pb_reported_next_event := pb_next_event c + batch_count stop a\<rparr>"
    by (auto simp: send_round_def and_then_Inr Let_def)
  note quiet = take_credit_fed [OF abc(1)]
  with fed_quiet [OF quiet fed_trans [OF send_batch_fed [OF abc(2)] await_acks_fed [OF abc(3)]]] abc(4)
  show ?thesis by (intro exI [of _ "batch_count stop a"]) (simp add: fed_def batch_count_def)
qed

lemma feed_more:
  assumes "fed out s (event_frames (take n (drop (pb_next_event s) (pb_events s)))) n u"
    "fed out u (event_frames (take m (drop (pb_next_event u) (pb_events u)))) m v"
  shows "fed out s (event_frames (take (n + m) (drop (pb_next_event s) (pb_events s)))) (n + m) v"
proof -
  have "take (n + m) (drop k evs) = take n (drop k evs) @ take m (drop (k + n) evs)" for k and evs :: "(int \<times> u8 list) list"
    using take_add [of n m "drop k evs"] by (simp add: add.commute [of k n])
  with fed_trans [OF assms] assms(1) show ?thesis by (simp add: fed_def)
qed

lemma send_through_feeds:
  assumes "send_through io stop state s = Some (Inr x, u)" "pb_next_event s \<le> stop"
  shows "fed out s (event_frames (take (stop - pb_next_event s) (drop (pb_next_event s) (pb_events s)))) (stop - pb_next_event s) u"
proof -
  define good where "good s y \<longleftrightarrow> (fst y = Inr x \<longrightarrow> pb_next_event s \<le> stop \<longrightarrow>
    fed out s (event_frames (take (stop - pb_next_event s) (drop (pb_next_event s) (pb_events s)))) (stop - pb_next_event s) (snd y))"
    for s and y :: "unit zero_result \<times> 'z playback_session"
  have "io = io \<longrightarrow> stop = stop \<longrightarrow> good s (Inr x, u)"
  proof (rule send_through.raw_induct [where P = "\<lambda>io' stop' state s y. io' = io \<longrightarrow> stop' = stop \<longrightarrow> good s y", OF _ assms(1)], intro impI)
    fix loop and io' :: "'z zero_io" and stop' state s y
    assume IH: "\<And>io' stop' state s y. loop io' stop' state s = Some y \<Longrightarrow> io' = io \<longrightarrow> stop' = stop \<longrightarrow> good s y"
      and body: "(if pb_next_event s < stop' then (case send_round io' stop' state s of None \<Rightarrow> None | Some (Inl e, s) \<Rightarrow> raises e s
          | Some (Inr _, s) \<Rightarrow> loop io' stop' state s) else returns () s) = Some y"
      and same: "io' = io" "stop' = stop"
    show "good s y"
    proof (cases "fst y = Inr x \<and> pb_next_event s < stop")
      case True
      with body same obtain v where v: "send_round io stop state s = Some (Inr (), v)" "loop io stop state v = Some y"
        by (auto simp: raises_def split: option.splits sum.splits)
      from send_round_feeds [OF v(1)] True obtain n where n: "n \<le> stop - pb_next_event s"
        "fed out s (event_frames (take n (drop (pb_next_event s) (pb_events s)))) n v" by blast
      then have at: "pb_next_event v = pb_next_event s + n" by (simp add: fed_def)
      from n(1) conjunct2 [OF True] have "pb_next_event s + n \<le> stop" by arith
      with IH [OF v(2)] True at have "fed out v (event_frames (take (stop - pb_next_event v) (drop (pb_next_event v) (pb_events v))))
          (stop - pb_next_event v) (snd y)" by (simp add: good_def)
      from feed_more [OF n(2) this] \<open>pb_next_event s + n \<le> stop\<close> at show ?thesis by (simp add: good_def)
    next
      case False
      with body same fed_refl show ?thesis by (auto simp: good_def returns_def)
    qed
  qed
  with assms(2) show ?thesis by (simp add: good_def)
qed

section \<open>A run\<close>

lemma set_mode_attempts_wrote:
  "set_mode_attempts io m timeout n s = Some (Inr x, u) \<Longrightarrow>
    \<exists>k. 1 \<le> k \<and> k \<le> n \<and> wrote out s (concat (replicate k (wire_frame MODE_SET [m]))) u"
proof (induction n arbitrary: s)
  case (Suc n)
  from Suc.prems obtain v where send: "send_encoded io (encode_frame MODE_SET [m]) s = Some (Inr (), v)"
    by (auto simp: and_then_def split: option.splits sum.splits prod.splits)
  with send_encoded_law [OF stream send] zero_types have v: "wrote out s (wire_frame MODE_SET [m]) v" by (auto simp: encode_frame_wire)
  note body = Suc.prems [unfolded set_mode_attempts.simps and_then_def send, simplified]
  from body obtain r w where w: "await_frame io MODE_CHANGED timeout v = Some (r, w)" by (auto split: option.splits)
  note quiet = wrote_trans [OF v await_wrote [OF stream w], unfolded snd_conv append_Nil2]
  from body w consider "u = w" | "set_mode_attempts io m timeout n w = Some (Inr x, u)"
    by (auto split: sum.splits if_splits)
  then show ?case
  proof cases
    case 2
    from Suc.IH [OF this] obtain k where "1 \<le> k" "k \<le> n" "wrote out w (concat (replicate k (wire_frame MODE_SET [m]))) u" by blast
    with wrote_trans [OF quiet this(3)] show ?thesis by (intro exI [of _ "Suc k"]) simp
  qed (use quiet in \<open>auto intro: exI [of _ "Suc 0"]\<close>)
qed simp

lemma set_mode_fed:
  assumes "set_mode io m timeout 1 s = Some (Inr x, u)"
  shows "\<exists>k. 1 \<le> k \<and> k \<le> 2 \<and> fed out s (wire_stream (replicate k (MODE_SET, [m]))) 0 u"
proof -
  have "concat (replicate k (wire_frame MODE_SET [m])) = wire_stream (replicate k (MODE_SET, [m]))" for k
    by (induction k) simp_all
  with assms set_mode_attempts_wrote [of m timeout 2 s x u] wrote_fed show ?thesis
    by (fastforce simp: set_mode_def split: if_splits)
qed

lemma send_plain_fed:
  "send_queue_clear io s = Some (Inr x, u) \<Longrightarrow> fed out s (wire_stream [(QUEUE_CLEAR, [])]) 0 u"
  "send_queue_end io s = Some (Inr x, u) \<Longrightarrow> fed out s (wire_stream [(QUEUE_END, [])]) 0 u"
  "send_play_start io s = Some (Inr x, u) \<Longrightarrow> fed out s (wire_stream [(PLAY_START, [])]) 0 u"
  using send_fed by (auto simp: send_queue_clear_def send_queue_end_def send_play_start_def encode_plain_wire)

lemma prepare_queue_fed:
  assumes "prepare_queue io s = Some (Inr x, u)" "pb_next_event s = 0"
  defines "n \<equiv> prebuffer_count (pb_prebuffer_us s) (pb_events s)"
  shows "fed out s (wire_stream ([(QUEUE_CLEAR, [])] @ map event_message (take n (pb_events s))
    @ (if n = length (pb_events s) then [(QUEUE_END, [])] else []))) n u"
proof -
  from assms(1) obtain a b c where a: "send_queue_clear io s = Some (Inr (), a)" and b: "await_status io MODE_ARMED a = Some (Inr (), b)"
    and c: "send_through io (prebuffer_count (pb_prebuffer_us b) (pb_events b)) MODE_ARMED b = Some (Inr (), c)"
    and rest: "(if pb_next_event c = length (pb_events c) then
        and_then (send_queue_end io) (\<lambda>_. and_then (session_await io PLAY_READY None) (\<lambda>_. await_status io MODE_ARMED)) c
      else returns () c) = Some (Inr x, u)"
    by (auto simp: prepare_queue_def and_then_Inr Let_def split: if_splits)
  note ab = fed_trans [OF send_plain_fed(1) [OF a] await_status_fed [OF b]]
  with assms(2) have b0: "pb_next_event b = 0" "pb_events b = pb_events s" "pb_prebuffer_us b = pb_prebuffer_us s" by (simp_all add: fed_def)
  from send_through_feeds [OF c] b0 have c1: "fed out b (event_frames (take n (pb_events s))) n c" by (simp add: n_def)
  note abc = fed_trans [OF ab c1]
  have "pb_next_event c = n" "pb_events c = pb_events s" using abc assms(2) by (simp_all add: fed_def)
  moreover have "fed out c (wire_stream (if n = length (pb_events s) then [(QUEUE_END, [])] else [])) 0 u"
  proof (cases "n = length (pb_events s)")
    case True
    with rest calculation obtain d where "send_queue_end io c = Some (Inr (), d)" "fed out d [] 0 u"
      using fed_quiet [OF session_await_fed await_status_fed] by (fastforce simp: and_then_Inr)
    with True fed_trans [OF send_plain_fed(2), of c "()" d "[]" 0 u] show ?thesis by simp
  next
    case False
    with rest calculation fed_refl show ?thesis by simp
  qed
  ultimately show ?thesis using fed_trans [OF abc] by (fastforce simp: event_frames_stream)
qed

lemma start_run_of_fed: "start_run_of io s = Some (Inr x, u) \<Longrightarrow> fed out s (wire_stream [(PLAY_START, [])]) 0 u"
proof -
  assume "start_run_of io s = Some (Inr x, u)"
  then obtain a f b g c where "send_play_start io s = Some (Inr (), a)" "session_await io MODE_CHANGED None a = Some (Inr f, b)"
    "session_await io PLAY_STARTED None b = Some (Inr g, c)"
    "u = (snd (now io (c\<lparr>pb_playback_start_us := x\<rparr>)))\<lparr>pb_start_wallclock := Some (fst (now io (c\<lparr>pb_playback_start_us := x\<rparr>))),
       pb_started := True, pb_playing := True\<rparr>"
    by (auto simp: start_run_of_def and_then_Inr Let_def split_beta split: if_splits)
  note abc = this
  have "fed out c [] 0 u"
    using wrote_fed [OF wrote_now [OF stream, of "c\<lparr>pb_playback_start_us := x\<rparr>"]] by (simp add: abc(4) fed_def)
  from fed_trans [OF send_plain_fed(3) [OF abc(1)] fed_quiet [OF session_await_fed [OF abc(2)] fed_quiet [OF session_await_fed [OF abc(3)] this]]]
  show ?thesis by simp
qed

lemma session_start_fed:
  assumes "session_start io s = Some (Inr x, u)" "pb_next_event s = 0"
  defines "n \<equiv> prebuffer_count (pb_prebuffer_us s) (pb_events s)"
  shows "\<exists>i. 1 \<le> i \<and> i \<le> 2 \<and> fed out s (wire_stream (load_messages i n (pb_events s))) n u"
proof -
  from assms(1) obtain a b c where a: "set_mode io MODE_ARMED (pb_mode_timeout s) 1 s = Some (Inr (), a)"
    and b: "b = (let s = a\<lparr>pb_armed := True\<rparr>; (c, s) = now io s in s\<lparr>pb_deadline := fadd c (effective_playback_timeout s)\<rparr>)"
    and c: "prepare_queue io b = Some (Inr (), c)" "start_run_of io c = Some (Inr x, u)"
    by (auto simp: session_start_def and_then_Inr Let_def split_beta split: if_splits)
  from set_mode_fed [OF a] obtain i where i: "1 \<le> i" "i \<le> 2" "fed out s (wire_stream (replicate i (MODE_SET, [MODE_ARMED]))) 0 a" by blast
  have "fed out a [] 0 b"
    using wrote_fed [OF wrote_now [OF stream, of "a\<lparr>pb_armed := True\<rparr>"]] by (simp add: b split_beta Let_def fed_def)
  from fed_trans [OF i(3) this] have ib: "fed out s (wire_stream (replicate i (MODE_SET, [MODE_ARMED]))) 0 b" by simp
  then have "pb_next_event b = 0" "pb_events b = pb_events s" "pb_prebuffer_us b = pb_prebuffer_us s" using assms(2) by (simp_all add: fed_def)
  with prepare_queue_fed [OF c(1)] have "fed out b (wire_stream ([(QUEUE_CLEAR, [])] @ map event_message (take n (pb_events s))
    @ (if n = length (pb_events s) then [(QUEUE_END, [])] else []))) n c" by (simp add: n_def)
  from fed_trans [OF fed_trans [OF ib this] start_run_of_fed [OF c(2)]] i(1,2) show ?thesis
    by (intro exI [of _ i]) (simp add: load_messages_def)
qed

lemma feed_rest_fed:
  assumes "feed_rest io s = Some (Inr x, u)" "pb_next_event s \<le> length (pb_events s)"
  shows "fed out s (wire_stream (map event_message (drop (pb_next_event s) (pb_events s))
    @ (if pb_next_event s < length (pb_events s) then [(QUEUE_END, [])] else []))) (length (pb_events s) - pb_next_event s) u"
proof (cases "pb_next_event s < length (pb_events s)")
  case True
  with assms(1) obtain v where v: "send_through io (length (pb_events s)) MODE_PLAYING s = Some (Inr (), v)" "send_queue_end io v = Some (Inr x, u)"
    by (auto simp: feed_rest_def and_then_Inr)
  from fed_trans [OF send_through_feeds [OF v(1) assms(2)] send_plain_fed(2) [OF v(2)]] True show ?thesis
    by (simp add: event_frames_stream)
qed (use assms fed_refl in \<open>simp add: feed_rest_def\<close>)

lemma collect_frames_fed: "collect_frames fs s = Some (Inr x, u) \<Longrightarrow> fed out s [] 0 u"
proof (induction fs arbitrary: s)
  case (Cons f fs)
  then obtain v where v: "collect_frame f s = Some (Inr (), v)" "collect_frames fs v = Some (Inr x, u)" by (auto simp: and_then_Inr)
  from v(1) have "fed out s [] 0 v"
    by (auto simp: collect_frame_def and_then_Inr fed_def split: if_splits sum.splits)
  from fed_quiet [OF this Cons.IH [OF v(2)]] show ?case .
qed (simp add: fed_refl)

lemma collect_diagnostics_fed: "collect_diagnostics s = Some (Inr x, u) \<Longrightarrow> fed out s [] 0 u"
  using collect_frames_fed [of "pt_pending s" "s\<lparr>pt_pending := []\<rparr>" x u]
  by (simp add: collect_diagnostics_def drain_pending_frames_def fed_def)

lemma await_outcome_fed: "await_outcome io ty reason outcome timeout s = Some (Inr r, u) \<Longrightarrow> fed out s [] 0 u"
proof -
  assume "await_outcome io ty reason outcome timeout s = Some (Inr r, u)"
  then obtain f a g b h c where "session_await io ty timeout s = Some (Inr f, a)" "session_await io PLAY_METRICS timeout a = Some (Inr g, b)"
    "session_await io MODE_CHANGED timeout b = Some (Inr h, c)" "collect_diagnostics c = Some (Inr (), u)"
    by (auto simp: await_outcome_def and_then_Inr split: if_splits)
  then show ?thesis using session_await_fed collect_diagnostics_fed fed_quiet by metis
qed

lemma session_finish_fed:
  assumes "session_finish io True s = Some (Inr r, u)" "pb_next_event s \<le> length (pb_events s)"
  shows "\<exists>j. 1 \<le> j \<and> j \<le> 2 \<and> fed out s (wire_stream (feed_messages j (pb_next_event s) (pb_events s))) (length (pb_events s) - pb_next_event s) u"
proof -
  from assms(1) obtain a b c where a: "feed_rest io s = Some (Inr (), a)"
    and b: "await_outcome io PLAY_FINISHED REASON_FINISHED ''finished'' None a = Some (Inr r, b)"
    and c: "set_mode io MODE_PASS (pb_mode_timeout b) 1 (b\<lparr>pb_playing := False, pb_armed := True\<rparr>) = Some (Inr (), c)"
    and u: "u = c\<lparr>pb_armed := False, pb_finished := True\<rparr>"
    by (auto simp: session_finish_def and_then_Inr return_to_pass_def Let_def split: if_splits)
  note ab = fed_trans [OF feed_rest_fed [OF a assms(2)] await_outcome_fed [OF b]]
  from set_mode_fed [OF c] obtain j where j: "1 \<le> j" "j \<le> 2"
    "fed out (b\<lparr>pb_playing := False, pb_armed := True\<rparr>) (wire_stream (replicate j (MODE_SET, [MODE_PASS]))) 0 c" by blast
  from j(3) have "fed out b (wire_stream (replicate j (MODE_SET, [MODE_PASS]))) 0 u" by (simp add: u fed_def)
  from fed_trans [OF ab this] j(1,2) show ?thesis by (intro exI [of _ j]) (simp add: feed_messages_def)
qed

lemma session_play_fed:
  assumes "session_play io True s = Some (Inr r, u)" "pb_next_event s = 0"
  defines "n \<equiv> prebuffer_count (pb_prebuffer_us s) (pb_events s)"
  shows "\<exists>i j. i \<in> {1, 2} \<and> j \<in> {1, 2}
    \<and> out (pt_stream u) = out (pt_stream s) @ wire_stream (load_messages i n (pb_events s) @ feed_messages j n (pb_events s))"
proof -
  from assms(1) obtain x v where v: "session_start io s = Some (Inr x, v)" "session_finish io True v = Some (Inr r, u)"
    by (auto simp: session_play_def and_then_Inr)
  from session_start_fed [OF v(1) assms(2)] obtain i where i: "1 \<le> i" "i \<le> 2" "fed out s (wire_stream (load_messages i n (pb_events s))) n v"
    by (auto simp: n_def)
  from i(3) assms(2) have at: "pb_next_event v = n" "pb_events v = pb_events s" by (simp_all add: fed_def)
  from session_finish_fed [OF v(2)] at prebuffer_count_le [of "pb_prebuffer_us s" "pb_events s"] obtain j where
    j: "1 \<le> j" "j \<le> 2" "fed out v (wire_stream (feed_messages j n (pb_events s))) (length (pb_events s) - n) u" by (auto simp: n_def)
  from fed_trans [OF i(3) j(3)] i(1,2) j(1,2) show ?thesis
    by (intro exI [of _ i] exI [of _ j]) (auto simp: fed_def)
qed

end

end
