(* ===== verification/Zero_Replay.thy ===== *)
theory Zero_Replay
  imports Zero_Service Zero_Feeding Firmware_Typing
begin

text \<open>
  The two programs together: what the Pico recorded is what the Zero stores, and what the Zero plays back is
  what the Pico gets to queue.
\<close>

section \<open>From the Pico to the recording\<close>

text \<open>\<open>capture_values\<close>: a captured report as Python has it.\<close>

definition capture_values :: "u64 \<times> hid_report \<Rightarrow> int \<times> int list" where
  "capture_values x = (uint (fst x), map uint (report_bytes (snd x)))"

lemma captures_of_records:
  assumes "record_events ms = map record_of recd"
  shows "captures_in (map frame_of ms) = map capture_values recd"
proof -
  have "captures_in (map frame_of ms) = captures_in (map frame_of (record_events ms))"
    by (induction ms) (auto simp: captures_in_def frame_of_def record_events_def constants_agree)
  also have "\<dots> = captures_in (map frame_of (map record_of recd))" by (simp add: assms)
  also have "\<dots> = map capture_values recd"
    by (induction recd) (simp_all add: captures_in_def frame_of_def record_of_def constants_agree capture_values_def)
  finally show ?thesis .
qed

text \<open>The session's recording, from a session that just began to the one that published it.\<close>

lemma run_recording_law:
  assumes "io_ok io inp out" "pico_peer inp" "link_inv inp s0" "rs_builder s0 = builder_of (rs_name s0) []"
    "validate_name (rs_name s0) = Inr (rs_name s0)" "run_recording io interval n s0 = Some (Inl r, u)"
  shows "\<exists>before after. took inp s0 (before @ [pass_confirmed] @ after) u \<and> pt_pending u = []
    \<and> captures_ok (captures_in (before @ after)) \<and> recording_ok r
    \<and> r = \<lparr>rc_name = rs_name s0, rc_duration_us = recorded_duration (captures_in (before @ after)),
        rc_events = recorded_events (captures_in (before @ after)), rc_version = FORMAT_VERSION\<rparr>
    \<and> store_save r (rs_store s0) = Inr (rs_store u)"
proof -
  have start: "session_law inp s0 [] [] s0"
    using took_refl [OF assms(3)] assms(4) by (simp add: session_law_def captures_ok_def)
  from assms(6) obtain v where v: "record_rounds io interval n s0 = Some (Inr (), v)" "recording_session_stop io v = Some (Inr r, u)"
    by (auto simp: run_recording_def and_then_def split: option.splits sum.splits prod.splits)
  from record_rounds_law [OF assms(1,2) v(1) start] obtain fs where fs: "session_law inp s0 fs fs v" by auto
  from stop_law [OF assms(1,2) fs v(2)] obtain skipped rest where stop: "took inp s0 (fs @ skipped @ [pass_confirmed] @ rest) u"
    "pt_pending u = []" "captures_ok (captures_in (fs @ skipped @ rest))"
    "recording_builder_build (builder_of (rs_name s0) (captures_in (fs @ skipped @ rest))) = Inr r"
    "store_save r (rs_store s0) = Inr (rs_store u)" by blast
  note built = build_recording [OF stop(3) assms(5)]
  with stop show ?thesis by (intro exI [of _ "fs @ skipped"] exI [of _ rest]) simp
qed

section \<open>From the recording to the Pico\<close>

definition zero_event_ok :: "int \<times> u8 list \<Rightarrow> bool" where
  "zero_event_ok e \<longleftrightarrow> 0 \<le> fst e \<and> fst e \<le> MAX_U64 \<and> length (snd e) = 8"

lemma expand_events_ok: "expand_events v c evs = Inr xs \<Longrightarrow> list_all event_ok evs \<Longrightarrow> list_all zero_event_ok xs"
proof (induction evs arbitrary: c xs)
  case (Cons e evs)
  then show ?case by (auto simp: Let_def zero_event_ok_def event_ok_def split: if_splits option.splits sum.splits)
qed simp

lemma init_events:
  assumes "playback_session_init t r speed prebuffer mode_timeout playback_timeout = Inr s" "recording_ok r"
  shows "list_all zero_event_ok (pb_events s)" "pb_next_event s = 0" "expand_offsets (rc_events r) speed = Inr (pb_events s)"
    "pt_stream s = pt_stream t" "\<not> pb_started s"
proof -
  from assms(1) obtain evs where evs: "expand_offsets (rc_events r) speed = Inr evs"
    "s = pico_transport.extend t (playback_session.fields evs (round_half_even (fmul (the prebuffer) 1000))
             (the mode_timeout) (case playback_timeout of None \<Rightarrow> None | Some v \<Rightarrow> v)
             False False False False 0 0 0 0 [] 0 0 0 None)"
    by (auto simp: playback_session_init_def split: if_splits sum.splits)
  then show "pb_next_event s = 0" "expand_offsets (rc_events r) speed = Inr (pb_events s)" "pt_stream s = pt_stream t" "\<not> pb_started s"
    by (simp_all add: pico_transport.defs playback_session.defs)
  with assms(2) expand_events_ok show "list_all zero_event_ok (pb_events s)"
    by (force simp: expand_offsets_def recording_ok_def split: option.splits if_splits)
qed

text \<open>The commands of a run are commands of the protocol.\<close>

definition zero_message :: "message \<Rightarrow> bool" where
  "zero_message m \<longleftrightarrow> command_ok (mk_frame (fst m) (snd m)) \<and> length (snd m) \<le> 64"

lemma zero_message_plain:
  "zero_message (QUEUE_CLEAR, [])" "zero_message (QUEUE_END, [])" "zero_message (PLAY_START, [])" "zero_message (PLAY_ABORT, [])"
  "m \<in> {0, 1, 2} \<Longrightarrow> zero_message (MODE_SET, [m])"
  by (auto simp: zero_message_def command_ok_def pico_uart_frame_payload_valid_def constants_agree pico_constants
      type_known_iff command_iff)

lemma event_message_payload:
  assumes "zero_event_ok e"
  shows "event_message e = (QUEUE_EVENT, write_u64_le (word_of_int (fst e)) @ [8] @ snd e)"
proof -
  have "0 \<le> fst e" "fst e < 2 ^ 64" using assms by (simp_all add: zero_event_ok_def MAX_U64_def push_bit_eq_mult)
  from pack_u64 [OF this] show ?thesis by (simp add: event_message_def)
qed

lemma zero_message_event: "zero_event_ok e \<Longrightarrow> zero_message (event_message e)"
  unfolding event_message_payload
  by (auto simp: zero_event_ok_def zero_message_def command_ok_def pico_uart_frame_payload_valid_def constants_agree pico_constants
      type_known_iff command_iff nth_append)

lemma run_messages_ok:
  assumes "list_all zero_event_ok evs"
  shows "list_all zero_message (load_messages i n evs @ feed_messages j n evs)"
proof -
  have "list_all zero_message (map event_message (take n evs))" "list_all zero_message (map event_message (drop n evs))"
    using assms zero_message_event by (auto simp: list_all_iff dest: in_set_takeD in_set_dropD)
  with zero_message_plain show ?thesis
    by (auto simp: load_messages_def feed_messages_def list_all_iff MODE_ARMED_def MODE_PASS_def)
qed

text \<open>What the Pico's parser makes of the commands.\<close>

definition accepted_frames :: "parse_outcome list \<Rightarrow> uart_frame list" where
  "accepted_frames outs = List.map_filter (\<lambda>out. case out of Accept f \<Rightarrow> Some f | _ \<Rightarrow> None) outs"

definition rejects :: "parse_outcome list \<Rightarrow> bool" where
  "rejects outs \<longleftrightarrow> (\<exists>r. Reject r \<in> set outs)"

lemma accepted_frames_events [simp]: "accepted_frames (events outs) = accepted_frames outs" "rejects (events outs) \<longleftrightarrow> rejects outs"
  by (induction outs) (auto simp: accepted_frames_def events_def map_filter_simps rejects_def split: parse_outcome.splits)

lemma parse_zero_messages:
  assumes "list_all zero_message ms"
  shows "fst (parse [] (wire_stream ms)) = []" "accepted_frames (snd (parse [] (wire_stream ms))) = map (\<lambda>m. mk_frame (fst m) (snd m)) ms"
    "\<not> rejects (snd (parse [] (wire_stream ms)))"
proof -
  have p: "fst (parse [] (wire_stream ms)) = [] \<and> events (snd (parse [] (wire_stream ms))) = map (\<lambda>(ty, body). Accept (mk_frame ty body)) ms"
    using parse_frame_stream [of ms "[]"] assms by (fastforce simp: wire_stream_def list_all_iff zero_message_def)
  then show "fst (parse [] (wire_stream ms)) = []" by simp
  have "accepted_frames (map (\<lambda>(ty, body). Accept (mk_frame ty body)) ms) = map (\<lambda>m. mk_frame (fst m) (snd m)) ms"
    "\<not> rejects (map (\<lambda>(ty, body). Accept (mk_frame ty body)) ms)"
    by (induction ms) (auto simp: accepted_frames_def map_filter_simps rejects_def)
  with p show "accepted_frames (snd (parse [] (wire_stream ms))) = map (\<lambda>m. mk_frame (fst m) (snd m)) ms" "\<not> rejects (snd (parse [] (wire_stream ms)))"
    using accepted_frames_events [of "snd (parse [] (wire_stream ms))"] by simp_all
qed

text \<open>\<open>queued_events\<close>: the offsets and reports of the QUEUE_EVENT commands among bytes, as \<open>dispatch_queue_command\<close> reads them.\<close>

definition queued_events :: "u8 list \<Rightarrow> (u64 \<times> hid_report) list" where
  "queued_events bytes =
     map (\<lambda>f. (read_u64_le (fr_payload f), report_of_bytes (drop 9 (fr_payload f))))
       (filter (\<lambda>f. fr_type f = PICO_UART_QUEUE_EVENT) (accepted_frames (snd (parse [] bytes))))"

lemma queued_run:
  assumes "list_all zero_event_ok evs"
  shows "queued_events (wire_stream (load_messages i n evs @ feed_messages j n evs))
    = map (\<lambda>e. (word_of_int (fst e), report_of_bytes (snd e))) evs"
proof -
  let ?read = "\<lambda>ms. map (\<lambda>m. (read_u64_le (snd m), report_of_bytes (drop 9 (snd m)))) (filter (\<lambda>m. fst m = PICO_UART_QUEUE_EVENT) ms)"
  have evs: "?read (map event_message xs) = map (\<lambda>e. (word_of_int (fst e), report_of_bytes (snd e))) xs" if "list_all zero_event_ok xs" for xs
    using that by (induction xs) (simp_all add: event_message_payload constants_agree)
  have "queued_events (wire_stream (load_messages i n evs @ feed_messages j n evs)) = ?read (load_messages i n evs @ feed_messages j n evs)"
    unfolding queued_events_def parse_zero_messages(2) [OF run_messages_ok [OF assms]]
    by (simp add: filter_map comp_def mk_frame_def)
  also have "\<dots> = ?read (map event_message (take n evs)) @ ?read (map event_message (drop n evs))"
    by (simp add: load_messages_def feed_messages_def zero_constants pico_constants)
  also have "\<dots> = map (\<lambda>e. (word_of_int (fst e), report_of_bytes (snd e))) (take n evs @ drop n evs)"
  proof -
    have "list_all zero_event_ok (take n evs)" "list_all zero_event_ok (drop n evs)"
      using assms by (auto simp: list_all_iff dest: in_set_takeD in_set_dropD)
    with evs show ?thesis by (simp only: map_append)
  qed
  finally show ?thesis by simp
qed

section \<open>Record and replay\<close>

text \<open>A recording of what the Pico recorded, played at normal speed, is queued with the times since the first report.\<close>

lemma replayed_offsets:
  assumes "captures_ok (map capture_values recd)" "recorded_duration (map capture_values recd) < 2 ^ 53"
    "expand_offsets (recorded_events (map capture_values recd)) (Some 1) = Inr evs"
  shows "map (\<lambda>e. (word_of_int (fst e), report_of_bytes (snd e))) evs = map (\<lambda>x. (fst x - fst (hd recd), snd x)) recd"
proof -
  have "evs = map (\<lambda>x. (uint (fst x) - uint (fst (hd recd)), report_bytes (snd x))) recd"
    using expand_recorded [OF assms(1,2)] assms(3) by (cases recd) (simp_all add: capture_values_def comp_def)
  then show ?thesis by (simp add: word_sub_wi [symmetric] comp_def)
qed

end
