(* ===== verification/Zero_Linked.thy ===== *)
theory Zero_Linked
  imports Zero_Replay
begin

text \<open>
  A Zero that is linked to a Pico: the stream of the Zero is the Pico of \<open>Firmware_Spec\<close>, which takes each command
  as it is written and answers it, and goes on playing when the Zero waits for it. That is one way the two
  programs can run, and shows what a session makes of the Pico's answers; the Zero's clock stands still.
\<close>

section \<open>The link\<close>

text \<open>\<open>lk_wire\<close> are the bytes on their way to the Zero, \<open>lk_got\<close> those that it read, \<open>lk_sent\<close> those that it wrote.\<close>

record linked =
  lk_pico :: spec
  lk_wire :: "u8 list"
  lk_got :: "u8 list"
  lk_sent :: "u8 list"

text \<open>A command is taken, and what it says leaves the transmit ring.\<close>

definition pico_answer :: "environment \<Rightarrow> uart_frame \<Rightarrow> spec \<Rightarrow> spec" where
  "pico_answer env f p = (spec_command env f p)\<lparr>sp_room := 2048\<rparr>"

definition pico_takes :: "environment \<Rightarrow> u8 list \<Rightarrow> spec \<Rightarrow> spec" where
  "pico_takes env data p = fold (pico_answer env) (accepted_frames (snd (parse [] data))) p"

text \<open>
  While the Zero waits, the Pico sends the release that is pending, or else plays the first event of a run,
  or finds the queue of a run empty.
\<close>

definition pico_plays :: "environment \<Rightarrow> spec \<Rightarrow> spec" where
  "pico_plays env p =
     (case sp_queue p of
        [] \<Rightarrow> spec_empty env p
      | x # xs \<Rightarrow>
          (let q = p\<lparr>sp_queue := xs, sp_pc := sp_pc p @ [report_bytes (snd x)]\<rparr>
           in if length (sp_queue p) = 512 \<and> \<not> sp_ended p then spec_flow (spec_buffer_status q) q else q))"

definition pico_idle :: "environment \<Rightarrow> spec \<Rightarrow> spec" where
  "pico_idle env p =
     (if sp_release p then p\<lparr>sp_release := False, sp_pc := sp_pc p @ [release_bytes]\<rparr>
      else if sp_mode p = MODE_PLAYING then (pico_plays env p)\<lparr>sp_room := 2048\<rparr> else p)"

definition said_since :: "spec \<Rightarrow> spec \<Rightarrow> u8 list" where
  "said_since p q = wire_stream (drop (length (sp_zero p)) (sp_zero q))"

definition link_idle :: "environment \<Rightarrow> linked \<Rightarrow> linked" where
  "link_idle env z =
     (if lk_wire z = [] then z\<lparr>lk_pico := pico_idle env (lk_pico z), lk_wire := said_since (lk_pico z) (pico_idle env (lk_pico z))\<rparr> else z)"

definition pico_io :: "environment \<Rightarrow> linked zero_io" where
  "pico_io env =
     \<lparr>io_read = (\<lambda>n z. let z = link_idle env z in
        (Some (take n (lk_wire z)), z\<lparr>lk_wire := drop n (lk_wire z), lk_got := lk_got z @ take n (lk_wire z)\<rparr>)),
      io_write = (\<lambda>data z. let p = pico_takes env data (lk_pico z) in
        (Some (Some (length data)), z\<lparr>lk_pico := p, lk_sent := lk_sent z @ data, lk_wire := lk_wire z @ said_since (lk_pico z) p\<rparr>)),
      io_clock = (\<lambda>z. (0, z)), io_cancelled = (\<lambda>z. (False, z))\<rparr>"

lemma pico_io_ok: "io_ok (pico_io env) lk_got lk_sent"
  by (simp add: io_ok_def pico_io_def link_idle_def Let_def)

interpretation pico_link: byte_stream "pico_io env" lk_got lk_sent for env
  by unfold_locales (rule pico_io_ok)

text \<open>The answer to a command is a step of the Pico, followed by one of its transmitter.\<close>

lemma pico_answer_steps:
  "env_ok env \<Longrightarrow> sp_room (spec_command env f p) \<le> 2048 \<Longrightarrow> spec_path p [Command f, Transmit] (pico_answer env f p)"
  unfolding pico_answer_def using spec_cmd [of env p f] spec_transmit [of "spec_command env f p" 2048] by auto

lemma pico_idle_steps:
  assumes "env_ok env" "sp_mode p = MODE_PLAYING \<longrightarrow> \<not> sp_starved p" "sp_room (pico_plays env p) \<le> 2048"
  shows "\<exists>ls. spec_path p ls (pico_idle env p)"
proof (cases "sp_release p")
  case True
  then have "spec_path p [Release PICO_SAFETY_RELEASE_SENT] (pico_idle env p)" by (simp add: pico_idle_def spec_sent)
  then show ?thesis by blast
next
  case False
  show ?thesis
  proof (cases "sp_mode p = MODE_PLAYING")
    case True
    then have playing: "sp_mode p = PICO_UART_MODE_PLAYING" by (simp add: constants_agree)
    have "play_move p (pico_plays env p)"
    proof (cases "sp_queue p")
      case Nil
      with play_empty [OF assms(1) _ playing] show ?thesis by (simp add: pico_plays_def)
    next
      case (Cons x xs)
      obtain off r where x: "x = (off, r)" by fastforce
      from play_event [of p off r xs _, OF _ refl playing] Cons assms(2) True show ?thesis by (simp add: pico_plays_def x Let_def)
    qed
    then have "spec_step p Playback (pico_plays env p)" by (intro spec_playback) blast
    moreover have "spec_step (pico_plays env p) Transmit (pico_idle env p)"
      using False True assms(3) spec_transmit [of "pico_plays env p" 2048] by (simp add: pico_idle_def)
    ultimately have "spec_path p [Playback, Transmit] (pico_idle env p)" by auto
    then show ?thesis by blast
  next
    case False
    with \<open>\<not> sp_release p\<close> have "pico_idle env p = p" by (simp add: pico_idle_def)
    with spec_Nil show ?thesis by metis
  qed
qed

lemma now_linked [simp]: "now (pico_io env) s = (0, s)"
  by (cases s) (simp add: now_def pico_io_def)

section \<open>Frames on the way\<close>

text \<open>The frames that the Zero will get: those pending and those on the wire, of which one read takes all.\<close>

definition inbox :: "(linked, 'm) pico_transport_scheme \<Rightarrow> protocol_frame list \<Rightarrow> bool" where
  "inbox s fs \<longleftrightarrow> pt_decoder s = incremental_decoder_init \<and> pt_read_size s = 256
     \<and> (\<exists>ms. list_all pico_message ms \<and> lk_wire (pt_stream s) = wire_stream ms \<and> length (wire_stream ms) \<le> 256
          \<and> fs = pt_pending s @ map frame_of ms)"

definition same_pico :: "(linked, 'm) pico_transport_scheme \<Rightarrow> (linked, 'm) pico_transport_scheme \<Rightarrow> bool" where
  "same_pico s u \<longleftrightarrow> lk_pico (pt_stream u) = lk_pico (pt_stream s) \<and> lk_sent (pt_stream u) = lk_sent (pt_stream s)
     \<and> pico_transport.more u = pico_transport.more s"

lemma same_pico_refl: "same_pico s s" by (simp add: same_pico_def)

lemma same_pico_trans: "same_pico s u \<Longrightarrow> same_pico u v \<Longrightarrow> same_pico s v" by (simp add: same_pico_def)

lemma init_feed:
  "list_all pico_message ms \<Longrightarrow> decoder_feed (wire_stream ms) incremental_decoder_init = (map frame_of ms, incremental_decoder_init)"
  using decode_wire_stream [of ms] by (simp add: decoder_feed_def incremental_decoder_init_def)

lemma round_linked:
  assumes "inbox s (f # fs)" "pt_pending s = []"
  shows "\<exists>u. receive_round (pico_io env) s = (Inr (Some f), u) \<and> inbox u fs \<and> same_pico s u"
proof -
  from assms obtain ms where ms: "list_all pico_message ms" "lk_wire (pt_stream s) = wire_stream ms" "length (wire_stream ms) \<le> 256"
    "f # fs = map frame_of ms" and s: "pt_decoder s = incremental_decoder_init" "pt_read_size s = 256"
    unfolding inbox_def by (metis append_Nil)
  define u where "u = s\<lparr>pt_stream := (pt_stream s)\<lparr>lk_wire := [], lk_got := lk_got (pt_stream s) @ wire_stream ms\<rparr>,
    pt_decoder := incremental_decoder_init, pt_pending := fs\<rparr>"
  have "wire_stream ms \<noteq> []" using ms(4) by (cases ms) (auto simp: wire_stream_def wire_frame_def Let_def)
  then have "receive_round (pico_io env) s = (Inr (Some f), u)"
    using assms(2) s ms init_feed [OF ms(1)]
    by (simp add: receive_round_def pico_io_def link_idle_def Let_def decoder_pop_errors_def u_def ms(4) [symmetric])
      (simp add: incremental_decoder_init_def)
  moreover have "inbox u fs" using s by (auto simp: inbox_def u_def intro: exI [of _ "[]"])
  ultimately show ?thesis by (intro exI [of _ u]) (simp add: same_pico_def u_def)
qed

lemma receive_linked:
  assumes "inbox s (f # fs)"
  shows "\<exists>u. receive_frame (pico_io env) timeout s = Some (Inr f, u) \<and> inbox u fs \<and> same_pico s u"
proof (cases "pt_pending s")
  case (Cons g gs)
  with assms show ?thesis
    by (intro exI [of _ "s\<lparr>pt_pending := gs\<rparr>"]) (auto simp: receive_frame_def returns_def inbox_def same_pico_def)
next
  case Nil
  from round_linked [OF assms Nil, of env] obtain u where "receive_round (pico_io env) s = (Inr (Some f), u)" "inbox u fs" "same_pico s u"
    by blast
  with Nil show ?thesis by (intro exI [of _ u]) (simp add: receive_frame_def receive_loop.simps returns_def)
qed

text \<open>
  A wait gets the first frame that is of the wanted type or an error, and leaves the others in order. \<open>is_float\<close>: a
  time that a float can be.
\<close>

definition is_float :: "rat \<Rightarrow> bool" where
  "is_float x \<longleftrightarrow> to_double x = x"

lemma preserve_linked: "inbox u fs \<Longrightarrow> inbox (preserve_frames gs u) (gs @ fs)"
  by (auto simp: inbox_def preserve_frames_def)

lemma same_preserve [simp]: "same_pico s (preserve_frames gs u) \<longleftrightarrow> same_pico s u"
  by (simp add: same_pico_def preserve_frames_def)

lemma await_skip_linked:
  assumes "0 < deadline" "is_float deadline" "inbox s (g # fs)" "skipped_ok ty [g]"
  shows "\<exists>u. await_loop (pico_io env) ty deadline deferred s = await_loop (pico_io env) ty deadline (deferred @ [g]) u
    \<and> inbox u fs \<and> same_pico s u"
proof -
  from receive_linked [OF assms(3), of env deadline] obtain u where
    u: "receive_frame (pico_io env) deadline s = Some (Inr g, u)" "inbox u fs" "same_pico s u" by blast
  have "await_round (pico_io env) deadline s = Some (Inr g, u)"
    using assms(1,2,4) u(1) by (simp add: await_round_def fsub_def is_float_def and_then_def lift_result_def skipped_ok_def)
  then have "await_loop (pico_io env) ty deadline deferred s = await_loop (pico_io env) ty deadline (deferred @ [g]) u"
    using assms(4) by (subst await_loop.simps) (simp add: skipped_ok_def)
  with u(2,3) show ?thesis by blast
qed

lemma await_loop_linked:
  assumes "0 < deadline" "is_float deadline"
  shows "inbox s (skipped @ f # fs) \<Longrightarrow> skipped_ok ty skipped \<Longrightarrow> zf_type f = ty \<or> require_not_error f \<noteq> Inr f \<Longrightarrow>
    \<exists>u. await_loop (pico_io env) ty deadline deferred s = Some (require_not_error f, u) \<and> inbox u (deferred @ skipped @ fs) \<and> same_pico s u"
proof (induction skipped arbitrary: s deferred)
  case Nil
  from receive_linked [of s f fs env deadline] Nil.prems(1) obtain u where
    u: "receive_frame (pico_io env) deadline s = Some (Inr f, u)" "inbox u fs" "same_pico s u" by auto
  have "await_round (pico_io env) deadline s = Some (require_not_error f, u)"
    using assms u(1) by (simp add: await_round_def fsub_def is_float_def and_then_def lift_result_def)
  then have "await_loop (pico_io env) ty deadline deferred s = Some (require_not_error f, preserve_frames deferred u)"
    using Nil.prems(3) by (subst await_loop.simps) (auto simp: raises_def returns_def dest: require_same split: sum.splits)
  with u preserve_linked show ?case by fastforce
next
  case (Cons g skipped)
  have g: "skipped_ok ty [g]" "skipped_ok ty skipped" using Cons.prems(2) by (simp_all add: skipped_ok_def)
  from await_skip_linked [OF assms _ g(1), of s "skipped @ f # fs" env deferred] Cons.prems(1) obtain u where
    u: "await_loop (pico_io env) ty deadline deferred s = await_loop (pico_io env) ty deadline (deferred @ [g]) u"
      "inbox u (skipped @ f # fs)" "same_pico s u" by auto
  from Cons.IH [OF u(2) g(2) Cons.prems(3), of "deferred @ [g]"] same_pico_trans [OF u(3)] u(1) show ?case by auto
qed

lemma await_linked:
  assumes "0 < timeout" "is_float timeout" "inbox s (skipped @ f # fs)" "skipped_ok ty skipped" "zf_type f = ty \<or> require_not_error f \<noteq> Inr f"
  shows "\<exists>u. await_frame (pico_io env) ty timeout s = Some (require_not_error f, u) \<and> inbox u (skipped @ fs) \<and> same_pico s u"
  using await_loop_linked [of timeout s skipped f fs ty env "[]"] assms
  by (simp add: await_frame_def fadd_def is_float_def)

text \<open>A command goes to the Pico at once, and its answers are the last frames to come.\<close>

definition frame_bytes :: "protocol_frame list \<Rightarrow> nat" where
  "frame_bytes fs = sum_list (map (\<lambda>f. 7 + length (zf_payload f)) fs)"

lemma frame_bytes_simps [simp]:
  "frame_bytes [] = 0" "frame_bytes (f # fs) = 7 + length (zf_payload f) + frame_bytes fs"
  "frame_bytes (fs @ gs) = frame_bytes fs + frame_bytes gs"
  by (simp_all add: frame_bytes_def)

lemma frame_bytes_stream: "length (wire_stream ms) = frame_bytes (map frame_of ms)"
  by (induction ms) (auto simp: frame_of_def)

lemma send_linked:
  assumes "inbox s fs" "zero_message m" "list_all pico_message new" "frame_bytes (fs @ map frame_of new) \<le> 256"
    "sp_zero (pico_answer env (mk_frame (fst m) (snd m)) (lk_pico (pt_stream s))) = sp_zero (lk_pico (pt_stream s)) @ new"
  shows "\<exists>u. send_encoded (pico_io env) (Inr (wire_frame (fst m) (snd m))) s = Some (Inr (), u) \<and> inbox u (fs @ map frame_of new)
    \<and> lk_pico (pt_stream u) = pico_answer env (mk_frame (fst m) (snd m)) (lk_pico (pt_stream s))
    \<and> pico_transport.more u = pico_transport.more s"
proof -
  have acc: "accepted_frames (snd (parse [] (wire_frame (fst m) (snd m)))) = [mk_frame (fst m) (snd m)]"
    using parse_zero_messages(2) [of "[m]"] assms(2) by (cases m) simp
  let ?u = "s\<lparr>pt_stream := snd (io_write (pico_io env) (wire_frame (fst m) (snd m)) (pt_stream s))\<rparr>"
  have u: "send_encoded (pico_io env) (Inr (wire_frame (fst m) (snd m))) s = Some (Inr (), ?u)"
    "lk_pico (pt_stream ?u) = pico_answer env (mk_frame (fst m) (snd m)) (lk_pico (pt_stream s))"
    "lk_wire (pt_stream ?u) = lk_wire (pt_stream s) @ wire_stream new"
    by (simp_all add: send_encoded_def and_then_def lift_result_def write_bytes_def pico_io_def Let_def returns_def pico_takes_def said_since_def acc assms(5))
  from assms(1) obtain ms where ms: "list_all pico_message ms" "lk_wire (pt_stream s) = wire_stream ms" "fs = pt_pending s @ map frame_of ms"
    by (auto simp: inbox_def)
  with assms(4) have "length (wire_stream (ms @ new)) \<le> 256" by (simp add: frame_bytes_stream)
  with u(3) assms(1,3) ms have "inbox ?u (fs @ map frame_of new)"
    unfolding inbox_def by (intro conjI exI [of _ "ms @ new"]) simp_all
  with u show ?thesis by (intro exI [of _ ?u]) simp
qed

section \<open>The Pico's answers\<close>

definition queued :: "int \<times> u8 list \<Rightarrow> u64 \<times> hid_report" where
  "queued e = (word_of_int (fst e), report_of_bytes (snd e))"

definition status_frame :: "spec \<Rightarrow> protocol_frame" where
  "status_frame p = frame_of (spec_buffer_status p)"

lemma status_frame_simps [simp]:
  "zf_type (status_frame p) = BUFFER_STATUS" "length (zf_payload (status_frame p)) = 5" "pico_message (spec_buffer_status p)"
  "require_not_error (status_frame p) = Inr (status_frame p)"
proof -
  show "zf_type (status_frame p) = BUFFER_STATUS" "length (zf_payload (status_frame p)) = 5" "pico_message (spec_buffer_status p)"
    by (simp_all add: status_frame_def spec_buffer_status_def frame_of_def Let_def constants_agree)
  then show "require_not_error (status_frame p) = Inr (status_frame p)" by (simp add: require_not_error_def zero_constants)
qed

lemma validate_status_frame:
  assumes "length (sp_queue p) \<le> 512" "sp_mode p \<in> VALID_MODES"
  shows "validate_buffer_status (status_frame p) = Inr (sp_mode p, int (length (sp_queue p)), 512 - int (length (sp_queue p)))"
proof -
  have "uint (of_nat n :: u16) = int n" if "n \<le> 512" for n
    using that by (simp add: unsigned_of_nat take_bit_nat_eq_self)
  from this [of "512 - length (sp_queue p)"] this [of "length (sp_queue p)"] assms(1)
  have "uint (spec_free p) = 512 - int (length (sp_queue p))" "uint (of_nat (length (sp_queue p)) :: u16) = int (length (sp_queue p))"
    by (simp_all only: spec_free_def of_nat_diff of_nat_numeral diff_le_self)
  then show ?thesis using assms
    by (simp add: validate_buffer_status_def status_frame_def spec_buffer_status_def frame_of_def Let_def constants_agree
        del: unpack_le_simps)
qed

lemma mk_frame_fields [simp]: "fr_type (mk_frame ty body) = ty" "fr_payload (mk_frame ty body) = body"
  by (simp_all add: mk_frame_def)

lemma queue_command: "ty \<in> {PICO_UART_QUEUE_CLEAR, PICO_UART_QUEUE_EVENT, PICO_UART_QUEUE_END} \<Longrightarrow>
    spec_command env (mk_frame ty body) p = spec_queue env (mk_frame ty body) p"
  by (auto simp: spec_command_def pico_constants)

lemma queue_allowed: "sp_mode p = MODE_ARMED \<or> sp_mode p = MODE_PLAYING \<Longrightarrow> pico_uart_queue_command_allowed PICO_UART_QUEUE_EVENT (sp_mode p)"
  by (auto simp: pico_uart_queue_command_allowed_def constants_agree pico_constants)

lemma ack_answer: "sp_room p = 2048 \<Longrightarrow> (spec_ack env p)\<lparr>sp_room := 2048\<rparr> = p\<lparr>sp_zero := sp_zero p @ [spec_buffer_status p]\<rparr>"
  by (simp add: spec_ack_def spec_fits_def spec_say_def spec_buffer_status_def Let_def)

lemma event_answer:
  assumes "zero_event_ok e" "sp_room p = 2048" "sp_mode p = MODE_ARMED \<or> sp_mode p = MODE_PLAYING" "length (sp_queue p) < 512"
  defines "p' \<equiv> p\<lparr>sp_queue := sp_queue p @ [queued e]\<rparr>"
  shows "pico_answer env (mk_frame (fst (event_message e)) (snd (event_message e))) p = p'\<lparr>sp_zero := sp_zero p @ [spec_buffer_status p']\<rparr>"
proof -
  have "spec_queue env (mk_frame PICO_UART_QUEUE_EVENT (snd (event_message e))) p = spec_ack env p'"
    using queue_allowed [OF assms(3)] assms(4)
    by (simp add: spec_queue_def event_message_payload [OF assms(1)] p'_def queued_def) (simp add: pico_constants)
  moreover have "fst (event_message e) = PICO_UART_QUEUE_EVENT" by (simp add: event_message_def constants_agree)
  ultimately show ?thesis
    using ack_answer [of p' env] assms(2) by (simp add: pico_answer_def queue_command p'_def)
qed

section \<open>A session on the link\<close>

text \<open>What waits leave alone, and a deadline that is not over.\<close>

definition plan :: "'z playback_session \<Rightarrow> (int \<times> u8 list) list \<times> nat \<times> rat \<times> int \<times> rat \<times> rat option \<times> bool" where
  "plan s = (pb_events s, pb_next_event s, pb_deadline s, pb_prebuffer_us s, pb_mode_timeout s, pb_playback_timeout s, pb_finished s)"

definition in_time :: "'z playback_session \<Rightarrow> bool" where
  "in_time s \<longleftrightarrow> 0 < pb_deadline s \<and> is_float (pb_deadline s)"

lemma more_plan:
  "pico_transport.more u = pico_transport.more s \<Longrightarrow> plan u = plan s \<and> pb_free_capacity u = pb_free_capacity s \<and> pb_underruns u = pb_underruns s"
  by (cases s; cases u) (simp add: plan_def)

lemma plan_in_time: "plan u = plan s \<Longrightarrow> in_time u \<longleftrightarrow> in_time s"
  by (simp add: plan_def in_time_def)

definition on_link :: "spec \<Rightarrow> protocol_frame list \<Rightarrow> linked playback_session \<Rightarrow> bool" where
  "on_link p fs s \<longleftrightarrow> lk_pico (pt_stream s) = p \<and> inbox s fs"

lemma remaining_linked: "in_time s \<Longrightarrow> session_remaining (pico_io env) None s = Some (Inr (pb_deadline s), s)"
  by (simp add: session_remaining_def in_time_def fsub_def is_float_def returns_def)

lemma session_await_linked:
  assumes "in_time s" "on_link p (skipped @ f # fs) s" "skipped_ok ty skipped" "zf_type f = ty \<or> require_not_error f \<noteq> Inr f"
  shows "\<exists>u. session_await (pico_io env) ty None s = Some (require_not_error f, u) \<and> on_link p (skipped @ fs) u
    \<and> pico_transport.more u = pico_transport.more s"
  using await_linked [of "pb_deadline s" s skipped f fs ty env] assms
  by (auto simp: session_await_def and_then_def remaining_linked in_time_def on_link_def same_pico_def)

lemma await_status_linked:
  assumes "in_time s" "on_link p (kept @ status_frame q # fs) s" "skipped_ok BUFFER_STATUS kept" "length (sp_queue q) \<le> 512"
    "sp_mode q = state" "state \<in> VALID_MODES"
  shows "\<exists>u. await_status (pico_io env) state s = Some (Inr (), u) \<and> on_link p (kept @ fs) u \<and> plan u = plan s
    \<and> pb_free_capacity u = 512 - int (length (sp_queue q)) \<and> pb_underruns u = pb_underruns s"
proof -
  from session_await_linked [OF assms(1-3), of env] obtain v where v: "session_await (pico_io env) BUFFER_STATUS None s = Some (Inr (status_frame q), v)"
    "on_link p (kept @ fs) v" "pico_transport.more v = pico_transport.more s" by auto
  let ?u = "v\<lparr>pb_queued_count := int (length (sp_queue q)), pb_free_capacity := 512 - int (length (sp_queue q))\<rparr>"
  have "await_status (pico_io env) state s = Some (Inr (), ?u)"
    using validate_status_frame [OF assms(4)] assms(5,6) v(1) by (simp add: await_status_def and_then_def lift_result_def returns_def)
  moreover have "on_link p (kept @ fs) ?u \<and> plan ?u = plan s \<and> pb_underruns ?u = pb_underruns s"
    using v(2) more_plan [OF v(3)] by (simp add: on_link_def inbox_def plan_def)
  ultimately show ?thesis by (intro exI [of _ ?u]) simp
qed

text \<open>A batch: the Pico queues its events and acknowledges each of them.\<close>

definition loaded :: "spec \<Rightarrow> (int \<times> u8 list) list \<Rightarrow> spec \<Rightarrow> bool" where
  "loaded p evs q \<longleftrightarrow> (\<exists>z. q = p\<lparr>sp_queue := sp_queue p @ map queued evs, sp_zero := z\<rparr>)"

lemma loaded_simps:
  "loaded p evs q \<Longrightarrow> sp_queue q = sp_queue p @ map queued evs \<and> sp_mode q = sp_mode p \<and> sp_room q = sp_room p \<and> sp_ended q = sp_ended p
    \<and> sp_pc q = sp_pc p \<and> sp_starved q = sp_starved p \<and> sp_release q = sp_release p"
  "loaded p [] p" "loaded p evs q \<Longrightarrow> loaded q evs' r \<Longrightarrow> loaded p (evs @ evs') r"
  by (auto simp: loaded_def) (metis spec.surjective spec.update_convs(6,10))

definition acks :: "u8 \<Rightarrow> nat \<Rightarrow> spec list \<Rightarrow> bool" where
  "acks state n ps \<longleftrightarrow> length ps = n \<and> (\<forall>p \<in> set ps. sp_mode p = state \<and> length (sp_queue p) \<le> 512)"

lemma send_batch_linked:
  assumes "list_all zero_event_ok evs" "on_link p fs s" "sp_room p = 2048" "sp_mode p = MODE_ARMED \<or> sp_mode p = MODE_PLAYING"
    "length (sp_queue p) + length evs \<le> 512" "frame_bytes fs + 12 * length evs \<le> 256"
  shows "\<exists>u q ps. send_batch (pico_io env) evs s = Some (Inr (), u) \<and> on_link q (fs @ map status_frame ps) u \<and> loaded p evs q
    \<and> acks (sp_mode p) (length evs) ps \<and> (evs \<noteq> [] \<longrightarrow> sp_queue (last ps) = sp_queue q) \<and> pico_transport.more u = pico_transport.more s"
  using assms
proof (induction evs arbitrary: s p fs)
  case Nil
  then show ?case using loaded_simps(2) by (force simp: returns_def acks_def)
next
  case (Cons e evs)
  define p1 where "p1 = p\<lparr>sp_queue := sp_queue p @ [queued e]\<rparr>"
  define p2 where "p2 = p1\<lparr>sp_zero := sp_zero p @ [spec_buffer_status p1]\<rparr>"
  have e: "zero_event_ok e" "list_all zero_event_ok evs" using Cons.prems(1) by simp_all
  have ans: "pico_answer env (mk_frame (fst (event_message e)) (snd (event_message e))) p = p2"
    using event_answer [OF e(1) Cons.prems(3,4), of env] Cons.prems(5) by (simp add: p1_def p2_def)
  have pico: "lk_pico (pt_stream s) = p" "inbox s fs" using Cons.prems(2) by (simp_all add: on_link_def)
  have st: "frame_of (spec_buffer_status p1) = status_frame p1" by (simp add: status_frame_def)
  have fb: "frame_bytes (fs @ map frame_of [spec_buffer_status p1]) \<le> 256" using Cons.prems(6) by (simp add: st)
  have ef: "event_frame e = wire_frame (fst (event_message e)) (snd (event_message e))" by (simp add: event_frame_def event_message_def)
  from send_linked [OF pico(2) zero_message_event [OF e(1)], of "[spec_buffer_status p1]" env, OF _ fb] obtain v where
    v: "send_encoded (pico_io env) (Inr (event_frame e)) s = Some (Inr (), v)" "on_link p2 (fs @ [status_frame p1]) v"
      "pico_transport.more v = pico_transport.more s"
    unfolding ef by (auto simp: pico(1) ans p2_def st on_link_def)
  have enc: "encode_queue_event (fst e) (snd e) = Inr (event_frame e)"
    using e(1) zero_types
    by (auto simp: encode_queue_event_def event_frame_def encode_frame_wire zero_event_ok_def MAX_U64_def push_bit_eq_mult)
  from Cons.IH [OF e(2) v(2)] Cons.prems(3-6) obtain u q ps where u: "send_batch (pico_io env) evs v = Some (Inr (), u)"
    "on_link q ((fs @ [status_frame p1]) @ map status_frame ps) u" "loaded p2 evs q" "acks (sp_mode p2) (length evs) ps"
    "evs \<noteq> [] \<longrightarrow> sp_queue (last ps) = sp_queue q" "pico_transport.more u = pico_transport.more v"
    by (auto simp: p2_def p1_def)
  have "loaded p [e] p2" by (auto simp: loaded_def p2_def p1_def)
  from loaded_simps(3) [OF this u(3)] have l: "loaded p (e # evs) q" by simp
  have "acks (sp_mode p) (length (e # evs)) (p1 # ps)" using u(4) Cons.prems(5) by (auto simp: acks_def p1_def p2_def)
  moreover have "sp_queue (last (p1 # ps)) = sp_queue q"
    using u(3-5) loaded_simps(1) [OF u(3)] by (cases evs) (auto simp: acks_def p1_def p2_def)
  moreover have "send_batch (pico_io env) (e # evs) s = Some (Inr (), u)"
    using v(1) u(1) by (simp add: send_queue_event_def enc and_then_def)
  ultimately show ?case using u(2,6) v(3) l by (intro exI [of _ u] exI [of _ q] exI [of _ "p1 # ps"]) simp
qed

lemma await_acks_linked:
  "in_time s \<Longrightarrow> on_link p (kept @ map status_frame ps) s \<Longrightarrow> skipped_ok BUFFER_STATUS kept \<Longrightarrow> acks state n ps \<Longrightarrow>
    state \<in> VALID_MODES \<Longrightarrow> \<exists>u. await_acks (pico_io env) state n s = Some (Inr (), u) \<and> on_link p kept u \<and> plan u = plan s
      \<and> pb_underruns u = pb_underruns s
      \<and> pb_free_capacity u = (if ps = [] then pb_free_capacity s else 512 - int (length (sp_queue (last ps))))"
proof (induction n arbitrary: s ps)
  case 0
  then show ?case by (simp add: acks_def returns_def)
next
  case (Suc n)
  from Suc.prems(4) obtain q qs where ps: "ps = q # qs" "acks state n qs" "length (sp_queue q) \<le> 512" "sp_mode q = state"
    by (cases ps) (auto simp: acks_def)
  from await_status_linked [OF Suc.prems(1) _ Suc.prems(3) ps(3,4) Suc.prems(5), of p "map status_frame qs" env] Suc.prems(2) ps(1)
  obtain v where v: "await_status (pico_io env) state s = Some (Inr (), v)" "on_link p (kept @ map status_frame qs) v" "plan v = plan s"
    "pb_free_capacity v = 512 - int (length (sp_queue q))" "pb_underruns v = pb_underruns s" by auto
  from Suc.IH [OF _ v(2) Suc.prems(3) ps(2) Suc.prems(5)] plan_in_time [OF v(3)] Suc.prems(1) obtain u where
    u: "await_acks (pico_io env) state n v = Some (Inr (), u)" "on_link p kept u" "plan u = plan v" "pb_underruns u = pb_underruns v"
    "pb_free_capacity u = (if qs = [] then pb_free_capacity v else 512 - int (length (sp_queue (last qs))))" by blast
  with v ps(1) show ?case by (auto simp: and_then_def)
qed

text \<open>A session on the link whose known free capacity is the right one, with \<open>kept\<close> among the pending frames.\<close>

definition feeding :: "u8 \<Rightarrow> protocol_frame list \<Rightarrow> spec \<Rightarrow> linked playback_session \<Rightarrow> bool" where
  "feeding state kept p s \<longleftrightarrow> on_link p kept s \<and> in_time s \<and> skipped_ok BUFFER_STATUS kept \<and> frame_bytes kept \<le> 200
     \<and> sp_mode p = state \<and> (state = MODE_ARMED \<or> state = MODE_PLAYING) \<and> sp_room p = 2048 \<and> length (sp_queue p) \<le> 512
     \<and> list_all zero_event_ok (pb_events s)"

definition fed_plan :: "nat \<Rightarrow> 'z playback_session \<Rightarrow> 'z playback_session \<Rightarrow> bool" where
  "fed_plan n s u \<longleftrightarrow> pb_next_event u = pb_next_event s + n \<and> plan (u\<lparr>pb_next_event := pb_next_event s\<rparr>) = plan s
     \<and> pb_underruns u = pb_underruns s"

lemma fed_plan_simps:
  "fed_plan n s u \<Longrightarrow> pb_next_event u = pb_next_event s + n \<and> pb_events u = pb_events s \<and> in_time u = in_time s
    \<and> pb_prebuffer_us u = pb_prebuffer_us s \<and> pb_underruns u = pb_underruns s"
  "fed_plan n s u \<Longrightarrow> fed_plan m u v \<Longrightarrow> fed_plan (n + m) s v" "fed_plan 0 s s"
  by (auto simp: fed_plan_def plan_def in_time_def)

lemma mode_valid: "MODE_ARMED \<in> VALID_MODES" "MODE_PLAYING \<in> VALID_MODES" "MODE_ERROR \<in> VALID_MODES" "MODE_PASS \<in> VALID_MODES"
  by (simp_all add: VALID_MODES_def)

lemma send_round_linked:
  assumes "feeding state kept p s" "take_credit (pico_io env) state s0 = Some (Inr (), s)" "length (sp_queue p) + batch_count stop s \<le> 512"
    "0 < batch_count stop s" "stop \<le> length (pb_events s)"
  defines "n \<equiv> batch_count stop s"
  shows "\<exists>u q. send_round (pico_io env) stop state s0 = Some (Inr (), u) \<and> feeding state kept q u
    \<and> loaded p (take n (drop (pb_next_event s) (pb_events s))) q \<and> fed_plan n s u \<and> pb_free_capacity u = 512 - int (length (sp_queue q))"
proof -
  let ?evs = "take n (drop (pb_next_event s) (pb_events s))"
  have n: "n \<le> 4" "n \<le> stop - pb_next_event s" by (simp_all add: n_def batch_count_def PIPELINE_WINDOW_def)
  have len: "length ?evs = n" "0 < n" using n(2) assms(4,5) by (simp_all add: n_def [symmetric])
  have p: "on_link p kept s" "in_time s" "skipped_ok BUFFER_STATUS kept" "frame_bytes kept \<le> 200" "sp_mode p = state"
    "state = MODE_ARMED \<or> state = MODE_PLAYING" "sp_room p = 2048" "list_all zero_event_ok (pb_events s)"
    using assms(1) by (simp_all add: feeding_def)
  have "list_all zero_event_ok ?evs" using p(8) by (auto simp: list_all_iff dest: in_set_takeD in_set_dropD)
  from send_batch_linked [OF this p(1,7), of env] p(4-6) len(1) n(1) assms(3) obtain v q ps where
    v: "send_batch (pico_io env) ?evs s = Some (Inr (), v)" "on_link q (kept @ map status_frame ps) v" "loaded p ?evs q"
      "acks state n ps" "?evs \<noteq> [] \<longrightarrow> sp_queue (last ps) = sp_queue q" "pico_transport.more v = pico_transport.more s"
    by (auto simp: n_def)
  note same = more_plan [OF v(6)]
  from await_acks_linked [OF _ v(2) p(3) v(4)] plan_in_time same p(2,6) mode_valid obtain w where
    w: "await_acks (pico_io env) state n v = Some (Inr (), w)" "on_link q kept w" "plan w = plan v" "pb_underruns w = pb_underruns v"
      "pb_free_capacity w = (if ps = [] then pb_free_capacity v else 512 - int (length (sp_queue (last ps))))" by blast
  have ne: "ps \<noteq> []" "?evs \<noteq> []" using v(4) len by (auto simp: acks_def)
  let ?u = "w\<lparr>pb_next_event := pb_next_event w + n, pb_reported_next_event := pb_next_event w + n\<rparr>"
  have "send_round (pico_io env) stop state s0 = Some (Inr (), ?u)"
    using v(1) w(1) assms(2) by (simp add: send_round_def and_then_def Let_def returns_def n_def [symmetric])
  moreover have "fed_plan n s ?u" using w(3,4) same by (simp add: fed_plan_def plan_def)
  moreover have "pb_free_capacity ?u = 512 - int (length (sp_queue q))" using w(5) v(5) ne by simp
  moreover have "in_time ?u" "pb_events ?u = pb_events s" using p(2) w(3) same by (simp_all add: plan_def in_time_def)
  moreover from this have "feeding state kept q ?u"
    using p w(2) loaded_simps(1) [OF v(3)] assms(3) len(1)
    by (simp add: feeding_def on_link_def inbox_def n_def [symmetric])
  ultimately show ?thesis using v(3) by (intro exI [of _ ?u] exI [of _ q]) simp
qed

text \<open>While the credit is right the feeder loads what it should, and the Pico queues it.\<close>

lemma send_through_stop: "stop \<le> pb_next_event s \<Longrightarrow> send_through io stop state s = Some (Inr (), s)"
  by (subst send_through.simps) (simp add: returns_def)

lemma send_through_next: "pb_next_event s < stop \<Longrightarrow> send_round io stop state s = Some (Inr (), u) \<Longrightarrow>
    send_through io stop state s = send_through io stop state u"
  by (subst send_through.simps) simp

lemma batch_fits:
  assumes "pb_free_capacity s = 512 - int (length (sp_queue p))" "length (sp_queue p) < 512" "pb_next_event s < stop"
  shows "take_credit io state s = Some (Inr (), s)" "length (sp_queue p) + batch_count stop s \<le> 512" "0 < batch_count stop s"
    "batch_count stop s \<le> stop - pb_next_event s"
  using assms by (auto simp: batch_count_def PIPELINE_WINDOW_def take_credit_def returns_def)

lemma feed_linked:
  assumes "feeding state kept p s" "pb_free_capacity s = 512 - int (length (sp_queue p))" "stop \<le> length (pb_events s)"
  defines "m \<equiv> min (512 - length (sp_queue p)) (stop - pb_next_event s)"
  shows "\<exists>u q. send_through (pico_io env) stop state s = send_through (pico_io env) stop state u \<and> feeding state kept q u
    \<and> loaded p (take m (drop (pb_next_event s) (pb_events s))) q \<and> fed_plan m s u \<and> pb_free_capacity u = 512 - int (length (sp_queue q))"
  using assms(1-3) unfolding m_def
proof (induction "stop - pb_next_event s" arbitrary: s p rule: less_induct)
  case less
  let ?m = "min (512 - length (sp_queue p)) (stop - pb_next_event s)"
  show ?case
  proof (cases "?m = 0")
    case True
    with less.prems loaded_simps(2) fed_plan_simps(3) show ?thesis by (intro exI [of _ s] exI [of _ p]) simp
  next
    case False
    then have next_: "pb_next_event s < stop" "length (sp_queue p) < 512" by simp_all
    note fits = batch_fits [OF less.prems(2) next_(2,1)]
    define n where "n = batch_count stop s"
    from send_round_linked [OF less.prems(1) fits(1) [of "pico_io env" state] fits(2,3) less.prems(3)] obtain v r where
      v: "send_round (pico_io env) stop state s = Some (Inr (), v)" "feeding state kept r v"
        "loaded p (take n (drop (pb_next_event s) (pb_events s))) r" "fed_plan n s v" "pb_free_capacity v = 512 - int (length (sp_queue r))"
      by (auto simp: n_def)
    note at = fed_plan_simps(1) [OF v(4)] and nn = fits(2-4) [folded n_def]
    have len: "length (sp_queue r) = length (sp_queue p) + n" using loaded_simps(1) [OF v(3)] nn less.prems(3) by simp
    let ?k = "min (512 - length (sp_queue r)) (stop - pb_next_event v)"
    from less.hyps [of v r] v(2,5) at nn next_ less.prems(3) obtain u q where
      u: "send_through (pico_io env) stop state v = send_through (pico_io env) stop state u" "feeding state kept q u"
        "loaded r (take ?k (drop (pb_next_event v) (pb_events v))) q" "fed_plan ?k v u"
        "pb_free_capacity u = 512 - int (length (sp_queue q))" by fastforce
    have m: "?m = n + ?k" using at nn next_ len by simp
    then have "take ?m (drop (pb_next_event s) (pb_events s))
        = take n (drop (pb_next_event s) (pb_events s)) @ take ?k (drop (pb_next_event v) (pb_events v))"
      using take_add [of n ?k "drop (pb_next_event s) (pb_events s)"] at by (simp add: add.commute [of _ n])
    with m have "loaded p (take ?m (drop (pb_next_event s) (pb_events s))) q" "fed_plan ?m s u"
      using loaded_simps(3) [OF v(3) u(3)] fed_plan_simps(2) [OF v(4) u(4)] by simp_all
    with u send_through_next [OF next_(1) v(1)] show ?thesis by (intro exI [of _ u] exI [of _ q]) simp
  qed
qed

lemma send_through_linked:
  assumes "feeding state kept p s" "pb_free_capacity s = 512 - int (length (sp_queue p))"
    "length (sp_queue p) + (stop - pb_next_event s) \<le> 512" "pb_next_event s \<le> stop" "stop \<le> length (pb_events s)"
  shows "\<exists>u q. send_through (pico_io env) stop state s = Some (Inr (), u) \<and> feeding state kept q u
    \<and> loaded p (take (stop - pb_next_event s) (drop (pb_next_event s) (pb_events s))) q \<and> fed_plan (stop - pb_next_event s) s u
    \<and> pb_free_capacity u = 512 - int (length (sp_queue q))"
proof -
  have m: "min (512 - length (sp_queue p)) (stop - pb_next_event s) = stop - pb_next_event s" using assms(3) by simp
  from feed_linked [OF assms(1,2,5), of env] obtain u q where u: "send_through (pico_io env) stop state s = send_through (pico_io env) stop state u"
    "feeding state kept q u" "loaded p (take (stop - pb_next_event s) (drop (pb_next_event s) (pb_events s))) q"
    "fed_plan (stop - pb_next_event s) s u" "pb_free_capacity u = 512 - int (length (sp_queue q))" unfolding m by blast
  then have "send_through (pico_io env) stop state u = Some (Inr (), u)"
    using fed_plan_simps(1) [OF u(4)] assms(4) by (intro send_through_stop) simp
  with u show ?thesis by auto
qed

section \<open>An old notice of an underrun\<close>

text \<open>
  A PLAY_UNDERRUN that came while the feeder waited for acknowledgements stays pending. When the queue is full
  later, \<open>_await_credit\<close> takes it for credit.
\<close>

definition underrun_frame :: "u64 \<Rightarrow> protocol_frame" where
  "underrun_frame elapsed = frame_of (PICO_UART_PLAY_UNDERRUN, write_u64_le elapsed @ [lo8 512, hi8 512])"

lemma underrun_frame_simps:
  "zf_type (underrun_frame elapsed) = PLAY_UNDERRUN" "require_not_error (underrun_frame elapsed) = Inr (underrun_frame elapsed)"
  "validate_play_underrun (underrun_frame elapsed) = Inr (uint elapsed, 512)" "skipped_ok BUFFER_STATUS [underrun_frame elapsed]"
  "frame_bytes [underrun_frame elapsed] = 17"
proof -
  show "zf_type (underrun_frame elapsed) = PLAY_UNDERRUN" by (simp add: underrun_frame_def frame_of_def constants_agree)
  then show "require_not_error (underrun_frame elapsed) = Inr (underrun_frame elapsed)" "skipped_ok BUFFER_STATUS [underrun_frame elapsed]"
    by (simp_all add: require_not_error_def skipped_ok_def) (simp_all add: zero_constants)
  show "frame_bytes [underrun_frame elapsed] = 17" by (simp add: underrun_frame_def frame_of_def)
  show "validate_play_underrun (underrun_frame elapsed) = Inr (uint elapsed, 512)"
    using unpack_u16 [of 512] by (simp add: validate_play_underrun_def underrun_frame_def frame_of_def constants_agree del: unpack_le_simps)
qed

lemma stale_credit:
  assumes "feeding state [underrun_frame elapsed] p s" "pb_free_capacity s = 0"
  shows "\<exists>u. take_credit (pico_io env) state s = Some (Inr (), u) \<and> on_link p [] u \<and> plan u = plan s \<and> pb_free_capacity u = 512"
proof -
  note f = underrun_frame_simps [of elapsed]
  have s: "in_time s" "lk_pico (pt_stream s) = p" "inbox s [underrun_frame elapsed]" using assms(1) by (simp_all add: feeding_def on_link_def)
  from receive_linked [OF s(3), of env "pb_deadline s"] obtain v where
    v: "receive_frame (pico_io env) (pb_deadline s) s = Some (Inr (underrun_frame elapsed), v)" "inbox v []" "same_pico s v" by blast
  let ?w = "v\<lparr>pb_underruns := pb_underruns v @ [(uint elapsed, 512)], pb_underrun_count := Suc (length (pb_underruns v))\<rparr>"
  have "credit_round (pico_io env) state s = Some (Inr (Credit 512, underrun_frame elapsed), ?w)"
    using v(1) f by (simp add: credit_round_def remaining_linked [OF s(1)] and_then_def lift_result_def credit_frame_def returns_def)
      (simp add: zero_constants)
  then have "await_credit (pico_io env) state s = Some (Inr 512, preserve_frames [] ?w)"
    by (simp add: await_credit_def credit_loop.simps returns_def)
  with assms(2) have "take_credit (pico_io env) state s = Some (Inr (), (preserve_frames [] ?w)\<lparr>pb_free_capacity := 512\<rparr>)"
    by (simp add: take_credit_def and_then_def returns_def)
  moreover have "inbox ((preserve_frames [] ?w)\<lparr>pb_free_capacity := 512\<rparr>) []" using v(2) by (simp add: inbox_def preserve_frames_def)
  ultimately show ?thesis
    using v(3) s(2) more_plan [of v s] by (simp add: on_link_def same_pico_def preserve_frames_def plan_def)
qed

end
