(* ===== verification/Zero_Overrun.thy ===== *)
theory Zero_Overrun
  imports Zero_Linked
begin

text \<open>
  What the credit of an old notice of an underrun leads to: the feeder writes events to a full queue, and the Pico
  enters ERROR.
\<close>

section \<open>Events that the Pico rejects\<close>

definition error_frame :: protocol_frame where
  "error_frame = frame_of (PICO_UART_MODE_CHANGED, [PICO_UART_MODE_ERROR, PICO_UART_REASON_PROTOCOL_ERROR])"

lemma error_frame_simps: "zf_type error_frame = MODE_CHANGED" "require_not_error error_frame = Inl PicoError" "frame_bytes [error_frame] = 9"
  by (simp_all add: error_frame_def frame_of_def require_not_error_def validate_mode_changed_def Let_def frame_bytes_def)
    (simp_all add: zero_constants pico_constants)

lemma event_type: "zero_event_ok e \<Longrightarrow> fst (event_message e) = PICO_UART_QUEUE_EVENT"
  by (simp add: event_message_def constants_agree)

text \<open>An event for a full queue ends the run with its outcome and enters ERROR; in ERROR each event is a complaint.\<close>

lemma full_answer:
  assumes "env_ok env" "zero_event_ok e" "sp_room p = 2048" "sp_mode p = MODE_PLAYING" "length (sp_queue p) = 512"
  defines "q \<equiv> pico_answer env (mk_frame (fst (event_message e)) (snd (event_message e))) p"
  shows "sp_zero q = sp_zero p @ [(PICO_UART_PLAY_ABORTED, []), (PICO_UART_PLAY_METRICS, en_metrics env),
      (PICO_UART_MODE_CHANGED, [PICO_UART_MODE_ERROR, PICO_UART_REASON_PROTOCOL_ERROR])]"
    "sp_mode q = MODE_ERROR" "sp_room q = 2048"
proof -
  have "spec_queue env (mk_frame PICO_UART_QUEUE_EVENT (snd (event_message e))) p = spec_op env Protocol_Error p"
    using queue_allowed [of p] assms(4,5) by (simp add: spec_queue_def) (simp add: pico_constants)
  then have q: "q = (spec_turn True env Protocol_Error p)\<lparr>sp_room := 2048\<rparr>"
    using assms(4) by (simp add: q_def pico_answer_def event_type [OF assms(2)] queue_command spec_op_def constants_agree)
  have mode: "sp_mode p = 3" using assms(4) by (simp add: MODE_PLAYING_def)
  show "sp_zero q = sp_zero p @ [(PICO_UART_PLAY_ABORTED, []), (PICO_UART_PLAY_METRICS, en_metrics env),
      (PICO_UART_MODE_CHANGED, [PICO_UART_MODE_ERROR, PICO_UART_REASON_PROTOCOL_ERROR])]"
    "sp_mode q = MODE_ERROR" "sp_room q = 2048"
    using assms(1,3) mode
    by (simp_all add: q spec_turn_def spec_say_def spec_fits_def env_ok_def Let_def MODE_ERROR_def)
      (simp_all add: PICO_UART_MODE_ERROR_def)
qed

lemma error_answer:
  fixes env :: environment
  assumes "zero_event_ok e" "sp_room p = 2048" "sp_mode p = MODE_ERROR"
  defines "q \<equiv> pico_answer env (mk_frame (fst (event_message e)) (snd (event_message e))) p"
  shows "sp_zero q = sp_zero p @ [(PICO_UART_MODE_CHANGED, [PICO_UART_MODE_ERROR, PICO_UART_REASON_PROTOCOL_ERROR])]"
    "sp_mode q = MODE_ERROR" "sp_room q = 2048"
proof -
  have mode: "sp_mode p = 4" using assms(3) by (simp add: MODE_ERROR_def)
  then have "\<not> pico_uart_queue_command_allowed PICO_UART_QUEUE_EVENT (sp_mode p)"
    by (simp add: pico_uart_queue_command_allowed_def pico_constants)
  then have "spec_queue env (mk_frame PICO_UART_QUEUE_EVENT (snd (event_message e))) p = spec_op env Protocol_Error p"
    by (simp add: spec_queue_def)
  then have q: "q = (spec_op env Protocol_Error p)\<lparr>sp_room := 2048\<rparr>"
    by (simp add: q_def pico_answer_def event_type [OF assms(1)] queue_command)
  show "sp_zero q = sp_zero p @ [(PICO_UART_MODE_CHANGED, [PICO_UART_MODE_ERROR, PICO_UART_REASON_PROTOCOL_ERROR])]"
    "sp_mode q = MODE_ERROR" "sp_room q = 2048"
    using assms(2) mode
    by (simp_all add: q spec_op_def spec_turn_def spec_say_def spec_fits_def Let_def MODE_ERROR_def)
      (simp_all add: PICO_UART_MODE_ERROR_def)
qed

lemma send_event_linked:
  assumes "on_link p fs s" "zero_event_ok e" "list_all pico_message new" "frame_bytes (fs @ map frame_of new) \<le> 256"
    "sp_zero (pico_answer env (mk_frame (fst (event_message e)) (snd (event_message e))) p) = sp_zero p @ new"
  shows "\<exists>u. send_queue_event (pico_io env) (fst e) (snd e) s = Some (Inr (), u) \<and> pico_transport.more u = pico_transport.more s
    \<and> on_link (pico_answer env (mk_frame (fst (event_message e)) (snd (event_message e))) p) (fs @ map frame_of new) u"
proof -
  have "encode_queue_event (fst e) (snd e) = Inr (wire_frame (fst (event_message e)) (snd (event_message e)))"
    using assms(2) zero_types
    by (auto simp: encode_queue_event_def event_message_def encode_frame_wire zero_event_ok_def MAX_U64_def push_bit_eq_mult)
  moreover have "lk_pico (pt_stream s) = p" "inbox s fs" using assms(1) by (simp_all add: on_link_def)
  ultimately show ?thesis
    using send_linked [OF _ zero_message_event [OF assms(2)] assms(3,4), of s env] assms(5)
    by (auto simp: send_queue_event_def on_link_def)
qed

lemma send_batch_in_error:
  assumes "list_all zero_event_ok evs" "on_link p fs s" "sp_room p = 2048" "sp_mode p = MODE_ERROR" "frame_bytes fs + 9 * length evs \<le> 256"
  shows "\<exists>u q. send_batch (pico_io env) evs s = Some (Inr (), u) \<and> pico_transport.more u = pico_transport.more s
    \<and> on_link q (fs @ replicate (length evs) error_frame) u \<and> sp_mode q = MODE_ERROR"
  using assms
proof (induction evs arbitrary: s p fs)
  case (Cons e evs)
  have e: "zero_event_ok e" "list_all zero_event_ok evs" using Cons.prems(1) by simp_all
  note ans = error_answer [OF e(1) Cons.prems(3,4), of env]
  have "frame_bytes (fs @ [error_frame]) \<le> 256" using Cons.prems(5) error_frame_simps(3) by simp
  with send_event_linked [OF Cons.prems(2) e(1) _ _ ans(1)] obtain v where v: "send_queue_event (pico_io env) (fst e) (snd e) s = Some (Inr (), v)"
    "pico_transport.more v = pico_transport.more s"
    "on_link (pico_answer env (mk_frame (fst (event_message e)) (snd (event_message e))) p) (fs @ [error_frame]) v"
    by (auto simp: error_frame_def)
  from Cons.IH [OF e(2) v(3) ans(3,2)] Cons.prems(5) error_frame_simps(3) v(1,2) show ?case
    by (auto simp: and_then_def)
qed (auto simp: returns_def)

lemma full_batch:
  assumes "env_ok env" "list_all zero_event_ok evs" "evs \<noteq> []" "length evs \<le> 4" "on_link p [] s" "sp_room p = 2048" "sp_mode p = MODE_PLAYING"
    "length (sp_queue p) = 512"
  shows "\<exists>u q fs. send_batch (pico_io env) evs s = Some (Inr (), u) \<and> pico_transport.more u = pico_transport.more s
    \<and> on_link q (map frame_of [(PICO_UART_PLAY_ABORTED, []), (PICO_UART_PLAY_METRICS, en_metrics env)] @ error_frame # fs) u
    \<and> sp_mode q = MODE_ERROR"
proof -
  obtain e es where evs: "evs = e # es" using assms(3) by (cases evs) auto
  have e: "zero_event_ok e" "list_all zero_event_ok es" using assms(2) by (simp_all add: evs)
  note ans = full_answer [OF assms(1) e(1) assms(6,7,8)]
  have len: "length (en_metrics env) = 33" using assms(1) by (simp add: env_ok_def)
  let ?new = "[(PICO_UART_PLAY_ABORTED, []), (PICO_UART_PLAY_METRICS, en_metrics env),
      (PICO_UART_MODE_CHANGED, [PICO_UART_MODE_ERROR, PICO_UART_REASON_PROTOCOL_ERROR])]"
  have new: "list_all pico_message ?new" "frame_bytes ([] @ map frame_of ?new) \<le> 256" using len by (simp_all add: frame_of_def)
  from send_event_linked [OF assms(5) e(1) new ans(1)] obtain v where v: "send_queue_event (pico_io env) (fst e) (snd e) s = Some (Inr (), v)"
    "pico_transport.more v = pico_transport.more s"
    "on_link (pico_answer env (mk_frame (fst (event_message e)) (snd (event_message e))) p) (map frame_of ?new) v" by auto
  have "frame_bytes (map frame_of ?new) + 9 * length es \<le> 256" using len assms(4) by (simp add: frame_of_def evs)
  from send_batch_in_error [OF e(2) v(3) ans(3,2) this] obtain u q where u: "send_batch (pico_io env) es v = Some (Inr (), u)"
    "pico_transport.more u = pico_transport.more v" "on_link q (map frame_of ?new @ replicate (length es) error_frame) u" "sp_mode q = MODE_ERROR"
    by blast
  have "map frame_of ?new = map frame_of [(PICO_UART_PLAY_ABORTED, []), (PICO_UART_PLAY_METRICS, en_metrics env)] @ [error_frame]"
    by (simp add: error_frame_def)
  with u(3) have "on_link q (map frame_of [(PICO_UART_PLAY_ABORTED, []), (PICO_UART_PLAY_METRICS, en_metrics env)]
      @ error_frame # replicate (length es) error_frame) u" by simp
  with v(1,2) u(1,2,4) show ?thesis by (intro exI [of _ u] exI [of _ q]) (auto simp: evs and_then_def)
qed

section \<open>The overrun\<close>

lemma ended_run_skipped:
  "skipped_ok BUFFER_STATUS (map frame_of [(PICO_UART_PLAY_ABORTED, []), (PICO_UART_PLAY_METRICS, metrics)])"
  by (simp add: skipped_ok_def frame_of_def require_not_error_def) (simp add: zero_constants pico_constants)

lemma stale_round:
  assumes "env_ok env" "feeding MODE_PLAYING [underrun_frame elapsed] p s" "length (sp_queue p) = 512" "pb_free_capacity s = 0"
    "pb_next_event s < stop" "stop \<le> length (pb_events s)"
  shows "\<exists>u. send_round (pico_io env) stop MODE_PLAYING s = Some (Inl PicoError, u) \<and> sp_mode (lk_pico (pt_stream u)) = MODE_ERROR"
proof -
  from stale_credit [OF assms(2,4)] obtain v where v: "take_credit (pico_io env) MODE_PLAYING s = Some (Inr (), v)" "on_link p [] v"
    "plan v = plan s" "pb_free_capacity v = 512" by blast
  let ?n = "batch_count stop v" and ?evs = "take (batch_count stop v) (drop (pb_next_event v) (pb_events v))"
  have same: "pb_next_event v = pb_next_event s" "pb_events v = pb_events s" "in_time v"
    using v(3) assms(2) plan_in_time [OF v(3)] by (simp_all add: plan_def feeding_def)
  then have n: "0 < ?n" "?n \<le> 4" "length ?evs = ?n"
    using v(4) assms(5,6) by (auto simp: batch_count_def PIPELINE_WINDOW_def)
  have p: "sp_room p = 2048" "sp_mode p = MODE_PLAYING" "list_all zero_event_ok (pb_events s)" using assms(2) by (simp_all add: feeding_def)
  then have "list_all zero_event_ok ?evs" using same by (auto simp: list_all_iff dest: in_set_takeD in_set_dropD)
  from full_batch [OF assms(1) this _ _ v(2) p(1,2) assms(3)] n obtain w q fs where
    w: "send_batch (pico_io env) ?evs v = Some (Inr (), w)" "pico_transport.more w = pico_transport.more v"
      "on_link q (map frame_of [(PICO_UART_PLAY_ABORTED, []), (PICO_UART_PLAY_METRICS, en_metrics env)] @ error_frame # fs) w"
      "sp_mode q = MODE_ERROR" by (metis length_greater_0_conv)
  have "in_time w" using more_plan [OF w(2)] plan_in_time same(3) by blast
  from session_await_linked [OF this w(3) ended_run_skipped, of env] error_frame_simps obtain u where
    u: "session_await (pico_io env) BUFFER_STATUS None w = Some (Inl PicoError, u)" "lk_pico (pt_stream u) = q"
    by (auto simp: on_link_def)
  obtain k where k: "?n = Suc k" using n(1) by (cases ?n) auto
  have "await_acks (pico_io env) MODE_PLAYING ?n w = Some (Inl PicoError, u)"
    unfolding k using u(1) by (simp add: await_status_def and_then_def)
  with v(1) w(1) u(2) w(4) show ?thesis by (intro exI [of _ u]) (simp add: send_round_def and_then_def Let_def)
qed

lemma stale_underrun_overruns:
  assumes "env_ok env" "feeding MODE_PLAYING [underrun_frame elapsed] p s" "pb_free_capacity s = 512 - int (length (sp_queue p))"
    "pb_next_event s + (512 - length (sp_queue p)) < stop" "stop \<le> length (pb_events s)"
  shows "\<exists>u. send_through (pico_io env) stop MODE_PLAYING s = Some (Inl PicoError, u) \<and> sp_mode (lk_pico (pt_stream u)) = MODE_ERROR"
proof -
  have m: "min (512 - length (sp_queue p)) (stop - pb_next_event s) = 512 - length (sp_queue p)" using assms(4) by simp
  from feed_linked [OF assms(2,3,5), of env] obtain v q where v:
    "send_through (pico_io env) stop MODE_PLAYING s = send_through (pico_io env) stop MODE_PLAYING v" "feeding MODE_PLAYING [underrun_frame elapsed] q v"
    "loaded p (take (512 - length (sp_queue p)) (drop (pb_next_event s) (pb_events s))) q" "fed_plan (512 - length (sp_queue p)) s v"
    "pb_free_capacity v = 512 - int (length (sp_queue q))" unfolding m by blast
  have "length (sp_queue p) \<le> 512" using assms(2) by (simp add: feeding_def)
  then have full: "length (sp_queue q) = 512" using loaded_simps(1) [OF v(3)] assms(4,5) by simp
  with v(5) have "pb_free_capacity v = 0" by simp
  moreover have "pb_next_event v < stop" "stop \<le> length (pb_events v)" using fed_plan_simps(1) [OF v(4)] assms(4,5) by simp_all
  ultimately obtain u where u: "send_round (pico_io env) stop MODE_PLAYING v = Some (Inl PicoError, u)" "sp_mode (lk_pico (pt_stream u)) = MODE_ERROR"
    using stale_round [OF assms(1) v(2) full] by blast
  with \<open>pb_next_event v < stop\<close> have "send_through (pico_io env) stop MODE_PLAYING v = Some (Inl PicoError, u)"
    by (subst send_through.simps) (simp add: raises_def)
  with v(1) u(2) show ?thesis by auto
qed

end
