(* ===== verification/Zero_Start.thy ===== *)
theory Zero_Start
  imports Zero_Linked
begin

text \<open>
  The start of a run on the link: the handshake of \<open>zero/app/playback.py\<close> and the mode machine of the Pico together
  load the beginning of a recording and start to play it.
\<close>

section \<open>Answers of the Pico\<close>

lemma armed_answer:
  fixes env :: environment
  assumes "sp_room p = 2048" "sp_mode p = MODE_PASS"
  defines "q \<equiv> pico_answer env (mk_frame MODE_SET [MODE_ARMED]) p"
  shows "sp_zero q = sp_zero p @ [(PICO_UART_MODE_CHANGED, [MODE_ARMED, REASON_OK])]" "sp_mode q = MODE_ARMED" "sp_queue q = []"
    "\<not> sp_ended q" "sp_room q = 2048" "sp_pc q = sp_pc p" "sp_release q"
  using assms(1,2) unfolding q_def
  by (simp_all add: pico_answer_def spec_command_def constants_agree spec_op_def spec_turn_def spec_say_def spec_fits_def Let_def)
    (simp_all add: pico_constants)

lemma clear_answer:
  fixes env :: environment
  assumes "sp_room p = 2048" "sp_mode p = MODE_ARMED"
  defines "q \<equiv> p\<lparr>sp_queue := [], sp_ended := False, sp_starved := False\<rparr>"
  shows "pico_answer env (mk_frame QUEUE_CLEAR []) p = q\<lparr>sp_zero := sp_zero p @ [spec_buffer_status q]\<rparr>"
proof -
  have "spec_queue env (mk_frame PICO_UART_QUEUE_CLEAR []) p = spec_ack env q"
    using assms(2) by (simp add: spec_queue_def pico_uart_queue_command_allowed_def constants_agree q_def)
  with ack_answer [of q env] assms(1) show ?thesis by (simp add: pico_answer_def queue_command constants_agree q_def)
qed

lemma end_answer:
  fixes env :: environment
  assumes "sp_room p = 2048" "sp_mode p = MODE_ARMED"
  defines "q \<equiv> pico_answer env (mk_frame QUEUE_END []) p"
  shows "sp_zero q = sp_zero p @ [(PICO_UART_PLAY_READY, []), spec_buffer_status (p\<lparr>sp_ended := True\<rparr>)]" "sp_mode q = MODE_ARMED"
    "sp_queue q = sp_queue p" "sp_ended q" "sp_room q = 2048" "sp_pc q = sp_pc p" "sp_release q = sp_release p"
proof -
  let ?s1 = "p\<lparr>sp_ended := True\<rparr>"
  have said: "spec_say (PICO_UART_PLAY_READY, []) ?s1 = ?s1\<lparr>sp_zero := sp_zero p @ [(PICO_UART_PLAY_READY, [])], sp_room := 2041\<rparr>"
    using assms(1) by (simp add: spec_say_def spec_fits_def)
  have "spec_queue env (mk_frame PICO_UART_QUEUE_END []) p = spec_ack env (spec_say (PICO_UART_PLAY_READY, []) ?s1)"
    using assms(2) by (simp add: spec_queue_def pico_uart_queue_command_allowed_def constants_agree Let_def) (simp add: pico_constants)
  then have "q = (spec_ack env (?s1\<lparr>sp_zero := sp_zero p @ [(PICO_UART_PLAY_READY, [])], sp_room := 2041\<rparr>))\<lparr>sp_room := 2048\<rparr>"
    using said by (simp add: q_def pico_answer_def queue_command constants_agree)
  then have "q = ?s1\<lparr>sp_zero := sp_zero p @ [(PICO_UART_PLAY_READY, []), spec_buffer_status ?s1]\<rparr>"
    using assms(1) by (simp add: spec_ack_def spec_fits_def spec_say_def spec_buffer_status_def spec_free_def Let_def)
  with assms(1,2) show "sp_zero q = sp_zero p @ [(PICO_UART_PLAY_READY, []), spec_buffer_status ?s1]" "sp_mode q = MODE_ARMED"
    "sp_queue q = sp_queue p" "sp_ended q" "sp_room q = 2048" "sp_pc q = sp_pc p" "sp_release q = sp_release p" by simp_all
qed

lemma start_answer:
  fixes env :: environment
  assumes "sp_room p = 2048" "sp_mode p = MODE_ARMED" "sp_queue p \<noteq> []"
  defines "q \<equiv> pico_answer env (mk_frame PLAY_START []) p"
  shows "sp_zero q = sp_zero p @ [(PICO_UART_MODE_CHANGED, [MODE_PLAYING, REASON_OK]), (PICO_UART_PLAY_STARTED, write_u64_le (en_time env))]"
    "sp_mode q = MODE_PLAYING" "sp_queue q = sp_queue p" "sp_ended q = sp_ended p" "sp_room q = 2048"
    "sp_pc q = sp_pc p" "sp_release q" "\<not> sp_starved q"
  using assms(1-3) unfolding q_def
  by (simp_all add: pico_answer_def spec_command_def spec_start_def constants_agree spec_op_def spec_turn_def spec_say_def spec_fits_def Let_def)
    (simp_all add: pico_constants)

section \<open>The handshake\<close>

lemma command_linked:
  assumes "on_link p fs s" "zero_message (ty, body)" "list_all pico_message new" "frame_bytes (fs @ map frame_of new) \<le> 256"
    "sp_zero (pico_answer env (mk_frame ty body) p) = sp_zero p @ new"
  shows "\<exists>u. send_encoded (pico_io env) (Inr (wire_frame ty body)) s = Some (Inr (), u) \<and> pico_transport.more u = pico_transport.more s
    \<and> on_link (pico_answer env (mk_frame ty body) p) (fs @ map frame_of new) u"
proof -
  have "lk_pico (pt_stream s) = p" "inbox s fs" using assms(1) by (simp_all add: on_link_def)
  with send_linked [OF _ assms(2,3,4), of s env] assms(5) show ?thesis by (auto simp: on_link_def)
qed

lemma frame_of_simps [simp]: "zf_type (frame_of x) = fst x" "zf_payload (frame_of x) = snd x"
  by (simp_all add: frame_of_def)

lemma mode_frame_simps:
  "m \<in> VALID_MODES \<Longrightarrow> m \<noteq> MODE_ERROR \<Longrightarrow> require_not_error (frame_of (PICO_UART_MODE_CHANGED, [m, REASON_OK])) = Inr (frame_of (PICO_UART_MODE_CHANGED, [m, REASON_OK]))"
  "m \<in> VALID_MODES \<Longrightarrow> validate_mode_changed (frame_of (PICO_UART_MODE_CHANGED, [m, REASON_OK])) = Inr (m, REASON_OK)"
  by (auto simp: require_not_error_def validate_mode_changed_def frame_of_def constants_agree Let_def) (auto simp: zero_constants pico_constants)

text \<open>A change of the mode that the Pico confirms at once; \<open>kept\<close> are other frames on the way.\<close>

lemma set_mode_linked:
  assumes "on_link p kept s" "0 < timeout" "is_float timeout" "m \<in> {0, 1, 2}" "skipped_ok MODE_CHANGED kept" "frame_bytes kept \<le> 200"
    "sp_zero (pico_answer env (mk_frame MODE_SET [m]) p) = sp_zero p @ [(PICO_UART_MODE_CHANGED, [m, REASON_OK])]"
  shows "\<exists>u. set_mode (pico_io env) m timeout 1 s = Some (Inr (), u) \<and> pico_transport.more u = pico_transport.more s
    \<and> on_link (pico_answer env (mk_frame MODE_SET [m]) p) kept u"
proof -
  let ?f = "frame_of (PICO_UART_MODE_CHANGED, [m, REASON_OK])"
  have valid: "m \<in> VALID_MODES" "m \<noteq> MODE_ERROR" using assms(4) by (auto simp: zero_constants)
  have f: "require_not_error ?f = Inr ?f" "zf_type ?f = MODE_CHANGED" "validate_mode_changed ?f = Inr (m, REASON_OK)"
    using mode_frame_simps(1) [OF valid] mode_frame_simps(2) [OF valid(1)] by (simp_all add: constants_agree)
  have new: "list_all pico_message [(PICO_UART_MODE_CHANGED, [m, REASON_OK])]"
    "frame_bytes (kept @ map frame_of [(PICO_UART_MODE_CHANGED, [m, REASON_OK])]) \<le> 256"
    using assms(6) by simp_all
  from command_linked [OF assms(1) zero_message_plain(5) [OF assms(4)] new assms(7)] obtain v where
    v: "send_encoded (pico_io env) (Inr (wire_frame MODE_SET [m])) s = Some (Inr (), v)" "pico_transport.more v = pico_transport.more s"
      "on_link (pico_answer env (mk_frame MODE_SET [m]) p) (kept @ [?f]) v" by auto
  from v(3) have "inbox v (kept @ ?f # [])" by (simp add: on_link_def)
  from await_linked [OF assms(2,3) this assms(5), of env] f v(2,3) obtain u where
    u: "await_frame (pico_io env) MODE_CHANGED timeout v = Some (Inr ?f, u)" "inbox u kept" "same_pico v u" by auto
  have enc: "encode_frame MODE_SET [m] = Inr (wire_frame MODE_SET [m])" using zero_types by (intro encode_frame_wire) auto
  have "set_mode (pico_io env) m timeout 1 s = Some (Inr (), u)"
    using v(1) u(1) f(3) assms(4) by (simp add: set_mode_def numeral_2_eq_2 enc and_then_def returns_def)
  with u(2,3) v(2,3) show ?thesis by (intro exI [of _ u]) (simp add: on_link_def same_pico_def)
qed

lemma status_frame_of [simp]: "frame_of (spec_buffer_status p) = status_frame p"
  by (simp add: status_frame_def)

text \<open>A command whose last answer is a BUFFER_STATUS, and the wait for that.\<close>

lemma clear_linked:
  assumes "on_link p [] s" "in_time s" "sp_room p = 2048" "sp_mode p = MODE_ARMED"
  defines "q \<equiv> p\<lparr>sp_queue := [], sp_ended := False, sp_starved := False\<rparr>"
  shows "\<exists>v u z. send_queue_clear (pico_io env) s = Some (Inr (), v) \<and> await_status (pico_io env) MODE_ARMED v = Some (Inr (), u)
    \<and> on_link (q\<lparr>sp_zero := z\<rparr>) [] u \<and> plan u = plan s \<and> pb_free_capacity u = 512 \<and> pb_underruns u = pb_underruns s"
proof -
  note ans = clear_answer [OF assms(3,4), of env, folded q_def]
  have new: "list_all pico_message [spec_buffer_status q]" "frame_bytes ([] @ map frame_of [spec_buffer_status q]) \<le> 256"
    "sp_zero (pico_answer env (mk_frame QUEUE_CLEAR []) p) = sp_zero p @ [spec_buffer_status q]" by (simp_all add: ans)
  from command_linked [OF assms(1) zero_message_plain(1) new] obtain v where
    v: "send_queue_clear (pico_io env) s = Some (Inr (), v)" "pico_transport.more v = pico_transport.more s"
      "on_link (q\<lparr>sp_zero := sp_zero p @ [spec_buffer_status q]\<rparr>) ([] @ status_frame q # []) v"
    by (auto simp: ans send_queue_clear_def encode_plain_wire)
  note same = more_plan [OF v(2)]
  from await_status_linked [OF _ v(3), of MODE_ARMED env] plan_in_time same assms(2,4) mode_valid obtain u where
    "await_status (pico_io env) MODE_ARMED v = Some (Inr (), u)" "on_link (q\<lparr>sp_zero := sp_zero p @ [spec_buffer_status q]\<rparr>) [] u"
    "plan u = plan v" "pb_free_capacity u = 512" "pb_underruns u = pb_underruns v" by (auto simp: q_def skipped_ok_def)
  with v(1) same show ?thesis by metis
qed

lemma end_linked:
  assumes "on_link p [] s" "in_time s" "sp_room p = 2048" "sp_mode p = MODE_ARMED" "length (sp_queue p) \<le> 512"
  shows "\<exists>u q. and_then (send_queue_end (pico_io env)) (\<lambda>_. and_then (session_await (pico_io env) PLAY_READY None)
        (\<lambda>_. await_status (pico_io env) MODE_ARMED)) s = Some (Inr (), u)
    \<and> on_link q [] u \<and> sp_mode q = MODE_ARMED \<and> sp_queue q = sp_queue p \<and> sp_ended q \<and> sp_room q = 2048 \<and> plan u = plan s
    \<and> pb_free_capacity u = 512 - int (length (sp_queue p)) \<and> sp_pc q = sp_pc p \<and> sp_release q = sp_release p"
proof -
  note ans = end_answer [OF assms(3,4), of env]
  let ?q = "pico_answer env (mk_frame QUEUE_END []) p" and ?r = "p\<lparr>sp_ended := True\<rparr>" and ?f = "frame_of (PICO_UART_PLAY_READY, [])"
  have new: "list_all pico_message [(PICO_UART_PLAY_READY, []), spec_buffer_status ?r]"
    "frame_bytes ([] @ map frame_of [(PICO_UART_PLAY_READY, []), spec_buffer_status ?r]) \<le> 256" by simp_all
  from command_linked [OF assms(1) zero_message_plain(2) new ans(1)] obtain v where
    v: "send_queue_end (pico_io env) s = Some (Inr (), v)" "pico_transport.more v = pico_transport.more s"
      "on_link ?q ([] @ ?f # [status_frame ?r]) v" by (auto simp: send_queue_end_def encode_plain_wire)
  note same = more_plan [OF v(2)]
  have f: "zf_type ?f = PLAY_READY" "require_not_error ?f = Inr ?f" by (simp_all add: require_not_error_def) (simp_all add: zero_constants pico_constants)
  have "in_time v" using plan_in_time same assms(2) by blast
  from session_await_linked [OF this v(3), of PLAY_READY env] f obtain w where
    w: "session_await (pico_io env) PLAY_READY None v = Some (Inr ?f, w)" "on_link ?q ([] @ status_frame ?r # []) w"
      "pico_transport.more w = pico_transport.more v" by (auto simp: skipped_ok_def)
  note same2 = more_plan [OF w(3)]
  have "in_time w" using plan_in_time same2 \<open>in_time v\<close> by blast
  from await_status_linked [OF this w(2), of MODE_ARMED env] assms(4,5) mode_valid obtain u where
    u: "await_status (pico_io env) MODE_ARMED w = Some (Inr (), u)" "on_link ?q [] u" "plan u = plan w"
      "pb_free_capacity u = 512 - int (length (sp_queue p))" by (auto simp: skipped_ok_def)
  with v(1) w(1) same same2 ans(2-7) show ?thesis
    by (intro exI [of _ u] exI [of _ ?q]) (simp add: and_then_def)
qed

lemma prepare_queue_linked:
  assumes "on_link p [] s" "in_time s" "sp_room p = 2048" "sp_mode p = MODE_ARMED" "list_all zero_event_ok (pb_events s)" "pb_next_event s = 0"
  defines "n \<equiv> prebuffer_count (pb_prebuffer_us s) (pb_events s)"
  assumes "n \<le> 512"
  shows "\<exists>u q. prepare_queue (pico_io env) s = Some (Inr (), u) \<and> on_link q [] u \<and> sp_mode q = MODE_ARMED \<and> sp_room q = 2048
    \<and> sp_queue q = map queued (take n (pb_events s)) \<and> sp_ended q = (n = length (pb_events s)) \<and> in_time u
    \<and> pb_next_event u = n \<and> plan (u\<lparr>pb_next_event := 0\<rparr>) = plan s \<and> sp_pc q = sp_pc p \<and> sp_release q = sp_release p
    \<and> pb_free_capacity u = 512 - int n"
proof -
  let ?q0 = "\<lambda>z. p\<lparr>sp_queue := [], sp_ended := False, sp_starved := False, sp_zero := z\<rparr>"
  from clear_linked [OF assms(1-4), of env] obtain a b z where ab: "send_queue_clear (pico_io env) s = Some (Inr (), a)"
    "await_status (pico_io env) MODE_ARMED a = Some (Inr (), b)" "on_link (?q0 z) [] b" "plan b = plan s" "pb_free_capacity b = 512"
    by auto
  have b: "pb_next_event b = 0" "pb_events b = pb_events s" "pb_prebuffer_us b = pb_prebuffer_us s" "in_time b"
    using ab(4) assms(2,6) plan_in_time [OF ab(4)] by (simp_all add: plan_def)
  have "feeding MODE_ARMED [] (?q0 z) b" using ab(3) b assms(3-5) by (simp add: feeding_def skipped_ok_def)
  from send_through_linked [OF this, of n env] ab(5) b assms(8) prebuffer_count_le [of "pb_prebuffer_us s" "pb_events s"] obtain c q where
    c: "send_through (pico_io env) n MODE_ARMED b = Some (Inr (), c)" "feeding MODE_ARMED [] q c" "loaded (?q0 z) (take n (pb_events s)) q"
      "fed_plan n b c" "pb_free_capacity c = 512 - int (length (sp_queue q))" by (auto simp: n_def)
  have len: "length (sp_queue q) = n" using loaded_simps(1) [OF c(3)] prebuffer_count_le [of "pb_prebuffer_us s" "pb_events s"] by (simp add: n_def)
  have plan: "plan (c\<lparr>pb_next_event := 0\<rparr>) = plan s" using c(4) b(1) ab(4) assms(6) by (simp add: fed_plan_def)
  note at = fed_plan_simps(1) [OF c(4)] and q = loaded_simps(1) [OF c(3)]
  have pre: "prepare_queue (pico_io env) s = (if n = length (pb_events s)
      then and_then (send_queue_end (pico_io env)) (\<lambda>_. and_then (session_await (pico_io env) PLAY_READY None)
        (\<lambda>_. await_status (pico_io env) MODE_ARMED)) c else returns () c)"
    using ab(1,2,5) b c(1) at assms(8) by (simp add: prepare_queue_def and_then_def n_def Let_def)
  have c': "on_link q [] c" "in_time c" "sp_room q = 2048" "sp_mode q = MODE_ARMED" "length (sp_queue q) \<le> 512"
    using c(2) by (simp_all add: feeding_def)
  show ?thesis
  proof (cases "n = length (pb_events s)")
    case True
    from end_linked [OF c', of env] obtain u r where u: "and_then (send_queue_end (pico_io env)) (\<lambda>_.
        and_then (session_await (pico_io env) PLAY_READY None) (\<lambda>_. await_status (pico_io env) MODE_ARMED)) c = Some (Inr (), u)"
      "on_link r [] u" "sp_mode r = MODE_ARMED" "sp_queue r = sp_queue q" "sp_ended r" "sp_room r = 2048" "plan u = plan c"
      "pb_free_capacity u = 512 - int n" "sp_pc r = sp_pc q" "sp_release r = sp_release q" unfolding len by blast
    with True pre q at b c'(2) plan_in_time [OF u(7)] plan show ?thesis by (intro exI [of _ u] exI [of _ r]) (simp add: plan_def)
  next
    case False
    with pre q at b c' c(5) len plan show ?thesis by (intro exI [of _ c] exI [of _ q]) (simp add: returns_def)
  qed
qed

lemma start_run_linked:
  assumes "on_link p [] s" "in_time s" "sp_room p = 2048" "sp_mode p = MODE_ARMED" "sp_queue p \<noteq> []"
  shows "\<exists>u q. start_run_of (pico_io env) s = Some (Inr (uint (en_time env)), u) \<and> on_link q [] u \<and> sp_mode q = MODE_PLAYING
    \<and> sp_queue q = sp_queue p \<and> sp_ended q = sp_ended p \<and> sp_room q = 2048 \<and> sp_pc q = sp_pc p \<and> sp_release q \<and> \<not> sp_starved q
    \<and> pb_started u \<and> pb_playback_start_us u = uint (en_time env) \<and> plan u = plan s \<and> pb_free_capacity u = pb_free_capacity s"
proof -
  note ans = start_answer [OF assms(3-5), of env]
  let ?q = "pico_answer env (mk_frame PLAY_START []) p"
  let ?f = "frame_of (PICO_UART_MODE_CHANGED, [MODE_PLAYING, REASON_OK])"
  let ?g = "frame_of (PICO_UART_PLAY_STARTED, write_u64_le (en_time env))"
  have new: "list_all pico_message [(PICO_UART_MODE_CHANGED, [MODE_PLAYING, REASON_OK]), (PICO_UART_PLAY_STARTED, write_u64_le (en_time env))]"
    "frame_bytes ([] @ map frame_of [(PICO_UART_MODE_CHANGED, [MODE_PLAYING, REASON_OK]), (PICO_UART_PLAY_STARTED, write_u64_le (en_time env))]) \<le> 256"
    by simp_all
  from command_linked [OF assms(1) zero_message_plain(3) new ans(1)] obtain a where
    a: "send_play_start (pico_io env) s = Some (Inr (), a)" "pico_transport.more a = pico_transport.more s" "on_link ?q ([] @ ?f # [?g]) a"
    by (auto simp: send_play_start_def encode_plain_wire)
  have f: "zf_type ?f = MODE_CHANGED" "require_not_error ?f = Inr ?f" "validate_mode_changed ?f = Inr (MODE_PLAYING, REASON_OK)"
    using mode_frame_simps [of MODE_PLAYING] mode_valid by (simp_all add: constants_agree) (simp_all add: pico_constants)
  have g: "zf_type ?g = PLAY_STARTED" "require_not_error ?g = Inr ?g" "validate_play_started ?g = Inr (uint (en_time env))"
    by (simp_all add: constants_agree require_not_error_def validate_play_started_def del: unpack_le_simps) (simp_all add: pico_constants)
  have "in_time a" using more_plan [OF a(2)] plan_in_time assms(2) by blast
  from session_await_linked [OF this a(3), of MODE_CHANGED env] f obtain b where
    b: "session_await (pico_io env) MODE_CHANGED None a = Some (Inr ?f, b)" "on_link ?q ([] @ ?g # []) b"
      "pico_transport.more b = pico_transport.more a" by (auto simp: skipped_ok_def)
  have "in_time b" using more_plan [OF b(3)] plan_in_time \<open>in_time a\<close> by blast
  from session_await_linked [OF this b(2), of PLAY_STARTED env] g obtain c where
    c: "session_await (pico_io env) PLAY_STARTED None b = Some (Inr ?g, c)" "on_link ?q [] c" "pico_transport.more c = pico_transport.more b"
    by (auto simp: skipped_ok_def)
  let ?u = "c\<lparr>pb_playback_start_us := uint (en_time env), pb_start_wallclock := Some 0, pb_started := True, pb_playing := True\<rparr>"
  have "start_run_of (pico_io env) s = Some (Inr (uint (en_time env)), ?u)"
    using a(1) b(1) c(1) f(3) g(3) by (simp add: start_run_of_def and_then_def lift_result_def returns_def)
  moreover have "plan ?u = plan s \<and> pb_free_capacity ?u = pb_free_capacity s"
    using more_plan [OF c(3)] more_plan [OF b(3)] more_plan [OF a(2)] by (simp add: plan_def)
  ultimately show ?thesis using c(2) ans(2-8) by (intro exI [of _ ?u] exI [of _ ?q]) (simp add: on_link_def inbox_def)
qed

text \<open>The whole start, from PASS to PLAYING.\<close>

lemma session_start_linked:
  assumes "on_link p [] s" "sp_room p = 2048" "sp_mode p = MODE_PASS" "0 < pb_mode_timeout s" "is_float (pb_mode_timeout s)"
    "pb_playback_timeout s = Some timeout" "0 < timeout" "is_float timeout" "list_all zero_event_ok (pb_events s)" "pb_events s \<noteq> []"
    "pb_next_event s = 0" "\<not> pb_started s" "\<not> pb_finished s"
  defines "n \<equiv> prebuffer_count (pb_prebuffer_us s) (pb_events s)"
  assumes "n \<le> 512"
  shows "\<exists>u q. session_start (pico_io env) s = Some (Inr (uint (en_time env)), u) \<and> feeding MODE_PLAYING [] q u
    \<and> sp_queue q = map queued (take n (pb_events s)) \<and> sp_ended q = (n = length (pb_events s)) \<and> sp_pc q = sp_pc p \<and> sp_release q
    \<and> \<not> sp_starved q \<and> pb_started u \<and> \<not> pb_finished u \<and> pb_next_event u = n \<and> pb_events u = pb_events s
    \<and> pb_free_capacity u = 512 - int n \<and> pb_mode_timeout u = pb_mode_timeout s \<and> pb_playback_start_us u = uint (en_time env)"
proof -
  let ?p1 = "pico_answer env (mk_frame MODE_SET [MODE_ARMED]) p"
  note armed = armed_answer [OF assms(2,3), of env]
  have "MODE_ARMED \<in> {0, 1, 2}" "skipped_ok MODE_CHANGED []" "frame_bytes [] \<le> 200" by (simp_all add: MODE_ARMED_def skipped_ok_def)
  from set_mode_linked [OF assms(1,4,5) this armed(1)] obtain a where a: "set_mode (pico_io env) MODE_ARMED (pb_mode_timeout s) 1 s = Some (Inr (), a)"
    "pico_transport.more a = pico_transport.more s" "on_link ?p1 [] a" by blast
  define b where "b = a\<lparr>pb_armed := True, pb_deadline := timeout\<rparr>"
  have fields: "pb_playback_timeout a = Some timeout" "pb_events b = pb_events s" "pb_next_event b = 0" "pb_prebuffer_us b = pb_prebuffer_us s"
    "pb_mode_timeout b = pb_mode_timeout s" "\<not> pb_finished b"
    using more_plan [OF a(2)] assms(6,11,13) by (simp_all add: plan_def b_def)
  have b: "on_link ?p1 [] b" "in_time b"
    using a(3) assms(7,8) by (simp_all add: b_def on_link_def inbox_def in_time_def)
  have "0 < n" using assms(10) by (cases "pb_events s") (simp_all add: n_def)
  from prepare_queue_linked [OF b armed(5,2), of env] fields(2-4) assms(9,15) obtain c q where
    c: "prepare_queue (pico_io env) b = Some (Inr (), c)" "on_link q [] c" "sp_mode q = MODE_ARMED" "sp_room q = 2048"
      "sp_queue q = map queued (take n (pb_events s))" "sp_ended q = (n = length (pb_events s))" "in_time c" "pb_next_event c = n"
      "plan (c\<lparr>pb_next_event := 0\<rparr>) = plan b" "sp_pc q = sp_pc p" "sp_release q" "pb_free_capacity c = 512 - int n"
    using armed(6,7) by (auto simp: n_def)
  have "sp_queue q \<noteq> []" using c(5) \<open>0 < n\<close> assms(10) by simp
  from start_run_linked [OF c(2,7,4,3) this, of env] obtain u r where u: "start_run_of (pico_io env) c = Some (Inr (uint (en_time env)), u)"
    "on_link r [] u" "sp_mode r = MODE_PLAYING" "sp_queue r = sp_queue q" "sp_ended r = sp_ended q" "sp_room r = 2048" "sp_pc r = sp_pc q"
    "sp_release r" "\<not> sp_starved r" "pb_started u" "pb_playback_start_us u = uint (en_time env)" "plan u = plan c"
    "pb_free_capacity u = pb_free_capacity c" by blast
  have "session_start (pico_io env) s = Some (Inr (uint (en_time env)), u)"
    using a(1) c(1) u(1) assms(8,12,13) fields(1)
    by (simp add: session_start_def and_then_def Let_def effective_playback_timeout_def fadd_def is_float_def b_def)
  moreover have at: "pb_events u = pb_events s" "pb_next_event u = n" "\<not> pb_finished u" "pb_mode_timeout u = pb_mode_timeout s"
    using u(12) c(8,9) fields by (simp_all add: plan_def)
  moreover have "feeding MODE_PLAYING [] r u"
    using u(2-6) c(5,7) plan_in_time [OF u(12)] assms(9,15) at prebuffer_count_le [of "pb_prebuffer_us s" "pb_events s"]
    by (simp add: feeding_def skipped_ok_def)
  ultimately show ?thesis using u c(5,6,10,12) by (intro exI [of _ u] exI [of _ r]) simp
qed

end
