(* ===== verification/Zero_Run.thy ===== *)
theory Zero_Run
  imports Zero_Start
begin

text \<open>
  A whole run on the link, of a recording of any length: the feeder keeps the queue filled by the Pico's credit,
  ends the sequence, and gets the outcome when the last report went to the PC.
\<close>

section \<open>The Pico while the Zero waits\<close>

text \<open>\<open>owed\<close>: what the PC got and what it will get, with the release of all keys that is pending.\<close>

definition owed :: "spec \<Rightarrow> u8 list list" where
  "owed p = sp_pc p @ (if sp_release p then [release_bytes] else []) @ map (\<lambda>x. report_bytes (snd x)) (sp_queue p)"

lemma inbox_empty: "inbox s [] \<Longrightarrow> pt_pending s = [] \<and> lk_wire (pt_stream s) = [] \<and> pt_decoder s = incremental_decoder_init \<and> pt_read_size s = 256"
  by (auto simp: inbox_def)

lemma receive_silent:
  assumes "on_link p [] s" "0 < deadline" "sp_zero (pico_idle env p) = sp_zero p"
  shows "\<exists>u. receive_loop (pico_io env) deadline s = receive_loop (pico_io env) deadline u \<and> on_link (pico_idle env p) [] u
    \<and> pico_transport.more u = pico_transport.more s"
proof -
  let ?u = "s\<lparr>pt_stream := (pt_stream s)\<lparr>lk_pico := pico_idle env p, lk_wire := []\<rparr>\<rparr>"
  have s: "lk_pico (pt_stream s) = p" "inbox s []" using assms(1) by (simp_all add: on_link_def)
  have "receive_round (pico_io env) s = (Inr None, ?u)"
    using inbox_empty [OF s(2)] s(1) assms(3) by (simp add: receive_round_def pico_io_def link_idle_def said_since_def Let_def)
  then have "receive_loop (pico_io env) deadline s = receive_loop (pico_io env) deadline ?u"
    using assms(2) by (subst receive_loop.simps) simp
  moreover have "on_link (pico_idle env p) [] ?u" using inbox_empty [OF s(2)] by (simp add: on_link_def inbox_def)
  ultimately show ?thesis by (intro exI [of _ ?u]) simp
qed

lemma receive_said:
  assumes "on_link p [] s" "list_all pico_message (m # ms)" "length (wire_stream (m # ms)) \<le> 256"
    "sp_zero (pico_idle env p) = sp_zero p @ m # ms"
  shows "\<exists>u. receive_loop (pico_io env) deadline s = Some (Inr (frame_of m), u) \<and> on_link (pico_idle env p) (map frame_of ms) u
    \<and> pico_transport.more u = pico_transport.more s"
proof -
  let ?v = "s\<lparr>pt_stream := (pt_stream s)\<lparr>lk_pico := pico_idle env p, lk_wire := wire_stream (m # ms)\<rparr>\<rparr>"
  have s: "lk_pico (pt_stream s) = p" "inbox s []" using assms(1) by (simp_all add: on_link_def)
  note e = inbox_empty [OF s(2)]
  have ne: "wire_stream (m # ms) \<noteq> []" by (cases m) (auto simp: wire_frame_def Let_def)
  have "receive_round (pico_io env) s = receive_round (pico_io env) ?v"
    using e s(1) assms(4) ne by (simp add: receive_round_def pico_io_def link_idle_def said_since_def Let_def)
  then have "receive_loop (pico_io env) deadline s = receive_loop (pico_io env) deadline ?v"
    by (subst (1 2) receive_loop.simps) simp
  moreover have "inbox ?v (frame_of m # map frame_of ms)"
    using e assms(2,3) unfolding inbox_def by (intro conjI exI [of _ "m # ms"]) simp_all
  moreover from this round_linked [of ?v "frame_of m" "map frame_of ms" env] e obtain u where
    "receive_round (pico_io env) ?v = (Inr (Some (frame_of m)), u)" "inbox u (map frame_of ms)" "same_pico ?v u" by auto
  ultimately show ?thesis by (intro exI [of _ u]) (simp add: receive_loop.simps returns_def on_link_def same_pico_def)
qed

text \<open>The steps of the Pico that say nothing, a credit when the queue was full, and the end of a run.\<close>

lemma idle_release:
  assumes "sp_release p"
  shows "pico_idle env p = p\<lparr>sp_release := False, sp_pc := sp_pc p @ [release_bytes]\<rparr>" "owed (pico_idle env p) = owed p"
    "sp_zero (pico_idle env p) = sp_zero p"
  using assms by (simp_all add: pico_idle_def owed_def)

lemma idle_credit:
  assumes "\<not> sp_release p" "sp_mode p = MODE_PLAYING" "length (sp_queue p) = 512" "\<not> sp_ended p" "sp_room p = 2048"
  defines "q \<equiv> p\<lparr>sp_queue := tl (sp_queue p), sp_pc := sp_pc p @ [report_bytes (snd (hd (sp_queue p)))]\<rparr>"
  shows "pico_idle env p = q\<lparr>sp_zero := sp_zero p @ [spec_buffer_status q]\<rparr>" "owed q = owed p"
proof -
  obtain x xs where x: "sp_queue p = x # xs" using assms(3) by (cases "sp_queue p") auto
  have fits: "spec_fits (spec_buffer_status q) q" using assms(5) by (simp add: spec_fits_def spec_buffer_status_def q_def Let_def)
  have "pico_plays env p = spec_flow (spec_buffer_status q) q" using assms(3,4) x by (simp add: pico_plays_def q_def Let_def)
  with fits assms(1,2,5) show "pico_idle env p = q\<lparr>sp_zero := sp_zero p @ [spec_buffer_status q]\<rparr>"
    by (simp add: pico_idle_def spec_flow_def spec_say_def q_def)
  show "owed q = owed p" using assms(1) x by (simp add: owed_def q_def)
qed

lemma idle_event:
  assumes "\<not> sp_release p" "sp_mode p = MODE_PLAYING" "sp_queue p = x # xs" "sp_ended p" "sp_room p = 2048"
  shows "pico_idle env p = p\<lparr>sp_queue := xs, sp_pc := sp_pc p @ [report_bytes (snd x)]\<rparr>" "owed (pico_idle env p) = owed p"
    "sp_zero (pico_idle env p) = sp_zero p"
  using assms by (simp_all add: pico_idle_def pico_plays_def owed_def)

lemma idle_finish:
  assumes "\<not> sp_release p" "sp_mode p = MODE_PLAYING" "sp_queue p = []" "sp_ended p" "sp_room p = 2048" "env_ok env"
  defines "q \<equiv> pico_idle env p"
  shows "sp_zero q = sp_zero p @ [(PICO_UART_PLAY_FINISHED, []), (PICO_UART_PLAY_METRICS, en_metrics env),
      (PICO_UART_MODE_CHANGED, [MODE_ARMED, REASON_FINISHED])]"
    "sp_mode q = MODE_ARMED" "sp_queue q = []" "sp_room q = 2048" "sp_pc q = owed p"
  using assms(1-6) unfolding q_def
  by (simp_all add: pico_idle_def pico_plays_def spec_empty_def spec_finish_def spec_turn_def spec_say_def spec_fits_def env_ok_def
      Let_def owed_def MODE_PLAYING_def)
    (simp_all add: zero_constants pico_constants)

section \<open>Credit\<close>

text \<open>A run that goes on: the session is right about the Pico, whose sequence is not complete.\<close>

definition running :: "spec \<Rightarrow> linked playback_session \<Rightarrow> bool" where
  "running p s \<longleftrightarrow> feeding MODE_PLAYING [] p s \<and> pb_free_capacity s = 512 - int (length (sp_queue p)) \<and> \<not> sp_ended p \<and> \<not> sp_starved p"

lemma receive_credit:
  assumes "on_link p [] s" "0 < deadline" "is_float deadline" "sp_mode p = MODE_PLAYING" "length (sp_queue p) = 512" "\<not> sp_ended p"
    "sp_room p = 2048" "\<not> sp_starved p"
  shows "\<exists>u q r. receive_frame (pico_io env) deadline s = Some (Inr (status_frame r), u) \<and> on_link q [] u
    \<and> pico_transport.more u = pico_transport.more s \<and> length (sp_queue r) = 511 \<and> sp_mode r = MODE_PLAYING
    \<and> length (sp_queue q) = 511 \<and> sp_mode q = MODE_PLAYING \<and> sp_room q = 2048 \<and> \<not> sp_ended q \<and> \<not> sp_starved q \<and> owed q = owed p"
proof -
  have free: "\<exists>u q r. receive_loop (pico_io env) deadline s = Some (Inr (status_frame r), u) \<and> on_link q [] u
    \<and> pico_transport.more u = pico_transport.more s \<and> length (sp_queue r) = 511 \<and> sp_mode r = MODE_PLAYING
    \<and> length (sp_queue q) = 511 \<and> sp_mode q = MODE_PLAYING \<and> sp_room q = 2048 \<and> \<not> sp_ended q \<and> \<not> sp_starved q \<and> owed q = owed p"
    if "on_link p [] s" "\<not> sp_release p" "sp_mode p = MODE_PLAYING" "length (sp_queue p) = 512" "\<not> sp_ended p" "sp_room p = 2048"
      "\<not> sp_starved p" for p and s :: "linked playback_session"
  proof -
    define q where "q = p\<lparr>sp_queue := tl (sp_queue p), sp_pc := sp_pc p @ [report_bytes (snd (hd (sp_queue p)))]\<rparr>"
    note idle = idle_credit(1) [OF that(2-6), of env, folded q_def] idle_credit(2) [OF that(2-6), folded q_def]
    have "length (wire_stream [spec_buffer_status q]) \<le> 256" by (simp add: frame_bytes_stream)
    with receive_said [OF that(1), of "spec_buffer_status q" "[]" env deadline] idle obtain u where
      u: "receive_loop (pico_io env) deadline s = Some (Inr (status_frame q), u)"
        "on_link (q\<lparr>sp_zero := sp_zero p @ [spec_buffer_status q]\<rparr>) [] u" "pico_transport.more u = pico_transport.more s"
      by (auto simp: q_def)
    moreover have "owed (q\<lparr>sp_zero := sp_zero p @ [spec_buffer_status q]\<rparr>) = owed p" using idle(2) by (simp add: owed_def)
    ultimately show ?thesis using that
      by (intro exI [of _ u] exI [of _ "q\<lparr>sp_zero := sp_zero p @ [spec_buffer_status q]\<rparr>"] exI [of _ q]) (simp add: q_def)
  qed
  have start: "receive_frame (pico_io env) deadline s = receive_loop (pico_io env) deadline s"
    using inbox_empty [of s] assms(1,3) by (simp add: receive_frame_def on_link_def fadd_def is_float_def)
  show ?thesis
  proof (cases "sp_release p")
    case False
    from free [OF assms(1) this assms(4-8)] show ?thesis unfolding start .
  next
    case True
    note idle = idle_release [OF True, of env]
    from receive_silent [OF assms(1,2) idle(3)] obtain v where v: "receive_loop (pico_io env) deadline s = receive_loop (pico_io env) deadline v"
      "on_link (pico_idle env p) [] v" "pico_transport.more v = pico_transport.more s" by blast
    from free [OF v(2)] assms(4-8) idle(1) show ?thesis unfolding start v(1) idle(2) [symmetric] v(3) [symmetric] by simp
  qed
qed

lemma take_credit_running:
  assumes "running p s"
  shows "\<exists>u q. take_credit (pico_io env) MODE_PLAYING s = Some (Inr (), u) \<and> running q u \<and> length (sp_queue q) < 512 \<and> owed q = owed p
    \<and> plan u = plan s"
proof (cases "length (sp_queue p) = 512")
  case False
  with assms have "length (sp_queue p) < 512" "pb_free_capacity s \<noteq> 0" by (auto simp: running_def feeding_def)
  with assms show ?thesis by (intro exI [of _ s] exI [of _ p]) (simp add: take_credit_def returns_def)
next
  case True
  have s: "on_link p [] s" "in_time s" "sp_mode p = MODE_PLAYING" "sp_room p = 2048" "\<not> sp_ended p" "\<not> sp_starved p" "pb_free_capacity s = 0"
    "list_all zero_event_ok (pb_events s)"
    using assms True by (simp_all add: running_def feeding_def)
  from receive_credit [OF s(1) _ _ s(3) True s(5,4,6), of "pb_deadline s" env] s(2) obtain v q r where
    v: "receive_frame (pico_io env) (pb_deadline s) s = Some (Inr (status_frame r), v)" "on_link q [] v"
      "pico_transport.more v = pico_transport.more s" "length (sp_queue r) = 511" "sp_mode r = MODE_PLAYING"
      "length (sp_queue q) = 511" "sp_mode q = MODE_PLAYING" "sp_room q = 2048" "\<not> sp_ended q" "\<not> sp_starved q" "owed q = owed p"
    unfolding in_time_def by blast
  let ?w = "v\<lparr>pb_queued_count := 511\<rparr>"
  have "validate_buffer_status (status_frame r) = Inr (MODE_PLAYING, 511, 1)"
    using validate_status_frame [of r] v(4,5) mode_valid by simp
  then have "credit_round (pico_io env) MODE_PLAYING s = Some (Inr (Credit 1, status_frame r), ?w)"
    using v(1) by (simp add: credit_round_def remaining_linked [OF s(2)] and_then_def lift_result_def credit_frame_def returns_def)
  then have "await_credit (pico_io env) MODE_PLAYING s = Some (Inr 1, preserve_frames [] ?w)"
    by (simp add: await_credit_def credit_loop.simps returns_def)
  then have take: "take_credit (pico_io env) MODE_PLAYING s = Some (Inr (), (preserve_frames [] ?w)\<lparr>pb_free_capacity := 1\<rparr>)"
    using s(7) by (simp add: take_credit_def and_then_def returns_def)
  let ?u = "(preserve_frames [] ?w)\<lparr>pb_free_capacity := 1\<rparr>"
  have plan: "plan ?u = plan s" using more_plan [OF v(3)] by (simp add: plan_def preserve_frames_def)
  then have "in_time ?u" "pb_events ?u = pb_events s" using plan_in_time [OF plan] s(2) by (simp_all add: plan_def)
  then have "running q ?u"
    using v(2,6-10) s(8) by (simp add: running_def feeding_def on_link_def inbox_def preserve_frames_def skipped_ok_def in_time_def)
  with take plan v(6,11) show ?thesis by (intro exI [of _ ?u] exI [of _ q]) simp
qed

section \<open>Feeding to the end\<close>

lemma owed_loaded: "loaded p evs q \<Longrightarrow> owed q = owed p @ map (\<lambda>e. report_bytes (snd (queued e))) evs"
  using loaded_simps(1) [of p evs q] by (simp add: owed_def comp_def)

lemma run_round:
  assumes "running p s" "pb_next_event s < stop" "stop \<le> length (pb_events s)"
  shows "\<exists>u q n. send_round (pico_io env) stop MODE_PLAYING s = Some (Inr (), u) \<and> running q u \<and> 0 < n \<and> n \<le> stop - pb_next_event s
    \<and> plan (u\<lparr>pb_next_event := pb_next_event s\<rparr>) = plan s \<and> pb_next_event u = pb_next_event s + n
    \<and> owed q = owed p @ map (\<lambda>e. report_bytes (snd (queued e))) (take n (drop (pb_next_event s) (pb_events s)))"
proof -
  from take_credit_running [OF assms(1), of env] obtain v r where v: "take_credit (pico_io env) MODE_PLAYING s = Some (Inr (), v)"
    "running r v" "length (sp_queue r) < 512" "owed r = owed p" "plan v = plan s" by blast
  have same: "pb_next_event v = pb_next_event s" "pb_events v = pb_events s" using v(5) by (simp_all add: plan_def)
  have f: "feeding MODE_PLAYING [] r v" "pb_free_capacity v = 512 - int (length (sp_queue r))" "\<not> sp_ended r" "\<not> sp_starved r"
    using v(2) by (simp_all add: running_def)
  define n where "n = batch_count stop v"
  note fits = batch_fits(2-4) [OF f(2) v(3), of stop, folded n_def]
  from send_round_linked [OF f(1) v(1), of stop] fits same assms(2,3) obtain u q where
    u: "send_round (pico_io env) stop MODE_PLAYING s = Some (Inr (), u)" "feeding MODE_PLAYING [] q u"
      "loaded r (take n (drop (pb_next_event s) (pb_events s))) q" "fed_plan n v u" "pb_free_capacity u = 512 - int (length (sp_queue q))"
    by (auto simp: n_def)
  have "running q u" using u(2,5) loaded_simps(1) [OF u(3)] f(3,4) by (simp add: running_def)
  moreover have "plan (u\<lparr>pb_next_event := pb_next_event s\<rparr>) = plan s" "pb_next_event u = pb_next_event s + n"
    using u(4) v(5) same by (simp_all add: fed_plan_def)
  ultimately show ?thesis using u(1) owed_loaded [OF u(3)] v(4) fits same assms(2)
    by (intro exI [of _ u] exI [of _ q] exI [of _ n]) simp
qed

lemma run_through:
  assumes "running p s" "pb_next_event s \<le> stop" "stop \<le> length (pb_events s)"
  shows "\<exists>u q. send_through (pico_io env) stop MODE_PLAYING s = Some (Inr (), u) \<and> running q u \<and> pb_next_event u = stop
    \<and> plan (u\<lparr>pb_next_event := pb_next_event s\<rparr>) = plan s
    \<and> owed q = owed p @ map (\<lambda>e. report_bytes (snd (queued e))) (take (stop - pb_next_event s) (drop (pb_next_event s) (pb_events s)))"
  using assms
proof (induction "stop - pb_next_event s" arbitrary: s p rule: less_induct)
  case less
  show ?case
  proof (cases "pb_next_event s = stop")
    case True
    with less.prems send_through_stop [of stop s "pico_io env" MODE_PLAYING] show ?thesis
      by (intro exI [of _ s] exI [of _ p]) (simp add: plan_def)
  next
    case False
    with less.prems have lt: "pb_next_event s < stop" by simp
    from run_round [OF less.prems(1) lt less.prems(3), of env] obtain v r n where
      v: "send_round (pico_io env) stop MODE_PLAYING s = Some (Inr (), v)" "running r v" "0 < n" "n \<le> stop - pb_next_event s"
        "plan (v\<lparr>pb_next_event := pb_next_event s\<rparr>) = plan s" "pb_next_event v = pb_next_event s + n"
        "owed r = owed p @ map (\<lambda>e. report_bytes (snd (queued e))) (take n (drop (pb_next_event s) (pb_events s)))" by blast
    have evs: "pb_events v = pb_events s" using v(5) by (simp add: plan_def)
    have "pb_next_event v \<le> stop" "stop - pb_next_event v < stop - pb_next_event s" using v(3,4,6) lt by auto
    with less.hyps [OF _ v(2)] evs less.prems(3) obtain u q where
      u: "send_through (pico_io env) stop MODE_PLAYING v = Some (Inr (), u)" "running q u" "pb_next_event u = stop"
        "plan (u\<lparr>pb_next_event := pb_next_event v\<rparr>) = plan v"
        "owed q = owed r @ map (\<lambda>e. report_bytes (snd (queued e))) (take (stop - pb_next_event v) (drop (pb_next_event v) (pb_events v)))"
      by auto
    have "stop - pb_next_event s = n + (stop - pb_next_event v)" using v(4,6) lt by simp
    then have "take (stop - pb_next_event s) (drop (pb_next_event s) (pb_events s))
        = take n (drop (pb_next_event s) (pb_events s)) @ take (stop - pb_next_event v) (drop (pb_next_event v) (pb_events v))"
      using take_add [of n "stop - pb_next_event v" "drop (pb_next_event s) (pb_events s)"] v(6) evs by (simp add: add.commute [of _ n])
    with u(5) v(7) have "owed q = owed p @ map (\<lambda>e. report_bytes (snd (queued e)))
        (take (stop - pb_next_event s) (drop (pb_next_event s) (pb_events s)))" by simp
    moreover have "plan (u\<lparr>pb_next_event := pb_next_event s\<rparr>) = plan s" using u(4) v(5) by (simp add: plan_def)
    ultimately show ?thesis using u(1-3) send_through_next [OF lt v(1)] by (intro exI [of _ u] exI [of _ q]) simp
  qed
qed

section \<open>The outcome\<close>

text \<open>A complete sequence plays to its end while the Zero waits.\<close>

lemma receive_finished:
  assumes "on_link p [] s" "0 < deadline" "sp_mode p = MODE_PLAYING" "sp_ended p" "sp_room p = 2048" "env_ok env"
  shows "\<exists>u q. receive_loop (pico_io env) deadline s = Some (Inr (frame_of (PICO_UART_PLAY_FINISHED, [])), u)
    \<and> on_link q (map frame_of [(PICO_UART_PLAY_METRICS, en_metrics env), (PICO_UART_MODE_CHANGED, [MODE_ARMED, REASON_FINISHED])]) u
    \<and> pico_transport.more u = pico_transport.more s \<and> sp_mode q = MODE_ARMED \<and> sp_queue q = [] \<and> sp_room q = 2048 \<and> sp_pc q = owed p"
  using assms
proof (induction "length (sp_queue p) + (if sp_release p then 1 else 0)" arbitrary: s p rule: less_induct)
  case less
  have silent: ?case if "owed q = owed p" "q = pico_idle env p" "sp_zero q = sp_zero p" "sp_mode q = MODE_PLAYING" "sp_ended q" "sp_room q = 2048"
    "length (sp_queue q) + (if sp_release q then 1 else 0) < length (sp_queue p) + (if sp_release p then 1 else 0)" for q
  proof -
    from receive_silent [OF less.prems(1,2)] that(2,3) obtain v where v: "receive_loop (pico_io env) deadline s = receive_loop (pico_io env) deadline v"
      "on_link q [] v" "pico_transport.more v = pico_transport.more s" by blast
    from less.hyps [OF that(7) v(2) less.prems(2) that(4-6) less.prems(6)] show ?thesis unfolding v(1) that(1) v(3) .
  qed
  show ?case
  proof (cases "sp_release p")
    case True
    from idle_release [OF True, of env] less.prems(3-5) True show ?thesis by (intro silent [of "pico_idle env p"]) simp_all
  next
    case False
    show ?thesis
    proof (cases "sp_queue p")
      case (Cons x xs)
      from idle_event [OF False less.prems(3) Cons less.prems(4,5), of env] less.prems(3-5) False Cons show ?thesis
        by (intro silent [of "pico_idle env p"]) simp_all
    next
      case Nil
      note idle = idle_finish [OF False less.prems(3) Nil less.prems(4-6)]
      have len: "length (en_metrics env) = 33" using less.prems(6) by (simp add: env_ok_def)
      with receive_said [OF less.prems(1) _ _ idle(1), of deadline] idle(2-5) show ?thesis
        by (fastforce simp: frame_bytes_stream)
    qed
  qed
qed

text \<open>The end of the sequence, said while the run goes on; and the end of a run that was complete before.\<close>

definition complete :: "spec \<Rightarrow> bool" where
  "complete p \<longleftrightarrow> sp_mode p = MODE_PLAYING \<and> sp_ended p \<and> sp_room p = 2048"

lemma end_running_linked:
  assumes "running p s"
  shows "\<exists>u q r. send_queue_end (pico_io env) s = Some (Inr (), u) \<and> on_link q [status_frame r] u \<and> complete q \<and> owed q = owed p
    \<and> length (sp_queue r) \<le> 512 \<and> sp_mode r = MODE_PLAYING \<and> pico_transport.more u = pico_transport.more s"
proof -
  have p: "on_link p [] s" "sp_mode p = MODE_PLAYING" "sp_room p = 2048" "length (sp_queue p) \<le> 512"
    using assms by (simp_all add: running_def feeding_def)
  let ?r = "p\<lparr>sp_ended := True\<rparr>"
  have "spec_queue env (mk_frame PICO_UART_QUEUE_END []) p = spec_ack env ?r"
    using p(2) by (simp add: spec_queue_def pico_uart_queue_command_allowed_def constants_agree Let_def) (simp add: pico_constants)
  with ack_answer [of ?r env] p(3)
  have ans: "pico_answer env (mk_frame QUEUE_END []) p = ?r\<lparr>sp_zero := sp_zero p @ [spec_buffer_status ?r]\<rparr>"
    by (simp add: pico_answer_def queue_command constants_agree)
  then have new: "list_all pico_message [spec_buffer_status ?r]" "frame_bytes ([] @ map frame_of [spec_buffer_status ?r]) \<le> 256"
    "sp_zero (pico_answer env (mk_frame QUEUE_END []) p) = sp_zero p @ [spec_buffer_status ?r]" by simp_all
  from command_linked [OF p(1) zero_message_plain(2) new] obtain u where u: "send_queue_end (pico_io env) s = Some (Inr (), u)"
    "pico_transport.more u = pico_transport.more s" "on_link (?r\<lparr>sp_zero := sp_zero p @ [spec_buffer_status ?r]\<rparr>) [status_frame ?r] u"
    unfolding ans by (auto simp: send_queue_end_def encode_plain_wire)
  with p show ?thesis
    by (intro exI [of _ u] exI [of _ "?r\<lparr>sp_zero := sp_zero p @ [spec_buffer_status ?r]\<rparr>"] exI [of _ ?r]) (simp add: complete_def owed_def)
qed

lemma await_finished_linked:
  assumes "on_link p [] s" "0 < deadline" "is_float deadline" "complete p" "env_ok env"
  shows "\<exists>u q. await_loop (pico_io env) PLAY_FINISHED deadline deferred s = Some (Inr (frame_of (PICO_UART_PLAY_FINISHED, [])), u)
    \<and> on_link q (deferred @ map frame_of [(PICO_UART_PLAY_METRICS, en_metrics env), (PICO_UART_MODE_CHANGED, [MODE_ARMED, REASON_FINISHED])]) u
    \<and> pico_transport.more u = pico_transport.more s \<and> sp_mode q = MODE_ARMED \<and> sp_room q = 2048 \<and> sp_pc q = owed p"
proof -
  let ?f = "frame_of (PICO_UART_PLAY_FINISHED, [])"
  from receive_finished [OF assms(1,2) _ _ _ assms(5)] assms(4) obtain v q where v: "receive_loop (pico_io env) deadline s = Some (Inr ?f, v)"
    "on_link q (map frame_of [(PICO_UART_PLAY_METRICS, en_metrics env), (PICO_UART_MODE_CHANGED, [MODE_ARMED, REASON_FINISHED])]) v"
    "pico_transport.more v = pico_transport.more s" "sp_mode q = MODE_ARMED" "sp_room q = 2048" "sp_pc q = owed p"
    unfolding complete_def by blast
  have ok: "require_not_error ?f = Inr ?f" by (simp add: require_not_error_def) (simp add: zero_constants pico_constants)
  have "receive_frame (pico_io env) deadline s = Some (Inr ?f, v)"
    using inbox_empty [of s] assms(1,3) v(1) by (simp add: receive_frame_def on_link_def fadd_def is_float_def)
  then have "await_round (pico_io env) deadline s = Some (Inr ?f, v)"
    using assms(2,3) ok by (simp add: await_round_def fsub_def is_float_def and_then_def lift_result_def)
  then have "await_loop (pico_io env) PLAY_FINISHED deadline deferred s = Some (Inr ?f, preserve_frames deferred v)"
    by (subst await_loop.simps) (simp add: returns_def constants_agree)
  moreover have "on_link q (deferred @ map frame_of [(PICO_UART_PLAY_METRICS, en_metrics env), (PICO_UART_MODE_CHANGED, [MODE_ARMED, REASON_FINISHED])])
      (preserve_frames deferred v)" using v(2) preserve_linked [of v] by (simp add: on_link_def) (simp add: preserve_frames_def)
  ultimately show ?thesis using v(3-6)
    by (intro exI [of _ "preserve_frames deferred v"] exI [of _ q]) (simp add: preserve_frames_def)
qed

text \<open>The frames that may be left over: the acknowledgement of the end.\<close>

definition leftover :: "protocol_frame list \<Rightarrow> bool" where
  "leftover fs \<longleftrightarrow> fs = [] \<or> (\<exists>r. fs = [status_frame r] \<and> length (sp_queue r) \<le> 512 \<and> sp_mode r = MODE_PLAYING)"

lemma leftover_simps: "leftover fs \<Longrightarrow> ty \<noteq> BUFFER_STATUS \<Longrightarrow> skipped_ok ty fs" "leftover fs \<Longrightarrow> frame_bytes fs \<le> 200" "leftover []"
  by (auto simp: leftover_def skipped_ok_def)

lemma session_finished_linked:
  assumes "on_link p fs s" "in_time s" "complete p" "env_ok env" "leftover fs"
  shows "\<exists>u q. session_await (pico_io env) PLAY_FINISHED None s = Some (Inr (frame_of (PICO_UART_PLAY_FINISHED, [])), u)
    \<and> on_link q (fs @ map frame_of [(PICO_UART_PLAY_METRICS, en_metrics env), (PICO_UART_MODE_CHANGED, [MODE_ARMED, REASON_FINISHED])]) u
    \<and> pico_transport.more u = pico_transport.more s \<and> sp_mode q = MODE_ARMED \<and> sp_room q = 2048 \<and> sp_pc q = owed p"
proof -
  have d: "0 < pb_deadline s" "is_float (pb_deadline s)" using assms(2) by (simp_all add: in_time_def)
  have "session_await (pico_io env) PLAY_FINISHED None s = await_loop (pico_io env) PLAY_FINISHED (pb_deadline s) [] s"
    using d(2) by (simp add: session_await_def and_then_def remaining_linked [OF assms(2)] await_frame_def fadd_def is_float_def
        split: option.split sum.split)
  moreover have "\<exists>v. await_loop (pico_io env) PLAY_FINISHED (pb_deadline s) [] s = await_loop (pico_io env) PLAY_FINISHED (pb_deadline s) fs v
      \<and> on_link p [] v \<and> pico_transport.more v = pico_transport.more s"
  proof (cases fs)
    case Nil
    with assms(1) show ?thesis by blast
  next
    case (Cons g gs)
    with assms(5) have g: "fs = [g]" by (auto simp: leftover_def)
    have "skipped_ok PLAY_FINISHED [g]" using leftover_simps(1) [OF assms(5), of PLAY_FINISHED] g by (simp add: zero_constants)
    with await_skip_linked [OF d _ this, of s "[]" env "[]"] assms(1) g show ?thesis by (auto simp: on_link_def same_pico_def)
  qed
  ultimately show ?thesis using await_finished_linked [OF _ d assms(3,4), of _ fs] by metis
qed

section \<open>The whole run\<close>

lemma collect_leftover:
  assumes "on_link p fs s" "leftover fs"
  shows "\<exists>u gs. collect_diagnostics s = Some (Inr (), u) \<and> on_link p gs u \<and> leftover gs \<and> pico_transport.more u = pico_transport.more s"
proof (cases "pt_pending s")
  case Nil
  with assms have "collect_diagnostics s = Some (Inr (), s\<lparr>pt_pending := []\<rparr>) \<and> on_link p fs (s\<lparr>pt_pending := []\<rparr>)"
    by (simp add: collect_diagnostics_def drain_pending_frames_def returns_def on_link_def inbox_def)
  with assms(2) show ?thesis by (intro exI [of _ "s\<lparr>pt_pending := []\<rparr>"] exI [of _ fs]) simp
next
  case (Cons g gs)
  with assms obtain r where r: "pt_pending s = [status_frame r]" "length (sp_queue r) \<le> 512" "sp_mode r = MODE_PLAYING" "fs = [status_frame r]"
    by (auto simp: on_link_def inbox_def leftover_def)
  have "validate_buffer_status (status_frame r) = Inr (MODE_PLAYING, int (length (sp_queue r)), 512 - int (length (sp_queue r)))"
    using validate_status_frame [OF r(2)] r(3) mode_valid by simp
  then have "collect_frame (status_frame r) s' = Some (Inr (), s')" for s' :: "linked playback_session"
    by (simp add: collect_frame_def and_then_def lift_result_def returns_def) (simp add: zero_constants)
  then have "collect_diagnostics s = Some (Inr (), s\<lparr>pt_pending := []\<rparr>)"
    by (simp add: collect_diagnostics_def drain_pending_frames_def r(1) and_then_def returns_def)
  moreover have "on_link p [] (s\<lparr>pt_pending := []\<rparr>)" using assms(1) r(1,4) by (auto simp: on_link_def inbox_def)
  ultimately show ?thesis using leftover_simps(3) by (intro exI [of _ "s\<lparr>pt_pending := []\<rparr>"] exI [of _ "[]"]) simp
qed

text \<open>Figures that the Zero can read: the byte of the truncation flag is 0 or 1, as the Pico writes it.\<close>

definition metrics_frame :: "environment \<Rightarrow> protocol_frame" where
  "metrics_frame env = frame_of (PICO_UART_PLAY_METRICS, en_metrics env)"

definition metrics_ok :: "environment \<Rightarrow> bool" where
  "metrics_ok env \<longleftrightarrow> env_ok env \<and> en_metrics env ! 32 \<in> {0, 1}"

lemma metrics_frame_simps:
  "zf_type (metrics_frame env) = PLAY_METRICS" "require_not_error (metrics_frame env) = Inr (metrics_frame env)"
  "metrics_ok env \<Longrightarrow> \<exists>m. validate_play_metrics (metrics_frame env) = Inr m"
proof -
  show "zf_type (metrics_frame env) = PLAY_METRICS" by (simp add: metrics_frame_def constants_agree)
  then show "require_not_error (metrics_frame env) = Inr (metrics_frame env)" by (simp add: require_not_error_def) (simp add: zero_constants)
  show "\<exists>m. validate_play_metrics (metrics_frame env) = Inr m" if "metrics_ok env"
    using that by (auto simp: validate_play_metrics_def metrics_frame_def metrics_ok_def env_ok_def constants_agree Let_def)
qed

lemma finished_mode_frame:
  defines "f \<equiv> frame_of (PICO_UART_MODE_CHANGED, [MODE_ARMED, REASON_FINISHED])"
  shows "zf_type f = MODE_CHANGED" "require_not_error f = Inr f" "validate_mode_changed f = Inr (MODE_ARMED, REASON_FINISHED)"
  unfolding f_def
  by (simp_all add: require_not_error_def validate_mode_changed_def constants_agree Let_def) (simp_all add: zero_constants pico_constants)

lemma await_outcome_linked:
  assumes "on_link p fs s" "in_time s" "complete p" "metrics_ok env" "leftover fs"
  shows "\<exists>u q gs m. await_outcome (pico_io env) PLAY_FINISHED REASON_FINISHED ''finished'' None s
      = Some (Inr \<lparr>pr_outcome = ''finished'', pr_playback_start_us = pb_playback_start_us s, pr_metrics = m, pr_underruns = pb_underruns s\<rparr>, u)
    \<and> validate_play_metrics (metrics_frame env) = Inr m \<and> on_link q gs u \<and> leftover gs \<and> pico_transport.more u = pico_transport.more s
    \<and> sp_mode q = MODE_ARMED \<and> sp_room q = 2048 \<and> sp_pc q = owed p"
proof -
  have env: "env_ok env" using assms(4) by (simp add: metrics_ok_def)
  let ?mc = "frame_of (PICO_UART_MODE_CHANGED, [MODE_ARMED, REASON_FINISHED])"
  from session_finished_linked [OF assms(1-3) env assms(5)] obtain a q where
    a: "session_await (pico_io env) PLAY_FINISHED None s = Some (Inr (frame_of (PICO_UART_PLAY_FINISHED, [])), a)"
      "on_link q (fs @ metrics_frame env # [?mc]) a" "pico_transport.more a = pico_transport.more s"
      "sp_mode q = MODE_ARMED" "sp_room q = 2048" "sp_pc q = owed p" by (auto simp: metrics_frame_def)
  from metrics_frame_simps(3) [OF assms(4)] obtain m where m: "validate_play_metrics (metrics_frame env) = Inr m" by blast
  have skip: "skipped_ok PLAY_METRICS fs" "skipped_ok MODE_CHANGED fs"
    using leftover_simps(1) [OF assms(5)] by (simp_all add: zero_constants)
  have "in_time a" using more_plan [OF a(3)] plan_in_time assms(2) by blast
  from session_await_linked [OF this a(2) skip(1), of env] metrics_frame_simps(1,2) [of env] obtain b where
    b: "session_await (pico_io env) PLAY_METRICS None a = Some (Inr (metrics_frame env), b)" "on_link q (fs @ ?mc # []) b"
      "pico_transport.more b = pico_transport.more a" by auto
  have "in_time b" using more_plan [OF b(3)] plan_in_time \<open>in_time a\<close> by blast
  from session_await_linked [OF this b(2) skip(2), of env] finished_mode_frame obtain c where
    c: "session_await (pico_io env) MODE_CHANGED None b = Some (Inr ?mc, c)" "on_link q fs c" "pico_transport.more c = pico_transport.more b"
    by auto
  from collect_leftover [OF c(2) assms(5)] obtain u gs where u: "collect_diagnostics c = Some (Inr (), u)" "on_link q gs u" "leftover gs"
    "pico_transport.more u = pico_transport.more c" by blast
  have more: "pico_transport.more u = pico_transport.more s" using a(3) b(3) c(3) u(4) by simp
  then have "pb_playback_start_us u = pb_playback_start_us s \<and> pb_underruns u = pb_underruns s" by (cases u; cases s) simp
  with a(1) b(1) c(1) u(1) m finished_mode_frame(3) have
    "await_outcome (pico_io env) PLAY_FINISHED REASON_FINISHED ''finished'' None s
      = Some (Inr \<lparr>pr_outcome = ''finished'', pr_playback_start_us = pb_playback_start_us s, pr_metrics = m, pr_underruns = pb_underruns s\<rparr>, u)"
    by (simp add: await_outcome_def and_then_def lift_result_def returns_def)
  with m u(2,3) more a(4-6) show ?thesis by (intro exI [of _ u] exI [of _ q] exI [of _ gs] exI [of _ m]) simp
qed

lemma feed_rest_linked:
  assumes "if pb_next_event s < length (pb_events s) then running p s else complete p \<and> on_link p [] s \<and> in_time s"
  shows "\<exists>u q fs. feed_rest (pico_io env) s = Some (Inr (), u) \<and> on_link q fs u \<and> leftover fs \<and> complete q \<and> in_time u
    \<and> pb_mode_timeout u = pb_mode_timeout s
    \<and> owed q = owed p @ map (\<lambda>e. report_bytes (snd (queued e))) (drop (pb_next_event s) (pb_events s))"
proof (cases "pb_next_event s < length (pb_events s)")
  case False
  with assms leftover_simps(3) show ?thesis by (intro exI [of _ s] exI [of _ p] exI [of _ "[]"]) (simp add: feed_rest_def returns_def)
next
  case True
  with assms have run: "running p s" by simp
  from run_through [OF run, of "length (pb_events s)" env] True obtain v r where
    v: "send_through (pico_io env) (length (pb_events s)) MODE_PLAYING s = Some (Inr (), v)" "running r v"
      "plan (v\<lparr>pb_next_event := pb_next_event s\<rparr>) = plan s"
      "owed r = owed p @ map (\<lambda>e. report_bytes (snd (queued e))) (drop (pb_next_event s) (pb_events s))"
    by auto
  from end_running_linked [OF v(2), of env] obtain u q t where
    u: "send_queue_end (pico_io env) v = Some (Inr (), u)" "on_link q [status_frame t] u" "complete q" "owed q = owed r"
      "length (sp_queue t) \<le> 512" "sp_mode t = MODE_PLAYING" "pico_transport.more u = pico_transport.more v" by blast
  have "leftover [status_frame t]" using u(5,6) by (auto simp: leftover_def)
  moreover have "in_time v" using v(2) by (simp add: running_def feeding_def)
  then have "in_time u" using more_plan [OF u(7)] plan_in_time by blast
  moreover have "pb_mode_timeout u = pb_mode_timeout s" using more_plan [OF u(7)] v(3) by (simp add: plan_def)
  ultimately show ?thesis using True v(1,4) u(1-4)
    by (intro exI [of _ u] exI [of _ q] exI [of _ "[status_frame t]"]) (simp add: feed_rest_def and_then_def)
qed

lemma pass_answer:
  fixes env :: environment
  assumes "sp_room p = 2048" "sp_mode p = MODE_ARMED"
  defines "q \<equiv> pico_answer env (mk_frame MODE_SET [MODE_PASS]) p"
  shows "sp_zero q = sp_zero p @ [(PICO_UART_MODE_CHANGED, [MODE_PASS, REASON_OK])]" "sp_mode q = MODE_PASS" "sp_pc q = sp_pc p"
  using assms(1,2) unfolding q_def
  by (simp_all add: pico_answer_def spec_command_def constants_agree spec_op_def spec_turn_def spec_say_def spec_fits_def Let_def)
    (simp_all add: pico_constants)

lemma session_finish_linked:
  assumes "if pb_next_event s < length (pb_events s) then running p s else complete p \<and> on_link p [] s \<and> in_time s"
    "metrics_ok env" "pb_started s" "\<not> pb_finished s" "0 < pb_mode_timeout s" "is_float (pb_mode_timeout s)"
  shows "\<exists>u q m r. session_finish (pico_io env) True s = Some (Inr r, u) \<and> pr_outcome r = ''finished'' \<and> pr_metrics r = m
    \<and> validate_play_metrics (metrics_frame env) = Inr m \<and> lk_pico (pt_stream u) = q \<and> sp_mode q = MODE_PASS \<and> pb_finished u
    \<and> sp_pc q = owed p @ map (\<lambda>e. report_bytes (snd (queued e))) (drop (pb_next_event s) (pb_events s))"
proof -
  from feed_rest_linked [OF assms(1), of env] obtain a q fs where a: "feed_rest (pico_io env) s = Some (Inr (), a)" "on_link q fs a"
    "leftover fs" "complete q" "in_time a" "pb_mode_timeout a = pb_mode_timeout s"
    "owed q = owed p @ map (\<lambda>e. report_bytes (snd (queued e))) (drop (pb_next_event s) (pb_events s))" by blast
  from await_outcome_linked [OF a(2,5,4) assms(2) a(3)] obtain b t gs m r where
    b: "await_outcome (pico_io env) PLAY_FINISHED REASON_FINISHED ''finished'' None a = Some (Inr r, b)" "pr_outcome r = ''finished''"
      "pr_metrics r = m" "validate_play_metrics (metrics_frame env) = Inr m" "on_link t gs b" "leftover gs"
      "pico_transport.more b = pico_transport.more a" "sp_mode t = MODE_ARMED" "sp_room t = 2048" "sp_pc t = owed q"
    by (metis playback_result.select_convs(1,3))
  let ?b = "b\<lparr>pb_playing := False, pb_armed := True\<rparr>"
  note pass = pass_answer [OF b(9,8), of env]
  have on: "on_link t gs ?b" using b(5) by (simp add: on_link_def inbox_def)
  have timeout: "pb_mode_timeout ?b = pb_mode_timeout s" using more_plan [OF b(7)] a(6) by (simp add: plan_def)
  have "MODE_PASS \<in> {0, 1, 2}" "skipped_ok MODE_CHANGED gs" using leftover_simps(1) [OF b(6)] by (simp_all add: zero_constants)
  from set_mode_linked [OF on _ _ this leftover_simps(2) [OF b(6)] pass(1)] timeout assms(5,6) obtain c where
    c: "set_mode (pico_io env) MODE_PASS (pb_mode_timeout ?b) 1 ?b = Some (Inr (), c)"
      "on_link (pico_answer env (mk_frame MODE_SET [MODE_PASS]) t) gs c" by metis
  let ?u = "c\<lparr>pb_armed := False, pb_finished := True\<rparr>"
  have "session_finish (pico_io env) True s = Some (Inr r, ?u)"
    using assms(3,4) a(1) b(1) c(1) by (simp add: session_finish_def and_then_def return_to_pass_def returns_def)
  with b(2-4,10) c(2) pass(2,3) a(7) show ?thesis
    by (intro exI [of _ ?u] exI [of _ "pico_answer env (mk_frame MODE_SET [MODE_PASS]) t"] exI [of _ m] exI [of _ r])
      (simp add: on_link_def)
qed

lemma queued_report: "zero_event_ok e \<Longrightarrow> report_bytes (snd (queued e)) = snd e"
  by (simp add: queued_def zero_event_ok_def report_bytes_inverse)

text \<open>From PASS to PASS: all reports of the recording went to the PC, in order, after the release that the start demands.\<close>

lemma session_play_linked:
  assumes "on_link p [] s" "sp_room p = 2048" "sp_mode p = MODE_PASS" "0 < pb_mode_timeout s" "is_float (pb_mode_timeout s)"
    "pb_playback_timeout s = Some timeout" "0 < timeout" "is_float timeout" "list_all zero_event_ok (pb_events s)" "pb_events s \<noteq> []"
    "pb_next_event s = 0" "\<not> pb_started s" "\<not> pb_finished s" "prebuffer_count (pb_prebuffer_us s) (pb_events s) \<le> 512" "metrics_ok env"
  shows "\<exists>u r. session_play (pico_io env) True s = Some (Inr r, u) \<and> pr_outcome r = ''finished''
    \<and> validate_play_metrics (metrics_frame env) = Inr (pr_metrics r) \<and> sp_mode (lk_pico (pt_stream u)) = MODE_PASS
    \<and> sp_pc (lk_pico (pt_stream u)) = sp_pc p @ release_bytes # map snd (pb_events s)"
proof -
  define n where "n = prebuffer_count (pb_prebuffer_us s) (pb_events s)"
  have n: "n \<le> length (pb_events s)" unfolding n_def by (rule prebuffer_count_le)
  from session_start_linked [OF assms(1-14), of env] obtain v q where
    v: "session_start (pico_io env) s = Some (Inr (uint (en_time env)), v)" "feeding MODE_PLAYING [] q v"
      "sp_queue q = map queued (take n (pb_events s))" "sp_ended q = (n = length (pb_events s))" "sp_pc q = sp_pc p" "sp_release q"
      "\<not> sp_starved q" "pb_started v" "\<not> pb_finished v" "pb_next_event v = n" "pb_events v = pb_events s"
      "pb_free_capacity v = 512 - int n" "pb_mode_timeout v = pb_mode_timeout s" unfolding n_def by blast
  have len: "length (sp_queue q) = n" using v(3) n by simp
  have "if pb_next_event v < length (pb_events v) then running q v else complete q \<and> on_link q [] v \<and> in_time v"
    using v(2,4,7,10-12) len n by (auto simp: running_def complete_def feeding_def)
  from session_finish_linked [OF this assms(15) v(8,9)] v(13) assms(4,5) obtain u r where
    u: "session_finish (pico_io env) True v = Some (Inr r, u)" "pr_outcome r = ''finished''" "validate_play_metrics (metrics_frame env) = Inr (pr_metrics r)"
      "sp_mode (lk_pico (pt_stream u)) = MODE_PASS"
      "sp_pc (lk_pico (pt_stream u)) = owed q @ map (\<lambda>e. report_bytes (snd (queued e))) (drop n (pb_events s))"
    using v(10,11) by auto
  have reports: "map (\<lambda>e. report_bytes (snd (queued e))) (pb_events s) = map snd (pb_events s)"
    using assms(9) queued_report by (simp add: list_all_iff)
  have "owed q @ map (\<lambda>e. report_bytes (snd (queued e))) (drop n (pb_events s))
      = sp_pc p @ release_bytes # map (\<lambda>e. report_bytes (snd (queued e))) (take n (pb_events s) @ drop n (pb_events s))"
    using v(3,5,6) by (simp only: owed_def map_append) (simp add: comp_def)
  with u v(1) reports show ?thesis by (intro exI [of _ u] exI [of _ r]) (simp add: session_play_def and_then_def)
qed

end
