(* ===== verification/Zero_Sessions.thy ===== *)
theory Zero_Sessions
  imports Zero_Overrun Zero_Run
begin

text \<open>Sessions from their constructors on: what a whole recording holds, and what a whole run of it sends and plays.\<close>

section \<open>A recording session\<close>

text \<open>\<open>recorded\<close>: the recording of times and reports; \<open>opened_link\<close>: nothing arrived yet.\<close>

definition recorded :: "string \<Rightarrow> (int \<times> int list) list \<Rightarrow> recording" where
  "recorded name xs =
     \<lparr>rc_name = name, rc_duration_us = recorded_duration xs, rc_events = recorded_events xs, rc_version = FORMAT_VERSION\<rparr>"

lemma recorded_fields [simp]:
  "rc_name (recorded name xs) = name" "rc_duration_us (recorded name xs) = recorded_duration xs"
  "rc_events (recorded name xs) = recorded_events xs"
  by (simp_all add: recorded_def)

lemma session_init:
  assumes "recording_session_init (pico_transport_init z) store name mode_timeout = Inr a"
  shows "rs_name a = name" "validate_name name = Inr name" "rs_builder a = builder_of name []" "rs_store a = store"
    "pt_pending a = []" "pt_stream a = z" "pt_decoder a = incremental_decoder_init"
  using assms validate_name_same
  by (auto simp: recording_session_init_def recording_builder_init_def builder_of_def recorded_events_def pico_transport_init_def
      pico_transport.defs recording_session.defs split: sum.splits)

lemma opened_link:
  assumes "pt_decoder t = incremental_decoder_init" "inp (pt_stream t) = []"
  shows "link_inv inp t" "frames_in inp t = []"
  using assms by (simp_all add: link_inv_def frames_in_def decode_loop_Nil incremental_decoder_init_def)

text \<open>A confirmed mode change changes only the transport.\<close>

lemma mode_confirmed_frames:
  assumes "mode_confirmed inp m t u" "frames_in inp t = pt_pending t"
  shows "\<exists>skipped rest. frames_in inp u = skipped @ [\<lparr>zf_type = MODE_CHANGED, zf_payload = [m, REASON_OK]\<rparr>] @ rest
    \<and> pt_pending u = skipped @ rest \<and> link_inv inp u"
proof -
  from assms(1) obtain v skipped new where v: "u = preserve_frames skipped v" "link_inv inp v" "frames_in inp v = frames_in inp t @ new"
    "pt_pending t @ new = (skipped @ [\<lparr>zf_type = MODE_CHANGED, zf_payload = [m, REASON_OK]\<rparr>]) @ pt_pending v"
    unfolding mode_confirmed_def took_def by blast
  then show ?thesis using assms(2)
    by (intro exI [of _ skipped] exI [of _ "pt_pending v"]) (simp add: preserve_frames_def frames_in_def link_inv_def)
qed

lemma captures_simps [simp]:
  "captures_in [] = []" "captures_in (fs @ gs) = captures_in fs @ captures_in gs"
  "captures_in (\<lparr>zf_type = MODE_CHANGED, zf_payload = body\<rparr> # fs) = captures_in fs"
  by (simp_all add: captures_in_def zero_constants)

lemma recording_from_start:
  assumes "io_ok io inp out" "pico_peer inp" "inp z = []"
    "recording_session_init (pico_transport_init z) store name mode_timeout = Inr a" "recording_session_start io a = Some (Inr (), b)"
    "run_recording io interval n b = Some (Inl r, c)"
  shows "captures_ok (captures_in (frames_in inp c))" "recording_ok r" "r = recorded name (captures_in (frames_in inp c))"
    "store_save r store = Inr (rs_store c)" "pass_confirmed \<in> set (frames_in inp c)"
proof -
  note a = session_init [OF assms(4)]
  have fresh: "link_inv inp a" "frames_in inp a = pt_pending a" using opened_link [of a inp] a assms(3) by simp_all
  from assms(5) obtain v where m: "set_mode io MODE_RECORD (rs_mode_timeout a) 1 a = Some (Inr (), v)" "b = v\<lparr>rs_started := True\<rparr>"
    by (auto simp: recording_session_start_def and_then_def raises_def returns_def split: sum.splits if_splits option.splits)
  note law = set_mode_law [OF assms(1,2) fresh(1) m(1)]
  from law(2) obtain bytes where "wrote out a bytes v" by blast
  then have kept: "rs_builder b = rs_builder a" "rs_name b = rs_name a" "rs_store b = rs_store a"
    by (cases a; cases v; simp add: wrote_def m(2))+
  from mode_confirmed_frames [OF law(1) fresh(2)] obtain skipped rest where sk:
    "frames_in inp b = skipped @ [\<lparr>zf_type = MODE_CHANGED, zf_payload = [MODE_RECORD, REASON_OK]\<rparr>] @ rest"
    "pt_pending b = skipped @ rest" "link_inv inp b"
    by (auto simp: m(2) frames_in_def link_inv_def)
  have name: "rs_name b = name" using kept a by simp
  have "rs_builder b = builder_of (rs_name b) []" "validate_name (rs_name b) = Inr (rs_name b)" using kept a by simp_all
  from run_recording_law [OF assms(1,2) sk(3) this assms(6)] obtain before after where r:
    "took inp b (before @ [pass_confirmed] @ after) c" "pt_pending c = []" "captures_ok (captures_in (before @ after))" "recording_ok r"
    "r = recorded (rs_name b) (captures_in (before @ after))" "store_save r (rs_store b) = Inr (rs_store c)"
    unfolding recorded_def by blast
  from r(1,2) obtain new where new: "frames_in inp c = frames_in inp b @ new" "pt_pending b @ new = before @ [pass_confirmed] @ after"
    unfolding took_def by auto
  from arg_cong [OF new(2), of captures_in] have caps: "captures_in (frames_in inp c) = captures_in (before @ after)"
    by (simp add: new(1) sk(1,2) pass_confirmed_def)
  from arg_cong [OF new(2), of set] show "pass_confirmed \<in> set (frames_in inp c)" by (auto simp: new(1) sk(1,2))
  show "captures_ok (captures_in (frames_in inp c))" "recording_ok r" "r = recorded name (captures_in (frames_in inp c))"
    "store_save r store = Inr (rs_store c)"
    using r(3-6) kept(3) name a(4) caps by simp_all
qed

text \<open>The frames that arrived are messages of the Pico.\<close>

lemma frames_are_messages:
  assumes "pico_peer inp"
  shows "\<exists>ms. list_all pico_message ms \<and> frames_in inp t = map frame_of ms"
proof -
  from assms obtain ms ys where ms: "list_all pico_message ms" "wire_stream ms = inp (pt_stream t) @ ys" unfolding pico_peer_def by blast
  from decode_prefix_stream [OF this] obtain n rest where
    "decode_loop MAX_PAYLOAD PICO_TO_ZERO_TYPES (inp (pt_stream t)) = (rest, [], map frame_of (take n ms))" by blast
  then have "frames_in inp t = map frame_of (take n ms)" by (simp add: frames_in_def)
  moreover have "list_all pico_message (take n ms)" using ms(1) by (auto simp: list_all_iff dest: in_set_takeD)
  ultimately show ?thesis by blast
qed

section \<open>A playback session\<close>

lemma playback_init:
  assumes "playback_session_init (pico_transport_init z) r speed (Some prebuffer) (Some mode_timeout) playback_timeout = Inr s"
  shows "pt_pending s = []" "pt_stream s = z" "pt_decoder s = incremental_decoder_init" "pt_read_size s = 256"
    "pb_mode_timeout s = mode_timeout" "0 < mode_timeout" "\<not> pb_started s" "\<not> pb_finished s"
    "pb_playback_timeout s = (case playback_timeout of None \<Rightarrow> None | Some v \<Rightarrow> v)"
    "playback_timeout = Some v \<Longrightarrow> v \<noteq> None \<and> 0 < the v"
    "expand_offsets (rc_events r) speed = Inr (pb_events s)"
  using assms
  by (auto simp: playback_session_init_def pico_transport_init_def pico_transport.defs playback_session.defs split: sum.splits if_splits)

lemma expanded_reports: "expand_events v c evs = Inr xs \<Longrightarrow> map snd xs = map (\<lambda>e. map of_int (re_report e)) evs"
  by (induction evs arbitrary: c xs) (auto simp: Let_def split: if_splits option.splits sum.splits)

lemma replayed_reports: "expand_offsets evs speed = Inr xs \<Longrightarrow> map snd xs = map (\<lambda>e. map of_int (re_report e)) evs"
  using expanded_reports by (auto simp: expand_offsets_def split: option.splits if_splits)

text \<open>What a run that ends well wrote, as the Pico reads it.\<close>

lemma run_commands:
  assumes "io_ok io inp out" "playback_session_init t r speed prebuffer mode_timeout playback_timeout = Inr s" "recording_ok r"
    "session_play io True s = Some (Inr result, u)"
  shows "\<exists>bytes ms. out (pt_stream u) = out (pt_stream s) @ bytes \<and> bytes = wire_stream ms \<and> list_all zero_message ms
    \<and> \<not> rejects (snd (parse [] bytes)) \<and> accepted_frames (snd (parse [] bytes)) = map (\<lambda>m. mk_frame (fst m) (snd m)) ms
    \<and> queued_events bytes = map queued (pb_events s)"
proof -
  note init = init_events [OF assms(2,3)]
  define n where "n = prebuffer_count (pb_prebuffer_us s) (pb_events s)"
  from byte_stream.session_play_fed [OF byte_stream.intro [OF assms(1)] assms(4) init(2)] obtain i j where
    w: "out (pt_stream u) = out (pt_stream s) @ wire_stream (load_messages i n (pb_events s) @ feed_messages j n (pb_events s))"
    unfolding n_def by blast
  note ok = run_messages_ok [OF init(1), of i n j]
  note parsed = parse_zero_messages [OF ok]
  show ?thesis using w ok parsed(2,3) queued_run [OF init(1), of i n j] by (metis (no_types, lifting) map_eq_conv queued_def)
qed

text \<open>A run on the link, from the constructor on.\<close>

lemma run_from_init:
  assumes "playback_session_init (pico_transport_init z) r speed (Some prebuffer) (Some mode_timeout) (Some (Some timeout)) = Inr s"
    "recording_ok r" "rc_events r \<noteq> []" "lk_wire z = []" "sp_room (lk_pico z) = 2048" "sp_mode (lk_pico z) = MODE_PASS"
    "is_float mode_timeout" "is_float timeout" "prebuffer_count (pb_prebuffer_us s) (pb_events s) \<le> 512" "metrics_ok env"
  shows "\<exists>u result. session_play (pico_io env) True s = Some (Inr result, u) \<and> pr_outcome result = ''finished''
    \<and> validate_play_metrics (metrics_frame env) = Inr (pr_metrics result) \<and> sp_mode (lk_pico (pt_stream u)) = MODE_PASS
    \<and> sp_pc (lk_pico (pt_stream u)) = sp_pc (lk_pico z) @ release_bytes # map (\<lambda>e. map of_int (re_report e)) (rc_events r)"
proof -
  note init = playback_init [OF assms(1)] init_events [OF assms(1,2)]
  note reports = replayed_reports [OF init(11)]
  have events: "pb_events s \<noteq> []" using reports assms(3) by auto
  have timeout: "pb_playback_timeout s = Some timeout" "0 < timeout" using init(9) init(10) [of "Some timeout"] by simp_all
  have "inbox s []" using init(1-4) assms(4) by (simp add: inbox_def exI [of _ "[]"])
  then have on: "on_link (lk_pico z) [] s" using init(2) by (simp add: on_link_def)
  have mode: "0 < pb_mode_timeout s" "is_float (pb_mode_timeout s)" using init(5,6) assms(7) by simp_all
  from session_play_linked [OF on assms(5,6) mode timeout assms(8) init(12) events init(13,7,8) assms(9,10)]
  show ?thesis unfolding reports .
qed

text \<open>
  An underrun that the Pico reports while the feeder still has credit stays pending, since acknowledgements are
  all that it waits for; later it is taken for credit that the Pico does not have.
\<close>

lemma link_underrun:
  assumes "env_ok env" "feeding MODE_PLAYING [] p s" "sp_queue p = []" "\<not> sp_ended p" "\<not> sp_starved p" "\<not> sp_release p"
  defines "q \<equiv> pico_idle env p" and "t \<equiv> s\<lparr>pt_stream := link_idle env (pt_stream s)\<rparr>"
  shows "spec_step p Playback (spec_empty env p)" "q = (spec_empty env p)\<lparr>sp_room := 2048\<rparr>" "sp_queue q = []"
    "feeding MODE_PLAYING [underrun_frame (en_elapsed env)] q t"
proof -
  have p: "sp_mode p = PICO_UART_MODE_PLAYING" "sp_room p = 2048" "on_link p [] s" using assms(2) by (simp_all add: feeding_def constants_agree)
  show "spec_step p Playback (spec_empty env p)" using play_empty [OF assms(1,3) p(1)] by (intro spec_playback) blast
  have free: "spec_free p = 512" using assms(3) by (simp add: spec_free_def)
  define m where "m = (PICO_UART_PLAY_UNDERRUN, write_u64_le (en_elapsed env) @ [lo8 512, hi8 512])"
  have "spec_empty env p = p\<lparr>sp_starved := True, sp_zero := sp_zero p @ [m], sp_room := 2048 - 17\<rparr>"
    using assms(4,5) p(2) free by (simp add: spec_empty_def spec_starve_def spec_flow_def spec_fits_def spec_say_def m_def)
  moreover show q: "q = (spec_empty env p)\<lparr>sp_room := 2048\<rparr>"
    using assms(3,6) p(1) by (simp add: q_def pico_idle_def pico_plays_def constants_agree)
  ultimately have told: "q = p\<lparr>sp_starved := True, sp_zero := sp_zero p @ [m]\<rparr>" using p(2) by simp
  then show "sp_queue q = []" using assms(3) by simp
  have m: "pico_message m" "length (wire_stream [m]) \<le> 256" "frame_of m = underrun_frame (en_elapsed env)"
    by (simp_all add: m_def frame_bytes_stream frame_of_def underrun_frame_def)
  have s: "lk_pico (pt_stream s) = p" "inbox s []" using p(3) by (simp_all add: on_link_def)
  note e = inbox_empty [OF s(2)]
  have "lk_pico (pt_stream t) = q" "lk_wire (pt_stream t) = wire_stream [m]"
    using e s(1) told by (simp_all add: t_def link_idle_def q_def [symmetric] said_since_def)
  moreover have "pt_pending t = []" "pt_decoder t = incremental_decoder_init" "pt_read_size t = 256" using e by (simp_all add: t_def)
  ultimately have "on_link q [underrun_frame (en_elapsed env)] t"
    using m unfolding on_link_def inbox_def by (intro conjI exI [of _ "[m]"]) simp_all
  moreover have "in_time t = in_time s" "pb_events t = pb_events s" by (simp_all add: t_def in_time_def)
  ultimately show "feeding MODE_PLAYING [underrun_frame (en_elapsed env)] q t"
    using assms(2) told underrun_frame_simps(4,5) by (simp add: feeding_def)
qed

end
