(* ===== verification/Zero_Termination.thy ===== *)
theory Zero_Termination
  imports Zero_Service Zero_Feeding
begin

text \<open>
  The waits of the Zero come to an end, whatever arrives or does not arrive: each of them has a deadline, and looks at
  the clock in every round. So every call of a session returns, with a value or an exception.
\<close>

section \<open>Time\<close>

text \<open>
  \<open>clk\<close> is the time in a world; the clock never goes back, as Python documents of \<open>time.monotonic\<close>, and from one
  reading to the next at least \<open>tick\<close> goes by.
\<close>

definition clock_advances :: "'z zero_io \<Rightarrow> ('z \<Rightarrow> rat) \<Rightarrow> rat \<Rightarrow> bool" where
  "clock_advances io clk tick \<longleftrightarrow> 0 < tick
     \<and> (\<forall>z. clk z + tick \<le> fst (io_clock io z) \<and> fst (io_clock io z) \<le> clk (snd (io_clock io z)))
     \<and> (\<forall>n z. clk z \<le> clk (snd (io_read io n z))) \<and> (\<forall>data z. clk z \<le> clk (snd (io_write io data z)))
     \<and> (\<forall>z. clk z \<le> clk (snd (io_cancelled io z)))"

lemma round_nonpos: "x \<le> 0 \<Longrightarrow> round_half_even x \<le> 0"
proof -
  assume "x \<le> 0"
  show ?thesis
  proof (cases "x = 0")
    case False
    with \<open>x \<le> 0\<close> have "\<lfloor>x\<rfloor> \<le> -1" by linarith
    then show ?thesis by (auto simp: round_half_even_def Let_def)
  qed (simp add: round_half_even_def)
qed

lemma to_double_nonpos: "x \<le> 0 \<Longrightarrow> to_double x \<le> 0"
proof -
  assume "x \<le> 0"
  have "2 powi e * of_int (round_half_even (x / 2 powi e)) \<le> (0::rat)" for e
    using \<open>x \<le> 0\<close> by (intro mult_nonneg_nonpos) (simp_all add: round_nonpos divide_nonpos_pos)
  then show ?thesis by (simp add: to_double_def Let_def)
qed

text \<open>Later, and the same session around the transport.\<close>

definition goes_on :: "('z \<Rightarrow> rat) \<Rightarrow> ('z, 'm) pico_transport_scheme \<Rightarrow> ('z, 'm) pico_transport_scheme \<Rightarrow> bool" where
  "goes_on clk t u \<longleftrightarrow> clk (pt_stream t) \<le> clk (pt_stream u) \<and> pico_transport.more u = pico_transport.more t"

lemma later_refl: "goes_on clk t t" by (simp add: goes_on_def)

lemma later_trans: "goes_on clk t u \<Longrightarrow> goes_on clk u v \<Longrightarrow> goes_on clk t v" by (simp add: goes_on_def)

lemma later_preserve [simp]: "goes_on clk t (preserve_frames fs u) \<longleftrightarrow> goes_on clk t u"
  by (simp add: goes_on_def preserve_frames_def)

lemma now_advances:
  assumes "clock_advances io clk tick"
  shows "clk (pt_stream t) + tick \<le> fst (now io t)" "fst (now io t) \<le> clk (pt_stream (snd (now io t)))" "goes_on clk t (snd (now io t))"
proof -
  have c: "0 < tick" "clk z + tick \<le> fst (io_clock io z)" "fst (io_clock io z) \<le> clk (snd (io_clock io z))" for z
    using assms by (simp_all add: clock_advances_def)
  show "clk (pt_stream t) + tick \<le> fst (now io t)" "fst (now io t) \<le> clk (pt_stream (snd (now io t)))"
    using c(2,3) by (simp_all add: now_def split_beta)
  show "goes_on clk t (snd (now io t))" using c(1) c(2,3) [of "pt_stream t"] by (simp add: goes_on_def now_def split_beta)
qed

lemma round_later: "clock_advances io clk tick \<Longrightarrow> goes_on clk t (snd (receive_round io t))"
proof -
  assume "clock_advances io clk tick"
  then have "clk z \<le> clk (snd (io_cancelled io z))" "clk z \<le> clk (snd (io_read io n z))" for z n by (simp_all add: clock_advances_def)
  then show ?thesis
    by (auto simp: goes_on_def receive_round_def Let_def split_beta intro: order_trans split: option.split list.split)
qed

section \<open>Waits\<close>

text \<open>A call that ends, in a state that is related to the first.\<close>

definition ends :: "('s \<Rightarrow> 's \<Rightarrow> bool) \<Rightarrow> ('a, 's) action \<Rightarrow> 's \<Rightarrow> bool" where
  "ends R m s \<longleftrightarrow> (\<exists>r u. m s = Some (r, u) \<and> R s u)"

lemma ends_simps:
  "R s s \<Longrightarrow> ends R (returns x) s" "R s s \<Longrightarrow> ends R (raises e) s" "R s s \<Longrightarrow> ends R (lift_result r) s"
  by (simp_all add: ends_def returns_def raises_def lift_result_def)

lemma ends_and_then:
  assumes "ends R m s" "\<And>x u. m s = Some (Inr x, u) \<Longrightarrow> R s u \<Longrightarrow> ends R (f x) u" "\<And>u v. R s u \<Longrightarrow> R u v \<Longrightarrow> R s v"
  shows "ends R (and_then m f) s"
proof -
  from assms(1) obtain r u where r: "m s = Some (r, u)" "R s u" unfolding ends_def by blast
  show ?thesis
  proof (cases r)
    case (Inr x)
    with assms(2) r obtain q v where "f x u = Some (q, v)" "R u v" unfolding ends_def by blast
    with r Inr assms(3) show ?thesis by (auto simp: ends_def and_then_def)
  qed (use r in \<open>simp add: ends_def and_then_def\<close>)
qed

lemma ends_weaken: "ends R m s \<Longrightarrow> (\<And>u. R s u \<Longrightarrow> S s u) \<Longrightarrow> ends S m s"
  by (auto simp: ends_def)

lemma receive_loop_ends:
  assumes "clock_advances io clk tick"
  shows "deadline - clk (pt_stream t) \<le> of_nat k * tick \<Longrightarrow> ends (goes_on clk) (receive_loop io deadline) t"
proof (induction k arbitrary: t)
  case (0 t)
  obtain r u where r: "receive_round io t = (r, u)" by fastforce
  have u: "goes_on clk t u" using round_later [OF assms, of t] by (simp add: r)
  have "0 < tick" using assms by (simp add: clock_advances_def)
  with u 0 now_advances(1) [OF assms, of u] have "deadline \<le> fst (now io u)" by (simp add: goes_on_def)
  with r u later_trans [OF u now_advances(3) [OF assms]] show ?case
    by (auto simp: ends_def receive_loop.simps [of io deadline t] raises_def returns_def split_beta Let_def split: sum.splits option.splits)
next
  case (Suc k t)
  obtain r u where r: "receive_round io t = (r, u)" by fastforce
  have u: "goes_on clk t u" using round_later [OF assms, of t] by (simp add: r)
  note n = now_advances [OF assms, of u]
  have "deadline - clk (pt_stream (snd (now io u))) \<le> of_nat k * tick"
    using Suc.prems u n(1,2) by (simp add: goes_on_def algebra_simps)
  from Suc.IH [OF this] obtain q v where "receive_loop io deadline (snd (now io u)) = Some (q, v)" "goes_on clk (snd (now io u)) v"
    unfolding ends_def by blast
  with r u later_trans [OF u n(3)] later_trans [OF later_trans [OF u n(3)]] show ?case
    by (auto simp: ends_def receive_loop.simps [of io deadline t] raises_def returns_def split_beta Let_def split: sum.splits option.splits)
qed

text \<open>The rounds that a deadline leaves.\<close>

lemma rounds_left:
  assumes "clock_advances io clk tick"
  shows "\<exists>k. deadline - clk z \<le> of_nat k * tick"
proof -
  have "0 < tick" using assms by (simp add: clock_advances_def)
  obtain k where "(deadline - clk z) / tick \<le> of_nat k" using real_arch_simple by blast
  with \<open>0 < tick\<close> show ?thesis by (auto simp: pos_divide_le_eq)
qed

lemma receive_ends: "clock_advances io clk tick \<Longrightarrow> ends (goes_on clk) (receive_frame io timeout) t"
proof -
  assume c: "clock_advances io clk tick"
  show ?thesis
  proof (cases "pt_pending t")
    case Nil
    obtain k where "fadd (fst (now io t)) timeout - clk (pt_stream (snd (now io t))) \<le> of_nat k * tick" using rounds_left [OF c] by blast
    from receive_loop_ends [OF c this] later_trans [OF now_advances(3) [OF c]] Nil show ?thesis
      by (fastforce simp: ends_def receive_frame_def split_beta Let_def)
  qed (simp add: ends_def receive_frame_def returns_def goes_on_def)
qed

lemma await_round_ends:
  assumes "clock_advances io clk tick"
  shows "\<exists>r u. await_round io deadline t = Some (r, u) \<and> goes_on clk t u \<and> clk (pt_stream t) + tick \<le> clk (pt_stream u)
    \<and> (deadline \<le> clk (pt_stream t) + tick \<longrightarrow> r = Inl TransportTimeout)"
proof -
  note n = now_advances [OF assms, of t]
  show ?thesis
  proof (cases "fsub deadline (fst (now io t)) \<le> 0")
    case True
    with n show ?thesis by (auto simp: await_round_def split_beta Let_def raises_def)
  next
    case False
    then have "\<not> deadline \<le> fst (now io t)" using to_double_nonpos [of "deadline - fst (now io t)"] by (auto simp: fsub_def)
    with n(1) have late: "\<not> deadline \<le> clk (pt_stream t) + tick" by simp
    from receive_ends [OF assms, of "fsub deadline (fst (now io t))" "snd (now io t)"] obtain r u where
      r: "receive_frame io (fsub deadline (fst (now io t))) (snd (now io t)) = Some (r, u)" "goes_on clk (snd (now io t)) u"
      unfolding ends_def by blast
    with later_trans [OF n(3) r(2)] n(1,2) late False show ?thesis
      by (cases r) (auto simp: await_round_def split_beta Let_def and_then_def lift_result_def goes_on_def)
  qed
qed

lemma await_loop_ends:
  assumes "clock_advances io clk tick"
  shows "deadline - clk (pt_stream t) \<le> of_nat k * tick \<Longrightarrow> ends (goes_on clk) (await_loop io ty deadline deferred) t"
proof (induction k arbitrary: t deferred)
  case (0 t)
  have "0 < tick" using assms by (simp add: clock_advances_def)
  with 0 await_round_ends [OF assms, of deadline t] obtain u where "await_round io deadline t = Some (Inl TransportTimeout, u)" "goes_on clk t u"
    by auto
  then show ?case by (auto simp: ends_def await_loop.simps [of io ty deadline _ t] raises_def)
next
  case (Suc k t)
  from await_round_ends [OF assms, of deadline t] obtain r u where
    r: "await_round io deadline t = Some (r, u)" "goes_on clk t u" "clk (pt_stream t) + tick \<le> clk (pt_stream u)" by blast
  with Suc.prems have "deadline - clk (pt_stream u) \<le> of_nat k * tick" by (simp add: algebra_simps)
  from Suc.IH [OF this] obtain q v where "await_loop io ty deadline (deferred @ [case r of Inr f \<Rightarrow> f | Inl _ \<Rightarrow> undefined]) u = Some (q, v)"
    "goes_on clk u v" unfolding ends_def by blast
  with r later_trans [OF r(2)] show ?case
    by (cases r) (auto simp: ends_def await_loop.simps [of io ty deadline deferred t] raises_def returns_def)
qed

lemma await_ends: "clock_advances io clk tick \<Longrightarrow> ends (goes_on clk) (await_frame io ty timeout) t"
proof -
  assume c: "clock_advances io clk tick"
  obtain k where "fadd (fst (now io t)) timeout - clk (pt_stream (snd (now io t))) \<le> of_nat k * tick" using rounds_left [OF c] by blast
  from await_loop_ends [OF c this] later_trans [OF now_advances(3) [OF c]] show ?thesis
    by (fastforce simp: ends_def await_frame_def split_beta Let_def)
qed

lemma send_ends: "clock_advances io clk tick \<Longrightarrow> ends (goes_on clk) (send_encoded io encoded) t"
proof -
  assume "clock_advances io clk tick"
  then have "clk (pt_stream t) \<le> clk (snd (io_write io data (pt_stream t)))" for data by (simp add: clock_advances_def)
  then have "ends (goes_on clk) (write_bytes io data) t" for data
    by (auto simp: ends_def write_bytes_def split_beta Let_def raises_def returns_def goes_on_def split: option.split)
  then show ?thesis unfolding send_encoded_def
    by (intro ends_and_then) (auto simp: lift_result_def intro: later_trans ends_simps later_refl)
qed

section \<open>Mode changes and the loading of a queue\<close>

lemma attempts_end:
  fixes t :: "('z, 'm) pico_transport_scheme"
  shows "clock_advances io clk tick \<Longrightarrow> ends (goes_on clk) (set_mode_attempts io m timeout n) t"
proof (induction n arbitrary: t)
  case (Suc n)
  show ?case unfolding set_mode_attempts.simps
  proof (rule ends_and_then [OF send_ends [OF Suc.prems]])
    fix u :: "('z, 'm) pico_transport_scheme"
    from await_ends [OF Suc.prems, of MODE_CHANGED timeout u] obtain r v where r: "await_frame io MODE_CHANGED timeout u = Some (r, v)" "goes_on clk u v"
      unfolding ends_def by blast
    from Suc.IH [OF Suc.prems, of v] obtain q w where "set_mode_attempts io m timeout n v = Some (q, w)" "goes_on clk v w"
      unfolding ends_def by blast
    with r later_trans [OF r(2)] show "ends (goes_on clk) (\<lambda>t. case await_frame io MODE_CHANGED timeout t of None \<Rightarrow> None
        | Some (Inl e, t) \<Rightarrow> if e = TransportTimeout \<and> n \<noteq> 0 then set_mode_attempts io m timeout n t else raises e t
        | Some (Inr frame, t) \<Rightarrow> (case validate_mode_changed frame of Inl e \<Rightarrow> raises e t
            | Inr (state, reason) \<Rightarrow> if state = m \<and> reason = REASON_OK then returns () t else raises ModeRejected t)) u"
      by (cases r) (auto simp: ends_def raises_def returns_def split: sum.split)
  qed (rule later_trans)
qed (simp add: ends_simps later_refl)

lemma set_mode_ends: "clock_advances io clk tick \<Longrightarrow> ends (goes_on clk) (set_mode io m timeout retries) t"
  using attempts_end [of io clk tick m timeout "nat (retries + 1)" t]
  by (auto simp: set_mode_def ends_def raises_def later_refl)

lemma queue_await_ends: "clock_advances io clk tick \<Longrightarrow> ends (goes_on clk) (queue_await io deadline ty) t"
  using await_ends [of io clk tick ty "fsub deadline (fst (now io t))" "snd (now io t)"] now_advances(3) [of io clk tick t]
  by (auto simp: queue_await_def ends_def raises_def split_beta Let_def dest: later_trans)

lemma queue_credit_ends: "clock_advances io clk tick \<Longrightarrow> ends (goes_on clk) (queue_credit_of io deadline) t"
  unfolding queue_credit_of_def
  by (intro ends_and_then queue_await_ends) (auto intro: ends_simps later_refl later_trans)

lemma queue_events_loop_ends: "clock_advances io clk tick \<Longrightarrow> ends (goes_on clk) (queue_events_loop io deadline evs free) t"
  by (induction evs arbitrary: free t)
    (auto simp: send_queue_event_def intro: ends_simps later_refl intro!: ends_and_then send_ends queue_credit_ends elim: later_trans)

lemma queue_events_ends: "clock_advances io clk tick \<Longrightarrow> ends (goes_on clk) (queue_events io evs timeout) t"
proof -
  assume c: "clock_advances io clk tick"
  have "ends (goes_on clk) (\<lambda>t. and_then (send_queue_clear io) (\<lambda>_. and_then (queue_credit_of io d) (\<lambda>free_capacity.
      and_then (queue_events_loop io d evs free_capacity) (\<lambda>_. and_then (send_queue_end io) (\<lambda>_.
      and_then (queue_await io d PLAY_READY) (\<lambda>_. and_then (queue_credit_of io d) (\<lambda>_. returns ())))))) t) t" for d t
    unfolding send_queue_clear_def send_queue_end_def
    by (intro ends_and_then send_ends [OF c] queue_credit_ends [OF c] queue_events_loop_ends [OF c] queue_await_ends [OF c])
      (auto intro: ends_simps later_refl elim: later_trans)
  from this [of "fadd (fst (now io t)) timeout" "snd (now io t)"] now_advances(3) [OF c, of t] show ?thesis
    by (auto simp: queue_events_def ends_def split_beta Let_def dest: later_trans)
qed

section \<open>The recording session\<close>

text \<open>Here every wait starts anew, so that it is enough that time does not go back.\<close>

definition any_state :: "'s \<Rightarrow> 's \<Rightarrow> bool" where
  [simp]: "any_state s u \<longleftrightarrow> True"

lemma ends_any: "ends R m s \<Longrightarrow> ends any_state m s"
  by (auto simp: ends_def)

lemma consume_ends: "ends any_state (consume frame) s"
  by (auto simp: ends_def consume_def raises_def returns_def split: sum.split)

lemma consume_checked_ends: "ends any_state (consume_checked frame) s"
  unfolding consume_checked_def by (intro ends_and_then consume_ends) (auto intro: ends_simps)

lemma consume_pending_ends: "ends any_state (consume_pending frames) s"
  by (induction frames arbitrary: s) (auto intro!: ends_and_then consume_checked_ends intro: ends_simps)

lemma receive_and_consume_ends: "clock_advances io clk tick \<Longrightarrow> ends any_state (receive_and_consume io timeout) s"
  unfolding receive_and_consume_def by (intro ends_and_then ends_any [OF receive_ends] consume_checked_ends) auto

lemma record_rounds_end:
  fixes s :: "'z recording_session"
  shows "clock_advances io clk tick \<Longrightarrow> ends any_state (record_rounds io interval n) s"
proof (induction n arbitrary: s)
  case (Suc n s)
  from receive_and_consume_ends [OF Suc.prems, of interval s] obtain r u where "receive_and_consume io interval s = Some (r, u)"
    unfolding ends_def by blast
  with Suc.IH [OF Suc.prems, of u] show ?case by (cases r) (auto simp: ends_def raises_def)
qed (simp add: ends_def returns_def)

lemma recording_stop_ends:
  fixes s :: "'z recording_session"
  assumes "clock_advances io clk tick"
  shows "ends any_state (recording_session_stop io) s"
proof -
  have "ends any_state (and_then (set_mode io MODE_PASS (rs_mode_timeout s) 1)
      (\<lambda>_ s. let (frames, s) = drain_pending_frames s in consume_pending frames s)) s"
  proof (rule ends_and_then [OF ends_any [OF set_mode_ends [OF assms]]])
    fix u :: "'z recording_session"
    show "ends any_state (\<lambda>s. let (frames, s) = drain_pending_frames s in consume_pending frames s) u"
      using consume_pending_ends [of "pt_pending u" "u\<lparr>pt_pending := []\<rparr>"] by (simp add: ends_def drain_pending_frames_def)
  qed simp
  then show ?thesis
    by (auto simp: ends_def recording_session_stop_def raises_def returns_def Let_def split: sum.split)
qed

lemma recording_abort_ends: "clock_advances io clk tick \<Longrightarrow> ends any_state (recording_session_abort io) s"
  using set_mode_ends [of io clk tick MODE_PASS "rs_mode_timeout s" 1 "s\<lparr>rs_finished := True\<rparr>"]
  by (auto simp: ends_def recording_session_abort_def returns_def Let_def split: sum.split)

lemma run_recording_ends:
  fixes s :: "'z recording_session"
  assumes "clock_advances io clk tick"
  shows "run_recording io interval n s \<noteq> None"
proof -
  have "ends any_state (and_then (record_rounds io interval n) (\<lambda>_. recording_session_stop io)) s"
    by (intro ends_and_then record_rounds_end [OF assms] recording_stop_ends [OF assms]) simp
  then obtain r u where r: "and_then (record_rounds io interval n) (\<lambda>_. recording_session_stop io) s = Some (r, u)"
    unfolding ends_def by blast
  from recording_abort_ends [OF assms, of u] obtain q v where "recording_session_abort io u = Some (q, v)" unfolding ends_def by blast
  with r show ?thesis by (auto simp: run_recording_def split: sum.split)
qed

section \<open>The playback session\<close>

text \<open>
  What is kept so that the feeder comes to its end: the deadline, and that the free capacity, which is read off
  unsigned bytes, is not negative.
\<close>

definition limits_kept :: "'z playback_session \<Rightarrow> 'z playback_session \<Rightarrow> bool" where
  "limits_kept s u \<longleftrightarrow> pb_deadline u = pb_deadline s \<and> (0 \<le> pb_free_capacity s \<longrightarrow> 0 \<le> pb_free_capacity u)"

lemma kept_refl: "limits_kept s s" by (simp add: limits_kept_def)

lemma kept_trans: "limits_kept s u \<Longrightarrow> limits_kept u v \<Longrightarrow> limits_kept s v" by (simp add: limits_kept_def)

lemma later_kept: "goes_on clk s u \<Longrightarrow> limits_kept s u"
  by (cases s; cases u) (simp add: goes_on_def limits_kept_def)

lemma ends_kept: "ends (goes_on clk) m s \<Longrightarrow> ends limits_kept m s"
  unfolding ends_def using later_kept by blast

lemma unpack_nonneg: "0 \<le> unpack_le bytes"
  by (induction bytes) simp_all

lemma status_nonneg: "validate_buffer_status f = Inr (state, queued_count, free_capacity) \<Longrightarrow> 0 \<le> free_capacity"
  using unpack_nonneg by (auto simp: validate_buffer_status_def Let_def split: if_splits)

lemma remaining_ends: "clock_advances io clk tick \<Longrightarrow> ends (goes_on clk) (session_remaining io timeout) s"
  using now_advances(3) [of io clk tick s]
  by (auto simp: ends_def session_remaining_def returns_def raises_def later_refl split_beta Let_def split: option.split)

lemma session_await_ends: "clock_advances io clk tick \<Longrightarrow> ends (goes_on clk) (session_await io ty timeout) s"
  unfolding session_await_def by (intro ends_and_then remaining_ends await_ends) (auto elim: later_trans)

lemma await_status_ends: "clock_advances io clk tick \<Longrightarrow> ends limits_kept (await_status io state) s"
  unfolding await_status_def
  by (intro ends_and_then ends_kept [OF session_await_ends]) (auto simp: ends_def lift_result_def raises_def returns_def limits_kept_def dest: status_nonneg)

lemma acks_end: "clock_advances io clk tick \<Longrightarrow> ends limits_kept (await_acks io state n) s"
  by (induction n arbitrary: s) (auto intro: ends_simps kept_refl intro!: ends_and_then await_status_ends elim: kept_trans)

lemma send_batch_ends: "clock_advances io clk tick \<Longrightarrow> ends limits_kept (send_batch io evs) s"
  by (induction evs arbitrary: s)
    (auto simp: send_queue_event_def intro: ends_simps kept_refl intro!: ends_and_then ends_kept [OF send_ends] elim: kept_trans)

text \<open>Credit comes before the deadline, or the wait for it ends with an exception.\<close>

lemma credit_frame_ends: "\<exists>r u. credit_frame state frame s = Some (r, u) \<and> limits_kept s u \<and> pt_stream u = pt_stream s
    \<and> (\<forall>free. r = Inr (Credit free) \<longrightarrow> 0 < free)"
  by (auto simp: credit_frame_def raises_def returns_def limits_kept_def split: sum.split)

lemma credit_round_ends:
  fixes s :: "'z playback_session"
  assumes "clock_advances io clk tick"
  shows "\<exists>r u. credit_round io state s = Some (r, u) \<and> limits_kept s u \<and> clk (pt_stream s) + tick \<le> clk (pt_stream u)
    \<and> (pb_deadline s \<le> clk (pt_stream s) + tick \<longrightarrow> (\<exists>e. r = Inl e)) \<and> (\<forall>free f. r = Inr (Credit free, f) \<longrightarrow> 0 < free)"
proof -
  note n = now_advances [OF assms, of s]
  let ?c = "fst (now io s)" and ?s = "snd (now io s)"
  have same: "pb_deadline ?s = pb_deadline s" using later_kept [OF n(3)] by (simp add: limits_kept_def)
  show ?thesis
  proof (cases "fsub (pb_deadline s) ?c \<le> 0")
    case True
    with n same later_kept [OF n(3)] show ?thesis
      by (auto simp: credit_round_def session_remaining_def and_then_def raises_def split_beta Let_def)
  next
    case False
    then have "\<not> pb_deadline s \<le> ?c" using to_double_nonpos [of "pb_deadline s - ?c"] by (auto simp: fsub_def)
    with n(1) have late: "\<not> pb_deadline s \<le> clk (pt_stream s) + tick" by simp
    have rest: "session_remaining io None s = Some (Inr (fsub (pb_deadline s) ?c), ?s)"
      using False same by (simp add: session_remaining_def returns_def split_beta Let_def)
    from receive_ends [OF assms, of "fsub (pb_deadline s) ?c" ?s] obtain r u where
      r: "receive_frame io (fsub (pb_deadline s) ?c) ?s = Some (r, u)" "goes_on clk ?s u" unfolding ends_def by blast
    note su = later_trans [OF n(3) r(2)]
    have at: "clk (pt_stream s) + tick \<le> clk (pt_stream u)" using n(1,2) r(2) by (simp add: goes_on_def)
    show ?thesis
    proof (cases "and_then (receive_frame io (fsub (pb_deadline s) ?c)) (\<lambda>f. lift_result (require_not_error f)) ?s")
      case None
      with r(1) show ?thesis by (auto simp: and_then_def lift_result_def split: sum.splits)
    next
      case (Some y)
      obtain q where y: "y = (q, u)" using Some r(1) by (cases y) (auto simp: and_then_def lift_result_def split: sum.splits)
      have round: "credit_round io state s = and_then (\<lambda>_. Some (q, u)) (\<lambda>f. and_then (credit_frame state f) (\<lambda>c. returns (c, f))) s"
        using rest r(1) Some y by (auto simp: credit_round_def and_then_def lift_result_def split: sum.splits)
      show ?thesis
      proof (cases q)
        case (Inl e)
        with round at late later_kept [OF su] show ?thesis by (auto simp: and_then_def)
      next
        case (Inr g)
        from credit_frame_ends [of state g u] obtain p v where
          p: "credit_frame state g u = Some (p, v)" "limits_kept u v" "pt_stream v = pt_stream u" "\<forall>free. p = Inr (Credit free) \<longrightarrow> 0 < free" by blast
        with round Inr at late kept_trans [OF later_kept [OF su] p(2)] show ?thesis
          by (cases p) (auto simp: and_then_def returns_def)
      qed
    qed
  qed
qed

lemma preserve_kept [simp]: "limits_kept s (preserve_frames fs u) \<longleftrightarrow> limits_kept s u"
  by (simp add: limits_kept_def preserve_frames_def)

lemma credit_loop_ends:
  fixes s :: "'z playback_session"
  assumes "clock_advances io clk tick"
  shows "pb_deadline s - clk (pt_stream s) \<le> of_nat k * tick \<Longrightarrow>
    \<exists>r u. credit_loop io state deferred s = Some (r, u) \<and> limits_kept s u \<and> (\<forall>free. r = Inr free \<longrightarrow> 0 < free)"
proof (induction k arbitrary: s deferred)
  case (0 s)
  have "0 < tick" using assms by (simp add: clock_advances_def)
  with 0 credit_round_ends [OF assms, of state s] obtain e u where "credit_round io state s = Some (Inl e, u)" "limits_kept s u" by fastforce
  then show ?case by (simp add: credit_loop.simps [of io state _ s] raises_def)
next
  case (Suc k s)
  from credit_round_ends [OF assms, of state s] obtain r u where
    r: "credit_round io state s = Some (r, u)" "limits_kept s u" "clk (pt_stream s) + tick \<le> clk (pt_stream u)"
      "\<forall>free f. r = Inr (Credit free, f) \<longrightarrow> 0 < free" by blast
  have "pb_deadline u - clk (pt_stream u) \<le> of_nat k * tick"
    using Suc.prems r(2,3) by (simp add: limits_kept_def algebra_simps)
  note IH = Suc.IH [OF this]
  show ?case
  proof (cases r)
    case (Inl e)
    with r(1,2) show ?thesis by (simp add: credit_loop.simps [of io state deferred s] raises_def)
  next
    case (Inr y)
    obtain credit frame where y: "y = (credit, frame)" by fastforce
    from IH [of deferred] IH [of "deferred @ [frame]"] r y Inr kept_trans [OF r(2)] show ?thesis
      by (cases credit) (fastforce simp: credit_loop.simps [of io state deferred s] returns_def)+
  qed
qed

lemma take_credit_ends:
  assumes "clock_advances io clk tick"
  shows "\<exists>r u. take_credit io state s = Some (r, u) \<and> limits_kept s u \<and> (r = Inr () \<longrightarrow> 0 \<le> pb_free_capacity s \<longrightarrow> 0 < pb_free_capacity u)"
proof (cases "pb_free_capacity s = 0")
  case True
  obtain k where "pb_deadline s - clk (pt_stream s) \<le> of_nat k * tick" using rounds_left [OF assms] by blast
  from credit_loop_ends [OF assms this, of state "[]"] obtain r u where
    r: "credit_loop io state [] s = Some (r, u)" "limits_kept s u" "\<forall>free. r = Inr free \<longrightarrow> 0 < free" by blast
  with True show ?thesis by (cases r) (auto simp: take_credit_def await_credit_def and_then_def returns_def limits_kept_def)
qed (auto simp: take_credit_def returns_def limits_kept_def)

text \<open>A round that does not raise feeds an event; so the loop comes to its stop.\<close>

lemma send_round_ends:
  fixes s :: "'z playback_session"
  assumes "io_ok io inp out" "clock_advances io clk tick" "0 \<le> pb_free_capacity s" "pb_next_event s < stop"
  shows "\<exists>r u. send_round io stop state s = Some (r, u) \<and> limits_kept s u \<and> (r = Inr () \<longrightarrow> pb_next_event s < pb_next_event u)"
proof -
  note fed = byte_stream.take_credit_fed [OF byte_stream.intro [OF assms(1)]] byte_stream.send_batch_fed [OF byte_stream.intro [OF assms(1)]]
    byte_stream.await_acks_fed [OF byte_stream.intro [OF assms(1)]]
  from take_credit_ends [OF assms(2), of state s] obtain r a where
    a: "take_credit io state s = Some (r, a)" "limits_kept s a" "r = Inr () \<longrightarrow> 0 < pb_free_capacity a" using assms(3) by blast
  show ?thesis
  proof (cases r)
    case (Inl e)
    with a(1,2) show ?thesis by (simp add: send_round_def and_then_def)
  next
    case (Inr x)
    let ?n = "batch_count stop a"
    have next_a: "pb_next_event a = pb_next_event s" using fed(1) a(1) Inr by (fastforce simp: fed_def)
    with a(3) Inr assms(4) have n: "0 < ?n" by (simp add: batch_count_def PIPELINE_WINDOW_def)
    have "ends limits_kept (and_then (send_batch io (take ?n (drop (pb_next_event a) (pb_events a)))) (\<lambda>_. await_acks io state ?n)) a"
      by (intro ends_and_then send_batch_ends [OF assms(2)] acks_end [OF assms(2)]) (rule kept_trans)
    then obtain q c where c: "and_then (send_batch io (take ?n (drop (pb_next_event a) (pb_events a)))) (\<lambda>_. await_acks io state ?n) a = Some (q, c)"
      "limits_kept a c" unfolding ends_def by blast
    have next_c: "pb_next_event c = pb_next_event a" if "q = Inr ()"
      using c(1) that fed(2,3) unfolding and_then_Inr by (fastforce simp: and_then_Inr fed_def)
    have "send_round io stop state s = (case q of Inl e \<Rightarrow> Some (Inl e, c) | Inr _ \<Rightarrow> Some (Inr (),
        c\<lparr>pb_next_event := pb_next_event c + ?n, pb_reported_next_event := pb_next_event c + ?n\<rparr>))"
      using a(1) Inr c(1) by (auto simp: send_round_def and_then_def returns_def Let_def split: option.splits sum.splits)
    with next_a next_c n kept_trans [OF a(2) c(2)] show ?thesis by (cases q) (auto simp: limits_kept_def)
  qed
qed

lemma send_through_ends:
  fixes s :: "'z playback_session"
  assumes "io_ok io inp out" "clock_advances io clk tick" "0 \<le> pb_free_capacity s"
  shows "ends limits_kept (send_through io stop state) s"
  using assms(3)
proof (induction "stop - pb_next_event s" arbitrary: s rule: less_induct)
  case less
  show ?case
  proof (cases "pb_next_event s < stop")
    case True
    from send_round_ends [OF assms(1,2) less.prems True, of state] obtain r u where
      r: "send_round io stop state s = Some (r, u)" "limits_kept s u" "r = Inr () \<longrightarrow> pb_next_event s < pb_next_event u" by blast
    show ?thesis
    proof (cases r)
      case (Inl e)
      with r True show ?thesis by (simp add: ends_def send_through.simps [of io stop state s] raises_def)
    next
      case (Inr x)
      with r(2,3) True less.prems have "stop - pb_next_event u < stop - pb_next_event s" "0 \<le> pb_free_capacity u" by (auto simp: limits_kept_def)
      from less.hyps [OF this] obtain q v where "send_through io stop state u = Some (q, v)" "limits_kept u v" unfolding ends_def by blast
      with r Inr True kept_trans [OF r(2)] show ?thesis by (auto simp: ends_def send_through.simps [of io stop state s])
    qed
  qed (simp add: ends_def send_through.simps [of io stop state s] returns_def kept_refl)
qed

section \<open>A run\<close>

lemma plain_send_ends:
  assumes "clock_advances io clk tick"
  shows "ends (goes_on clk) (send_queue_clear io) s" "ends (goes_on clk) (send_queue_end io) s" "ends (goes_on clk) (send_play_start io) s"
    "ends (goes_on clk) (send_play_abort io) s"
  unfolding send_queue_clear_def send_queue_end_def send_play_start_def send_play_abort_def by (rule send_ends [OF assms])+

lemma prepare_queue_ends:
  fixes s :: "'z playback_session"
  assumes "io_ok io inp out" "clock_advances io clk tick"  "0 \<le> pb_free_capacity s"
  shows "ends limits_kept (prepare_queue io) s"
  unfolding prepare_queue_def
proof (rule ends_and_then [OF ends_kept [OF plain_send_ends(1) [OF assms(2)]]], rule ends_and_then [OF await_status_ends [OF assms(2)]])
  fix x u y v
  assume "limits_kept s u" "limits_kept u v"
  with assms(3) have free: "0 \<le> pb_free_capacity v" by (simp add: limits_kept_def)
  have rest: "ends limits_kept (\<lambda>s. if pb_next_event s = length (pb_events s) then
      and_then (send_queue_end io) (\<lambda>_. and_then (session_await io PLAY_READY None) (\<lambda>_. await_status io MODE_ARMED)) s else returns () s) w" for w
  proof -
    have "ends limits_kept (and_then (send_queue_end io) (\<lambda>_. and_then (session_await io PLAY_READY None) (\<lambda>_. await_status io MODE_ARMED))) w"
      by (intro ends_and_then ends_kept [OF plain_send_ends(2) [OF assms(2)]] ends_kept [OF session_await_ends [OF assms(2)]]
          await_status_ends [OF assms(2)]) (auto elim: kept_trans)
    then show ?thesis by (auto simp: ends_def returns_def kept_refl)
  qed
  have "ends limits_kept (and_then (send_through io (prebuffer_count (pb_prebuffer_us v) (pb_events v)) MODE_ARMED) (\<lambda>_ s.
      if pb_next_event s = length (pb_events s) then
        and_then (send_queue_end io) (\<lambda>_. and_then (session_await io PLAY_READY None) (\<lambda>_. await_status io MODE_ARMED)) s
      else returns () s)) v"
    by (intro ends_and_then send_through_ends [OF assms(1,2) free] rest) (rule kept_trans)
  then show "ends limits_kept (\<lambda>s. let n = prebuffer_count (pb_prebuffer_us s) (pb_events s) in
      if pb_free_capacity s < int n then raises RecorderError s
      else and_then (send_through io n MODE_ARMED) (\<lambda>_ s.
        if pb_next_event s = length (pb_events s) then
          and_then (send_queue_end io) (\<lambda>_. and_then (session_await io PLAY_READY None) (\<lambda>_. await_status io MODE_ARMED)) s
        else returns () s) s) v"
    by (auto simp: ends_def raises_def kept_refl Let_def)
qed (auto elim: kept_trans)

lemma start_run_ends:
  fixes s :: "'z playback_session"
  assumes "clock_advances io clk tick"
  shows "ends limits_kept (start_run_of io) s"
proof -
  have started: "ends limits_kept (\<lambda>s. let s = s\<lparr>pb_playback_start_us := t\<rparr>; (c, s) = now io s
      in returns t (s\<lparr>pb_start_wallclock := Some c, pb_started := True, pb_playing := True\<rparr>)) u" for t and u :: "'z playback_session"
    using later_kept [OF now_advances(3) [OF assms, of "u\<lparr>pb_playback_start_us := t\<rparr>"]]
    by (simp add: ends_def returns_def split_beta Let_def limits_kept_def)
  have checked: "ends limits_kept (case (state, reason) of (state, reason) \<Rightarrow> if state \<noteq> MODE_PLAYING \<or> reason \<noteq> REASON_OK then raises ProtocolError
      else and_then (session_await io PLAY_STARTED None) (\<lambda>frame. and_then (lift_result (validate_play_started frame)) (\<lambda>t s.
        let s = s\<lparr>pb_playback_start_us := t\<rparr>; (c, s) = now io s
        in returns t (s\<lparr>pb_start_wallclock := Some c, pb_started := True, pb_playing := True\<rparr>)))) u" for state reason and u :: "'z playback_session"
    using started by (auto intro!: ends_and_then ends_kept [OF session_await_ends [OF assms]] intro: ends_simps kept_refl elim: kept_trans)
  show ?thesis unfolding start_run_of_def
    by (intro ends_and_then ends_kept [OF plain_send_ends(3) [OF assms]] ends_kept [OF session_await_ends [OF assms]])
      (use checked in \<open>auto intro: ends_simps kept_refl elim: kept_trans\<close>)
qed

lemma session_start_ends:
  fixes s :: "'z playback_session"
  assumes "io_ok io inp out" "clock_advances io clk tick" "0 \<le> pb_free_capacity s"
  shows "\<exists>r u. session_start io s = Some (r, u) \<and> 0 \<le> pb_free_capacity u"
proof -
  define arm :: "(unit, 'z playback_session) action" where "arm = (\<lambda>s. Some (Inr (), let s = s\<lparr>pb_armed := True\<rparr>; (c, s) = now io s
    in s\<lparr>pb_deadline := fadd c (effective_playback_timeout s)\<rparr>))"
  define nonneg where "nonneg s u \<longleftrightarrow> (0 \<le> pb_free_capacity s \<longrightarrow> 0 \<le> pb_free_capacity u)" for s u :: "'z playback_session"
  have limits: "ends nonneg m u" if "ends limits_kept m u" for m :: "('b, 'z playback_session) action" and u
    using that by (auto simp: ends_def limits_kept_def nonneg_def)
  have arm: "ends nonneg arm u" for u
    using later_kept [OF now_advances(3) [OF assms(2), of "u\<lparr>pb_armed := True\<rparr>"]]
    by (simp add: ends_def arm_def nonneg_def split_beta Let_def limits_kept_def)
  have trans: "nonneg u v \<Longrightarrow> nonneg v w \<Longrightarrow> nonneg u w" for u v w by (simp add: nonneg_def)
  have run: "ends nonneg (and_then (prepare_queue io) (\<lambda>_. start_run_of io)) v" if "0 \<le> pb_free_capacity v" for v
    by (intro limits ends_and_then prepare_queue_ends [OF assms(1,2) that] start_run_ends [OF assms(2)]) (rule kept_trans)
  have "ends nonneg (and_then (set_mode io MODE_ARMED (pb_mode_timeout s) 1) (\<lambda>_. and_then arm (\<lambda>_. and_then (prepare_queue io) (\<lambda>_. start_run_of io)))) s"
  proof (rule ends_and_then [OF limits [OF ends_kept [OF set_mode_ends [OF assms(2)]]]], rule ends_and_then [OF arm], rule run)
    fix x u y v
    assume "nonneg s u" "nonneg u v"
    with assms(3) show "0 \<le> pb_free_capacity v" by (simp add: nonneg_def)
  qed (rule trans; assumption)+
  moreover have "session_start io s = (if pb_started s \<or> pb_finished s then raises RecorderError s else
      and_then (set_mode io MODE_ARMED (pb_mode_timeout s) 1) (\<lambda>_. and_then arm (\<lambda>_. and_then (prepare_queue io) (\<lambda>_. start_run_of io))) s)"
    by (auto simp: session_start_def arm_def and_then_def Let_def split_beta split: option.split sum.split)
  ultimately show ?thesis using assms(3) by (auto simp: ends_def nonneg_def raises_def)
qed

lemma collect_frames_end: "ends any_state (collect_frames frames) s"
proof (induction frames arbitrary: s)
  case (Cons f frames)
  have "ends any_state (collect_frame f) u" for u
    unfolding collect_frame_def
    by (intro ends_and_then) (auto simp: ends_def lift_result_def raises_def returns_def split: sum.split)
  from ends_and_then [OF this Cons.IH] show ?case by simp
qed (simp add: ends_def returns_def)

lemma await_outcome_ends:
  fixes s :: "'z playback_session"
  assumes "clock_advances io clk tick"
  shows "ends any_state (await_outcome io ty reason outcome timeout) s"
proof -
  note await = ends_any [OF session_await_ends [OF assms]]
  have collect: "ends any_state collect_diagnostics u" for u :: "'z playback_session"
    using collect_frames_end [of "pt_pending u" "u\<lparr>pt_pending := []\<rparr>"]
    by (simp add: ends_def collect_diagnostics_def drain_pending_frames_def)
  have checked: "ends any_state (case y of (state, r) \<Rightarrow> if state \<noteq> MODE_ARMED \<or> r \<noteq> reason then raises ProtocolError
      else and_then collect_diagnostics (\<lambda>_ s. returns \<lparr>pr_outcome = outcome, pr_playback_start_us = pb_playback_start_us s, pr_metrics = metrics,
        pr_underruns = pb_underruns s\<rparr> s)) u" for y metrics and u :: "'z playback_session"
    using collect by (auto intro!: ends_and_then intro: ends_simps simp: split_beta) (simp add: ends_def returns_def)
  show ?thesis unfolding await_outcome_def
    by (intro ends_and_then await checked) (simp_all add: ends_def lift_result_def)
qed

lemma return_to_pass_ends: "clock_advances io clk tick \<Longrightarrow> ends any_state (return_to_pass io) s"
  using ends_and_then [OF ends_any [OF set_mode_ends], of io clk tick MODE_PASS "pb_mode_timeout s" 1 s "\<lambda>_ s. returns () (s\<lparr>pb_armed := False\<rparr>)"]
  by (auto simp: ends_def return_to_pass_def returns_def)

lemma session_finish_ends:
  fixes s :: "'z playback_session"
  assumes "io_ok io inp out" "clock_advances io clk tick" "0 \<le> pb_free_capacity s"
  shows "ends any_state (session_finish io to_pass) s"
proof -
  have feed: "ends any_state (feed_rest io) s"
  proof -
    have "ends any_state (and_then (send_through io (length (pb_events s)) MODE_PLAYING) (\<lambda>_. send_queue_end io)) s"
      by (intro ends_and_then ends_any [OF send_through_ends [OF assms]] ends_any [OF plain_send_ends(2) [OF assms(2)]]) simp
    then show ?thesis by (auto simp: feed_rest_def ends_def returns_def)
  qed
  have pass: "ends any_state (if to_pass then return_to_pass io else returns ()) u" for u
    using return_to_pass_ends [OF assms(2)] by (simp add: ends_def returns_def)
  have last: "ends any_state (\<lambda>s. let s = s\<lparr>pb_playing := False, pb_armed := True\<rparr> in
      and_then (if to_pass then return_to_pass io else returns ()) (\<lambda>_ s. returns result (s\<lparr>pb_finished := True\<rparr>)) s) u" for result u
    using ends_and_then [OF pass, of "u\<lparr>pb_playing := False, pb_armed := True\<rparr>" "\<lambda>_ s. returns result (s\<lparr>pb_finished := True\<rparr>)"]
    by (auto simp: ends_def returns_def Let_def)
  have "ends any_state (and_then (feed_rest io) (\<lambda>_. and_then (await_outcome io PLAY_FINISHED REASON_FINISHED ''finished'' None) (\<lambda>result s.
      let s = s\<lparr>pb_playing := False, pb_armed := True\<rparr> in
      and_then (if to_pass then return_to_pass io else returns ()) (\<lambda>_ s. returns result (s\<lparr>pb_finished := True\<rparr>)) s))) s"
    by (intro ends_and_then feed await_outcome_ends [OF assms(2)] last) simp_all
  then show ?thesis by (auto simp: session_finish_def ends_def raises_def)
qed

lemma session_play_ends:
  fixes s :: "'z playback_session"
  assumes "io_ok io inp out" "clock_advances io clk tick" "0 \<le> pb_free_capacity s"
  shows "session_play io to_pass s \<noteq> None"
proof -
  from session_start_ends [OF assms] obtain r u where r: "session_start io s = Some (r, u)" "0 \<le> pb_free_capacity u" by blast
  from session_finish_ends [OF assms(1,2) r(2), of to_pass] obtain q v where "session_finish io to_pass u = Some (q, v)" unfolding ends_def by blast
  with r(1) show ?thesis by (cases r) (auto simp: session_play_def and_then_def)
qed

lemma session_abort_ends:
  fixes s :: "'z playback_session"
  assumes "clock_advances io clk tick"
  shows "session_abort io to_pass s \<noteq> None"
proof -
  have "ends any_state (and_then (send_play_abort io) (\<lambda>_. await_outcome io PLAY_ABORTED REASON_ABORTED ''aborted'' (Some (pb_mode_timeout s)))) s"
    by (intro ends_and_then ends_any [OF plain_send_ends(4) [OF assms]] await_outcome_ends [OF assms]) simp
  then have run: "abort_run io s \<noteq> None" by (auto simp: abort_run_def ends_def split: sum.split)
  have pass: "abort_to_pass io e u \<noteq> None" for e and u :: "'z playback_session"
  proof -
    from return_to_pass_ends [OF assms, of "if e \<noteq> None then snd (drain_pending_frames u) else u"] obtain r v where
      "return_to_pass io (if e \<noteq> None then snd (drain_pending_frames u) else u) = Some (r, v)" unfolding ends_def by blast
    then show ?thesis by (cases r) (auto simp: abort_to_pass_def Let_def)
  qed
  from run obtain r e u where r: "abort_run io s = Some ((r, e), u)" by auto
  from pass [of e u] obtain e' v where "abort_to_pass io e u = Some (e', v)" by auto
  with r show ?thesis by (auto simp: session_abort_def returns_def raises_def Let_def split: option.split)
qed

end
