(* ===== verification/Zero_Samples.thy ===== *)
theory Zero_Samples
  imports Zero_Sessions Zero_Termination
begin

text \<open>Concrete sessions of the Zero: a stream that is read off a list of messages, and recordings of one report.\<close>

section \<open>A scripted stream\<close>

text \<open>The world is the number of bytes read and the bytes written.\<close>

definition script_io :: "u8 list \<Rightarrow> (nat \<times> u8 list) zero_io" where
  "script_io stream =
     \<lparr>io_read = (\<lambda>n z. (Some (take n (drop (fst z) stream)), (fst z + min n (length stream - fst z), snd z))),
      io_write = (\<lambda>data z. (Some None, (fst z, snd z @ data))),
      io_clock = (\<lambda>z. (0, z)), io_cancelled = (\<lambda>z. (False, z))\<rparr>"

definition script_in :: "u8 list \<Rightarrow> nat \<times> u8 list \<Rightarrow> u8 list" where
  "script_in stream z = take (fst z) stream"

lemma script_io_ok: "io_ok (script_io stream) (script_in stream) snd"
proof -
  have "take (p + min n (length stream - p)) stream = take p stream @ take n (drop p stream)" for p n
    by (simp add: take_add [symmetric] min_def)
  then show ?thesis by (simp add: io_ok_def script_io_def script_in_def)
qed

lemma script_peer: "list_all pico_message ms \<Longrightarrow> pico_peer (script_in (wire_stream ms))"
  unfolding pico_peer_def script_in_def using append_take_drop_id by metis

lemma now_script [simp]: "now (script_io stream) s = (0, s)"
  by (cases s) (simp add: now_def script_io_def)

lemma double_1 [simp]: "to_double 1 = 1"
  using to_double_int [of 1] by simp

lemma float_1: "is_float 1"
  by (simp add: is_float_def)

lemma script_receive:
  assumes "pt_pending s = []" "pt_decoder s = incremental_decoder_init" "pt_read_size s = 256" "pt_stream s = (0, sent)"
    "list_all pico_message (m # ms)" "length (wire_stream (m # ms)) \<le> 256"
  shows "receive_frame (script_io (wire_stream (m # ms))) timeout s
    = Some (Inr (frame_of m), s\<lparr>pt_stream := (length (wire_stream (m # ms)), sent), pt_pending := map frame_of ms\<rparr>)"
proof -
  have "wire_stream (m # ms) \<noteq> []" by (cases m) (auto simp: wire_frame_def Let_def)
  moreover have dec: "s\<lparr>pt_stream := z, pt_decoder := incremental_decoder_init, pt_pending := fs\<rparr> = s\<lparr>pt_stream := z, pt_pending := fs\<rparr>" for z fs
    using assms(2) by (cases s) simp
  moreover have "decoder_pop_errors incremental_decoder_init = ([], incremental_decoder_init)"
    by (simp add: decoder_pop_errors_def incremental_decoder_init_def)
  ultimately have "receive_round (script_io (wire_stream (m # ms))) s
      = (Inr (Some (frame_of m)), s\<lparr>pt_stream := (length (wire_stream (m # ms)), sent), pt_pending := map frame_of ms\<rparr>)"
    using assms init_feed [OF assms(5)] by (simp add: receive_round_def script_io_def Let_def del: wire_stream_simps)
  then show ?thesis using assms(1) by (simp add: receive_frame_def receive_loop.simps returns_def)
qed

text \<open>A wait that takes the first frame, from the stream or from those that are pending.\<close>

lemma script_await:
  assumes "receive_frame (script_io stream) 1 s = Some (Inr f, u)" "zf_type f = ty" "require_not_error f = Inr f"
  shows "await_frame (script_io stream) ty 1 s = Some (Inr f, u)"
  using assms
  by (simp add: await_frame_def await_loop.simps await_round_def fadd_def fsub_def and_then_def lift_result_def returns_def preserve_frames_def)

lemma pending_receive:
  "pt_pending s = f # fs \<Longrightarrow> receive_frame io timeout s = Some (Inr f, s\<lparr>pt_pending := fs\<rparr>)"
  by (simp add: receive_frame_def returns_def)

lemma script_set_mode:
  assumes "receive_frame (script_io stream) 1 (s\<lparr>pt_stream := (fst (pt_stream s), snd (pt_stream s) @ wire_frame MODE_SET [m])\<rparr>)
      = Some (Inr \<lparr>zf_type = MODE_CHANGED, zf_payload = [m, REASON_OK]\<rparr>, u)" "m \<in> {0, 1, 2}"
  shows "set_mode (script_io stream) m 1 1 s = Some (Inr (), u)"
proof -
  have frame: "zf_type \<lparr>zf_type = MODE_CHANGED, zf_payload = [m, REASON_OK]\<rparr> = MODE_CHANGED"
    "require_not_error \<lparr>zf_type = MODE_CHANGED, zf_payload = [m, REASON_OK]\<rparr> = Inr \<lparr>zf_type = MODE_CHANGED, zf_payload = [m, REASON_OK]\<rparr>"
    "validate_mode_changed \<lparr>zf_type = MODE_CHANGED, zf_payload = [m, REASON_OK]\<rparr> = Inr (m, REASON_OK)"
    using assms(2) by (auto simp: require_not_error_def validate_mode_changed_def zero_constants Let_def)
  have "encode_frame MODE_SET [m] = Inr (wire_frame MODE_SET [m])" using zero_types by (simp add: encode_frame_wire)
  then have "send_encoded (script_io stream) (encode_frame MODE_SET [m]) s
      = Some (Inr (), s\<lparr>pt_stream := (fst (pt_stream s), snd (pt_stream s) @ wire_frame MODE_SET [m])\<rparr>)"
    by (simp add: send_encoded_def and_then_def lift_result_def write_bytes_def script_io_def returns_def)
  with script_await [OF assms(1) frame(1,2)] assms(2) frame(3) show ?thesis
    by (auto simp: set_mode_def and_then_def returns_def numeral_2_eq_2)
qed

section \<open>A session that records two reports\<close>

definition sample_captures :: "(u64 \<times> hid_report) list" where
  "sample_captures = [(5, report_of_bytes [0, 0, 4, 0, 0, 0, 0, 0]), (9, report_of_bytes [0, 0, 0, 0, 0, 0, 0, 0])]"

definition sample_messages :: "message list" where
  "sample_messages = [(PICO_UART_MODE_CHANGED, [MODE_RECORD, REASON_OK])] @ map record_of sample_captures
     @ [(PICO_UART_MODE_CHANGED, [MODE_PASS, REASON_OK])]"

lemma record_of_message: "pico_message (record_of x)" "length (snd (record_of x)) = 17"
  by (simp_all add: record_of_def nth_append)

lemma sample_stream: "list_all pico_message sample_messages" "length (wire_stream sample_messages) \<le> 256"
  by (simp_all add: sample_messages_def sample_captures_def record_of_message frame_bytes_stream frame_of_def)

definition sample_session :: "(nat \<times> u8 list) recording_session" where
  "sample_session = pico_transport.extend (pico_transport_init (0, []))
     (recording_session.fields ''a'' 1 (builder_of ''a'' []) False False 0 (\<lambda>_. None))"

lemma sample_session_init: "recording_session_init (pico_transport_init (0, [])) (\<lambda>_. None) ''a'' 1 = Inr sample_session"
  by (simp add: recording_session_init_def recording_builder_init_def validate_name_def name_start_def name_char_def sample_session_def
      builder_of_def recorded_events_def)

text \<open>A report that is next to be consumed.\<close>

lemma capture_values_ok: "report_ok (snd (capture_values x))" "0 \<le> fst (capture_values x)" "fst (capture_values x) \<le> MAX_U64"
proof -
  have "uint b \<le> 255" for b :: u8 using uint_lt2p [of b] by simp
  then show "report_ok (snd (capture_values x))" by (auto simp: report_ok_def capture_values_def)
  have "uint (fst x) \<le> 18446744073709551615" using uint_lt2p [of "fst x"] by simp
  then show "0 \<le> fst (capture_values x)" "fst (capture_values x) \<le> MAX_U64"
    by (simp_all add: capture_values_def MAX_U64_def push_bit_eq_mult)
qed

lemma consume_record:
  assumes "captures_ok (xs @ [capture_values x])"
  shows "session_consume (frame_of (record_of x)) (builder_of n xs, k) = Inr (builder_of n (xs @ [capture_values x]), k + 1)"
proof -
  have "captures_ok xs" using assms by (simp add: captures_ok_append)
  note add = builder_add [OF this, of "fst (capture_values x)" "snd (capture_values x)" n]
  have "validate_boot_report (snd (capture_values x)) = Inr (snd (capture_values x))"
    using capture_values_ok(1) by (simp add: validate_report_iff)
  then have "validate_record_event (frame_of (record_of x)) = Inr (capture_values x)"
    by (simp add: validate_record_event_def frame_of_def record_of_def constants_agree capture_values_def nth_append)
  moreover have "recording_builder_add (fst (capture_values x)) (snd (capture_values x)) (builder_of n xs) = Inr (builder_of n (xs @ [capture_values x]))"
    using add assms by simp
  moreover have "zf_type (frame_of (record_of x)) = RECORD_EVENT" by (simp add: frame_of_def record_of_def constants_agree)
  ultimately show ?thesis by (simp add: session_consume_def split_beta)
qed

lemma record_frame: "require_not_error (frame_of (record_of x)) = Inr (frame_of (record_of x))"
  by (simp add: require_not_error_def frame_of_def record_of_def zero_constants pico_constants)

lemma pending_record:
  assumes "pt_pending s = frame_of (record_of x) # fs" "rs_builder s = builder_of n xs" "captures_ok (xs @ [capture_values x])"
  shows "receive_and_consume io timeout s = Some (Inr (), s\<lparr>pt_pending := fs, rs_builder := builder_of n (xs @ [capture_values x]),
    rs_event_count := Suc (rs_event_count s)\<rparr>)"
  using pending_receive [OF assms(1)] consume_record [OF assms(3), of n] assms(2)
  by (simp add: receive_and_consume_def consume_checked_def consume_def and_then_def lift_result_def record_frame returns_def)

definition zero_recording :: recording where
  "zero_recording = recorded ''a'' (map capture_values sample_captures)"

definition sample_recorded :: "(nat \<times> u8 list) recording_session" where
  "sample_recorded = sample_session\<lparr>pt_stream := (length (wire_stream sample_messages), wire_frame MODE_SET [MODE_RECORD] @ wire_frame MODE_SET [MODE_PASS]),
     rs_builder := builder_of ''a'' (map capture_values sample_captures), rs_started := True, rs_finished := True, rs_event_count := 2,
     rs_store := [''a'' \<mapsto> Some (recording_to_dict zero_recording)]\<rparr>"

lemma session_fields:
  "pt_stream sample_session = (0, [])" "pt_pending sample_session = []" "pt_decoder sample_session = incremental_decoder_init"
  "pt_read_size sample_session = 256" "rs_name sample_session = ''a''" "rs_mode_timeout sample_session = 1"
  "rs_builder sample_session = builder_of ''a'' []" "\<not> rs_finished sample_session" "rs_store sample_session = (\<lambda>_. None)"
  "rs_event_count sample_session = 0"
  by (simp_all add: sample_session_def pico_transport_init_def pico_transport.defs recording_session.defs)

lemma name_a: "validate_name ''a'' = Inr ''a''"
  by (simp add: validate_name_def name_start_def name_char_def)

lemma changed_frame: "frame_of (PICO_UART_MODE_CHANGED, body) = \<lparr>zf_type = MODE_CHANGED, zf_payload = body\<rparr>"
  by (simp add: frame_of_def constants_agree)

lemma sample_split: "sample_messages = (PICO_UART_MODE_CHANGED, [MODE_RECORD, REASON_OK]) # tl sample_messages"
  "map frame_of (tl sample_messages) = map (\<lambda>x. frame_of (record_of x)) sample_captures @ [pass_confirmed]"
  by (simp_all add: sample_messages_def changed_frame pass_confirmed_def)

definition sample_open :: "(nat \<times> u8 list) recording_session" where
  "sample_open = sample_session\<lparr>pt_stream := (length (wire_stream sample_messages), wire_frame MODE_SET [MODE_RECORD]),
     pt_pending := map frame_of (tl sample_messages), rs_started := True\<rparr>"

lemma sample_mode_set:
  "set_mode (script_io (wire_stream sample_messages)) MODE_RECORD 1 1 sample_session
    = Some (Inr (), sample_session\<lparr>pt_stream := (length (wire_stream sample_messages), wire_frame MODE_SET [MODE_RECORD]),
        pt_pending := map frame_of (tl sample_messages)\<rparr>)"
proof -
  let ?s = "sample_session\<lparr>pt_stream := (0, wire_frame MODE_SET [MODE_RECORD])\<rparr>"
  have "receive_frame (script_io (wire_stream sample_messages)) 1 ?s
      = Some (Inr \<lparr>zf_type = MODE_CHANGED, zf_payload = [MODE_RECORD, REASON_OK]\<rparr>,
          ?s\<lparr>pt_stream := (length (wire_stream sample_messages), wire_frame MODE_SET [MODE_RECORD]), pt_pending := map frame_of (tl sample_messages)\<rparr>)"
    using script_receive [of ?s "wire_frame MODE_SET [MODE_RECORD]" "(PICO_UART_MODE_CHANGED, [MODE_RECORD, REASON_OK])" "tl sample_messages" 1]
      sample_stream
    by (simp only: sample_split(1) [symmetric] changed_frame) (simp add: session_fields)
  with script_set_mode [of "wire_stream sample_messages" sample_session MODE_RECORD] show ?thesis
    by (simp add: session_fields MODE_RECORD_def)
qed

lemma sample_opened: "recording_session_start (script_io (wire_stream sample_messages)) sample_session = Some (Inr (), sample_open)"
  using sample_mode_set
  by (simp add: recording_session_start_def store_exists_def session_fields name_a and_then_def returns_def sample_open_def)

lemma sample_captures_ok: "captures_ok (map capture_values sample_captures)" "captures_ok (map capture_values (butlast sample_captures))"
  using capture_values_ok by (auto simp: captures_ok_def sample_captures_def) (simp_all add: capture_values_def)

lemma sample_rounds:
  assumes "pt_pending s = map (\<lambda>x. frame_of (record_of x)) sample_captures @ fs" "rs_builder s = builder_of n []"
  shows "record_rounds io interval 2 s = Some (Inr (), s\<lparr>pt_pending := fs, rs_builder := builder_of n (map capture_values sample_captures),
    rs_event_count := rs_event_count s + 2\<rparr>)"
proof -
  obtain x y where xy: "sample_captures = [x, y]" by (simp add: sample_captures_def)
  have ok: "captures_ok ([] @ [capture_values x])" "captures_ok ([capture_values x] @ [capture_values y])"
    using sample_captures_ok by (simp_all add: xy)
  have "pt_pending s = frame_of (record_of x) # frame_of (record_of y) # fs" using assms(1) by (simp add: xy)
  note one = pending_record [OF this assms(2) ok(1), of io interval]
  let ?s = "s\<lparr>pt_pending := frame_of (record_of y) # fs, rs_builder := builder_of n ([] @ [capture_values x]), rs_event_count := Suc (rs_event_count s)\<rparr>"
  have "pt_pending ?s = frame_of (record_of y) # fs" "rs_builder ?s = builder_of n [capture_values x]" by simp_all
  note two = pending_record [OF this ok(2), of io interval]
  show ?thesis using one two by (simp add: numeral_2_eq_2 returns_def xy)
qed

lemma sample_stop:
  assumes "pt_pending s = [pass_confirmed]" "rs_builder s = builder_of ''a'' (map capture_values sample_captures)" "rs_started s" "\<not> rs_finished s"
    "rs_mode_timeout s = 1" "rs_store s = (\<lambda>_. None)" "pt_stream s = (k, sent)"
  shows "recording_session_stop (script_io stream) s = Some (Inr zero_recording,
    s\<lparr>pt_stream := (k, sent @ wire_frame MODE_SET [MODE_PASS]), pt_pending := [], rs_finished := True,
      rs_store := [''a'' \<mapsto> Some (recording_to_dict zero_recording)]\<rparr>)"
proof -
  let ?s = "s\<lparr>pt_stream := (k, sent @ wire_frame MODE_SET [MODE_PASS])\<rparr>"
  have "receive_frame (script_io stream) 1 ?s = Some (Inr \<lparr>zf_type = MODE_CHANGED, zf_payload = [MODE_PASS, REASON_OK]\<rparr>, ?s\<lparr>pt_pending := []\<rparr>)"
    using pending_receive [of ?s pass_confirmed "[]"] assms(1) by (simp add: pass_confirmed_def)
  with script_set_mode [of stream s MODE_PASS] have
    "set_mode (script_io stream) MODE_PASS 1 1 s = Some (Inr (), ?s\<lparr>pt_pending := []\<rparr>)" by (simp add: assms(7) MODE_PASS_def)
  moreover note build_recording(1) [OF sample_captures_ok(1) name_a, folded recorded_def zero_recording_def]
  ultimately show ?thesis using assms
    by (simp add: recording_session_stop_def and_then_def drain_pending_frames_def returns_def store_save_def name_a zero_recording_def)
qed

lemma sample_records:
  "run_recording (script_io (wire_stream sample_messages)) 1 2 sample_open
    = Some (Inl zero_recording, sample_recorded)"
proof -
  let ?io = "script_io (wire_stream sample_messages)" and ?n = "length (wire_stream sample_messages)"
  define c where "c = sample_open\<lparr>pt_pending := [pass_confirmed], rs_builder := builder_of ''a'' (map capture_values sample_captures),
    rs_event_count := 2\<rparr>"
  have "record_rounds ?io 1 2 sample_open = Some (Inr (), c)"
    using sample_rounds [of sample_open "[pass_confirmed]" "''a''" ?io 1] by (simp add: sample_open_def c_def session_fields sample_split(2))
  moreover from sample_stop [of c ?n "wire_frame MODE_SET [MODE_RECORD]" "wire_stream sample_messages"] have
    "recording_session_stop ?io c = Some (Inr zero_recording, sample_recorded)"
    by (simp add: sample_open_def c_def session_fields sample_recorded_def)
  ultimately show ?thesis by (simp add: run_recording_def and_then_def)
qed

lemma sample_frames: "frames_in (script_in (wire_stream sample_messages)) sample_recorded = map frame_of sample_messages"
  using decode_wire_stream [OF sample_stream(1)] by (simp add: frames_in_def script_in_def sample_recorded_def)

lemma sample_record_events: "record_events sample_messages = map record_of sample_captures"
  by (simp add: record_events_def sample_messages_def sample_captures_def record_of_def) (simp add: pico_constants)

lemma sample_values: "map capture_values sample_captures = [(5, [0, 0, 4, 0, 0, 0, 0, 0]), (9, [0, 0, 0, 0, 0, 0, 0, 0])]"
  by (simp add: sample_captures_def capture_values_def report_bytes_def report_of_bytes_def)

section \<open>Its playback on the link\<close>

definition sample_environment :: environment where
  "sample_environment = \<lparr>en_time = 0, en_elapsed = 0, en_metrics = replicate 33 0, en_errors = [0, 0, 0]\<rparr>"

lemma sample_environment_ok: "metrics_ok sample_environment" "env_ok sample_environment"
  by (simp_all add: metrics_ok_def env_ok_def sample_environment_def)

definition sample_link :: linked where
  "sample_link = \<lparr>lk_pico = spec_init, lk_wire = [], lk_got = [], lk_sent = []\<rparr>"

lemma zero_recording_ok: "recording_ok zero_recording" "rc_events zero_recording \<noteq> []" "rc_duration_us zero_recording = 4"
  using build_recording(2) [OF sample_captures_ok(1) name_a]
  by (simp_all add: zero_recording_def recorded_def)
    (simp_all add: sample_captures_def recorded_events_def recorded_duration_def capture_values_def)

definition sample_events :: "(int \<times> u8 list) list" where
  "sample_events = [(0, [0, 0, 4, 0, 0, 0, 0, 0]), (4, [0, 0, 0, 0, 0, 0, 0, 0])]"

lemma sample_offsets: "expand_offsets (rc_events zero_recording) (Some 1) = Inr sample_events"
  using expand_recorded [OF sample_captures_ok(1)] zero_recording_ok(3)
  by (simp add: zero_recording_def) (simp add: sample_captures_def sample_events_def capture_values_def report_bytes_def report_of_bytes_def)

lemma double_numbers: "to_double 500 = 500" "to_double 500000 = 500000" "is_float 5"
  using to_double_int [of 500] to_double_int [of 500000] to_double_int [of 5] by (simp_all add: is_float_def)

definition sample_playback :: "linked playback_session" where
  "sample_playback = pico_transport.extend (pico_transport_init sample_link)
     (playback_session.fields sample_events 500000 1 (Some 5) False False False False 0 0 0 0 [] 0 0 0 None)"

lemma sample_playback_init:
  "playback_session_init (pico_transport_init sample_link) zero_recording (Some 1) (Some 500) (Some 1) (Some (Some 5)) = Inr sample_playback"
proof -
  have "round_half_even (fmul 500 1000) = 500000"
    using round_half_even_int [of 500000] by (simp add: fmul_def double_numbers)
  then show ?thesis by (simp add: playback_session_init_def sample_offsets sample_playback_def)
qed

section \<open>A feeder with 600 reports to send\<close>

definition sample_feeder :: "linked playback_session" where
  "sample_feeder = sample_playback\<lparr>pt_stream := sample_link\<lparr>lk_pico := spec_init\<lparr>sp_mode := MODE_PLAYING\<rparr>\<rparr>,
     pb_events := replicate 600 (0, replicate 8 0), pb_free_capacity := 512, pb_deadline := 5\<rparr>"

lemma sample_feeding: "feeding MODE_PLAYING [] (spec_init\<lparr>sp_mode := MODE_PLAYING\<rparr>) sample_feeder"
proof -
  have "list_all zero_event_ok (replicate 600 (0, replicate 8 0))"
    by (simp add: list_all_iff zero_event_ok_def MAX_U64_def)
  then show ?thesis
    by (simp add: feeding_def on_link_def inbox_def in_time_def skipped_ok_def sample_feeder_def sample_playback_def sample_link_def
        double_numbers spec_init_def pico_transport_init_def pico_transport.defs playback_session.defs)
qed

lemma sample_feeder_fields: "pb_free_capacity sample_feeder = 512" "pb_next_event sample_feeder = 0" "length (pb_events sample_feeder) = 600"
  by (simp_all add: sample_feeder_def sample_playback_def pico_transport.defs playback_session.defs)

lemma sample_playback_prebuffer: "prebuffer_count (pb_prebuffer_us sample_playback) (pb_events sample_playback) \<le> 512"
  by (simp add: sample_playback_def sample_events_def pico_transport.defs playback_session.defs)

lemma sample_link_fields: "lk_wire sample_link = []" "sp_room (lk_pico sample_link) = 2048" "sp_mode (lk_pico sample_link) = MODE_PASS"
  "sp_pc (lk_pico sample_link) = []"
  by (simp_all add: sample_link_def spec_init_def constants_agree)

lemma sample_reports: "map (\<lambda>e. map of_int (re_report e)) (rc_events zero_recording) = map snd sample_events"
  by (simp add: replayed_reports [OF sample_offsets])

lemma sample_plays: "\<exists>result u. session_play (pico_io sample_environment) True sample_playback = Some (Inr result, u)"
  using run_from_init [OF sample_playback_init zero_recording_ok(1,2) sample_link_fields(1-3) float_1 double_numbers(3) sample_playback_prebuffer
      sample_environment_ok(1)] by blast

section \<open>A store with one recording\<close>

lemma sample_loaded:
  "store_load ''a'' [''a'' \<mapsto> Some (recording_to_dict zero_recording)] = Inr zero_recording"
  using saved_is_loaded(1) [OF zero_recording_ok(1), of "\<lambda>_. None" "[''a'' \<mapsto> Some (recording_to_dict zero_recording)]"]
  by (simp add: store_save_def name_a zero_recording_def)

lemma sample_renamed: "store_rename ''a'' ''b'' [''a'' \<mapsto> Some (recording_to_dict zero_recording)]
    = Inr [''b'' \<mapsto> Some (recording_to_dict (zero_recording\<lparr>rc_name := ''b''\<rparr>))]"
proof -
  have "validate_name ''b'' = Inr ''b''" by (simp add: validate_name_def name_start_def name_char_def)
  moreover from this build_recording [OF sample_captures_ok(1)] have "recording_ok (recorded ''b'' (map capture_values sample_captures))"
    by (simp add: recorded_def)
  then have "make_recording ''b'' (rc_duration_us zero_recording) (rc_events zero_recording) FORMAT_VERSION = Inr (zero_recording\<lparr>rc_name := ''b''\<rparr>)"
    by (simp add: recording_ok_def zero_recording_def recorded_def)
  ultimately show ?thesis
    using sample_loaded by (simp add: store_rename_def store_save_def store_delete_def name_a zero_recording_def fun_eq_iff)
qed

section \<open>A silent stream and a clock that goes on\<close>

text \<open>The world is the time and the bytes written; nothing ever arrives.\<close>

definition ticking_io :: "(rat \<times> u8 list) zero_io" where
  "ticking_io =
     \<lparr>io_read = (\<lambda>n z. (Some [], z)), io_write = (\<lambda>data z. (Some None, (fst z, snd z @ data))),
      io_clock = (\<lambda>z. (fst z + 1, (fst z + 1, snd z))), io_cancelled = (\<lambda>z. (False, z))\<rparr>"

lemma ticking_io_ok: "io_ok ticking_io (\<lambda>_. []) snd" "clock_advances ticking_io fst 1"
  by (simp_all add: io_ok_def clock_advances_def ticking_io_def)

definition silent_session :: "(rat \<times> u8 list) playback_session" where
  "silent_session = pico_transport.extend (pico_transport_init (0, []))
     (playback_session.fields sample_events 500000 1 (Some 5) False False False False 0 0 0 0 [] 0 0 0 None)"

lemma silent_capacity: "0 \<le> pb_free_capacity silent_session"
  by (simp add: silent_session_def pico_transport.defs playback_session.defs)

end
