(* ===== verification/Further_Laws.thy ===== *)
theory Further_Laws
  imports Sample_Runs Zero_Samples
begin

text \<open>
  More laws of single components and of the program, each with an instance: conservation of events in a run, streams of
  frames, the capture FIFO, the frames of RECORD, the USB host, the watchdog, the release, the UART interrupt, and the store of the Zero.
\<close>

text \<open>
  A call of the playback task returns, keeps the invariant, and plays from the front of the queue:
  the reports that went out, followed by those still queued, are the same list as before. No event is
  lost, repeated or reordered, also when the endpoint refuses a report in between.
\<close>

theorem playback_conserves_events:
  assumes "fw_inv w"
  shows "\<exists>w'. pico_playback_scheduler_task (sched_cb sdk) sdk w = Some w' \<and> fw_inv w'
    \<and> hid_out w' @ remaining w' = hid_out w @ remaining w"
  using task_ok [OF assms, of sdk] by (auto simp: sched_law_def)

theorem playback_conserves_events_witness:
  "\<exists>w'. pico_playback_scheduler_task (sched_cb fifo_sdk) fifo_sdk sample_playing = Some w' \<and> fw_inv w'
    \<and> hid_out w' @ remaining w' = hid_out sample_playing @ remaining sample_playing"
  by (rule playback_conserves_events) (rule sample_playing_inv)

text \<open>
  A stream of frames on the wire is received as exactly those frames, in order and with nothing
  between them, and the bytes after it are parsed from a frame boundary.
\<close>

theorem frame_stream_is_received:
  assumes "\<And>ty body. (ty, body) \<in> set fs \<Longrightarrow> length body \<le> 64"
  shows "fst (parse [] (concat (map (\<lambda>(ty, body). wire_frame ty body) fs) @ rest)) = fst (parse [] rest)
    \<and> events (snd (parse [] (concat (map (\<lambda>(ty, body). wire_frame ty body) fs) @ rest)))
        = map (\<lambda>(ty, body). Accept (mk_frame ty body)) fs @ events (snd (parse [] rest))"
  using parse_frame_stream [OF assms] .

theorem frame_stream_is_received_witness:
  "events (snd (parse [] (wire_frame 0x86 [] @ wire_frame 0x87 [2] @ []))) = [Accept (mk_frame 0x86 []), Accept (mk_frame 0x87 [2])]"
proof -
  have "length body \<le> 64" if "(ty, body) \<in> set [(0x86 :: u8, []), (0x87, [2 :: u8])]" for ty body
    using that by auto
  from frame_stream_is_received [of "[(0x86, []), (0x87, [2])]" "[]", OF this] show ?thesis by simp
qed

text \<open>
  The capture FIFO is a queue of at most 16 reports: for any sequence of pushes and pops, what was
  popped followed by what is left is what was there followed by what was accepted.
\<close>

theorem capture_is_a_fifo:
  assumes "kc_inv c"
  shows "popped (fst (fifo_run kc_enqueue kc_dequeue ops c)) @ kc_contents (snd (fifo_run kc_enqueue kc_dequeue ops c))
      = kc_contents c @ accepted ops (fst (fifo_run kc_enqueue kc_dequeue ops c))
    \<and> length (kc_contents (snd (fifo_run kc_enqueue kc_dequeue ops c))) \<le> 16"
  using kcf.fifo_order [OF assms, of ops] kcf.fifo_bound [OF assms, of ops] by simp

theorem capture_is_a_fifo_witness:
  "length (kc_contents (snd (fifo_run kc_enqueue kc_dequeue [Push (1, report_of_bytes (replicate 8 0)), Pop, Pop] sample_capture))) \<le> 16"
  using capture_is_a_fifo [OF sample_capture_inv] by blast

text \<open>
  What is typed in RECORD reaches the Zero. A dispatch in RECORD appends to the bytes for the Zero one
  RECORD_EVENT frame, with the time and the report, for each event it records, in the order of capture
  and nothing else, when the transmit ring has room for the events not recorded yet; and what it
  records followed by what is still not recorded is what was not recorded before.
\<close>

theorem recorded_events_reach_the_zero:
  assumes "fw_inv w" "mode_state w = PICO_UART_MODE_RECORD"
    "length (tx_pending w) + 24 * length (unrecorded (g_capture w)) \<le> 2048"
  shows "\<exists>recd. recd @ unrecorded (g_capture (dispatch_step sdk result w)) = unrecorded (g_capture w)
    \<and> (kc_view (g_capture (dispatch_step sdk result w)) = [] \<or> kc_head_recorded (g_capture (dispatch_step sdk result w)))
    \<and> tx_pending (dispatch_step sdk result w) = tx_pending w @ wire_stream (map record_message recd)"
  using recording_sends_messages [OF assms] .

theorem recorded_events_reach_the_zero_witness:
  "\<exists>recd. recd @ unrecorded (g_capture (dispatch_step fifo_sdk PICO_SAFETY_RELEASE_READY sample_recording)) = unrecorded sample_capture
    \<and> tx_pending (dispatch_step fifo_sdk PICO_SAFETY_RELEASE_READY sample_recording) = wire_stream (map record_message recd)"
  using recorded_events_reach_the_zero [OF sample_recording_facts, of fifo_sdk PICO_SAFETY_RELEASE_READY]
    sample_recording_capture by auto

text \<open>
  A report of the mounted keyboard is captured exactly in PASS and RECORD, with the time of the
  callback; a report of any other interface is without effect; reception is armed again exactly once.
\<close>

theorem host_reports_are_captured:
  assumes "tuh_hid_report_received_cb sdk dev ins rep len h c w = (h', c', w')" "kh_mode h" "kh_capture h"
  shows "c' = (if is_keyboard dev ins h \<and> (mode_state w = PICO_UART_MODE_PASS \<or> mode_state w = PICO_UART_MODE_RECORD)
      then snd (pico_keyboard_capture_push (fst (sdk_time_us_64 sdk (hw w))) rep (unat len) c) else c)
    \<and> receive_requests (kh_stats h') = receive_requests (kh_stats h) + (if is_keyboard dev ins h then 1 else 0)
    \<and> mode_state w' = mode_state w"
  using report_received_effect [OF assms] by (auto simp: mode_defs)

theorem host_reports_are_captured_witness:
  "\<exists>h' c' w'. tuh_hid_report_received_cb fifo_sdk 1 0 (Some (replicate 8 0)) 8 (pico_hid_keyboard_host_init True True)
      sample_capture sample_init = (h', c', w') \<and> c' = sample_capture"
proof -
  obtain h' c' w' where t: "tuh_hid_report_received_cb fifo_sdk 1 0 (Some (replicate 8 0)) 8 (pico_hid_keyboard_host_init True True)
      sample_capture sample_init = (h', c', w')" using prod_cases3 by blast
  from host_reports_are_captured [OF t] t show ?thesis
    by (simp add: pico_hid_keyboard_host_init_def is_keyboard_def)
qed

text \<open>
  The expired watchdog ends a stalled playback: in PLAYING, two seconds after the underrun began,
  the main loop enters a safe ERROR.
\<close>

theorem watchdog_enters_error:
  assumes "mode_state w = PICO_UART_MODE_PLAYING" "in_underrun (w_sched w) since"
    "unat since + 2000000 \<le> unat (fst (sdk_time_us_64 sdk (hw w)))"
  shows "safe_error (watchdog_step sdk w)"
proof -
  let ?w1 = "snd (time_us_64 sdk w)"
  have "watchdog_step sdk w = pico_mode_state_underrun_fault (mode_cb sdk) ?w1"
    using assms watchdog_iff [OF assms(2)]
    by (simp add: watchdog_step_def pico_mode_state_get_def Let_def split_beta time_us_64_def)
  moreover have "safe_error (pico_mode_state_underrun_fault (mode_cb sdk) ?w1)"
    using assms(1) by (intro error_is_safe [of ?w1] protocol_error_effect(3)) (simp_all add: time_us_64_def mode_defs)
  ultimately show ?thesis by simp
qed

theorem watchdog_enters_error_witness:
  "safe_error (watchdog_step (fifo_sdk\<lparr>sdk_time_us_64 := (\<lambda>e. (2000000, e))\<rparr>) (sample_underrun\<lparr>mode_state := 3\<rparr>))"
  by (rule watchdog_enters_error [where since = 0]) (use sample_underrun_facts in \<open>simp_all add: mode_defs\<close>)

text \<open>
  A release that cannot be sent is retried: with an endpoint that refuses \<open>k\<close> times and then
  accepts, it is sent on that attempt and never again.
\<close>

theorem release_is_sent_once:
  assumes "sr_pending r" "\<And>i. i < k \<Longrightarrow> \<not> fst (send ((attempt send ^^ i) u))" "fst (send ((attempt send ^^ k) u))"
  shows "service_times (k + Suc n) send (r, u) =
    (replicate k PICO_SAFETY_RELEASE_BLOCKED @ PICO_SAFETY_RELEASE_SENT # replicate n PICO_SAFETY_RELEASE_READY,
     r\<lparr>sr_pending := False\<rparr>, (attempt send ^^ Suc k) u)"
  by (rule service_times_retry) (use assms in simp_all)

theorem release_is_sent_once_witness:
  "service_times (2 + Suc 1) (\<lambda>u :: nat. (2 \<le> u, Suc u)) (\<lparr>sr_pending = True\<rparr>, 0) =
    (replicate 2 PICO_SAFETY_RELEASE_BLOCKED @ PICO_SAFETY_RELEASE_SENT # replicate 1 PICO_SAFETY_RELEASE_READY,
     \<lparr>sr_pending = False\<rparr>, 3)"
proof -
  have a: "(attempt (\<lambda>u :: nat. (2 \<le> u, Suc u)) ^^ i) 0 = i" for i
    by (induction i) (simp_all add: attempt_def)
  show ?thesis
    using release_is_sent_once [of "\<lparr>sr_pending = True\<rparr>" 2 "\<lambda>u :: nat. (2 \<le> u, Suc u)" 0 1] unfolding a by simp
qed

text \<open>
  The interrupt handler returns and stores every byte of the UART FIFO in order, after noting a
  receive error if the UART reports one.
\<close>

theorem interrupt_stores_the_fifo:
  assumes "uart_fifo_ok sdk pend"
  shows "\<exists>e'. uart0_irq_handler sdk (Some t) e = Some (Some (deliver (pend e)
      (if fst (sdk_uart_rsr sdk e) \<noteq> 0 then pico_uart_transport_hardware_error_isr t else t)), e') \<and> pend e' = []"
  using irq_handler_delivers [OF assms] .

theorem interrupt_stores_the_fifo_witness:
  "\<exists>e'. uart0_irq_handler fifo_sdk (Some pico_uart_transport_init) [1, 2]
     = Some (Some (deliver [1, 2] pico_uart_transport_init), e') \<and> e' = []"
  using interrupt_stores_the_fifo [OF fifo_sdk_ok, of pico_uart_transport_init "[1, 2]"] by (simp add: fifo_sdk_def)

text \<open>
  The store gives back what was saved. A recording that \<open>rename\<close> moves is loaded under its new name, which
  was free, with the same events and length; the old name is free afterwards, and no other file changed.
\<close>

theorem rename_moves_the_recording:
  assumes "store_rename old new dir = Inr dir'"
  shows "\<exists>r. store_load old dir = Inr r \<and> store_load new dir' = Inr (r\<lparr>rc_name := new\<rparr>) \<and> dir new = None \<and> dir' old = None
    \<and> (\<forall>n. n \<noteq> old \<and> n \<noteq> new \<longrightarrow> dir' n = dir n)"
  using assms by (rule renamed_recording)

theorem rename_moves_the_recording_witness:
  "\<exists>dir'. store_load ''b'' dir' = Inr (zero_recording\<lparr>rc_name := ''b''\<rparr>) \<and> dir' ''a'' = None"
  using rename_moves_the_recording [OF sample_renamed] sample_loaded by auto

end
