(* ===== verification/Firmware_Runs.thy ===== *)
theory Firmware_Runs
  imports Firmware_Playing Firmware_Alarm Firmware_Answers
begin

text \<open>
  A run of playback of \<open>pico/src/main.c\<close> as the program measures it: from PLAY_START over the rounds of the
  playback task, between which the other steps of the program come in any order, to the PLAY_METRICS at
  its end; and an underrun from the round in which it begins to the watchdog.
\<close>

section \<open>What the other steps leave alone\<close>

text \<open>The labels of commands that stream events, end the sequence or start playback.\<close>

definition streams :: "step_label \<Rightarrow> bool" where
  "streams l \<longleftrightarrow> (\<exists>f. l = Command f \<and> (fr_type f = PICO_UART_QUEUE_EVENT \<or> fr_type f = PICO_UART_QUEUE_END
     \<or> fr_type f = PICO_UART_PLAY_START))"

text \<open>\<open>same_play\<close>: scheduler and queue as they were; \<open>same_measures\<close>: at most the end of the sequence was marked.\<close>

definition same_play :: "'e globals \<Rightarrow> 'e globals \<Rightarrow> bool" where
  "same_play w w' \<longleftrightarrow> w_sched w' = w_sched w \<and> w_queue w' = w_queue w"

definition same_measures :: "'e globals \<Rightarrow> 'e globals \<Rightarrow> bool" where
  "same_measures w w' \<longleftrightarrow> (\<exists>b. w_sched w' = (w_sched w)\<lparr>ps_sequence_ended := b\<rparr>)"

lemma same_play_measures: "w_sched w' = w_sched w \<Longrightarrow> same_measures w w'"
  unfolding same_measures_def by (intro exI [of _ "ps_sequence_ended (w_sched w)"]) simp

lemma same_play_tx: "tx_only_step w w' \<Longrightarrow> same_play w w'"
  using tx_only_step_fields [of w w'] by (simp add: same_play_def)

lemma same_play_keep:
  assumes "fst (mode_table op (mode_state w)) = Keep"
  shows "same_play w (snd (mode_step (mode_cb sdk) op w))"
proof -
  obtain s' reason ok where t: "mode_table op (mode_state w) = (Keep, s', reason, ok)"
    using assms by (cases "mode_table op (mode_state w)") auto
  from mode_step_effect(2) [OF t, of 2 sdk] show ?thesis by (simp add: mode_effect_def same_play_def)
qed

lemma ack_same_play:
  assumes "mode_state w = PICO_UART_MODE_PLAYING" "mode_state (ack_or_error sdk w) = PICO_UART_MODE_PLAYING"
  shows "same_play w (ack_or_error sdk w)"
proof -
  have "fst (send_buffer_status w)"
    using assms by (auto simp: ack_or_error_def Let_def split_beta mode_defs split: if_splits)
  then have "tx_only_step w (ack_or_error sdk w)" by (simp add: ack_or_error_def Let_def split_beta)
  then show ?thesis by (rule same_play_tx)
qed

text \<open>PLAY_START is refused while PLAYING; so is QUEUE_CLEAR, and that ends the run.\<close>

lemma command_measures:
  fixes w :: "'e globals" and sdk :: "'e sdk"
  assumes "command_ok f" "mode_state w = PICO_UART_MODE_PLAYING"
    "mode_state (dispatch_command sdk f w) = PICO_UART_MODE_PLAYING"
  shows "same_measures w (dispatch_command sdk f w) \<and> (\<not> streams (Command f) \<longrightarrow> same_play w (dispatch_command sdk f w))"
proof -
  note play = assms(2)
  have plain: ?thesis if "same_play w (dispatch_command sdk f w)" using that same_play_measures by (auto simp: same_play_def)
  have op: ?thesis if "dispatch_command sdk f w = snd (mode_step (mode_cb sdk) op w)" "op \<noteq> Play_Start" for op
  proof -
    from that(1) mode_step_next [of sdk op w] play assms(3) have "fst (mode_table op (mode_state w)) = Keep"
      using that(2) by (cases op) (auto simp: mode_defs split: if_splits)
    from same_play_keep [OF this] that(1) show ?thesis using plain by metis
  qed
  consider (start) "fr_type f = PICO_UART_PLAY_START" | (event) "fr_type f = PICO_UART_QUEUE_EVENT"
    | (ended) "fr_type f = PICO_UART_QUEUE_END" | (clear) "fr_type f = PICO_UART_QUEUE_CLEAR"
    | (set) "fr_type f = PICO_UART_MODE_SET" | (abort) "fr_type f = PICO_UART_PLAY_ABORT"
    | (status) "fr_type f = PICO_UART_STATUS_REQUEST" | (ping) "fr_type f = PICO_UART_PING"
    using assms(1) unfolding command_ok_def command_iff by blast
  then show ?thesis
  proof cases
    case start
    let ?w1 = "snd (time_us_64 sdk w)"
    have m: "mode_state ?w1 = PICO_UART_MODE_PLAYING" using play by (simp add: time_us_64_def)
    then have "fst (mode_table Play_Start (mode_state ?w1)) = Keep" by (simp add: mode_defs)
    from same_play_keep [OF this, of sdk] have "same_play w (snd (pico_mode_state_play_start (mode_cb sdk) ?w1))"
      by (simp add: same_play_def)
    moreover have "dispatch_command sdk f w = snd (pico_mode_state_play_start (mode_cb sdk) ?w1)"
      using start m by (simp add: dispatch_command_def Let_def split_beta zero_type_defs pico_mode_state_play_start_def mode_defs)
    ultimately show ?thesis using plain by simp
  next
    case event
    let ?push = "pico_playback_queue_push (read_u64_le (fr_payload f)) (Some (drop 9 (fr_payload f))) 8 (w_queue w)"
    let ?w1 = "w\<lparr>w_queue := snd ?push\<rparr>"
    have eq: "dispatch_command sdk f w = (if fst ?push then ack_or_error sdk ?w1 else pico_mode_state_protocol_error (mode_cb sdk) ?w1)"
      using play event by (simp add: dispatch_command_def dispatch_queue_command_def Let_def split_beta
          pico_uart_queue_command_allowed_def zero_type_defs)
    have "mode_state (pico_mode_state_protocol_error (mode_cb sdk) ?w1) \<noteq> PICO_UART_MODE_PLAYING"
      using play by (simp add: mode_defs)
    with assms(3) have "fst ?push" unfolding eq by (cases "fst ?push") simp_all
    with eq have w': "dispatch_command sdk f w = ack_or_error sdk ?w1" by simp
    have "same_play ?w1 (ack_or_error sdk ?w1)" using assms(3) play unfolding w' by (intro ack_same_play) simp_all
    then have "same_measures w (dispatch_command sdk f w)" unfolding w' by (intro same_play_measures) (simp add: same_play_def)
    with event show ?thesis by (simp add: streams_def)
  next
    case ended
    let ?w1 = "sched_update pico_playback_scheduler_mark_sequence_ended w"
    have "dispatch_command sdk f w = ack_or_error sdk ?w1"
      using play ended by (simp add: dispatch_command_def dispatch_queue_command_def Let_def
          pico_uart_queue_command_allowed_def pico_constants)
    with ack_same_play [of ?w1 sdk] assms(3) play
    have "w_sched (dispatch_command sdk f w) = pico_playback_scheduler_mark_sequence_ended (w_sched w)"
      by (simp add: same_play_def)
    with ended show ?thesis
      by (auto simp: same_measures_def streams_def pico_playback_scheduler_mark_sequence_ended_def)
  next
    case clear
    then have "dispatch_command sdk f w = pico_mode_state_protocol_error (mode_cb sdk) w"
      using play by (simp add: dispatch_command_def dispatch_queue_command_def Let_def
          pico_uart_queue_command_allowed_def pico_constants)
    with op [of Protocol_Error] show ?thesis by simp
  next
    case set
    with op [of "Mode_Set (fr_payload f ! 0)"] show ?thesis by (simp add: dispatch_command_def)
  next
    case abort
    with op [of Play_Abort] show ?thesis by (simp add: dispatch_command_def zero_type_defs)
  next
    case status
    then have "dispatch_command sdk f w = send_status w" by (simp add: dispatch_command_def zero_type_defs)
    with same_play_tx [OF send_status_tx [of w]] plain show ?thesis by simp
  next
    case ping
    then have "tx_only_step w (dispatch_command sdk f w)" using command_ok_ping [OF assms(1)] by (simp add: dispatch_ping)
    from plain [OF same_play_tx [OF this]] show ?thesis .
  qed
qed

lemma host_callback_sched: "w_sched (host_callback sdk ev w) = w_sched w"
proof (cases ev)
  case (Mounted dev ins)
  obtain h w1 where m: "tuh_hid_mount_cb sdk dev ins (g_host w) w = (h, w1)" by fastforce
  from mount_effect(1) [OF m] obtain e where "w1 = w\<lparr>hw := e\<rparr>" by blast
  with Mounted m show ?thesis by simp
next
  case (Report_Received dev ins rep len)
  then show ?thesis
    by (simp add: tuh_hid_report_received_cb_def request_next_report_def Let_def split_beta time_us_64_def)
qed simp

lemma step_measures:
  assumes "fw_step sdk w l w'" "fw_inv w" "mode_state w = PICO_UART_MODE_PLAYING" "mode_state w' = PICO_UART_MODE_PLAYING"
    "l \<noteq> Playback"
  shows "same_measures w w' \<and> (\<not> streams l \<longrightarrow> same_play w w')"
proof -
  have plain: ?thesis if "w_sched w' = w_sched w" "w_queue w' = w_queue w"
    using that same_play_measures by (simp add: same_play_def)
  show ?thesis
    using assms(1)
  proof cases
    case (command f t)
    let ?w1 = "w\<lparr>g_transport := t\<rparr>"
    note ok = popped_command_ok(1,2) [OF assms(2) command(3)]
    from command_measures [OF ok(1), of ?w1 sdk] assms(3,4) command show ?thesis
      by (simp add: same_measures_def same_play_def)
  next
    case (release result)
    from release_step_effect [OF release(2)] show ?thesis by (intro plain) (cases result; auto)+
  next
    case (dispatch result)
    have "dispatch_step sdk result w = w"
      by (rule dispatch_step_effect(4) [OF assms(2)]) (use assms(3) in \<open>simp_all add: mode_defs\<close>)
    with dispatch plain show ?thesis by simp
  next
    case fault
    with assms(3,4) plain show ?thesis
      by (auto simp: fault_step_def Let_def split_beta mode_defs split: if_splits)
  next
    case flow_fault
    with assms(3,4) plain show ?thesis by (auto simp: flow_fault_step_def mode_defs split: if_splits)
  next
    case watchdog
    with assms(3,4) plain show ?thesis
      by (auto simp: watchdog_step_def Let_def split_beta time_us_64_def mode_defs split: if_splits)
  next
    case (usb_host ev)
    then show ?thesis by (intro plain) (simp_all add: host_callback_sched)
  next
    case transmit
    with transmit_step_effect(7,8) [OF assms(2), of sdk] show ?thesis by (intro plain) simp_all
  qed (use assms(5) plain in \<open>simp_all add: poll_step_def\<close>)
qed

section \<open>The figures of a run\<close>

text \<open>
  What a run is to report of the latenesses \<open>ls\<close> of its dispatches: their number, the least, the greatest, the
  sum in 64 bits, and the nearest-rank percentiles of the first 2048, with the mark that there were more.
\<close>

definition reports_run :: "int list \<Rightarrow> playback_metrics \<Rightarrow> bool" where
  "reports_run ls m \<longleftrightarrow> pm_dispatched_count m = of_nat (length ls)
     \<and> i32_int (pm_min_lateness_us m) = Min (set ls) \<and> i32_int (pm_max_lateness_us m) = Max (set ls)
     \<and> pm_sum_lateness_us m = word_of_int (sum_list ls)
     \<and> i32_int (pm_p95_lateness_us m) = sort (take 2048 ls) ! (nearest_rank 95 (min 2048 (length ls)) - 1)
     \<and> i32_int (pm_p99_lateness_us m) = sort (take 2048 ls) ! (nearest_rank 99 (min 2048 (length ls)) - 1)
     \<and> (pm_samples_truncated m \<longleftrightarrow> 2048 < length ls)"

lemma mono_i32_int: "mono i32_int"
  by (simp add: mono_def less_eq_i32_def)

lemma sort_i32_int: "sort (map i32_int xs) = map i32_int (sort xs)"
proof (rule properties_for_sort)
  have "sorted (sort xs)" by simp
  then show "sorted (map i32_int (sort xs))" by (simp add: sorted_iff_nth_mono less_eq_i32_def)
qed simp

lemma log_percentile:
  assumes "records ls s" "ls \<noteq> []" "0 < unat p" "unat p \<le> 100"
  shows "percentile (sort_samples (ps_lateness_samples s) (ps_sample_count s)) (ps_sample_count s) p
    = sort (take 2048 ls) ! (nearest_rank (unat p) (min 2048 (length ls)) - 1)"
    "nearest_rank (unat p) (min 2048 (length ls)) - 1 < min 2048 (length ls)"
proof -
  let ?n = "ps_sample_count s" and ?k = "min 2048 (length ls)"
  have n: "unat ?n = ?k" and inv: "samples_inv s"
    and tk: "take (unat ?n) (ps_lateness_samples s) = take 2048 ls"
    using assms(1) unfolding records_def by blast+
  have k: "0 < unat ?n" "unat ?n \<le> 2048" using n assms(2) by simp_all
  then have pc: "percentile xs ?n p = xs ! (nearest_rank (unat p) ?k - 1)" "0 < nearest_rank (unat p) ?k"
      "nearest_rank (unat p) ?k \<le> ?k" for xs
    using percentile_eq [of ?n p] assms(3,4) unfolding n by blast+
  then show lt: "nearest_rank (unat p) ?k - 1 < ?k" by linarith
  have "unat ?n \<le> length (ps_lateness_samples s)" using inv by (simp add: samples_inv_def)
  from sort_samples_eq [OF this] have "sort_samples (ps_lateness_samples s) ?n = sort (take 2048 ls) @ drop ?k (ps_lateness_samples s)"
    using tk n by simp
  with lt show "percentile (sort_samples (ps_lateness_samples s) (ps_sample_count s)) (ps_sample_count s) p
    = sort (take 2048 ls) ! (nearest_rank (unat p) ?k - 1)"
    by (simp add: pc(1) nth_append min.commute)
qed

lemma run_figures_report:
  assumes "records xs s" "xs \<noteq> []"
  shows "reports_run (map i32_int xs) (run_figures s)"
proof -
  have rank: "i32_int (percentile (sort_samples (ps_lateness_samples s) (ps_sample_count s)) (ps_sample_count s) p)
      = sort (take 2048 (map i32_int xs)) ! (nearest_rank (unat p) (min 2048 (length xs)) - 1)"
    if "0 < unat p" "unat p \<le> 100" for p
    using log_percentile [OF assms that] by (simp add: take_map sort_i32_int min.commute)
  have "i32_int (Min (set xs)) = Min (i32_int ` set xs)" "i32_int (Max (set xs)) = Max (i32_int ` set xs)"
    using mono_Min_commute [OF mono_i32_int, of "set xs"] mono_Max_commute [OF mono_i32_int, of "set xs"] assms(2) by simp_all
  with assms rank [of 95] rank [of 99] show ?thesis
    by (simp add: reports_run_def run_figures_def metrics_of_def records_def)
qed

text \<open>Steps that change no figure, nor the start of the run.\<close>

definition figures_kept :: "playback_scheduler \<Rightarrow> playback_scheduler \<Rightarrow> bool" where
  "figures_kept s s' \<longleftrightarrow> ps_dispatched_count s' = ps_dispatched_count s \<and> ps_min_lateness_us s' = ps_min_lateness_us s
     \<and> ps_max_lateness_us s' = ps_max_lateness_us s \<and> ps_sum_lateness_us s' = ps_sum_lateness_us s
     \<and> ps_lateness_samples s' = ps_lateness_samples s \<and> ps_sample_count s' = ps_sample_count s
     \<and> ps_samples_truncated s' = ps_samples_truncated s \<and> ps_playback_start_us s' = ps_playback_start_us s
     \<and> ps_running s' = ps_running s \<and> ps_sequence_ended s' = ps_sequence_ended s"

lemma figures_kept_trans: "figures_kept s t \<Longrightarrow> figures_kept t u \<Longrightarrow> figures_kept s u"
  by (simp add: figures_kept_def)

lemma figures_kept_records: "figures_kept s s' \<Longrightarrow> records ls s' = records ls s"
  by (simp add: figures_kept_def records_def samples_inv_def)

lemma figures_kept_updates [simp]:
  "figures_kept s s" "figures_kept s (s\<lparr>ps_alarm_fired := b\<rparr>)" "figures_kept s (s\<lparr>ps_alarm_armed := b\<rparr>)"
  "figures_kept s (s\<lparr>ps_alarm_armed := b, ps_alarm_fired := b'\<rparr>)"
  by (simp_all add: figures_kept_def)

section \<open>A round of the task\<close>

text \<open>
  \<open>ends_run\<close>: the run was finished from a state that still said what \<open>w\<close> says to the Zero, had the figures
  \<open>s\<close> and was PLAYING.
\<close>

definition same_wire :: "'e globals \<Rightarrow> 'e globals \<Rightarrow> bool" where
  "same_wire w w' \<longleftrightarrow> g_transport w' = g_transport w \<and> uart_out w' = uart_out w \<and> mode_state w' = mode_state w"

definition ends_run :: "'e sdk \<Rightarrow> playback_scheduler \<Rightarrow> 'e globals \<Rightarrow> 'e globals \<Rightarrow> bool" where
  "ends_run sdk s w w' \<longleftrightarrow> (\<exists>u. w' = finish (sched_cb sdk) PICO_UART_REASON_FINISHED u \<and> figures_kept s (w_sched u) \<and> same_wire w u)"

lemma arm_next_goes:
  assumes "arm_next cb sdk w = (True, w')"
  shows "figures_kept (w_sched w) (w_sched w')" "same_wire w w'" "hid_out w' = hid_out w"
    "\<not> ps_underrun_active (w_sched w')" "ps_underrun_count (w_sched w') = ps_underrun_count (w_sched w)"
  using assms
  by (auto simp: arm_next_def Let_def arm_alarm_def split_beta time_us_64_def disarm_def clear_fired_def figures_kept_def
      same_wire_def split: option.splits if_splits)

lemma arm_next_ends:
  fixes w :: "'e globals" and sdk :: "'e sdk"
  assumes "arm_next (sched_cb sdk) sdk w = (False, w')"
  shows "if ps_sequence_ended (w_sched w) then ends_run sdk (w_sched w) w w' else figures_kept (w_sched w) (w_sched w')"
proof -
  define w1 where "w1 = (if ps_alarm_armed (w_sched w) then clear_fired (disarm sdk w) else w)"
  have w1: "figures_kept (w_sched w) (w_sched w1)" "same_wire w w1" "ps_sequence_ended (w_sched w1) = ps_sequence_ended (w_sched w)"
    by (simp_all add: w1_def) (simp_all add: disarm_def clear_fired_def same_wire_def)
  have w': "w' = queue_empty_exit (sched_cb sdk) sdk w1"
    using assms by (simp add: arm_next_def Let_def w1_def [symmetric] split: option.splits)
  show ?thesis
  proof (cases "ps_sequence_ended (w_sched w)")
    case True
    with w' w1 have "w' = finish (sched_cb sdk) PICO_UART_REASON_FINISHED w1" by (simp add: queue_empty_exit_def)
    with True w1 show ?thesis by (auto simp: ends_run_def)
  next
    case False
    then have "w' = begin_underrun (sched_cb sdk) sdk w1" using w' w1(3) by (simp add: queue_empty_exit_def)
    then have "figures_kept (w_sched w1) (w_sched w')"
      by (simp add: begin_underrun_def Let_def split_beta scheduler_callbacks_def playback_underrun_def)
        (simp add: figures_kept_def)
    with w1(1) False show ?thesis using figures_kept_trans by simp
  qed
qed

lemma entry_goes:
  assumes "round_entry (sched_cb sdk) sdk w = (True, w1)"
  shows "figures_kept (w_sched w) (w_sched w1)" "same_wire w w1" "hid_out w1 = hid_out w"
  using assms arm_next_goes [of "sched_cb sdk" sdk w w1] by (auto simp: round_entry_def same_wire_def split: if_splits)

lemma due_keeps:
  assumes "event_due sdk w = (due, w')"
  shows "figures_kept (w_sched w) (w_sched w')" "same_wire w w'" "hid_out w' = hid_out w"
proof -
  have "same_wire w (snd (event_due sdk w))"
    by (simp add: event_due_def exchange_fired_def Let_def split_beta time_us_64_def clear_fired_def same_wire_def)
  with assms event_due_steps [of sdk w] show "figures_kept (w_sched w) (w_sched w')" "same_wire w w'" "hid_out w' = hid_out w"
    by simp_all
qed

lemma finish_hid: "hid_out (finish (sched_cb sdk) reason w) = hid_out w"
  using fws.finish_hid_out [of sdk reason w] by (simp add: scheduler_callbacks_def)

text \<open>
  The clock as it is read right after the endpoint took the head of the queue, and the deadline of the
  head: its offset after the start of the run.
\<close>

definition dispatch_time :: "'e sdk \<Rightarrow> 'e globals \<Rightarrow> u64" where
  "dispatch_time sdk w =
     (let due = snd (event_due sdk (snd (round_entry (sched_cb sdk) sdk w)));
          event = the (pico_playback_queue_peek (w_queue w))
      in fst (sdk_time_us_64 sdk (hw (snd (send_pass_report sdk (qe_report event) due)))))"

definition dispatches :: "u64 \<Rightarrow> 'e sdk \<Rightarrow> 'e globals \<Rightarrow> 'e globals \<Rightarrow> (u64 \<times> u64) list" where
  "dispatches start sdk w w' =
     (if hid_out w' = hid_out w then []
      else [(dispatch_time sdk w, start + qe_offset_us (the (pico_playback_queue_peek (w_queue w))))])"

lemma record_kept: "figures_kept s s' \<Longrightarrow> figures_kept (record_lateness l s) (record_lateness l s')"
  by (cases "ps_dispatched_count s = 0"; cases "unat (ps_sample_count s) < 2048")
    (simp_all add: figures_kept_def record_lateness_def Let_def cong: if_cong)

lemma ends_run_from:
  assumes "ends_run sdk s u w'" "figures_kept s' s" "same_wire w u"
  shows "ends_run sdk s' w w'"
proof -
  from assms(1) obtain v where "w' = finish (sched_cb sdk) PICO_UART_REASON_FINISHED v" "figures_kept s (w_sched v)" "same_wire u v"
    unfolding ends_run_def by (elim exE conjE)
  with figures_kept_trans [OF assms(2), of "w_sched v"] assms(3) show ?thesis
    unfolding ends_run_def by (intro exI [of _ v]) (simp add: same_wire_def)
qed

lemma after_send_measures:
  fixes w :: "'e globals" and sdk :: "'e sdk"
  assumes "after_send (sched_cb sdk) sdk w = (go, w')"
  defines "s \<equiv> record_lateness (lateness_us (fst (sdk_time_us_64 sdk (hw w))) (ps_next_deadline_us (w_sched w))) (w_sched w)"
  shows "figures_kept s (w_sched w') \<or> ends_run sdk s w w'" "hid_out w' = hid_out w"
proof -
  define w1 where "w1 = w\<lparr>w_queue := snd (pico_playback_queue_pop (w_queue w))\<rparr>"
  define w2 where "w2 = (if pico_playback_queue_free_capacity (Some (w_queue w)) = 0
     \<and> \<not> ps_sequence_ended (w_sched w1) then playback_buffer_available w1 else w1)"
  define w4 where "w4 = sched_update (\<lambda>s. record_lateness (lateness_us (fst (time_us_64 sdk w2)) (ps_next_deadline_us s)) s) (snd (time_us_64 sdk w2))"
  have "after_send (sched_cb sdk) sdk w = arm_next (sched_cb sdk) sdk w4"
    by (simp add: after_send_def w4_def w2_def w1_def Let_def split_beta scheduler_callbacks_def)
  with assms(1) have res: "arm_next (sched_cb sdk) sdk w4 = (go, w')" by simp
  have "hw w2 = hw w" "w_sched w2 = w_sched w"
    by (simp_all add: w2_def w1_def playback_buffer_available_def send_buffer_status_def Let_def split_beta)
  then have w4: "w_sched w4 = s" by (simp add: w4_def s_def time_us_64_def)
  have ended: "ps_sequence_ended s = ps_sequence_ended (w_sched w)" by (simp add: s_def)
  have wire: "same_wire w w4" if "ps_sequence_ended (w_sched w)"
    using that by (simp add: w4_def w2_def w1_def same_wire_def time_us_64_def)
  show "hid_out w' = hid_out w" using fws.after_send_hid_out [of sdk sdk w, folded scheduler_callbacks_def] assms(1) by simp
  show "figures_kept s (w_sched w') \<or> ends_run sdk s w w'"
  proof (cases go)
    case True
    with arm_next_goes(1) [of "sched_cb sdk" sdk w4 w'] res w4 show ?thesis by simp
  next
    case False
    with res have "arm_next (sched_cb sdk) sdk w4 = (False, w')" by simp
    from arm_next_ends [OF this, unfolded w4 ended] show ?thesis
      using ends_run_from [of sdk s w4 w' s w] wire by (cases "ps_sequence_ended (w_sched w)") simp_all
  qed
qed

lemma round_measures:
  fixes w :: "'e globals" and sdk :: "'e sdk"
  assumes "task_round (sched_cb sdk) sdk w = (go, w')" "sched_ok (w_queue w) (w_sched w)" "ps_running (w_sched w)"
  defines "s \<equiv> fold (\<lambda>d. record_lateness (lateness_us (fst d) (snd d))) (dispatches (ps_playback_start_us (w_sched w)) sdk w w') (w_sched w)"
  shows "figures_kept s (w_sched w') \<or> ends_run sdk s w w'"
proof -
  have same: ?thesis if "hid_out w' = hid_out w" "figures_kept (w_sched w) (w_sched w') \<or> ends_run sdk (w_sched w) w w'"
    using that by (simp add: s_def dispatches_def)
  note law = fws.entry_law [OF assms(2,3), of sdk sdk, folded scheduler_callbacks_def]
    and due = fws.due_law [OF assms(2,3), of sdk sdk, folded scheduler_callbacks_def]
  have at_due: "figures_kept (w_sched w) (w_sched w2)" "same_wire w w2" "hid_out w2 = hid_out w"
    if "round_entry (sched_cb sdk) sdk w = (True, w1)" "event_due sdk w1 = (d, w2)" for w1 d w2
    using entry_goes [OF that(1)] due_keeps [OF that(2)] figures_kept_trans by (auto simp: same_wire_def)
  show ?thesis
  proof (cases rule: program_rounds [of sdk w])
    case (entry w1)
    then have res: "arm_next (sched_cb sdk) sdk w = (False, w')" using assms(1) by (simp add: round_entry_def split: if_splits)
    with fws.arm_next_hid_out [of sdk sdk w, folded scheduler_callbacks_def] have "hid_out w' = hid_out w" by simp
    with arm_next_ends [OF res] show ?thesis by (intro same) (auto split: if_splits)
  next
    case (early w1 w2)
    with at_due [OF early(1,2)] assms(1) show ?thesis by (intro same) simp_all
  next
    case (empty w1 w2)
    with due(5) [OF empty(1,2)] show ?thesis by simp
  next
    case (refused w1 w2 e w3)
    have "w_sched w3 = w_sched w2" "hid_out w3 = hid_out w2"
      using fws.send_effect(2,3) [of sdk "qe_report e" w2] refused(4) by simp_all
    with at_due [OF refused(1,2)] refused(5) assms(1) show ?thesis by (intro same) simp_all
  next
    case (sent w1 w2 e w3)
    have w3: "w_sched w3 = w_sched w2" "hid_out w3 = hid_out w2 @ [report_bytes (qe_report e)]"
      using fws.send_effect(2,3) [of sdk "qe_report e" w2] sent(4) by simp_all
    have wire: "same_wire w2 w3"
      using send_pass_report_fields [of sdk "qe_report e" w2] send_pass_report_effect [of sdk "qe_report e" w2] sent(4)
      by (auto simp: same_wire_def)
    note keep = at_due [OF sent(1,2)]
    have res: "after_send (sched_cb sdk) sdk w3 = (go, w')" using sent(5) assms(1) by simp
    from due(3,5) [OF sent(1,2)] sent(3) have e: "pico_playback_queue_peek (w_queue w) = Some e"
      "ps_next_deadline_us (w_sched w1) = ps_playback_start_us (w_sched w2) + qe_offset_us e" by auto
    have "ps_next_deadline_us (w_sched w3) = ps_next_deadline_us (w_sched w1)"
      using w3(1) event_due_steps(4) [of sdk w1] sent(2) by simp
    moreover have "ps_playback_start_us (w_sched w2) = ps_playback_start_us (w_sched w)" using keep(1) by (simp add: figures_kept_def)
    ultimately have deadline: "ps_next_deadline_us (w_sched w3) = ps_playback_start_us (w_sched w) + qe_offset_us e" using e(2) by simp
    have "dispatch_time sdk w = fst (sdk_time_us_64 sdk (hw w3))" using sent(1,2,4) e(1) by (simp add: dispatch_time_def)
    moreover have "hid_out w' \<noteq> hid_out w" using after_send_measures(2) [OF res] w3(2) keep(3) by simp
    ultimately have s: "s = record_lateness (lateness_us (fst (sdk_time_us_64 sdk (hw w3))) (ps_next_deadline_us (w_sched w3))) (w_sched w)"
      using deadline e(1) by (simp add: s_def dispatches_def)
    have "figures_kept s (record_lateness (lateness_us (fst (sdk_time_us_64 sdk (hw w3))) (ps_next_deadline_us (w_sched w3))) (w_sched w3))"
      unfolding s using keep(1) w3(1) by (intro record_kept) simp
    moreover have "same_wire w w3" using keep(2) wire by (simp add: same_wire_def)
    ultimately show ?thesis
      using after_send_measures(1) [OF res] figures_kept_trans [of s] ends_run_from [of sdk _ w3 w' s w] by blast
  qed
qed

section \<open>Runs\<close>

text \<open>
  A run begins with a PLAY_START in ARMED, in a state that fulfils the invariant, at the time \<open>start\<close> the program samples for it; \<open>ds\<close> are the dispatches
  so far, each with the time at which the endpoint had taken the report and its deadline. Between the rounds of
  the playback task any other step may happen that leaves the mode PLAYING; this allows more orders than
  the main loop has.
\<close>

inductive play_run :: "'e sdk \<Rightarrow> u64 \<Rightarrow> (u64 \<times> u64) list \<Rightarrow> 'e globals \<Rightarrow> bool" for sdk :: "'e sdk" and start :: u64 where
  run_begins: "play_run sdk start [] (dispatch_command sdk f w)"
    if "fw_inv w" "mode_state w = PICO_UART_MODE_ARMED" "fr_type f = PICO_UART_PLAY_START"
      "start = fst (sdk_time_us_64 sdk (hw w))"
| run_step: "play_run sdk start ds w'"
    if "play_run sdk start ds w" "mode_state w = PICO_UART_MODE_PLAYING" "fw_step sdk w l w'" "l \<noteq> Playback"
      "mode_state w' = PICO_UART_MODE_PLAYING"
| run_round: "play_run sdk start (ds @ dispatches start sdk w w') w'"
    if "play_run sdk start ds w" "mode_state w = PICO_UART_MODE_PLAYING" "task_round (sched_cb sdk) sdk w = (go, w')"

text \<open>The lateness of a dispatch, clamped to 32 bits.\<close>

definition lateness :: "u64 \<times> u64 \<Rightarrow> int" where
  "lateness d = max (-2147483648) (min 2147483647 (sint (fst d - snd d)))"

lemma lateness_measured: "i32_int (lateness_us (fst d) (snd d)) = lateness d"
  by (simp add: lateness_clamp lateness_def)

lemma ends_run_stops: "ends_run sdk s w w' \<Longrightarrow> \<not> ps_running (w_sched w')"
  by (auto simp: ends_run_def finish_def Let_def scheduler_callbacks_def fws.cmp_effect(1) simp del: playback_complete.simps)

lemma running_is_PLAYING: "fw_inv w \<Longrightarrow> ps_running (w_sched w) \<longleftrightarrow> mode_state w = PICO_UART_MODE_PLAYING"
  by (simp add: fw_inv_def fw_modes_def)

lemma round_inv:
  fixes w :: "'e globals" and sdk :: "'e sdk"
  assumes "fw_inv w" "mode_state w = PICO_UART_MODE_PLAYING" "task_round (sched_cb sdk) sdk w = (go, w')"
  shows "fw_inv w'"
proof -
  have ok: "sched_ok (w_queue w) (w_sched w)" "ps_running (w_sched w)" "fw_ok w"
    using assms(1,2) running_is_PLAYING [OF assms(1)] by (simp_all add: fw_inv_def)
  from fws.I_round [of w w sdk sdk, folded scheduler_callbacks_def] fws.task_round_law [OF ok(1,2), of sdk sdk, folded scheduler_callbacks_def]
    ok assms(3) show ?thesis by (simp add: fw_inv_def sched_law_def)
qed

lemma start_figures:
  fixes w :: "'e globals" and sdk :: "'e sdk"
  assumes "fw_inv w" "mode_state w = PICO_UART_MODE_ARMED" "fr_type f = PICO_UART_PLAY_START"
  defines "w' \<equiv> dispatch_command sdk f w"
  assumes "ps_running (w_sched w')"
  shows "records [] (w_sched w') \<and> ps_playback_start_us (w_sched w') = fst (sdk_time_us_64 sdk (hw w))"
proof -
  define t where "t = fst (sdk_time_us_64 sdk (hw w))"
  define w1 where "w1 = snd (time_us_64 sdk w)"
  have inv1: "fw_inv w1" and m1: "mode_state w1 = PICO_UART_MODE_ARMED"
    using assms(1,2) by (simp_all add: w1_def hw_ok time_us_64_def)
  note st = play_start_ok [OF inv1 m1, of sdk]
  define w3 where "w3 = snd (tx_frame PICO_UART_PLAY_STARTED (Some (write_u64_le t)) 8 (snd (pico_mode_state_play_start (mode_cb sdk) w1)))"
  have "w' = pico_playback_scheduler_start (sched_cb sdk) sdk t w3"
    using st(1) assms(3) by (simp add: w'_def dispatch_command_def zero_type_defs Let_def split_beta w1_def w3_def t_def
        time_us_64_def)
  moreover have s3: "ps_queue (w_sched w3)" "\<not> ps_running (w_sched w3)" "samples_inv (w_sched w3)"
    using st(2) inv1 m1 running_is_PLAYING [OF inv1] by (simp_all add: w3_def fw_inv_def fw_core_def mode_defs)
  ultimately have w': "w' = snd (arm_next (sched_cb sdk) sdk (sched_update (start_run t) w3))"
    by (simp add: pico_playback_scheduler_start_def)
  obtain go u where res: "arm_next (sched_cb sdk) sdk (sched_update (start_run t) w3) = (go, u)" by fastforce
  have "figures_kept (start_run t (w_sched w3)) (w_sched w')"
  proof (cases go)
    case True
    with arm_next_goes(1) [of "sched_cb sdk" sdk "sched_update (start_run t) w3" u] res w' show ?thesis by simp
  next
    case False
    with arm_next_ends [of sdk "sched_update (start_run t) w3" u] res w' assms(5) ends_run_stops show ?thesis
      by (auto split: if_splits)
  qed
  moreover have "records [] (start_run t (w_sched w3))" using s3(3) by (intro fresh_records start_run_fresh)
  ultimately show ?thesis using figures_kept_records by (simp add: t_def) (simp add: figures_kept_def)
qed

text \<open>A start with a loaded queue: what it leaves, and its two messages.\<close>

lemma loaded_start:
  fixes w :: "'e globals" and sdk :: "'e sdk"
  assumes "fw_inv w" "mode_state w = PICO_UART_MODE_ARMED" "fr_type f = PICO_UART_PLAY_START"
    "pico_playback_queue_peek (w_queue w) = Some e" "length (tx_pending w) + 24 \<le> 2048"
  defines "w' \<equiv> dispatch_command sdk f w" and "t \<equiv> fst (sdk_time_us_64 sdk (hw w))"
  shows "mode_state w' = PICO_UART_MODE_PLAYING \<and> ps_running (w_sched w') \<and> \<not> ps_waiting_for_event (w_sched w')"
    "w_queue w' = w_queue w" "ps_next_deadline_us (w_sched w') = t + qe_offset_us e"
    "ps_sequence_ended (w_sched w') = ps_sequence_ended (w_sched w)"
    "tx_pending w' = tx_pending w @ wire_frame PICO_UART_MODE_CHANGED [PICO_UART_MODE_PLAYING, PICO_UART_REASON_OK]
       @ wire_frame PICO_UART_PLAY_STARTED (write_u64_le t)"
proof -
  define w1 where "w1 = snd (time_us_64 sdk w)"
  define w2 where "w2 = (clear_and_release (mode_cb sdk) w1)\<lparr>mode_state := PICO_UART_MODE_PLAYING\<rparr>"
  define w3 where "w3 = mode_changed PICO_UART_MODE_PLAYING PICO_UART_REASON_OK w2"
  define w4 where "w4 = snd (tx_frame PICO_UART_PLAY_STARTED (Some (write_u64_le t)) 8 w3)"
  have w1: "mode_state w1 = PICO_UART_MODE_ARMED" "w_queue w1 = w_queue w" "w_sched w1 = w_sched w" "g_transport w1 = g_transport w"
    using assms(2) by (simp_all add: w1_def time_us_64_def)
  have w2: "w_queue w2 = w_queue w" "w_sched w2 = w_sched w" "g_transport w2 = g_transport w" "mode_state w2 = PICO_UART_MODE_PLAYING"
    using w1 by (simp_all add: w2_def clear_and_release_def mode_callbacks_with_def all_callbacks_def mode_all_release_def mode_clear_physical_def)
  have inv: "ut_inv (g_transport w)" "ps_queue (w_sched w)" "\<not> ps_running (w_sched w)"
    using assms(1,2) running_is_PLAYING [OF assms(1)] by (simp_all add: fw_inv_def fw_core_def mode_defs)
  have w3: "tx_pending w3 = tx_pending w @ wire_frame PICO_UART_MODE_CHANGED [PICO_UART_MODE_PLAYING, PICO_UART_REASON_OK]" "ut_inv (g_transport w3)"
    using tx_frame_body(2,3) [of w2 "[PICO_UART_MODE_PLAYING, PICO_UART_REASON_OK]" PICO_UART_MODE_CHANGED 2] inv(1) assms(5) known_types(4) w2(3)
    by (simp_all add: w3_def mode_changed_def)
  have pending: "tx_pending w4 = tx_pending w3 @ wire_frame PICO_UART_PLAY_STARTED (write_u64_le t)"
    using tx_frame_body(2) [OF w3(2) _ known_types(6), of "write_u64_le t" 8] assms(5) w3(1) by (simp add: w4_def)
  have w4: "w_queue w4 = w_queue w" "w_sched w4 = w_sched w" "mode_state w4 = PICO_UART_MODE_PLAYING"
    using w2 by (simp_all add: w4_def w3_def mode_changed_def)
  have "pico_mode_state_play_start (mode_cb sdk) w1 = (True, w3)"
    using w1(1) by (simp add: pico_mode_state_play_start_def notify_def w3_def w2_def mode_callbacks_with_def all_callbacks_def)
  then have w': "w' = pico_playback_scheduler_start (sched_cb sdk) sdk t w4"
    using assms(3) by (simp add: w'_def dispatch_command_def zero_type_defs Let_def split_beta w1_def w4_def t_def time_us_64_def)
  note st = start_with_event [of w4 e "sched_cb sdk" sdk t]
  show "mode_state w' = PICO_UART_MODE_PLAYING \<and> ps_running (w_sched w') \<and> \<not> ps_waiting_for_event (w_sched w')"
    "w_queue w' = w_queue w" "ps_next_deadline_us (w_sched w') = t + qe_offset_us e"
    "tx_pending w' = tx_pending w @ wire_frame PICO_UART_MODE_CHANGED [PICO_UART_MODE_PLAYING, PICO_UART_REASON_OK]
       @ wire_frame PICO_UART_PLAY_STARTED (write_u64_le t)"
    using st w4 inv(2,3) assms(4) pending w3(1) by (simp_all add: w')
  have "fst (arm_next (sched_cb sdk) sdk (sched_update (start_run t) w4)) = True" using assms(4) w4(1) by (simp add: arm_next_def Let_def)
  then have "arm_next (sched_cb sdk) sdk (sched_update (start_run t) w4) = (True, w')"
    using w' inv(2,3) w4(2) by (simp add: pico_playback_scheduler_start_def prod_eq_iff)
  from arm_next_goes(1) [OF this] w4(2) show "ps_sequence_ended (w_sched w') = ps_sequence_ended (w_sched w)" by (simp add: figures_kept_def)
qed

lemma measures_records: "same_measures w w' \<Longrightarrow> records ls (w_sched w') = records ls (w_sched w)
    \<and> ps_playback_start_us (w_sched w') = ps_playback_start_us (w_sched w)"
  by (auto simp: same_measures_def records_def samples_inv_def)

lemma dispatches_cases: "dispatches start sdk w w' = [] \<or> (\<exists>d. dispatches start sdk w w' = [d])"
  by (simp add: dispatches_def)

text \<open>While a run goes on, its figures are those of its dispatches.\<close>

lemma play_run_records:
  assumes "play_run sdk start ds w"
  shows "fw_inv w \<and> (mode_state w = PICO_UART_MODE_PLAYING \<longrightarrow> ps_playback_start_us (w_sched w) = start
    \<and> (length ds < 2 ^ 32 - 1 \<longrightarrow> records (map (\<lambda>d. lateness_us (fst d) (snd d)) ds) (w_sched w)))"
  using assms
proof induction
  case (run_begins w f)
  have inv: "fw_inv (dispatch_command sdk f w)" using dispatch_start_ok [OF run_begins(1,3)] by blast
  with start_figures [OF run_begins(1-3), of sdk] run_begins(4) running_is_PLAYING [OF inv] show ?case by simp
next
  case (run_step ds w l w')
  have inv: "fw_inv w" using run_step.IH by blast
  from step_measures [OF run_step(3) inv run_step(2,5,4)] measures_records
  have "records ls (w_sched w') = records ls (w_sched w)" "ps_playback_start_us (w_sched w') = ps_playback_start_us (w_sched w)" for ls
    by blast+
  with fw_step_inv [OF run_step(3) inv] run_step show ?case by simp
next
  case (run_round ds w go w')
  have inv: "fw_inv w" and start: "ps_playback_start_us (w_sched w) = start" using run_round by blast+
  have inv': "fw_inv w'" by (rule round_inv [OF inv run_round(2,3)])
  have ok: "sched_ok (w_queue w) (w_sched w)" "ps_running (w_sched w)"
    using inv run_round(2) running_is_PLAYING [OF inv] by (simp_all add: fw_inv_def)
  show ?case
  proof (intro conjI impI inv')
    assume "mode_state w' = PICO_UART_MODE_PLAYING"
    then have "ps_running (w_sched w')" using running_is_PLAYING [OF inv'] by simp
    with round_measures [OF run_round(3) ok] ends_run_stops
    have kept: "figures_kept (fold (\<lambda>d. record_lateness (lateness_us (fst d) (snd d))) (dispatches start sdk w w') (w_sched w)) (w_sched w')"
      unfolding start by blast
    with start dispatches_cases [of start sdk w w'] show "ps_playback_start_us (w_sched w') = start"
      by (auto simp: figures_kept_def record_lateness_def Let_def)
    assume len: "length (ds @ dispatches start sdk w w') < 2 ^ 32 - 1"
    then have "records (map (\<lambda>d. lateness_us (fst d) (snd d)) ds) (w_sched w)" using run_round.IH run_round(2) by simp
    then have "records (map (\<lambda>d. lateness_us (fst d) (snd d)) (ds @ dispatches start sdk w w'))
        (fold (\<lambda>d. record_lateness (lateness_us (fst d) (snd d))) (dispatches start sdk w w') (w_sched w))"
      using len dispatches_cases [of start sdk w w'] records_snoc [of "map (\<lambda>d. lateness_us (fst d) (snd d)) ds" "w_sched w"] by auto
    then show "records (map (\<lambda>d. lateness_us (fst d) (snd d)) (ds @ dispatches start sdk w w')) (w_sched w')"
      using figures_kept_records [OF kept] by simp
  qed
qed

text \<open>A round that sends the last event ends the run or begins an underrun.\<close>

lemma last_event_sent:
  fixes w :: "'e globals" and sdk :: "'e sdk"
  assumes "task_round (sched_cb sdk) sdk w = (go, w')" "sched_ok (w_queue w) (w_sched w)" "ps_running (w_sched w)"
    "pq_count (w_queue w) = 1" "hid_out w' \<noteq> hid_out w"
  shows "\<not> go \<and> (if ps_sequence_ended (w_sched w) then \<not> ps_running (w_sched w')
    else ps_running (w_sched w') \<and> ps_underrun_active (w_sched w'))"
proof -
  note due = fws.due_law [OF assms(2,3), of sdk sdk, folded scheduler_callbacks_def]
  have hid: "hid_out w2 = hid_out w" "figures_kept (w_sched w) (w_sched w2)"
    if "round_entry (sched_cb sdk) sdk w = (True, w1)" "event_due sdk w1 = (d, w2)" for w1 d w2
    using entry_goes [OF that(1)] due_keeps [OF that(2)] figures_kept_trans by auto
  show ?thesis
  proof (cases rule: program_rounds [of sdk w])
    case (entry w1)
    then have "arm_next (sched_cb sdk) sdk w = (False, w')" using assms(1) by (simp add: round_entry_def split: if_splits)
    with fws.arm_next_hid_out [of sdk sdk w, folded scheduler_callbacks_def] assms(5) show ?thesis by simp
  next
    case (early w1 w2)
    with hid [OF early(1,2)] assms(1,5) show ?thesis by simp
  next
    case (empty w1 w2)
    with due(5) [OF empty(1,2)] show ?thesis by simp
  next
    case (refused w1 w2 e w3)
    with hid [OF refused(1,2)] fws.send_effect(3) [of sdk "qe_report e" w2] assms(1,5) show ?thesis by simp
  next
    case (sent w1 w2 e w3)
    have w3: "w_queue w3 = w_queue w" "figures_kept (w_sched w) (w_sched w3)"
      using fws.send_effect(1,2) [of sdk "qe_report e" w2] sent(4) due(3) [OF sent(1,2)] hid(2) [OF sent(1,2)] by simp_all
    define w4 where "w4 = w3\<lparr>w_queue := snd (pico_playback_queue_pop (w_queue w3))\<rparr>"
    define w5 where "w5 = (if pico_playback_queue_free_capacity (Some (w_queue w3)) = 0
       \<and> \<not> ps_sequence_ended (w_sched w4) then playback_buffer_available w4 else w4)"
    define w6 where "w6 = sched_update (\<lambda>s. record_lateness (lateness_us (fst (time_us_64 sdk w5)) (ps_next_deadline_us s)) s) (snd (time_us_64 sdk w5))"
    have "after_send (sched_cb sdk) sdk w3 = arm_next (sched_cb sdk) sdk w6"
      by (simp add: after_send_def w6_def w5_def w4_def Let_def split_beta scheduler_callbacks_def)
    with sent(5) assms(1) have res: "arm_next (sched_cb sdk) sdk w6 = (go, w')" by simp
    have w6: "pq_count (w_queue w6) = 0" "ps_sequence_ended (w_sched w6) = ps_sequence_ended (w_sched w)" "ps_running (w_sched w6)"
      using w3 assms(3,4) by (simp_all add: w6_def w5_def w4_def playback_buffer_available_def send_buffer_status_def Let_def split_beta
          figures_kept_def pico_playback_queue_pop_def)
    then have none: "pico_playback_queue_peek (w_queue w6) = None" by (simp add: peek_None_iff)
    then have "fst (arm_next (sched_cb sdk) sdk w6) = False" by (simp add: arm_next_def Let_def)
    with res have go: "\<not> go" by simp
    with res have stop: "arm_next (sched_cb sdk) sdk w6 = (False, w')" by simp
    note ends = arm_next_ends [OF stop]
    show ?thesis
    proof (cases "ps_sequence_ended (w_sched w)")
      case True
      with ends ends_run_stops [of sdk "w_sched w6" w6 w'] w6(2) go show ?thesis by simp
    next
      case False
      with ends w6(2,3) have "ps_running (w_sched w')" by (simp add: figures_kept_def)
      moreover from this have "\<exists>v. w' = begin_underrun (sched_cb sdk) sdk v"
        using stop False w6(2) none by (auto simp: arm_next_def Let_def queue_empty_exit_def split: if_splits)
      then have "ps_underrun_active (w_sched w')"
        by (auto simp: begin_underrun_def Let_def split_beta scheduler_callbacks_def playback_underrun_def)
      ultimately show ?thesis using False go by simp
    qed
  qed
qed

section \<open>The end of a run on the wire\<close>

definition stopped :: "'e globals \<Rightarrow> 'e globals" where
  "stopped w = sched_update (\<lambda>s. s\<lparr>ps_running := False,
     ps_lateness_samples := sort_samples (ps_lateness_samples s) (ps_sample_count s)\<rparr>) w"

lemma finish_completes: "finish (sched_cb sdk) reason w = main_complete sdk reason (run_figures (w_sched w)) (stopped w)"
  by (simp add: finish_def Let_def scheduler_callbacks_def stopped_def run_figures_def del: playback_complete.simps)

lemma complete_uart_out: "\<not> ps_running (w_sched w) \<Longrightarrow> uart_out (main_complete sdk reason m w) = uart_out w"
  using playback_complete_stopped [of w 2 sdk reason m] by (simp add: same_rest_def)

lemma finish_on_wire:
  assumes "ut_inv (g_transport w)" "mode_state w = PICO_UART_MODE_PLAYING" "length (tx_pending w) + 56 \<le> 2048"
  shows "wire_sent (finish (sched_cb sdk) PICO_UART_REASON_FINISHED w) = wire_sent w
    @ wire_stream [(PICO_UART_PLAY_FINISHED, []), (PICO_UART_PLAY_METRICS, metrics_payload (run_figures (w_sched w))),
        (PICO_UART_MODE_CHANGED, [PICO_UART_MODE_ARMED, PICO_UART_REASON_FINISHED])]"
proof -
  have s: "\<not> ps_running (w_sched (stopped w))" "g_transport (stopped w) = g_transport w" "mode_state (stopped w) = mode_state w"
    "uart_out (stopped w) = uart_out w" by (simp_all add: stopped_def)
  with completion_order [of "stopped w" sdk "run_figures (w_sched w)"] assms complete_uart_out [OF s(1), of sdk PICO_UART_REASON_FINISHED]
  show ?thesis by (simp add: finish_completes wire_sent_def del: playback_complete.simps)
qed

lemma abort_on_wire:
  assumes "ut_inv (g_transport w)" "length (tx_pending w) + 47 \<le> 2048"
  shows "wire_sent (finish (sched_cb sdk) PICO_UART_REASON_ABORTED w) = wire_sent w
    @ wire_stream [(PICO_UART_PLAY_ABORTED, []), (PICO_UART_PLAY_METRICS, metrics_payload (run_figures (w_sched w)))]"
proof -
  let ?m = "run_figures (w_sched w)"
  have s: "\<not> ps_running (w_sched (stopped w))" "g_transport (stopped w) = g_transport w" "uart_out (stopped w) = uart_out w"
    by (simp_all add: stopped_def)
  define w1 where "w1 = snd (tx_frame PICO_UART_PLAY_ABORTED None 0 (stopped w))"
  have w1: "tx_pending w1 = tx_pending w @ wire_frame PICO_UART_PLAY_ABORTED []" "ut_inv (g_transport w1)"
    using tx_frame_empty(2,3) [OF _ known_types(2), of "stopped w"] assms s(2) by (simp_all add: w1_def)
  have "tx_pending (snd (tx_frame PICO_UART_PLAY_METRICS (Some (metrics_payload ?m)) 33 w1))
      = tx_pending w1 @ wire_frame PICO_UART_PLAY_METRICS (metrics_payload ?m)"
    using tx_frame_body(2) [OF w1(2) _ known_types(3), of "metrics_payload ?m" 33] assms(2) w1(1) by simp
  moreover have "finish (sched_cb sdk) PICO_UART_REASON_ABORTED w = snd (tx_frame PICO_UART_PLAY_METRICS (Some (metrics_payload ?m)) 33 w1)"
    unfolding finish_completes w1_def by (simp add: Let_def numeral_2_eq_2 reason_defs)
  ultimately show ?thesis
    using w1(1) complete_uart_out [OF s(1), of sdk PICO_UART_REASON_ABORTED ?m] s(3)
    by (simp add: finish_completes wire_sent_def del: playback_complete.simps)
qed

text \<open>A run that ends by itself, and one that is stopped.\<close>

lemma run_finished_report:
  assumes "play_run sdk start ds w" "mode_state w = PICO_UART_MODE_PLAYING" "task_round (sched_cb sdk) sdk w = (go, w')"
    "mode_state w' \<noteq> PICO_UART_MODE_PLAYING" "ds @ dispatches start sdk w w' \<noteq> []"
    "length (ds @ dispatches start sdk w w') < 2 ^ 32 - 1" "length (tx_pending w) + 56 \<le> 2048"
  shows "\<exists>m. reports_run (map lateness (ds @ dispatches start sdk w w')) m
    \<and> wire_sent w' = wire_sent w @ wire_stream [(PICO_UART_PLAY_FINISHED, []), (PICO_UART_PLAY_METRICS, metrics_payload m),
        (PICO_UART_MODE_CHANGED, [PICO_UART_MODE_ARMED, PICO_UART_REASON_FINISHED])]"
proof -
  let ?late = "\<lambda>d. lateness_us (fst d) (snd d)" and ?ds' = "ds @ dispatches start sdk w w'"
  have run: "fw_inv w" "ps_playback_start_us (w_sched w) = start" "records (map ?late ds) (w_sched w)"
    using play_run_records [OF assms(1)] assms(2,6) by auto
  have ok: "sched_ok (w_queue w) (w_sched w)" "ps_running (w_sched w)" "ut_inv (g_transport w)"
    using run(1) assms(2) running_is_PLAYING [OF run(1)] by (simp_all add: fw_inv_def fw_core_def)
  let ?s = "fold (\<lambda>d. record_lateness (?late d)) (dispatches start sdk w w') (w_sched w)"
  have recs: "records (map ?late ?ds') ?s"
    using run(3) assms(6) dispatches_cases [of start sdk w w'] records_snoc [of "map ?late ds" "w_sched w"] by auto
  have "\<not> ps_running (w_sched w')"
    using running_is_PLAYING [OF round_inv [OF run(1) assms(2,3)]] assms(4) by simp
  moreover have "ps_running ?s" using ok(2) dispatches_cases [of start sdk w w'] by auto
  ultimately have "ends_run sdk ?s w w'" using round_measures [OF assms(3) ok(1,2)] run(2) by (auto simp: figures_kept_def)
  then obtain u where u: "w' = finish (sched_cb sdk) PICO_UART_REASON_FINISHED u" "figures_kept ?s (w_sched u)" "same_wire w u"
    unfolding ends_run_def by (elim exE conjE)
  have "records (map ?late ?ds') (w_sched u)" using recs figures_kept_records [OF u(2)] by simp
  from run_figures_report [OF this] assms(5) have "reports_run (map lateness ?ds') (run_figures (w_sched u))"
    by (simp add: lateness_measured comp_def)
  moreover have "wire_sent u = wire_sent w" "g_transport u = g_transport w" "mode_state u = mode_state w"
    using u(3) by (simp_all add: same_wire_def wire_sent_def)
  ultimately show ?thesis
    using finish_on_wire [of u sdk] ok(3) assms(2,7) u(1) by (intro exI [of _ "run_figures (w_sched u)"]) simp
qed

lemma run_stopped_report:
  assumes "play_run sdk start ds w" "mode_state w = PICO_UART_MODE_PLAYING" "ds \<noteq> []" "length ds < 2 ^ 32 - 1"
    "length (tx_pending w) + 47 \<le> 2048"
  shows "\<exists>m. reports_run (map lateness ds) m
    \<and> wire_sent (pico_playback_scheduler_stop (sched_cb sdk) sdk w) = wire_sent w
        @ wire_stream [(PICO_UART_PLAY_ABORTED, []), (PICO_UART_PLAY_METRICS, metrics_payload m)]"
proof -
  let ?late = "\<lambda>d. lateness_us (fst d) (snd d)"
  define u where "u = clear_fired (if ps_alarm_armed (w_sched w) then disarm sdk w else w)"
  have run: "fw_inv w" "records (map ?late ds) (w_sched w)"
    using play_run_records [OF assms(1)] assms(2,4) by auto
  have u: "figures_kept (w_sched w) (w_sched u)" "g_transport u = g_transport w" "wire_sent u = wire_sent w"
    by (simp_all add: u_def wire_sent_def) (simp_all add: disarm_def clear_fired_def)
  have stop: "pico_playback_scheduler_stop (sched_cb sdk) sdk w = finish (sched_cb sdk) PICO_UART_REASON_ABORTED u"
    using running_is_PLAYING [OF run(1)] assms(2) by (simp add: pico_playback_scheduler_stop_def u_def)
  have "records (map ?late ds) (w_sched u)" using run(2) figures_kept_records [OF u(1)] by simp
  from run_figures_report [OF this] assms(3) have "reports_run (map lateness ds) (run_figures (w_sched u))"
    by (simp add: lateness_measured comp_def)
  moreover have "ut_inv (g_transport w)" using run(1) by (simp add: fw_inv_def fw_core_def)
  ultimately show ?thesis
    using abort_on_wire [of u sdk] u(2,3) assms(5) by (intro exI [of _ "run_figures (w_sched u)"]) (simp add: stop)
qed

text \<open>Every path of the program that stays in PLAYING is a run.\<close>

lemma rounds_run:
  assumes "task_rounds sdk w v" "play_run sdk start ds w" "mode_state w = PICO_UART_MODE_PLAYING"
  shows "\<exists>ds'. play_run sdk start (ds @ ds') v"
  using assms(1)
proof induction
  case rounds_start
  from assms(2) show ?case by (intro exI [of _ "[]"]) simp
next
  case (rounds_next v v')
  then obtain ds' where run: "play_run sdk start (ds @ ds') v" by blast
  with play_run_records [OF run] rounds_next(2) running_is_PLAYING have "mode_state v = PICO_UART_MODE_PLAYING" by blast
  from run_round [OF run this rounds_next(3)] show ?case by auto
qed

lemma path_is_run:
  assumes "fw_path sdk w ls w'" "play_run sdk start ds w" "mode_state w = PICO_UART_MODE_PLAYING" "mode_state w' = PICO_UART_MODE_PLAYING"
    "\<forall>l \<in> set ls. \<not> starts_playback l"
  shows "\<exists>ds'. play_run sdk start (ds @ ds') w'"
  using assms
proof (induction arbitrary: ds)
  case (path_Nil w)
  then show ?case by (intro exI [of _ "[]"]) simp
next
  case (path_Cons u l v ls w)
  have inv: "fw_inv u" "fw_inv v" using play_run_records [OF path_Cons.prems(1)] fw_step_inv [OF path_Cons.hyps(1)] by blast+
  have play: "mode_state v = PICO_UART_MODE_PLAYING"
    using Firmware_Playing.not_playing_path [OF path_Cons.hyps(2) inv(2)] path_Cons.prems by auto
  have "\<exists>ds'. play_run sdk start (ds @ ds') v"
  proof (cases "l = Playback")
    case False
    from run_step [OF path_Cons.prems(1,2) path_Cons.hyps(1) False play] show ?thesis by (intro exI [of _ "[]"]) simp
  next
    case True
    then have "pico_playback_scheduler_task (sched_cb sdk) sdk u = Some v" using path_Cons.hyps(1) by (auto elim: fw_stepE)
    from task_by_rounds [OF _ this] inv(1) obtain t where t: "task_rounds sdk u t"
      "if ps_running (w_sched t) then task_round (sched_cb sdk) sdk t = (False, v) else v = t" by (auto simp: fw_inv_def)
    from rounds_run [OF t(1) path_Cons.prems(1,2)] obtain ds' where run: "play_run sdk start (ds @ ds') t" by blast
    show ?thesis
    proof (cases "ps_running (w_sched t)")
      case True
      have "mode_state t = PICO_UART_MODE_PLAYING" using play_run_records [OF run] True running_is_PLAYING by blast
      from run_round [OF run this, of False v] t(2) True show ?thesis by auto
    qed (use run t(2) in auto)
  qed
  with path_Cons.IH [OF _ play path_Cons.prems(3)] path_Cons.prems(4) show ?case by fastforce
qed

section \<open>Underruns\<close>

text \<open>
  What the program has done when an underrun has begun: the clock was read in the hardware state \<open>x\<close>, the state
  says so, and the callback was called with the time since the start of the run and the room in the empty queue.
\<close>

definition underrun_report :: "'e sdk \<Rightarrow> u32 \<Rightarrow> 'e \<Rightarrow> 'e globals \<Rightarrow> bool" where
  "underrun_report sdk n x w' \<longleftrightarrow> in_underrun (w_sched w') (fst (sdk_time_us_64 sdk x)) \<and> pq_count (w_queue w') = 0
    \<and> ps_underrun_count (w_sched w') = n + 1
    \<and> (\<exists>u. hw u = snd (sdk_time_us_64 sdk x)
        \<and> w' = playback_underrun (if ps_playback_start_us (w_sched w') \<le> fst (sdk_time_us_64 sdk x)
            then fst (sdk_time_us_64 sdk x) - ps_playback_start_us (w_sched w') else 0) 512 u)"

lemma underrun_begins:
  fixes w :: "'e globals" and sdk :: "'e sdk"
  assumes "ps_running (w_sched w)" "\<not> ps_underrun_active (w_sched w)"
    "arm_next (sched_cb sdk) sdk w = (False, w')" "ps_running (w_sched w')"
  shows "\<exists>x. underrun_report sdk (ps_underrun_count (w_sched w)) x w'"
proof -
  define w1 where "w1 = (if ps_alarm_armed (w_sched w) then clear_fired (disarm sdk w) else w)"
  define x where "x = hw w1"
  define u where "u = sched_update (\<lambda>s. s\<lparr>ps_underrun_active := True, ps_underrun_since_us := fst (sdk_time_us_64 sdk x),
      ps_underrun_count := ps_underrun_count s + 1\<rparr>) (snd (time_us_64 sdk (sched_update (\<lambda>s. s\<lparr>ps_waiting_for_event := True\<rparr>) w1)))"
  have w1: "ps_running (w_sched w1)" "\<not> ps_underrun_active (w_sched w1)" "w_queue w1 = w_queue w" "\<not> ps_alarm_armed (w_sched w1)"
    "ps_underrun_count (w_sched w1) = ps_underrun_count (w_sched w)"
    using assms(1,2) by (simp_all add: w1_def)
  have empty: "pq_count (w_queue w) = 0" and w': "w' = queue_empty_exit (sched_cb sdk) sdk w1"
    using assms(3) w1(3) by (auto simp: arm_next_def Let_def w1_def [symmetric] peek_None_iff split: option.splits)
  have "ps_sequence_ended (w_sched w1) = ps_sequence_ended (w_sched w)" by (simp add: w1_def)
  then have ended: "\<not> ps_sequence_ended (w_sched w1)"
    using arm_next_ends [OF assms(3)] ends_run_stops [of sdk "w_sched w" w w'] assms(4) by auto
  have und: "w_sched (playback_underrun off room v) = w_sched v" "w_queue (playback_underrun off room v) = w_queue v" for off room and v :: "'e globals"
    by (simp_all add: playback_underrun_def Let_def split_beta)
  have w'': "w' = playback_underrun (if ps_playback_start_us (w_sched u) \<le> fst (sdk_time_us_64 sdk x)
        then fst (sdk_time_us_64 sdk x) - ps_playback_start_us (w_sched u) else 0) 512 u"
    using w' ended w1(2,3) empty
    by (simp add: queue_empty_exit_def begin_underrun_def Let_def split_beta scheduler_callbacks_def u_def x_def time_us_64_def
        pico_playback_queue_free_capacity_def)
  have "w_sched w' = w_sched u" "w_queue w' = w_queue w" using w1(3) by (simp_all add: w'' und) (simp add: u_def)
  moreover have "in_underrun (w_sched u) (fst (sdk_time_us_64 sdk x))" "hw u = snd (sdk_time_us_64 sdk x)"
    "ps_underrun_count (w_sched u) = ps_underrun_count (w_sched w) + 1"
    using w1 ended by (simp_all add: u_def x_def in_underrun_def time_us_64_def)
  ultimately show ?thesis using w'' empty by (intro exI [of _ x]) (auto simp: underrun_report_def und)
qed

text \<open>The round of the task in which an underrun begins, and the rounds before it.\<close>

lemma after_send_underrun:
  fixes w :: "'e globals" and sdk :: "'e sdk"
  assumes "after_send (sched_cb sdk) sdk w = (go, w')" "ps_running (w_sched w)" "\<not> ps_underrun_active (w_sched w)"
  shows "if go then \<not> ps_underrun_active (w_sched w') \<and> ps_underrun_count (w_sched w') = ps_underrun_count (w_sched w)
    else ps_running (w_sched w') \<longrightarrow> (\<exists>x. underrun_report sdk (ps_underrun_count (w_sched w)) x w')"
proof -
  define w1 where "w1 = w\<lparr>w_queue := snd (pico_playback_queue_pop (w_queue w))\<rparr>"
  define w2 where "w2 = (if pico_playback_queue_free_capacity (Some (w_queue w)) = 0
     \<and> \<not> ps_sequence_ended (w_sched w1) then playback_buffer_available w1 else w1)"
  define w4 where "w4 = sched_update (\<lambda>s. record_lateness (lateness_us (fst (time_us_64 sdk w2)) (ps_next_deadline_us s)) s) (snd (time_us_64 sdk w2))"
  have "after_send (sched_cb sdk) sdk w = arm_next (sched_cb sdk) sdk w4"
    by (simp add: after_send_def w4_def w2_def w1_def Let_def split_beta scheduler_callbacks_def)
  with assms(1) have res: "arm_next (sched_cb sdk) sdk w4 = (go, w')" by simp
  have "w_sched w2 = w_sched w"
    by (simp add: w2_def w1_def playback_buffer_available_def send_buffer_status_def Let_def split_beta)
  then have w4: "ps_running (w_sched w4)" "\<not> ps_underrun_active (w_sched w4)" "ps_underrun_count (w_sched w4) = ps_underrun_count (w_sched w)"
    using assms(2,3) by (simp_all add: w4_def) (simp_all add: record_lateness_def Let_def)
  show ?thesis
  proof (cases go)
    case True
    with arm_next_goes(4,5) [of "sched_cb sdk" sdk w4 w'] res w4(3) show ?thesis by simp
  next
    case False
    with underrun_begins [OF w4(1,2), of sdk w'] res w4(3) show ?thesis by simp
  qed
qed

lemma round_underrun:
  fixes w :: "'e globals" and sdk :: "'e sdk"
  assumes "task_round (sched_cb sdk) sdk w = (go, w')" "sched_ok (w_queue w) (w_sched w)" "ps_running (w_sched w)"
    "\<not> ps_underrun_active (w_sched w)"
  shows "if go then \<not> ps_underrun_active (w_sched w') \<and> ps_underrun_count (w_sched w') = ps_underrun_count (w_sched w)
    else ps_running (w_sched w') \<longrightarrow> \<not> ps_underrun_active (w_sched w') \<or> (\<exists>x. underrun_report sdk (ps_underrun_count (w_sched w)) x w')"
proof -
  have "\<not> ps_waiting_for_event (w_sched w)" using assms(2-4) by (auto simp: sched_ok_def)
  then have entry: "round_entry (sched_cb sdk) sdk w = (True, w)" by (simp add: round_entry_def)
  have fired: "w_sched w2 = (w_sched w)\<lparr>ps_alarm_fired := False\<rparr>" if "event_due sdk w = (d, w2)" for d w2
    using event_due_steps(4) [of sdk w] that by simp
  show ?thesis
  proof (cases rule: program_rounds [of sdk w])
    case (early w1 w2)
    with entry have "event_due sdk w = (False, w2)" by simp
    from fired [OF this] early(3) assms(1,4) show ?thesis by simp
  next
    case (empty w1 w2)
    with fws.due_law(5) [OF assms(2,3), of sdk sdk, folded scheduler_callbacks_def, OF empty(1,2)] show ?thesis by simp
  next
    case (refused w1 w2 e w3)
    have "w_sched w3 = (w_sched w)\<lparr>ps_alarm_fired := False\<rparr>"
      using entry fired [of True w2] fws.send_effect(2) [of sdk "qe_report e" w2] refused(1,2,4) by simp
    with refused(5) assms(1,4) show ?thesis by simp
  next
    case (sent w1 w2 e w3)
    have "w_sched w3 = (w_sched w)\<lparr>ps_alarm_fired := False\<rparr>"
      using entry fired [of True w2] fws.send_effect(2) [of sdk "qe_report e" w2] sent(1,2,4) by simp
    with after_send_underrun [of sdk w3 go w'] sent(5) assms(1,3,4) show ?thesis by (auto split: if_splits)
  qed (use entry in simp)
qed

lemma task_underrun:
  assumes "pico_playback_scheduler_task (sched_cb sdk) sdk w = Some w'" "fw_inv w" "mode_state w = PICO_UART_MODE_PLAYING"
    "\<not> ps_underrun_active (w_sched w)" "ps_underrun_active (w_sched w')" "ps_running (w_sched w')"
  shows "\<exists>x. underrun_report sdk (ps_underrun_count (w_sched w)) x w'"
proof -
  have "sched_ok (w_queue w) (w_sched w)" using assms(2) by (simp add: fw_inv_def)
  from task_by_rounds [OF this assms(1)] obtain v where v: "task_rounds sdk w v"
    "if ps_running (w_sched v) then task_round (sched_cb sdk) sdk v = (False, w') else w' = v" by blast
  from v(1) have "fw_inv v \<and> \<not> ps_underrun_active (w_sched v) \<and> ps_underrun_count (w_sched v) = ps_underrun_count (w_sched w)"
  proof induction
    case (rounds_next v v')
    then have inv: "fw_inv v" "mode_state v = PICO_UART_MODE_PLAYING" "sched_ok (w_queue v) (w_sched v)"
      using running_is_PLAYING [of v] by (auto simp: fw_inv_def)
    with rounds_next round_underrun [OF rounds_next(3) inv(3)] round_inv [OF inv(1,2) rounds_next(3)] show ?case by simp
  qed (use assms in simp)
  moreover have "ps_running (w_sched v)" using v(2) calculation assms(5) by (auto split: if_splits)
  ultimately show ?thesis
    using v(2) round_underrun [of sdk v False w'] assms(5,6) by (auto simp: fw_inv_def)
qed

text \<open>While nothing is streamed, an underrun changes nothing in the scheduler.\<close>

lemma quiet_path:
  assumes "fw_path sdk w ls v" "fw_inv w" "mode_state v = PICO_UART_MODE_PLAYING" "\<forall>l \<in> set ls. \<not> streams l"
    "in_underrun (w_sched w) since" "pq_count (w_queue w) = 0"
  shows "same_play w v"
  using assms
proof (induction)
  case (path_Cons u l v ls w)
  have inv: "fw_inv v" using fw_step_inv [OF path_Cons.hyps(1)] path_Cons.prems by simp
  have "\<not> starts_playback l" if "\<not> streams l" for l using that by (auto simp: starts_playback_def streams_def)
  then have play: "mode_state v = PICO_UART_MODE_PLAYING"
    using Firmware_Playing.not_playing_path [OF path_Cons.hyps(2) inv] path_Cons.prems by auto
  have run: "mode_state u = PICO_UART_MODE_PLAYING"
    using running_is_PLAYING [of u] path_Cons.prems(1,4) by (simp add: in_underrun_def)
  have same: "same_play u v"
  proof (cases "l = Playback")
    case True
    then have "pico_playback_scheduler_task (sched_cb sdk) sdk u = Some v" using path_Cons.hyps(1) by (auto elim: fw_stepE)
    with underrun_quiet [OF path_Cons.prems(4,5), of "sched_cb sdk" sdk] show ?thesis by (simp add: same_play_def)
  next
    case False
    with step_measures [OF path_Cons.hyps(1) path_Cons.prems(1) run play] path_Cons.prems(3) show ?thesis by simp
  qed
  with path_Cons.IH [OF inv] path_Cons.prems show ?case by (simp add: same_play_def)
qed (simp add: same_play_def)

lemma watchdog_fires_iff:
  assumes "mode_state w = PICO_UART_MODE_PLAYING" "in_underrun (w_sched w) since"
  shows "mode_state (watchdog_step sdk w) = PICO_UART_MODE_ERROR \<longleftrightarrow> unat since + 2000000 \<le> unat (fst (sdk_time_us_64 sdk (hw w)))"
  using assms watchdog_iff [OF assms(2), of "fst (sdk_time_us_64 sdk (hw w))"]
  by (simp add: watchdog_step_def pico_mode_state_get_def Let_def split_beta time_us_64_def mode_defs)

lemma underrun_and_after:
  fixes w w1 v :: "'e globals" and sdk :: "'e sdk"
  assumes "fw_inv w" "fw_step sdk w Playback w1" "\<not> ps_underrun_active (w_sched w)" "ps_underrun_active (w_sched w1)"
    "fw_path sdk w1 ls v" "mode_state v = PICO_UART_MODE_PLAYING" "\<forall>l \<in> set ls. \<not> streams l"
  shows "\<exists>x u. underrun_report sdk (ps_underrun_count (w_sched w)) x w1 \<and> same_play w1 v
    \<and> pico_playback_scheduler_task (sched_cb sdk) sdk v = Some v
    \<and> (mode_state (watchdog_step sdk v) = PICO_UART_MODE_ERROR
        \<longleftrightarrow> unat (fst (sdk_time_us_64 sdk x)) + 2000000 \<le> unat (fst (sdk_time_us_64 sdk (hw v))))
    \<and> hw u = snd (sdk_time_us_64 sdk x) \<and> hw w1 = snd (sdk_time_us_64 sdk x)
    \<and> w1 = playback_underrun (if ps_playback_start_us (w_sched w1) \<le> fst (sdk_time_us_64 sdk x)
        then fst (sdk_time_us_64 sdk x) - ps_playback_start_us (w_sched w1) else 0) 512 u"
proof -
  have inv: "fw_inv w1" using fw_step_inv [OF assms(2,1)] .
  have task: "pico_playback_scheduler_task (sched_cb sdk) sdk w = Some w1" using assms(2) by (auto elim: fw_stepE)
  then have run: "mode_state w = PICO_UART_MODE_PLAYING" using task_step(3) [OF task assms(1)] assms(3,4) by auto
  have "\<forall>l \<in> set ls. \<not> starts_playback l" using assms(7) by (auto simp: starts_playback_def streams_def)
  then have run1: "mode_state w1 = PICO_UART_MODE_PLAYING"
    using Firmware_Playing.not_playing_path [OF assms(5) inv] assms(6) by auto
  then have "ps_running (w_sched w1)" using running_is_PLAYING [OF inv] by simp
  from task_underrun [OF task assms(1) run assms(3,4) this] obtain x where
    rep: "underrun_report sdk (ps_underrun_count (w_sched w)) x w1" by blast
  then have dry: "in_underrun (w_sched w1) (fst (sdk_time_us_64 sdk x))" "pq_count (w_queue w1) = 0" by (simp_all add: underrun_report_def)
  from rep obtain u where u: "hw u = snd (sdk_time_us_64 sdk x)" "w1 = playback_underrun (if ps_playback_start_us (w_sched w1) \<le> fst (sdk_time_us_64 sdk x)
        then fst (sdk_time_us_64 sdk x) - ps_playback_start_us (w_sched w1) else 0) 512 u" unfolding underrun_report_def by blast
  have "hw (playback_underrun off room u) = hw u" for off room by (simp add: playback_underrun_def Let_def split_beta)
  then have hw: "hw w1 = snd (sdk_time_us_64 sdk x)" using u by metis
  have same: "same_play w1 v" by (rule quiet_path [OF assms(5) inv assms(6,7) dry])
  then have dry': "in_underrun (w_sched v) (fst (sdk_time_us_64 sdk x))" "pq_count (w_queue v) = 0" using dry by (simp_all add: same_play_def)
  from rep same underrun_quiet [OF dry', of "sched_cb sdk" sdk] watchdog_fires_iff [OF assms(6) dry'(1), of sdk] u hw show ?thesis by blast
qed

end
