(* ===== verification/Firmware_Capture_Times.thy ===== *)
theory Firmware_Capture_Times
  imports Firmware_Typing
begin

text \<open>
  The times of what is typed: paths that carry, with each report of the keyboard, the clock as the USB callback
  of \<open>pico/src/hid_keyboard_host.c\<close> reads it for that report, and the laws of \<open>Firmware_Typing\<close> with these times.
\<close>

section \<open>Paths with clock readings\<close>

definition clock_at :: "'e sdk \<Rightarrow> 'e globals \<Rightarrow> u64" where
  "clock_at sdk w = fst (sdk_time_us_64 sdk (hw w))"

text \<open>\<open>timed_path sdk w ls xs w'\<close>: the path of \<open>fw_path\<close>, with the typed reports and the clock in the state before each.\<close>

inductive timed_path :: "'e sdk \<Rightarrow> 'e globals \<Rightarrow> step_label list \<Rightarrow> (u64 \<times> hid_report) list \<Rightarrow> 'e globals \<Rightarrow> bool" for sdk :: "'e sdk" where
  timed_Nil: "timed_path sdk w [] [] w"
| timed_Cons: "timed_path sdk u (l # ls) (map (Pair (clock_at sdk u)) (typed l) @ xs) w"
    if "fw_step sdk u l v" "timed_path sdk v ls xs w"

inductive_cases timed_path_ConsE: "timed_path sdk u (l # ls) xs w"

lemma timed_is_path: "timed_path sdk w ls xs w' \<Longrightarrow> fw_path sdk w ls w' \<and> map snd xs = concat (map typed ls)"
  by (induction rule: timed_path.induct) (auto simp: comp_def)

lemma path_is_timed: "fw_path sdk w ls w' \<Longrightarrow> \<exists>xs. timed_path sdk w ls xs w'"
  by (induction rule: fw_path.induct) (auto intro: timed_Nil timed_Cons)

section \<open>Capture with the time of the callback\<close>

lemma report_captured:
  assumes "fw_inv w" "is_keyboard dev ins (g_host w)" "typing (mode_state w)" "kc_count (g_capture w) < 16"
  shows "kc_contents (g_capture (host_callback sdk (Report_Received dev ins (Some bytes) 8) w))
    = kc_contents (g_capture w) @ [(clock_at sdk w, report_of_bytes bytes)]"
proof -
  let ?x = "(clock_at sdk w, report_of_bytes bytes)"
  obtain h c w1 where r: "tuh_hid_report_received_cb sdk dev ins (Some bytes) 8 (g_host w) (g_capture w) w = (h, c, w1)"
    using prod_cases3 by blast
  have inv: "kc_inv (g_capture w)" "kh_mode (g_host w)" "kh_capture (g_host w)" using assms(1) by (simp_all add: fw_inv_def fw_core_def)
  have "c = snd (pico_keyboard_capture_push (clock_at sdk w) (Some bytes) 8 (g_capture w))"
    using report_received_effect(1) [OF r inv(2,3)] assms(2,3) by (auto simp: clock_at_def mode_defs)
  with capture_push_contents [OF inv(1), of "clock_at sdk w" "Some bytes" 8] assms(4) r show ?thesis by simp
qed

lemma timed_step:
  assumes "fw_step sdk u l v" "fw_inv u" "implements u s" "spec_step s l t" "implements v t"
    "typing (mode_state u)" "mode_state v = mode_state u" "\<not> sets_mode l" "\<not> sr_pending (g_safety u)"
    "sp_keyboard s = Some who" "from_keyboard who l"
  shows "typed_law (if length (sp_input s) < 16 then map (Pair (clock_at sdk u)) (typed l) else []) s t"
proof -
  have s: "sp_mode s = mode_state u" "sp_mode t = mode_state v" "sp_release s = sr_pending (g_safety u)"
    "sp_input s = kc_contents (g_capture u)" "sp_input t = kc_contents (g_capture v)"
    "sp_keyboard s = keyboard_of (g_host u)" using assms(3,5) by (simp_all add: implements_def)
  from typing_step [OF assms(4)] assms(6-11) s implements_recorded [OF assms(3)] obtain cap where
    cap: "typed_law cap s t" "map snd cap = (if length (sp_input s) < 16 then typed l else [])" by auto
  show ?thesis
  proof (cases "length (sp_input s) < 16 \<and> typed l \<noteq> []")
    case False
    then have "(if length (sp_input s) < 16 then typed l else []) = []" by simp
    with cap(2) have "cap = []" by simp
    with cap(1) False show ?thesis by (cases "length (sp_input s) < 16") simp_all
  next
    case True
    then obtain dev ins bytes where l: "l = Usb_Host (Report_Received dev ins (Some bytes) 8)"
      by (auto simp: typed_def split: step_label.splits host_event.splits option.splits if_splits)
    have who: "is_keyboard dev ins (g_host u)"
      using assms(10,11) s(6) by (auto simp: l from_keyboard_def keyboard_of_def is_keyboard_def split: if_splits)
    from assms(1) have v: "v = host_callback sdk (Report_Received dev ins (Some bytes) 8) u" by (auto simp: l elim: fw_stepE)
    let ?x = "(clock_at sdk u, report_of_bytes bytes)"
    have input: "sp_input t = sp_input s @ [?x]"
      using report_captured [OF assms(2) who assms(6), of sdk bytes] True s v by simp
    from assms(4) obtain env where "t = s \<or> t = spec_report env (dev, ins) (Some bytes) 8 s" unfolding l by cases auto
    with input have "t = s\<lparr>sp_input := sp_input s @ [?x]\<rparr>" by (auto simp: spec_report_def split: if_splits)
    moreover have "typed_law [?x] s (s\<lparr>sp_input := sp_input s @ [?x]\<rparr>)"
      using implements_recorded [OF assms(3)] by (auto simp: typed_law_def to_record_def intro!: exI [of _ "[]"])
    ultimately show ?thesis using True by (simp add: l typed_def)
  qed
qed

lemma timed_typing_path:
  assumes "timed_path sdk w ls xs w'" "fw_inv w" "implements w s" "typing (mode_state w)" "mode_state w' = mode_state w"
    "\<forall>l \<in> set ls. \<not> sets_mode l" "\<not> sr_pending (g_safety w)" "sp_keyboard s = Some who" "\<forall>l \<in> set ls. from_keyboard who l"
  shows "\<exists>s' cap. implements w' s' \<and> typed_law cap s s' \<and> subseq cap xs
    \<and> (length (sp_input s) + length xs \<le> 16 \<longrightarrow> cap = xs)"
  using assms
proof (induction arbitrary: s)
  case (timed_Nil w)
  then show ?case by (intro exI [of _ s] exI [of _ "[]"]) simp
next
  case (timed_Cons u l v ls xs w)
  note prems = timed_Cons.prems
  have inv: "fw_inv v" using fw_step_inv [OF timed_Cons.hyps(1) prems(1)] .
  have path: "fw_path sdk v ls w" using timed_is_path [OF timed_Cons.hyps(2)] by blast
  have mode: "mode_state v = mode_state u"
    using not_typing_path [OF path inv, of "mode_state u"] prems by auto
  from step_implemented [OF timed_Cons.hyps(1) prems(1,2)] obtain t where t: "spec_step s l t" "implements v t" by blast
  let ?now = "map (Pair (clock_at sdk u)) (typed l)"
  define cap where "cap = (if length (sp_input s) < 16 then ?now else [])"
  have law: "typed_law cap s t"
    unfolding cap_def using prems mode by (intro timed_step [OF timed_Cons.hyps(1) prems(1,2) t]) auto
  have rel: "sp_release s = sr_pending (g_safety u)" "sp_release t = sr_pending (g_safety v)" using prems(2) t(2) by (simp_all add: implements_def)
  have t': "\<not> sr_pending (g_safety v)" "sp_keyboard t = Some who" "length (sp_input t) \<le> length (sp_input s) + length cap"
    using law rel prems(6,7) by (simp_all add: typed_law_def)
  have rest: "typing (mode_state v)" "mode_state w = mode_state v" "\<forall>l \<in> set ls. \<not> sets_mode l" "\<forall>l \<in> set ls. from_keyboard who l"
    using prems mode by auto
  from timed_Cons.IH [OF inv t(2) rest(1,2,3) t'(1,2) rest(4)] obtain s' cap' where
    next': "implements w s'" "typed_law cap' t s'" "subseq cap' xs" "length (sp_input t) + length xs \<le> 16 \<longrightarrow> cap' = xs" by blast
  have "subseq cap ?now" by (simp add: cap_def)
  then have sub: "subseq (cap @ cap') (?now @ xs)" using next'(3) by (rule list_emb_append_mono)
  have "length cap \<le> length ?now" by (simp add: cap_def)
  moreover have "typed l = [] \<or> length (typed l) = 1"
    by (auto simp: typed_def split: step_label.split host_event.split option.split)
  ultimately have "length (sp_input s) + length (?now @ xs) \<le> 16 \<longrightarrow> cap @ cap' = ?now @ xs"
    using next'(4) t'(3) by (auto simp: cap_def)
  with sub next'(1) typed_law_trans [OF law next'(2)] show ?case by blast
qed

text \<open>The same of the program.\<close>

lemma reachable_timed_typing:
  assumes "fw_reachable sdk w" "timed_path sdk w ls xs w'" "typing (mode_state w)" "mode_state w' = mode_state w"
    "\<forall>l \<in> set ls. \<not> sets_mode l" "\<not> sr_pending (g_safety w)" "is_keyboard dev ins (g_host w)"
    "\<forall>l \<in> set ls. from_keyboard (dev, ins) l"
  obtains s s' cap where "implements w s" "implements w' s'" "typed_law cap s s'" "subseq cap xs"
    "kc_count (g_capture w) + length xs \<le> 16 \<longrightarrow> cap = xs"
proof -
  from reachable_implements [OF assms(1)] obtain s where s: "implements w s" by blast
  then have "sp_keyboard s = Some (dev, ins)" "length (sp_input s) = kc_count (g_capture w)"
    using assms(7) by (auto simp: implements_def keyboard_of_def is_keyboard_def)
  with timed_typing_path [OF assms(2) reachable_laws(1) [OF assms(1)] s assms(3-6) _ assms(8)] s that show thesis by metis
qed

end
