(* ===== verification/Play_Samples.thy ===== *)
theory Play_Samples
  imports Sample_Runs Firmware_Runs Firmware_Capture_Times
begin

text \<open>
  Sample runs of playback for the witnesses: a run of one event that ends, and one that runs dry.
\<close>

lemma fifo_round_sends:
  fixes w :: "u8 list globals"
  assumes "\<not> ps_waiting_for_event (w_sched w)" "ps_next_deadline_us (w_sched w) = 0" "pico_playback_queue_peek (w_queue w) = Some e"
  shows "hid_out (snd (task_round (sched_cb fifo_sdk) fifo_sdk w)) \<noteq> hid_out w"
proof -
  have due: "fst (event_due fifo_sdk w)" by (simp add: event_due_iff assms(2) fifo_sdk_def)
  have send: "fst (send_pass_report fifo_sdk r v)" for r and v :: "u8 list globals"
    by (simp add: send_pass_report_def pico_hid_keyboard_send_boot_report_def pico_hid_keyboard_send_report_def
        tud_hid_report_def Let_def split_beta) (simp add: fifo_sdk_def)
  show ?thesis
    by (simp add: task_round_def Let_def split_beta assms due send scheduler_callbacks_def)
qed

section \<open>A run of one event\<close>

definition sample_loaded :: "u8 list globals" where
  "sample_loaded = sample_armed\<lparr>w_queue := w_queue sample_playing,
     w_sched := (w_sched sample_armed)\<lparr>ps_sequence_ended := True\<rparr>, g_transport := pico_uart_transport_init\<rparr>"

definition sample_started :: "u8 list globals" where
  "sample_started = dispatch_command fifo_sdk (mk_frame PICO_UART_PLAY_START []) sample_loaded"

definition sample_played :: "u8 list globals" where
  "sample_played = snd (task_round (sched_cb fifo_sdk) fifo_sdk sample_started)"

lemma sample_loaded_facts: "fw_inv sample_loaded" "mode_state sample_loaded = PICO_UART_MODE_ARMED"
  "w_queue sample_loaded = w_queue sample_playing" "ps_sequence_ended (w_sched sample_loaded)" "tx_pending sample_loaded = []"
  using sample_armed_facts sample_playing_queue(2)
  by (simp_all add: fw_inv_def fw_core_def fw_modes_def sched_ok_def sample_loaded_def mode_defs ut_init_inv init_idle)

lemma sample_started_run: "play_run fifo_sdk 0 [] sample_started"
  using run_begins [OF sample_loaded_facts(1,2), of "mk_frame PICO_UART_PLAY_START []" 0 fifo_sdk]
  by (simp add: sample_started_def) (simp add: fifo_sdk_def)

lemma sample_started_facts: "mode_state sample_started = PICO_UART_MODE_PLAYING" "\<not> ps_waiting_for_event (w_sched sample_started)"
  "w_queue sample_started = w_queue sample_playing" "ps_next_deadline_us (w_sched sample_started) = 0"
  "ps_sequence_ended (w_sched sample_started)" "length (tx_pending sample_started) = 24"
proof -
  have peek: "pico_playback_queue_peek (w_queue sample_loaded)
      = Some \<lparr>qe_offset_us = 0, qe_report_len = 8, qe_report = report_of_bytes (replicate 8 0)\<rparr>"
    using sample_playing_queue(1) by (simp add: sample_loaded_facts)
  note st = loaded_start [OF sample_loaded_facts(1,2) _ peek, of "mk_frame PICO_UART_PLAY_START []" fifo_sdk]
  have zero: "fst (sdk_time_us_64 fifo_sdk e) = 0" for e by (simp add: fifo_sdk_def)
  from st sample_loaded_facts zero show "mode_state sample_started = PICO_UART_MODE_PLAYING" "\<not> ps_waiting_for_event (w_sched sample_started)"
    "w_queue sample_started = w_queue sample_playing" "ps_next_deadline_us (w_sched sample_started) = 0"
    "ps_sequence_ended (w_sched sample_started)" "length (tx_pending sample_started) = 24"
    by (simp_all add: sample_started_def)
qed

lemma sample_played_round: "task_round (sched_cb fifo_sdk) fifo_sdk sample_started = (False, sample_played)"
  "hid_out sample_played \<noteq> hid_out sample_started" "mode_state sample_played \<noteq> PICO_UART_MODE_PLAYING"
proof -
  have inv: "fw_inv sample_started" using play_run_records [OF sample_started_run] by blast
  show sent: "hid_out sample_played \<noteq> hid_out sample_started"
    using fifo_round_sends [OF sample_started_facts(2,4)] sample_started_facts(3) sample_playing_queue(1) by (simp add: sample_played_def)
  obtain go where go: "task_round (sched_cb fifo_sdk) fifo_sdk sample_started = (go, sample_played)"
    by (metis sample_played_def prod.collapse)
  have "sched_ok (w_queue sample_started) (w_sched sample_started)" "ps_running (w_sched sample_started)"
    using inv running_is_PLAYING [OF inv] sample_started_facts(1) by (simp_all add: fw_inv_def)
  from last_event_sent [OF go this _ sent] have last: "\<not> go" "\<not> ps_running (w_sched sample_played)"
    using sample_started_facts(3,5) sample_playing_queue(3) by simp_all
  with go show "task_round (sched_cb fifo_sdk) fifo_sdk sample_started = (False, sample_played)" by simp
  show "mode_state sample_played \<noteq> PICO_UART_MODE_PLAYING"
    using last(2) running_is_PLAYING [OF round_inv [OF inv sample_started_facts(1) go]] by simp
qed

lemma sample_played_dispatches: "map lateness (dispatches 0 fifo_sdk sample_started sample_played) = [0]"
  using sample_played_round(2) sample_started_facts(3) sample_playing_queue(1)
  by (simp add: dispatches_def dispatch_time_def Let_def lateness_def) (simp add: fifo_sdk_def)

section \<open>A run that runs dry\<close>

definition sample_dry :: "u8 list globals" where
  "sample_dry = the (pico_playback_scheduler_task (sched_cb fifo_sdk) fifo_sdk sample_playing)"

lemma sample_dry_facts: "fw_step fifo_sdk sample_playing Playback sample_dry" "\<not> ps_underrun_active (w_sched sample_playing)"
  "ps_underrun_active (w_sched sample_dry)" "mode_state sample_dry = PICO_UART_MODE_PLAYING"
proof -
  obtain go w where r: "task_round (sched_cb fifo_sdk) fifo_sdk sample_playing = (go, w)" by fastforce
  have ok: "sched_ok (w_queue sample_playing) (w_sched sample_playing)" using sample_playing_inv(1) by (simp add: fw_inv_def)
  have s: "\<not> ps_sequence_ended (w_sched sample_playing)" by (simp add: sample_playing_def) (simp add: pico_playback_scheduler_init_def)
  show "\<not> ps_underrun_active (w_sched sample_playing)" by (simp add: sample_playing_def) (simp add: start_run_def)
  from last_event_sent [OF r ok sample_playing_inv(2) sample_playing_queue(3)] sample_round r s
  have last: "\<not> go" "ps_running (w_sched w)" "ps_underrun_active (w_sched w)" by simp_all
  have task: "pico_playback_scheduler_task (sched_cb fifo_sdk) fifo_sdk sample_playing = Some w"
    using r last(1) sample_playing_inv(2) by (subst pico_playback_scheduler_task.simps) simp
  then have dry: "sample_dry = w" by (simp add: sample_dry_def)
  show step: "fw_step fifo_sdk sample_playing Playback sample_dry" using playback [OF task] dry by simp
  show "ps_underrun_active (w_sched sample_dry)" using last(3) dry by simp
  show "mode_state sample_dry = PICO_UART_MODE_PLAYING"
    using running_is_PLAYING [OF fw_step_inv [OF step sample_playing_inv(1)]] last(2) dry by simp
qed

section \<open>A key press with its time\<close>

lemma key_press_timed: "timed_path fifo_sdk key_recording [key_press, Dispatch PICO_SAFETY_RELEASE_READY] [(0, report_of_bytes key_report)] (pressed key_recording)"
proof -
  from path_is_timed [OF key_press_path(1) [OF key_recording_facts(1,3)]] obtain xs where
    xs: "timed_path fifo_sdk key_recording [key_press, Dispatch PICO_SAFETY_RELEASE_READY] xs (pressed key_recording)" by blast
  from xs have "xs = [(0, report_of_bytes key_report)]"
    by (auto elim!: timed_path_ConsE timed_path.cases [of _ _ "[]"] simp: key_press_labels clock_at_def fifo_sdk_def typed_def)
  with xs show ?thesis by simp
qed

end
