(* ===== verification/Playback_Test_Source.thy ===== *)
theory Playback_Test_Source
  imports Firmware_Commands
begin

text \<open>
  \<open>pico/src/playback_test_source.c\<close>, the benchmark of builds with \<open>PICO_PLAYBACK_SCHED_TEST\<close>: it arms
  and starts a playback run of 1000 synthetic events, one every 10 ms, through the functions that
  QUEUE_EVENT and PLAY_START use, and tops up the 512-entry queue while the scheduler drains it. The
  static variables are a record; \<open>ts_bound\<close> says that \<open>init\<close> has stored the pointers, which are those to
  the globals. \<open>tud_mounted\<close> is a parameter.
\<close>

section \<open>The code\<close>

definition PICO_PLAYBACK_TEST_TOTAL_EVENTS :: u32 where "PICO_PLAYBACK_TEST_TOTAL_EVENTS = 1000"
definition PICO_PLAYBACK_TEST_INTERVAL_US :: u64 where "PICO_PLAYBACK_TEST_INTERVAL_US = 10000"

lemmas test_source_constants = PICO_PLAYBACK_TEST_TOTAL_EVENTS_def PICO_PLAYBACK_TEST_INTERVAL_US_def

datatype test_stage = PICO_PLAYBACK_TEST_WAIT_FOR_MOUNT | PICO_PLAYBACK_TEST_RUNNING | PICO_PLAYBACK_TEST_DONE

record test_source =
  ts_bound :: bool
  ts_stage :: test_stage
  ts_pushed_count :: u32

definition synthetic_report :: "u32 \<Rightarrow> hid_report" where
  "synthetic_report index =
     (if and index 1 = 0 then pico_hid_boot_keyboard_make_key_press 0 PICO_HID_USAGE_KEY_A
      else pico_hid_boot_keyboard_release_all)"

definition push_synthetic_event :: "u32 \<Rightarrow> u32 \<times> playback_queue \<Rightarrow> u32 \<times> playback_queue" where
  "push_synthetic_event index s =
     (let q = snd (pico_playback_queue_push (ucast index * PICO_PLAYBACK_TEST_INTERVAL_US)
            (Some (report_bytes (synthetic_report index))) 8 (snd s))
      in (fst s + 1, q))"

function fill_available_slots :: "u32 \<times> playback_queue \<Rightarrow> u32 \<times> playback_queue" where
  "fill_available_slots s =
     (if fst s < PICO_PLAYBACK_TEST_TOTAL_EVENTS \<and> 0 < pico_playback_queue_free_capacity (Some (snd s))
      then fill_available_slots (push_synthetic_event (fst s) s) else s)"
  by pat_completeness auto
termination
proof (relation "measure (\<lambda>s. 1000 - unat (fst s))")
  fix s :: "u32 \<times> playback_queue"
  assume "fst s < PICO_PLAYBACK_TEST_TOTAL_EVENTS \<and> 0 < pico_playback_queue_free_capacity (Some (snd s))"
  then have "unat (fst s) < 1000" by (simp add: test_source_constants word_less_nat_alt)
  moreover then have "unat (fst s + 1) = unat (fst s) + 1" by (simp add: unat_word_ariths)
  ultimately show "(push_synthetic_event (fst s) s, s) \<in> measure (\<lambda>s. 1000 - unat (fst s))"
    by (simp add: push_synthetic_event_def Let_def)
qed simp

declare fill_available_slots.simps [simp del]

definition pico_playback_test_source_init :: test_source where
  "pico_playback_test_source_init =
     \<lparr>ts_bound = True, ts_stage = PICO_PLAYBACK_TEST_WAIT_FOR_MOUNT, ts_pushed_count = 0\<rparr>"

definition fill_step :: "test_source \<Rightarrow> 'e globals \<Rightarrow> test_source \<times> 'e globals" where
  "fill_step ts w =
     (let (n, q) = fill_available_slots (ts_pushed_count ts, w_queue w)
      in (ts\<lparr>ts_pushed_count := n\<rparr>, w\<lparr>w_queue := q\<rparr>))"

definition pico_playback_test_source_task ::
    "'e sdk \<Rightarrow> ('e \<Rightarrow> bool \<times> 'e) \<Rightarrow> test_source \<Rightarrow> 'e globals \<Rightarrow> test_source \<times> 'e globals" where
  "pico_playback_test_source_task sdk tud_mounted ts w =
     (if ts_stage ts = PICO_PLAYBACK_TEST_DONE \<or> \<not> ts_bound ts then (ts, w)
      else if ts_stage ts = PICO_PLAYBACK_TEST_WAIT_FOR_MOUNT then
        (let (mounted, w1) = call_hw tud_mounted w in
         if \<not> mounted then (ts, w1)
         else
           (let (ok, w2) = pico_mode_state_handle_mode_set (mode_cb sdk) PICO_UART_MODE_ARMED w1 in
            if \<not> ok then (ts, w2)
            else
              (let (ts1, w3) = fill_step ts w2;
                   (playback_start_us, w4) = time_us_64 sdk w3;
                   (ok, w5) = pico_mode_state_play_start (mode_cb sdk) w4
               in if \<not> ok then (ts1, w5)
                  else (ts1\<lparr>ts_stage := PICO_PLAYBACK_TEST_RUNNING\<rparr>,
                        pico_playback_scheduler_start (sched_cb sdk) sdk playback_start_us w5))))
      else
        (let (ts1, w1) = (if ts_pushed_count ts < PICO_PLAYBACK_TEST_TOTAL_EVENTS then fill_step ts w else (ts, w)) in
         if PICO_PLAYBACK_TEST_TOTAL_EVENTS \<le> ts_pushed_count ts1
         then (ts1\<lparr>ts_stage := PICO_PLAYBACK_TEST_DONE\<rparr>, sched_update pico_playback_scheduler_mark_sequence_ended w1)
         else (ts1, w1)))"

section \<open>What is queued\<close>

text \<open>The synthetic sequence: every 10 ms, a press and a release in turn.\<close>

definition synthetic_event :: "nat \<Rightarrow> u64 \<times> hid_report" where
  "synthetic_event i = (of_nat (10000 * i),
     if even i then pico_hid_boot_keyboard_make_key_press 0 PICO_HID_USAGE_KEY_A else pico_hid_boot_keyboard_release_all)"

lemma synthetic_event_word:
  assumes "unat n < 1000"
  shows "(ucast n * PICO_PLAYBACK_TEST_INTERVAL_US, synthetic_report n) = synthetic_event (unat n)"
proof -
  have "and n 1 = 0 \<longleftrightarrow> even (unat n)"
    using unat_eq_zero [of "n mod 2"] by (simp add: and_one_eq even_iff_mod_2_eq_zero unat_mod)
  moreover have "(ucast n :: u64) * 10000 = of_nat (10000 * unat n)"
    by (simp add: unsigned_of_nat mult.commute)
  ultimately show ?thesis by (simp add: synthetic_event_def synthetic_report_def test_source_constants)
qed

text \<open>
  Filling appends the next events of the sequence, until the queue is full or the sequence complete.
\<close>

definition fill_count :: "u32 \<times> playback_queue \<Rightarrow> nat" where
  "fill_count s = min (1000 - unat (fst s)) (512 - pq_count (snd s))"

lemma fill_appends:
  assumes "pq_inv (snd s)" "unat (fst s) \<le> 1000"
  shows "pq_inv (snd (fill_available_slots s)) \<and> unat (fst (fill_available_slots s)) = unat (fst s) + fill_count s
    \<and> pq_contents (snd (fill_available_slots s)) = pq_contents (snd s)
        @ map synthetic_event [unat (fst s)..<unat (fst s) + fill_count s]"
  using assms
proof (induction s rule: fill_available_slots.induct)
  case (1 s)
  show ?case
  proof (cases "unat (fst s) < 1000 \<and> pq_count (snd s) < 512")
    case True
    then have go: "fst s < PICO_PLAYBACK_TEST_TOTAL_EVENTS \<and> 0 < pico_playback_queue_free_capacity (Some (snd s))"
      by (simp add: test_source_constants word_less_nat_alt pico_playback_queue_free_capacity_def)
    define s' where "s' = push_synthetic_event (fst s) s"
    have n: "unat (fst s') = Suc (unat (fst s))"
      using True by (simp add: s'_def push_synthetic_event_def Let_def unat_word_ariths)
    have q: "snd s' = snd (pq_enqueue (synthetic_event (unat (fst s))) (snd s))"
      using synthetic_event_word [of "fst s"] True
      by (simp add: s'_def push_synthetic_event_def pq_enqueue_def Let_def flip: synthetic_event_word)
    have inv: "pq_inv (snd s')" and cont: "pq_contents (snd s') = pq_contents (snd s) @ [synthetic_event (unat (fst s))]"
      using pqf.push_inv [OF 1(2)] pqf.push_room [OF 1(2)] True by (simp_all add: q)
    have cnt: "pq_count (snd s') = Suc (pq_count (snd s))"
      using arg_cong [OF cont, of length] by simp
    have rec: "fill_available_slots s = fill_available_slots s'"
      using go by (subst fill_available_slots.simps) (simp add: s'_def)
    have k: "fill_count s = Suc (fill_count s')"
      using True n cnt unfolding fill_count_def by linarith
    have upt: "[unat (fst s)..<unat (fst s) + Suc m] = unat (fst s) # [unat (fst s')..<unat (fst s') + m]" for m
      by (simp add: n upt_conv_Cons del: upt_Suc)
    from 1(1) [OF go, folded s'_def, OF inv] n True show ?thesis
      unfolding rec k by (simp add: cont upt del: upt_Suc add_Suc_right)
  next
    case False
    then have "fill_count s = 0" "fill_available_slots s = s"
      using 1(2,3) by (auto simp: fill_count_def fill_available_slots.simps [of s] test_source_constants word_less_nat_alt
          pico_playback_queue_free_capacity_def)
    with 1(2) show ?thesis by simp
  qed
qed

text \<open>
  The benchmark as a stream: fills of the source and pops of the scheduler in any order. What was
  popped and what is left are the beginning of the synthetic sequence, without gap or repetition.
\<close>

datatype source_op = Fill | Drain

primrec source_step :: "source_op \<Rightarrow> (u64 \<times> hid_report) list \<times> u32 \<times> playback_queue
    \<Rightarrow> (u64 \<times> hid_report) list \<times> u32 \<times> playback_queue" where
  "source_step Fill s = (fst s, fill_available_slots (snd s))"
| "source_step Drain s = (let (x, q) = pq_dequeue (snd (snd s)) in
     (fst s @ (case x of None \<Rightarrow> [] | Some e \<Rightarrow> [e]), fst (snd s), q))"

definition stream_ok :: "(u64 \<times> hid_report) list \<times> u32 \<times> playback_queue \<Rightarrow> bool" where
  "stream_ok s \<longleftrightarrow> pq_inv (snd (snd s)) \<and> unat (fst (snd s)) \<le> 1000
     \<and> fst s @ pq_contents (snd (snd s)) = map synthetic_event [0..<unat (fst (snd s))]"

lemma source_step_ok: "stream_ok s \<Longrightarrow> stream_ok (source_step op s)"
proof (cases op)
  case Fill
  assume s: "stream_ok s"
  then have "pq_inv (snd (snd s))" "unat (fst (snd s)) \<le> 1000" by (simp_all add: stream_ok_def)
  note fill = fill_appends [OF this]
  have "fst s @ pq_contents (snd (fill_available_slots (snd s)))
      = map synthetic_event ([0..<unat (fst (snd s))] @ [unat (fst (snd s))..<unat (fst (snd s)) + fill_count (snd s)])"
    using s fill by (simp add: stream_ok_def flip: append_assoc)
  also have "\<dots> = map synthetic_event [0..<unat (fst (snd s)) + fill_count (snd s)]"
    by (simp only: upt_add_eq_append [symmetric] le0)
  finally have "fst s @ pq_contents (snd (fill_available_slots (snd s)))
      = map synthetic_event [0..<unat (fst (fill_available_slots (snd s)))]" using fill by simp
  moreover have "unat (fst (snd s)) + fill_count (snd s) \<le> 1000"
    using s unfolding stream_ok_def fill_count_def by linarith
  ultimately show ?thesis using s fill by (simp add: Fill stream_ok_def)
next
  case Drain
  assume s: "stream_ok s"
  then have inv: "pq_inv (snd (snd s))" by (simp add: stream_ok_def)
  show ?thesis
  proof (cases "pq_contents (snd (snd s))")
    case Nil
    with pqf.pop_contents [OF inv] s pqf.pop_inv [OF inv] show ?thesis
      by (cases "pq_dequeue (snd (snd s))") (auto simp: Drain stream_ok_def)
  next
    case (Cons x xs)
    with pqf.pop_Cons [OF inv Cons] s pqf.pop_inv [OF inv] show ?thesis
      by (auto simp: Drain stream_ok_def split_beta)
  qed
qed

lemma source_run_ok: "stream_ok s \<Longrightarrow> stream_ok (fold source_step ops s)"
  by (induction ops arbitrary: s) (simp_all add: source_step_ok)

section \<open>The task\<close>

text \<open>An empty queue is filled with the first 512 events, the first of them at the offset zero.\<close>

lemma fill_empty:
  assumes "fw_inv w" "mode_state w = PICO_UART_MODE_ARMED" "pq_count (w_queue w) = 0"
  defines "f \<equiv> fill_available_slots (0, w_queue w)"
  shows "fst f = 512" "pq_contents (snd f) = map synthetic_event [0..<512]" "fw_inv (w\<lparr>w_queue := snd f\<rparr>)"
    "\<exists>e. pico_playback_queue_peek (snd f) = Some e \<and> qe_offset_us e = 0"
proof -
  have "pq_inv (w_queue w)" using assms(1) by (simp add: fw_inv_def fw_core_def)
  with fill_appends [of "(0, w_queue w)"] assms(3)
  have f: "pq_inv (snd f)" "fst f = 512" "pq_contents (snd f) = map synthetic_event [0..<512]"
    by (auto simp: f_def fill_count_def word_unat_eq_iff)
  then show "fst f = 512" "pq_contents (snd f) = map synthetic_event [0..<512]" by simp_all
  show "fw_inv (w\<lparr>w_queue := snd f\<rparr>)"
    using assms(1,2) f(1) by (simp add: fw_inv_def fw_core_def fw_modes_def sched_ok_def mode_defs)
  obtain rest where "pq_contents (snd f) = synthetic_event 0 # rest"
    unfolding f(3) using upt_conv_Cons [of 0 512] by (auto simp del: upt_rec_numeral)
  with pqf.peek_contents [OF f(1)] show "\<exists>e. pico_playback_queue_peek (snd f) = Some e \<and> qe_offset_us e = 0"
    by (auto simp: pq_head_def pq_pair_def synthetic_event_def)
qed

text \<open>The start of the benchmark: from PASS to PLAYING with a full queue.\<close>

lemma task_starts:
  fixes w :: "'e globals" and sdk :: "'e sdk" and tud_mounted :: "'e \<Rightarrow> bool \<times> 'e"
  assumes "fw_inv w" "mode_state w = PICO_UART_MODE_PASS" "fst (tud_mounted (hw w))"
  defines "r \<equiv> pico_playback_test_source_task sdk tud_mounted pico_playback_test_source_init w"
  shows "ts_stage (fst r) = PICO_PLAYBACK_TEST_RUNNING \<and> ts_pushed_count (fst r) = 512
    \<and> pq_contents (w_queue (snd r)) = map synthetic_event [0..<512]
    \<and> mode_state (snd r) = PICO_UART_MODE_PLAYING \<and> ps_running (w_sched (snd r))
    \<and> ps_next_deadline_us (w_sched (snd r)) = ps_playback_start_us (w_sched (snd r))
    \<and> sr_pending (g_safety (snd r))"
proof -
  let ?w1 = "w\<lparr>hw := snd (tud_mounted (hw w))\<rparr>"
  have inv1: "fw_inv ?w1" using assms(1) by (simp add: hw_ok)
  have t: "mode_table (Mode_Set 2) (mode_state ?w1) = (Clear_All, 2, PICO_UART_REASON_OK, True)"
    using assms(2) by (simp add: mode_defs)
  define w2 where "w2 = snd (mode_step (mode_cb sdk) (Mode_Set 2) ?w1)"
  note arm = mode_step_effect [OF t, of 2 sdk, folded w2_def]
  have inv2: "fw_inv w2" using mode_step_inv [OF inv1, of "Mode_Set 2" 2 sdk] by (simp add: w2_def)
  have q2: "pq_count (w_queue w2) = 0" "mode_state w2 = 2" using arm(2) by (simp_all add: mode_effect_def)
  define f where "f = fill_available_slots (0, w_queue w2)"
  note fill = fill_empty [OF inv2 _ q2(1), folded f_def]
  have f: "fst f = 512" "pq_contents (snd f) = map synthetic_event [0..<512]" "fw_inv (w2\<lparr>w_queue := snd f\<rparr>)"
    using fill(1-3) q2(2) by (simp_all add: mode_defs)
  obtain e where e: "pico_playback_queue_peek (snd f) = Some e" "qe_offset_us e = 0"
    using fill(4) q2(2) by (auto simp: mode_defs)
  define w4 where "w4 = snd (time_us_64 sdk (w2\<lparr>w_queue := snd f\<rparr>))"
  define t0 where "t0 = fst (time_us_64 sdk (w2\<lparr>w_queue := snd f\<rparr>))"
  have inv4: "fw_inv w4" using f(3) by (simp add: w4_def hw_ok)
  have m4: "mode_state w4 = PICO_UART_MODE_ARMED" and q4: "w_queue w4 = snd f"
    using q2(2) by (simp_all add: w4_def time_us_64_def mode_defs)
  note st = play_start_ok [OF inv4 m4, of sdk]
  define w5 where "w5 = snd (pico_mode_state_play_start (mode_cb sdk) w4)"
  have s5: "ps_queue (w_sched w5)" "\<not> ps_running (w_sched w5)" "mode_state w5 = PICO_UART_MODE_PLAYING"
    "w_queue w5 = snd f" "sr_pending (g_safety w5)"
    using st(2) [folded w5_def] q4 by (auto simp: fw_core_def)
  have "pico_playback_queue_peek (w_queue w5) = Some e" using s5(4) e(1) by simp
  note start = start_with_event [OF s5(1,2) this, of "sched_cb sdk" sdk t0]
  have "r = (\<lparr>ts_bound = True, ts_stage = PICO_PLAYBACK_TEST_RUNNING, ts_pushed_count = fst f\<rparr>,
      pico_playback_scheduler_start (sched_cb sdk) sdk t0 w5)"
    using assms(3) arm(1) st(1)
    by (simp add: r_def pico_playback_test_source_task_def pico_playback_test_source_init_def Let_def split_beta
        fill_step_def w2_def f_def w4_def t0_def w5_def mode_defs)
  with start s5 e f(1,2) show ?thesis by simp
qed

text \<open>
  The end: the pass that queues the last event also closes the sequence, and afterwards the task does
  nothing. It fills, and closes, in whatever mode the program is by then.
\<close>

lemma task_running:
  fixes w :: "'e globals" and ts :: test_source and sdk :: "'e sdk" and tud_mounted :: "'e \<Rightarrow> bool \<times> 'e"
  assumes "pq_inv (w_queue w)" "ts_bound ts" "ts_stage ts = PICO_PLAYBACK_TEST_RUNNING" "unat (ts_pushed_count ts) \<le> 1000"
  defines "r \<equiv> pico_playback_test_source_task sdk tud_mounted ts w"
    and "n \<equiv> unat (ts_pushed_count ts) + fill_count (ts_pushed_count ts, w_queue w)"
  shows "unat (ts_pushed_count (fst r)) = n \<and> ts_stage (fst r) = (if n = 1000 then PICO_PLAYBACK_TEST_DONE else PICO_PLAYBACK_TEST_RUNNING)
    \<and> pq_contents (w_queue (snd r)) = pq_contents (w_queue w) @ map synthetic_event [unat (ts_pushed_count ts)..<n]
    \<and> ps_sequence_ended (w_sched (snd r)) = (n = 1000 \<or> ps_sequence_ended (w_sched w)) \<and> mode_state (snd r) = mode_state w"
proof -
  have le: "n \<le> 1000" using assms(4) unfolding n_def fill_count_def by simp
  have step: "(if ts_pushed_count ts < PICO_PLAYBACK_TEST_TOTAL_EVENTS then fill_step ts w else (ts, w)) = fill_step ts w"
    by (auto simp: fill_step_def fill_available_slots.simps [of "(ts_pushed_count ts, w_queue w)"])
  have "r = (let (ts1, w1) = fill_step ts w in
      if 1000 \<le> ts_pushed_count ts1
      then (ts1\<lparr>ts_stage := PICO_PLAYBACK_TEST_DONE\<rparr>, sched_update pico_playback_scheduler_mark_sequence_ended w1)
      else (ts1, w1))"
    using assms(2,3) by (simp add: r_def pico_playback_test_source_task_def step) (simp add: test_source_constants)
  with fill_appends [of "(ts_pushed_count ts, w_queue w)"] assms(1,3,4) le show ?thesis
    by (auto simp: fill_step_def split_beta Let_def n_def word_le_nat_alt pico_playback_scheduler_mark_sequence_ended_def)
qed

end
