(* ===== verification/Hid_Demo.thy ===== *)
theory Hid_Demo
  imports Pico_Machine
begin

text \<open>
  \<open>hid_demo_test_task\<close> of \<open>pico/src/main.c\<close>, in builds with \<open>PICO_HID_DEMO_TEST\<close>: press the key A once
  and release it at least 50 ms later. The static variables are a record. \<open>tud_mounted\<close> and the
  millisecond clock (\<open>to_ms_since_boot(get_absolute_time())\<close>) are parameters.
\<close>

datatype hid_demo_stage = HID_DEMO_WAIT_FOR_ENDPOINT | HID_DEMO_WAIT_TO_RELEASE | HID_DEMO_COMPLETE

record hid_demo =
  hd_stage :: hid_demo_stage
  hd_release_at_ms :: u32

definition hid_demo_init :: hid_demo where
  "hid_demo_init = \<lparr>hd_stage = HID_DEMO_WAIT_FOR_ENDPOINT, hd_release_at_ms = 0\<rparr>"

definition demo_press :: hid_report where
  "demo_press = pico_hid_boot_keyboard_make_key_press 0 PICO_HID_USAGE_KEY_A"

definition hid_demo_test_task ::
    "'e sdk \<Rightarrow> ('e \<Rightarrow> bool \<times> 'e) \<Rightarrow> ('e \<Rightarrow> u32 \<times> 'e) \<Rightarrow> hid_demo \<Rightarrow> ('e, 'z) machine_scheme
      \<Rightarrow> hid_demo \<times> ('e, 'z) machine_scheme" where
  "hid_demo_test_task sdk tud_mounted now_ms d w =
     (if hd_stage d = HID_DEMO_COMPLETE then (d, w)
      else
       (let (mounted, w1) = call_hw tud_mounted w in
        if \<not> mounted \<or> pico_mode_state_get (Some (mode_state w1)) \<noteq> PICO_UART_MODE_PASS then (d, w1)
        else if hd_stage d = HID_DEMO_WAIT_FOR_ENDPOINT then
          (let (ok, w2) = pico_hid_keyboard_send_boot_report sdk (Some demo_press) w1 in
           if ok then (let (now, w3) = call_hw now_ms w2
                       in (d\<lparr>hd_release_at_ms := now + 50, hd_stage := HID_DEMO_WAIT_TO_RELEASE\<rparr>, w3))
           else (d, w2))
        else
          (let (now, w2) = call_hw now_ms w1 in
           if 0 \<le> i32_int (I32 (now - hd_release_at_ms d)) then
             (let (ok, w3) = pico_hid_keyboard_send_all_keys_release sdk w2
              in (if ok then d\<lparr>hd_stage := HID_DEMO_COMPLETE\<rparr> else d, w3))
           else (d, w2))))"

text \<open>
  The comparison of the clock is that of the distance, so it survives the wrap-around of the 32-bit
  millisecond clock: \<open>t\<close> is the time of the press and \<open>e\<close> what has elapsed since.
\<close>

lemma elapsed_check:
  assumes "e < 2 ^ 31"
  shows "0 \<le> i32_int (I32 ((t + of_nat e) - (t + 50))) \<longleftrightarrow> 50 \<le> e"
proof -
  have "(t + of_nat e) - (t + 50) = (word_of_int (int e - 50) :: u32)" by simp
  moreover have "i32_int (i32_of_int (int e - 50)) = int e - 50"
    using assms by (intro i32_int_of_int) simp_all
  ultimately show ?thesis by (simp add: i32_of_int_def)
qed

text \<open>What the demo has sent in each stage.\<close>

fun demo_sent :: "hid_demo_stage \<Rightarrow> u8 list list" where
  "demo_sent HID_DEMO_WAIT_FOR_ENDPOINT = []"
| "demo_sent HID_DEMO_WAIT_TO_RELEASE = [report_bytes demo_press]"
| "demo_sent HID_DEMO_COMPLETE = [report_bytes demo_press, report_bytes pico_hid_boot_keyboard_release_all]"

lemma demo_step:
  assumes "hid_demo_test_task sdk tud_mounted now_ms d w = (d', w')" "hid_out w = out @ demo_sent (hd_stage d)"
  shows "hid_out w' = out @ demo_sent (hd_stage d') \<and> mode_state w' = mode_state w"
proof -
  obtain okp wp where p: "pico_hid_keyboard_send_boot_report sdk (Some demo_press) (w\<lparr>hw := snd (tud_mounted (hw w))\<rparr>) = (okp, wp)"
    by fastforce
  let ?w2 = "w\<lparr>hw := snd (now_ms (snd (tud_mounted (hw w))))\<rparr>"
  obtain okr wr where r: "pico_hid_keyboard_send_boot_report sdk (Some pico_hid_boot_keyboard_release_all) ?w2 = (okr, wr)"
    by fastforce
  note out = send_boot_report [OF p] send_boot_report [OF r]
  obtain e1 h1 e2 h2 where "wp = w\<lparr>hw := e1, hid_out := h1\<rparr>" "wr = w\<lparr>hw := e2, hid_out := h2\<rparr>"
    using out(2,4) by auto
  then have modes: "mode_state wp = mode_state w" "mode_state wr = mode_state w" by simp_all
  show ?thesis
    using assms p r out(1,3) modes
    by (cases "hd_stage d")
      (auto simp: hid_demo_test_task_def pico_hid_keyboard_send_all_keys_release_def Let_def split_beta split: if_splits)
qed

end
