(* ===== verification/Firmware_Test_Builds.thy ===== *)
theory Firmware_Test_Builds
  imports Firmware_Loop Playback_Test_Source Hid_Demo
begin

text \<open>
  The main loop of \<open>pico/src/main.c\<close> in the two test builds, \<open>PICO_HID_DEMO_TEST\<close> and
  \<open>PICO_PLAYBACK_SCHED_TEST\<close>: after the transmission and before the idle call a hook runs, with static
  variables of its own. The locale \<open>loop_hook\<close> states what a hook promises so that the loop returns and
  the invariant holds; the demo keeps the promise. The benchmark keeps it only while its run is not
  cut short.
\<close>

section \<open>The loop with a hook\<close>

definition hooked_iteration ::
    "'e board \<Rightarrow> (pico_safety_release_result \<Rightarrow> 's \<Rightarrow> 'e globals \<Rightarrow> 's \<times> 'e globals)
      \<Rightarrow> 's \<times> 'e globals \<Rightarrow> ('s \<times> 'e globals) option" where
  "hooked_iteration bd hook s =
     do {
       (release_result, w1) \<leftarrow> main_pass bd (snd s);
       (let (v, w2) = hook release_result (fst s) w1 in Some (v, idle_step bd w2))
     }"

primrec hooked_loop ::
    "nat \<Rightarrow> 'e board \<Rightarrow> (pico_safety_release_result \<Rightarrow> 's \<Rightarrow> 'e globals \<Rightarrow> 's \<times> 'e globals)
      \<Rightarrow> 's \<times> 'e globals \<Rightarrow> ('s \<times> 'e globals) option" where
  "hooked_loop 0 bd hook s = Some s"
| "hooked_loop (Suc n) bd hook s = do { s1 \<leftarrow> hooked_iteration bd hook s; hooked_loop n bd hook s1 }"

text \<open>The hook of the demo runs only in an iteration without a pending release.\<close>

definition demo_hook ::
    "'e sdk \<Rightarrow> ('e \<Rightarrow> bool \<times> 'e) \<Rightarrow> ('e \<Rightarrow> u32 \<times> 'e) \<Rightarrow> pico_safety_release_result
      \<Rightarrow> hid_demo \<Rightarrow> 'e globals \<Rightarrow> hid_demo \<times> 'e globals" where
  "demo_hook sdk tud_mounted now_ms release_result d w =
     (if release_result = PICO_SAFETY_RELEASE_READY then hid_demo_test_task sdk tud_mounted now_ms d w else (d, w))"

definition benchmark_hook ::
    "'e sdk \<Rightarrow> ('e \<Rightarrow> bool \<times> 'e) \<Rightarrow> pico_safety_release_result
      \<Rightarrow> test_source \<Rightarrow> 'e globals \<Rightarrow> test_source \<times> 'e globals" where
  "benchmark_hook sdk tud_mounted release_result ts w = pico_playback_test_source_task sdk tud_mounted ts w"

section \<open>What a hook promises\<close>

locale loop_hook =
  fixes hook :: "pico_safety_release_result \<Rightarrow> 's \<Rightarrow> 'e globals \<Rightarrow> 's \<times> 'e globals"
  assumes hook_inv: "fw_inv w \<Longrightarrow> fw_inv (snd (hook result s w))"
begin

lemma hooked_iteration_ok:
  assumes "uart_fifo_ok (bd_sdk bd) pend" "fw_inv (snd s)"
  shows "\<exists>s'. hooked_iteration bd hook s = Some s' \<and> fw_inv (snd s')"
proof -
  from main_pass_ok [OF assms] obtain r w1 where w1: "main_pass bd (snd s) = Some (r, w1)" "fw_inv w1" by blast
  then show ?thesis
    using hook_inv [OF w1(2)] by (simp add: hooked_iteration_def split_beta Let_def idle_step_ok)
qed

lemma hooked_loop_ok:
  assumes "uart_fifo_ok (bd_sdk bd) pend" "fw_inv (snd s)"
  shows "\<exists>s'. hooked_loop n bd hook s = Some s' \<and> fw_inv (snd s')"
  using assms(2)
proof (induction n arbitrary: s)
  case (Suc n)
  from hooked_iteration_ok [OF assms(1) Suc.prems] obtain s1
    where "hooked_iteration bd hook s = Some s1" "fw_inv (snd s1)" by blast
  with Suc.IH [OF this(2)] show ?case by simp
qed simp

end

section \<open>The demo\<close>

text \<open>The demo touches the hardware and the trace of reports, nothing else.\<close>

lemma hw_only_then:
  assumes "hw_only u v"
  shows "hw_only u (snd (call_hw f v))" "hw_only u (snd (pico_hid_keyboard_send_boot_report sdk (Some r) v))"
proof -
  obtain ok v' where send: "pico_hid_keyboard_send_boot_report sdk (Some r) v = (ok, v')" by fastforce
  from send_boot_report(2) [OF this] obtain e where "v' = v\<lparr>hw := e, hid_out := hid_out v'\<rparr>" by blast
  with assms show "hw_only u (snd (pico_hid_keyboard_send_boot_report sdk (Some r) v))"
    unfolding send hw_only_def by (cases u; cases v; cases v') simp
  show "hw_only u (snd (call_hw f v))"
    using assms unfolding hw_only_def by (cases u; cases v) simp
qed

lemma demo_task_hw_only: "hw_only w (snd (hid_demo_test_task sdk tud_mounted now_ms d w))"
  by (auto simp: hid_demo_test_task_def pico_hid_keyboard_send_all_keys_release_def Let_def split_beta
      simp del: call_hw_result intro!: hw_only_then)

lemma hw_only_inv: "hw_only w w' \<Longrightarrow> fw_inv w \<Longrightarrow> fw_inv w'"
  unfolding hw_only_def by (cases w; cases w') (simp add: fw_inv_def fw_core_def fw_modes_def)

lemma demo_hook_inv: "fw_inv w \<Longrightarrow> fw_inv (snd (demo_hook sdk tud_mounted now_ms result d w))"
  by (auto simp: demo_hook_def intro: hw_only_inv [OF demo_task_hw_only])

interpretation demo: loop_hook "demo_hook sdk tud_mounted now_ms"
  by unfold_locales (rule demo_hook_inv)

section \<open>The benchmark\<close>

text \<open>
  The run of the benchmark is intact while the program is in ARMED or PLAYING. As long as it is, the
  hook keeps the invariant.
\<close>

definition run_intact :: "test_source \<Rightarrow> 'e globals \<Rightarrow> bool" where
  "run_intact ts w \<longleftrightarrow> ts_bound ts \<and> unat (ts_pushed_count ts) \<le> 1000
     \<and> (ts_stage ts = PICO_PLAYBACK_TEST_RUNNING \<longrightarrow>
          mode_state w = PICO_UART_MODE_ARMED \<or> mode_state w = PICO_UART_MODE_PLAYING)"

text \<open>Appending keeps the head, so a fill keeps what the scheduler has armed.\<close>

lemma head_append:
  assumes "pq_inv q" "pq_inv q'" "pq_contents q' = pq_contents q @ xs" "pico_playback_queue_peek q = Some e"
  shows "\<exists>e'. pico_playback_queue_peek q' = Some e' \<and> qe_offset_us e' = qe_offset_us e"
proof -
  have "pq_head q = Some (pq_pair e)" using assms(4) by (simp add: pq_head_def)
  with pqf.peek_contents [OF assms(1)] obtain xs' where "pq_contents q = pq_pair e # xs'"
    by (auto split: list.splits)
  with pqf.peek_contents [OF assms(2)] assms(3) have "pq_head q' = Some (pq_pair e)" by simp
  then show ?thesis by (auto simp: pq_head_def pq_pair_def)
qed

lemma append_inv:
  assumes "fw_inv w" "pq_inv q'" "pq_contents q' = pq_contents (w_queue w) @ xs"
    "mode_state w = PICO_UART_MODE_ARMED \<or> mode_state w = PICO_UART_MODE_PLAYING"
  shows "fw_inv (w\<lparr>w_queue := q'\<rparr>)"
proof -
  have "sched_ok q' (w_sched w)"
    using head_append [OF _ assms(2,3)] assms(1,2) unfolding fw_inv_def sched_ok_def by metis
  with assms show ?thesis by (auto simp: fw_inv_def fw_core_def fw_modes_def)
qed

lemma fill_step_inv:
  assumes "fw_inv w" "unat (ts_pushed_count ts) \<le> 1000"
    "mode_state w = PICO_UART_MODE_ARMED \<or> mode_state w = PICO_UART_MODE_PLAYING"
  shows "fw_inv (snd (fill_step ts w))" "mode_state (snd (fill_step ts w)) = mode_state w"
proof -
  have "pq_inv (w_queue w)" using assms(1) by (simp add: fw_inv_def fw_core_def)
  with fill_appends [of "(ts_pushed_count ts, w_queue w)"] assms(2)
  have "pq_inv (snd (fill_available_slots (ts_pushed_count ts, w_queue w)))"
    "pq_contents (snd (fill_available_slots (ts_pushed_count ts, w_queue w))) = pq_contents (w_queue w)
      @ map synthetic_event [unat (ts_pushed_count ts)..<unat (ts_pushed_count ts) + fill_count (ts_pushed_count ts, w_queue w)]"
    by simp_all
  from append_inv [OF assms(1) this assms(3)]
  show "fw_inv (snd (fill_step ts w))" "mode_state (snd (fill_step ts w)) = mode_state w"
    by (simp_all add: fill_step_def split_beta)
qed

lemma armed_result:
  assumes "fst (pico_mode_state_handle_mode_set (mode_cb sdk) PICO_UART_MODE_ARMED w)"
  shows "mode_state (snd (pico_mode_state_handle_mode_set (mode_cb sdk) PICO_UART_MODE_ARMED w)) = PICO_UART_MODE_ARMED"
proof -
  obtain k s' reason ok where t: "mode_table (Mode_Set PICO_UART_MODE_ARMED) (mode_state w) = (k, s', reason, ok)"
    using prod_cases4 by blast
  note step = mode_step_effect [OF t, of 2 sdk]
  from step(1) assms t have "s' = PICO_UART_MODE_ARMED" by (auto simp: mode_defs split: if_splits)
  with step(2) show ?thesis by (simp add: mode_effect_def)
qed

lemma benchmark_start_inv:
  assumes "fw_inv w" "unat (ts_pushed_count ts) \<le> 1000" "ts_bound ts" "ts_stage ts = PICO_PLAYBACK_TEST_WAIT_FOR_MOUNT"
  shows "fw_inv (snd (pico_playback_test_source_task sdk tud_mounted ts w))"
proof -
  define w1 where "w1 = snd (call_hw tud_mounted w)"
  have inv1: "fw_inv w1" using assms(1) by (simp add: w1_def hw_ok)
  define w2 where "w2 = snd (pico_mode_state_handle_mode_set (mode_cb sdk) PICO_UART_MODE_ARMED w1)"
  have inv2: "fw_inv w2" using mode_step_inv [OF inv1, of "Mode_Set PICO_UART_MODE_ARMED" 2 sdk] by (simp add: w2_def)
  define w4 where "w4 = snd (time_us_64 sdk (snd (fill_step ts w2)))"
  have start: "fw_inv (pico_playback_scheduler_start (sched_cb sdk) sdk t (snd (pico_mode_state_play_start (mode_cb sdk) w4)))
      \<and> fst (pico_mode_state_play_start (mode_cb sdk) w4)"
    if "fst (pico_mode_state_handle_mode_set (mode_cb sdk) PICO_UART_MODE_ARMED w1)" for t
  proof -
    have m2: "mode_state w2 = PICO_UART_MODE_ARMED" using armed_result [OF that] by (simp add: w2_def)
    note fill = fill_step_inv [OF inv2 assms(2)]
    have "fw_inv w4" "mode_state w4 = PICO_UART_MODE_ARMED" using fill m2 by (simp_all add: w4_def hw_ok time_us_64_def)
    note st = play_start_ok [OF this, of sdk]
    from st(2) have "fw_core (snd (pico_mode_state_play_start (mode_cb sdk) w4))"
      "mode_state (snd (pico_mode_state_play_start (mode_cb sdk) w4)) = PICO_UART_MODE_PLAYING"
      "kc_count (g_capture (snd (pico_mode_state_play_start (mode_cb sdk) w4))) = 0"
      "\<not> ps_running (w_sched (snd (pico_mode_state_play_start (mode_cb sdk) w4)))" by blast+
    from start_ok [OF this] st(1) show ?thesis by blast
  qed
  show ?thesis
    using inv1 inv2 start assms(3,4)
    by (auto simp: pico_playback_test_source_task_def Let_def split_beta w1_def w2_def w4_def)
qed

lemma benchmark_hook_inv:
  assumes "fw_inv w" "run_intact ts w"
  shows "fw_inv (snd (benchmark_hook sdk tud_mounted result ts w))"
proof (cases "ts_stage ts")
  case PICO_PLAYBACK_TEST_WAIT_FOR_MOUNT
  with benchmark_start_inv [OF assms(1)] assms(2) show ?thesis by (simp add: benchmark_hook_def run_intact_def)
next
  case PICO_PLAYBACK_TEST_RUNNING
  then have mode: "mode_state w = PICO_UART_MODE_ARMED \<or> mode_state w = PICO_UART_MODE_PLAYING"
    and n: "unat (ts_pushed_count ts) \<le> 1000" "ts_bound ts" using assms(2) by (simp_all add: run_intact_def)
  note fill = fill_step_inv [OF assms(1) n(1) mode]
  have "fw_inv (sched_update pico_playback_scheduler_mark_sequence_ended w)"
    "fw_inv (sched_update pico_playback_scheduler_mark_sequence_ended (snd (fill_step ts w)))"
    using mark_ended_ok [OF assms(1) mode] mark_ended_ok [OF fill(1)] fill(2) mode by simp_all
  with PICO_PLAYBACK_TEST_RUNNING fill(1) n(2) assms(1) show ?thesis
    by (simp add: benchmark_hook_def pico_playback_test_source_task_def Let_def split_beta)
next
  case PICO_PLAYBACK_TEST_DONE
  with assms(1) show ?thesis by (simp add: benchmark_hook_def pico_playback_test_source_task_def)
qed

text \<open>
  A run cut short by a fault: the program is in ERROR with an empty queue, and the next call of the hook
  fills the queue again, up to its 512 entries. No part of the invariant but its rule for the queue is
  broken; but the queue of an ERROR is not empty any more.
\<close>

lemma benchmark_refills:
  assumes "fw_inv w" "mode_state w = PICO_UART_MODE_ERROR" "ts_bound ts" "ts_stage ts = PICO_PLAYBACK_TEST_RUNNING"
    "unat (ts_pushed_count ts) < 1000"
  shows "mode_state (snd (benchmark_hook sdk tud_mounted result ts w)) = PICO_UART_MODE_ERROR
    \<and> pq_count (w_queue (snd (benchmark_hook sdk tud_mounted result ts w))) = min 512 (1000 - unat (ts_pushed_count ts))
    \<and> \<not> fw_inv (snd (benchmark_hook sdk tud_mounted result ts w))"
proof -
  have q: "pq_inv (w_queue w)" "pq_count (w_queue w) = 0"
    using assms(1,2) by (simp_all add: fw_inv_def fw_core_def fw_modes_def mode_defs)
  let ?w' = "snd (benchmark_hook sdk tud_mounted result ts w)"
  from task_running [of w ts sdk tud_mounted, OF q(1) assms(3,4)] assms(5)
  have m: "mode_state ?w' = mode_state w" and c: "pq_contents (w_queue ?w') = pq_contents (w_queue w)
      @ map synthetic_event [unat (ts_pushed_count ts)..<unat (ts_pushed_count ts) + fill_count (ts_pushed_count ts, w_queue w)]"
    by (simp_all add: benchmark_hook_def)
  have "pq_count (w_queue ?w') = min 512 (1000 - unat (ts_pushed_count ts))"
    using arg_cong [OF c, of length] q(2) by (simp add: fill_count_def min.commute)
  moreover then have "pq_count (w_queue ?w') \<noteq> 0" using assms(5) by simp
  ultimately show ?thesis using m assms(2) by (simp add: fw_inv_def fw_modes_def mode_defs)
qed

end
