(* ===== verification/Usb_Descriptors.thy ===== *)
theory Usb_Descriptors
  imports Hid_Boot_Keyboard
begin

text \<open>
  \<open>pico/src/usb_descriptors.c\<close> with the sizes of \<open>pico/include/tusb_config.h\<close>, and the two control
  callbacks at the end of \<open>pico/src/main.c\<close>: what the USB device stack asks the program for. The tables
  are written with macros and constants of TinyUSB; those are a record \<open>tusb_macros\<close>, an argument of the
  tables. The string callback fills a static buffer of 33 words, one for the header and 32 for
  characters. The serial number comes from the board (\<open>board_usb_get_serial\<close>, a parameter that returns
  the words it stores for a given maximum).
\<close>

section \<open>The tables\<close>

record tusb_macros =
  tm_sizeof_desc_device :: nat
  tm_TUSB_DESC_DEVICE :: nat
  tm_TUD_HID_REPORT_DESC_KEYBOARD :: "u8 list"
  tm_TUD_CONFIG_DESC_LEN :: nat
  tm_TUD_HID_DESC_LEN :: nat
  tm_TUD_CONFIG_DESCRIPTOR :: "nat \<Rightarrow> nat \<Rightarrow> nat \<Rightarrow> nat \<Rightarrow> nat \<Rightarrow> nat \<Rightarrow> u8 list"
  tm_TUD_HID_DESCRIPTOR :: "nat \<Rightarrow> nat \<Rightarrow> nat \<Rightarrow> nat \<Rightarrow> nat \<Rightarrow> nat \<Rightarrow> nat \<Rightarrow> u8 list"
  tm_HID_ITF_PROTOCOL_KEYBOARD :: nat

definition CFG_TUD_ENDPOINT0_SIZE :: nat where "CFG_TUD_ENDPOINT0_SIZE = 64"
definition CFG_TUD_HID_EP_BUFSIZE :: nat where "CFG_TUD_HID_EP_BUFSIZE = 16"

definition USB_VID :: nat where "USB_VID = 0xCAFE"
definition USB_PID :: nat where "USB_PID = 0x4014"
definition USB_BCD :: nat where "USB_BCD = 0x0200"

record tusb_desc_device =
  bLength :: nat
  bDescriptorType :: nat
  bcdUSB :: nat
  bDeviceClass :: nat
  bDeviceSubClass :: nat
  bDeviceProtocol :: nat
  bMaxPacketSize0 :: nat
  idVendor :: nat
  idProduct :: nat
  bcdDevice :: nat
  iManufacturer :: nat
  iProduct :: nat
  iSerialNumber :: nat
  bNumConfigurations :: nat

definition device_descriptor :: "tusb_macros \<Rightarrow> tusb_desc_device" where
  "device_descriptor tm =
     \<lparr>bLength = tm_sizeof_desc_device tm, bDescriptorType = tm_TUSB_DESC_DEVICE tm, bcdUSB = USB_BCD,
      bDeviceClass = 0, bDeviceSubClass = 0, bDeviceProtocol = 0, bMaxPacketSize0 = CFG_TUD_ENDPOINT0_SIZE,
      idVendor = USB_VID, idProduct = USB_PID, bcdDevice = 0x0100, iManufacturer = 1, iProduct = 2,
      iSerialNumber = 3, bNumConfigurations = 1\<rparr>"

definition tud_descriptor_device_cb :: "tusb_macros \<Rightarrow> tusb_desc_device" where
  "tud_descriptor_device_cb tm = device_descriptor tm"

definition hid_report_descriptor :: "tusb_macros \<Rightarrow> u8 list" where
  "hid_report_descriptor tm = tm_TUD_HID_REPORT_DESC_KEYBOARD tm"

definition tud_hid_descriptor_report_cb :: "tusb_macros \<Rightarrow> u8 \<Rightarrow> u8 list" where
  "tud_hid_descriptor_report_cb tm ins = hid_report_descriptor tm"

definition ITF_NUM_HID :: nat where "ITF_NUM_HID = 0"
definition ITF_NUM_TOTAL :: nat where "ITF_NUM_TOTAL = 1"
definition EPNUM_HID :: nat where "EPNUM_HID = 0x81"
definition CONFIG_TOTAL_LEN :: "tusb_macros \<Rightarrow> nat" where
  "CONFIG_TOTAL_LEN tm = tm_TUD_CONFIG_DESC_LEN tm + tm_TUD_HID_DESC_LEN tm"

definition configuration_descriptor :: "tusb_macros \<Rightarrow> u8 list" where
  "configuration_descriptor tm =
     tm_TUD_CONFIG_DESCRIPTOR tm 1 ITF_NUM_TOTAL 0 (CONFIG_TOTAL_LEN tm) 0 100
     @ tm_TUD_HID_DESCRIPTOR tm ITF_NUM_HID 0 (tm_HID_ITF_PROTOCOL_KEYBOARD tm)
         (length (hid_report_descriptor tm)) EPNUM_HID CFG_TUD_HID_EP_BUFSIZE 10"

definition tud_descriptor_configuration_cb :: "tusb_macros \<Rightarrow> u8 \<Rightarrow> u8 list" where
  "tud_descriptor_configuration_cb tm index = configuration_descriptor tm"

text \<open>
  The descriptor says its own length: TinyUSB documents \<open>TUD_CONFIG_DESC_LEN\<close> and \<open>TUD_HID_DESC_LEN\<close> as
  the lengths of the two macros. A report of the keyboard fits the endpoint buffer.
\<close>

definition macro_lengths_ok :: "tusb_macros \<Rightarrow> bool" where
  "macro_lengths_ok tm \<longleftrightarrow>
     (\<forall>a b c d e f. length (tm_TUD_CONFIG_DESCRIPTOR tm a b c d e f) = tm_TUD_CONFIG_DESC_LEN tm)
     \<and> (\<forall>a b c d e f g. length (tm_TUD_HID_DESCRIPTOR tm a b c d e f g) = tm_TUD_HID_DESC_LEN tm)"

lemma length_configuration_descriptor:
  "macro_lengths_ok tm \<Longrightarrow> length (tud_descriptor_configuration_cb tm index) = CONFIG_TOTAL_LEN tm"
  by (simp add: tud_descriptor_configuration_cb_def configuration_descriptor_def macro_lengths_ok_def CONFIG_TOTAL_LEN_def)

lemma report_fits_endpoint: "PICO_HID_BOOT_KEYBOARD_REPORT_LEN \<le> CFG_TUD_HID_EP_BUFSIZE"
  by (simp add: CFG_TUD_HID_EP_BUFSIZE_def)

section \<open>Control transfers\<close>

text \<open>
  The program keeps no report for the PC to fetch (the length 0 stalls the request) and ignores what
  the PC sends, such as the state of the keyboard lights. The report type is TinyUSB's, any type here.
\<close>

definition tud_hid_get_report_cb :: "u8 \<Rightarrow> u8 \<Rightarrow> 't \<Rightarrow> u8 list \<Rightarrow> u16 \<Rightarrow> u16 \<times> u8 list" where
  "tud_hid_get_report_cb ins report_id report_type buffer reqlen = (0, buffer)"

definition tud_hid_set_report_cb :: "u8 \<Rightarrow> u8 \<Rightarrow> 't \<Rightarrow> u8 list \<Rightarrow> u16 \<Rightarrow> 'w \<Rightarrow> 'w" where
  "tud_hid_set_report_cb ins report_id report_type buffer bufsize w = w"

section \<open>The strings\<close>

definition STRID_LANGID :: u8 where "STRID_LANGID = 0"
definition STRID_SERIAL :: u8 where "STRID_SERIAL = 3"

text \<open>The entries of the table; the one of the serial number is \<open>NULL\<close>.\<close>

definition string_descriptors :: "u8 list option list" where
  "string_descriptors = [Some [0x09, 0x04], Some (map of_char ''Pico Keyboard RT Recorder''),
     Some (map of_char ''Pico 2 Boot Keyboard''), None]"

text \<open>Words stored from position 1 on, in order; \<open>copy_chars\<close> is the loop over the characters.\<close>

definition put_words :: "u16 list \<Rightarrow> u16 list \<Rightarrow> u16 list" where
  "put_words ws buf = take 1 buf @ ws @ drop (1 + length ws) buf"

function copy_chars :: "nat \<Rightarrow> nat \<Rightarrow> u8 list \<Rightarrow> u16 list \<Rightarrow> u16 list" where
  "copy_chars character character_count str buf =
     (if character < character_count
      then copy_chars (character + 1) character_count str (buf[character + 1 := ucast (str ! character)])
      else buf)"
  by pat_completeness auto
termination by (relation "measure (\<lambda>(character, character_count, _). character_count - character)") simp_all

declare copy_chars.simps [simp del]

definition tud_descriptor_string_cb ::
    "u16 \<Rightarrow> (nat \<Rightarrow> u16 list) \<Rightarrow> u8 \<Rightarrow> u16 list \<Rightarrow> u16 list option \<times> u16 list" where
  "tud_descriptor_string_cb desc_string board_usb_get_serial index buf =
     (let reply = (\<lambda>b character_count.
            let b' = b[0 := or (push_bit 8 desc_string) (of_nat (2 * character_count + 2))] in (Some b', b'))
      in if index = STRID_LANGID then
           (let l = the (string_descriptors ! unat STRID_LANGID)
            in reply (put_words [u16_le (l ! 0) (l ! 1)] buf) 1)
         else if index = STRID_SERIAL then
           (let ws = board_usb_get_serial 32 in reply (put_words ws buf) (length ws))
         else if length string_descriptors \<le> unat index then (None, buf)
         else
           (let str = the (string_descriptors ! unat index);
                character_count = (if 32 < length str then 32 else length str)
            in reply (copy_chars 0 character_count str buf) character_count))"

text \<open>The loop stores the characters in order and leaves the rest of the buffer.\<close>

lemma copy_chars_from:
  assumes "i \<le> n" "n \<le> length str" "n < length buf"
  shows "copy_chars i n str buf = take (i + 1) buf @ map ucast (drop i (take n str)) @ drop (n + 1) buf"
  using assms
proof (induction "n - i" arbitrary: i buf)
  case 0
  then show ?case by (simp add: copy_chars.simps)
next
  case (Suc k)
  then have i: "i < n" by simp
  let ?buf = "buf[i + 1 := ucast (str ! i)]"
  have "copy_chars i n str buf = copy_chars (i + 1) n str ?buf"
    using i by (subst copy_chars.simps) simp
  also have "\<dots> = take (i + 2) ?buf @ map ucast (drop (i + 1) (take n str)) @ drop (n + 1) ?buf"
    using Suc.hyps(1) [of "i + 1" ?buf] Suc.hyps(2) Suc.prems i by simp
  also have "take (i + 2) ?buf = take (i + 1) buf @ [ucast (str ! i)]"
    using i Suc.prems by (simp add: take_Suc_conv_app_nth)
  also have "drop (n + 1) ?buf = drop (n + 1) buf" using i by simp
  finally show ?case
    using i Suc.prems by (simp add: Cons_nth_drop_Suc [symmetric])
qed

corollary copy_chars_put:
  assumes "n \<le> length str" "n < length buf"
  shows "copy_chars 0 n str buf = put_words (map ucast (take n str)) buf"
  using copy_chars_from [of 0 n str buf] assms by (simp add: put_words_def)

text \<open>The text of a descriptor, as the words that follow the header.\<close>

definition descriptor_text :: "(nat \<Rightarrow> u16 list) \<Rightarrow> u8 \<Rightarrow> u16 list" where
  "descriptor_text board_usb_get_serial index =
     (if index = STRID_LANGID then [0x0409] else if index = STRID_SERIAL then board_usb_get_serial 32
      else map ucast (the (string_descriptors ! unat index)))"

lemma length_put_words:
  "0 < length buf \<Longrightarrow> length ws < length buf \<Longrightarrow> length (put_words ws buf) = length buf"
  by (simp add: put_words_def)

lemma put_words_take:
  "0 < length buf \<Longrightarrow> length ws < length buf \<Longrightarrow> take (length ws) (drop 1 (put_words ws buf)) = ws"
  by (simp add: put_words_def)

lemma string_entry:
  assumes "index < 4" "index \<noteq> STRID_LANGID" "index \<noteq> STRID_SERIAL"
  shows "unat index = 1 \<or> unat index = 2"
proof -
  have "unat index < 4" using assms(1) by (simp add: word_less_nat_alt)
  moreover have "unat index \<noteq> 0" "unat index \<noteq> 3"
    using assms(2,3) by (auto simp: STRID_LANGID_def STRID_SERIAL_def word_unat_eq_iff)
  ultimately show ?thesis by linarith
qed

lemma string_entry_short:
  assumes "index < 4" "index \<noteq> STRID_LANGID" "index \<noteq> STRID_SERIAL"
  shows "length (the (string_descriptors ! unat index)) \<le> 25"
  using string_entry [OF assms] by (auto simp: string_descriptors_def)

lemma string_cb_eq:
  assumes "length buf = 33" "index < 4"
  shows "tud_descriptor_string_cb ds get index buf =
    (let ws = descriptor_text get index; b = (put_words ws buf)[0 := or (push_bit 8 ds) (of_nat (2 * length ws + 2))]
     in (Some b, b))"
proof (cases "index = STRID_LANGID \<or> index = STRID_SERIAL")
  case True
  have "u16_le 9 4 = 0x0409" by (simp add: u16_le_def)
  with True show ?thesis
    by (auto simp: tud_descriptor_string_cb_def descriptor_text_def Let_def string_descriptors_def STRID_LANGID_def STRID_SERIAL_def)
next
  case False
  let ?str = "the (string_descriptors ! unat index)"
  have short: "length ?str \<le> 25" using string_entry_short assms(2) False by simp
  have "copy_chars 0 (length ?str) ?str buf = put_words (map ucast ?str) buf"
    using copy_chars_put [of "length ?str" ?str buf] short assms(1) by simp
  moreover have "\<not> length string_descriptors \<le> unat index"
    using string_entry [OF assms(2)] False by (auto simp: string_descriptors_def)
  ultimately show ?thesis
    using False short by (simp add: tud_descriptor_string_cb_def descriptor_text_def Let_def)
qed

lemma descriptor_text_short:
  assumes "index < 4" "length (get 32) \<le> 32"
  shows "length (descriptor_text get index) \<le> 32"
  using assms string_entry_short [OF assms(1)] by (force simp: descriptor_text_def)

text \<open>The strings that the device descriptor names are those of the table.\<close>

lemma announced_strings:
  "iManufacturer (tud_descriptor_device_cb tm) = 1" "iProduct (tud_descriptor_device_cb tm) = 2"
  "of_nat (iSerialNumber (tud_descriptor_device_cb tm)) = STRID_SERIAL"
  by (simp_all add: tud_descriptor_device_cb_def device_descriptor_def STRID_SERIAL_def)

end
