(* ===== verification/Clock_Debug.thy ===== *)
theory Clock_Debug
  imports Prelude
begin

text \<open>
  \<open>pico/src/clock_debug_test.c\<close>, in builds with \<open>PICO_CLOCK_DEBUG_PRINT\<close>: one line with four clock rates,
  printed once at the start. \<open>clock_get_hz\<close> is a parameter; \<open>stdio_init_all\<close> and the output device are
  outside, so the line is the result. \<open>decimal\<close> is the conversion \<open>%u\<close> of \<open>printf\<close>.
\<close>

fun decimal :: "nat \<Rightarrow> string" where
  "decimal n = (if n < 10 then [char_of (48 + n)] else decimal (n div 10) @ [char_of (48 + n mod 10)])"

declare decimal.simps [simp del]

datatype clock = clk_sys | clk_peri | clk_ref | clk_usb

definition pico_clock_debug_print :: "(clock \<Rightarrow> u32) \<Rightarrow> string" where
  "pico_clock_debug_print clock_get_hz =
     ''clk_sys='' @ decimal (unat (clock_get_hz clk_sys)) @ '' clk_peri='' @ decimal (unat (clock_get_hz clk_peri))
     @ '' clk_ref='' @ decimal (unat (clock_get_hz clk_ref)) @ '' clk_usb='' @ decimal (unat (clock_get_hz clk_usb))
     @ [CHR 0x0A]"

text \<open>The digits of a number say which number it is.\<close>

definition read_decimal :: "string \<Rightarrow> nat" where
  "read_decimal s = fold (\<lambda>c n. 10 * n + (of_char c - 48)) s 0"

lemma read_decimal_snoc: "read_decimal (s @ [c]) = 10 * read_decimal s + (of_char c - 48)"
  by (simp add: read_decimal_def)

lemma read_decimal_decimal [simp]: "read_decimal (decimal n) = n"
proof (induction n rule: decimal.induct)
  case (1 n)
  have digit: "of_char (char_of (48 + d) :: char) - 48 = d" if "d < 10" for d :: nat
    using that by simp
  show ?case
  proof (cases "n < 10")
    case True
    then show ?thesis using digit [of n] by (simp add: decimal.simps [of n] read_decimal_def)
  next
    case False
    then show ?thesis using 1 digit [of "n mod 10"] by (simp add: decimal.simps [of n] read_decimal_snoc)
  qed
qed

lemma decimal_inject [simp]: "decimal m = decimal n \<longleftrightarrow> m = n"
  by (metis read_decimal_decimal)

text \<open>A digit is never a space, so the rates can be read off the line: equal lines come from equal rates.\<close>

lemma decimal_digits: "c \<in> set (decimal n) \<Longrightarrow> 48 \<le> (of_char c :: nat)"
proof (induction n rule: decimal.induct)
  case (1 n)
  have digit: "48 \<le> (of_char (char_of (48 + d) :: char) :: nat)" if "d < 10" for d :: nat
    using that by simp
  show ?case
  proof (cases "n < 10")
    case True
    then show ?thesis using 1(2) digit [of n] by (simp add: decimal.simps [of n])
  next
    case False
    then show ?thesis using 1 digit [of "n mod 10"] by (auto simp: decimal.simps [of n])
  qed
qed

lemma decimal_field:
  assumes "decimal m @ c # xs = decimal n @ c # ys" "of_char c < (48 :: nat)"
  shows "m = n \<and> xs = ys"
proof -
  let ?digits = "takeWhile (\<lambda>d. 48 \<le> (of_char d :: nat))"
  have same: "?digits (decimal k @ c # zs) = decimal k" for k zs
    using assms(2) decimal_digits by (simp add: takeWhile_tail)
  have "decimal m = decimal n" using same [of m xs] same [of n ys] unfolding assms(1) by simp
  then have "m = n" by simp
  with assms(1) show ?thesis by simp
qed

lemma clock_line_tells_the_rates:
  assumes "pico_clock_debug_print f = pico_clock_debug_print g"
  shows "f = g"
proof -
  have "f c = g c" for c
    using assms unfolding pico_clock_debug_print_def
    by (cases c) (auto simp: word_unat_eq_iff dest!: decimal_field)
  then show ?thesis by (rule ext)
qed

end
