(* ===== verification/Spec2Isabelle.thy ===== *)
theory Spec2Isabelle
  imports Further_Laws Play_Samples Firmware_Test_Builds Usb_Descriptors Clock_Debug
begin

text \<open>
  The Pico keyboard recorder: its firmware (\<open>pico/src\<close>, \<open>pico/include\<close>) and the part of the Python service on
  the Pi Zero that talks to it (\<open>zero/app\<close>).

  The program. A Raspberry Pi Pico sits between a USB keyboard and a PC. In mode PASS it forwards what
  is typed; in RECORD it also reports every keystroke with its time over a UART to a Pi Zero; in ARMED
  and PLAYING it ignores the keyboard and plays timed reports that the Zero sends in advance; in ERROR
  it does nothing until it is told to return to PASS. It is one main loop, one UART interrupt and one
  alarm interrupt. What has to be right is that no key is left pressed when the mode changes, that no
  report is lost, repeated or reordered, that playback follows the clock and not the arrival of bytes,
  and that a damaged or missing transmission ends in a safe state. The Zero asks for the modes, stores what
  the Pico recorded as a file, and feeds it back by the credit that the Pico reports; there it has to be
  right that the file holds what was typed, and that the Pico gets what the file holds.

  Theories, from the bottom up:
  \<^item> \<open>Prelude\<close>: the C integer types, little-endian bytes, list views of rings, pointer guards.
  \<^item> \<open>Bounded_Fifo\<close>: the interface of a bounded queue, as the locales \<open>bounded_fifo\<close> and
    \<open>peekable_fifo\<close>. It is interpreted by the playback queue, the capture FIFO, the receive ring and
    the command ring.
  \<^item> \<open>Hid_Boot_Keyboard\<close> (\<open>hid_boot_keyboard.c\<close>), \<open>Playback_Queue\<close> (\<open>playback_queue.c\<close>),
    \<open>Keyboard_Capture\<close> (\<open>keyboard_capture.c\<close>): reports and the two buffers that hold them.
  \<^item> \<open>Uart_Protocol\<close> (\<open>uart_protocol.c\<close>): frame format, CRC, encoder, decoder, payload rules.
  \<^item> \<open>Uart_Transport\<close> (\<open>uart_transport.c\<close>): receive ring, frame parser, command ring, transmit ring.
    \<open>Uart_Parser\<close> states what the parser computes on byte lists and shows that the code refines it;
    \<open>Uart_Link\<close> adds frames, damaged frames, and interrupts during \<open>poll\<close>; \<open>Uart_Messages\<close> is the other
    direction, the messages of the Pico as a stream of frames.
  \<^item> \<open>Mode_State\<close> (\<open>mode_state.c\<close>): the mode machine, its transition table, and the locale
    \<open>mode_effects\<close> for what its callbacks promise.
  \<^item> \<open>Safety_Release\<close> (\<open>safety_release.c\<close>) and \<open>Physical_Report_Dispatch\<close>
    (\<open>physical_report_dispatch.c\<close>): the pending release and the forwarding of captured reports.
  \<^item> \<open>Pico_Machine\<close> (\<open>hid_keyboard_device.c\<close> and the interface to SDK and TinyUSB) and \<open>Uart_Hw\<close>
    (\<open>uart_transport_pico.c\<close>).
  \<^item> \<open>Playback_Metrics\<close>, \<open>Playback_Scheduler\<close>, \<open>Playback_Timing\<close> (\<open>playback_scheduler.c\<close>): the
    figures of a run, the operations, and when they send. The locales \<open>sched_client\<close> and
    \<open>sched_invariant\<close> state what the scheduler may assume of its callbacks.
  \<^item> \<open>Hid_Keyboard_Host\<close> (\<open>hid_keyboard_host.c\<close>): the callbacks of the USB host.
  \<^item> \<open>Firmware\<close> (\<open>main.c\<close>): globals, callbacks, command dispatch, main loop. \<open>Firmware_Invariant\<close>
    defines the invariant \<open>fw_inv\<close> and interprets \<open>mode_effects\<close> and \<open>sched_invariant\<close> on the
    callbacks of \<open>main.c\<close>; \<open>Firmware_Loop\<close> carries it through the loop; \<open>Firmware_Commands\<close> says
    what single commands do.
  \<^item> \<open>Firmware_Steps\<close>: the main loop as a transition system with labels, and an iteration as a path in
    the order of the code. \<open>Firmware_Reach\<close>: what every step and every reachable state satisfies;
    \<open>Firmware_Playing\<close>: paths in PLAYING; \<open>Firmware_Endpoint\<close>: passes with a release pending;
    \<open>Firmware_Recording\<close>: the frames that RECORD sends.
  \<^item> \<open>Firmware_Spec\<close>: the specification of the program, an abstract machine with lists for rings and
    messages for bytes. \<open>Firmware_Refinement\<close>: every step of the program is a step of the machine, by
    the relation \<open>implements\<close>; so a run of the program is a run of the machine. \<open>Firmware_Answers\<close>: from that,
    the messages that answer a command and the credit for queued events. \<open>Firmware_Typing\<close>: also from that,
    what is typed in PASS and RECORD on its way to the PC and the Zero.
  \<^item> \<open>Firmware_Hardware\<close>: the locales \<open>mode_invariant\<close>, \<open>input_invariant\<close> and \<open>loop_invariant\<close> for facts about
    the hardware that the main loop keeps, and the first use, a free endpoint; \<open>Firmware_Alarm\<close>: the
    second, the alarm that is armed for the head of the queue, in every round of the playback task.
  \<^item> \<open>Firmware_Runs\<close>: a run of playback from PLAY_START to its PLAY_METRICS, as the relation \<open>play_run\<close> that carries the
    time and the deadline of each dispatch, and an underrun from its beginning to the watchdog.
    \<open>Firmware_Capture_Times\<close>: the paths of \<open>Firmware_Typing\<close> with the clock readings of the USB callbacks.
  \<^item> \<open>Firmware_Startup\<close>: \<open>main\<close> before its loop, \<open>pico_uart_transport_hw_init\<close> of
    \<open>uart_transport_pico.c\<close> and \<open>hardware_config.h\<close>; the whole program is \<open>main_program\<close>.
  \<^item> \<open>Playback_Test_Source\<close> (\<open>playback_test_source.c\<close>) and \<open>Hid_Demo\<close> (\<open>hid_demo_test_task\<close> of \<open>main.c\<close>):
    the tasks of the two test builds. \<open>Firmware_Test_Builds\<close>: the main loop of these builds, with the
    locale \<open>loop_hook\<close> for what such a task promises.
  \<^item> \<open>Usb_Descriptors\<close> (\<open>usb_descriptors.c\<close>, \<open>tusb_config.h\<close>): the tables and the string callback;
    \<open>Clock_Debug\<close> (\<open>clock_debug_test.c\<close>): the line that a bring-up build prints at its start.
  \<^item> \<open>Samples\<close>, \<open>Sample_Runs\<close>, \<open>Play_Samples\<close>: concrete hardware, states and runs, on which the properties are
    instantiated. \<open>Further_Laws\<close>: laws of single components, with their instances, that are not among the
    numbered properties.
  \<^item> \<open>Zero_Protocol\<close> (\<open>zero/app/uart_protocol.py\<close>, \<open>errors.py\<close>): the Zero's side of the protocol; a lemma compares
    its constants with those of the C header. \<open>Zero_Decoder\<close>: what \<open>IncrementalDecoder\<close> gives for a stream of
    messages of the Pico.
  \<^item> \<open>Zero_Floats\<close>: the doubles of Python. \<open>Zero_Recording\<close> (\<open>recording.py\<close>, and \<open>expand_offsets\<close> of \<open>playback.py\<close>):
    recordings, their builder, their JSON values, the store. \<open>Zero_Capture\<close>: what the builder builds.
  \<^item> \<open>Zero_Transport\<close> (\<open>transport.py\<close>): reading, waiting, writing, mode changes. \<open>Zero_Handshake\<close>: the interface
    \<open>byte_stream\<close> of the serial stream, and that frames are taken in order and none is lost.
  \<^item> \<open>Zero_Service\<close> (\<open>service.py\<close>, \<open>_run_recording\<close> of \<open>controller.py\<close>): the recording session. \<open>Zero_Playback\<close>
    (\<open>playback.py\<close>): the playback session. \<open>Zero_Feeding\<close>: what a run writes. \<open>Zero_Replay\<close>: both sides together.
  \<^item> \<open>Zero_Linked\<close>: a world in which the stream is the Pico of \<open>Firmware_Spec\<close>, and an interpretation of
    \<open>byte_stream\<close>. \<open>Zero_Start\<close>, \<open>Zero_Run\<close>: the start and the whole of a run there; \<open>Zero_Overrun\<close>: a
    run that fails. \<open>Zero_Sessions\<close>: the same from the constructors on; \<open>Zero_Termination\<close>:
    the waits come to an end; \<open>Zero_Samples\<close>: concrete sessions.

  How the model relates to the code. Structs are records, with a field for a field; C integers are words of
  their width, and \<open>size_t\<close> counters, which stay below a buffer size, are naturals; arrays are
  lists of the declared length, updated in place. A function that may get NULL is modelled on the object,
  and its \<open>_ptr\<close> version, or an \<open>option\<close> argument, adds the guard. Output
  parameters are part of the result. Global objects are the fields of one record \<open>globals\<close>,
  which extends the records on which the components below work (\<open>mode_world\<close>,
  \<open>machine\<close>, \<open>sched_world\<close>); a callback is a function on the whole state, so that
  a component which calls back really runs the code of \<open>main.c\<close>.

  What is a parameter. SDK, TinyUSB and UART registers are not in the repository. They are the records
  \<open>sdk\<close>, \<open>board\<close> and \<open>boot\<close>: functions on a hardware state of any
  type that return a result and the next hardware state; and the macros of TinyUSB are the record
  \<open>tusb_macros\<close>. Four hypotheses about them occur. \<open>uart_fifo_ok\<close>: the UART hands
  out the bytes of a FIFO in order and becomes empty. \<open>endpoint_quiet\<close>: the USB endpoint is
  busy after a report until the task of the USB device frees it, and calls that are not about the endpoint
  leave it alone. \<open>alarm_ok\<close>: at most one alarm is armed, by \<open>add_alarm_at\<close> for
  the time given there, and it fires once, when the clock has reached that time.
  \<open>macro_lengths_ok\<close>: the descriptor macros have the lengths TinyUSB gives for them. Two ghost
  fields record what leaves the device: \<open>hid_out\<close>, the reports the USB endpoint accepted, and
  \<open>uart_out\<close>, the bytes given to the UART.

  Interrupts. The alarm interrupt sets one flag, and only the atomic exchange of the task reads it, so the
  interrupt is taken there (\<open>exchange_fired\<close>). The UART interrupt is run before
  \<open>poll\<close> and between \<open>poll\<close> and \<open>take_fault\<close>; interrupts between the
  steps of \<open>poll\<close> are treated in \<open>Uart_Link\<close>. The transition system of
  \<open>Firmware_Steps\<close> is more generous: it allows a UART interrupt between any two steps.

  The Zero. Python's integers are \<open>int\<close>, floats are rationals that every operation rounds to
  the nearest double, exceptions are the left side of a sum, and an object is a record that an action takes
  and gives back. The serial port, the clock and the cancellation event are a record \<open>zero_io\<close>
  of functions on a world of any type. \<open>io_ok\<close> is what Python documents of them: bytes are
  delivered once and in order, and what \<open>write\<close> reports as written was accepted.
  \<open>pico_peer\<close>: what arrives is a beginning of a stream of valid messages, which C14 proves of
  the Pico. The store is a map from names to JSON values. Waits are partial functions, \<open>None\<close>
  when they never return. \<open>clock_advances\<close>: the clock goes on from one reading to the next;
  with it every call returns (C20, \<open>Zero_Termination\<close>), if only with an exception. That a run
  returns with its result is C18, in a world where the Pico answers. There it takes each command as it is
  written, and takes a step whenever the Zero waits and nothing is on its way; its steps are steps of
  \<open>Firmware_Spec\<close> (\<open>pico_answer_steps\<close>, \<open>pico_idle_steps\<close>), the clock
  of the Zero stands still, and the wire is fast; so C18 and C19 are about one way the two programs can run.

  Loops and recursion. \<open>poll\<close>, the dispatch loops and the transmit loop are total functions
  with termination proofs. The interrupt handler, the command loop and the playback task end only because of
  what their surroundings do; they are partial functions, and that they return is part of C1, and of
  \<open>playback_conserves_events\<close> and \<open>interrupt_stores_the_fifo\<close> in
  \<open>Further_Laws\<close>. The callbacks of mode machine and scheduler call each other in a circle;
  \<open>playback_complete\<close> carries a depth, 2 in the program, and
  \<open>playback_complete_depth\<close> shows that any depth from 1 on is the same, as completion is called
  with the scheduler stopped. The main loop is run for any number of iterations.

  Properties. C1 to C13: the program as a whole, over all runs, steps, paths and reachable states. C14 to
  C22: the Zero, its recordings and runs, and both programs together. C23 to C29: UART and protocol of the
  Pico. C30 to C34: modes, faults and commands. C35 to C37: buffers, forwarding and recording. C38 and C39:
  figures of a run and underruns; a run in C38 is a \<open>play_run\<close>, which allows any other steps between the rounds of the playback
  task, and every path of the program in PLAYING is one (\<open>path_is_run\<close>). C40: USB string descriptors. Two more results are lemmas: the benchmark
  streams its sequence without gap or repetition (\<open>source_run_ok\<close>), and the invariant survives
  it and the demo (\<open>Firmware_Test_Builds\<close>).

  What the properties do not say. A release is requested when the mode changes, not when the keyboard is
  unplugged: \<open>tuh_hid_umount_cb\<close> touches its own record only, so that a key held at that moment
  stays pressed on the PC. C6 is about the modes ARMED and ERROR; in PLAYING the release that PLAY_START
  requests goes out first (C9), and the end of a run requests the next.

  C19 is a fault of the program: an underrun that is reported at the wrong moment makes a long run fail.

  Not modelled. The conditional static assertions of
  \<open>hardware_config.h\<close> and the configuration switches of \<open>tusb_config.h\<close> compare or set macros of the SDK.
  The contents of the HID report descriptor and the layout of the configuration descriptor are
  macros of TinyUSB. Of the Zero: the text of JSON and the steps by which a file is published, failures of
  the file system other than a missing or an existing file, \<open>list_metadata\<close>, the locks around figures that
  other threads read, all of \<open>controller.py\<close> but the loop of the recording worker, since it starts threads, and
  \<open>cli.py\<close> and \<open>web.py\<close>. The web page (\<open>zero/static\<close>) and the scripts of \<open>tools/\<close> are other programs.
\<close>

section \<open>The program as a whole\<close>

text \<open>
  C1: The program starts or panics, and once started it runs: \<open>main\<close> with any number of iterations
  returns. It panics exactly when one of the two USB stacks does not start. Otherwise every iteration
  returns, whatever the USB stack, the clock, the alarm and the UART deliver, and ends in a reachable
  state with the invariant of the program. The only assumption is that the UART FIFO hands out its
  bytes in order and empties.
\<close>

theorem program_returns:
  assumes "uart_fifo_ok (bd_sdk bd) pend"
  shows "\<exists>r. main_program n bt bd e = Some r
    \<and> (case r of Inl _ \<Rightarrow> \<not> usb_starts bt e
       | Inr w \<Rightarrow> usb_starts bt e \<and> fw_reachable (bd_sdk bd) w \<and> fw_inv w)"
  using main_program_ok [OF assms] .

theorem program_returns_witness:
  "\<exists>w. main_program 3 sample_boot fifo_board [0xA5, 2, 0x86, 0, 0] = Some (Inr w) \<and> fw_inv w"
proof -
  have "uart_fifo_ok (bd_sdk fifo_board) (\<lambda>e. e)" by (simp add: fifo_board_def fifo_sdk_ok)
  from program_returns [OF this, of 3 sample_boot "[0xA5, 2, 0x86, 0, 0]"] obtain r where
    r: "main_program 3 sample_boot fifo_board [0xA5, 2, 0x86, 0, 0] = Some r"
    "case r of Inl _ \<Rightarrow> \<not> usb_starts sample_boot [0xA5, 2, 0x86, 0, 0]
      | Inr w \<Rightarrow> usb_starts sample_boot [0xA5, 2, 0x86, 0, 0] \<and> fw_reachable (bd_sdk fifo_board) w \<and> fw_inv w" by blast
  then show ?thesis using sample_boot_starts by (cases r) auto
qed

text \<open>
  C2: The program implements its specification. Whatever the hardware does, after any number of passes of
  the main loop there is a run of the abstract machine of \<open>Firmware_Spec\<close> with the same steps, in the order
  of the code, whose state the program represents: the PC got the reports of the machine, and the bytes
  for the Zero are its messages as frames.
\<close>

theorem program_refines_specification:
  assumes "main_program n bt bd e = Some (Inr w)"
  shows "\<exists>passes s. length passes = n \<and> spec_path spec_init (concat (map pass_labels passes)) s \<and> implements w s
    \<and> hid_out w = sp_pc s \<and> wire_sent w = wire_stream (sp_zero s)"
proof -
  from assms obtain e' where "main_loop n bd (main_init e') = Some w" by (rule main_program_run)
  from loop_implemented [OF this] implements_outputs show ?thesis by blast
qed

theorem program_refines_specification_witness:
  "\<exists>w passes s. main_program 3 sample_boot fifo_board [0xA5, 2, 0x86, 0, 0] = Some (Inr w)
    \<and> spec_path spec_init (concat (map pass_labels passes)) s \<and> implements w s"
proof -
  obtain w where w: "main_program 3 sample_boot fifo_board [0xA5, 2, 0x86, 0, 0] = Some (Inr w)"
    using sample_program by blast
  from program_refines_specification [OF w] w show ?thesis by blast
qed

text \<open>
  C3: Every reachable state is well formed: the mode is one of the five, every buffer has its declared
  length, every index and counter is within its buffer, so that no access is out of bounds, and the
  queued commands are valid. The scheduler runs exactly in PLAYING, captured input exists only in PASS
  and RECORD, and queued events only in ARMED and PLAYING.
\<close>

theorem reachable_states_are_well_formed:
  assumes "fw_reachable sdk w"
  shows "mode_state w \<le> 4
    \<and> length (kc_events (g_capture w)) = 16 \<and> kc_read_index (g_capture w) < 16
    \<and> kc_write_index (g_capture w) < 16 \<and> kc_count (g_capture w) \<le> 16
    \<and> length (pq_events (w_queue w)) = 512 \<and> pq_read_index (w_queue w) < 512
    \<and> pq_write_index (w_queue w) < 512 \<and> pq_count (w_queue w) \<le> 512
    \<and> length (ut_rx_bytes (g_transport w)) = 512 \<and> length (rx_view (g_transport w)) \<le> 512
    \<and> length (ut_commands (g_transport w)) = 8 \<and> length (cmd_view (g_transport w)) \<le> 8
    \<and> list_all command_ok (cmd_view (g_transport w))
    \<and> length (ut_tx_bytes (g_transport w)) = 2048 \<and> length (tx_view (g_transport w)) \<le> 2048
    \<and> length (ut_parser (g_transport w)) = 71 \<and> ut_parser_len (g_transport w) < 71
    \<and> length (ps_lateness_samples (w_sched w)) = PICO_PLAYBACK_SCHEDULER_MAX_SAMPLES
    \<and> unat (ps_sample_count (w_sched w)) \<le> PICO_PLAYBACK_SCHEDULER_MAX_SAMPLES
    \<and> ps_running (w_sched w) = (mode_state w = PICO_UART_MODE_PLAYING)
    \<and> (mode_state w = PICO_UART_MODE_PASS \<or> mode_state w = PICO_UART_MODE_RECORD \<or> kc_count (g_capture w) = 0)
    \<and> (mode_state w = PICO_UART_MODE_ARMED \<or> mode_state w = PICO_UART_MODE_PLAYING \<or> pq_count (w_queue w) = 0)"
proof -
  have inv: "fw_core w" "fw_modes w" using reachable_laws(1) [OF assms] by (simp_all add: fw_inv_def)
  from inv(1) have parts: "kc_inv (g_capture w)" "pq_inv (w_queue w)" "ut_inv (g_transport w)" "samples_inv (w_sched w)"
    by (simp_all add: fw_core_def)
  note bounds = kc_inv_bounds [OF parts(1)] pq_inv_bounds [OF parts(2)] ut_inv_bounds [OF parts(3)]
  from parts(4) have samples: "length (ps_lateness_samples (w_sched w)) = PICO_PLAYBACK_SCHEDULER_MAX_SAMPLES"
    "unat (ps_sample_count (w_sched w)) \<le> PICO_PLAYBACK_SCHEDULER_MAX_SAMPLES" by (simp_all add: samples_inv_def)
  from inv(2) have modes: "mode_state w \<le> 4" "ps_running (w_sched w) = (mode_state w = PICO_UART_MODE_PLAYING)"
    "mode_state w = PICO_UART_MODE_PASS \<or> mode_state w = PICO_UART_MODE_RECORD \<or> kc_count (g_capture w) = 0"
    "mode_state w = PICO_UART_MODE_ARMED \<or> mode_state w = PICO_UART_MODE_PLAYING \<or> pq_count (w_queue w) = 0"
    by (auto simp: fw_modes_def)
  show ?thesis by (intro conjI bounds samples modes)
qed

theorem reachable_states_are_well_formed_witness:
  "mode_state sample_reached \<le> 4 \<and> pq_write_index (w_queue sample_reached) < 512
    \<and> ut_parser_len (g_transport sample_reached) < 71 \<and> \<not> ps_running (w_sched sample_reached)"
  using reachable_states_are_well_formed [OF sample_reached_facts(1)] sample_reached_facts(2) by (simp add: mode_defs)

text \<open>
  C4: Whenever an operation of the mode machine changes the mode, a release of all keys is pending
  afterwards and no captured input is left; and except when playback starts, the playback queue is
  empty.
\<close>

theorem mode_change_is_safe:
  assumes "mode_state (snd (mode_step (mode_cb sdk) op w)) \<noteq> mode_state w"
  shows "sr_pending (g_safety (snd (mode_step (mode_cb sdk) op w)))
    \<and> kc_count (g_capture (snd (mode_step (mode_cb sdk) op w))) = 0
    \<and> (op \<noteq> Play_Start \<longrightarrow> pq_count (w_queue (snd (mode_step (mode_cb sdk) op w))) = 0)"
  using mfx.change_safe [of 2 sdk op w] assms by (simp add: mode_callbacks_with_def)

theorem mode_change_is_safe_witness:
  "sr_pending (g_safety (snd (mode_step (mode_cb fifo_sdk) (Mode_Set 2) sample_init)))
    \<and> kc_count (g_capture (snd (mode_step (mode_cb fifo_sdk) (Mode_Set 2) sample_init))) = 0
    \<and> pq_count (w_queue (snd (mode_step (mode_cb fifo_sdk) (Mode_Set 2) sample_init))) = 0"
  using mode_change_is_safe [of fifo_sdk "Mode_Set 2" sample_init] sample_armed_facts(2)
  by (simp only: sample_armed_def) simp

text \<open>
  C5: Whenever a step changes the mode, it is along an edge of the mode graph: MODE_SET between PASS and
  RECORD or ARMED and from any mode back to PASS, PLAY_START from ARMED, PLAY_ABORT and the end of a run
  from PLAYING to ARMED, and faults, flow faults, refused queue commands and the watchdog to ERROR, never
  from PASS. Then a release of all keys is pending and the captured input is discarded.
\<close>

theorem mode_changes_follow_the_graph:
  assumes "fw_step sdk w l w'" "fw_inv w" "mode_state w' \<noteq> mode_state w"
  shows "mode_edge l (mode_state w) (mode_state w') \<and> sr_pending (g_safety w') \<and> kc_count (g_capture w') = 0"
  using step_takes_edge [OF assms(1,2)] step_change_pending [OF assms] step_change_empty [OF assms] assms(3) by blast

theorem mode_changes_follow_the_graph_witness:
  "mode_edge Fault (mode_state sample_faulty) (mode_state sample_error) \<and> sr_pending (g_safety sample_error)
    \<and> kc_count (g_capture sample_error) = 0"
proof (rule mode_changes_follow_the_graph)
  show "fw_step fifo_sdk sample_faulty Fault sample_error" unfolding sample_error_def by (rule fault)
qed (simp_all add: sample_faulty_inv sample_error_facts)

text \<open>
  C6: No key stays pressed on the PC when the keyboard is cut off from it: in every reachable state in
  ARMED or ERROR a release is pending, or the last report the PC got was the release.
\<close>

theorem cut_off_keyboard_is_released:
  assumes "fw_reachable sdk w" "mode_state w = PICO_UART_MODE_ARMED \<or> mode_state w = PICO_UART_MODE_ERROR"
  shows "sr_pending (g_safety w) \<or> (hid_out w \<noteq> [] \<and> last (hid_out w) = release_bytes)"
  using reachable_laws(2) [OF assms(1)] assms(2) by (simp add: cut_off_def keys_released_def)

theorem cut_off_keyboard_is_released_witness:
  "sr_pending (g_safety sample_reached) \<or> (hid_out sample_reached \<noteq> [] \<and> last (hid_out sample_reached) = release_bytes)"
  by (rule cut_off_keyboard_is_released [OF sample_reached_facts(1)]) (simp add: sample_reached_facts(2) mode_defs)

text \<open>
  C7: Every report to the PC has an origin. A step sends nothing, or it sends the pending release, or it
  forwards captured reports from the front of the FIFO in PASS or RECORD with no release pending, or it
  plays from the front of the queue in PLAYING.
\<close>

theorem every_report_has_an_origin:
  assumes "fw_step sdk w l w'" "fw_inv w"
  shows "\<exists>rs. hid_out w' = hid_out w @ rs \<and> report_origin l w rs"
  using step_reports [OF assms] .

theorem every_report_has_an_origin_witness:
  "\<exists>result w' rs. release_step fifo_sdk sample_armed = (result, w')
    \<and> hid_out w' = hid_out sample_armed @ rs \<and> report_origin (Release result) sample_armed rs"
proof -
  obtain result w' where r: "release_step fifo_sdk sample_armed = (result, w')" by fastforce
  from every_report_has_an_origin [OF release [OF r] sample_armed_facts(1)] r show ?thesis by blast
qed

text \<open>
  C8: ERROR is left only by MODE_SET(PASS). On any path without that command the program stays in ERROR,
  and the one report that goes to the PC is the release that was pending.
\<close>

theorem error_is_left_by_mode_set_only:
  assumes "fw_path sdk w ls w'" "fw_inv w" "mode_state w = PICO_UART_MODE_ERROR" "\<forall>l \<in> set ls. \<not> leaves_error l"
  shows "mode_state w' = PICO_UART_MODE_ERROR
    \<and> hid_out w' = hid_out w @ (if sr_pending (g_safety w) \<and> \<not> sr_pending (g_safety w') then [release_bytes] else [])"
  using error_path [OF assms] .

theorem error_is_left_by_mode_set_only_witness:
  "\<exists>result w'. release_step fifo_sdk sample_error = (result, w') \<and> mode_state w' = PICO_UART_MODE_ERROR
    \<and> hid_out w' = hid_out sample_error @ (if \<not> sr_pending (g_safety w') then [release_bytes] else [])"
proof -
  obtain result w' where r: "release_step fifo_sdk sample_error = (result, w')" by fastforce
  have "fw_path fifo_sdk sample_error [Release result] w'" using release [OF r] by auto
  from error_is_left_by_mode_set_only [OF this] sample_error_facts r show ?thesis
    by (simp add: leaves_error_def mode_defs)
qed

text \<open>
  C9: A pending release is delivered before anything else. When the endpoint is busy after a report until
  \<open>tud_task\<close> frees it, and nothing else touches it, a pass of the main loop that begins with a release pending
  sends the release if the endpoint is free after \<open>tud_task\<close>, and nothing if it is not: no captured report,
  and no report of a playback run.
\<close>

theorem pending_release_is_delivered_first:
  assumes "endpoint_quiet bd free" "fw_inv w" "sr_pending (g_safety w)" "main_pass bd w = Some (result, w')"
  shows "result = (if free (bd_tud_task bd (hw w)) then PICO_SAFETY_RELEASE_SENT else PICO_SAFETY_RELEASE_BLOCKED)
    \<and> hid_out w' = hid_out w @ (if free (bd_tud_task bd (hw w)) then [release_bytes] else [])"
proof -
  have "endpoint_ok (bd_sdk bd) free" using assms(1) by (simp add: endpoint_quiet_def)
  from release_first [OF this assms(2,4)] release_delivered [OF assms] show ?thesis by simp
qed

theorem pending_release_is_delivered_first_witness:
  "\<exists>w'. main_pass usb_board usb_pending = Some (PICO_SAFETY_RELEASE_SENT, w') \<and> hid_out w' = [release_bytes]"
proof -
  from main_pass_ok [OF usb_board_ok(1) usb_pending_facts(1)]
  obtain result w' where pass: "main_pass usb_board usb_pending = Some (result, w')" by blast
  have "bd_tud_task usb_board (hw usb_pending)" "hid_out usb_pending = []"
    by (simp_all add: usb_board_def usb_pending_def mode_all_release_def)
  with pending_release_is_delivered_first [OF usb_board_quiet usb_pending_facts pass] pass show ?thesis by simp
qed

text \<open>
  C10: A run plays exactly what it was given. Along any path that begins and ends in PLAYING, without a PLAY_START on
  it and with no release pending at its beginning, in any order of steps and with events still arriving, the
  reports that went out followed by those still queued are what there was at the beginning followed by the
  reports of the QUEUE_EVENT commands of the path; and a run that ends by itself after such a path has sent all of them.
\<close>

theorem streaming_playback_is_complete:
  assumes "fw_path sdk w ls w'" "fw_inv w" "mode_state w = PICO_UART_MODE_PLAYING" "mode_state w' = PICO_UART_MODE_PLAYING"
    "\<not> sr_pending (g_safety w)" "\<forall>l \<in> set ls. \<not> starts_playback l"
  shows "hid_out w' @ remaining w' = hid_out w @ remaining w @ concat (map event_report ls)
    \<and> (\<forall>v. fw_step sdk w' Playback v \<longrightarrow> mode_state v \<noteq> PICO_UART_MODE_PLAYING \<longrightarrow>
          mode_state v = PICO_UART_MODE_ARMED \<and> hid_out v = hid_out w @ remaining w @ concat (map event_report ls))"
  using playing_path [OF assms] run_complete [OF assms] by blast

theorem streaming_playback_is_complete_witness:
  "\<exists>w'. fw_step fifo_sdk sample_playing Playback w'
    \<and> (hid_out w' @ remaining w' = remaining sample_playing
       \<or> (mode_state w' = PICO_UART_MODE_ARMED \<and> hid_out w' = remaining sample_playing))"
proof -
  have start: "fw_path fifo_sdk sample_playing [] sample_playing" "\<not> sr_pending (g_safety sample_playing)"
    "hid_out sample_playing = []" "mode_state sample_playing = PICO_UART_MODE_PLAYING"
    by (simp_all add: sample_playing_def mode_defs)
  from task_ok [OF sample_playing_inv(1), of fifo_sdk] obtain w' where
    "pico_playback_scheduler_task (sched_cb fifo_sdk) fifo_sdk sample_playing = Some w'" by blast
  then have step: "fw_step fifo_sdk sample_playing Playback w'" by (rule playback)
  then have path: "fw_path fifo_sdk sample_playing [Playback] w'" by auto
  show ?thesis
  proof (cases "mode_state w' = PICO_UART_MODE_PLAYING")
    case True
    from streaming_playback_is_complete [OF path sample_playing_inv(1) start(4) True start(2)] start(3) step
    show ?thesis by (auto simp: starts_playback_def)
  next
    case False
    from streaming_playback_is_complete [OF start(1) sample_playing_inv(1) start(4,4,2)] start(3) step False
    show ?thesis by auto
  qed
qed

text \<open>
  C11: Playback is never early. In every pass of a run of the main loop, each round of the playback task
  that sends something sends the report at the head of the queue, and the clock has by then reached the
  start of the run plus the offset of the event. The run begins with an armed alarm, if any, set to the
  deadline, and the alarm is an alarm as the SDK documents it: it does not fire before its time.
\<close>

theorem playback_is_not_early:
  fixes w :: "'e globals" and bd :: "'e board"
  assumes "alarm_ok bd clock alarm" "alarm_inv alarm w0" "fw_inv w0" "main_loop n bd w0 = Some w"
    "before_playback bd w = Some u" "task_rounds (bd_sdk bd) u v" "ps_running (w_sched v)"
    "hid_out (snd (task_round (sched_cb (bd_sdk bd)) (bd_sdk bd) v)) \<noteq> hid_out v"
  shows "\<exists>e v1. pico_playback_queue_peek (w_queue v) = Some e
    \<and> hid_out (snd (task_round (sched_cb (bd_sdk bd)) (bd_sdk bd) v)) = hid_out v @ [report_bytes (qe_report e)]
    \<and> v1 = snd (round_entry (sched_cb (bd_sdk bd)) (bd_sdk bd) v)
    \<and> ps_playback_start_us (w_sched v1) + qe_offset_us e \<le> clock (hw (snd (event_due (bd_sdk bd) v1)))"
  using round_on_time [OF assms(1) pass_rounds [OF assms(1-6)] assms(7,8)] by blast

theorem playback_is_not_early_witness:
  "main_loop 0 clock_board (timed_playing 20) = Some (timed_playing 20)
   \<and> hid_out (snd (task_round (sched_cb clock_sdk) clock_sdk (timed_playing 20)))
    = hid_out (timed_playing 20) @ [report_bytes (report_of_bytes (replicate 8 0))]"
proof -
  have sdk: "bd_sdk clock_board = clock_sdk" by (simp add: clock_board_def)
  have run: "main_loop 0 clock_board (timed_playing 20) = Some (timed_playing 20)" by simp
  from playback_is_not_early [OF clock_board_ok(1) timed_playing_inv(2,1) run timed_before rounds_start timed_playing_sched(1)] timed_sends
  show ?thesis by (simp add: sdk timed_playing_queue)
qed

text \<open>
  C12: Playback is not late by the program's doing. When the playback task returns and the run goes on, the
  queue is empty, or the endpoint refused the head of the queue, or the last thing the task did was to
  read a clock before the deadline of the head: no due event that the endpoint takes is left waiting.
\<close>

theorem playback_is_not_late:
  assumes "fw_inv w" "pico_playback_scheduler_task (sched_cb sdk) sdk w = Some w'" "mode_state w' = PICO_UART_MODE_PLAYING"
  shows "pq_count (w_queue w') = 0
    \<or> (\<exists>e. pico_playback_queue_peek (w_queue w') = Some e
         \<and> ((\<exists>v. send_pass_report sdk (qe_report e) v = (False, w'))
            \<or> (\<exists>x. fst (sdk_time_us_64 sdk x) < ps_playback_start_us (w_sched w') + qe_offset_us e
                 \<and> hw w' = snd (sdk_time_us_64 sdk x))))"
proof -
  from task_ok [OF assms(1), of sdk] assms(2) have "fw_inv w'" by auto
  then have "ps_running (w_sched w')" using assms(3) by (simp add: fw_inv_def fw_modes_def)
  moreover have "sched_ok (w_queue w) (w_sched w)" using assms(1) by (simp add: fw_inv_def)
  ultimately show ?thesis
    using fws.task_stops [of sdk sdk w w'] assms(2) by (simp add: scheduler_callbacks_def idle_reason_def)
qed

theorem playback_is_not_late_witness:
  "\<exists>w'. pico_playback_scheduler_task (sched_cb clock_sdk) clock_sdk (timed_playing 0) = Some w'
    \<and> ((\<exists>v. send_pass_report clock_sdk (report_of_bytes (replicate 8 0)) v = (False, w'))
       \<or> (\<exists>x. hw w' = snd (sdk_time_us_64 clock_sdk x)))"
proof -
  from timed_waits obtain w' where w': "pico_playback_scheduler_task (sched_cb clock_sdk) clock_sdk (timed_playing 0) = Some w'"
    "mode_state w' = 3" "w_queue w' = w_queue (timed_playing 0)" by blast
  from playback_is_not_late [OF timed_playing_inv(1) w'(1)] w' show ?thesis
    by (auto simp: mode_defs timed_playing_queue)
qed

text \<open>
  C13: An armed alarm belongs to the head of the queue. In any run of the main loop that begins with no
  alarm armed, after every pass either no alarm is armed in the hardware, or the program is in PLAYING and the alarm is the one the
  scheduler remembers, set to the start of the run plus the offset of the event at the head of the queue.
\<close>

theorem armed_alarm_is_for_the_head:
  fixes bd :: "'e board"
  assumes "alarm_ok bd clock alarm" "alarm e = None" "main_loop n bd (main_init e) = Some w"
  shows "alarm_inv alarm w
    \<and> (alarm (hw w) = None
       \<or> mode_state w = PICO_UART_MODE_PLAYING
         \<and> (\<exists>x. pico_playback_queue_peek (w_queue w) = Some x
              \<and> alarm (hw w) = Some (ps_alarm_id (w_sched w), ps_playback_start_us (w_sched w) + qe_offset_us x)))"
  using loop_alarm [OF assms] armed_for_head [of alarm w] by (cases "alarm (hw w)") auto

theorem armed_alarm_is_for_the_head_witness:
  "\<exists>w. main_loop 2 clock_board (main_init (0, None)) = Some w \<and> alarm_inv snd w"
proof -
  obtain w where w: "main_loop 2 clock_board (main_init (0, None)) = Some w"
    using main_loop_ok [OF clock_board_ok(2) main_init_inv] by blast
  from armed_alarm_is_for_the_head [OF clock_board_ok(1) _ w] w show ?thesis by simp
qed

section \<open>The Pi Zero and the Pico\<close>

text \<open>
  C14: What the Pico sends is what the Zero reads. In every state that the program can reach, the bytes that it
  gave to its UART are whole frames of valid messages, none of them a command; and in whatever pieces a
  beginning of them arrives, \<open>IncrementalDecoder\<close> gives the first of these messages, in order, with no error, and
  all of them when all bytes have arrived.
\<close>

theorem zero_reads_what_the_pico_sends:
  assumes "fw_reachable sdk w" "wire_sent w = concat chunks @ later"
  shows "\<exists>ms n. list_all pico_message ms \<and> wire_sent w = wire_stream ms
    \<and> fst (decoder_feed_all chunks incremental_decoder_init) = map frame_of (take n ms)
    \<and> zd_errors (snd (decoder_feed_all chunks incremental_decoder_init)) = [] \<and> (later = [] \<longrightarrow> n = length ms)"
proof -
  from reachable_laws(3) [OF assms(1)] obtain ms where ms: "list_all pico_message ms" "wire_sent w = wire_stream ms" by blast
  from feed_stream [OF ms(1)] ms(2) assms(2) obtain n where n: "fst (decoder_feed_all chunks incremental_decoder_init) = map frame_of (take n ms)"
    "zd_errors (snd (decoder_feed_all chunks incremental_decoder_init)) = []" by metis
  have "fst (decoder_feed_all chunks incremental_decoder_init) = map frame_of (take (length ms) ms)" if "later = []"
    using init_feed [OF ms(1)] ms(2) assms(2) that by (simp add: feed_all [OF decoder_init_settled])
  with ms n show ?thesis by (cases "later = []") blast+
qed

theorem zero_reads_what_the_pico_sends_witness:
  "\<exists>ms. list_all pico_message ms \<and> wire_sent sample_reached = wire_stream ms
    \<and> fst (decoder_feed_all [wire_sent sample_reached] incremental_decoder_init) = map frame_of ms"
  using zero_reads_what_the_pico_sends [OF sample_reached_facts(1), of "[wire_sent sample_reached]" "[]"] by auto

text \<open>
  C15: A recording is what the Pico recorded. When a session that began on a new link ends with a recording, the
  Pico confirmed PASS, and the recording has exactly the reports of all RECORD_EVENTs that arrived on the
  link, in order, with the times between them, in microseconds; it is valid, it is the one that the store now
  loads under the name, which was free, and no other file of the store changed.
\<close>

theorem recording_is_what_arrived:
  assumes "io_ok io inp out" "pico_peer inp" "inp z = []"
    "recording_session_init (pico_transport_init z) store name mode_timeout = Inr a" "recording_session_start io a = Some (Inr (), b)"
    "run_recording io interval n b = Some (Inl r, c)"
  shows "\<exists>ms. list_all pico_message ms \<and> frames_in inp c = map frame_of ms \<and> (PICO_UART_MODE_CHANGED, [MODE_PASS, REASON_OK]) \<in> set ms
    \<and> r = recorded name (captures_in (map frame_of ms)) \<and> store_load name (rs_store c) = Inr r \<and> store name = None
    \<and> (\<forall>other. other \<noteq> name \<longrightarrow> rs_store c other = store other)"
proof -
  note law = recording_from_start [OF assms]
  from frames_are_messages [OF assms(2)] obtain ms where ms: "list_all pico_message ms" "frames_in inp c = map frame_of ms" by blast
  have "(PICO_UART_MODE_CHANGED, [MODE_PASS, REASON_OK]) \<in> set ms"
    using law(5) unfolding ms(2) by (auto simp: frame_of_def pass_confirmed_def constants_agree)
  moreover have "rc_name r = name" using law(3) by simp
  ultimately show ?thesis using ms law(3) saved_is_loaded [OF law(2,4)] by metis
qed

theorem recording_is_what_arrived_witness:
  "run_recording (script_io (wire_stream sample_messages)) 1 2 sample_open = Some (Inl zero_recording, sample_recorded)
    \<and> store_load ''a'' (rs_store sample_recorded) = Inr (recorded ''a'' [(5, [0, 0, 4, 0, 0, 0, 0, 0]), (9, [0, 0, 0, 0, 0, 0, 0, 0])])"
proof -
  have "script_in (wire_stream sample_messages) (0, []) = []" by (simp add: script_in_def)
  from recording_is_what_arrived [OF script_io_ok script_peer [OF sample_stream(1)] this sample_session_init sample_opened sample_records]
  have "store_load ''a'' (rs_store sample_recorded) = Inr zero_recording" by blast
  with sample_records show ?thesis by (simp add: zero_recording_def sample_values)
qed

text \<open>
  C16: From the keyboard to the recording and back. The Pico's messages in a recording session name the reports
  \<open>recd\<close> with their times of capture; if the recording, shorter than \<open>2 ^ 53\<close> microseconds, is played at normal
  speed, and the run ends well, then the bytes that were written are queue events which the Pico's parser
  accepts, without an error, with the same reports in the same order, each at its time since the first.
\<close>

theorem recorded_reports_are_replayed:
  assumes "io_ok io inp out" "pico_peer inp" "inp z = []"
    "recording_session_init (pico_transport_init z) store name mode_timeout = Inr a" "recording_session_start io a = Some (Inr (), b)"
    "run_recording io interval n b = Some (Inl r, c)"
    "frames_in inp c = map frame_of ms" "record_events ms = map record_of recd" "rc_duration_us r < 2 ^ 53"
    "playback_session_init t r (Some 1) prebuffer mode_timeout' playback_timeout = Inr s"
    "io_ok io' inp' out'" "session_play io' True s = Some (Inr result, u)"
  shows "\<exists>bytes. out' (pt_stream u) = out' (pt_stream s) @ bytes \<and> \<not> rejects (snd (parse [] bytes))
    \<and> queued_events bytes = map (\<lambda>x. (fst x - fst (hd recd), snd x)) recd"
proof -
  note law = recording_from_start [OF assms(1-6)]
  have caps: "captures_in (frames_in inp c) = map capture_values recd" using captures_of_records [OF assms(8)] assms(7) by simp
  note ok = law(1-3) [unfolded caps]
  from init_events(3) [OF assms(10) ok(2)] have evs: "expand_offsets (recorded_events (map capture_values recd)) (Some 1) = Inr (pb_events s)"
    by (simp add: ok(3))
  have "recorded_duration (map capture_values recd) < 2 ^ 53" using assms(9) by (simp add: ok(3))
  note times = replayed_offsets [OF ok(1) this evs]
  from run_commands [OF assms(11,10) ok(2) assms(12)] obtain bytes where
    "out' (pt_stream u) = out' (pt_stream s) @ bytes" "\<not> rejects (snd (parse [] bytes))" "queued_events bytes = map queued (pb_events s)" by blast
  moreover have "map queued (pb_events s) = map (\<lambda>x. (fst x - fst (hd recd), snd x)) recd" using times by (simp add: queued_def [abs_def])
  ultimately show ?thesis by auto
qed

theorem recorded_reports_are_replayed_witness:
  "\<exists>bytes u result. session_play (pico_io sample_environment) True sample_playback = Some (Inr result, u)
    \<and> lk_sent (pt_stream u) = lk_sent (pt_stream sample_playback) @ bytes
    \<and> queued_events bytes = [(0, report_of_bytes [0, 0, 4, 0, 0, 0, 0, 0]), (4, report_of_bytes [0, 0, 0, 0, 0, 0, 0, 0])]"
proof -
  obtain result u where u: "session_play (pico_io sample_environment) True sample_playback = Some (Inr result, u)" using sample_plays by blast
  from recorded_reports_are_replayed [OF script_io_ok script_peer [OF sample_stream(1)] _ sample_session_init sample_opened sample_records
      sample_frames sample_record_events _ sample_playback_init pico_io_ok u] u
  show ?thesis using zero_recording_ok(3) by (auto simp: script_in_def) (auto simp: sample_captures_def)
qed

text \<open>
  C17: A run that ends well sent one sequence of commands, which the Pico's parser takes without an error: ARMED is
  requested, once or twice, the queue is cleared, the events before the start are queued, playback is started,
  the other events follow, with the end of the sequence after the last one, and PASS is requested. The
  queue events are the events of the recording at the times of \<open>expand_offsets\<close>.
\<close>

theorem run_sends_its_recording:
  assumes "io_ok io inp out" "playback_session_init t r speed prebuffer mode_timeout playback_timeout = Inr s" "recording_ok r"
    "session_play io True s = Some (Inr result, u)"
  defines "n \<equiv> prebuffer_count (pb_prebuffer_us s) (pb_events s)"
  shows "\<exists>bytes i j. out (pt_stream u) = out (pt_stream s) @ bytes \<and> i \<in> {1, 2} \<and> j \<in> {1, 2} \<and> \<not> rejects (snd (parse [] bytes))
    \<and> accepted_frames (snd (parse [] bytes))
        = map (\<lambda>m. mk_frame (fst m) (snd m)) (load_messages i n (pb_events s) @ feed_messages j n (pb_events s))
    \<and> queued_events bytes = map queued (pb_events s) \<and> expand_offsets (rc_events r) speed = Inr (pb_events s)"
proof -
  note init = init_events [OF assms(2,3)]
  from byte_stream.session_play_fed [OF byte_stream.intro [OF assms(1)] assms(4) init(2)] obtain i j where
    w: "i \<in> {1, 2}" "j \<in> {1, 2}"
      "out (pt_stream u) = out (pt_stream s) @ wire_stream (load_messages i n (pb_events s) @ feed_messages j n (pb_events s))"
    unfolding n_def by blast
  note parsed = parse_zero_messages [OF run_messages_ok [OF init(1), of i n j]]
  have "queued_events (wire_stream (load_messages i n (pb_events s) @ feed_messages j n (pb_events s))) = map queued (pb_events s)"
    using queued_run [OF init(1), of i n j] by (simp add: queued_def [abs_def])
  with w parsed(2,3) init(3) show ?thesis by blast
qed

theorem run_sends_its_recording_witness:
  "\<exists>bytes u result. session_play (pico_io sample_environment) True sample_playback = Some (Inr result, u)
    \<and> lk_sent (pt_stream u) = lk_sent (pt_stream sample_playback) @ bytes \<and> queued_events bytes = map queued sample_events"
proof -
  obtain result u where u: "session_play (pico_io sample_environment) True sample_playback = Some (Inr result, u)" using sample_plays by blast
  from run_sends_its_recording [OF pico_io_ok sample_playback_init zero_recording_ok(1) u] u show ?thesis
    by (auto simp: sample_offsets)
qed

text \<open>
  C18: A run comes to its end. With a Pico that takes each command, answers it, and plays while the Zero waits, a run
  of a recording that is not empty and can be loaded in advance, in a session with explicit time limits for mode changes and playback, goes
  from PASS through ARMED and PLAYING back to PASS and returns, with the figures of the run; and what the PC got is
  the release of all keys and the reports of the recording, each once, in order.
\<close>

theorem run_on_the_link_is_complete:
  assumes "playback_session_init (pico_transport_init z) r speed (Some prebuffer) (Some mode_timeout) (Some (Some timeout)) = Inr s"
    "recording_ok r" "rc_events r \<noteq> []" "lk_wire z = []" "sp_room (lk_pico z) = 2048" "sp_mode (lk_pico z) = MODE_PASS"
    "is_float mode_timeout" "is_float timeout" "prebuffer_count (pb_prebuffer_us s) (pb_events s) \<le> 512" "metrics_ok env"
  shows "\<exists>u result. session_play (pico_io env) True s = Some (Inr result, u) \<and> pr_outcome result = ''finished''
    \<and> validate_play_metrics (metrics_frame env) = Inr (pr_metrics result) \<and> sp_mode (lk_pico (pt_stream u)) = MODE_PASS
    \<and> sp_pc (lk_pico (pt_stream u)) = sp_pc (lk_pico z) @ release_bytes # map (\<lambda>e. map of_int (re_report e)) (rc_events r)"
  by (rule run_from_init [OF assms])

theorem run_on_the_link_is_complete_witness:
  "\<exists>u result. session_play (pico_io sample_environment) True sample_playback = Some (Inr result, u) \<and> pr_outcome result = ''finished''
    \<and> sp_pc (lk_pico (pt_stream u)) = [release_bytes, [0, 0, 4, 0, 0, 0, 0, 0], [0, 0, 0, 0, 0, 0, 0, 0]]"
  using run_on_the_link_is_complete [OF sample_playback_init zero_recording_ok(1,2) _ _ _ float_1 double_numbers(3)
      sample_playback_prebuffer sample_environment_ok(1)]
  by (auto simp: sample_link_fields sample_reports) (simp add: sample_events_def)

text \<open>
  C19: An underrun makes the feeder overrun the queue. The queue of the Pico runs empty while the feeder has
  credit for all of it, and more events to send: the Pico reports an underrun, with the free capacity 512. The
  feeder, which waits for acknowledgements only, lays the report aside; when its credit is used up and the
  queue is full, it takes the report for new credit, and the next event is an error of the protocol that ends
  the run in ERROR. Without the underrun the same feeder sends all events.
\<close>

theorem underrun_overruns_the_queue:
  assumes "env_ok env" "feeding MODE_PLAYING [] p s" "sp_queue p = []" "\<not> sp_ended p" "\<not> sp_starved p" "\<not> sp_release p"
    "pb_free_capacity s = 512" "pb_next_event s + 512 < stop" "stop \<le> length (pb_events s)"
  shows "spec_step p Playback (spec_empty env p)
    \<and> (\<exists>u. send_through (pico_io env) stop MODE_PLAYING (s\<lparr>pt_stream := link_idle env (pt_stream s)\<rparr>) = Some (Inl PicoError, u)
        \<and> sp_mode (lk_pico (pt_stream u)) = MODE_ERROR)
    \<and> (\<exists>u. send_through (pico_io env) stop MODE_PLAYING s = Some (Inr (), u) \<and> pb_next_event u = stop)"
proof (intro conjI)
  note idle = link_underrun [OF assms(1-6)]
  from idle(1) show "spec_step p Playback (spec_empty env p)" .
  have "running p s" using assms(2-5,7) by (simp add: running_def)
  from run_through [OF this, of stop env] assms(8,9) show
    "\<exists>u. send_through (pico_io env) stop MODE_PLAYING s = Some (Inr (), u) \<and> pb_next_event u = stop" by auto
  from stale_underrun_overruns [OF assms(1) idle(4), of stop] idle(3) assms(7-9) show
    "\<exists>u. send_through (pico_io env) stop MODE_PLAYING (s\<lparr>pt_stream := link_idle env (pt_stream s)\<rparr>) = Some (Inl PicoError, u)
      \<and> sp_mode (lk_pico (pt_stream u)) = MODE_ERROR" by simp
qed

theorem underrun_overruns_the_queue_witness:
  "\<exists>u. send_through (pico_io sample_environment) 600 MODE_PLAYING
      (sample_feeder\<lparr>pt_stream := link_idle sample_environment (pt_stream sample_feeder)\<rparr>) = Some (Inl PicoError, u)
    \<and> sp_mode (lk_pico (pt_stream u)) = MODE_ERROR"
  using underrun_overruns_the_queue [OF sample_environment_ok(2) sample_feeding _ _ _ _ sample_feeder_fields(1), of 600]
    sample_feeder_fields(2,3) by (simp add: spec_init_def)

text \<open>
  C20: Every call of the Zero returns, with a value or an exception, whatever the Pico sends or does not send: a mode
  change, the loading of a queue, the work of a recording session, a whole run, and the abort of one. All it
  takes is a clock that goes on from one reading to the next.
\<close>

theorem zero_calls_return:
  fixes t :: "('z, 'm) pico_transport_scheme" and s :: "'z recording_session" and p :: "'z playback_session"
  assumes "io_ok io inp out" "clock_advances io clk tick"
  shows "set_mode io m timeout retries t \<noteq> None \<and> queue_events io evs timeout t \<noteq> None
    \<and> recording_session_stop io s \<noteq> None \<and> recording_session_abort io s \<noteq> None \<and> run_recording io interval n s \<noteq> None
    \<and> (0 \<le> pb_free_capacity p \<longrightarrow> session_play io to_pass p \<noteq> None) \<and> session_abort io to_pass p \<noteq> None"
proof -
  note set_mode_ends [OF assms(2), of m timeout retries t] queue_events_ends [OF assms(2), of evs timeout t]
    recording_stop_ends [OF assms(2), of s] recording_abort_ends [OF assms(2), of s]
  then show ?thesis using run_recording_ends [OF assms(2)] session_play_ends [OF assms] session_abort_ends [OF assms(2)]
    by (auto simp: ends_def)
qed

theorem zero_calls_return_witness:
  "set_mode ticking_io MODE_ARMED 2 1 (pico_transport_init (0, [])) \<noteq> None \<and> session_play ticking_io True silent_session \<noteq> None"
  using zero_calls_return [OF ticking_io_ok] silent_capacity by blast

text \<open>
  C21: A change of the mode that \<open>set_mode\<close> reports as done was confirmed by the Pico: of the frames that came in
  order, it took the first MODE_CHANGED, and that names the mode and no complaint; all other frames it
  passed by are still pending, in their order. It wrote nothing but the request, once or as often as it tried.
\<close>

theorem zero_mode_change_is_confirmed:
  assumes "io_ok io inp out" "pico_peer inp" "link_inv inp t" "set_mode io m timeout retries t = Some (Inr (), u)"
  shows "\<exists>skipped v k. took inp t (skipped @ [\<lparr>zf_type = MODE_CHANGED, zf_payload = [m, REASON_OK]\<rparr>]) v
    \<and> MODE_CHANGED \<notin> zf_type ` set skipped \<and> u = preserve_frames skipped v
    \<and> 1 \<le> k \<and> k \<le> nat (retries + 1) \<and> out (pt_stream u) = out (pt_stream t) @ concat (replicate k (wire_frame MODE_SET [m]))"
  using set_mode_law [OF assms] by (fastforce simp: mode_confirmed_def skipped_ok_def wrote_def)

theorem zero_mode_change_is_confirmed_witness:
  "\<exists>skipped v u. set_mode (script_io (wire_stream sample_messages)) MODE_RECORD 1 1 sample_session = Some (Inr (), u)
    \<and> took (script_in (wire_stream sample_messages)) sample_session
        (skipped @ [\<lparr>zf_type = MODE_CHANGED, zf_payload = [MODE_RECORD, REASON_OK]\<rparr>]) v \<and> u = preserve_frames skipped v"
proof -
  have "link_inv (script_in (wire_stream sample_messages)) sample_session"
    by (rule opened_link(1)) (simp_all add: session_fields script_in_def)
  from zero_mode_change_is_confirmed [OF script_io_ok script_peer [OF sample_stream(1)] this sample_mode_set] sample_mode_set
  show ?thesis by blast
qed

text \<open>
  C22: The frames and errors that \<open>IncrementalDecoder.feed\<close> gives, and the bytes that it keeps, depend on the bytes
  only and not on the pieces in which they come; and it keeps less than one frame, whatever comes.
\<close>

theorem zero_decoder_ignores_chunking:
  "decoder_feed_all chunks incremental_decoder_init = decoder_feed (concat chunks) incremental_decoder_init
    \<and> length (zd_buffer (snd (decoder_feed_all chunks incremental_decoder_init))) < 71"
  using decode_loop_rest [of MAX_PAYLOAD PICO_TO_ZERO_TYPES "concat chunks"]
  by (simp add: feed_all [OF decoder_init_settled])
    (simp add: decoder_feed_def incremental_decoder_init_def MAX_PAYLOAD_def split_beta)

section \<open>The UART\<close>

text \<open>
  C23: The loop of \<open>poll\<close> empties the receive ring and computes the parser on byte lists: the buffered
  beginning of a frame, and everything else, are those after parsing the bytes of the ring and
  applying the outcomes in order.
\<close>

theorem poll_is_the_parser:
  assumes "ut_inv t"
  shows "ut_inv (pico_uart_transport_poll t) \<and> rx_view (pico_uart_transport_poll t) = []
    \<and> parser_prefix (pico_uart_transport_poll t) = fst (parse (parser_prefix t) (rx_view t))
    \<and> poll_core (pico_uart_transport_poll t) = fold apply_outcome (snd (parse (parser_prefix t) (rx_view t))) (poll_core t)"
  using poll_refines [OF assms] by (simp add: settled_def absorb_def)

theorem poll_is_the_parser_witness:
  "parser_prefix (pico_uart_transport_poll (deliver [0xA5, 2] pico_uart_transport_init))
     = fst (parse (parser_prefix (deliver [0xA5, 2] pico_uart_transport_init)) (rx_view (deliver [0xA5, 2] pico_uart_transport_init)))"
  using poll_is_the_parser [of "deliver [0xA5, 2] pico_uart_transport_init"] by (simp add: deliver_inv)

text \<open>
  C24: What one \<open>poll\<close> hands to the main loop: the valid commands of the received bytes in order, as
  many as the command ring has room for, and a fault exactly when there already was one, some byte or
  frame was rejected, or a command did not fit.
\<close>

theorem poll_commands_and_fault:
  assumes "ut_inv t"
  defines "outs \<equiv> snd (parse (parser_prefix t) (rx_view t))"
  shows "cmd_view (pico_uart_transport_poll t) = cmd_view t @ take (8 - length (cmd_view t)) (commands_of outs)
    \<and> (ut_fault_pending (pico_uart_transport_poll t) \<longleftrightarrow> ut_fault_pending t \<or> (\<exists>out \<in> set outs. faulty out)
         \<or> 8 < length (cmd_view t) + length (commands_of outs))"
proof -
  have core: "poll_core (pico_uart_transport_poll t) = fold apply_outcome outs (poll_core t)"
    using poll_refines [OF assms(1)] by (simp add: settled_def absorb_def outs_def)
  have "cmd_inv (poll_core t)" using assms(1) by (simp add: ut_inv_def)
  from fold_outcomes [OF this, of outs] parse_outcome_ok
  show ?thesis
    using arg_cong [OF core, of cmd_view] arg_cong [OF core, of ut_fault_pending] by (auto simp: outs_def)
qed

theorem poll_commands_and_fault_witness:
  "cmd_view (pico_uart_transport_poll pico_uart_transport_init)
     = take 8 (commands_of (snd (parse (parser_prefix pico_uart_transport_init) [])))"
  using poll_commands_and_fault [OF ut_init_inv] by (simp add: init_idle)

text \<open>
  C25: Bytes whatever: every command that reaches the main loop is of a command type, has version 2, a
  length field that says the length of its payload, and a payload of the form its type demands.
\<close>

theorem commands_are_validated:
  assumes "ut_inv t" "f \<in> set (cmd_view (pico_uart_transport_poll t))"
  shows "command_ok f"
  using poll_inv [OF assms(1)] assms(2) by (simp add: ut_inv_def cmd_inv_def)

theorem commands_are_validated_witness: "command_ok (mk_frame 0x87 [2])"
proof (rule commands_are_validated)
  let ?t = "deliver (wire_frame 0x87 [2]) pico_uart_transport_init"
  show "ut_inv ?t" by (simp add: deliver_inv)
  show "mk_frame 0x87 [2] \<in> set (cmd_view (pico_uart_transport_poll ?t))"
    using poll_command_frame [OF ut_init_inv init_idle(1), of "[2]" "0x87"] by (simp add: init_idle sample_command)
qed

text \<open>
  C26: Interrupts may deliver bytes between any two iterations of the loop of \<open>poll\<close>. As long as the
  ring has room, the result is that of parsing the bytes in the order of arrival.
\<close>

theorem interrupts_do_not_disturb_poll:
  assumes "ut_inv t" "no_overrun ops t"
  defines "t' \<equiv> pico_uart_transport_poll (link_run ops t)"
  shows "rx_view t' = [] \<and> (parser_prefix t', poll_core t') = absorb (rx_view t @ arrived ops) (parser_prefix t, poll_core t)"
  using link_run_refines [OF assms(1,2)] poll_refines [of "link_run ops t"]
  by (auto simp: t'_def settled_def absorb_append)

theorem interrupts_do_not_disturb_poll_witness:
  "rx_view (pico_uart_transport_poll (link_run [Arrive 0xA5, Iterate, Arrive 2] pico_uart_transport_init)) = []"
proof -
  have "no_overrun [Arrive 0xA5, Iterate, Arrive 2] pico_uart_transport_init"
    by (simp add: length_rx_view ring_used_def pico_uart_transport_init_def pico_uart_transport_rx_push_isr_def)
  from interrupts_do_not_disturb_poll [OF ut_init_inv this] show ?thesis by blast
qed

text \<open>
  C27: From one side to the other: a command frame queued for transmission, drained byte by byte,
  stored by the receive interrupt of the other side and polled, is the next command there, and raises
  no fault.
\<close>

theorem command_crosses_the_link:
  assumes "ut_inv a" "tx_view a = []" "ut_inv b" "idle b" "cmd_view b = []"
    "length body \<le> 64" "pico_uart_type_is_command ty" "pico_uart_frame_payload_valid (Some (mk_frame ty body))"
  defines "sent \<equiv> pico_uart_transport_queue_frame ty (Some body) (of_nat (length body)) a"
  defines "b' \<equiv> pico_uart_transport_poll (deliver (fst (pop_tx_bytes (7 + length body) (snd sent))) b)"
  shows "fst sent \<and> fst (pico_uart_transport_pop_command b') = Some (mk_frame ty body)
    \<and> ut_fault_pending b' = ut_fault_pending b"
proof -
  have tx: "tx_inv a" using assms(1) by (simp add: ut_inv_def)
  have enc: "pico_uart_encode_frame ty (Some body) (of_nat (length body)) True 71 = Some (wire_frame ty body)"
    using assms(6,7) by (intro encode_frame_Some) (simp_all add: command_known)
  have room: "unat (ut_tx_head a - ut_tx_tail a) + (7 + length body) \<le> 2048"
    using assms(2,6) by (simp add: tx_view_def ring_used_def)
  have snt: "sent = (True, fold tx_put (wire_frame ty body) a)"
    using enc room by (simp add: sent_def pico_uart_transport_queue_frame_def)
  have "tx_view (fold tx_put (wire_frame ty body) a) = wire_frame ty body \<and> tx_inv (fold tx_put (wire_frame ty body) a)"
    using fold_tx_put [OF tx, of "wire_frame ty body"] room assms(2) by (simp add: ring_used_def)
  with pop_tx_bytes_view [of "snd sent" "7 + length body"]
  have bytes: "fst (pop_tx_bytes (7 + length body) (snd sent)) = wire_frame ty body" by (simp add: snt)
  note recv = poll_command_frame [OF assms(3,4,6,7,8)] poll_wire_frame [OF assms(3,4,6), of ty]
  have cmd: "cmd_inv b'" "cmd_view b' = [mk_frame ty body]" "ut_fault_pending b' = ut_fault_pending b"
    using recv assms(5) by (simp_all add: b'_def bytes ut_inv_def)
  then have "ut_command_tail b' \<noteq> ut_command_head b'" using cmd_view_Nil [of b'] by auto
  with pop_command_Some(1) [OF cmd(1) this] cmd snt show ?thesis
    by (auto simp: pico_uart_transport_pop_command_def)
qed

theorem command_crosses_the_link_witness:
  "fst (pico_uart_transport_queue_frame 0x87 (Some [2]) 1 pico_uart_transport_init)"
  using command_crosses_the_link [of pico_uart_transport_init pico_uart_transport_init "[2]" "0x87"]
  by (simp add: init_idle sample_command)

text \<open>
  C28: A frame damaged in one byte of its type, payload or checksum, or in two adjacent bytes of its payload
  or of its checksum, is rejected as a whole: no command is queued, a fault is raised, and the parser is
  back at a frame boundary.
\<close>

theorem damaged_frame_is_rejected:
  assumes "ut_inv t" "idle t" "length body \<le> 64" "damage (length body) (wire_frame ty body) d"
  shows "\<exists>t'. t' = pico_uart_transport_poll (deliver d t)
    \<and> ut_inv t' \<and> idle t' \<and> cmd_view t' = cmd_view t \<and> ut_fault_pending t'"
  by (rule poll_damaged_frame [OF assms])

theorem damaged_frame_is_rejected_witness:
  "\<exists>t'. t' = pico_uart_transport_poll (deliver ((wire_frame 0x87 [2])[5 := 1]) pico_uart_transport_init)
    \<and> ut_inv t' \<and> idle t' \<and> cmd_view t' = cmd_view pico_uart_transport_init \<and> ut_fault_pending t'"
proof (rule damaged_frame_is_rejected)
  have "(wire_frame 0x87 [2 :: u8])[5 := 1] \<noteq> wire_frame 0x87 [2]" by (simp add: wire_frame_def wire_covered_def Let_def)
  moreover have "\<exists>i b. (i = 2 \<or> 5 \<le> i) \<and> i < 7 + length [2 :: u8] \<and> (wire_frame 0x87 [2])[5 := 1] = (wire_frame 0x87 [2])[i := b]"
    by (intro exI [where x = "5 :: nat"] exI [where x = "1 :: u8"]) simp
  ultimately show "damage (length [2 :: u8]) (wire_frame 0x87 [2]) ((wire_frame 0x87 [2])[5 := 1])"
    unfolding damage_def by blast
qed (simp_all add: init_idle)

text \<open>C29: The decoder accepts the wire format of payloads of at most 64 bytes and nothing else.\<close>

theorem decoder_accepts_the_wire_format:
  "fst (pico_uart_decode_frame (Some d) (length d) True) = PICO_UART_DECODE_OK
    \<longleftrightarrow> (\<exists>ty body. length body \<le> 64 \<and> d = wire_frame ty body)"
proof
  assume ok: "fst (pico_uart_decode_frame (Some d) (length d) True) = PICO_UART_DECODE_OK"
  then obtain x where x: "pico_uart_decode_frame (Some d) (length d) True = (PICO_UART_DECODE_OK, x)"
    by (metis prod.collapse)
  with decode_OK_frame [OF x] obtain f where "x = Some f" by blast
  with decode_OK_wire [of d f] x show "\<exists>ty body. length body \<le> 64 \<and> d = wire_frame ty body" by blast
next
  assume "\<exists>ty body. length body \<le> 64 \<and> d = wire_frame ty body"
  then obtain ty body where d: "length body \<le> 64" "d = wire_frame ty body" by blast
  with decode_wire_frame [OF d(1), of ty "[]"]
  show "fst (pico_uart_decode_frame (Some d) (length d) True) = PICO_UART_DECODE_OK" by simp
qed

section \<open>The mode machine, faults and commands\<close>

text \<open>
  C30: Every operation of the mode machine is its line of the transition table. For callbacks that are given or
  NULL, the table says the next mode, the reason, the result, and what is discarded: nothing, or the captured
  input, after which a release of all keys is requested, or before that the playback queue too. The clear
  and release callbacks are called in this order, then the mode is set, and at the end the new mode is reported once, with
  the reason; when nothing is discarded, the report is the only effect.
\<close>

theorem mode_machine_follows_the_table:
  "mode_step cb op w = (case mode_table op (mode_state w) of (discard, next_mode, reason, ok) \<Rightarrow>
     let release = case_option id id (cb_all_release cb); drop_input = case_option id id (cb_clear_physical cb);
         drop_queue = case_option id id (cb_clear_queue cb); report = case_option (\<lambda>_ _. id) id (cb_mode_changed cb)
     in (ok, report next_mode reason (case discard of
          Keep \<Rightarrow> w
        | Clear_Input \<Rightarrow> (release (drop_input w))\<lparr>mode_state := next_mode\<rparr>
        | Clear_All \<Rightarrow> (release (drop_input (drop_queue w)))\<lparr>mode_state := next_mode\<rparr>)))"
proof -
  obtain k s' reason ok where t: "mode_table op (mode_state w) = (k, s', reason, ok)" using prod_cases4 by blast
  have call: "call_back f v = case_option id id f v" for f and v :: "'a mode_world_scheme" by (cases f) simp_all
  have report: "notify cb r v = case_option (\<lambda>_ _. id) id (cb_mode_changed cb) (mode_state v) r v" for r v
    by (simp add: notify_def split: option.split)
  have "k = Keep \<Longrightarrow> s' = mode_state w" using mode_table_next [OF t] by simp
  with mode_step_table [OF t, of cb] show ?thesis
    by (cases k) (simp_all add: t Let_def report call clear_and_release_def clear_release_and_queue_def)
qed

text \<open>
  C31: A transport fault found by the main loop leads to ERROR from every mode but PASS, and an entered
  ERROR is safe: a release is pending, captured input, queue and flow fault are gone, and playback has
  stopped. In PASS a fault changes nothing of that.
\<close>

theorem transport_fault_enters_error:
  assumes "ut_fault_pending (g_transport w)" "mode_state w \<noteq> PICO_UART_MODE_ERROR"
  shows "(mode_state w \<noteq> PICO_UART_MODE_PASS \<longrightarrow> safe_error (fault_step sdk w))
    \<and> (mode_state w = PICO_UART_MODE_PASS \<longrightarrow> mode_state (fault_step sdk w) = PICO_UART_MODE_PASS
        \<and> g_capture (fault_step sdk w) = g_capture w \<and> w_queue (fault_step sdk w) = w_queue w
        \<and> g_safety (fault_step sdk w) = g_safety w)"
proof -
  define w1 where "w1 = w\<lparr>g_transport := snd (pico_uart_transport_take_fault (g_transport w))\<rparr>"
  have step: "fault_step sdk w = pico_mode_state_uart_fault (mode_cb sdk) w1"
    using assms(1) by (simp add: fault_step_def w1_def Let_def split_beta pico_uart_transport_take_fault_def)
  have "safe_error (fault_step sdk w)" if "mode_state w \<noteq> PICO_UART_MODE_PASS"
    unfolding step using that assms(2)
    by (intro error_is_safe [of w1] protocol_error_effect(2)) (simp_all add: w1_def)
  moreover have "tx_only_step w1 (fault_step sdk w)" if "mode_state w = PICO_UART_MODE_PASS"
    using that by (simp add: step w1_def pico_mode_state_uart_fault_def enter_error_def notify_def
        mode_callbacks_with_def all_callbacks_def)
  ultimately show ?thesis using tx_only_step_fields [of w1 "fault_step sdk w"] by (auto simp: w1_def)
qed

theorem transport_fault_enters_error_witness:
  "safe_error (fault_step fifo_sdk (sample_armed\<lparr>g_transport := latch_fault pico_uart_transport_init\<rparr>))"
  using transport_fault_enters_error [of "sample_armed\<lparr>g_transport := latch_fault pico_uart_transport_init\<rparr>" fifo_sdk]
  by (simp add: sample_armed_facts mode_defs latch_fault_def)

text \<open>
  C32: Every command is answered as the protocol says: with room in the transmit ring, a command that a
  reachable state takes from its ring adds to the bytes for the Zero exactly the messages the
  specification lists for it in that state, and leads to the state the specification says.
\<close>

theorem commands_are_answered:
  assumes "fw_reachable sdk w" "pico_uart_transport_pop_command (g_transport w) = (Some f, t)"
    "length (tx_pending w) + 80 \<le> 2048"
  shows "\<exists>env s. env_ok env \<and> implements w s \<and> implements (dispatch_command sdk f (w\<lparr>g_transport := t\<rparr>)) (spec_command env f s)
    \<and> wire_sent (dispatch_command sdk f (w\<lparr>g_transport := t\<rparr>)) = wire_sent w @ wire_stream (command_messages env f s)"
  using popped_answers [OF assms] .

theorem commands_are_answered_witness:
  "\<exists>env s. env_ok env \<and> implements (sample_init\<lparr>g_transport := sample_polled\<rparr>) s \<and> implements sample_reached (spec_command env (mk_frame 0x87 [2]) s)
    \<and> wire_sent sample_reached = wire_stream (command_messages env (mk_frame 0x87 [2]) s)"
proof -
  obtain t where t: "pico_uart_transport_pop_command sample_polled = (Some (mk_frame 0x87 [2]), t)"
    using polled_mode_command [of 2] sample_command(2) by blast
  from commands_are_answered [OF sample_polled_facts(1), of "mk_frame 0x87 [2]" t] t sample_polled_facts(2,3)
  show ?thesis by (simp add: sample_reached_def)
qed

text \<open>
  C33: Credited events are accepted. If the queue has room for more events than QUEUE_EVENT commands are taken
  on a path from a reachable state, the next QUEUE_EVENT in ARMED or PLAYING, when the transmit ring has room for the 12 bytes
  of its BUFFER_STATUS, appends its offset and report to the queue and changes neither the mode nor the run: a sender
  that keeps to the free capacity it was told causes no protocol error as long as its acknowledgements can be
  sent. Without that room the acknowledgement is lost and the program enters a safe ERROR, credit or not.
\<close>

theorem credited_events_are_accepted:
  fixes w w1 :: "'e globals" and sdk :: "'e sdk" and off :: u64 and r :: hid_report
  assumes "fw_reachable sdk w" "fw_path sdk w ls w1" "pq_count (w_queue w) + event_count ls < 512"
    "mode_state w1 = PICO_UART_MODE_ARMED \<or> mode_state w1 = PICO_UART_MODE_PLAYING"
  defines "w2 \<equiv> dispatch_command sdk (mk_frame PICO_UART_QUEUE_EVENT (event_payload off r)) w1"
  shows "if length (tx_pending w1) + 12 \<le> 2048
    then pq_contents (w_queue w2) = pq_contents (w_queue w1) @ [(off, r)] \<and> mode_state w2 = mode_state w1
      \<and> w_sched w2 = w_sched w1 \<and> hid_out w2 = hid_out w1
    else safe_error w2"
  unfolding w2_def
  using queue_event_accepted [OF credited_event(1) [OF assms(1-3)] assms(4) credited_event(2) [OF assms(1-3)]]
    queue_event_not_acknowledged [OF credited_event(1) [OF assms(1-3)] assms(4) credited_event(2) [OF assms(1-3)]]
  by simp

theorem credited_events_are_accepted_witness:
  "mode_state (dispatch_command fifo_sdk (mk_frame PICO_UART_QUEUE_EVENT
     (event_payload 7 (report_of_bytes (replicate 8 0)))) sample_reached) = PICO_UART_MODE_ARMED"
proof -
  have "fw_path fifo_sdk (sample_init\<lparr>g_transport := sample_polled\<rparr>) [Command (mk_frame 0x87 [2])] sample_reached"
    using sample_command_step by auto
  from credited_events_are_accepted [OF sample_polled_facts(1) this, of 7 "report_of_bytes (replicate 8 0)"]
    sample_reached_facts(2) sample_reached_credit show ?thesis by (simp add: mode_defs is_event_def)
qed

text \<open>
  C34: PLAY_START in ARMED with a loaded queue enters PLAYING with all keys released first, keeps the
  queue, and sets the first deadline to the sampled start time plus the offset of the first event.
\<close>

theorem play_start_arms_the_first_event:
  fixes w :: "'e globals" and sdk :: "'e sdk"
  assumes "fw_inv w" "mode_state w = PICO_UART_MODE_ARMED" "pico_playback_queue_peek (w_queue w) = Some e"
  defines "w' \<equiv> dispatch_command sdk (mk_frame PICO_UART_PLAY_START []) w"
    and "t \<equiv> fst (sdk_time_us_64 sdk (hw w))"
  shows "mode_state w' = PICO_UART_MODE_PLAYING \<and> ps_running (w_sched w') \<and> w_queue w' = w_queue w
    \<and> ps_playback_start_us (w_sched w') = t \<and> ps_next_deadline_us (w_sched w') = t + qe_offset_us e
    \<and> sr_pending (g_safety w') \<and> hid_out w' = hid_out w"
proof -
  define w1 where "w1 = snd (time_us_64 sdk w)"
  have inv1: "fw_inv w1" and m1: "mode_state w1 = PICO_UART_MODE_ARMED" and q1: "w_queue w1 = w_queue w" "hid_out w1 = hid_out w"
    using assms(1,2) by (simp_all add: w1_def hw_ok time_us_64_def)
  note st = play_start_ok [OF inv1 m1, of sdk]
  define w3 where "w3 = snd (tx_frame PICO_UART_PLAY_STARTED (Some (write_u64_le t)) 8
     (snd (pico_mode_state_play_start (mode_cb sdk) w1)))"
  have w': "w' = pico_playback_scheduler_start (sched_cb sdk) sdk t w3"
    using st(1) by (simp add: w'_def dispatch_command_def zero_type_defs Let_def split_beta w1_def w3_def t_def
        time_us_64_def)
  have "ps_queue (w_sched w1)" "\<not> ps_running (w_sched w1)"
    using inv1 m1 by (auto simp: fw_inv_def fw_core_def fw_modes_def mode_defs)
  then have "ps_queue (w_sched w3)" "\<not> ps_running (w_sched w3)" "pico_playback_queue_peek (w_queue w3) = Some e"
    "mode_state w3 = PICO_UART_MODE_PLAYING" "w_queue w3 = w_queue w" "sr_pending (g_safety w3)" "hid_out w3 = hid_out w"
    using st(2) q1 assms(3) by (simp_all add: w3_def fw_core_def)
  with start_with_event [of w3 e "sched_cb sdk" sdk t] show ?thesis by (simp add: w')
qed

theorem play_start_arms_the_first_event_witness:
  "mode_state (dispatch_command fifo_sdk (mk_frame PICO_UART_PLAY_START [])
     (sample_armed\<lparr>w_queue := w_queue sample_playing\<rparr>)) = PICO_UART_MODE_PLAYING"
proof -
  have "fw_inv (sample_armed\<lparr>w_queue := w_queue sample_playing\<rparr>)"
    using sample_armed_facts sample_playing_queue(2)
    by (simp add: fw_inv_def fw_core_def fw_modes_def mode_defs sched_ok_def)
  from play_start_arms_the_first_event [OF this, of _ fifo_sdk] show ?thesis
    by (simp add: sample_armed_facts sample_playing_queue mode_defs)
qed

section \<open>Buffers and dispatch\<close>

text \<open>
  C35: The playback queue is a first-in first-out list of at most 512 events. A push is accepted exactly when it
  has a report of 8 bytes and fewer than 512 events are queued; then the event is appended, and otherwise the queue
  is unchanged. The head that is read without taking it is the oldest event, nothing when the queue is empty, and
  a later push does not change it. For any sequence of pushes and pops, every result and the final contents are those of
  a list to which a push appends while it is shorter than 512, and from whose front a pop takes.
\<close>

theorem playback_queue_is_a_fifo:
  assumes "pq_inv q"
  shows "(fst (pico_playback_queue_push off rep len q) \<longleftrightarrow> rep \<noteq> None \<and> len = 8 \<and> length (pq_contents q) < 512)
    \<and> (if fst (pico_playback_queue_push off rep len q)
       then pq_contents (snd (pico_playback_queue_push off rep len q)) = pq_contents q @ [(off, report_of_bytes (the rep))]
       else snd (pico_playback_queue_push off rep len q) = q)
    \<and> pq_head q = (case pq_contents q of [] \<Rightarrow> None | x # _ \<Rightarrow> Some x)
    \<and> (pq_head q \<noteq> None \<longrightarrow> pq_head (snd (pico_playback_queue_push off rep len q)) = pq_head q)
    \<and> map_prod id pq_contents (fifo_run pq_enqueue pq_dequeue ops q) = fifo_run (list_push 512) list_pop ops (pq_contents q)"
proof -
  let ?push = "pico_playback_queue_push off rep len q"
  have le: "pq_count q \<le> 512" using assms by (simp add: pq_inv_def)
  have ok: "fst ?push \<longleftrightarrow> rep \<noteq> None \<and> len = 8 \<and> length (pq_contents q) < 512"
    using le by (cases rep) (auto simp: pico_playback_queue_push_def Let_def)
  have refused: "snd ?push = q" if "\<not> fst ?push"
    using that by (cases rep) (auto simp: pico_playback_queue_push_def Let_def split: if_splits)
  have same: "?push = pq_enqueue (off, report_of_bytes (the rep)) q" if "fst ?push"
    using that ok by (auto simp: pq_enqueue_def pico_playback_queue_push_def)
  have "pq_contents (snd ?push) = pq_contents q @ [(off, report_of_bytes (the rep))]" if "fst ?push"
    using pqf.push_room [OF assms] ok that same [OF that] by simp
  moreover have "pq_head (snd ?push) = pq_head q" if "pq_head q \<noteq> None"
  proof (cases "fst ?push")
    case True
    with pqf.peek_stable_under_push [OF assms TrueI] that same show ?thesis by (metis option.exhaust)
  qed (simp add: refused)
  moreover have "map_prod id pq_contents (fifo_run pq_enqueue pq_dequeue ops q) = fifo_run (list_push 512) list_pop ops (pq_contents q)"
    using pqf.run_refines [OF assms, of ops] by simp
  ultimately show ?thesis using ok refused pqf.peek_contents [OF assms] by simp
qed

theorem playback_queue_is_a_fifo_witness:
  "\<not> fst (pico_playback_queue_push 1 (Some (replicate 8 0)) 8 full_queue)
    \<and> fst (fifo_run pq_enqueue pq_dequeue [Pop, Push (1, report_of_bytes (replicate 8 0))] full_queue)
      = [Popped (Some (0, report_of_bytes (replicate 8 0))), Pushed True]"
proof -
  have "pq_contents full_queue = replicate 512 (0, report_of_bytes (replicate 8 0))"
    using full_queue_inv by (intro replicate_eqI) (auto simp: pq_contents_def pq_view_def ring_view_def full_queue_def pq_pair_def)
  then have head: "pq_contents full_queue = (0, report_of_bytes (replicate 8 0)) # replicate 511 (0, report_of_bytes (replicate 8 0))"
    by (simp flip: replicate_Suc)
  note law = playback_queue_is_a_fifo [OF full_queue_inv(1), of 1 "Some (replicate 8 0)" 8 "[Pop, Push (1, report_of_bytes (replicate 8 0))]"]
  from law have "fst (fifo_run pq_enqueue pq_dequeue [Pop, Push (1, report_of_bytes (replicate 8 0))] full_queue)
      = fst (fifo_run (list_push 512) list_pop [Pop, Push (1, report_of_bytes (replicate 8 0))] (pq_contents full_queue))"
    by (metis fst_map_prod id_apply)
  moreover have "\<dots> = [Popped (Some (0, report_of_bytes (replicate 8 0))), Pushed True]"
    unfolding head by (simp add: list_push_def)
  ultimately show ?thesis using law full_queue_inv(2) by simp
qed

text \<open>
  C36: What is typed reaches the PC. On any path that begins and ends in PASS, or in RECORD, and has no MODE_SET command on it, with the
  keyboard plugged in all the time, all reports from it, and no release pending at the beginning, the reports the PC got followed by
  those captured and not yet sent grow by the reports of the keyboard, in order and once each; one may be missing only
  because it was not captured, and all are there when they fit into the capture FIFO together with what it held.
\<close>

theorem typed_reports_reach_the_pc:
  assumes "fw_reachable sdk w" "fw_path sdk w ls w'" "mode_state w = PICO_UART_MODE_PASS \<or> mode_state w = PICO_UART_MODE_RECORD"
    "mode_state w' = mode_state w" "\<forall>l \<in> set ls. \<not> sets_mode l" "\<not> sr_pending (g_safety w)"
    "is_keyboard dev ins (g_host w)" "\<forall>l \<in> set ls. from_keyboard (dev, ins) l"
  shows "\<exists>reports. subseq reports (concat (map typed ls))
    \<and> hid_out w' @ reports_of (kc_contents (g_capture w')) = hid_out w @ reports_of (kc_contents (g_capture w)) @ map report_bytes reports
    \<and> (kc_count (g_capture w) + length (concat (map typed ls)) \<le> 16 \<longrightarrow> reports = concat (map typed ls))"
proof -
  from assms obtain s s' cap where "implements w s" "implements w' s'" "typed_law cap s s'" "subseq (map snd cap) (concat (map typed ls))"
    "kc_count (g_capture w) + length (concat (map typed ls)) \<le> 16 \<longrightarrow> map snd cap = concat (map typed ls)" by (rule reachable_typing)
  with typed_conserved show ?thesis by blast
qed

theorem typed_reports_reach_the_pc_witness:
  "hid_out (pressed (key_mounted [])) @ reports_of (kc_contents (g_capture (pressed (key_mounted [])))) = [key_report]"
proof -
  have start: "hid_out (key_mounted []) = []" "kc_contents (g_capture (key_mounted [])) = []" "kc_count (g_capture (key_mounted [])) = 0"
    by (simp_all add: key_mounted_def) (simp_all add: main_init_def pico_keyboard_capture_init_def)
  from typed_reports_reach_the_pc [OF key_mounted_facts(1) key_press_path(1) [OF key_mounted_facts(1,3)], of "[]" 1 0]
    key_mounted_facts(2-4) [of "[]"] key_press_path(2) [OF key_mounted_facts(1,3)]
  show ?thesis by (simp add: key_press_labels start mode_defs report_bytes_inverse)
qed



section \<open>Runs and underruns\<close>

text \<open>
  C38: What a run reports at its end is what happened in it. Take a run from PLAY_START on, over any rounds of the
  playback task with other steps between them: when it ends by itself, the PLAY_METRICS that follows PLAY_FINISHED on the wire, and
  when it is stopped, the one that follows PLAY_ABORTED, carries the number of dispatches of the run, the least and the greatest
  lateness, their sum, and the nearest-rank 95th and 99th percentile of the first 2048 of them, marked when there
  were more. The lateness of a dispatch is the clock after the endpoint took the report less its deadline, the start of the run plus
  the offset of the event, clamped to 32 bits. This holds for a run of at least one and fewer than 2^32 - 1
  dispatches, when the transmit ring has room for these messages. The count of underruns, which is reported as well, is
  not part of this.
\<close>

theorem run_report_is_right:
  fixes w :: "'e globals" and sdk :: "'e sdk"
  assumes "play_run sdk start ds w" "mode_state w = PICO_UART_MODE_PLAYING" "length ds < 2 ^ 32 - 2" "length (tx_pending w) + 56 \<le> 2048"
  shows "(\<forall>go w'. task_round (sched_cb sdk) sdk w = (go, w') \<longrightarrow> mode_state w' \<noteq> PICO_UART_MODE_PLAYING
      \<longrightarrow> ds @ dispatches start sdk w w' \<noteq> []
      \<longrightarrow> (\<exists>m. reports_run (map lateness (ds @ dispatches start sdk w w')) m
          \<and> wire_sent w' = wire_sent w @ wire_stream [(PICO_UART_PLAY_FINISHED, []), (PICO_UART_PLAY_METRICS, metrics_payload m),
              (PICO_UART_MODE_CHANGED, [PICO_UART_MODE_ARMED, PICO_UART_REASON_FINISHED])]))
    \<and> (ds \<noteq> [] \<longrightarrow> (\<exists>m. reports_run (map lateness ds) m
          \<and> wire_sent (pico_playback_scheduler_stop (sched_cb sdk) sdk w)
            = wire_sent w @ wire_stream [(PICO_UART_PLAY_ABORTED, []), (PICO_UART_PLAY_METRICS, metrics_payload m)]))"
proof (intro conjI allI impI)
  fix go w'
  assume last: "task_round (sched_cb sdk) sdk w = (go, w')" "mode_state w' \<noteq> PICO_UART_MODE_PLAYING" "ds @ dispatches start sdk w w' \<noteq> []"
  have "length (ds @ dispatches start sdk w w') < 2 ^ 32 - 1" using assms(3) dispatches_cases [of start sdk w w'] by auto
  from run_finished_report [OF assms(1,2) last this assms(4)]
  show "\<exists>m. reports_run (map lateness (ds @ dispatches start sdk w w')) m
      \<and> wire_sent w' = wire_sent w @ wire_stream [(PICO_UART_PLAY_FINISHED, []), (PICO_UART_PLAY_METRICS, metrics_payload m),
          (PICO_UART_MODE_CHANGED, [PICO_UART_MODE_ARMED, PICO_UART_REASON_FINISHED])]" .
next
  assume "ds \<noteq> []"
  with run_stopped_report [OF assms(1,2)] assms(3,4)
  show "\<exists>m. reports_run (map lateness ds) m \<and> wire_sent (pico_playback_scheduler_stop (sched_cb sdk) sdk w)
      = wire_sent w @ wire_stream [(PICO_UART_PLAY_ABORTED, []), (PICO_UART_PLAY_METRICS, metrics_payload m)]" by simp
qed

theorem run_report_is_right_witness:
  "\<exists>m. reports_run [0] m \<and> pm_dispatched_count m = 1
    \<and> wire_sent sample_played = wire_sent sample_started @ wire_stream [(PICO_UART_PLAY_FINISHED, []),
        (PICO_UART_PLAY_METRICS, metrics_payload m), (PICO_UART_MODE_CHANGED, [PICO_UART_MODE_ARMED, PICO_UART_REASON_FINISHED])]"
proof -
  from run_report_is_right [OF sample_started_run sample_started_facts(1)] sample_started_facts(6) sample_played_round(1,3) sample_played_dispatches
  obtain m where "reports_run [0] m" "wire_sent sample_played = wire_sent sample_started @ wire_stream [(PICO_UART_PLAY_FINISHED, []),
        (PICO_UART_PLAY_METRICS, metrics_payload m), (PICO_UART_MODE_CHANGED, [PICO_UART_MODE_ARMED, PICO_UART_REASON_FINISHED])]"
    by fastforce
  then show ?thesis by (intro exI [of _ m]) (simp add: reports_run_def)
qed

text \<open>
  C39: An underrun is reported once and is quiet until the watchdog. When a call of the playback task in PLAYING begins an
  underrun, the last thing it does with the hardware is to read the clock, at a time \<open>since\<close>; the callback that reports the underrun to the
  Zero gets the time since the start of the run and the full capacity of 512, and the count of underruns
  grows by one. From there, along any path in PLAYING without QUEUE_EVENT and QUEUE_END, scheduler and queue stay
  as they are, a further call of the task does nothing, and the watchdog of the main loop enters ERROR exactly when the clock it
  reads shows at least two seconds after \<open>since\<close>.
\<close>

theorem underrun_is_quiet_until_the_watchdog:
  fixes w w1 v :: "'e globals" and sdk :: "'e sdk"
  assumes "fw_inv w" "fw_step sdk w Playback w1" "\<not> ps_underrun_active (w_sched w)" "ps_underrun_active (w_sched w1)"
    "fw_path sdk w1 ls v" "mode_state v = PICO_UART_MODE_PLAYING" "\<forall>l \<in> set ls. \<not> streams l"
  shows "\<exists>x since u. sdk_time_us_64 sdk x = (since, hw w1) \<and> hw u = hw w1
    \<and> w1 = playback_underrun (if ps_playback_start_us (w_sched w1) \<le> since then since - ps_playback_start_us (w_sched w1) else 0) 512 u
    \<and> ps_underrun_count (w_sched w1) = ps_underrun_count (w_sched w) + 1
    \<and> w_sched v = w_sched w1 \<and> w_queue v = w_queue w1
    \<and> pico_playback_scheduler_task (sched_cb sdk) sdk v = Some v
    \<and> (mode_state (watchdog_step sdk v) = PICO_UART_MODE_ERROR \<longleftrightarrow> unat since + 2000000 \<le> unat (fst (sdk_time_us_64 sdk (hw v))))"
proof -
  from underrun_and_after [OF assms] obtain x u where
    "underrun_report sdk (ps_underrun_count (w_sched w)) x w1" "same_play w1 v"
    "pico_playback_scheduler_task (sched_cb sdk) sdk v = Some v"
    "mode_state (watchdog_step sdk v) = PICO_UART_MODE_ERROR \<longleftrightarrow> unat (fst (sdk_time_us_64 sdk x)) + 2000000 \<le> unat (fst (sdk_time_us_64 sdk (hw v)))"
    "hw u = snd (sdk_time_us_64 sdk x)" "hw w1 = snd (sdk_time_us_64 sdk x)"
    "w1 = playback_underrun (if ps_playback_start_us (w_sched w1) \<le> fst (sdk_time_us_64 sdk x)
        then fst (sdk_time_us_64 sdk x) - ps_playback_start_us (w_sched w1) else 0) 512 u" by blast
  then show ?thesis
    by (intro exI [of _ x] exI [of _ "fst (sdk_time_us_64 sdk x)"] exI [of _ u]) (simp add: underrun_report_def same_play_def)
qed

theorem underrun_is_quiet_until_the_watchdog_witness:
  "pico_playback_scheduler_task (sched_cb fifo_sdk) fifo_sdk sample_dry = Some sample_dry
    \<and> ps_underrun_count (w_sched sample_dry) = 1 \<and> mode_state (watchdog_step fifo_sdk sample_dry) \<noteq> PICO_UART_MODE_ERROR"
proof -
  have "ps_underrun_count (w_sched sample_playing) = 0" by (simp add: sample_playing_def) (simp add: start_run_def)
  moreover have "sdk_time_us_64 fifo_sdk e = (0, e)" for e by (simp add: fifo_sdk_def)
  ultimately show ?thesis
    using underrun_is_quiet_until_the_watchdog [OF sample_playing_inv(1) sample_dry_facts(1,2,3) path_Nil sample_dry_facts(4)] by auto
qed

section \<open>Descriptors\<close>

text \<open>
  C40: A string descriptor fits its buffer of 33 words: for the four known indices the header says its
  type and its length in bytes, the text follows, and nothing is written beyond the buffer, provided
  that the board stores at most the 32 words it is asked for; any other index is refused.
\<close>

theorem string_descriptor_fits:
  fixes index :: u8 and get :: "nat \<Rightarrow> u16 list"
  assumes "length buf = 33" "length (get 32) \<le> 32"
  defines "ws \<equiv> descriptor_text get index"
  shows "if index < 4
    then \<exists>b. tud_descriptor_string_cb ds get index buf = (Some b, b) \<and> length b = 33
      \<and> b ! 0 = or (push_bit 8 ds) (of_nat (2 * length ws + 2))
      \<and> take (length ws) (drop 1 b) = ws \<and> 2 * length ws + 2 \<le> 66
    else tud_descriptor_string_cb ds get index buf = (None, buf)"
proof (cases "index < 4")
  case True
  have short: "length ws \<le> 32" using descriptor_text_short [of index get, OF True assms(2)] by (simp add: ws_def)
  then have "length (put_words ws buf) = 33" "take (length ws) (drop 1 (put_words ws buf)) = ws"
    using length_put_words [of buf ws] put_words_take [of buf ws] assms(1) by simp_all
  with True short string_cb_eq [OF assms(1) True, of ds get] show ?thesis
    by (simp add: ws_def [symmetric] Let_def)
next
  case False
  then have "4 \<le> unat index" by (simp add: word_le_nat_alt not_less)
  moreover from False have "index \<noteq> STRID_LANGID" "index \<noteq> STRID_SERIAL"
    by (auto simp: STRID_LANGID_def STRID_SERIAL_def)
  ultimately show ?thesis using False by (simp add: tud_descriptor_string_cb_def string_descriptors_def)
qed

theorem string_descriptor_fits_witness:
  "\<exists>b. tud_descriptor_string_cb 3 (\<lambda>n. replicate n 0x30) 2 (replicate 33 0) = (Some b, b) \<and> length b = 33 \<and> b ! 0 = 0x032A"
proof -
  have "descriptor_text (\<lambda>n. replicate n 0x30) 2 = map ucast (map of_char ''Pico 2 Boot Keyboard'' :: u8 list)"
    by (simp add: descriptor_text_def STRID_LANGID_def STRID_SERIAL_def string_descriptors_def)
  with string_descriptor_fits [of "replicate 33 0" "\<lambda>n. replicate n 0x30" 2 3] show ?thesis by auto
qed

end
